(* ===== verification/Prelude.thy ===== *)
theory Prelude
  imports Main "HOL-Library.Word"
begin

text \<open>
  Shared vocabulary of the development: the machine types of the C++ sources, the way
  exceptions and undefined behaviour are represented, and the generic lemmas on lists,
  association lists and byte encodings that the component theories use.

  The model follows the release build of the library: \<^verbatim>\<open>WISE_ASSERT\<close>, \<^verbatim>\<open>WISE_EXPECT\<close>
  and \<^verbatim>\<open>WISE_ENSURE\<close> evaluate their condition and log, but do not stop the
  operation (\<^verbatim>\<open>include/wise.kernel/core/macros.hpp\<close>, \<^verbatim>\<open>WISE_ENABLE_RELEASE_CHECK\<close>).
  A throw of \<^verbatim>\<open>wise::kernel::exception\<close> and an access the C++ standard leaves undefined
  are values of the sum type below, never silently totalised.
\<close>

section \<open>Types\<close>

type_synonym byte = "8 word"
type_synonym u16 = "16 word"
type_synonym u32 = "32 word"
type_synonym u64 = "64 word"

text \<open>
  How an operation can fail to return normally: a thrown exception, or behaviour the
  language leaves undefined (null dereference, access outside an allocated block).
\<close>

datatype fault = Throw string | Undef string

type_synonym 'a res = "fault + 'a"

definition bind_res :: "'a res \<Rightarrow> ('a \<Rightarrow> 'b res) \<Rightarrow> 'b res" where
  "bind_res m f = (case m of Inl e \<Rightarrow> Inl e | Inr a \<Rightarrow> f a)"

lemma bind_res_simps [simp]:
  "bind_res (Inl e) f = Inl e"
  "bind_res (Inr a) f = f a"
  by (simp_all add: bind_res_def)

lemma bind_res_Inr_iff:
  "bind_res m f = Inr b \<longleftrightarrow> (\<exists>a. m = Inr a \<and> f a = Inr b)"
  by (cases m) auto

lemma bind_res_cong [fundef_cong]:
  "m = m' \<Longrightarrow> (\<And>a. m' = Inr a \<Longrightarrow> f a = f' a) \<Longrightarrow> bind_res m f = bind_res m' f'"
  by (cases m) auto

section \<open>Unsigned subtraction\<close>

text \<open>A \<^verbatim>\<open>size_t\<close> is a natural number; its subtraction wraps around at \<open>2 ^ 64\<close>.\<close>

definition usub :: "nat \<Rightarrow> nat \<Rightarrow> nat" where
  "usub a b = (if b \<le> a then a - b else 2 ^ 64 - (b - a))"

lemma usub_le [simp]: "b \<le> a \<Longrightarrow> usub a b = a - b"
  by (simp add: usub_def)

section \<open>Collections of facts\<close>

named_theorems byte_simps "little-endian byte encodings and their inverses"
named_theorems inv_intros "operations that keep a component's invariant"

section \<open>Lists\<close>

lemma take_append_exact [simp]: "length xs = n \<Longrightarrow> take n (xs @ ys) = xs"
  by simp

lemma drop_append_exact [simp]: "length xs = n \<Longrightarrow> drop n (xs @ ys) = ys"
  by simp

text \<open>Overwriting the cells of \<open>xs\<close> from index \<open>i\<close> on with \<open>ys\<close>, as a \<^verbatim>\<open>memcpy\<close> does.\<close>

definition splice :: "nat \<Rightarrow> 'a list \<Rightarrow> 'a list \<Rightarrow> 'a list" where
  "splice i ys xs = take i xs @ ys @ drop (i + length ys) xs"

lemma length_splice [simp]: "i + length ys \<le> length xs \<Longrightarrow> length (splice i ys xs) = length xs"
  by (simp add: splice_def)

lemma take_splice_end:
  "i + length ys \<le> length xs \<Longrightarrow> take (i + length ys) (splice i ys xs) = take i xs @ ys"
  by (simp add: splice_def)

lemma take_splice_before:
  "k \<le> i \<Longrightarrow> i \<le> length xs \<Longrightarrow> take k (splice i ys xs) = take k xs"
  by (simp add: splice_def min_absorb1)

lemma splice_splice_adjacent:
  assumes "i + length ys + length zs \<le> length xs"
  shows "splice (i + length ys) zs (splice i ys xs) = splice i (ys @ zs) xs"
proof -
  have "min (length xs) i = i"
    using assms by simp
  then show ?thesis
    by (simp add: splice_def drop_drop ac_simps)
qed

lemma drop_splice_after:
  "i + length ys \<le> k \<Longrightarrow> i + length ys \<le> length xs \<Longrightarrow> drop k (splice i ys xs) = drop k xs"
  by (auto simp: splice_def drop_drop)

lemma take_splice_within:
  assumes "i + length ys \<le> n" "n \<le> length xs"
  shows "take n (splice i ys xs) = splice i ys (take n xs)"
proof -
  have "take n (splice i ys xs) = take i xs @ ys @ take (n - (i + length ys)) (drop (i + length ys) xs)"
    using assms by (simp add: splice_def min_absorb1)
  also have "\<dots> = splice i ys (take n xs)"
    using assms by (simp add: splice_def drop_take min_absorb1)
  finally show ?thesis .
qed

lemma splice_at_prefix:
  "length a = i \<Longrightarrow> splice i ys (a @ xs) = a @ ys @ drop (length ys) xs"
  by (auto simp: splice_def)

lemma nth_splice_inside:
  "i + length ys \<le> length xs \<Longrightarrow> k < length ys \<Longrightarrow> splice i ys xs ! (i + k) = ys ! k"
  by (simp add: splice_def nth_append)

section \<open>Decimal numbers\<close>

text \<open>A number as an output stream prints it.\<close>

fun digits :: "nat \<Rightarrow> string" where
  "digits n = (if n < 10 then [char_of (48 + n)] else digits (n div 10) @ [char_of (48 + n mod 10)])"

declare digits.simps [simp del]

section \<open>Little-endian byte encodings\<close>

text \<open>
  The \<open>n\<close> low bytes of a number, least significant first, and the number a byte list
  denotes: the memory layout the wire format of the bits protocol fixes.
\<close>

fun le_bytes :: "nat \<Rightarrow> nat \<Rightarrow> byte list" where
  "le_bytes 0 x = []"
| "le_bytes (Suc n) x = word_of_nat (x mod 256) # le_bytes n (x div 256)"

fun le_nat :: "byte list \<Rightarrow> nat" where
  "le_nat [] = 0"
| "le_nat (b # bs) = unat b + 256 * le_nat bs"

lemma length_le_bytes [simp]: "length (le_bytes n x) = n"
  by (induction n x rule: le_bytes.induct) simp_all

lemma unat_byte_of_nat: "unat (word_of_nat (x mod 256) :: byte) = x mod 256"
  by (simp add: unat_of_nat)

lemma le_nat_le_bytes [byte_simps]: "le_nat (le_bytes n x) = x mod 256 ^ n"
proof (induction n x rule: le_bytes.induct)
  case (1 x)
  then show ?case by simp
next
  case (2 n x)
  have "x mod 256 ^ Suc n = x mod 256 + 256 * (x div 256 mod 256 ^ n)"
    by (simp add: mod_mult2_eq)
  with 2 show ?case by (simp only: le_nat.simps le_bytes.simps unat_byte_of_nat)
qed

lemma le_nat_bound: "le_nat bs < 256 ^ length bs"
proof (induction bs)
  case Nil
  then show ?case by simp
next
  case (Cons b bs)
  have "unat b < 256"
    using unsigned_less [of b, where 'a = nat] by simp
  with Cons show ?case by simp
qed

lemma le_bytes_le_nat [byte_simps]: "le_bytes (length bs) (le_nat bs) = bs"
proof (induction bs)
  case Nil
  then show ?case by simp
next
  case (Cons b bs)
  have b: "unat b < 256"
    using unsigned_less [of b, where 'a = nat] by simp
  then have "(unat b + 256 * le_nat bs) mod 256 = unat b"
    and "(unat b + 256 * le_nat bs) div 256 = le_nat bs"
    by simp_all
  with Cons show ?case by simp
qed

text \<open>A machine word as the bytes of its little-endian representation, and back.\<close>

definition word_bytes :: "nat \<Rightarrow> 'a::len word \<Rightarrow> byte list" where
  "word_bytes n w = le_bytes n (unat w)"

definition bytes_word :: "byte list \<Rightarrow> 'a::len word" where
  "bytes_word bs = word_of_nat (le_nat bs)"

lemma length_word_bytes [simp]: "length (word_bytes n w) = n"
  by (simp add: word_bytes_def)

lemma bytes_word_word_bytes [byte_simps]:
  assumes "LENGTH('a::len) = 8 * n"
  shows "bytes_word (word_bytes n (w :: 'a word)) = w"
proof -
  have "(256::nat) ^ n = 2 ^ LENGTH('a)"
    using assms by (simp add: power_mult)
  then have "unat w mod 256 ^ n = unat w"
    using unsigned_less [of w, where 'a = nat] by simp
  then show ?thesis
    by (simp add: bytes_word_def word_bytes_def le_nat_le_bytes)
qed

lemma word_bytes_bytes_word [byte_simps]:
  assumes "LENGTH('a::len) = 8 * length bs"
  shows "word_bytes (length bs) (bytes_word bs :: 'a word) = bs"
proof -
  have "(2::nat) ^ LENGTH('a) = 256 ^ length bs"
    using assms by (simp add: power_mult)
  then have "unat (word_of_nat (le_nat bs) :: 'a word) = le_nat bs"
    using le_nat_bound [of bs] by (simp add: unat_of_nat)
  then show ?thesis
    by (simp add: bytes_word_def word_bytes_def le_bytes_le_nat)
qed

end
