(* ===== verification/Concurrent_Queue.thy ===== *)
theory Concurrent_Queue
  imports Prelude
begin

text \<open>
  \<^verbatim>\<open>concurrent_queue<T>\<close> (\<^verbatim>\<open>include/wise.kernel/core/concurrent_queue.inl\<close>): the
  mutex-protected \<^verbatim>\<open>std::deque\<close> variant. Every operation holds the lock, so it is one
  atomic step on the list of queued values. The locale \<open>fifo\<close> is what the channel, the task
  scheduler, the object pool and the memory tracker rely on.
\<close>

section \<open>The queue\<close>

(* [include/wise.kernel/core/concurrent_queue.inl:43-48 concurrent_queue::push] *)
definition cq_push :: "'a \<Rightarrow> 'a list \<Rightarrow> 'a list" where
  "cq_push v q = q @ [v]"

(* [include/wise.kernel/core/concurrent_queue.inl:50-64 concurrent_queue::pop] *)
definition cq_pop :: "'a list \<Rightarrow> ('a \<times> 'a list) option" where
  "cq_pop q = (case q of [] \<Rightarrow> None | v # vs \<Rightarrow> Some (v, vs))"

(* [include/wise.kernel/core/concurrent_queue.inl:66-71 concurrent_queue::empty] *)
definition cq_empty :: "'a list \<Rightarrow> bool" where
  "cq_empty q = (q = [])"

(* [include/wise.kernel/core/concurrent_queue.inl:73-79 concurrent_queue::unsafe_size] *)
definition cq_size :: "'a list \<Rightarrow> nat" where
  "cq_size q = length q"

lemma cq_pop_simps [simp]: "cq_pop [] = None" "cq_pop (v # vs) = Some (v, vs)"
  by (simp_all add: cq_pop_def)

lemma cq_pop_None_iff: "cq_pop q = None \<longleftrightarrow> q = []"
  by (cases q) auto

lemma cq_pop_length [termination_simp]: "cq_pop q = Some (v, q') \<Longrightarrow> length q' < length q"
  by (cases q) auto

section \<open>First in, first out\<close>

locale fifo =
  fixes push :: "'a \<Rightarrow> 'q \<Rightarrow> 'q"
    and pop :: "'q \<Rightarrow> ('a \<times> 'q) option"
    and items :: "'q \<Rightarrow> 'a list"
  assumes items_push: "items (push v q) = items q @ [v]"
    and pop_None: "pop q = None \<longleftrightarrow> items q = []"
    and pop_Some: "pop q = Some (v, q') \<Longrightarrow> items q = v # items q'"
begin

fun pushes :: "'a list \<Rightarrow> 'q \<Rightarrow> 'q" where
  "pushes [] q = q"
| "pushes (v # vs) q = pushes vs (push v q)"

fun pops :: "nat \<Rightarrow> 'q \<Rightarrow> 'a list \<times> 'q" where
  "pops 0 q = ([], q)"
| "pops (Suc n) q = (case pop q of None \<Rightarrow> ([], q)
     | Some (v, q') \<Rightarrow> (let (vs, q'') = pops n q' in (v # vs, q'')))"

lemma items_pushes: "items (pushes vs q) = items q @ vs"
  by (induction vs q rule: pushes.induct) (simp_all add: items_push)

lemma pops_take: "fst (pops n q) = take n (items q) \<and> items (snd (pops n q)) = drop n (items q)"
proof (induction n q rule: pops.induct)
  case (2 n q)
  show ?case
  proof (cases "pop q")
    case None
    moreover have "items q = []" using None pop_None [of q] by blast
    ultimately show ?thesis by simp
  next
    case (Some vq)
    then obtain v q' where vq: "pop q = Some (v, q')" by (cases vq) auto
    then show ?thesis using "2.IH" [OF vq] pop_Some [OF vq] by (simp add: case_prod_beta)
  qed
qed simp

lemma fifo_order:
  "items q = [] \<Longrightarrow> fst (pops (length vs) (pushes vs q)) = vs \<and> pop (snd (pops (length vs) (pushes vs q))) = None"
  by (simp add: pops_take items_pushes pop_None)

end

interpretation cq: fifo cq_push cq_pop "\<lambda>q. q"
  by unfold_locales (auto simp: cq_push_def cq_pop_def split: list.splits)

end
