(* ===== verification/Object_Pool.thy ===== *)
theory Object_Pool
  imports Concurrent_Queue
begin

text \<open>
  \<^verbatim>\<open>object_pool<Obj>\<close> (\<^verbatim>\<open>include/wise.kernel/core/object_pool.hpp\<close>): recycled objects kept in
  a concurrent queue, with two \<^verbatim>\<open>std::size_t\<close> counters (64-bit words here, so a decrement below
  zero wraps as in the code). Objects are addresses; the address \<^verbatim>\<open>allocator_.allocate(1)\<close>
  returns is an argument of \<open>op_alloc\<close>.
\<close>

(* [include/wise.kernel/core/object_pool.hpp:162-171 object_pool] *)
record obj_pool =
  op_q :: "nat list"
  pool_free_count :: u64
  pool_alloc_count :: u64

(* [include/wise.kernel/core/object_pool.hpp:62-65 object_pool::object_pool] *)
definition mk_object_pool :: obj_pool where
  "mk_object_pool = \<lparr>op_q = [], pool_free_count = 0, pool_alloc_count = 0\<rparr>"

(* [include/wise.kernel/core/object_pool.hpp:110-131 alloc] *)
definition op_alloc :: "nat \<Rightarrow> obj_pool \<Rightarrow> nat \<times> obj_pool" where
  "op_alloc os p =
     (case cq_pop (op_q p) of
        Some (ob, q) \<Rightarrow> (ob, p\<lparr>op_q := q, pool_free_count := pool_free_count p - 1,
                                 pool_alloc_count := pool_alloc_count p + 1\<rparr>)
      | None \<Rightarrow> (os, p\<lparr>pool_alloc_count := pool_alloc_count p + 1\<rparr>))"

(* [include/wise.kernel/core/object_pool.hpp:133-142 dealloc] *)
definition op_dealloc :: "nat \<Rightarrow> obj_pool \<Rightarrow> obj_pool" where
  "op_dealloc ob p =
     p\<lparr>pool_alloc_count := pool_alloc_count p - 1, op_q := cq_push ob (op_q p),
       pool_free_count := pool_free_count p + 1\<rparr>"

text \<open>
  \<open>create_raw\<close> runs the constructor in place on the storage \<open>alloc\<close> gives; \<open>destroy\<close> runs the
  destructor before \<open>dealloc\<close>. Neither touches the pool, so they are \<open>op_alloc\<close> and \<open>op_dealloc\<close>.
\<close>

(* [include/wise.kernel/core/object_pool.hpp:82-90 create_raw] *)
definition op_create_raw :: "nat \<Rightarrow> obj_pool \<Rightarrow> nat \<times> obj_pool" where
  "op_create_raw os p = (let (ob, p') = op_alloc os p in (ob, p'))"

(* [include/wise.kernel/core/object_pool.hpp:92-97 destroy] *)
definition op_destroy :: "nat \<Rightarrow> obj_pool \<Rightarrow> obj_pool" where
  "op_destroy ob p = op_dealloc ob p"

text \<open>\<open>cleanup\<close> returns the addresses handed back to the allocator, in order.\<close>

(* [include/wise.kernel/core/object_pool.hpp:144-160 cleanup] *)
definition op_cleanup :: "obj_pool \<Rightarrow> (nat list \<times> obj_pool) res" where
  "op_cleanup p =
     (if pool_alloc_count p > 0 then Inl (Throw ''objects not freed'')
      else Inr (op_q p, p\<lparr>op_q := []\<rparr>))"

section \<open>No object is handed out twice\<close>

text \<open>
  \<open>live\<close> is the list of objects clients hold. The counters agree with the lists modulo
  \<open>2 ^ 64\<close>, whatever the number of operations.
\<close>

definition op_inv :: "obj_pool \<Rightarrow> nat list \<Rightarrow> bool" where
  "op_inv p live \<longleftrightarrow> distinct (op_q p @ live) \<and>
     pool_free_count p = word_of_nat (length (op_q p)) \<and>
     pool_alloc_count p = word_of_nat (length live)"

lemma op_inv_init: "op_inv mk_object_pool []"
  by (simp add: op_inv_def mk_object_pool_def)

lemma op_alloc_inv [inv_intros]:
  assumes "op_inv p live" "os \<notin> set (op_q p) \<union> set live" "op_alloc os p = (ob, p')"
  shows "ob \<notin> set live" "op_inv p' (ob # live)"
  using assms by (auto simp: op_inv_def op_alloc_def split: list.splits option.splits) (cases "op_q p"; auto)+

lemma length_remove1_word:
  "x \<in> set xs \<Longrightarrow> (word_of_nat (length (remove1 x xs)) :: u64) = word_of_nat (length xs) - 1"
  by (cases "length xs") (simp_all add: length_remove1)

lemma op_destroy_inv [inv_intros]:
  "op_inv p live \<Longrightarrow> ob \<in> set live \<Longrightarrow> op_inv (op_destroy ob p) (remove1 ob live)"
  by (auto simp: op_inv_def op_destroy_def op_dealloc_def cq_push_def length_remove1_word
      set_remove1_eq)

text \<open>
  An object pool never hands the same object to two holders: with every counter and list in
  agreement, \<open>create_raw\<close> returns an object nobody holds (whether it comes from the queue or from the
  allocator) and the agreement holds again after it and after \<open>destroy\<close> of any held object.
\<close>

theorem object_pool_exclusive:
  assumes "op_inv p live" and "os \<notin> set (op_q p) \<union> set live"
    and "op_create_raw os p = (ob, p')"
  shows "ob \<notin> set live \<and> op_inv p' (ob # live) \<and>
         (\<forall>x. x \<in> set (ob # live) \<longrightarrow> op_inv (op_destroy x p') (remove1 x (ob # live)))"
  using op_alloc_inv [OF assms(1,2)] assms(3) op_destroy_inv
  by (auto simp: op_create_raw_def simp del: remove1.simps)

theorem object_pool_exclusive_witness:
  "op_inv (op_destroy 7 (snd (op_create_raw 7 mk_object_pool))) []
   \<and> op_create_raw 9 (op_destroy 7 (snd (op_create_raw 7 mk_object_pool))) =
       (7, snd (op_create_raw 9 (op_destroy 7 (snd (op_create_raw 7 mk_object_pool)))))"
proof -
  have i: "op_inv mk_object_pool []" by (rule op_inv_init)
  have "op_create_raw 7 mk_object_pool = (7, snd (op_create_raw 7 mk_object_pool))"
    by (simp add: op_create_raw_def op_alloc_def mk_object_pool_def)
  moreover have "(7::nat) \<notin> set (op_q mk_object_pool) \<union> set []"
    by (simp add: mk_object_pool_def)
  ultimately have "op_inv (op_destroy 7 (snd (op_create_raw 7 mk_object_pool))) (remove1 7 [7])"
    using object_pool_exclusive [OF i] by (metis list.set_intros(1))
  then show ?thesis
    by (simp add: op_create_raw_def op_alloc_def mk_object_pool_def op_destroy_def op_dealloc_def
        cq_push_def)
qed

end
