(* ===== verification/Buffer_Pool.thy ===== *)
theory Buffer_Pool
  imports Concurrent_Queue
begin

text \<open>
  The block pools behind every network buffer:
  \<^verbatim>\<open>fixed_size_buffer_pool\<close> (blocks of one size, recycled through a concurrent queue, with
  a per-block life-cycle state) and \<^verbatim>\<open>multiple_size_buffer_pool\<close> (sixteen fixed pools, sizes
  64 bytes to 2 MB, larger requests straight from the operating system).

  A block carries its bytes, so capacity is the length of its data. \<^verbatim>\<open>new uint8_t[n]\<close> returns
  indeterminate bytes: the contents of the \<open>k\<close>-th block taken from the operating system are
  the field \<open>os_mem\<close> of the pool, an arbitrary function no theorem makes an assumption about.
  A block's \<^verbatim>\<open>pool_\<close> pointer is the index of its fixed pool (\<open>None\<close> for \<^verbatim>\<open>nullptr\<close>).
\<close>

section \<open>Blocks\<close>

(* [include/wise.kernel/net/buffer/fixed_size_buffer_pool.hpp:104-104 buffer::state_] *)
datatype block_state = Created | Allocated | Released

(* [include/wise.kernel/net/buffer/fixed_size_buffer_pool.hpp:20-106 fixed_size_buffer_pool::buffer] *)
record block =
  bdata :: "byte list"
  bstate :: block_state
  hit_count :: nat
  bpool :: "nat option"

definition bcapacity :: "block \<Rightarrow> nat" where
  "bcapacity b = length (bdata b)"

section \<open>Blocks of one size\<close>

(* [include/wise.kernel/net/buffer/fixed_size_buffer_pool.hpp:108-119 fixed_size_buffer_pool] *)
record fixed_pool =
  fp_length :: nat
  fp_blocks :: "block list"
  alloc_count :: u32
  os_alloc_count :: u32
  total_alloc_count :: u32
  total_release_count :: u32

definition mk_fixed_pool :: "nat \<Rightarrow> fixed_pool" where
  "mk_fixed_pool n = \<lparr>fp_length = n, fp_blocks = [], alloc_count = 0, os_alloc_count = 0,
     total_alloc_count = 0, total_release_count = 0\<rparr>"

text \<open>\<open>self\<close> is the index of the pool (\<^verbatim>\<open>this\<close>), \<open>raw\<close> what \<^verbatim>\<open>new uint8_t[get_length()]\<close> returns.\<close>

(* [include/wise.kernel/net/buffer/fixed_size_buffer_pool.hpp:136-155 fixed_size_buffer_pool::alloc] *)
definition fp_alloc :: "nat \<Rightarrow> byte list \<Rightarrow> fixed_pool \<Rightarrow> block \<times> fixed_pool" where
  "fp_alloc self raw p0 =
     (let p = p0\<lparr>alloc_count := alloc_count p0 + 1, total_alloc_count := total_alloc_count p0 + 1\<rparr>
      in case cq_pop (fp_blocks p) of
           Some (b, q) \<Rightarrow> (b\<lparr>bstate := Allocated, hit_count := hit_count b + 1\<rparr>, p\<lparr>fp_blocks := q\<rparr>)
         | None \<Rightarrow> (\<lparr>bdata = raw, bstate = Allocated, hit_count = 0, bpool = Some self\<rparr>,
                    p\<lparr>os_alloc_count := os_alloc_count p + 1\<rparr>))"

text \<open>The block comes back with its new state: the code marks the shared object released.\<close>

(* [include/wise.kernel/net/buffer/fixed_size_buffer_pool.hpp:157-180 fixed_size_buffer_pool::release] *)
definition fp_release :: "block option \<Rightarrow> fixed_pool \<Rightarrow> (block \<times> fixed_pool) res" where
  "fp_release blk p =
     (case blk of
        None \<Rightarrow> Inl (Throw ''block. null pointer'')
      | Some b \<Rightarrow>
          if bcapacity b \<noteq> fp_length p then Inl (Throw ''different length block'')
          else if bstate b \<noteq> Allocated then Inl (Throw ''block is not allocated'')
          else let b' = b\<lparr>bstate := Released\<rparr>
               in Inr (b', p\<lparr>alloc_count := alloc_count p - 1,
                             total_release_count := total_release_count p + 1,
                             fp_blocks := cq_push b' (fp_blocks p)\<rparr>))"

definition fp_inv :: "nat \<Rightarrow> fixed_pool \<Rightarrow> bool" where
  "fp_inv self p \<longleftrightarrow>
     list_all (\<lambda>b. length (bdata b) = fp_length p \<and> bstate b = Released \<and> bpool b = Some self) (fp_blocks p) \<and>
     alloc_count p = total_alloc_count p - total_release_count p"

lemma mk_fixed_pool_inv: "fp_inv i (mk_fixed_pool n)"
  by (simp add: fp_inv_def mk_fixed_pool_def)

lemma fp_alloc_ok:
  assumes "fp_inv i p" "length raw = fp_length p" "fp_alloc i raw p = (b, p')"
  shows "fp_inv i p' \<and> fp_length p' = fp_length p \<and>
         length (bdata b) = fp_length p \<and> bstate b = Allocated \<and> bpool b = Some i"
  using assms
  by (cases "fp_blocks p") (auto simp: fp_inv_def fp_alloc_def Let_def)

lemma fp_release_ok:
  assumes "fp_inv i p" "length (bdata b) = fp_length p" "bstate b = Allocated" "bpool b = Some i"
  shows "\<exists>p'. fp_release (Some b) p = Inr (b\<lparr>bstate := Released\<rparr>, p') \<and> fp_inv i p' \<and>
              fp_length p' = fp_length p \<and> fp_blocks p' = fp_blocks p @ [b\<lparr>bstate := Released\<rparr>]"
  using assms by (simp add: fp_release_def fp_inv_def bcapacity_def cq_push_def Let_def)

section \<open>Blocks of many sizes\<close>

(* [include/wise.kernel/net/buffer/multiple_size_buffer_pool.hpp:117-122 multiple_size_buffer_pool] *)
record multi_pool =
  mp_pools :: "fixed_pool list"
  mp_max_size :: nat
  os_mem :: "nat \<Rightarrow> nat \<Rightarrow> byte"
  os_count :: nat

text \<open>The configuration (\<open>start_power_of_2 = 6\<close>, \<open>steps = 16\<close>).\<close>

(* [include/wise.kernel/net/buffer/multiple_size_buffer_pool.hpp:23-27 config] *)
definition start_power_of_2 :: nat where
  "start_power_of_2 = 6"

definition steps :: nat where
  "steps = 16"

text \<open>The loop of \<open>init_pools\<close>: push a pool of \<open>sz\<close>, double \<open>sz\<close>, store it in \<open>max_size_\<close>.\<close>

fun init_loop :: "nat \<Rightarrow> nat \<Rightarrow> multi_pool \<Rightarrow> multi_pool" where
  "init_loop 0 sz p = p"
| "init_loop (Suc n) sz p =
     init_loop n (2 * sz) (p\<lparr>mp_pools := mp_pools p @ [mk_fixed_pool sz], mp_max_size := 2 * sz\<rparr>)"

(* [include/wise.kernel/net/buffer/multiple_size_buffer_pool.hpp:104-115 init_pools] *)
definition init_pools :: "multi_pool \<Rightarrow> multi_pool" where
  "init_pools p = init_loop steps (2 ^ start_power_of_2) p"

(* [include/wise.kernel/net/buffer/multiple_size_buffer_pool.hpp:30-38 multiple_size_buffer_pool::multiple_size_buffer_pool] *)
definition mk_multi_pool :: "(nat \<Rightarrow> nat \<Rightarrow> byte) \<Rightarrow> multi_pool" where
  "mk_multi_pool mem = init_pools \<lparr>mp_pools = [], mp_max_size = 0, os_mem = mem, os_count = 0\<rparr>"

definition os_new :: "nat \<Rightarrow> multi_pool \<Rightarrow> byte list" where
  "os_new n p = map (os_mem p (os_count p)) [0..<n]"

fun find_pool :: "nat \<Rightarrow> nat \<Rightarrow> fixed_pool list \<Rightarrow> nat option" where
  "find_pool req i [] = None"
| "find_pool req i (p # ps) = (if fp_length p \<ge> req then Some i else find_pool req (Suc i) ps)"

(* [include/wise.kernel/net/buffer/multiple_size_buffer_pool.hpp:45-56 multiple_size_buffer_pool::alloc] *)
definition mp_alloc :: "nat \<Rightarrow> multi_pool \<Rightarrow> block \<times> multi_pool" where
  "mp_alloc req p =
     (case find_pool req 0 (mp_pools p) of
        Some i \<Rightarrow>
          (let fp = mp_pools p ! i; (b, fp') = fp_alloc i (os_new (fp_length fp) p) fp
           in (b, p\<lparr>mp_pools := (mp_pools p)[i := fp'],
                    os_count := (if fp_blocks fp = [] then Suc (os_count p) else os_count p)\<rparr>))
      | None \<Rightarrow> (\<lparr>bdata = os_new req p, bstate = Created, hit_count = 0, bpool = None\<rparr>,
                 p\<lparr>os_count := Suc (os_count p)\<rparr>))"

text \<open>A block whose pool has been destroyed (\<open>clear\<close>) has a dangling pool pointer.\<close>

(* [include/wise.kernel/net/buffer/multiple_size_buffer_pool.hpp:58-71 multiple_size_buffer_pool::release] *)
definition mp_release :: "block option \<Rightarrow> multi_pool \<Rightarrow> multi_pool res" where
  "mp_release blk p =
     (case blk of
        None \<Rightarrow> Inl (Throw ''block. null pointer'')
      | Some b \<Rightarrow>
          (case bpool b of
             None \<Rightarrow> Inr p
           | Some i \<Rightarrow>
               if i < length (mp_pools p)
               then bind_res (fp_release (Some b) (mp_pools p ! i))
                      (\<lambda>(b', fp'). Inr (p\<lparr>mp_pools := (mp_pools p)[i := fp']\<rparr>))
               else Inl (Undef ''dangling pool pointer'')))"

(* [include/wise.kernel/net/buffer/multiple_size_buffer_pool.hpp:73-76 multiple_size_buffer_pool::clear] *)
definition mp_clear :: "multi_pool \<Rightarrow> multi_pool" where
  "mp_clear p = p\<lparr>mp_pools := []\<rparr>"

(* [include/wise.kernel/net/buffer/multiple_size_buffer_pool.hpp:78-89 multiple_size_buffer_pool::get_pool] *)
definition mp_get_pool :: "nat \<Rightarrow> multi_pool \<Rightarrow> fixed_pool option" where
  "mp_get_pool sz p = find (\<lambda>fp. fp_length fp = sz) (mp_pools p)"

definition mp_inv :: "multi_pool \<Rightarrow> bool" where
  "mp_inv p \<longleftrightarrow> (\<forall>i < length (mp_pools p). fp_inv i (mp_pools p ! i))"

text \<open>A block a client may hold: it can be given back to \<open>p\<close>.\<close>

definition held_block :: "multi_pool \<Rightarrow> block \<Rightarrow> bool" where
  "held_block p b \<longleftrightarrow>
     (case bpool b of
        None \<Rightarrow> True
      | Some i \<Rightarrow> i < length (mp_pools p) \<and> length (bdata b) = fp_length (mp_pools p ! i) \<and> bstate b = Allocated)"

subsection \<open>Sizes of the pools\<close>

lemma init_loop_pools:
  "map fp_length (mp_pools (init_loop n sz p)) = map fp_length (mp_pools p) @ map (\<lambda>i. sz * 2 ^ i) [0..<n]"
proof (induction n sz p rule: init_loop.induct)
  case (2 n sz p)
  have "[0..<Suc n] = 0 # map Suc [0..<n]"
    by (simp add: map_Suc_upt upt_conv_Cons)
  then have "sz # map (\<lambda>i. 2 * sz * 2 ^ i) [0..<n] = map (\<lambda>i. sz * 2 ^ i) [0..<Suc n]"
    by (simp del: upt_Suc add: ac_simps)
  with 2 show ?case
    by (simp del: upt_Suc add: mk_fixed_pool_def)
qed simp

lemma init_loop_inv: "mp_inv p \<Longrightarrow> mp_inv (init_loop n sz p)"
proof (induction n sz p rule: init_loop.induct)
  case (2 n sz p)
  then have "mp_inv (p\<lparr>mp_pools := mp_pools p @ [mk_fixed_pool sz], mp_max_size := 2 * sz\<rparr>)"
    by (auto simp: mp_inv_def nth_append less_Suc_eq mk_fixed_pool_inv)
  with 2 show ?case by simp
qed simp

lemma mk_multi_pool_inv: "mp_inv (mk_multi_pool mem)"
  unfolding mk_multi_pool_def init_pools_def by (rule init_loop_inv) (simp add: mp_inv_def)

lemma mk_multi_pool_sizes:
  "map fp_length (mp_pools (mk_multi_pool mem)) = map (\<lambda>i. 64 * 2 ^ i) [0..<16]"
  by (simp add: mk_multi_pool_def init_pools_def init_loop_pools steps_def start_power_of_2_def)

lemma find_pool_Some:
  "find_pool req i ps = Some k \<Longrightarrow>
     i \<le> k \<and> k - i < length ps \<and> req \<le> fp_length (ps ! (k - i)) \<and> (\<forall>j < k - i. fp_length (ps ! j) < req)"
proof (induction req i ps rule: find_pool.induct)
  case (2 req i p ps)
  show ?case
  proof (cases "req \<le> fp_length p")
    case False
    with 2 have ih: "Suc i \<le> k" "k - Suc i < length ps" "req \<le> fp_length (ps ! (k - Suc i))"
      "\<forall>j < k - Suc i. fp_length (ps ! j) < req" by auto
    then have "k - i = Suc (k - Suc i)" by simp
    with ih False show ?thesis by (auto simp: less_Suc_eq_0_disj)
  qed (use 2 in auto)
qed simp

lemma find_pool_None: "find_pool req i ps = None \<longleftrightarrow> (\<forall>p \<in> set ps. fp_length p < req)"
  by (induction req i ps rule: find_pool.induct) auto

subsection \<open>Allocation and release\<close>

lemma length_os_new [simp]: "length (os_new n p) = n"
  by (simp add: os_new_def)

lemma mp_alloc_ok:
  assumes inv: "mp_inv p" and al: "mp_alloc req p = (b, p')"
  shows "req \<le> length (bdata b)" "mp_inv p'" "held_block p' b"
    and "map fp_length (mp_pools p') = map fp_length (mp_pools p)"
    and "\<And>c. held_block p c \<Longrightarrow> held_block p' c"
proof -
  have "req \<le> length (bdata b) \<and> mp_inv p' \<and> held_block p' b \<and>
        map fp_length (mp_pools p') = map fp_length (mp_pools p)"
  proof (cases "find_pool req 0 (mp_pools p)")
    case None
    with inv al show ?thesis by (auto simp: mp_alloc_def held_block_def mp_inv_def)
  next
    case (Some i)
    let ?fp = "mp_pools p ! i"
    from find_pool_Some [OF Some] have i: "i < length (mp_pools p)" "req \<le> fp_length ?fp" by auto
    obtain fp' where fa: "fp_alloc i (os_new (fp_length ?fp) p) ?fp = (b, fp')"
      and p': "mp_pools p' = (mp_pools p)[i := fp']"
      using al Some by (auto simp: mp_alloc_def Let_def split: prod.splits)
    have "fp_inv i ?fp" using inv i by (simp add: mp_inv_def)
    from fp_alloc_ok [OF this _ fa] have ok: "fp_inv i fp'" "fp_length fp' = fp_length ?fp"
      "length (bdata b) = fp_length ?fp" "bstate b = Allocated" "bpool b = Some i" by auto
    have "map fp_length (mp_pools p') = map fp_length (mp_pools p)"
      using p' ok(2) i by (simp add: map_update list_update_same_conv)
    with ok i p' inv show ?thesis
      by (auto simp: mp_inv_def held_block_def nth_list_update)
  qed
  then show a: "req \<le> length (bdata b)" "mp_inv p'" "held_block p' b"
    and l: "map fp_length (mp_pools p') = map fp_length (mp_pools p)" by auto
  show "\<And>c. held_block p c \<Longrightarrow> held_block p' c"
    using l by (auto simp: held_block_def split: option.splits)
      (metis length_map, metis length_map nth_map)
qed

lemma mp_release_ok:
  assumes inv: "mp_inv p" and held: "held_block p b"
  shows "\<exists>p'. mp_release (Some b) p = Inr p' \<and> mp_inv p' \<and>
              map fp_length (mp_pools p') = map fp_length (mp_pools p)"
proof (cases "bpool b")
  case None
  then show ?thesis using inv by (simp add: mp_release_def)
next
  case (Some i)
  with held have i: "i < length (mp_pools p)" "length (bdata b) = fp_length (mp_pools p ! i)"
    "bstate b = Allocated" by (auto simp: held_block_def)
  moreover have "fp_inv i (mp_pools p ! i)" using inv i by (simp add: mp_inv_def)
  ultimately obtain fp' where r: "fp_release (Some b) (mp_pools p ! i) = Inr (b\<lparr>bstate := Released\<rparr>, fp')"
    and fp': "fp_inv i fp'" "fp_length fp' = fp_length (mp_pools p ! i)"
    using fp_release_ok [of i "mp_pools p ! i" b] Some by auto
  let ?p' = "p\<lparr>mp_pools := (mp_pools p)[i := fp']\<rparr>"
  have "mp_release (Some b) p = Inr ?p'"
    using Some i r by (simp add: mp_release_def)
  moreover have "mp_inv ?p'"
    using inv fp'(1) i by (auto simp: mp_inv_def nth_list_update)
  moreover have "map fp_length (mp_pools ?p') = map fp_length (mp_pools p)"
    using fp'(2) i by (simp add: map_update list_update_same_conv)
  ultimately show ?thesis by blast
qed

lemma held_block_sizes:
  "map fp_length (mp_pools p') = map fp_length (mp_pools p) \<Longrightarrow> held_block p b \<Longrightarrow> held_block p' b"
  by (auto simp: held_block_def split: option.splits) (metis length_map, metis length_map nth_map)

section \<open>What a buffer relies on\<close>

text \<open>
  The interface between the pools and the buffers: a block is at least as large as asked for,
  it can be given back, and giving it back keeps every other held block valid.
\<close>

locale block_source =
  fixes alloc :: "nat \<Rightarrow> 'p \<Rightarrow> block \<times> 'p"
    and release :: "block option \<Rightarrow> 'p \<Rightarrow> 'p res"
    and inv :: "'p \<Rightarrow> bool"
    and held :: "'p \<Rightarrow> block \<Rightarrow> bool"
  assumes alloc_capacity: "inv p \<Longrightarrow> alloc n p = (b, p') \<Longrightarrow> n \<le> length (bdata b)"
    and alloc_held: "inv p \<Longrightarrow> alloc n p = (b, p') \<Longrightarrow> inv p' \<and> held p' b"
    and alloc_keeps: "inv p \<Longrightarrow> alloc n p = (b, p') \<Longrightarrow> held p c \<Longrightarrow> held p' c"
    and held_data: "held p b \<Longrightarrow> length d = length (bdata b) \<Longrightarrow> held p (b\<lparr>bdata := d\<rparr>)"
    and release_ok: "inv p \<Longrightarrow> held p b \<Longrightarrow>
          \<exists>p'. release (Some b) p = Inr p' \<and> inv p' \<and> (\<forall>c. held p c \<longrightarrow> held p' c)"
begin

text \<open>The move to a larger block that every growing buffer makes: allocate, copy, release.\<close>

definition grow :: "nat \<Rightarrow> nat \<Rightarrow> block \<Rightarrow> 'p \<Rightarrow> (block \<times> 'p) res" where
  "grow n used b p =
     (case alloc n p of (nb, p1) \<Rightarrow>
        bind_res (release (Some b) p1)
          (\<lambda>p2. Inr (nb\<lparr>bdata := splice 0 (take used (bdata b)) (bdata nb)\<rparr>, p2)))"

lemma grow_ok:
  assumes "inv p" "held p b" "used \<le> length (bdata b)" "used \<le> n"
  shows "\<exists>nb p'. grow n used b p = Inr (nb, p') \<and> inv p' \<and> held p' nb \<and> n \<le> length (bdata nb) \<and>
           take used (bdata nb) = take used (bdata b)"
proof -
  obtain nb p1 where al: "alloc n p = (nb, p1)" by (cases "alloc n p")
  note a = alloc_capacity [OF assms(1) al] alloc_held [OF assms(1) al] alloc_keeps [OF assms(1) al assms(2)]
  then obtain p2 where r: "release (Some b) p1 = Inr p2" "inv p2" "held p2 nb"
    using release_ok [of p1 b] by blast
  let ?nb = "nb\<lparr>bdata := splice 0 (take used (bdata b)) (bdata nb)\<rparr>"
  have len: "length (bdata ?nb) = length (bdata nb)"
    using a(1) assms(3,4) by simp
  have "take used (bdata ?nb) = take used (bdata b)"
    using assms(3) by (simp add: splice_def)
  moreover have "held p2 ?nb"
    using held_data [OF r(3)] len by simp
  ultimately show ?thesis
    using al r a(1) len by (auto simp: grow_def)
qed

end

interpretation blocks: block_source mp_alloc mp_release mp_inv held_block
proof (unfold_locales, goal_cases)
  case 1 then show ?case by (rule mp_alloc_ok)
next
  case 2 then show ?case by (blast dest: mp_alloc_ok(2) mp_alloc_ok(3))
next
  case (3 p n b p' c) then show ?case by (blast intro: mp_alloc_ok(5))
next
  case (4 p b d) then show ?case by (auto simp: held_block_def split: option.splits)
next
  case (5 p b) then show ?case by (metis mp_release_ok held_block_sizes)
qed

section \<open>Properties\<close>

text \<open>
  \<open>multiple_size_buffer_pool::alloc\<close> on a freshly constructed pool returns a block whose
  capacity is the smallest power of two from 64 bytes on that covers the request, and exactly the
  requested size when the request exceeds the largest pool (2 MB).
\<close>

theorem fresh_pool_block_size:
  "bcapacity (fst (mp_alloc req (mk_multi_pool mem))) =
     (if req \<le> 64 * 2 ^ 15 then (LEAST c. req \<le> c \<and> (\<exists>i. c = 64 * 2 ^ i)) else req)"
proof -
  let ?p = "mk_multi_pool mem"
  obtain b p' where al: "mp_alloc req ?p = (b, p')" by (cases "mp_alloc req ?p")
  have len: "length (mp_pools ?p) = 16"
    using arg_cong [OF mk_multi_pool_sizes [of mem], of length] by simp
  have sizes: "fp_length (mp_pools ?p ! i) = 64 * 2 ^ i" if "i < 16" for i
  proof -
    have "map fp_length (mp_pools ?p) ! i = map (\<lambda>i. 64 * 2 ^ i) [0..<16] ! i"
      by (simp only: mk_multi_pool_sizes)
    then show ?thesis using that len by (simp del: upt_Suc)
  qed
  show ?thesis
  proof (cases "find_pool req 0 (mp_pools ?p)")
    case None
    then have "\<forall>q \<in> set (mp_pools ?p). fp_length q < req" by (simp add: find_pool_None)
    then have "fp_length (mp_pools ?p ! 15) < req" using len by simp
    then have "\<not> req \<le> 64 * 2 ^ 15" using sizes [of 15] by simp
    with None al show ?thesis by (auto simp: mp_alloc_def bcapacity_def)
  next
    case (Some k)
    from find_pool_Some [OF Some] len
    have k: "k < 16" "req \<le> 64 * 2 ^ k" "\<forall>j < k. 64 * 2 ^ j < req"
      using sizes by auto
    have "(2::nat) ^ k \<le> 2 ^ 15" using k(1) by (intro power_increasing) auto
    then have le: "req \<le> 64 * 2 ^ 15" using k(2) by linarith
    have "(LEAST c. req \<le> c \<and> (\<exists>i. c = 64 * 2 ^ i)) = (64 * 2 ^ k :: nat)"
    proof (rule Least_equality)
      show "req \<le> 64 * 2 ^ k \<and> (\<exists>i. 64 * 2 ^ k = (64 * 2 ^ i :: nat))" using k by auto
    next
      fix c :: nat assume "req \<le> c \<and> (\<exists>i. c = 64 * 2 ^ i)"
      then obtain i where "req \<le> 64 * 2 ^ i" "c = 64 * 2 ^ i" by auto
      moreover have "\<not> i < k" using k(3) calculation(1) by auto
      then have "(2::nat) ^ k \<le> 2 ^ i" by (intro power_increasing) auto
      ultimately show "64 * 2 ^ k \<le> c" by simp
    qed
    moreover have "length (bdata b) = fp_length (mp_pools ?p ! k)"
    proof -
      have inv: "fp_inv k (mp_pools ?p ! k)" using mk_multi_pool_inv k(1) len by (simp add: mp_inv_def)
      obtain fp' where "fp_alloc k (os_new (fp_length (mp_pools ?p ! k)) ?p) (mp_pools ?p ! k) = (b, fp')"
        using al Some by (simp add: mp_alloc_def Let_def split: prod.splits)
      from fp_alloc_ok [OF inv _ this] show ?thesis by simp
    qed
    ultimately show ?thesis using le sizes [OF k(1)] al by (simp add: bcapacity_def)
  qed
qed

text \<open>
  The life cycle of a pooled block: a block obtained from a pool can be given back exactly
  once. Giving it back succeeds and puts it at the end of the free list; giving the same block
  back again throws, and so does giving back a null block or a block of another pool's length.
\<close>

theorem block_released_once:
  assumes "fp_inv i p" "length raw = fp_length p" "fp_alloc i raw p = (b, p1)"
  shows "\<exists>b' p2. fp_release (Some b) p1 = Inr (b', p2) \<and> fp_blocks p2 = fp_blocks p1 @ [b'] \<and> fp_inv i p2 \<and>
           alloc_count p2 = alloc_count p \<and>
           fp_release (Some b') p2 = Inl (Throw ''block is not allocated'') \<and>
           fp_release None p2 = Inl (Throw ''block. null pointer'') \<and>
           (\<forall>q. fp_length q \<noteq> fp_length p \<longrightarrow> fp_release (Some b) q = Inl (Throw ''different length block''))"
proof -
  note al = fp_alloc_ok [OF assms]
  have cnt: "alloc_count p1 = alloc_count p + 1"
    using assms(3) by (auto simp: fp_alloc_def Let_def split: option.splits prod.splits)
  obtain p2 where r: "fp_release (Some b) p1 = Inr (b\<lparr>bstate := Released\<rparr>, p2)" "fp_inv i p2"
    "fp_length p2 = fp_length p1" "fp_blocks p2 = fp_blocks p1 @ [b\<lparr>bstate := Released\<rparr>]"
    using fp_release_ok [of i p1 b] al by auto
  have cnt2: "alloc_count p2 = alloc_count p"
    using r(1) cnt al by (auto simp: fp_release_def Let_def split: if_splits)
  have "fp_release (Some (b\<lparr>bstate := Released\<rparr>)) p2 = Inl (Throw ''block is not allocated'')"
    using r(3) al by (simp add: fp_release_def bcapacity_def)
  moreover have "fp_release (Some b) q = Inl (Throw ''different length block'')" if "fp_length q \<noteq> fp_length p" for q
    using that al by (simp add: fp_release_def bcapacity_def)
  moreover have "fp_release None p2 = Inl (Throw ''block. null pointer'')"
    by (simp add: fp_release_def)
  ultimately show ?thesis using r cnt2 by blast
qed

lemma block_released_once_witness:
  "\<exists>b' p2. fp_release (Some \<lparr>bdata = [7, 9], bstate = Allocated, hit_count = 0, bpool = Some 0\<rparr>)
              (snd (fp_alloc 0 [7, 9] (mk_fixed_pool 2))) = Inr (b', p2) \<and>
           fp_release (Some b') p2 = Inl (Throw ''block is not allocated'')"
  using block_released_once [of 0 "mk_fixed_pool 2" "[7, 9]"
      "\<lparr>bdata = [7, 9], bstate = Allocated, hit_count = 0, bpool = Some 0\<rparr>"
      "snd (fp_alloc 0 [7, 9] (mk_fixed_pool 2))"]
  by (simp add: fp_inv_def fp_alloc_def mk_fixed_pool_def Let_def) blast

end
