(* ===== verification/Resize_Buffer.thy ===== *)
theory Resize_Buffer
  imports Buffer_Pool
begin

text \<open>
  \<^verbatim>\<open>resize_buffer\<close> (\<^verbatim>\<open>include/wise.kernel/net/buffer/resize_buffer.hpp\<close>): the growing byte
  buffer with a write position and a read position that the packers, the protocol and the
  sessions use. The static \<^verbatim>\<open>pool_\<close> every buffer shares is the field \<open>rb_pool\<close>.

  \<^verbatim>\<open>memcpy_s\<close> and \<^verbatim>\<open>memmove_s\<close> are \<^verbatim>\<open>memcpy\<close> and \<^verbatim>\<open>memmove\<close> as \<^verbatim>\<open>util.hpp\<close> has them: an
  access outside the block is \<open>Undef\<close>. The destination of \<open>read\<close> is never null in the library:
  the model returns the bytes instead, \<open>None\<close> for the code's \<^verbatim>\<open>false\<close>.
  The specification the buffer refines is a byte list with a read position (\<open>stream\<close>).
\<close>

section \<open>The buffer\<close>

(* [include/wise.kernel/net/buffer/resize_buffer.hpp:297-302 resize_buffer] *)
record rbuf =
  rb_pool :: multi_pool
  initial_size :: nat
  rb_buf :: "block option"
  rb_pos :: nat
  rb_read_pos :: nat

(* [include/wise.kernel/net/buffer/resize_buffer.hpp:38-44 resize_buffer::resize_buffer] *)
definition mk_rbuf :: "nat \<Rightarrow> multi_pool \<Rightarrow> rbuf" where
  "mk_rbuf n pool = \<lparr>rb_pool = pool, initial_size = n, rb_buf = None, rb_pos = 0, rb_read_pos = 0\<rparr>"

(* [include/wise.kernel/net/buffer/resize_buffer.hpp:46-55 resize_buffer::~resize_buffer] *)
definition rb_destroy :: "rbuf \<Rightarrow> multi_pool res" where
  "rb_destroy r = (case rb_buf r of None \<Rightarrow> Inr (rb_pool r) | Some b \<Rightarrow> mp_release (Some b) (rb_pool r))"

(* [include/wise.kernel/net/buffer/resize_buffer.hpp:119-123 resize_buffer::size] *)
definition rb_size :: "rbuf \<Rightarrow> nat" where
  "rb_size r = rb_pos r"

(* [include/wise.kernel/net/buffer/resize_buffer.hpp:125-129 resize_buffer::get_read_pos] *)
definition rb_get_read_pos :: "rbuf \<Rightarrow> nat" where
  "rb_get_read_pos r = rb_read_pos r"

(* [include/wise.kernel/net/buffer/resize_buffer.hpp:131-136 resize_buffer::capacity] *)
definition rb_capacity :: "rbuf \<Rightarrow> nat" where
  "rb_capacity r = (case rb_buf r of None \<Rightarrow> 0 | Some b \<Rightarrow> bcapacity b)"

(* [include/wise.kernel/net/buffer/resize_buffer.hpp:157-168 resize_buffer::data] *)
definition rb_data :: "rbuf \<Rightarrow> byte list option" where
  "rb_data r = map_option bdata (rb_buf r)"

(* [include/wise.kernel/net/buffer/resize_buffer.hpp:270-295 resize_buffer::reserve] *)
definition rb_reserve :: "nat \<Rightarrow> rbuf \<Rightarrow> rbuf res" where
  "rb_reserve len r =
     (case rb_buf r of
        None \<Rightarrow> (let (b, pool) = mp_alloc (max len (initial_size r)) (rb_pool r)
                 in Inr (r\<lparr>rb_buf := Some b, rb_pool := pool\<rparr>))
      | Some b \<Rightarrow>
          if bcapacity b < rb_pos r + len then
            let (nb, pool) = mp_alloc (rb_pos r + len) (rb_pool r)
            in if rb_pos r \<le> bcapacity b then
                 bind_res (mp_release (Some b) pool)
                   (\<lambda>pool'. Inr (r\<lparr>rb_buf := Some (nb\<lparr>bdata := splice 0 (take (rb_pos r) (bdata b)) (bdata nb)\<rparr>),
                                   rb_pool := pool'\<rparr>))
               else Inl (Undef ''memcpy reads outside the block'')
          else Inr r)"

text \<open>\<open>None\<close> is a null source pointer.\<close>

(* [include/wise.kernel/net/buffer/resize_buffer.hpp:57-90 resize_buffer::append] *)
definition rb_append :: "byte list option \<Rightarrow> rbuf \<Rightarrow> (nat \<times> rbuf) res" where
  "rb_append src r =
     (case src of
        None \<Rightarrow> Inr (0, r)
      | Some p \<Rightarrow>
          if length p = 0 then Inr (0, r)
          else bind_res (rb_reserve (length p) r)
            (\<lambda>r1. case rb_buf r1 of
                None \<Rightarrow> Inl (Undef ''null block'')
              | Some b \<Rightarrow>
                  if rb_pos r1 + length p \<le> bcapacity b then
                    Inr (length p, r1\<lparr>rb_buf := Some (b\<lparr>bdata := splice (rb_pos r1) p (bdata b)\<rparr>),
                                      rb_pos := rb_pos r1 + length p\<rparr>)
                  else Inl (Undef ''memcpy writes outside the block'')))"

(* [include/wise.kernel/net/buffer/resize_buffer.hpp:92-117 resize_buffer::read] *)
definition rb_read :: "nat \<Rightarrow> rbuf \<Rightarrow> (byte list option \<times> rbuf) res" where
  "rb_read len r =
     (if len = 0 then Inr (Some [], r)
      else case rb_buf r of
        None \<Rightarrow> Inl (Undef ''null block'')
      | Some b \<Rightarrow>
          if rb_pos r < rb_read_pos r + len then Inr (None, r)
          else if rb_read_pos r + len \<le> bcapacity b then
            Inr (Some (take len (drop (rb_read_pos r) (bdata b))), r\<lparr>rb_read_pos := rb_read_pos r + len\<rparr>)
          else Inl (Undef ''memcpy reads outside the block''))"

(* [include/wise.kernel/net/buffer/resize_buffer.hpp:138-155 resize_buffer::resize] *)
definition rb_resize :: "nat \<Rightarrow> rbuf \<Rightarrow> rbuf res" where
  "rb_resize new_size r =
     (if new_size \<le> rb_capacity r then Inr (r\<lparr>rb_pos := new_size\<rparr>)
      else bind_res (rb_reserve (new_size - rb_capacity r) r) (\<lambda>r1. Inr (r1\<lparr>rb_pos := new_size\<rparr>)))"

(* [include/wise.kernel/net/buffer/resize_buffer.hpp:170-180 resize_buffer::at] *)
definition rb_at :: "nat \<Rightarrow> rbuf \<Rightarrow> byte res" where
  "rb_at pos r =
     (case rb_buf r of
        None \<Rightarrow> Inr 0
      | Some b \<Rightarrow> if pos \<ge> rb_size r then Inl (Throw ''index out of range'')
                  else if pos < bcapacity b then Inr (bdata b ! pos)
                  else Inl (Undef ''index outside the block''))"

(* [include/wise.kernel/net/buffer/resize_buffer.hpp:196-199 resize_buffer::rewind_read] *)
definition rb_rewind_read :: "rbuf \<Rightarrow> rbuf" where
  "rb_rewind_read r = r\<lparr>rb_read_pos := 0\<rparr>"

(* [include/wise.kernel/net/buffer/resize_buffer.hpp:182-194 resize_buffer::rewind] *)
definition rb_rewind :: "nat \<Rightarrow> rbuf \<Rightarrow> rbuf res" where
  "rb_rewind pos r =
     (if pos \<ge> rb_size r then Inr r
      else case rb_buf r of
        None \<Rightarrow> Inl (Undef ''null block'')
      | Some b \<Rightarrow> Inr (rb_rewind_read (r\<lparr>rb_pos := pos\<rparr>)))"

(* [include/wise.kernel/net/buffer/resize_buffer.hpp:201-237 resize_buffer::pop_front] *)
definition rb_pop_front :: "nat \<Rightarrow> rbuf \<Rightarrow> rbuf res" where
  "rb_pop_front count r =
     (case rb_buf r of
        None \<Rightarrow> Inr r
      | Some b \<Rightarrow>
          if count = 0 then Inr r
          else if count > rb_pos r then Inl (Throw ''popping more than existing bytes'')
          else if rb_pos r \<le> bcapacity b then
            Inr (r\<lparr>rb_buf := Some (b\<lparr>bdata := splice 0 (take (rb_pos r - count) (drop count (bdata b))) (bdata b)\<rparr>),
                   rb_pos := rb_pos r - count,
                   rb_read_pos := (if count \<le> rb_read_pos r then rb_read_pos r - count else 0)\<rparr>)
          else Inl (Undef ''memmove outside the block''))"

section \<open>Contents and invariant\<close>

definition rb_bytes :: "rbuf \<Rightarrow> byte list" where
  "rb_bytes r = (case rb_buf r of None \<Rightarrow> [] | Some b \<Rightarrow> take (rb_pos r) (bdata b))"

definition rb_inv :: "rbuf \<Rightarrow> bool" where
  "rb_inv r \<longleftrightarrow> mp_inv (rb_pool r) \<and>
     (case rb_buf r of None \<Rightarrow> rb_pos r = 0 \<and> rb_read_pos r = 0
      | Some b \<Rightarrow> held_block (rb_pool r) b \<and> rb_pos r \<le> length (bdata b))"

lemma mk_rbuf_ok: "mp_inv pool \<Longrightarrow> rb_inv (mk_rbuf n pool) \<and> rb_bytes (mk_rbuf n pool) = []"
  by (simp add: mk_rbuf_def rb_inv_def rb_bytes_def)

lemma length_rb_bytes [simp]: "rb_inv r \<Longrightarrow> length (rb_bytes r) = rb_pos r"
  by (auto simp: rb_inv_def rb_bytes_def split: option.splits)

lemma rb_reserve_ok:
  assumes "rb_inv r"
  shows "\<exists>r' b. rb_reserve len r = Inr r' \<and> rb_inv r' \<and> rb_buf r' = Some b \<and> rb_pos r + len \<le> length (bdata b) \<and>
           rb_bytes r' = rb_bytes r \<and> rb_pos r' = rb_pos r \<and> rb_read_pos r' = rb_read_pos r"
proof (cases "rb_buf r")
  case None
  obtain b pool where al: "mp_alloc (max len (initial_size r)) (rb_pool r) = (b, pool)"
    by (cases "mp_alloc (max len (initial_size r)) (rb_pool r)")
  have "mp_inv (rb_pool r)" using assms by (simp add: rb_inv_def)
  note a = blocks.alloc_capacity [OF this al] blocks.alloc_held [OF this al]
  with None al assms show ?thesis
    by (auto simp: rb_reserve_def rb_inv_def rb_bytes_def)
next
  case (Some b)
  from assms Some have i: "mp_inv (rb_pool r)" "held_block (rb_pool r) b" "rb_pos r \<le> length (bdata b)"
    by (simp_all add: rb_inv_def)
  show ?thesis
  proof (cases "bcapacity b < rb_pos r + len")
    case False
    with Some assms show ?thesis by (auto simp: rb_reserve_def bcapacity_def)
  next
    case True
    obtain nb pool' where g: "blocks.grow (rb_pos r + len) (rb_pos r) b (rb_pool r) = Inr (nb, pool')"
      and ok: "mp_inv pool'" "held_block pool' nb" "rb_pos r + len \<le> length (bdata nb)"
        "take (rb_pos r) (bdata nb) = take (rb_pos r) (bdata b)"
      using blocks.grow_ok [OF i, of "rb_pos r + len"] by auto
    have "rb_reserve len r = Inr (r\<lparr>rb_buf := Some nb, rb_pool := pool'\<rparr>)"
      using g Some True i(3)
      by (auto simp: rb_reserve_def blocks.grow_def bcapacity_def bind_res_Inr_iff split: prod.splits)
    with ok Some show ?thesis by (auto simp: rb_inv_def rb_bytes_def)
  qed
qed

lemma rb_append_ok:
  assumes "rb_inv r" "p \<noteq> []"
  shows "\<exists>r'. rb_append (Some p) r = Inr (length p, r') \<and> rb_inv r' \<and> rb_bytes r' = rb_bytes r @ p \<and>
           rb_read_pos r' = rb_read_pos r \<and> rb_buf r' \<noteq> None"
proof -
  obtain r1 b where r1: "rb_reserve (length p) r = Inr r1" "rb_inv r1" "rb_buf r1 = Some b"
    "rb_pos r + length p \<le> length (bdata b)" "rb_bytes r1 = rb_bytes r" "rb_pos r1 = rb_pos r"
    "rb_read_pos r1 = rb_read_pos r"
    using rb_reserve_ok [OF assms(1), of "length p"] by blast
  let ?r = "r1\<lparr>rb_buf := Some (b\<lparr>bdata := splice (rb_pos r1) p (bdata b)\<rparr>), rb_pos := rb_pos r1 + length p\<rparr>"
  have "rb_append (Some p) r = Inr (length p, ?r)"
    using r1 assms(2) by (simp add: rb_append_def bcapacity_def)
  moreover have "rb_inv ?r"
    using r1 by (auto simp: rb_inv_def intro: blocks.held_data)
  moreover have "rb_bytes ?r = rb_bytes r @ p"
    using r1 by (auto simp: rb_bytes_def take_splice_end)
  ultimately show ?thesis using r1 by auto
qed

lemma rb_read_ok:
  assumes "rb_inv r" "0 < n" "rb_read_pos r + n \<le> length (rb_bytes r)"
  shows "rb_read n r = Inr (Some (take n (drop (rb_read_pos r) (rb_bytes r))), r\<lparr>rb_read_pos := rb_read_pos r + n\<rparr>)"
  using assms
  by (auto simp: rb_read_def rb_inv_def rb_bytes_def bcapacity_def drop_take min_def split: option.splits if_splits)

lemma rb_read_short:
  assumes "rb_inv r" "rb_buf r \<noteq> None" "length (rb_bytes r) < rb_read_pos r + n" "0 < n"
  shows "rb_read n r = Inr (None, r)"
  using assms by (auto simp: rb_read_def rb_inv_def rb_bytes_def split: option.splits)

lemma rb_inv_read_pos: "rb_inv r \<Longrightarrow> rb_buf r \<noteq> None \<Longrightarrow> rb_inv (r\<lparr>rb_read_pos := n\<rparr>)"
  by (auto simp: rb_inv_def)

lemma rb_bytes_read_pos [simp]: "rb_bytes (r\<lparr>rb_read_pos := n\<rparr>) = rb_bytes r"
  by (simp add: rb_bytes_def split: option.splits)

lemma rb_pop_front_ok:
  assumes "rb_inv r" "rb_buf r \<noteq> None" "0 < n" "n \<le> length (rb_bytes r)"
  shows "\<exists>r'. rb_pop_front n r = Inr r' \<and> rb_inv r' \<and> rb_bytes r' = drop n (rb_bytes r) \<and> rb_buf r' \<noteq> None \<and>
           rb_read_pos r' = (if n \<le> rb_read_pos r then rb_read_pos r - n else 0)"
proof -
  obtain b where b: "rb_buf r = Some b" using assms(2) by auto
  with assms have i: "mp_inv (rb_pool r)" "held_block (rb_pool r) b" "rb_pos r \<le> length (bdata b)" "n \<le> rb_pos r"
    by (simp_all add: rb_inv_def)
  let ?d = "splice 0 (take (rb_pos r - n) (drop n (bdata b))) (bdata b)"
  let ?r = "r\<lparr>rb_buf := Some (b\<lparr>bdata := ?d\<rparr>), rb_pos := rb_pos r - n,
             rb_read_pos := (if n \<le> rb_read_pos r then rb_read_pos r - n else 0)\<rparr>"
  have len: "length ?d = length (bdata b)" using i by simp
  have "rb_pop_front n r = Inr ?r"
    using b i assms by (simp add: rb_pop_front_def bcapacity_def)
  moreover have "rb_inv ?r"
    using i len by (simp add: rb_inv_def blocks.held_data)
  moreover have "rb_bytes ?r = drop n (rb_bytes r)"
    using b i by (simp add: rb_bytes_def splice_def drop_take)
  ultimately show ?thesis by auto
qed

lemma rb_rewind_ok:
  assumes "rb_inv r" "n < length (rb_bytes r)"
  shows "rb_rewind n r = Inr (r\<lparr>rb_pos := n, rb_read_pos := 0\<rparr>) \<and> rb_inv (r\<lparr>rb_pos := n, rb_read_pos := 0\<rparr>) \<and>
         rb_bytes (r\<lparr>rb_pos := n, rb_read_pos := 0\<rparr>) = take n (rb_bytes r)"
  using assms
  by (auto simp: rb_rewind_def rb_size_def rb_inv_def rb_bytes_def rb_rewind_read_def min_def split: option.splits if_splits)

section \<open>What the packers and the protocol rely on\<close>

text \<open>
  The interface of a byte buffer to its clients: appending extends the contents, reading
  returns the next bytes and moves the read position only when enough bytes are there.
\<close>

locale byte_buffer =
  fixes append :: "byte list option \<Rightarrow> 'b \<Rightarrow> (nat \<times> 'b) res"
    and read :: "nat \<Rightarrow> 'b \<Rightarrow> (byte list option \<times> 'b) res"
    and bytes :: "'b \<Rightarrow> byte list"
    and rpos :: "'b \<Rightarrow> nat"
    and inv :: "'b \<Rightarrow> bool"
    and ready :: "'b \<Rightarrow> bool"
  assumes append_law: "inv b \<Longrightarrow> p \<noteq> [] \<Longrightarrow>
      \<exists>b'. append (Some p) b = Inr (length p, b') \<and> inv b' \<and> ready b' \<and> bytes b' = bytes b @ p \<and> rpos b' = rpos b"
    and append_nothing: "append (Some []) b = Inr (0, b)"
    and read_nothing: "read 0 b = Inr (Some [], b)"
    and read_law: "inv b \<Longrightarrow> 0 < n \<Longrightarrow> rpos b + n \<le> length (bytes b) \<Longrightarrow>
      \<exists>b'. read n b = Inr (Some (take n (drop (rpos b) (bytes b))), b') \<and> inv b' \<and> ready b' \<and>
           bytes b' = bytes b \<and> rpos b' = rpos b + n"
    and read_underflow: "inv b \<Longrightarrow> ready b \<Longrightarrow> 0 < n \<Longrightarrow> length (bytes b) < rpos b + n \<Longrightarrow> read n b = Inr (None, b)"
    and ready_nonempty: "inv b \<Longrightarrow> bytes b \<noteq> [] \<Longrightarrow> ready b"
begin

lemma append_total:
  "inv b \<Longrightarrow> \<exists>b'. append (Some p) b = Inr (length p, b') \<and> inv b' \<and> bytes b' = bytes b @ p \<and> rpos b' = rpos b"
  using append_law [of b p] append_nothing [of b] by (cases "p = []") auto

lemma read_total:
  assumes "inv b" "rpos b + n \<le> length (bytes b)"
  shows "\<exists>b'. read n b = Inr (Some (take n (drop (rpos b) (bytes b))), b') \<and> inv b' \<and>
           bytes b' = bytes b \<and> rpos b' = rpos b + n"
  using read_law [OF assms(1) _ assms(2)] read_nothing [of b] assms(1) by (cases "n = 0") auto

text \<open>What was appended is what is read: the law every round trip of the codecs rests on.\<close>

lemma append_then_read:
  assumes "inv b" "drop (rpos b) (bytes b) = []" "rpos b \<le> length (bytes b)"
  shows "\<exists>b1 b2. append (Some p) b = Inr (length p, b1) \<and> read (length p) b1 = Inr (Some p, b2) \<and>
           inv b2 \<and> rpos b2 = length (bytes b2) \<and> bytes b2 = bytes b @ p"
proof -
  obtain b1 where b1: "append (Some p) b = Inr (length p, b1)" "inv b1" "bytes b1 = bytes b @ p" "rpos b1 = rpos b"
    using append_total [OF assms(1)] by blast
  moreover have "rpos b = length (bytes b)" using assms by simp
  ultimately show ?thesis using read_total [of b1 "length p"] by auto
qed

end

lemma rb_read_pos_ready: "rb_inv r \<Longrightarrow> rb_bytes r \<noteq> [] \<Longrightarrow> rb_buf r \<noteq> None"
  by (auto simp: rb_bytes_def split: option.splits)

interpretation rb: byte_buffer rb_append rb_read rb_bytes rb_read_pos rb_inv "\<lambda>r. rb_buf r \<noteq> None"
proof (unfold_locales, goal_cases)
  case (1 b p) then show ?case using rb_append_ok [of b p] by auto
next
  case (2 b) then show ?case by (simp add: rb_append_def)
next
  case (3 b) then show ?case by (simp add: rb_read_def)
next
  case (4 b n)
  then have "0 < length (rb_bytes b)" by linarith
  then have "rb_bytes b \<noteq> []" by simp
  then have "rb_buf b \<noteq> None" using 4 rb_read_pos_ready by blast
  then show ?case using 4 rb_read_ok [of b n] by (auto intro: rb_inv_read_pos)
next
  case (5 b n) then show ?case by (simp add: rb_read_short)
next
  case (6 b) then show ?case by (rule rb_read_pos_ready)
qed

section \<open>Refinement of a byte stream\<close>

text \<open>
  The abstract buffer: the bytes written, the read position, and whether a block has been
  allocated yet (\<open>read\<close> before the first \<open>append\<close> dereferences the null block in an assertion).
\<close>

record stream =
  written :: "byte list"
  rd :: nat
  touched :: bool

datatype buf_op = Append "byte list option" | Read nat | At nat | Rewind nat | Rewind_Read | Pop_Front nat

datatype buf_out = Count nat | Bytes "byte list option" | Byte byte | Done

fun stream_step :: "buf_op \<Rightarrow> stream \<Rightarrow> (buf_out \<times> stream) res" where
  "stream_step (Append src) s =
     (case src of None \<Rightarrow> Inr (Count 0, s)
      | Some p \<Rightarrow> Inr (Count (length p), s\<lparr>written := written s @ p, touched := touched s \<or> p \<noteq> []\<rparr>))"
| "stream_step (Read n) s =
     (if n = 0 then Inr (Bytes (Some []), s)
      else if \<not> touched s then Inl (Undef ''null block'')
      else if length (written s) < rd s + n then Inr (Bytes None, s)
      else Inr (Bytes (Some (take n (drop (rd s) (written s)))), s\<lparr>rd := rd s + n\<rparr>))"
| "stream_step (At i) s =
     (if \<not> touched s then Inr (Byte 0, s)
      else if i < length (written s) then Inr (Byte (written s ! i), s)
      else Inl (Throw ''index out of range''))"
| "stream_step (Rewind n) s =
     (if n < length (written s) then Inr (Done, s\<lparr>written := take n (written s), rd := 0\<rparr>) else Inr (Done, s))"
| "stream_step Rewind_Read s = Inr (Done, s\<lparr>rd := 0\<rparr>)"
| "stream_step (Pop_Front n) s =
     (if \<not> touched s \<or> n = 0 then Inr (Done, s)
      else if length (written s) < n then Inl (Throw ''popping more than existing bytes'')
      else Inr (Done, s\<lparr>written := drop n (written s), rd := rd s - n\<rparr>))"

fun rb_step :: "buf_op \<Rightarrow> rbuf \<Rightarrow> (buf_out \<times> rbuf) res" where
  "rb_step (Append src) r = bind_res (rb_append src r) (\<lambda>(n, r'). Inr (Count n, r'))"
| "rb_step (Read n) r = bind_res (rb_read n r) (\<lambda>(bs, r'). Inr (Bytes bs, r'))"
| "rb_step (At i) r = bind_res (rb_at i r) (\<lambda>b. Inr (Byte b, r))"
| "rb_step (Rewind n) r = bind_res (rb_rewind n r) (\<lambda>r'. Inr (Done, r'))"
| "rb_step Rewind_Read r = Inr (Done, rb_rewind_read r)"
| "rb_step (Pop_Front n) r = bind_res (rb_pop_front n r) (\<lambda>r'. Inr (Done, r'))"

text \<open>Running a program of operations, keeping the outputs, stopping at the first fault.\<close>

fun run_ops :: "('o \<Rightarrow> 's \<Rightarrow> ('r \<times> 's) res) \<Rightarrow> 'o list \<Rightarrow> 's \<Rightarrow> ('r list \<times> 's) res" where
  "run_ops step [] s = Inr ([], s)"
| "run_ops step (c # cs) s =
     bind_res (step c s) (\<lambda>(out, s'). bind_res (run_ops step cs s') (\<lambda>(outs, s''). Inr (out # outs, s'')))"

definition rb_abs :: "rbuf \<Rightarrow> stream" where
  "rb_abs r = \<lparr>written = rb_bytes r, rd = rb_read_pos r, touched = (rb_buf r \<noteq> None)\<rparr>"

definition map_state :: "('s \<Rightarrow> 't) \<Rightarrow> ('r \<times> 's) res \<Rightarrow> ('r \<times> 't) res" where
  "map_state f m = bind_res m (\<lambda>(out, s). Inr (out, f s))"

lemma map_state_simps [simp]: "map_state f (Inl e) = Inl e" "map_state f (Inr (out, s)) = Inr (out, f s)"
  by (simp_all add: map_state_def)

lemma rb_abs_simps [simp]:
  "written (rb_abs r) = rb_bytes r" "rd (rb_abs r) = rb_read_pos r" "touched (rb_abs r) = (rb_buf r \<noteq> None)"
  by (simp_all add: rb_abs_def)

lemma rb_step_refines:
  assumes "rb_inv r"
  shows "map_state rb_abs (rb_step c r) = stream_step c (rb_abs r) \<and>
         (\<forall>out r'. rb_step c r = Inr (out, r') \<longrightarrow> rb_inv r')"
proof (cases c)
  case (Append src)
  then show ?thesis
  proof (cases src)
    case None
    with Append assms show ?thesis by (simp add: rb_append_def)
  next
    case (Some p)
    then show ?thesis
    proof (cases "p = []")
      case True
      with Append Some assms show ?thesis by (simp add: rb_append_def rb_abs_def)
    next
      case False
      from rb_append_ok [OF assms False] obtain r' where "rb_append (Some p) r = Inr (length p, r')" "rb_inv r'"
        "rb_bytes r' = rb_bytes r @ p" "rb_read_pos r' = rb_read_pos r" "rb_buf r' \<noteq> None" by blast
      with Append Some False show ?thesis by (simp add: rb_abs_def)
    qed
  qed
next
  case (Read n)
  show ?thesis
  proof (cases "n = 0 \<or> rb_buf r = None")
    case True
    with Read assms show ?thesis by (auto simp: rb_read_def)
  next
    case False
    then show ?thesis
    proof (cases "length (rb_bytes r) < rb_read_pos r + n")
      case True
      with False Read assms rb_read_short [of r n] show ?thesis by simp
    next
      case f: False
      with False Read assms rb_read_ok [of r n] rb_inv_read_pos [of r] show ?thesis
        by (simp add: rb_abs_def)
    qed
  qed
next
  case (At i)
  with assms show ?thesis
    by (auto simp: rb_at_def rb_size_def rb_inv_def bcapacity_def rb_bytes_def split: option.splits)
next
  case (Rewind n)
  show ?thesis
  proof (cases "n < length (rb_bytes r)")
    case True
    with Rewind assms rb_rewind_ok [OF assms True] show ?thesis by (simp add: rb_abs_def)
  next
    case False
    with Rewind assms show ?thesis by (simp add: rb_rewind_def rb_size_def)
  qed
next
  case Rewind_Read
  with assms show ?thesis
    by (auto simp: rb_rewind_read_def rb_abs_def rb_inv_def split: option.splits)
next
  case (Pop_Front n)
  show ?thesis
  proof (cases "rb_buf r \<noteq> None \<and> 0 < n \<and> n \<le> length (rb_bytes r)")
    case True
    then have h: "rb_buf r \<noteq> None" "0 < n" "n \<le> length (rb_bytes r)" by auto
    from rb_pop_front_ok [OF assms this] obtain r' where "rb_pop_front n r = Inr r'" "rb_inv r'"
      "rb_bytes r' = drop n (rb_bytes r)" "rb_buf r' \<noteq> None" "rb_read_pos r' = rb_read_pos r - n"
      by (auto split: if_splits)
    with Pop_Front h assms show ?thesis by (simp add: rb_abs_def)
  next
    case False
    with Pop_Front assms show ?thesis by (auto simp: rb_pop_front_def split: option.splits)
  qed
qed

lemma run_ops_refines:
  assumes step: "\<And>c s. I s \<Longrightarrow> map_state f (st c s) = ab c (f s) \<and> (\<forall>out s'. st c s = Inr (out, s') \<longrightarrow> I s')"
    and "I s"
  shows "map_state f (run_ops st cs s) = run_ops ab cs (f s)"
  using assms(2)
proof (induction cs arbitrary: s)
  case (Cons c cs)
  show ?case
  proof (cases "st c s")
    case (Inl e)
    then have "ab c (f s) = Inl e" using step [OF Cons.prems, of c] by (metis map_state_simps(1))
    with Inl show ?thesis by simp
  next
    case (Inr x)
    obtain out s' where x: "x = (out, s')" by (cases x)
    have a: "ab c (f s) = Inr (out, f s')" "I s'"
      using step [OF Cons.prems, of c] Inr x by auto
    have "run_ops ab cs (f s') = map_state f (run_ops st cs s')" using Cons.IH [OF a(2)] by simp
    then show ?thesis
      using Inr x a(1) by (cases "run_ops st cs s'") auto
  qed
qed simp

section \<open>Properties\<close>

text \<open>
  C27. Refinement: every sequence of \<open>append\<close>, \<open>read\<close>, \<open>at\<close>, \<open>rewind\<close>, \<open>rewind_read\<close> and
  \<open>pop_front\<close> on a fresh \<open>resize_buffer\<close> gives exactly the outputs, the thrown exceptions and the
  final contents and read position of the abstract byte stream, whatever blocks the pool hands
  out (recycled or new, with arbitrary old bytes in them) and however often the buffer moves to a
  larger block. No access leaves the block; the only undefined case is \<open>read\<close> before anything
  was appended.
\<close>

theorem resize_buffer_refines_stream:
  assumes "mp_inv pool"
  shows "map_state rb_abs (run_ops rb_step cs (mk_rbuf n pool)) =
         run_ops stream_step cs \<lparr>written = [], rd = 0, touched = False\<rparr>"
proof -
  have "rb_abs (mk_rbuf n pool) = \<lparr>written = [], rd = 0, touched = False\<rparr>"
    by (simp add: rb_abs_def mk_rbuf_def rb_bytes_def)
  moreover have "rb_inv (mk_rbuf n pool)"
    using mk_rbuf_ok [OF assms] by blast
  ultimately show ?thesis
    using run_ops_refines [of rb_inv rb_abs rb_step stream_step, OF rb_step_refines] by metis
qed

text \<open>The witness runs the buffer on a fresh pool: appends, a read across both, an underflow.\<close>

lemma resize_buffer_refines_stream_witness:
  "map_state rb_abs (run_ops rb_step [Append (Some [1, 2, 3]), Read 2, Append (Some [4]), Pop_Front 1, Read 2, Read 1]
      (mk_rbuf 64 (mk_multi_pool (\<lambda>_ _. 0)))) =
   Inr ([Count 3, Bytes (Some [1, 2]), Count 1, Done, Bytes (Some [3, 4]), Bytes None],
        \<lparr>written = [2, 3, 4], rd = 3, touched = True\<rparr>)"
  using resize_buffer_refines_stream [OF mk_multi_pool_inv, where cs = "[Append (Some [1, 2, 3]), Read 2,
      Append (Some [4]), Pop_Front 1, Read 2, Read 1]"]
  by simp

text \<open>
  \<open>resize\<close> beyond the current block does not always grow it: the amount it reserves is
  counted from the write position, not from the end of the block, so whenever the block has room
  for \<open>new_size - capacity()\<close> more bytes after the write position, \<open>resize\<close> succeeds, keeps the old
  block and leaves \<open>size()\<close> larger than \<open>capacity()\<close>; the next \<open>append\<close> then copies past the
  end of the block.
\<close>

theorem resize_outgrows_block:
  assumes "rb_buf r = Some b" "bcapacity b < n" "rb_pos r + (n - bcapacity b) \<le> bcapacity b"
  shows "\<exists>r'. rb_resize n r = Inr r' \<and> rb_capacity r' = bcapacity b \<and> rb_size r' = n \<and>
           rb_append (Some [x]) r' = Inl (Undef ''memcpy reads outside the block'')"
  using assms
  by (simp add: rb_resize_def rb_capacity_def rb_reserve_def rb_size_def rb_append_def split: prod.split)

lemma resize_outgrows_block_witness:
  "\<exists>r'. rb_resize 5 \<lparr>rb_pool = mk_multi_pool (\<lambda>_ _. 0), initial_size = 4,
           rb_buf = Some \<lparr>bdata = [1, 2, 3, 4], bstate = Created, hit_count = 0, bpool = None\<rparr>,
           rb_pos = 1, rb_read_pos = 0\<rparr> = Inr r' \<and>
        rb_capacity r' = 4 \<and> rb_size r' = 5 \<and>
        rb_append (Some [9]) r' = Inl (Undef ''memcpy reads outside the block'')"
  using resize_outgrows_block [of "\<lparr>rb_pool = mk_multi_pool (\<lambda>_ _. 0), initial_size = 4,
           rb_buf = Some \<lparr>bdata = [1, 2, 3, 4], bstate = Created, hit_count = 0, bpool = None\<rparr>,
           rb_pos = 1, rb_read_pos = 0\<rparr>" "\<lparr>bdata = [1, 2, 3, 4], bstate = Created, hit_count = 0, bpool = None\<rparr>" 5 9]
  by (simp add: bcapacity_def eval_nat_numeral)

end
