(* ===== verification/Utf8.thy ===== *)
theory Utf8
  imports Prelude
begin

text \<open>
  The checked UTF-8 transcoder the packer converts wide strings with
  (\<^verbatim>\<open>include/wise.kernel/util/utf8/core.h\<close> and \<^verbatim>\<open>checked.h\<close>): \<^verbatim>\<open>validate_next\<close>, \<^verbatim>\<open>next\<close>,
  \<^verbatim>\<open>append\<close>, \<^verbatim>\<open>utf16to8\<close>, \<^verbatim>\<open>utf8to16\<close>.

  An iterator is the list of the elements still in front of it. A \<^verbatim>\<open>uint32_t\<close> code point is a
  natural number; the one computation that can exceed 32 bits, the surrogate offset, has
  its wrap-around written out. \<^verbatim>\<open><< k\<close> is multiplication and \<^verbatim>\<open>>> k\<close> division by \<open>2 ^ k\<close>.
  The transcoders write to a back inserter, so an exception leaves the output produced so far:
  they return the output together with the exception, if any.
\<close>

unbundle bit_operations_syntax

section \<open>Code points\<close>

(* [include/wise.kernel/util/utf8/core.h:43-56 internal::LEAD_OFFSET] *)
definition lead_offset :: nat where
  "lead_offset = 0xd800 - 0x10000 div 2 ^ 10"

definition surrogate_offset :: nat where
  "surrogate_offset = nat ((0x10000 - 0xd800 * 2 ^ 10 - 0xdc00) mod 2 ^ 32 :: int)"

(* [include/wise.kernel/util/utf8/core.h:68-72 internal::is_trail] *)
definition is_trail :: "byte \<Rightarrow> bool" where
  "is_trail oc = (unat oc div 2 ^ 6 = 2)"

(* [include/wise.kernel/util/utf8/core.h:74-78 internal::is_lead_surrogate] *)
definition is_lead_surrogate :: "nat \<Rightarrow> bool" where
  "is_lead_surrogate cp \<longleftrightarrow> 0xd800 \<le> cp \<and> cp \<le> 0xdbff"

(* [include/wise.kernel/util/utf8/core.h:80-84 internal::is_trail_surrogate] *)
definition is_trail_surrogate :: "nat \<Rightarrow> bool" where
  "is_trail_surrogate cp \<longleftrightarrow> 0xdc00 \<le> cp \<and> cp \<le> 0xdfff"

(* [include/wise.kernel/util/utf8/core.h:86-90 internal::is_surrogate] *)
definition is_surrogate :: "nat \<Rightarrow> bool" where
  "is_surrogate cp \<longleftrightarrow> 0xd800 \<le> cp \<and> cp \<le> 0xdfff"

(* [include/wise.kernel/util/utf8/core.h:92-96 internal::is_code_point_valid] *)
definition is_code_point_valid :: "nat \<Rightarrow> bool" where
  "is_code_point_valid cp \<longleftrightarrow> cp \<le> 0x10ffff \<and> \<not> is_surrogate cp"

(* [include/wise.kernel/util/utf8/core.h:98-113 internal::sequence_length] *)
definition sequence_length :: "byte \<Rightarrow> nat" where
  "sequence_length lead =
     (if unat lead < 0x80 then 1
      else if unat lead div 2 ^ 5 = 0x6 then 2
      else if unat lead div 2 ^ 4 = 0xe then 3
      else if unat lead div 2 ^ 3 = 0x1e then 4
      else 0)"

(* [include/wise.kernel/util/utf8/core.h:115-132 internal::is_overlong_sequence] *)
definition is_overlong_sequence :: "nat \<Rightarrow> nat \<Rightarrow> bool" where
  "is_overlong_sequence cp len =
     (if cp < 0x80 then len \<noteq> 1
      else if cp < 0x800 then len \<noteq> 2
      else if cp < 0x10000 then len \<noteq> 3
      else False)"

section \<open>Decoding one sequence\<close>

(* [include/wise.kernel/util/utf8/core.h:134-134 internal::utf_error] *)
datatype utf_error = Not_Enough_Room | Invalid_Lead | Incomplete_Sequence | Overlong_Sequence | Invalid_Code_Point

text \<open>The iterator stands on an octet; \<open>increase_safely\<close> steps to the next one (\<open>rest\<close> is what follows).\<close>

(* [include/wise.kernel/util/utf8/core.h:136-149 internal::increase_safely] *)
fun increase_safely :: "byte list \<Rightarrow> utf_error + (byte \<times> byte list)" where
  "increase_safely [] = Inl Not_Enough_Room"
| "increase_safely (oc # rest) = (if \<not> is_trail oc then Inl Incomplete_Sequence else Inr (oc, rest))"

definition bind_utf :: "utf_error + 'a \<Rightarrow> ('a \<Rightarrow> utf_error + 'b) \<Rightarrow> utf_error + 'b" where
  "bind_utf m f = (case m of Inl e \<Rightarrow> Inl e | Inr a \<Rightarrow> f a)"

lemma bind_utf_simps [simp]: "bind_utf (Inl e) f = Inl e" "bind_utf (Inr a) f = f a"
  by (simp_all add: bind_utf_def)

(* [include/wise.kernel/util/utf8/core.h:153-163 internal::get_sequence_1] *)
definition get_sequence_1 :: "byte \<Rightarrow> byte list \<Rightarrow> utf_error + (nat \<times> byte list)" where
  "get_sequence_1 it rest = Inr (unat it, rest)"

(* [include/wise.kernel/util/utf8/core.h:165-178 internal::get_sequence_2] *)
definition get_sequence_2 :: "byte \<Rightarrow> byte list \<Rightarrow> utf_error + (nat \<times> byte list)" where
  "get_sequence_2 it rest =
     bind_utf (increase_safely rest) (\<lambda>(b, rest1).
       Inr (((unat it * 2 ^ 6) AND 0x7ff) + (unat b AND 0x3f), rest1))"

(* [include/wise.kernel/util/utf8/core.h:180-197 internal::get_sequence_3] *)
definition get_sequence_3 :: "byte \<Rightarrow> byte list \<Rightarrow> utf_error + (nat \<times> byte list)" where
  "get_sequence_3 it rest =
     bind_utf (increase_safely rest) (\<lambda>(b, rest1).
     let cp = ((unat it * 2 ^ 12) AND 0xffff) + ((unat b * 2 ^ 6) AND 0xfff) in
     bind_utf (increase_safely rest1) (\<lambda>(c, rest2).
       Inr (cp + (unat c AND 0x3f), rest2)))"

(* [include/wise.kernel/util/utf8/core.h:199-220 internal::get_sequence_4] *)
definition get_sequence_4 :: "byte \<Rightarrow> byte list \<Rightarrow> utf_error + (nat \<times> byte list)" where
  "get_sequence_4 it rest =
     bind_utf (increase_safely rest) (\<lambda>(b, rest1).
     let cp = ((unat it * 2 ^ 18) AND 0x1fffff) + ((unat b * 2 ^ 12) AND 0x3ffff) in
     bind_utf (increase_safely rest1) (\<lambda>(c, rest2).
     let cp1 = cp + ((unat c * 2 ^ 6) AND 0xfff) in
     bind_utf (increase_safely rest2) (\<lambda>(d, rest3).
       Inr (cp1 + (unat d AND 0x3f), rest3))))"

(* [include/wise.kernel/util/utf8/core.h:224-273 internal::validate_next] *)
definition validate_next :: "byte \<Rightarrow> byte list \<Rightarrow> utf_error + (nat \<times> byte list)" where
  "validate_next it rest =
     (let len = sequence_length it in
      if len = 0 then Inl Invalid_Lead
      else bind_utf
        (if len = 1 then get_sequence_1 it rest
         else if len = 2 then get_sequence_2 it rest
         else if len = 3 then get_sequence_3 it rest
         else get_sequence_4 it rest)
        (\<lambda>(cp, rest').
           if is_code_point_valid cp then
             if \<not> is_overlong_sequence cp len then Inr (cp, rest') else Inl Overlong_Sequence
           else Inl Invalid_Code_Point))"

(* [include/wise.kernel/util/utf8/checked.h:37-66 utf8::exception] *)
definition utf_exception :: "utf_error \<Rightarrow> fault" where
  "utf_exception e = (case e of
     Not_Enough_Room \<Rightarrow> Throw ''Not enough space''
   | Invalid_Code_Point \<Rightarrow> Throw ''Invalid code point''
   | _ \<Rightarrow> Throw ''Invalid UTF-8'')"

(* [include/wise.kernel/util/utf8/checked.h:135-153 utf8::next] *)
definition utf8_next :: "byte \<Rightarrow> byte list \<Rightarrow> (nat \<times> byte list) res" where
  "utf8_next it rest = (case validate_next it rest of Inr x \<Rightarrow> Inr x | Inl e \<Rightarrow> Inl (utf_exception e))"

section \<open>Encoding\<close>

definition octet :: "nat \<Rightarrow> byte" where
  "octet n = word_of_nat n"

(* [include/wise.kernel/util/utf8/checked.h:70-95 utf8::append] *)
definition utf8_append :: "nat \<Rightarrow> byte list \<Rightarrow> byte list res" where
  "utf8_append cp result =
     (if \<not> is_code_point_valid cp then Inl (Throw ''Invalid code point'')
      else if cp < 0x80 then Inr (result @ [octet cp])
      else if cp < 0x800 then
        Inr (result @ [octet ((cp div 2 ^ 6) OR 0xc0), octet ((cp AND 0x3f) OR 0x80)])
      else if cp < 0x10000 then
        Inr (result @ [octet ((cp div 2 ^ 12) OR 0xe0), octet (((cp div 2 ^ 6) AND 0x3f) OR 0x80),
                       octet ((cp AND 0x3f) OR 0x80)])
      else
        Inr (result @ [octet ((cp div 2 ^ 18) OR 0xf0), octet (((cp div 2 ^ 12) AND 0x3f) OR 0x80),
                       octet (((cp div 2 ^ 6) AND 0x3f) OR 0x80), octet ((cp AND 0x3f) OR 0x80)]))"

section \<open>Transcoding\<close>

type_synonym ('s, 'r) transcoder = "'s list \<Rightarrow> 'r list \<Rightarrow> 'r list \<times> fault option"

definition utf_write :: "byte list \<Rightarrow> byte list res \<Rightarrow> (byte list \<Rightarrow> byte list \<times> fault option) \<Rightarrow> byte list \<times> fault option" where
  "utf_write result m k = (case m of Inl e \<Rightarrow> (result, Some e) | Inr r \<Rightarrow> k r)"

lemma utf_write_cong [fundef_cong]:
  "result = result' \<Longrightarrow> m = m' \<Longrightarrow> (\<And>r. m' = Inr r \<Longrightarrow> k r = k' r) \<Longrightarrow> utf_write result m k = utf_write result' m' k'"
  by (cases m') (auto simp: utf_write_def)

(* [include/wise.kernel/util/utf8/checked.h:206-231 utf8::utf16to8] *)
fun utf16to8 :: "(u16, byte) transcoder" where
  "utf16to8 [] result = (result, None)"
| "utf16to8 (w # ws) result =
     (if is_lead_surrogate (unat w) then
        (case ws of
           [] \<Rightarrow> (result, Some (Throw ''Invalid UTF-16''))
         | t # ws' \<Rightarrow>
             if is_trail_surrogate (unat t) then
               utf_write result (utf8_append ((unat w * 2 ^ 10 + unat t + surrogate_offset) mod 2 ^ 32) result)
                 (\<lambda>r. utf16to8 ws' r)
             else (result, Some (Throw ''Invalid UTF-16'')))
      else if is_trail_surrogate (unat w) then (result, Some (Throw ''Invalid UTF-16''))
      else utf_write result (utf8_append (unat w) result) (\<lambda>r. utf16to8 ws r))"

definition utf16_units :: "nat \<Rightarrow> u16 list" where
  "utf16_units cp =
     (if cp > 0xffff then [word_of_nat (cp div 2 ^ 10 + lead_offset), word_of_nat ((cp AND 0x3ff) + 0xdc00)]
      else [word_of_nat cp])"

lemma increase_safely_length: "increase_safely rest = Inr (b, rest') \<Longrightarrow> length rest' < length rest"
  by (cases rest) (auto split: if_splits)

lemma bind_utf_Inr_iff: "bind_utf m f = Inr b \<longleftrightarrow> (\<exists>a. m = Inr a \<and> f a = Inr b)"
  by (cases m) auto

lemma utf8_next_length: "utf8_next it rest = Inr (cp, rest') \<Longrightarrow> length rest' \<le> length rest"
  by (auto simp: utf8_next_def validate_next_def Let_def get_sequence_1_def get_sequence_2_def get_sequence_3_def
      get_sequence_4_def bind_utf_Inr_iff split: if_splits sum.splits dest!: increase_safely_length)

(* [include/wise.kernel/util/utf8/checked.h:233-246 utf8::utf8to16] *)
function utf8to16 :: "(byte, u16) transcoder" where
  "utf8to16 [] result = (result, None)"
| "utf8to16 (it # rest) result =
     (case utf8_next it rest of
        Inl e \<Rightarrow> (result, Some e)
      | Inr (cp, rest') \<Rightarrow> utf8to16 rest' (result @ utf16_units cp))"
  by pat_completeness auto
termination
  by (relation "measure (length \<circ> fst)") (auto dest!: utf8_next_length)

section \<open>Round trip\<close>

lemma and_mask_nat:
  "(n::nat) AND 0x3f = n mod 64" "n AND 0x3ff = n mod 1024" "n AND 0x7ff = n mod 2048" "n AND 0xfff = n mod 4096"
  "n AND 0xffff = n mod 65536" "n AND 0x3ffff = n mod 262144" "n AND 0x1fffff = n mod 2097152"
  using take_bit_eq_mask [of 6 n] take_bit_eq_mask [of 10 n] take_bit_eq_mask [of 11 n] take_bit_eq_mask [of 12 n]
    take_bit_eq_mask [of 16 n] take_bit_eq_mask [of 18 n] take_bit_eq_mask [of 21 n]
  by (simp_all add: take_bit_eq_mod mask_eq_exp_minus_1)

lemma or_tag_nat:
  "(n::nat) < 64 \<Longrightarrow> n OR 0x80 = n + 0x80" "n < 32 \<Longrightarrow> n OR 0xc0 = n + 0xc0"
  "n < 16 \<Longrightarrow> n OR 0xe0 = n + 0xe0" "n < 8 \<Longrightarrow> n OR 0xf0 = n + 0xf0"
proof -
  have "\<forall>n \<in> set [0..<64]. (n::nat) OR 0x80 = n + 0x80" "\<forall>n \<in> set [0..<32]. (n::nat) OR 0xc0 = n + 0xc0"
    "\<forall>n \<in> set [0..<16]. (n::nat) OR 0xe0 = n + 0xe0" "\<forall>n \<in> set [0..<8]. (n::nat) OR 0xf0 = n + 0xf0"
    by code_simp+
  then show "n < 64 \<Longrightarrow> n OR 0x80 = n + 0x80" "n < 32 \<Longrightarrow> n OR 0xc0 = n + 0xc0"
    "n < 16 \<Longrightarrow> n OR 0xe0 = n + 0xe0" "n < 8 \<Longrightarrow> n OR 0xf0 = n + 0xf0" by auto
qed

lemma unat_octet: "n < 256 \<Longrightarrow> unat (octet n) = n"
  by (simp add: octet_def unat_of_nat)

text \<open>The octets \<open>append\<close> writes, and that \<open>next\<close> reads exactly them back.\<close>

definition utf8_octets :: "nat \<Rightarrow> byte list" where
  "utf8_octets cp =
     (if cp < 0x80 then [octet cp]
      else if cp < 0x800 then [octet (cp div 64 + 0xc0), octet (cp mod 64 + 0x80)]
      else if cp < 0x10000 then
        [octet (cp div 4096 + 0xe0), octet (cp div 64 mod 64 + 0x80), octet (cp mod 64 + 0x80)]
      else [octet (cp div 262144 + 0xf0), octet (cp div 4096 mod 64 + 0x80), octet (cp div 64 mod 64 + 0x80),
            octet (cp mod 64 + 0x80)])"

lemma utf8_append_octets:
  "is_code_point_valid cp \<Longrightarrow> utf8_append cp result = Inr (result @ utf8_octets cp)"
  by (auto simp: utf8_append_def utf8_octets_def is_code_point_valid_def and_mask_nat or_tag_nat)

lemma is_trail_octet: "n < 64 \<Longrightarrow> is_trail (octet (n + 0x80))"
  by (simp add: is_trail_def unat_octet)

lemma untag_gen: "x < n \<Longrightarrow> t mod n = 0 \<Longrightarrow> (x + t) * m mod (n * m) = x * (m::nat)"
  by (metis add.right_neutral mod_add_right_eq mod_less mult_mod_left mod_mult_mult2)

lemma untag:
  "x < 32 \<Longrightarrow> (x + 0xc0) * 64 mod 2048 = x * (64::nat)" "x < 16 \<Longrightarrow> (x + 0xe0) * 4096 mod 65536 = x * (4096::nat)"
  "x < 8 \<Longrightarrow> (x + 0xf0) * 262144 mod 2097152 = x * (262144::nat)" "x < 64 \<Longrightarrow> (x + 0x80) * 4096 mod 262144 = x * (4096::nat)"
  "x < 64 \<Longrightarrow> (x + 0x80) * 64 mod 4096 = x * (64::nat)" "x < 64 \<Longrightarrow> (x + 0x80) mod 64 = (x::nat)"
  using untag_gen [of x 32 "0xc0" 64] untag_gen [of x 16 "0xe0" 4096] untag_gen [of x 8 "0xf0" 262144]
    untag_gen [of x 64 "0x80" 4096] untag_gen [of x 64 "0x80" 64] untag_gen [of x 64 "0x80" 1]
  by simp_all

lemma tag_div:
  "x < 16 \<Longrightarrow> (x + 0xe0) div 16 = (14::nat)" "x < 16 \<Longrightarrow> (x + 0xe0) div 32 = (7::nat)"
  "x < 8 \<Longrightarrow> (x + 0xf0) div 8 = (30::nat)" "x < 8 \<Longrightarrow> (x + 0xf0) div 16 = (15::nat)" "x < 8 \<Longrightarrow> (x + 0xf0) div 32 = (7::nat)"
  by (auto intro: div_nat_eqI)

lemma digits:
  "cp div 64 * 64 + cp mod 64 = (cp::nat)"
  "cp div 4096 * 4096 + cp div 64 mod 64 * 64 + cp mod 64 = cp"
  "cp div 262144 * 262144 + cp div 4096 mod 64 * 4096 + cp div 64 mod 64 * 64 + cp mod 64 = cp"
proof -
  show a: "cp div 64 * 64 + cp mod 64 = cp" by (rule div_mult_mod_eq)
  have b: "cp div 4096 * 64 + cp div 64 mod 64 = cp div 64"
    using div_mult_mod_eq [of "cp div 64" 64] by (simp add: div_mult2_eq [symmetric])
  with a show c: "cp div 4096 * 4096 + cp div 64 mod 64 * 64 + cp mod 64 = cp" by linarith
  have "cp div 262144 * 64 + cp div 4096 mod 64 = cp div 4096"
    using div_mult_mod_eq [of "cp div 4096" 64] by (simp add: div_mult2_eq [symmetric])
  with c show "cp div 262144 * 262144 + cp div 4096 mod 64 * 4096 + cp div 64 mod 64 * 64 + cp mod 64 = cp" by linarith
qed

lemma get_sequence_octets:
  assumes "y < 64" "z < 64" "v < 64"
  shows "x < 32 \<Longrightarrow> get_sequence_2 (octet (x + 0xc0)) (octet (y + 0x80) # rest) = Inr (x * 64 + y, rest)"
    and "x < 16 \<Longrightarrow> get_sequence_3 (octet (x + 0xe0)) (octet (y + 0x80) # octet (z + 0x80) # rest) =
           Inr (x * 4096 + y * 64 + z, rest)"
    and "x < 8 \<Longrightarrow> get_sequence_4 (octet (x + 0xf0)) (octet (y + 0x80) # octet (z + 0x80) # octet (v + 0x80) # rest) =
           Inr (x * 262144 + y * 4096 + z * 64 + v, rest)"
proof -
  have pow: "(2::nat) ^ 6 = 64" "(2::nat) ^ 12 = 4096" "(2::nat) ^ 18 = 262144" by simp_all
  have u: "unat (octet (n + 0x80)) = n + 0x80" if "n < 64" for n using that by (simp add: unat_octet)
  have l: "x < 32 \<Longrightarrow> unat (octet (x + 0xc0)) = x + 0xc0" "x < 16 \<Longrightarrow> unat (octet (x + 0xe0)) = x + 0xe0"
    "x < 8 \<Longrightarrow> unat (octet (x + 0xf0)) = x + 0xf0" by (simp_all add: unat_octet)
  note unfold = increase_safely.simps is_trail_octet not_True_eq_False if_False bind_utf_simps prod.case u l
    and_mask_nat pow untag Let_def assms
  show "x < 32 \<Longrightarrow> get_sequence_2 (octet (x + 0xc0)) (octet (y + 0x80) # rest) = Inr (x * 64 + y, rest)"
    by (simp only: get_sequence_2_def unfold)
  show "x < 16 \<Longrightarrow> get_sequence_3 (octet (x + 0xe0)) (octet (y + 0x80) # octet (z + 0x80) # rest) =
           Inr (x * 4096 + y * 64 + z, rest)"
    by (simp only: get_sequence_3_def unfold)
  show "x < 8 \<Longrightarrow> get_sequence_4 (octet (x + 0xf0)) (octet (y + 0x80) # octet (z + 0x80) # octet (v + 0x80) # rest) =
           Inr (x * 262144 + y * 4096 + z * 64 + v, rest)"
    by (simp only: get_sequence_4_def unfold)
qed

lemma sequence_length_octet:
  "x < 32 \<Longrightarrow> 0 < x \<Longrightarrow> sequence_length (octet (x + 0xc0)) = 2" "x < 16 \<Longrightarrow> sequence_length (octet (x + 0xe0)) = 3"
  "x < 8 \<Longrightarrow> sequence_length (octet (x + 0xf0)) = 4"
  by (simp_all add: sequence_length_def unat_octet tag_div)

lemma utf8_next_octets:
  assumes "is_code_point_valid cp"
  shows "\<exists>it tl. utf8_octets cp = it # tl \<and> utf8_next it (tl @ rest) = Inr (cp, rest)"
proof -
  have cp: "cp \<le> 0x10ffff" using assms by (simp add: is_code_point_valid_def)
  consider (1) "cp < 0x80" | (2) "0x80 \<le> cp" "cp < 0x800" | (3) "0x800 \<le> cp" "cp < 0x10000" | (4) "0x10000 \<le> cp"
    by linarith
  then show ?thesis
  proof cases
    case 1
    then show ?thesis using assms
      by (simp add: utf8_octets_def utf8_next_def validate_next_def sequence_length_def unat_octet get_sequence_1_def
          is_overlong_sequence_def)
  next
    case 2
    then have "0 < cp div 64" "cp div 64 < 32" by (simp_all add: div_greater_zero_iff)
    with 2 assms show ?thesis
      using get_sequence_octets(1) [of "cp mod 64" 0 0 "cp div 64" rest]
      by (simp add: utf8_octets_def utf8_next_def validate_next_def is_overlong_sequence_def sequence_length_octet digits)
  next
    case 3
    then have "cp div 4096 < 16" by simp
    with 3 assms show ?thesis
      using get_sequence_octets(2) [of "cp div 64 mod 64" "cp mod 64" 0 "cp div 4096" rest]
      by (simp add: utf8_octets_def utf8_next_def validate_next_def is_overlong_sequence_def sequence_length_octet digits)
  next
    case 4
    have "cp div 262144 < 8" using cp by simp
    with 4 assms show ?thesis
      using get_sequence_octets(3) [of "cp div 4096 mod 64" "cp div 64 mod 64" "cp mod 64" "cp div 262144" rest]
      by (simp add: utf8_octets_def utf8_next_def validate_next_def is_overlong_sequence_def sequence_length_octet digits)
  qed
qed

lemma utf8to16_octets:
  assumes "is_code_point_valid cp"
  shows "utf8to16 (utf8_octets cp @ rest) result = utf8to16 rest (result @ utf16_units cp)"
  using utf8_next_octets [OF assms, of rest] by auto

lemma surrogate_pair:
  assumes "is_lead_surrogate (unat w)" "is_trail_surrogate (unat t)"
  defines "cp \<equiv> (unat w * 2 ^ 10 + unat t + surrogate_offset) mod 2 ^ 32"
  shows "is_code_point_valid cp" "utf16_units cp = [w, t :: u16]"
proof -
  have so: "surrogate_offset = 4238353408" by (simp add: surrogate_offset_def)
  have w: "0xd800 \<le> unat w" "unat w \<le> 0xdbff" and t: "0xdc00 \<le> unat t" "unat t \<le> 0xdfff"
    using assms(1,2) by (simp_all add: is_lead_surrogate_def is_trail_surrogate_def)
  then have cp: "cp = (unat w - 0xd800) * 1024 + (unat t - 0xdc00) + 0x10000"
  proof -
    have "unat w * 2 ^ 10 + unat t + surrogate_offset = (unat w - 0xd800) * 1024 + (unat t - 0xdc00) + 0x10000 + 2 ^ 32"
      using w t so by simp
    moreover have "(unat w - 0xd800) * 1024 + (unat t - 0xdc00) + 0x10000 < 2 ^ 32" using w t by simp
    ultimately show ?thesis unfolding cp_def by (metis mod_add_self2 mod_less)
  qed
  show "is_code_point_valid cp"
    using w t cp by (simp add: is_code_point_valid_def is_surrogate_def)
  have "cp div 1024 + lead_offset = unat w" "cp mod 1024 + 0xdc00 = unat t" "cp > 0xffff"
  proof -
    have d: "cp = (unat w - 0xd800 + 64) * 1024 + (unat t - 0xdc00)" "unat t - 0xdc00 < 1024" using cp t by simp_all
    then have "cp div 1024 = unat w - 0xd800 + 64" "cp mod 1024 = unat t - 0xdc00"
      by (simp only: div_mult_self3 div_less add_0_right zero_neq_numeral, simp) (metis d mod_less mod_mult_self3)
    then show "cp div 1024 + lead_offset = unat w" "cp mod 1024 + 0xdc00 = unat t" "cp > 0xffff"
      using w t cp by (simp_all add: lead_offset_def)
  qed
  then show "utf16_units cp = [w, t]"
    by (simp add: utf16_units_def and_mask_nat)
qed

lemma single_unit:
  assumes "\<not> is_lead_surrogate (unat w)" "\<not> is_trail_surrogate (unat w)"
  shows "is_code_point_valid (unat w)" "utf16_units (unat w) = [w :: u16]"
  using assms unsigned_less [of w, where 'a = nat]
  by (auto simp: is_code_point_valid_def is_surrogate_def is_lead_surrogate_def is_trail_surrogate_def utf16_units_def)

lemma utf16to8_back:
  "utf16to8 ws result = (out, None) \<Longrightarrow>
     \<exists>bs. out = result @ bs \<and> (\<forall>r. utf8to16 bs r = (r @ ws, None))"
proof (induction ws result rule: utf16to8.induct)
  case (2 w ws result)
  show ?case
  proof (cases "is_lead_surrogate (unat w)")
    case True
    then obtain t ws' where ws: "ws = t # ws'" and t: "is_trail_surrogate (unat t)"
      using "2.prems" by (auto split: list.splits if_splits)
    define cp where "cp = (unat w * 2 ^ 10 + unat t + surrogate_offset) mod 2 ^ 32"
    note sp = surrogate_pair [OF True t, folded cp_def]
    have a: "utf8_append cp result = Inr (result @ utf8_octets cp)"
      by (rule utf8_append_octets [OF sp(1)])
    then have "utf16to8 ws' (result @ utf8_octets cp) = (out, None)"
      using "2.prems" True t ws by (simp add: utf_write_def cp_def)
    with "2.IH"(1) [OF True ws t a [unfolded cp_def], folded cp_def] obtain bs where bs: "out = (result @ utf8_octets cp) @ bs"
      "\<forall>r. utf8to16 bs r = (r @ ws', None)" by blast
    then have "\<forall>r. utf8to16 (utf8_octets cp @ bs) r = (r @ w # t # ws', None)"
      by (simp add: utf8to16_octets [OF sp(1)] sp(2))
    with bs ws show ?thesis by auto
  next
    case False
    then have nt: "\<not> is_trail_surrogate (unat w)" using "2.prems" by auto
    note su = single_unit [OF False nt]
    have a: "utf8_append (unat w) result = Inr (result @ utf8_octets (unat w))"
      by (rule utf8_append_octets [OF su(1)])
    then have "utf16to8 ws (result @ utf8_octets (unat w)) = (out, None)"
      using "2.prems" False nt by (simp add: utf_write_def)
    with "2.IH"(2) [OF False nt a] obtain bs where bs: "out = (result @ utf8_octets (unat w)) @ bs"
      "\<forall>r. utf8to16 bs r = (r @ ws, None)" by blast
    then have "\<forall>r. utf8to16 (utf8_octets (unat w) @ bs) r = (r @ w # ws, None)"
      by (simp add: utf8to16_octets [OF su(1)] su(2))
    with bs show ?thesis by auto
  qed
qed auto

lemma length_utf8_octets: "length (utf8_octets cp) \<le> 4" "cp < 0x10000 \<Longrightarrow> length (utf8_octets cp) \<le> 3"
  by (auto simp: utf8_octets_def)

lemma utf16to8_length: "utf16to8 ws result = (out, None) \<Longrightarrow> length out \<le> length result + 3 * length ws"
proof (induction ws result rule: utf16to8.induct)
  case (2 w ws result)
  show ?case
  proof (cases "is_lead_surrogate (unat w)")
    case True
    then obtain t ws' where ws: "ws = t # ws'" and t: "is_trail_surrogate (unat t)"
      using "2.prems" by (auto split: list.splits if_splits)
    define cp where "cp = (unat w * 2 ^ 10 + unat t + surrogate_offset) mod 2 ^ 32"
    have a: "utf8_append cp result = Inr (result @ utf8_octets cp)"
      using surrogate_pair(1) [OF True t, folded cp_def] by (rule utf8_append_octets)
    then have "utf16to8 ws' (result @ utf8_octets cp) = (out, None)"
      using "2.prems" True t ws by (simp add: utf_write_def cp_def)
    from "2.IH"(1) [OF True ws t a [unfolded cp_def], folded cp_def, OF this] show ?thesis
      using length_utf8_octets(1) [of cp] ws by simp
  next
    case False
    then have nt: "\<not> is_trail_surrogate (unat w)" using "2.prems" by auto
    have a: "utf8_append (unat w) result = Inr (result @ utf8_octets (unat w))"
      using single_unit(1) [OF False nt] by (rule utf8_append_octets)
    then have "utf16to8 ws (result @ utf8_octets (unat w)) = (out, None)"
      using "2.prems" False nt by (simp add: utf_write_def)
    from "2.IH"(2) [OF False nt a this] show ?thesis
      using length_utf8_octets(2) [of "unat w"] unsigned_less [of w, where 'a = nat] by simp
  qed
qed auto

section \<open>Properties\<close>

text \<open>
  C36. Every string \<open>utf16to8\<close> accepts (no unpaired surrogate) is recovered exactly by
  \<open>utf8to16\<close>: one-, two-, three- and four-octet sequences, surrogate pairs included, pass the
  decoder's checks and give back the same UTF-16 units.
\<close>

theorem utf16_utf8_round_trip:
  "utf16to8 ws [] = (bs, None) \<Longrightarrow> utf8to16 bs [] = (ws, None)"
  using utf16to8_back [of ws "[]" bs] by auto

text \<open>The witness: \<open>A\<close>, \<open>\<beta>\<close>, a Hangul syllable and a surrogate pair.\<close>

lemma utf16_utf8_round_trip_witness:
  "utf8to16 [0x41, 0xCE, 0xB2, 0xED, 0x95, 0x9C, 0xF0, 0x9F, 0x98, 0x80] [] = ([0x41, 0x3B2, 0xD55C, 0xD83D, 0xDE00], None)"
proof (rule utf16_utf8_round_trip)
  show "utf16to8 [0x41, 0x3B2, 0xD55C, 0xD83D, 0xDE00] [] = ([0x41, 0xCE, 0xB2, 0xED, 0x95, 0x9C, 0xF0, 0x9F, 0x98, 0x80], None)"
    by (simp add: is_lead_surrogate_def is_trail_surrogate_def utf_write_def utf8_append_octets is_code_point_valid_def
        is_surrogate_def utf8_octets_def octet_def surrogate_offset_def)
qed

end
