(* ===== verification/Bits_Packer.thy ===== *)
theory Bits_Packer
  imports Resize_Buffer Utf8
begin

text \<open>
  \<^verbatim>\<open>bits_packer\<close> (\<^verbatim>\<open>include/wise.kernel/net/protocol/bits/bits_packer.hpp\<close>,
  \<^verbatim>\<open>src/net/protocol/bits/bits_packer.cpp\<close>): serialisation to and from a \<^verbatim>\<open>resize_buffer\<close>.

  A packer holds the buffer, the host's endianness as its constructor finds it (\<open>is_le\<close>) and
  the validity latch. An integer, a float or a double is its bit pattern, a word of its width.
  \<open>unpack\<close> takes the old value of the variable it fills and returns the new one: a failed or
  empty unpack may leave the old value in place. The locale \<open>codec\<close> is the contract every
  serialised type satisfies.
\<close>

section \<open>The packer\<close>

(* [include/wise.kernel/net/protocol/bits/bits_packer.hpp:162-166 bits_packer] *)
record packer =
  pk_buf :: rbuf
  is_le :: bool
  is_valid :: bool

type_synonym 'a pack_fn = "'a \<Rightarrow> packer \<Rightarrow> (bool \<times> packer) res"
type_synonym 'a unpack_fn = "'a \<Rightarrow> packer \<Rightarrow> (bool \<times> 'a \<times> packer) res"

(* [include/wise.kernel/net/protocol/bits/bits_packer.hpp:78-82 bits_packer::config] *)
definition max_container_size :: nat where
  "max_container_size = 8 * 1024"

definition max_string_size :: nat where
  "max_string_size = 2 * 1024"

(* [include/wise.kernel/net/protocol/bits/bits_packer.hpp:84-90 bits_packer::bits_packer] *)
definition mk_packer :: "bool \<Rightarrow> rbuf \<Rightarrow> packer" where
  "mk_packer host_le buf = \<lparr>pk_buf = buf, is_le = host_le, is_valid = True\<rparr>"

(* [include/wise.kernel/net/protocol/bits/bits_packer.hpp:169-176 bits_packer::pack] *)
definition pack_raw :: "byte list pack_fn" where
  "pack_raw bs p =
     (if \<not> is_valid p then Inr (False, p)
      else bind_res (rb_append (Some bs) (pk_buf p)) (\<lambda>(_, b). Inr (is_valid p, p\<lparr>pk_buf := b\<rparr>)))"

text \<open>\<open>old\<close> is the destination memory, \<open>len\<close> bytes of it are overwritten on success.\<close>

(* [include/wise.kernel/net/protocol/bits/bits_packer.hpp:178-185 bits_packer::unpack] *)
definition unpack_raw :: "nat \<Rightarrow> byte list unpack_fn" where
  "unpack_raw len old p =
     (if \<not> is_valid p then Inr (False, old, p)
      else bind_res (rb_read len (pk_buf p))
        (\<lambda>(r, b). case r of
            None \<Rightarrow> Inr (False, old, p\<lparr>pk_buf := b, is_valid := False\<rparr>)
          | Some bs \<Rightarrow> Inr (True, splice 0 bs old, p\<lparr>pk_buf := b, is_valid := True\<rparr>)))"

text \<open>Memory image of a fundamental value on a little- or big-endian host.\<close>

definition sizeof :: "'a::len word \<Rightarrow> nat" where
  "sizeof w = LENGTH('a) div 8"

definition host_image :: "bool \<Rightarrow> 'a::len word \<Rightarrow> byte list" where
  "host_image le w = (if le then word_bytes (sizeof w) w else rev (word_bytes (sizeof w) w))"

definition host_value :: "bool \<Rightarrow> byte list \<Rightarrow> 'a::len word" where
  "host_value le bs = bytes_word (if le then bs else rev bs)"

(* [include/wise.kernel/net/protocol/bits/bits_packer.hpp:613-636 bits_packer::swap_endian] *)
definition swap_endian :: "'a::len word \<Rightarrow> 'a word" where
  "swap_endian u = bytes_word (rev (word_bytes (sizeof u) u))"

(* [include/wise.kernel/net/protocol/bits/bits_packer.hpp:18-36 DEFINE_PACK] *)
definition pack_word :: "'a::len word pack_fn" where
  "pack_word s p =
     (if \<not> is_valid p then Inr (False, p)
      else bind_res
        (if is_le p then rb_append (Some (host_image (is_le p) s)) (pk_buf p)
         else rb_append (Some (host_image (is_le p) (swap_endian s))) (pk_buf p))
        (\<lambda>(_, b). Inr (is_valid p, p\<lparr>pk_buf := b\<rparr>)))"

(* [include/wise.kernel/net/protocol/bits/bits_packer.hpp:38-60 DEFINE_UNPACK] *)
definition unpack_word :: "'a::len word unpack_fn" where
  "unpack_word s p =
     (if \<not> is_valid p then Inr (False, s, p)
      else bind_res (rb_read (sizeof s) (pk_buf p))
        (\<lambda>(r, b). case r of
            None \<Rightarrow> Inr (False, s, p\<lparr>pk_buf := b, is_valid := False\<rparr>)
          | Some bs \<Rightarrow>
              Inr (True, (if is_le p then host_value (is_le p) bs else swap_endian (host_value (is_le p) bs)),
                   p\<lparr>pk_buf := b, is_valid := True\<rparr>)))"

section \<open>Composed types\<close>

text \<open>
  \<^verbatim>\<open>is_valid_ = pack(x); WISE_RETURN_IF(!is_valid_, false)\<close> is \<open>latch\<close>;
  \<^verbatim>\<open>WISE_RETURN_IF(!pack(x), false)\<close> is \<open>pack_then\<close>; \<open>unpack_field\<close> is the same for \<open>unpack\<close>
  into a member of a structure.
\<close>

definition latch :: "(bool \<times> packer) res \<Rightarrow> (packer \<Rightarrow> (bool \<times> packer) res) \<Rightarrow> (bool \<times> packer) res" where
  "latch m k = bind_res m (\<lambda>(r, p). if \<not> r then Inr (False, p\<lparr>is_valid := r\<rparr>) else k (p\<lparr>is_valid := r\<rparr>))"

definition pack_then :: "(bool \<times> packer) res \<Rightarrow> (packer \<Rightarrow> (bool \<times> packer) res) \<Rightarrow> (bool \<times> packer) res" where
  "pack_then m k = bind_res m (\<lambda>(r, p). if \<not> r then Inr (False, p) else k p)"

definition unpack_field :: "(bool \<times> 'f \<times> packer) res \<Rightarrow> ('f \<Rightarrow> 's) \<Rightarrow> ('s \<Rightarrow> packer \<Rightarrow> (bool \<times> 's \<times> packer) res)
    \<Rightarrow> (bool \<times> 's \<times> packer) res" where
  "unpack_field m upd k = bind_res m (\<lambda>(r, f, p). if \<not> r then Inr (False, upd f, p) else k (upd f) p)"

text \<open>An enumerator is its integer value; \<^verbatim>\<open>static_cast<int32_t>\<close> takes it modulo \<open>2 ^ 32\<close>.\<close>

(* [include/wise.kernel/net/protocol/bits/bits_packer.hpp:187-201 bits_packer::pack_enum] *)
definition pack_enum :: "int pack_fn" where
  "pack_enum s p =
     (if \<not> is_valid p then Inr (False, p)
      else bind_res (pack_word (word_of_int s :: u32) p) (\<lambda>(r, p1). Inr (r, p1\<lparr>is_valid := r\<rparr>)))"

(* [include/wise.kernel/net/protocol/bits/bits_packer.hpp:203-222 bits_packer::unpack_enum] *)
definition unpack_enum :: "int unpack_fn" where
  "unpack_enum s p =
     (if \<not> is_valid p then Inr (False, s, p)
      else bind_res (unpack_word (0 :: u32) p)
        (\<lambda>(r, val, p1). if \<not> r then Inr (False, s, p1\<lparr>is_valid := r\<rparr>) else Inr (r, sint val, p1\<lparr>is_valid := r\<rparr>)))"

(* [include/wise.kernel/net/protocol/bits/bits_packer.hpp:240-273 bits_packer::pack] *)
definition pack_string :: "byte list pack_fn" where
  "pack_string s p =
     (if \<not> is_valid p then Inr (False, p)
      else if length s > max_string_size then Inr (False, p\<lparr>is_valid := False\<rparr>)
      else let len = word_of_nat (length s) :: u16 in
        latch (pack_word len p)
          (\<lambda>p1. if len > 0 then latch (pack_raw (take (unat len) s) p1) (\<lambda>p2. Inr (is_valid p2, p2))
                else Inr (is_valid p1, p1)))"

text \<open>The characters go through a zero-filled array and a C string: they end at the first zero byte.\<close>

(* [include/wise.kernel/net/protocol/bits/bits_packer.hpp:275-312 bits_packer::unpack] *)
definition unpack_string :: "byte list unpack_fn" where
  "unpack_string s p =
     (if \<not> is_valid p then Inr (False, s, p)
      else bind_res (unpack_word (0 :: u16) p)
        (\<lambda>(r, len, p0). let p1 = p0\<lparr>is_valid := r\<rparr> in
           if unat len > max_string_size then Inr (False, s, p1\<lparr>is_valid := False\<rparr>)
           else if len > 0 then
             bind_res (unpack_raw (unat len) (replicate (max_string_size + 1) 0) p1)
               (\<lambda>(r2, tv, p2). let p3 = p2\<lparr>is_valid := r2\<rparr> in
                  if \<not> r2 then Inr (False, s, p3)
                  else Inr (is_valid p3, takeWhile (\<lambda>c. c \<noteq> 0) (tv[unat len := 0]), p3))
           else Inr (is_valid p1, s, p1)))"

(* [include/wise.kernel/core/date.hpp:9-15 date] *)
record date =
  d_year :: u16
  d_month :: u16
  d_day :: u16

(* [include/wise.kernel/core/date.hpp:17-27 timestamp] *)
record timestamp =
  t_year :: u16
  t_month :: u16
  t_day :: u16
  t_hour :: u16
  t_min :: u16
  t_sec :: u16
  t_fract :: u32

(* [include/wise.kernel/net/protocol/bits/bits_packer.hpp:372-382 bits_packer::pack] *)
definition pack_date :: "date pack_fn" where
  "pack_date s p =
     (if \<not> is_valid p then Inr (False, p)
      else pack_then (pack_word (d_year s) p) (\<lambda>p. pack_then (pack_word (d_month s) p)
        (\<lambda>p. pack_then (pack_word (d_day s) p) (\<lambda>p. Inr (is_valid p, p)))))"

(* [include/wise.kernel/net/protocol/bits/bits_packer.hpp:384-394 bits_packer::unpack] *)
definition unpack_date :: "date unpack_fn" where
  "unpack_date s p =
     (if \<not> is_valid p then Inr (False, s, p)
      else unpack_field (unpack_word (d_year s) p) (\<lambda>v. s\<lparr>d_year := v\<rparr>)
        (\<lambda>s p. unpack_field (unpack_word (d_month s) p) (\<lambda>v. s\<lparr>d_month := v\<rparr>)
        (\<lambda>s p. unpack_field (unpack_word (d_day s) p) (\<lambda>v. s\<lparr>d_day := v\<rparr>)
        (\<lambda>s p. Inr (is_valid p, s, p)))))"

(* [include/wise.kernel/net/protocol/bits/bits_packer.hpp:396-410 bits_packer::pack] *)
definition pack_timestamp :: "timestamp pack_fn" where
  "pack_timestamp s p =
     (if \<not> is_valid p then Inr (False, p)
      else pack_then (pack_word (t_year s) p) (\<lambda>p. pack_then (pack_word (t_month s) p)
        (\<lambda>p. pack_then (pack_word (t_day s) p) (\<lambda>p. pack_then (pack_word (t_hour s) p)
        (\<lambda>p. pack_then (pack_word (t_min s) p) (\<lambda>p. pack_then (pack_word (t_sec s) p)
        (\<lambda>p. pack_then (pack_word (t_fract s) p) (\<lambda>p. Inr (is_valid p, p)))))))))"

(* [include/wise.kernel/net/protocol/bits/bits_packer.hpp:412-426 bits_packer::unpack] *)
definition unpack_timestamp :: "timestamp unpack_fn" where
  "unpack_timestamp s p =
     (if \<not> is_valid p then Inr (False, s, p)
      else unpack_field (unpack_word (t_year s) p) (\<lambda>v. s\<lparr>t_year := v\<rparr>)
        (\<lambda>s p. unpack_field (unpack_word (t_month s) p) (\<lambda>v. s\<lparr>t_month := v\<rparr>)
        (\<lambda>s p. unpack_field (unpack_word (t_day s) p) (\<lambda>v. s\<lparr>t_day := v\<rparr>)
        (\<lambda>s p. unpack_field (unpack_word (t_hour s) p) (\<lambda>v. s\<lparr>t_hour := v\<rparr>)
        (\<lambda>s p. unpack_field (unpack_word (t_min s) p) (\<lambda>v. s\<lparr>t_min := v\<rparr>)
        (\<lambda>s p. unpack_field (unpack_word (t_sec s) p) (\<lambda>v. s\<lparr>t_sec := v\<rparr>)
        (\<lambda>s p. unpack_field (unpack_word (t_fract s) p) (\<lambda>v. s\<lparr>t_fract := v\<rparr>)
        (\<lambda>s p. Inr (is_valid p, s, p)))))))))"

(* [include/wise.kernel/net/protocol/bits/bits_packer.hpp:428-437 bits_packer::pack] *)
definition pack_bool :: "bool pack_fn" where
  "pack_bool s p =
     (if \<not> is_valid p then Inr (False, p)
      else bind_res (pack_word (if s = True then 1 else 0 :: byte) p) (\<lambda>(r, p1). Inr (r, p1\<lparr>is_valid := r\<rparr>)))"

(* [include/wise.kernel/net/protocol/bits/bits_packer.hpp:440-453 bits_packer::unpack] *)
definition unpack_bool :: "bool unpack_fn" where
  "unpack_bool s p =
     (if \<not> is_valid p then Inr (False, s, p)
      else bind_res (unpack_word (0 :: byte) p)
        (\<lambda>(r, val, p1). if \<not> r then Inr (False, s, p1\<lparr>is_valid := r\<rparr>) else Inr (r, val > 0, p1\<lparr>is_valid := r\<rparr>)))"

section \<open>Containers\<close>

fun pack_elems :: "'a pack_fn \<Rightarrow> 'a list pack_fn" where
  "pack_elems pk [] p = Inr (is_valid p, p)"
| "pack_elems pk (v # vs) p = latch (pk v p) (\<lambda>p1. pack_elems pk vs p1)"

(* [include/wise.kernel/net/protocol/bits/bits_packer.hpp:455-491 bits_packer::pack] *)
definition pack_vec :: "'a pack_fn \<Rightarrow> 'a list pack_fn" where
  "pack_vec pk vec p =
     (if \<not> is_valid p then Inr (False, p)
      else if max_container_size < length vec then Inr (False, p\<lparr>is_valid := False\<rparr>)
      else let len = word_of_nat (length vec) :: u16 in
        latch (pack_word len p) (\<lambda>p1. pack_elems pk (take (unat len) vec) p1))"

text \<open>The loop over \<open>n\<close> elements from index \<open>i\<close>; \<open>vec.resize(len)\<close> keeps old elements.\<close>

fun unpack_elems :: "'a unpack_fn \<Rightarrow> nat \<Rightarrow> nat \<Rightarrow> 'a list unpack_fn" where
  "unpack_elems up 0 i vec p = Inr (is_valid p, vec, p)"
| "unpack_elems up (Suc n) i vec p =
     bind_res (up (vec ! i) p)
       (\<lambda>(r, v, p0). let p1 = p0\<lparr>is_valid := r\<rparr>; vec1 = vec[i := v] in
          if \<not> r then Inr (False, vec1, p1) else unpack_elems up n (Suc i) vec1 p1)"

definition vec_resize :: "'a \<Rightarrow> nat \<Rightarrow> 'a list \<Rightarrow> 'a list" where
  "vec_resize d n vec = take n vec @ replicate (n - length vec) d"

(* [include/wise.kernel/net/protocol/bits/bits_packer.hpp:493-529 bits_packer::unpack] *)
definition unpack_vec :: "'a \<Rightarrow> 'a unpack_fn \<Rightarrow> 'a list unpack_fn" where
  "unpack_vec d up vec p =
     (if \<not> is_valid p then Inr (False, vec, p)
      else bind_res (unpack_word (0 :: u16) p)
        (\<lambda>(r, len, p0). let p1 = p0\<lparr>is_valid := r\<rparr> in
           if \<not> r then Inr (False, vec, p1)
           else if max_container_size < unat len then Inr (False, vec, p1\<lparr>is_valid := False\<rparr>)
           else unpack_elems up (unat len) 0 (vec_resize d (unat len) vec) p1))"

text \<open>A \<^verbatim>\<open>std::map\<close> is its association list in ascending key order.\<close>

fun map_emplace :: "'k::linorder \<Rightarrow> 'v \<Rightarrow> ('k \<times> 'v) list \<Rightarrow> bool \<times> ('k \<times> 'v) list" where
  "map_emplace k v [] = (True, [(k, v)])"
| "map_emplace k v ((k', v') # m) =
     (if k < k' then (True, (k, v) # (k', v') # m)
      else if k = k' then (False, (k', v') # m)
      else let (r, m') = map_emplace k v m in (r, (k', v') # m'))"

fun pack_pairs :: "'k pack_fn \<Rightarrow> 'v pack_fn \<Rightarrow> ('k \<times> 'v) list pack_fn" where
  "pack_pairs pk pv [] p = Inr (is_valid p, p)"
| "pack_pairs pk pv ((k, v) # m) p = latch (pk k p) (\<lambda>p1. latch (pv v p1) (\<lambda>p2. pack_pairs pk pv m p2))"

(* [include/wise.kernel/net/protocol/bits/bits_packer.hpp:531-567 bits_packer::pack] *)
definition pack_map :: "'k::linorder pack_fn \<Rightarrow> 'v pack_fn \<Rightarrow> ('k \<times> 'v) list pack_fn" where
  "pack_map pk pv m p =
     (if \<not> is_valid p then Inr (False, p)
      else if max_container_size < length m then Inr (False, p\<lparr>is_valid := False\<rparr>)
      else latch (pack_word (word_of_nat (length m) :: u16) p) (\<lambda>p1. pack_pairs pk pv m p1))"

text \<open>\<open>dk\<close> and \<open>dv\<close> are the initial values of the local \<open>key\<close> and \<open>value\<close>.\<close>

fun unpack_pairs :: "'k::linorder \<Rightarrow> 'v \<Rightarrow> 'k unpack_fn \<Rightarrow> 'v unpack_fn \<Rightarrow> nat \<Rightarrow> ('k \<times> 'v) list unpack_fn" where
  "unpack_pairs dk dv uk uv 0 m p = Inr (is_valid p, m, p)"
| "unpack_pairs dk dv uk uv (Suc n) m p =
     bind_res (uk dk p) (\<lambda>(r, k, p0). let p1 = p0\<lparr>is_valid := r\<rparr> in
       if \<not> r then Inr (False, m, p1)
       else bind_res (uv dv p1) (\<lambda>(r2, v, p2). let p3 = p2\<lparr>is_valid := r2\<rparr> in
         if \<not> r2 then Inr (False, m, p3)
         else let (r3, m') = map_emplace k v m; p4 = p3\<lparr>is_valid := r3\<rparr> in
           if \<not> r3 then Inr (False, m', p4) else unpack_pairs dk dv uk uv n m' p4))"

(* [include/wise.kernel/net/protocol/bits/bits_packer.hpp:569-611 bits_packer::unpack] *)
definition unpack_map :: "'k::linorder \<Rightarrow> 'v \<Rightarrow> 'k unpack_fn \<Rightarrow> 'v unpack_fn \<Rightarrow> ('k \<times> 'v) list unpack_fn" where
  "unpack_map dk dv uk uv m p =
     (if \<not> is_valid p then Inr (False, m, p)
      else bind_res (unpack_word (0 :: u16) p)
        (\<lambda>(r, len, p0). let p1 = p0\<lparr>is_valid := r\<rparr> in
           if \<not> r then Inr (False, m, p1)
           else if max_container_size < unat len then Inr (False, m, p1\<lparr>is_valid := False\<rparr>)
           else unpack_pairs dk dv uk uv (unat len) m p1))"

section \<open>Wide strings\<close>

text \<open>
  The conversion appends to its output. Packing converts into a fresh vector; unpacking
  converts into the caller's string, which it does not clear first.
\<close>

(* [src/net/protocol/bits/bits_packer.cpp:10-24 bits_packer::convert] *)
definition convert_to_utf8 :: "u16 list \<Rightarrow> byte list \<Rightarrow> packer \<Rightarrow> bool \<times> byte list \<times> packer" where
  "convert_to_utf8 src out p =
     (case utf16to8 src out of
        (out', None) \<Rightarrow> (is_valid p, out', p)
      | (out', Some e) \<Rightarrow> (False, out', p\<lparr>is_valid := False\<rparr>))"

(* [src/net/protocol/bits/bits_packer.cpp:26-40 bits_packer::convert] *)
definition convert_to_utf16 :: "byte list \<Rightarrow> u16 list \<Rightarrow> packer \<Rightarrow> bool \<times> u16 list \<times> packer" where
  "convert_to_utf16 src out p =
     (case utf8to16 src out of
        (out', None) \<Rightarrow> (is_valid p, out', p)
      | (out', Some e) \<Rightarrow> (False, out', p\<lparr>is_valid := False\<rparr>))"

(* [include/wise.kernel/net/protocol/bits/bits_packer.hpp:314-341 bits_packer::pack] *)
definition pack_wstring :: "u16 list pack_fn" where
  "pack_wstring s p =
     (if \<not> is_valid p then Inr (False, p)
      else if length s > max_string_size then Inr (False, p\<lparr>is_valid := False\<rparr>)
      else let (r, u8s, p0) = convert_to_utf8 s [] p; p1 = p0\<lparr>is_valid := r\<rparr>
        in if \<not> r then Inr (False, p1) else pack_vec pack_word u8s p1)"

(* [include/wise.kernel/net/protocol/bits/bits_packer.hpp:343-370 bits_packer::unpack] *)
definition unpack_wstring :: "u16 list unpack_fn" where
  "unpack_wstring s p =
     (if \<not> is_valid p then Inr (False, s, p)
      else bind_res (unpack_vec 0 unpack_word [] p)
        (\<lambda>(r, u8s, p0). let p1 = p0\<lparr>is_valid := r\<rparr> in
           if \<not> r then Inr (False, s, p1)
           else let (r2, s', p2) = convert_to_utf16 u8s s p1; p3 = p2\<lparr>is_valid := r2\<rparr> in
             if \<not> r2 then Inr (False, s', p3)
             else if length s' > max_string_size then Inr (False, s', p3\<lparr>is_valid := False\<rparr>)
             else Inr (is_valid p3, s', p3)))"

end
