(* ===== verification/Bits_Codec.thy ===== *)
theory Bits_Codec
  imports Bits_Packer
begin

text \<open>
  The contract of a type \<^verbatim>\<open>bits_packer\<close> serialises (locale \<open>codec\<close>): packing appends the wire
  image, unpacking a buffer that continues with the wire image gives the value back, an invalid
  packer does nothing, and unpacking arbitrary bytes never faults. The integers, booleans,
  enumerators, dates, strings, wide strings, vectors and maps satisfy it; the round trips
  of the packer, on hosts of either endianness, are consequences.
\<close>

section \<open>The contract of a serialised type\<close>

abbreviation pk_bytes :: "packer \<Rightarrow> byte list" where
  "pk_bytes p \<equiv> rb_bytes (pk_buf p)"

abbreviation pk_rpos :: "packer \<Rightarrow> nat" where
  "pk_rpos p \<equiv> rb_read_pos (pk_buf p)"

abbreviation pk_unread :: "packer \<Rightarrow> byte list" where
  "pk_unread p \<equiv> drop (pk_rpos p) (pk_bytes p)"

definition usable :: "packer \<Rightarrow> bool" where
  "usable p \<longleftrightarrow> rb_inv (pk_buf p) \<and> is_valid p"

definition ready :: "packer \<Rightarrow> bool" where
  "ready p \<longleftrightarrow> rb_inv (pk_buf p) \<and> rb_buf (pk_buf p) \<noteq> None"

text \<open>\<open>p'\<close> is \<open>p\<close> after appending \<open>bs\<close>; after reading \<open>n\<close> bytes; after an attempt to read.\<close>

definition packed :: "byte list \<Rightarrow> packer \<Rightarrow> packer \<Rightarrow> bool" where
  "packed bs p p' \<longleftrightarrow> usable p' \<and> pk_bytes p' = pk_bytes p @ bs \<and> pk_rpos p' = pk_rpos p \<and> is_le p' = is_le p"

definition unpacked :: "nat \<Rightarrow> packer \<Rightarrow> packer \<Rightarrow> bool" where
  "unpacked n p p' \<longleftrightarrow> usable p' \<and> pk_bytes p' = pk_bytes p \<and> pk_rpos p' = pk_rpos p + n \<and> is_le p' = is_le p"

definition attempted :: "bool \<Rightarrow> packer \<Rightarrow> packer \<Rightarrow> bool" where
  "attempted r p p' \<longleftrightarrow> ready p' \<and> is_valid p' = r \<and> pk_bytes p' = pk_bytes p \<and> pk_rpos p \<le> pk_rpos p' \<and> is_le p' = is_le p"

lemma packed_trans: "packed a p q \<Longrightarrow> packed b q r \<Longrightarrow> packed (a @ b) p r"
  by (simp add: packed_def)

lemma unpacked_trans: "unpacked m p q \<Longrightarrow> unpacked n q r \<Longrightarrow> unpacked (m + n) p r"
  by (simp add: unpacked_def)

lemma attempted_trans: "attempted True p q \<Longrightarrow> attempted r q s \<Longrightarrow> attempted r p s"
  by (simp add: attempted_def)

lemma packed_usable: "packed bs p p' \<Longrightarrow> usable p'"
  by (simp add: packed_def)

lemma unpacked_usable: "unpacked n p p' \<Longrightarrow> usable p'"
  by (simp add: unpacked_def)

lemma attempted_ready: "attempted r p p' \<Longrightarrow> ready p'"
  by (simp add: attempted_def)

lemma unpacked_unread: "unpacked n p p' \<Longrightarrow> pk_unread p' = drop n (pk_unread p)"
  by (simp add: unpacked_def add.commute)

lemma valid_update [simp]: "is_valid p = v \<Longrightarrow> p\<lparr>is_valid := v\<rparr> = p"
  by (cases p) auto

lemma usable_valid: "usable p \<Longrightarrow> is_valid p"
  by (simp add: usable_def)

lemma attempted_valid: "attempted r p p' \<Longrightarrow> is_valid p' = r"
  by (simp add: attempted_def)

lemma packed_set_valid [simp, intro]: "packed bs p p' \<Longrightarrow> packed bs p (p'\<lparr>is_valid := True\<rparr>)"
  by (simp add: packed_def usable_def)

lemma unpacked_set_valid [simp, intro]: "unpacked n p p' \<Longrightarrow> unpacked n p (p'\<lparr>is_valid := True\<rparr>)"
  by (simp add: unpacked_def usable_def)

lemma attempted_set_valid [simp, intro]: "attempted r p p' \<Longrightarrow> attempted r p (p'\<lparr>is_valid := r\<rparr>)"
  by (simp add: attempted_def ready_def)

lemma unpacked_refl: "usable p \<Longrightarrow> unpacked 0 p p"
  by (simp add: unpacked_def)

lemma attempted_invalidate: "attempted r p p' \<Longrightarrow> attempted False p (p'\<lparr>is_valid := False\<rparr>)"
  by (simp add: attempted_def ready_def)

locale codec =
  fixes pack :: "'a pack_fn"
    and unpack :: "'a unpack_fn"
    and enc :: "'a \<Rightarrow> byte list"
    and ok :: "'a \<Rightarrow> bool"
    and fresh :: "'a \<Rightarrow> bool"
  assumes pack_law: "usable p \<Longrightarrow> ok v \<Longrightarrow> \<exists>p'. pack v p = Inr (True, p') \<and> packed (enc v) p p'"
    and unpack_law: "usable p \<Longrightarrow> ok v \<Longrightarrow> fresh old \<Longrightarrow> pk_unread p = enc v @ rest \<Longrightarrow>
          \<exists>p'. unpack old p = Inr (True, v, p') \<and> unpacked (length (enc v)) p p'"
    and pack_latched: "\<not> is_valid p \<Longrightarrow> pack v p = Inr (False, p)"
    and unpack_latched: "\<not> is_valid p \<Longrightarrow> unpack old p = Inr (False, old, p)"
    and unpack_safe: "ready p \<Longrightarrow> is_valid p \<Longrightarrow> \<exists>r v p'. unpack old p = Inr (r, v, p') \<and> attempted r p p'"
begin

text \<open>Packing a value into an exhausted buffer and unpacking gives the value back.\<close>

lemma round_trip:
  assumes "usable p" "ok v" "fresh old" "pk_rpos p = length (pk_bytes p)"
  shows "\<exists>p1 p2. pack v p = Inr (True, p1) \<and> unpack old p1 = Inr (True, v, p2) \<and>
           pk_bytes p2 = pk_bytes p @ enc v \<and> pk_rpos p2 = length (pk_bytes p2) \<and> usable p2"
proof -
  obtain p1 where p1: "pack v p = Inr (True, p1)" "packed (enc v) p p1"
    using pack_law [OF assms(1,2)] by blast
  have "pk_unread p1 = enc v @ []" using p1(2) assms(4) by (simp add: packed_def)
  from unpack_law [OF packed_usable [OF p1(2)] assms(2,3) this] obtain p2
    where "unpack old p1 = Inr (True, v, p2)" "unpacked (length (enc v)) p1 p2" by blast
  with p1 assms(4) show ?thesis by (auto simp: packed_def unpacked_def)
qed

lemma pack_elems_ok:
  "usable p \<Longrightarrow> list_all ok vs \<Longrightarrow> \<exists>p'. pack_elems pack vs p = Inr (True, p') \<and> packed (concat (map enc vs)) p p'"
proof (induction vs arbitrary: p)
  case Nil
  then show ?case by (simp add: packed_def usable_def)
next
  case (Cons v vs)
  then obtain p1 where p1: "pack v p = Inr (True, p1)" "packed (enc v) p p1" using pack_law [of p v] by auto
  note u = packed_usable [OF p1(2)]
  from Cons.IH [OF u] Cons.prems obtain p2 where "pack_elems pack vs p1 = Inr (True, p2)"
    "packed (concat (map enc vs)) p1 p2" by auto
  with p1 u show ?case by (auto simp: latch_def usable_valid intro: packed_trans)
qed

text \<open>The loop reads the elements from index \<open>i\<close> on into cells that are fresh.\<close>

lemma unpack_elems_ok:
  assumes "usable p" "list_all ok vs" "length vec = i + length vs" "list_all fresh (drop i vec)"
    "pk_unread p = concat (map enc vs) @ rest"
  shows "\<exists>p'. unpack_elems unpack (length vs) i vec p = Inr (True, take i vec @ vs, p') \<and>
           unpacked (length (concat (map enc vs))) p p'"
  using assms
proof (induction vs arbitrary: i vec p)
  case Nil
  then show ?case by (auto simp: unpacked_def usable_def)
next
  case (Cons v vs)
  have i: "i < length vec" using Cons.prems(3) by simp
  then have f: "fresh (vec ! i)" using Cons.prems(4) by (simp add: Cons_nth_drop_Suc [symmetric])
  from Cons.prems(2,5) have "ok v" "pk_unread p = enc v @ (concat (map enc vs) @ rest)" by simp_all
  from unpack_law [OF Cons.prems(1) this(1) f this(2)] obtain p1
    where p1: "unpack (vec ! i) p = Inr (True, v, p1)" "unpacked (length (enc v)) p p1" by blast
  note u = unpacked_usable [OF p1(2)]
  have "pk_unread p1 = concat (map enc vs) @ rest"
    using unpacked_unread [OF p1(2)] Cons.prems(5) by simp
  moreover have "list_all fresh (drop (Suc i) (vec[i := v]))"
    using Cons.prems(4) by (simp add: Cons_nth_drop_Suc [OF i, symmetric])
  ultimately obtain p2 where p2: "unpack_elems unpack (length vs) (Suc i) (vec[i := v]) p1 =
      Inr (True, take (Suc i) (vec[i := v]) @ vs, p2)" "unpacked (length (concat (map enc vs))) p1 p2"
    using Cons.IH [OF u, of "vec[i := v]" "Suc i"] Cons.prems by auto
  have "take (Suc i) (vec[i := v]) = take i vec @ [v]"
    using i by (simp add: take_Suc_conv_app_nth)
  with p1 p2 u show ?case by (auto simp: usable_valid intro: unpacked_trans)
qed

lemma unpack_elems_safe:
  "ready p \<Longrightarrow> is_valid p \<Longrightarrow> \<exists>r v p'. unpack_elems unpack n i vec p = Inr (r, v, p') \<and> attempted r p p'"
proof (induction n arbitrary: i vec p)
  case 0
  then show ?case by (auto simp: attempted_def)
next
  case (Suc n)
  obtain r v p1 where p1: "unpack (vec ! i) p = Inr (r, v, p1)" "attempted r p p1"
    using unpack_safe [OF Suc.prems] by blast
  show ?case
  proof (cases r)
    case False
    with p1 show ?thesis by (auto simp: attempted_valid)
  next
    case True
    with p1 Suc.IH [of p1 "Suc i" "vec[i := v]"] show ?thesis
      by (auto simp: attempted_valid attempted_ready intro: attempted_trans)
  qed
qed

end

section \<open>Fundamental types\<close>

text \<open>The wire image is little-endian whatever the host is.\<close>

definition wire :: "'a::len word \<Rightarrow> byte list" where
  "wire w = word_bytes (sizeof w) w"

lemma length_wire [simp]: "length (wire (w :: 'a::len word)) = LENGTH('a) div 8"
  by (simp add: wire_def sizeof_def)

lemma swap_endian_image:
  assumes "LENGTH('a::len) = 8 * n"
  shows "host_image False (swap_endian (w :: 'a word)) = wire w"
proof -
  have n: "sizeof (w :: 'a word) = n" for w using assms by (simp add: sizeof_def)
  have "word_bytes n (bytes_word (rev (word_bytes n w)) :: 'a word) = rev (word_bytes n w)"
    using word_bytes_bytes_word [where 'a = 'a and bs = "rev (word_bytes n w)"] assms by simp
  then show ?thesis by (simp add: host_image_def swap_endian_def wire_def n)
qed

lemma swap_endian_value:
  assumes "LENGTH('a::len) = 8 * n"
  shows "swap_endian (host_value False (wire w)) = (w :: 'a word)"
proof -
  have n: "sizeof (w :: 'a word) = n" for w using assms by (simp add: sizeof_def)
  have "word_bytes n (bytes_word (rev (word_bytes n w)) :: 'a word) = rev (word_bytes n w)"
    using word_bytes_bytes_word [where 'a = 'a and bs = "rev (word_bytes n w)"] assms by simp
  then show ?thesis
    using bytes_word_word_bytes [OF assms, of w] by (simp add: host_value_def swap_endian_def wire_def n)
qed

lemma host_value_wire:
  assumes "LENGTH('a::len) = 8 * n"
  shows "host_value True (wire w) = (w :: 'a word)"
  using bytes_word_word_bytes [OF assms, of w] assms by (simp add: host_value_def wire_def sizeof_def)

lemma rb_read_safe:
  assumes "rb_inv b" "rb_buf b \<noteq> None"
  shows "(\<exists>bs b'. rb_read n b = Inr (Some bs, b') \<and> length bs = n \<and> rb_inv b' \<and> rb_buf b' \<noteq> None \<and> rb_bytes b' = rb_bytes b \<and>
            rb_read_pos b' = rb_read_pos b + n) \<or> rb_read n b = Inr (None, b)"
proof (cases "n = 0")
  case True
  then show ?thesis using assms by (simp add: rb.read_nothing)
next
  case False
  show ?thesis
  proof (cases "rb_read_pos b + n \<le> length (rb_bytes b)")
    case True
    with rb.read_law [OF assms(1), of n] False show ?thesis by auto
  next
    case short: False
    then show ?thesis using rb.read_underflow [OF assms(1) _, of n] assms False by simp
  qed
qed

lemma word_codec:
  assumes n: "LENGTH('a::len) = 8 * n"
  shows "codec pack_word unpack_word (wire :: 'a word \<Rightarrow> byte list) (\<lambda>_. True) (\<lambda>_. True)"
proof (unfold_locales, goal_cases)
  case (1 p v)
  then obtain b' where "rb_append (Some (wire v)) (pk_buf p) = Inr (length (wire v), b')" "rb_inv b'"
    "rb_bytes b' = rb_bytes (pk_buf p) @ wire v" "rb_read_pos b' = rb_read_pos (pk_buf p)"
    using rb.append_total [of "pk_buf p" "wire v"] by (auto simp: usable_def)
  moreover have "host_image True v = wire v" by (simp add: host_image_def wire_def)
  ultimately show ?case
    using 1 swap_endian_image [OF n, of v] by (auto simp: pack_word_def packed_def usable_def)
next
  case (2 p v old rest)
  have "0 < n" using n len_gt_0 [where 'a = 'a] by (cases n) simp_all
  then have "pk_rpos p + LENGTH('a) div 8 \<le> length (pk_bytes p)"
    using arg_cong [OF 2(4), of length] n by simp
  then obtain b' where r: "rb_read (LENGTH('a) div 8) (pk_buf p) = Inr (Some (wire v), b')" "rb_inv b'"
    "rb_bytes b' = pk_bytes p" "rb_read_pos b' = pk_rpos p + LENGTH('a) div 8"
    using rb.read_total [of "pk_buf p" "LENGTH('a) div 8"] 2 by (auto simp: usable_def)
  have "(if is_le p then host_value (is_le p) (wire v) else swap_endian (host_value (is_le p) (wire v))) = v"
    using swap_endian_value [OF n] host_value_wire [OF n] by auto
  with r 2 show ?case by (auto simp: unpack_word_def unpacked_def usable_def sizeof_def)
next
  case (5 p old)
  then show ?case
    using rb_read_safe [of "pk_buf p" "sizeof old"] by (fastforce simp: unpack_word_def attempted_def ready_def)
qed (simp_all add: pack_word_def unpack_word_def)

interpretation u8: codec pack_word unpack_word "wire :: byte \<Rightarrow> byte list" "\<lambda>_. True" "\<lambda>_. True"
  by (rule word_codec [where n = 1]) simp

interpretation u16: codec pack_word unpack_word "wire :: u16 \<Rightarrow> byte list" "\<lambda>_. True" "\<lambda>_. True"
  by (rule word_codec [where n = 2]) simp

interpretation u32: codec pack_word unpack_word "wire :: u32 \<Rightarrow> byte list" "\<lambda>_. True" "\<lambda>_. True"
  by (rule word_codec [where n = 4]) simp

interpretation u64: codec pack_word unpack_word "wire :: u64 \<Rightarrow> byte list" "\<lambda>_. True" "\<lambda>_. True"
  by (rule word_codec [where n = 8]) simp

section \<open>Composed types satisfy the contract\<close>

lemma latch_True [simp]: "is_valid p \<Longrightarrow> latch (Inr (True, p)) k = k p"
  by (simp add: latch_def)

lemma pack_then_simps [simp]: "pack_then (Inr (True, p)) k = k p" "pack_then (Inr (False, p)) k = Inr (False, p)"
  by (simp_all add: pack_then_def)

lemma unpack_field_simps [simp]:
  "unpack_field (Inr (True, f, p)) upd k = k (upd f) p" "unpack_field (Inr (False, f, p)) upd k = Inr (False, upd f, p)"
  by (simp_all add: unpack_field_def)

lemma wire_byte: "wire (w :: byte) = [w]"
proof -
  have "unat w mod 256 = unat w" using unsigned_less [of w, where 'a = nat] by simp
  then show ?thesis by (simp add: wire_def word_bytes_def sizeof_def)
qed

lemma bool_codec: "codec pack_bool unpack_bool (\<lambda>b. [if b then 1 else 0]) (\<lambda>_. True) (\<lambda>_. True)"
proof (unfold_locales, goal_cases)
  case (1 p v)
  then show ?case using u8.pack_law [of p "if v = True then 1 else 0"]
    by (auto simp: pack_bool_def usable_valid wire_byte)
next
  case (2 p v old rest)
  then show ?case using u8.unpack_law [where p = p and v = "if v then 1 else 0" and rest = rest and old = 0]
    by (auto simp: unpack_bool_def usable_valid wire_byte split: if_splits)
next
  case (5 p old)
  then show ?case using u8.unpack_safe [of p 0]
    by (fastforce simp: unpack_bool_def attempted_valid)
qed (simp_all add: pack_bool_def unpack_bool_def)

lemma enum_codec:
  "codec pack_enum unpack_enum (\<lambda>e. wire (word_of_int e :: u32)) (\<lambda>e. - (2 ^ 31) \<le> e \<and> e < 2 ^ 31) (\<lambda>_. True)"
proof (unfold_locales, goal_cases)
  case (1 p v)
  then show ?case using u32.pack_law [of p "word_of_int v"]
    by (auto simp: pack_enum_def usable_valid)
next
  case (2 p v old rest)
  have "sint (word_of_int v :: u32) = v"
    using 2(2) by (simp add: int_word_sint)
  with 2 show ?case using u32.unpack_law [where p = p and v = "word_of_int v" and rest = rest and old = 0]
    by (auto simp: unpack_enum_def usable_valid)
next
  case (5 p old)
  then show ?case using u32.unpack_safe [of p 0]
    by (fastforce simp: unpack_enum_def attempted_valid)
qed (simp_all add: pack_enum_def unpack_enum_def)

text \<open>Two members in sequence: what \<open>date\<close>, \<open>timestamp\<close> and the packets are built from.\<close>

context codec
begin

lemma pack_member:
  assumes "usable p" "ok v" "\<And>p1. packed (enc v) p p1 \<Longrightarrow> \<exists>p2. k p1 = Inr (True, p2) \<and> packed b p1 p2"
  shows "\<exists>p2. pack_then (pack v p) k = Inr (True, p2) \<and> packed (enc v @ b) p p2"
  using pack_law [OF assms(1,2)] assms(3) by (fastforce intro: packed_trans)

lemma unpack_member:
  assumes "usable p" "ok f" "fresh old" "\<exists>rest. pk_unread p = enc f @ rest"
    and "\<And>p1. unpacked (length (enc f)) p p1 \<Longrightarrow> \<exists>p2. k (upd f) p1 = Inr (True, s, p2) \<and> unpacked j p1 p2"
  shows "\<exists>p2. unpack_field (unpack old p) upd k = Inr (True, s, p2) \<and> unpacked (length (enc f) + j) p p2"
proof -
  obtain p1 where "unpack old p = Inr (True, f, p1)" "unpacked (length (enc f)) p p1"
    using assms(4) unpack_law [OF assms(1-3)] by blast
  with assms(5) [of p1] show ?thesis by (auto intro: unpacked_trans)
qed

lemma unpack_member_safe:
  assumes "ready p" "is_valid p"
    and "\<And>f p1. attempted True p p1 \<Longrightarrow> \<exists>r s p2. k (upd f) p1 = Inr (r, s, p2) \<and> attempted r p1 p2"
  shows "\<exists>r s p2. unpack_field (unpack old p) upd k = Inr (r, s, p2) \<and> attempted r p p2"
proof -
  obtain r f p1 where m: "unpack old p = Inr (r, f, p1)" "attempted r p p1" using unpack_safe [OF assms(1,2)] by blast
  show ?thesis
  proof (cases r)
    case True
    with m assms(3) [of p1 f] show ?thesis by (auto intro: attempted_trans)
  qed (use m in auto)
qed

end

definition enc_date :: "date \<Rightarrow> byte list" where
  "enc_date s = wire (d_year s) @ wire (d_month s) @ wire (d_day s) @ []"

definition enc_timestamp :: "timestamp \<Rightarrow> byte list" where
  "enc_timestamp s = wire (t_year s) @ wire (t_month s) @ wire (t_day s) @ wire (t_hour s) @ wire (t_min s) @
     wire (t_sec s) @ wire (t_fract s) @ []"

lemma done_laws:
  "usable p \<Longrightarrow> \<exists>p'. Inr (is_valid p, p) = (Inr (True, p') :: (bool \<times> packer) res) \<and> packed [] p p'"
  "usable p \<Longrightarrow> \<exists>p'. Inr (is_valid p, s, p) = (Inr (True, s, p') :: (bool \<times> 's \<times> packer) res) \<and> unpacked 0 p p'"
  "ready p \<Longrightarrow> \<exists>r s' p'. Inr (is_valid p, s, p) = (Inr (r, s', p') :: (bool \<times> 's \<times> packer) res) \<and> attempted r p p'"
  by (auto simp: packed_def unpacked_def usable_def attempted_def)

lemmas open_guard = usable_valid not_True_eq_False if_False append_assoc

lemmas pack_chain = u16.pack_member u32.pack_member done_laws(1)

lemmas unpack_chain = u16.unpack_member u32.unpack_member done_laws(2)

lemmas safe_chain = u16.unpack_member_safe u32.unpack_member_safe done_laws(3)

lemma date_codec: "codec pack_date unpack_date enc_date (\<lambda>_. True) (\<lambda>_. True)"
proof (unfold_locales, goal_cases)
  case (1 p v)
  then show ?case unfolding pack_date_def enc_date_def
    by (simp only: open_guard) (intro pack_chain; simp add: packed_usable)
next
  case (2 p v old rest)
  then have "\<exists>p'. unpack_date old p = Inr (True, v, p') \<and>
      unpacked (length (wire (d_year v)) + (length (wire (d_month v)) + (length (wire (d_day v)) + 0))) p p'"
    unfolding unpack_date_def enc_date_def
    by (simp only: open_guard) (intro unpack_chain; simp add: unpacked_unread unpacked_usable usable_valid unpacked_refl)
  then show ?case by (simp add: enc_date_def)
next
  case (5 p old)
  then show ?case unfolding unpack_date_def
    by (simp only: open_guard) (intro safe_chain; simp add: attempted_ready attempted_valid)
qed (simp_all add: pack_date_def unpack_date_def)

lemma timestamp_codec: "codec pack_timestamp unpack_timestamp enc_timestamp (\<lambda>_. True) (\<lambda>_. True)"
proof (unfold_locales, goal_cases)
  case (1 p v)
  then show ?case unfolding pack_timestamp_def enc_timestamp_def
    by (simp only: open_guard) (intro pack_chain; simp add: packed_usable)
next
  case (2 p v old rest)
  then have "\<exists>p'. unpack_timestamp old p = Inr (True, v, p') \<and>
      unpacked (length (wire (t_year v)) + (length (wire (t_month v)) + (length (wire (t_day v)) +
        (length (wire (t_hour v)) + (length (wire (t_min v)) + (length (wire (t_sec v)) +
        (length (wire (t_fract v)) + 0))))))) p p'"
    unfolding unpack_timestamp_def enc_timestamp_def
    by (simp only: open_guard) (intro unpack_chain; simp add: unpacked_unread unpacked_usable usable_valid unpacked_refl)
  then show ?case by (simp add: enc_timestamp_def)
next
  case (5 p old)
  then show ?case unfolding unpack_timestamp_def
    by (simp only: open_guard) (intro safe_chain; simp add: attempted_ready attempted_valid)
qed (simp_all add: pack_timestamp_def unpack_timestamp_def)

subsection \<open>Strings\<close>

definition enc_string :: "byte list \<Rightarrow> byte list" where
  "enc_string s = wire (word_of_nat (length s) :: u16) @ s"

lemma pack_raw_law:
  assumes "usable p"
  shows "\<exists>p'. pack_raw bs p = Inr (True, p') \<and> packed bs p p'"
  using rb.append_total [of "pk_buf p" bs] assms by (auto simp: pack_raw_def usable_def packed_def)

lemma unpack_raw_law:
  assumes "usable p" "pk_unread p = bs @ rest" "bs \<noteq> []"
  shows "\<exists>p'. unpack_raw (length bs) old p = Inr (True, splice 0 bs old, p') \<and> unpacked (length bs) p p'"
proof -
  have "pk_rpos p + length bs \<le> length (pk_bytes p)"
    using arg_cong [OF assms(2), of length] assms(3) by (cases bs) auto
  then show ?thesis
    using rb.read_total [of "pk_buf p" "length bs"] assms by (auto simp: unpack_raw_def usable_def unpacked_def)
qed

lemma unpack_raw_safe:
  assumes "ready p" "is_valid p"
  shows "\<exists>r bs p'. unpack_raw n old p = Inr (r, bs, p') \<and> attempted r p p'"
  using rb_read_safe [of "pk_buf p" n] assms
  by (fastforce simp: unpack_raw_def attempted_def ready_def)

lemma c_string:
  assumes "length s \<le> n"
  shows "takeWhile (\<lambda>c. c \<noteq> 0) ((splice 0 s (replicate (n + 1) (0::byte)))[length s := 0]) = takeWhile (\<lambda>c. c \<noteq> 0) s"
proof -
  have d: "drop (length s) (replicate (n + 1) (0::byte)) = 0 # replicate (n - length s) 0"
  proof -
    have "n + 1 - length s = Suc (n - length s)" using assms by simp
    then show ?thesis by (simp only: drop_replicate replicate_Suc)
  qed
  have "takeWhile (\<lambda>c. c \<noteq> 0) (s @ (0::byte) # xs) = takeWhile (\<lambda>c. c \<noteq> 0) s" for xs
    by (induction s) auto
  then show ?thesis by (simp only: splice_def take_0 append_Nil add_0 d list_update_append list_update.simps) simp
qed

lemma u16_length_pos: "v \<noteq> [] \<Longrightarrow> length v \<le> max_string_size \<Longrightarrow> (word_of_nat (length v) :: u16) > 0"
proof -
  assume "v \<noteq> []" "length v \<le> max_string_size"
  then have "unat (word_of_nat (length v) :: u16) \<noteq> 0" by (simp add: unat_of_nat max_string_size_def)
  then show ?thesis by (metis unat_eq_zero word_gt_0)
qed

lemma pack_string_ok:
  assumes "usable p" "length v \<le> max_string_size"
  shows "\<exists>p'. pack_string v p = Inr (True, p') \<and> packed (enc_string v) p p'"
proof -
  let ?len = "word_of_nat (length v) :: u16"
  have len: "unat ?len = length v" using assms by (simp add: unat_of_nat max_string_size_def)
  obtain p1 where p1: "pack_word ?len p = Inr (True, p1)" "packed (wire ?len) p p1"
    using u16.pack_law [OF assms(1), of ?len] by blast
  note u = packed_usable [OF p1(2)]
  show ?thesis
  proof (cases "v = []")
    case True
    with assms p1 u show ?thesis by (simp add: pack_string_def usable_valid enc_string_def)
  next
    case False
    moreover obtain p2 where "pack_raw v p1 = Inr (True, p2)" "packed v p1 p2" using pack_raw_law [OF u] by blast
    ultimately show ?thesis using assms p1 u len u16_length_pos [of v]
      by (auto simp: pack_string_def usable_valid packed_usable enc_string_def intro: packed_trans)
  qed
qed

text \<open>What \<open>unpack\<close> makes of any packed string, embedded zero bytes and the empty string included.\<close>

lemma unpack_string_ok:
  assumes "usable p" "length v \<le> max_string_size" "pk_unread p = enc_string v @ rest"
  shows "\<exists>p'. unpack_string old p = Inr (True, (if v = [] then old else takeWhile (\<lambda>c. c \<noteq> 0) v), p') \<and>
           unpacked (length (enc_string v)) p p'"
proof -
  let ?len = "word_of_nat (length v) :: u16"
  have len: "unat ?len = length v" using assms by (simp add: unat_of_nat max_string_size_def)
  obtain p1 where p1: "unpack_word (0 :: u16) p = Inr (True, ?len, p1)" "unpacked 2 p p1"
    using u16.unpack_law [where p = p and v = ?len and old = 0 and rest = "v @ rest"] assms by (auto simp: enc_string_def)
  note u = unpacked_usable [OF p1(2)]
  show ?thesis
  proof (cases "v = []")
    case True
    with assms p1 u show ?thesis by (simp add: unpack_string_def usable_valid enc_string_def)
  next
    case False
    note g = u16_length_pos [OF False assms(2)]
    have "pk_unread p1 = v @ rest" using unpacked_unread [OF p1(2)] assms by (simp add: enc_string_def)
    from unpack_raw_law [OF u this False, of "replicate (max_string_size + 1) 0"] obtain p2
      where p2: "unpack_raw (length v) (replicate (max_string_size + 1) 0) p1 =
          Inr (True, splice 0 v (replicate (max_string_size + 1) 0), p2)" "unpacked (length v) p1 p2" by blast
    note u2 = unpacked_usable [OF p2(2)]
    have "unpack_string old p = Inr (True, takeWhile (\<lambda>c. c \<noteq> 0) v, p2)"
      using assms p1(1) p2(1) u u2 len g c_string [OF assms(2)] by (simp add: unpack_string_def usable_valid)
    then show ?thesis using unpacked_trans [OF p1(2) p2(2)] False by (auto simp: enc_string_def)
  qed
qed

lemma string_codec:
  "codec pack_string unpack_string enc_string (\<lambda>s. length s \<le> max_string_size \<and> 0 \<notin> set s) (\<lambda>s. s = [])"
proof (unfold_locales, goal_cases)
  case (1 p v)
  then show ?case by (simp add: pack_string_ok)
next
  case (2 p v old rest)
  have "(if v = [] then old else takeWhile (\<lambda>c. c \<noteq> 0) v) = v"
    using 2(2,3) by (auto simp: takeWhile_eq_all_conv)
  with unpack_string_ok [OF 2(1) _ 2(4), of old] 2(2) show ?case by simp
next
  case (5 p old)
  obtain r len p1 where p1: "unpack_word (0 :: u16) p = Inr (r, len, p1)" "attempted r p p1"
    using u16.unpack_safe [OF 5] by blast
  show ?case
  proof (cases "r \<and> unat len \<le> max_string_size \<and> len > 0")
    case True
    with p1 have "ready p1" "is_valid p1" by (auto simp: attempted_ready attempted_valid)
    from unpack_raw_safe [OF this, of "unat len"] obtain r2 bs p2 where
      "unpack_raw (unat len) (replicate (max_string_size + 1) 0) p1 = Inr (r2, bs, p2)" "attempted r2 p1 p2" by blast
    with True p1 5 show ?thesis
      by (cases r2) (auto simp: unpack_string_def attempted_valid intro: attempted_trans)
  next
    case False
    have "r \<or> len = 0" using p1(1) 5 by (auto simp: unpack_word_def bind_res_Inr_iff split: option.splits)
    with False p1 5 show ?thesis
      by (auto simp: unpack_string_def attempted_valid attempted_invalidate Let_def not_le not_less max_string_size_def)
  qed
qed (simp_all add: pack_string_def unpack_string_def)

subsection \<open>Vectors\<close>

definition enc_vec :: "('a \<Rightarrow> byte list) \<Rightarrow> 'a list \<Rightarrow> byte list" where
  "enc_vec enc vs = wire (word_of_nat (length vs) :: u16) @ concat (map enc vs)"

lemma length_u16: "n \<le> max_container_size \<Longrightarrow> unat (word_of_nat n :: u16) = n"
  by (simp add: unat_of_nat max_container_size_def)

text \<open>The length prefix shared by vectors and maps.\<close>

lemma unpack_length:
  assumes "usable p" "pk_unread p = wire (word_of_nat n :: u16) @ rest"
  shows "\<exists>p1. unpack_word (0 :: u16) p = Inr (True, word_of_nat n, p1) \<and> unpacked 2 p p1 \<and> usable p1 \<and> pk_unread p1 = rest"
proof -
  obtain p1 where p1: "unpack_word (0 :: u16) p = Inr (True, word_of_nat n, p1)" "unpacked 2 p p1"
    using u16.unpack_law [where p = p and v = "word_of_nat n" and old = 0 and rest = rest] assms by auto
  with unpacked_unread [OF p1(2)] assms unpacked_usable show ?thesis by auto
qed

context codec
begin

lemma vec_codec:
  assumes "fresh d"
  shows "codec (pack_vec pack) (unpack_vec d unpack) (enc_vec enc)
           (\<lambda>vs. length vs \<le> max_container_size \<and> list_all ok vs) (list_all fresh)"
proof (unfold_locales, goal_cases)
  case (1 p vs)
  let ?len = "word_of_nat (length vs) :: u16"
  obtain p1 where p1: "pack_word ?len p = Inr (True, p1)" "packed (wire ?len) p p1"
    using u16.pack_law [OF 1(1), of ?len] by blast
  note u = packed_usable [OF p1(2)]
  obtain p2 where "pack_elems pack vs p1 = Inr (True, p2)" "packed (concat (map enc vs)) p1 p2"
    using pack_elems_ok [OF u, of vs] 1 by blast
  with 1 p1 u show ?case
    by (auto simp: pack_vec_def usable_valid length_u16 enc_vec_def Let_def intro: packed_trans)
next
  case (2 p vs old rest)
  obtain p1 where p1: "unpack_word (0 :: u16) p = Inr (True, word_of_nat (length vs), p1)" "unpacked 2 p p1"
    "usable p1" "pk_unread p1 = concat (map enc vs) @ rest"
    using unpack_length [OF 2(1), of "length vs"] 2(4) by (auto simp: enc_vec_def)
  let ?cells = "vec_resize d (length vs) old"
  have "length ?cells = 0 + length vs" "list_all fresh (drop 0 ?cells)"
    using 2(3) assms by (auto simp: vec_resize_def list_all_iff dest: in_set_takeD)
  from unpack_elems_ok [OF p1(3) _ this p1(4)] 2(2) obtain p2
    where p2: "unpack_elems unpack (length vs) 0 ?cells p1 = Inr (True, vs, p2)"
      "unpacked (length (concat (map enc vs))) p1 p2" by auto
  have "unpack_vec d unpack old p = Inr (True, vs, p2)"
    using 2 p1 p2 by (simp add: unpack_vec_def usable_valid length_u16)
  then show ?case using unpacked_trans [OF p1(2) p2(2)] by (simp add: enc_vec_def)
next
  case (5 p old)
  obtain r len p1 where p1: "unpack_word (0 :: u16) p = Inr (r, len, p1)" "attempted r p p1"
    using u16.unpack_safe [OF 5] by blast
  show ?case
  proof (cases "r \<and> unat len \<le> max_container_size")
    case True
    with p1 unpack_elems_safe [of p1 "unat len" 0 "vec_resize d (unat len) old"] 5 show ?thesis
      by (fastforce simp: unpack_vec_def attempted_valid attempted_ready intro: attempted_trans)
  next
    case False
    with p1 5 show ?thesis by (auto simp: unpack_vec_def attempted_valid attempted_invalidate)
  qed
qed (simp_all add: pack_vec_def unpack_vec_def)

end

text \<open>Byte vectors carry the wide strings.\<close>

interpretation bytes: codec "pack_vec pack_word" "unpack_vec 0 unpack_word" "enc_vec (wire :: byte \<Rightarrow> byte list)"
  "\<lambda>vs. length vs \<le> max_container_size \<and> list_all (\<lambda>_. True) vs" "list_all (\<lambda>_. True)"
  by (rule u8.vec_codec) simp

subsection \<open>Maps\<close>

definition enc_map :: "('k \<Rightarrow> byte list) \<Rightarrow> ('v \<Rightarrow> byte list) \<Rightarrow> ('k \<times> 'v) list \<Rightarrow> byte list" where
  "enc_map ek ev m = wire (word_of_nat (length m) :: u16) @ concat (map (\<lambda>(k, v). ek k @ ev v) m)"

text \<open>Keys arriving in ascending order are appended.\<close>

lemma map_emplace_last:
  "(\<forall>k' \<in> fst ` set m. k' < k) \<Longrightarrow> map_emplace k v m = (True, m @ [(k, v)])"
  by (induction m) auto

lemma map_emplace_keys:
  assumes "map_emplace k v m = (r, m')" "sorted_wrt (<) (map fst m)"
  shows "r = (k \<notin> fst ` set m)" "sorted_wrt (<) (map fst m')"
    "map_of m' = (if k \<in> fst ` set m then map_of m else (map_of m)(k \<mapsto> v))"
  using assms
proof (induction k v m arbitrary: r m' rule: map_emplace.induct)
  case (1 k v)
  { case 1 then show ?case by auto next case 2 then show ?case by auto next case 3 then show ?case by auto }
next
  case (2 k v k' v' m)
  obtain r1 m1 where e: "map_emplace k v m = (r1, m1)" by (cases "map_emplace k v m")
  note ih = "2.IH" [OF _ _ e]
  have keys: "fst ` set m1 = insert k (fst ` set m)" if "map_of m1 = (if k \<in> fst ` set m then map_of m else (map_of m)(k \<mapsto> v))"
    using arg_cong [OF that, of dom] by (auto simp: dom_map_of_conv_image_fst split: if_splits)
  { case 1 with ih(1) e show ?case by (auto split: if_splits)
  next
    case 2
    show ?case
    proof (cases "k < k' \<or> k = k'")
      case True
      with 2 show ?thesis by (auto split: if_splits) (force intro: less_trans)
    next
      case False
      with 2 ih(2,3) keys e show ?thesis by (auto split: if_splits)
    qed
  next
    case 3
    have "\<forall>a \<in> fst ` set m. k' < a" using 3 by auto
    with 3 ih(3) e show ?case by (auto split: if_splits simp: fun_eq_iff)
  }
qed

locale map_codec =
  kc: codec kpack kunpack kenc kok kfresh + vc: codec vpack vunpack venc vok vfresh
  for kpack :: "'k::linorder pack_fn" and kunpack :: "'k unpack_fn" and kenc kok kfresh
    and vpack :: "'v pack_fn" and vunpack :: "'v unpack_fn" and venc vok vfresh +
  fixes dk :: 'k and dv :: 'v
  assumes fresh_key: "kfresh dk" and fresh_value: "vfresh dv"
begin

lemma pack_pairs_ok:
  "usable p \<Longrightarrow> list_all (\<lambda>(k, v). kok k \<and> vok v) m \<Longrightarrow>
   \<exists>p'. pack_pairs kpack vpack m p = Inr (True, p') \<and> packed (concat (map (\<lambda>(k, v). kenc k @ venc v) m)) p p'"
proof (induction m arbitrary: p)
  case Nil
  then show ?case by (simp add: packed_def usable_def)
next
  case (Cons kv m)
  obtain k v where kv: "kv = (k, v)" by (cases kv)
  obtain p1 where p1: "kpack k p = Inr (True, p1)" "packed (kenc k) p p1"
    using kc.pack_law [of p k] Cons.prems kv by auto
  obtain p2 where p2: "vpack v p1 = Inr (True, p2)" "packed (venc v) p1 p2"
    using vc.pack_law [OF packed_usable [OF p1(2)], of v] Cons.prems kv by auto
  obtain p3 where p3: "pack_pairs kpack vpack m p2 = Inr (True, p3)"
    "packed (concat (map (\<lambda>(k, v). kenc k @ venc v) m)) p2 p3"
    using Cons.IH [OF packed_usable [OF p2(2)]] Cons.prems by auto
  have "packed ((kenc k @ venc v) @ concat (map (\<lambda>(k, v). kenc k @ venc v) m)) p p3"
    using packed_trans [OF packed_trans [OF p1(2) p2(2)] p3(2)] .
  with p1 p2 p3 kv show ?case by (simp add: latch_def usable_valid packed_usable)
qed

text \<open>The loop on a map whose keys are all below the remaining ones.\<close>

lemma unpack_pairs_ok:
  assumes "usable p" "list_all (\<lambda>(k, v). kok k \<and> vok v) m" "sorted_wrt (<) (map fst (acc @ m))"
    "pk_unread p = concat (map (\<lambda>(k, v). kenc k @ venc v) m) @ rest"
  shows "\<exists>p'. unpack_pairs dk dv kunpack vunpack (length m) acc p = Inr (True, acc @ m, p') \<and>
           unpacked (length (concat (map (\<lambda>(k, v). kenc k @ venc v) m))) p p'"
  using assms
proof (induction m arbitrary: acc p)
  case Nil
  then show ?case by (auto simp: unpacked_def usable_def)
next
  case (Cons kv m)
  obtain k v where kv: "kv = (k, v)" by (cases kv)
  let ?more = "concat (map (\<lambda>(k, v). kenc k @ venc v) m) @ rest"
  have "pk_unread p = kenc k @ (venc v @ ?more)" using Cons.prems(4) kv by simp
  then obtain p1 where p1: "kunpack dk p = Inr (True, k, p1)" "unpacked (length (kenc k)) p p1"
    using kc.unpack_law [OF Cons.prems(1) _ fresh_key, of k] Cons.prems(2) kv by auto
  have "pk_unread p1 = venc v @ ?more" using unpacked_unread [OF p1(2)] Cons.prems(4) kv by simp
  then obtain p2 where p2: "vunpack dv p1 = Inr (True, v, p2)" "unpacked (length (venc v)) p1 p2"
    using vc.unpack_law [OF unpacked_usable [OF p1(2)] _ fresh_value, of v] Cons.prems(2) kv by auto
  have e: "map_emplace k v acc = (True, acc @ [(k, v)])"
    using Cons.prems(3) kv by (intro map_emplace_last) (auto simp: sorted_wrt_append)
  have "pk_unread p2 = ?more" using unpacked_unread [OF p1(2)] unpacked_unread [OF p2(2)] Cons.prems(4) kv by simp
  then obtain p3 where p3: "unpack_pairs dk dv kunpack vunpack (length m) (acc @ [(k, v)]) p2 = Inr (True, acc @ (k, v) # m, p3)"
    "unpacked (length (concat (map (\<lambda>(k, v). kenc k @ venc v) m))) p2 p3"
    using Cons.IH [OF unpacked_usable [OF p2(2)], of "acc @ [(k, v)]"] Cons.prems kv by auto
  have "unpacked (length (kenc k) + length (venc v) + length (concat (map (\<lambda>(k, v). kenc k @ venc v) m))) p p3"
    using unpacked_trans [OF unpacked_trans [OF p1(2) p2(2)] p3(2)] .
  with p1 p2 p3 e kv show ?case by (simp add: usable_valid unpacked_usable add.assoc)
qed

lemma unpack_pairs_safe:
  "ready p \<Longrightarrow> is_valid p \<Longrightarrow>
   \<exists>r m' p'. unpack_pairs dk dv kunpack vunpack n m p = Inr (r, m', p') \<and> attempted r p p'"
proof (induction n arbitrary: m p)
  case 0
  then show ?case by (auto simp: attempted_def)
next
  case (Suc n)
  obtain r k p1 where p1: "kunpack dk p = Inr (r, k, p1)" "attempted r p p1" using kc.unpack_safe [OF Suc.prems] by blast
  show ?case
  proof (cases r)
    case False
    with p1 show ?thesis by (auto simp: attempted_valid)
  next
    case True
    with p1 have s1: "ready p1" "is_valid p1" by (auto simp: attempted_ready attempted_valid)
    obtain r2 v p2 where p2: "vunpack dv p1 = Inr (r2, v, p2)" "attempted r2 p1 p2" using vc.unpack_safe [OF s1] by blast
    then have a2: "attempted r2 p p2" using p1(2) True by (auto intro: attempted_trans)
    obtain r3 m' where e: "map_emplace k v m = (r3, m')" by (cases "map_emplace k v m")
    show ?thesis
    proof (cases "r2 \<and> r3")
      case True
      with a2 p1 p2 e s1 \<open>r\<close> Suc.IH [of p2 m'] show ?thesis
        by (auto simp: attempted_valid attempted_ready intro: attempted_trans)
    next
      case False
      with a2 p1 p2 e s1 \<open>r\<close> show ?thesis by (auto simp: attempted_valid attempted_invalidate)
    qed
  qed
qed

lemma codec_map:
  "codec (pack_map kpack vpack) (unpack_map dk dv kunpack vunpack) (enc_map kenc venc)
     (\<lambda>m. length m \<le> max_container_size \<and> list_all (\<lambda>(k, v). kok k \<and> vok v) m \<and> sorted_wrt (<) (map fst m)) (\<lambda>m. m = [])"
proof (unfold_locales, goal_cases)
  case (1 p m)
  let ?len = "word_of_nat (length m) :: u16"
  obtain p1 where p1: "pack_word ?len p = Inr (True, p1)" "packed (wire ?len) p p1"
    using u16.pack_law [OF 1(1), of ?len] by blast
  obtain p2 where "pack_pairs kpack vpack m p1 = Inr (True, p2)"
    "packed (concat (map (\<lambda>(k, v). kenc k @ venc v) m)) p1 p2"
    using pack_pairs_ok [OF packed_usable [OF p1(2)]] 1 by blast
  with 1 p1 show ?case
    by (auto simp: pack_map_def usable_valid packed_usable enc_map_def intro: packed_trans)
next
  case (2 p m old rest)
  obtain p1 where p1: "unpack_word (0 :: u16) p = Inr (True, word_of_nat (length m), p1)" "unpacked 2 p p1"
    "usable p1" "pk_unread p1 = concat (map (\<lambda>(k, v). kenc k @ venc v) m) @ rest"
    using unpack_length [OF 2(1), of "length m"] 2(4) by (auto simp: enc_map_def)
  with unpack_pairs_ok [OF p1(3), of m "[]"] 2 obtain p2
    where p2: "unpack_pairs dk dv kunpack vunpack (length m) [] p1 = Inr (True, m, p2)"
      "unpacked (length (concat (map (\<lambda>(k, v). kenc k @ venc v) m))) p1 p2" by auto
  have "unpack_map dk dv kunpack vunpack old p = Inr (True, m, p2)"
    using 2 p1 p2 by (simp add: unpack_map_def usable_valid length_u16)
  then show ?case using unpacked_trans [OF p1(2) p2(2)] by (simp add: enc_map_def)
next
  case (5 p old)
  obtain r len p1 where p1: "unpack_word (0 :: u16) p = Inr (r, len, p1)" "attempted r p p1"
    using u16.unpack_safe [OF 5] by blast
  show ?case
  proof (cases "r \<and> unat len \<le> max_container_size")
    case True
    with p1 unpack_pairs_safe [of p1 "unat len" old] 5 show ?thesis
      by (fastforce simp: unpack_map_def attempted_valid attempted_ready intro: attempted_trans)
  next
    case False
    with p1 5 show ?thesis by (auto simp: unpack_map_def attempted_valid attempted_invalidate)
  qed
qed (simp_all add: pack_map_def unpack_map_def)

end

subsection \<open>Wide strings\<close>

definition enc_wstring :: "u16 list \<Rightarrow> byte list" where
  "enc_wstring s = enc_vec wire (fst (utf16to8 s []))"

lemma wstring_codec:
  "codec pack_wstring unpack_wstring enc_wstring
     (\<lambda>s. length s \<le> max_string_size \<and> snd (utf16to8 s []) = None) (\<lambda>s. s = [])"
proof (unfold_locales, goal_cases)
  case (1 p s)
  then obtain bs where bs: "utf16to8 s [] = (bs, None)" by (cases "utf16to8 s []") auto
  then have "length bs \<le> max_container_size"
    using utf16to8_length [OF bs] 1 by (simp add: max_string_size_def max_container_size_def)
  with bytes.pack_law [OF 1(1), of bs] 1 bs show ?case
    by (auto simp: pack_wstring_def convert_to_utf8_def usable_valid enc_wstring_def list_all_iff)
next
  case (2 p s old rest)
  then obtain bs where bs: "utf16to8 s [] = (bs, None)" by (cases "utf16to8 s []") auto
  then have len: "length bs \<le> max_container_size"
    using utf16to8_length [OF bs] 2 by (simp add: max_string_size_def max_container_size_def)
  obtain p1 where "unpack_vec 0 unpack_word [] p = Inr (True, bs, p1)" "unpacked (length (enc_vec wire bs)) p p1"
    using bytes.unpack_law [where p = p and v = bs and old = "[]" and rest = rest] 2 bs len
    by (auto simp: enc_wstring_def list_all_iff)
  moreover have "utf8to16 bs [] = (s, None)" using utf16to8_back [OF bs] by auto
  ultimately show ?case using 2 bs
    by (auto simp: unpack_wstring_def convert_to_utf16_def usable_valid unpacked_usable enc_wstring_def)
next
  case (5 p old)
  obtain r bs p1 where p1: "unpack_vec (0 :: byte) unpack_word [] p = Inr (r, bs, p1)" "attempted r p p1"
    using bytes.unpack_safe [OF 5] by blast
  then have p1v: "is_valid p1 = r" by (simp add: attempted_valid)
  obtain s' e where c: "utf8to16 bs old = (s', e)" by (cases "utf8to16 bs old")
  from p1(2) have inv: "attempted False p (p1\<lparr>is_valid := False\<rparr>)" by (rule attempted_invalidate)
  show ?case
    using p1 p1v inv c 5
    by (cases e; cases r) (auto simp: unpack_wstring_def convert_to_utf16_def Let_def)
qed (simp_all add: pack_wstring_def unpack_wstring_def)

interpretation str: codec pack_string unpack_string enc_string
  "\<lambda>s. length s \<le> max_string_size \<and> 0 \<notin> set s" "\<lambda>s. s = []"
  by (rule string_codec)

interpretation wstr: codec pack_wstring unpack_wstring enc_wstring
  "\<lambda>s. length s \<le> max_string_size \<and> snd (utf16to8 s []) = None" "\<lambda>s. s = []"
  by (rule wstring_codec)

interpretation ts: codec pack_timestamp unpack_timestamp enc_timestamp "\<lambda>_. True" "\<lambda>_. True"
  by (rule timestamp_codec)

interpretation dt: codec pack_date unpack_date enc_date "\<lambda>_. True" "\<lambda>_. True"
  by (rule date_codec)

interpretation bl: codec pack_bool unpack_bool "\<lambda>b. [if b then 1 else 0]" "\<lambda>_. True" "\<lambda>_. True"
  by (rule bool_codec)

interpretation en: codec pack_enum unpack_enum "\<lambda>e. wire (word_of_int e :: u32)" "\<lambda>e. - (2 ^ 31) \<le> e \<and> e < 2 ^ 31" "\<lambda>_. True"
  by (rule enum_codec)

text \<open>A dictionary of the kind the packets use: 32-bit keys and strings.\<close>

interpretation dict: map_codec pack_word unpack_word "wire :: u32 \<Rightarrow> byte list" "\<lambda>_. True" "\<lambda>_. True"
  pack_string unpack_string enc_string "\<lambda>s. length s \<le> max_string_size \<and> 0 \<notin> set s" "\<lambda>s. s = []" 0 "[]"
  by unfold_locales simp_all

section \<open>Properties\<close>

definition fresh_packer :: "bool \<Rightarrow> packer" where
  "fresh_packer host_le = mk_packer host_le (mk_rbuf 64 (mk_multi_pool (\<lambda>_ _. 0)))"

lemma fresh_packer_usable: "usable (fresh_packer h)" "pk_bytes (fresh_packer h) = []" "pk_rpos (fresh_packer h) = 0"
  using mk_rbuf_ok [OF mk_multi_pool_inv]
  by (simp_all add: fresh_packer_def mk_packer_def usable_def) (simp add: mk_rbuf_def)

text \<open>
  C28. The wire format does not depend on the host: a 64-bit value packed on a host of either
  endianness into a buffer whose bytes have all been read is read back unchanged by a
  host of either endianness, and occupies eight bytes, least significant first.
\<close>

theorem pack_host_independent:
  assumes "rb_inv b" "rb_read_pos b = length (rb_bytes b)"
  shows "\<exists>p1 p2. pack_word (v :: u64) (mk_packer host1 b) = Inr (True, p1) \<and>
           rb_bytes (pk_buf p1) = rb_bytes b @ word_bytes 8 v \<and>
           unpack_word old (mk_packer host2 (pk_buf p1)) = Inr (True, v, p2)"
proof -
  have u: "usable (mk_packer host1 b)" using assms by (simp add: usable_def mk_packer_def)
  obtain p1 where p1: "pack_word v (mk_packer host1 b) = Inr (True, p1)" "packed (wire v) (mk_packer host1 b) p1"
    using u64.pack_law [OF u] by blast
  then have "usable (mk_packer host2 (pk_buf p1))" "pk_unread (mk_packer host2 (pk_buf p1)) = wire v @ []"
    using assms(2) by (simp_all add: packed_def usable_def mk_packer_def)
  from u64.unpack_law [OF this(1) TrueI TrueI this(2)] p1 show ?thesis
    by (auto simp: packed_def wire_def sizeof_def mk_packer_def)
qed

lemma pack_host_independent_witness:
  "\<exists>p1 p2. pack_word (0x0102030405060708 :: u64) (mk_packer True (mk_rbuf 64 (mk_multi_pool (\<lambda>_ _. 0)))) = Inr (True, p1) \<and>
     unpack_word 0 (mk_packer False (pk_buf p1)) = Inr (True, 0x0102030405060708 :: u64, p2)"
proof -
  have "rb_inv (mk_rbuf 64 (mk_multi_pool (\<lambda>_ _. 0)))" "rb_bytes (mk_rbuf 64 (mk_multi_pool (\<lambda>_ _. 0))) = []"
    using mk_rbuf_ok [OF mk_multi_pool_inv] by simp_all
  then show ?thesis
    using pack_host_independent [of "mk_rbuf 64 (mk_multi_pool (\<lambda>_ _. 0))" "0x0102030405060708" True 0 False]
    by (fastforce simp: mk_rbuf_def)
qed

text \<open>
  Containers: for every element type whose packing satisfies the codec contract, a
  \<open>std::vector\<close> of up to 8192 encodable elements is packed and read back element by element,
  with a 16-bit length prefix and nothing else on the wire.
\<close>

theorem vector_round_trip:
  assumes "codec pk up enc ok fresh" "fresh d" "usable p" "pk_rpos p = length (pk_bytes p)"
    and "length vs \<le> max_container_size" "list_all ok vs"
  shows "\<exists>p1 p2. pack_vec pk vs p = Inr (True, p1) \<and> unpack_vec d up [] p1 = Inr (True, vs, p2) \<and>
           pk_bytes p1 = pk_bytes p @ wire (word_of_nat (length vs) :: u16) @ concat (map enc vs)"
proof -
  note c = codec.vec_codec [OF assms(1,2)]
  obtain p1 where p1: "pack_vec pk vs p = Inr (True, p1)" "packed (enc_vec enc vs) p p1"
    using codec.pack_law [OF c assms(3), of vs] assms(5,6) by blast
  moreover have "pk_unread p1 = enc_vec enc vs @ []" using p1(2) assms(4) by (simp add: packed_def)
  ultimately show ?thesis
    using codec.unpack_law [OF c packed_usable [OF p1(2)], of vs "[]" "[]"] assms(5,6)
    by (auto simp: packed_def enc_vec_def)
qed

lemma vector_round_trip_witness:
  "\<exists>p1 p2. pack_vec pack_word [5, 6, 7 :: u32] (fresh_packer False) = Inr (True, p1) \<and>
     unpack_vec 0 unpack_word [] p1 = Inr (True, [5, 6, 7 :: u32], p2)"
proof -
  have "codec pack_word unpack_word (wire :: u32 \<Rightarrow> byte list) (\<lambda>_. True) (\<lambda>_. True)" ..
  from vector_round_trip [OF this TrueI fresh_packer_usable(1), of False "[5, 6, 7]"] show ?thesis
    by (simp add: fresh_packer_usable max_container_size_def) blast
qed



text \<open>
  Wide strings: every well-formed UTF-16 string of up to 2048 units is packed as UTF-8 bytes
  and read back exactly into an empty string.
\<close>

theorem wstring_round_trip:
  assumes "usable p" "pk_rpos p = length (pk_bytes p)" "length s \<le> max_string_size" "snd (utf16to8 s []) = None"
  shows "\<exists>p1 p2. pack_wstring s p = Inr (True, p1) \<and> unpack_wstring [] p1 = Inr (True, s, p2)"
  using wstr.round_trip [OF assms(1) _ _ assms(2), of s "[]"] assms(3,4) by auto

lemma wstring_round_trip_witness:
  "\<exists>p1 p2. pack_wstring [0x41, 0xD55C] (fresh_packer True) = Inr (True, p1) \<and>
     unpack_wstring [] p1 = Inr (True, [0x41, 0xD55C], p2)"
  using wstring_round_trip [OF fresh_packer_usable(1), of True "[0x41, 0xD55C]"]
  by (simp add: fresh_packer_usable max_string_size_def is_lead_surrogate_def is_trail_surrogate_def utf_write_def
      utf8_append_octets is_code_point_valid_def is_surrogate_def)



text \<open>
  What \<open>unpack(std::string&)\<close> makes of a packed string: the bytes up to the first zero byte
  (the rest is lost, although the whole length was packed), and for an empty string it
  succeeds without assigning, so the variable keeps its old contents.
\<close>

theorem string_unpack_result:
  assumes "usable p" "pk_rpos p = length (pk_bytes p)" "length s \<le> max_string_size"
  shows "\<exists>p1 p2. pack_string s p = Inr (True, p1) \<and>
           unpack_string old p1 = Inr (True, (if s = [] then old else takeWhile (\<lambda>c. c \<noteq> 0) s), p2) \<and>
           pk_rpos p2 = length (pk_bytes p2)"
proof -
  obtain p1 where p1: "pack_string s p = Inr (True, p1)" "packed (enc_string s) p p1"
    using pack_string_ok [OF assms(1,3)] by blast
  then have "pk_unread p1 = enc_string s @ []" using assms(2) by (simp add: packed_def)
  from unpack_string_ok [OF packed_usable [OF p1(2)] assms(3) this, of old] p1 assms(2) show ?thesis
    by (auto simp: packed_def unpacked_def)
qed

lemma string_unpack_result_witness:
  "\<exists>p1 p2. pack_string [97, 0, 98] (fresh_packer True) = Inr (True, p1) \<and> unpack_string [120] p1 = Inr (True, [97], p2)"
  using string_unpack_result [OF fresh_packer_usable(1), of True "[97, 0, 98]" "[120]"]
  by (simp add: fresh_packer_usable max_string_size_def) blast

end
