(* ===== verification/Modifier.thy ===== *)
theory Modifier
  imports Resize_Buffer
begin

text \<open>
  The message modifiers of the bits protocol (\<^verbatim>\<open>src/net/modifier.cpp\<close>,
  \<^verbatim>\<open>src/net/modifier/sequencer.cpp\<close>, \<^verbatim>\<open>checksum.cpp\<close>, \<^verbatim>\<open>cipher.cpp\<close>): a sequence byte, a
  CRC32 trailer and AES-128/CBC/PKCS7 encryption of everything after the header.

  Botan is not part of the sources: its CRC32 and SHA1 hashes and its cipher mode (\<open>start\<close>,
  \<open>process\<close>, \<open>finish\<close>) are the record \<open>botan\<close>, an argument of the operations. What the
  round trips need of it is the hypothesis \<open>botan_ok\<close>.
\<close>

section \<open>Raw access to a buffer\<close>

text \<open>\<^verbatim>\<open>buf.data() + i\<close>: reading and writing anywhere in the block is defined, beyond it is not.\<close>

definition rb_peek :: "nat \<Rightarrow> nat \<Rightarrow> rbuf \<Rightarrow> byte list res" where
  "rb_peek i n r = (case rb_buf r of
     None \<Rightarrow> Inl (Undef ''null block'')
   | Some b \<Rightarrow> if i + n \<le> bcapacity b then Inr (take n (drop i (bdata b))) else Inl (Undef ''read outside the block''))"

definition rb_poke :: "nat \<Rightarrow> byte list \<Rightarrow> rbuf \<Rightarrow> rbuf res" where
  "rb_poke i bs r = (case rb_buf r of
     None \<Rightarrow> Inl (Undef ''null block'')
   | Some b \<Rightarrow> if i + length bs \<le> bcapacity b then Inr (r\<lparr>rb_buf := Some (b\<lparr>bdata := splice i bs (bdata b)\<rparr>)\<rparr>)
               else Inl (Undef ''write outside the block''))"

lemma rb_peek_ok:
  assumes "rb_inv r" "i + n \<le> length (rb_bytes r)" "rb_bytes r \<noteq> []"
  shows "rb_peek i n r = Inr (take n (drop i (rb_bytes r)))"
  using assms
  by (auto simp: rb_peek_def rb_inv_def rb_bytes_def bcapacity_def drop_take min_def split: option.splits if_splits)

lemma rb_poke_ok:
  assumes "rb_inv r" "i + length bs \<le> length (rb_bytes r)" "rb_bytes r \<noteq> []"
  shows "\<exists>r'. rb_poke i bs r = Inr r' \<and> rb_inv r' \<and> rb_bytes r' = splice i bs (rb_bytes r) \<and> rb_read_pos r' = rb_read_pos r"
proof -
  obtain b where b: "rb_buf r = Some b" using rb.ready_nonempty [OF assms(1,3)] by auto
  with assms have i: "held_block (rb_pool r) b" "rb_pos r \<le> length (bdata b)" "i + length bs \<le> rb_pos r" "mp_inv (rb_pool r)"
    by (simp_all add: rb_inv_def)
  let ?r = "r\<lparr>rb_buf := Some (b\<lparr>bdata := splice i bs (bdata b)\<rparr>)\<rparr>"
  have "rb_poke i bs r = Inr ?r" using b i by (simp add: rb_poke_def bcapacity_def)
  moreover have "rb_inv ?r" using i by (simp add: rb_inv_def blocks.held_data)
  moreover have "rb_bytes ?r = splice i bs (rb_bytes r)"
    using b i by (simp add: rb_bytes_def take_splice_within)
  ultimately show ?thesis by auto
qed

section \<open>Results\<close>

(* [include/wise.kernel/net/reason.hpp:8-51 reason] *)
datatype reason =
    success
  | fail_null_pointer | fail_zero_size_data | fail_invalid_parameter | fail_not_implemented
  | fail_invalid_address | fail_acceptor_open | fail_acceptor_bind | fail_acceptor_listen
  | fail_session_already_recving | success_session_already_sending | success_session_no_data_to_send
  | fail_invalid_session | fail_socket_closed
  | fail_null_message_pointer | fail_invalid_message_header | fail_protocol_not_added | fail_protocol_not_bound
  | fail_invalid_bits_message | fail_bits_message_not_registered | fail_bits_pack_error | fail_bits_unpack_error
  | fail_insufficient_unpack | fail_bits_max_packet_size | fail_invalid_message_sequence | fail_null_hash_function
  | fail_incorrect_checksum | fail_incorrect_checksum_length
  | fail_service_not_found | fail_handler_not_found

text \<open>A \<^verbatim>\<open>result<bool, reason>\<close>: the code and the reason.\<close>

(* [include/wise.kernel/core/result.hpp:39-63 result] *)
type_synonym outcome = "bool \<times> reason"

section \<open>The length field\<close>

definition octet_of :: "nat \<Rightarrow> byte" where
  "octet_of n = word_of_nat (n mod 256)"

(* [src/net/modifier.cpp:7-18 modifier::update_length_field] *)
definition update_length_field :: "nat \<Rightarrow> nat \<Rightarrow> rbuf \<Rightarrow> rbuf res" where
  "update_length_field msg_offset new_len buf =
     rb_poke msg_offset [octet_of new_len, octet_of (new_len div 2 ^ 8), octet_of (new_len div 2 ^ 8), octet_of (new_len div 2 ^ 8)] buf"

section \<open>Sequence numbers\<close>

(* [include/wise.kernel/net/modifier/sequencer.hpp:36-39 sequencer] *)
record sequencer =
  send_seq :: byte
  recv_seq :: byte

(* [src/net/modifier/sequencer.cpp:7-12 sequencer::sequencer] *)
definition mk_sequencer :: sequencer where
  "mk_sequencer = \<lparr>send_seq = 1, recv_seq = 1\<rparr>"

definition sequence_size :: nat where
  "sequence_size = 1"

text \<open>The results of \<open>on_recv\<close> carry the reference parameter \<open>new_len\<close>.\<close>

(* [src/net/modifier/sequencer.cpp:14-35 sequencer::on_recv] *)
definition seq_on_recv :: "nat \<Rightarrow> nat \<Rightarrow> sequencer \<Rightarrow> rbuf \<Rightarrow> (outcome \<times> nat \<times> sequencer) res" where
  "seq_on_recv msg_pos msg_len s buf =
     bind_res (rb_peek (usub (msg_pos + msg_len) sequence_size) 1 buf)
       (\<lambda>bs. let s' = s\<lparr>recv_seq := recv_seq s + 1\<rparr> in
          if hd bs = recv_seq s then Inr ((True, success), usub msg_len sequence_size, s')
          else Inr ((False, fail_invalid_message_sequence), msg_len, s'))"

(* [src/net/modifier/sequencer.cpp:37-50 sequencer::on_send] *)
definition seq_on_send :: "nat \<Rightarrow> nat \<Rightarrow> sequencer \<Rightarrow> rbuf \<Rightarrow> (outcome \<times> sequencer \<times> rbuf) res" where
  "seq_on_send msg_pos msg_len s buf =
     bind_res (rb_append (Some [0x61]) buf) (\<lambda>(_, buf1).
     bind_res (rb_poke (msg_pos + msg_len) [send_seq s] buf1) (\<lambda>buf2.
     bind_res (update_length_field msg_pos (msg_len + sequence_size) buf2) (\<lambda>buf3.
       Inr ((True, success), s\<lparr>send_seq := send_seq s + 1\<rparr>, buf3))))"

section \<open>Checksums\<close>

text \<open>What the modifiers call of Botan.\<close>

record 'c cipher_mode =
  cm_start :: "byte list \<Rightarrow> byte list \<Rightarrow> 'c"
  cm_process :: "byte list \<Rightarrow> 'c \<Rightarrow> (byte list \<times> 'c) res"
  cm_finish :: "byte list \<Rightarrow> 'c \<Rightarrow> byte list res"

record 'c botan =
  bt_crc32 :: "(byte list \<Rightarrow> byte list) option"
  bt_sha1 :: "byte list \<Rightarrow> byte list"
  bt_encrypt :: "'c cipher_mode"
  bt_decrypt :: "'c cipher_mode"

(* [include/wise.kernel/net/modifier/checksum.hpp:8-33 checksum] *)
definition checksum_size :: nat where
  "checksum_size = 4"

(* [src/net/modifier/checksum.cpp:14-66 checksum::on_recv] *)
definition checksum_on_recv :: "'c botan \<Rightarrow> nat \<Rightarrow> nat \<Rightarrow> nat \<Rightarrow> rbuf \<Rightarrow> (outcome \<times> nat) res" where
  "checksum_on_recv bt header_length msg_offset msg_len buf =
     (if msg_len = header_length then Inr ((True, success), msg_len)
      else case bt_crc32 bt of
        None \<Rightarrow> Inr ((False, fail_null_hash_function), msg_len)
      | Some hash \<Rightarrow>
          bind_res (rb_peek (msg_offset + header_length) (usub (usub msg_len checksum_size) header_length) buf) (\<lambda>payload.
          bind_res (rb_peek (usub (msg_offset + msg_len) checksum_size) checksum_size buf) (\<lambda>tail.
            if tail \<noteq> hash payload then Inr ((False, fail_incorrect_checksum), msg_len)
            else Inr ((True, success), usub msg_len checksum_size))))"

(* [src/net/modifier/checksum.cpp:68-105 checksum::on_send] *)
definition checksum_on_send :: "'c botan \<Rightarrow> nat \<Rightarrow> nat \<Rightarrow> nat \<Rightarrow> rbuf \<Rightarrow> (outcome \<times> rbuf) res" where
  "checksum_on_send bt header_length msg_offset msg_len buf =
     (if msg_len = header_length then Inr ((True, success), buf)
      else case bt_crc32 bt of
        None \<Rightarrow> Inr ((False, fail_null_hash_function), buf)
      | Some hash \<Rightarrow>
          bind_res (rb_peek (msg_offset + header_length) (usub msg_len header_length) buf) (\<lambda>payload.
          bind_res (rb_append (Some [0x61, 0x62, 0x63, 0x64]) buf) (\<lambda>(_, buf1).
          bind_res (rb_poke (msg_offset + msg_len) (hash payload) buf1) (\<lambda>buf2.
          bind_res (update_length_field msg_offset (msg_len + checksum_size) buf2) (\<lambda>buf3.
            Inr ((True, success), buf3))))))"

section \<open>Encryption\<close>

text \<open>
  \<open>algo\<close> is restarted with the current key and nonce for every message, so its state does not
  outlive one; \<open>key_change_interval\<close> is \<^verbatim>\<open>cipher::cfg.key_change_interval\<close>.
\<close>

(* [src/net/modifier/cipher.cpp:35-68 cipher_impl] *)
record cipher_impl =
  ci_key :: "byte list"
  ci_nonce :: "byte list"
  ci_data :: "byte list"
  ci_count :: nat

(* [src/net/modifier/cipher.cpp:70-85 cipher::cipher] *)
definition mk_cipher_impl :: cipher_impl where
  "mk_cipher_impl =
     \<lparr>ci_key = [0x2B, 0x7E, 0x15, 0x16, 0x28, 0xAE, 0xD2, 0xA6, 0xAB, 0xF7, 0x15, 0x88, 0x09, 0xCF, 0x4F, 0x3C],
      ci_nonce = [0xAC, 0xE0, 0x3D, 0x51, 0x9F, 0x3C, 0xBA, 0x2B, 0xF6, 0x7C, 0xF1, 0xB7, 0xE1, 0xC4, 0xF0, 0x2D],
      ci_data = [], ci_count = 0\<rparr>"

definition BLOCK_SIZE :: nat where
  "BLOCK_SIZE = 16"

(* [src/net/modifier/cipher.cpp:235-247 cipher_impl::update_hash] *)
definition update_hash :: "'c botan \<Rightarrow> nat \<Rightarrow> nat \<Rightarrow> rbuf \<Rightarrow> cipher_impl \<Rightarrow> cipher_impl res" where
  "update_hash bt msg_pos msg_len buf ci =
     bind_res (rb_peek msg_pos (min msg_len 64) buf)
       (\<lambda>pd. Inr (ci\<lparr>ci_data := bt_sha1 bt (pd @ ci_data ci)\<rparr>))"

(* [src/net/modifier/cipher.cpp:262-266 cipher_impl::update_nonce] *)
definition update_nonce :: "cipher_impl \<Rightarrow> cipher_impl res" where
  "update_nonce ci =
     (if length (ci_data ci) < 16 then Inl (Undef ''copy past the end of data'')
      else Inr (ci\<lparr>ci_nonce := take 16 (ci_data ci)\<rparr>))"

(* [src/net/modifier/cipher.cpp:268-272 cipher_impl::update_key] *)
definition update_key :: "cipher_impl \<Rightarrow> cipher_impl res" where
  "update_key ci =
     (if length (ci_data ci) < 16 then Inl (Undef ''copy past the end of data'')
      else Inr (ci\<lparr>ci_key := take 16 (ci_data ci)\<rparr>))"

(* [src/net/modifier/cipher.cpp:249-260 cipher_impl::complete] *)
definition cipher_complete :: "nat \<Rightarrow> cipher_impl \<Rightarrow> cipher_impl res" where
  "cipher_complete key_change_interval ci =
     (if key_change_interval = 0 then Inl (Undef ''remainder by zero'')
      else bind_res (if ci_count ci mod key_change_interval = 0 then update_key ci else Inr ci)
        (\<lambda>ci1. bind_res (update_nonce ci1) (\<lambda>ci2. Inr (ci2\<lparr>ci_count := ci_count ci2 + 1\<rparr>))))"

text \<open>\<open>process\<close> on \<open>n\<close> bytes of the buffer in place, skipped for \<open>n = 0\<close>.\<close>

definition process_in_place :: "'c cipher_mode \<Rightarrow> nat \<Rightarrow> nat \<Rightarrow> 'c \<Rightarrow> rbuf \<Rightarrow> ('c \<times> rbuf) res" where
  "process_in_place m i n c buf =
     (if n > 0 then
        bind_res (rb_peek i n buf) (\<lambda>bs.
        bind_res (cm_process m bs c) (\<lambda>(bs', c').
        bind_res (rb_poke i bs' buf) (\<lambda>buf'. Inr (c', buf'))))
      else Inr (c, buf))"

(* [src/net/modifier/cipher.cpp:91-164 cipher::on_recv] *)
definition cipher_on_recv :: "'c botan \<Rightarrow> nat \<Rightarrow> nat \<Rightarrow> nat \<Rightarrow> nat \<Rightarrow> cipher_impl \<Rightarrow> rbuf
    \<Rightarrow> (outcome \<times> nat \<times> cipher_impl \<times> rbuf) res" where
  "cipher_on_recv bt header_length interval msg_offset msg_len ci buf =
     (let payload_size = usub msg_len header_length in
      if payload_size = 0 then Inr ((True, success), msg_len, ci, buf)
      else
        let cipher_len = usub msg_len header_length;
            cipher_pos = msg_offset + header_length;
            final_pos = usub (cipher_pos + cipher_len) BLOCK_SIZE;
            process_len = usub cipher_len BLOCK_SIZE
        in bind_res (process_in_place (bt_decrypt bt) cipher_pos process_len (cm_start (bt_decrypt bt) (ci_key ci) (ci_nonce ci)) buf)
          (\<lambda>(algo, buf1). bind_res (rb_peek final_pos BLOCK_SIZE buf1)
          (\<lambda>block. bind_res (cm_finish (bt_decrypt bt) block algo)
          (\<lambda>final_block. bind_res (rb_poke final_pos final_block buf1)
          (\<lambda>buf2. let pad_size = usub BLOCK_SIZE (length final_block) in
             bind_res (update_hash bt (msg_offset + header_length) (usub (usub msg_len header_length) pad_size) buf2 ci)
          (\<lambda>ci1. bind_res (cipher_complete interval ci1)
          (\<lambda>ci2. Inr ((True, success), usub msg_len pad_size, ci2, buf2))))))))"

(* [src/net/modifier/cipher.cpp:166-233 cipher::on_send] *)
definition cipher_on_send :: "'c botan \<Rightarrow> nat \<Rightarrow> nat \<Rightarrow> nat \<Rightarrow> nat \<Rightarrow> cipher_impl \<Rightarrow> rbuf
    \<Rightarrow> (outcome \<times> cipher_impl \<times> rbuf) res" where
  "cipher_on_send bt header_length interval msg_offset msg_len ci buf =
     (let payload_size = usub msg_len header_length in
      if payload_size = 0 then Inr ((True, success), ci, buf)
      else
        let pad_size = BLOCK_SIZE - payload_size mod BLOCK_SIZE in
        bind_res (rb_append (Some (replicate pad_size 0xFF)) buf) (\<lambda>(_, buf1).
        let cipher_len = payload_size + pad_size;
            cipher_pos = msg_offset + header_length;
            final_pos = usub (cipher_pos + cipher_len) BLOCK_SIZE;
            process_len = usub cipher_len BLOCK_SIZE
        in bind_res (update_hash bt (msg_offset + header_length) (usub msg_len header_length) buf1 ci)
          (\<lambda>ci1. bind_res (process_in_place (bt_encrypt bt) cipher_pos process_len (cm_start (bt_encrypt bt) (ci_key ci) (ci_nonce ci)) buf1)
          (\<lambda>(algo, buf2). bind_res (rb_peek final_pos (BLOCK_SIZE - pad_size) buf2)
          (\<lambda>block. bind_res (cm_finish (bt_encrypt bt) block algo)
          (\<lambda>final_block. bind_res (rb_poke final_pos final_block buf2)
          (\<lambda>buf3. bind_res (cipher_complete interval ci1)
          (\<lambda>ci2. bind_res (update_length_field msg_offset (msg_len + pad_size) buf3)
          (\<lambda>buf4. Inr ((True, success), ci2, buf4))))))))))"

section \<open>What the modifiers do to the bytes of a message\<close>

definition botan_ok :: "'c botan \<Rightarrow> bool" where
  "botan_ok bt \<longleftrightarrow>
     (\<forall>h x. bt_crc32 bt = Some h \<longrightarrow> length (h x) = 4) \<and> (\<forall>x. length (bt_sha1 bt x) = 20) \<and>
     (\<forall>k n P F. length k = 16 \<longrightarrow> length n = 16 \<longrightarrow> length P mod 16 = 0 \<longrightarrow> length F < 16 \<longrightarrow>
        (\<exists>C c C' d.
           (if P = [] then C = [] \<and> c = cm_start (bt_encrypt bt) k n
            else cm_process (bt_encrypt bt) P (cm_start (bt_encrypt bt) k n) = Inr (C, c)) \<and>
           length C = length P \<and> cm_finish (bt_encrypt bt) F c = Inr C' \<and> length C' = 16 \<and>
           (if P = [] then d = cm_start (bt_decrypt bt) k n
            else cm_process (bt_decrypt bt) C (cm_start (bt_decrypt bt) k n) = Inr (P, d)) \<and>
           cm_finish (bt_decrypt bt) C' d = Inr F))"

definition mode_run :: "'c cipher_mode \<Rightarrow> byte list \<Rightarrow> byte list \<Rightarrow> byte list \<Rightarrow> (byte list \<times> 'c) res" where
  "mode_run m k n bs = (if bs = [] then Inr ([], cm_start m k n) else cm_process m bs (cm_start m k n))"

definition aes_image :: "'c botan \<Rightarrow> byte list \<Rightarrow> byte list \<Rightarrow> byte list \<Rightarrow> byte list" where
  "aes_image bt k n pay =
     (let q = 16 * (length pay div 16) in
      case mode_run (bt_encrypt bt) k n (take q pay) of
        Inl e \<Rightarrow> []
      | Inr (C, c) \<Rightarrow> (case cm_finish (bt_encrypt bt) (drop q pay) c of Inl e \<Rightarrow> [] | Inr C' \<Rightarrow> C @ C'))"

lemma botan_cipher:
  fixes pay :: "byte list"
  assumes "botan_ok bt" "length k = 16" "length n = 16"
  defines "P \<equiv> take (16 * (length pay div 16)) pay" and "F \<equiv> drop (16 * (length pay div 16)) pay"
  obtains C c C' d where "mode_run (bt_encrypt bt) k n P = Inr (C, c)" "length C = length P"
    "cm_finish (bt_encrypt bt) F c = Inr C'" "length C' = 16"
    "mode_run (bt_decrypt bt) k n C = Inr (P, d)" "cm_finish (bt_decrypt bt) C' d = Inr F"
    "aes_image bt k n pay = C @ C'"
proof -
  have le: "16 * (length pay div 16) \<le> length pay" by simp
  have P: "length P mod 16 = 0" using le by (simp add: P_def)
  have F: "length F < 16" by (simp add: F_def)
  have "\<exists>C c C' d.
      (if P = [] then C = [] \<and> c = cm_start (bt_encrypt bt) k n
       else cm_process (bt_encrypt bt) P (cm_start (bt_encrypt bt) k n) = Inr (C, c)) \<and>
      length C = length P \<and> cm_finish (bt_encrypt bt) F c = Inr C' \<and> length C' = 16 \<and>
      (if P = [] then d = cm_start (bt_decrypt bt) k n
       else cm_process (bt_decrypt bt) C (cm_start (bt_decrypt bt) k n) = Inr (P, d)) \<and>
      cm_finish (bt_decrypt bt) C' d = Inr F"
    by (rule assms(1) [unfolded botan_ok_def, THEN conjunct2, THEN conjunct2, rule_format, OF assms(2,3) P F])
  then obtain C c C' d where *:
    "if P = [] then C = [] \<and> c = cm_start (bt_encrypt bt) k n
       else cm_process (bt_encrypt bt) P (cm_start (bt_encrypt bt) k n) = Inr (C, c)"
    "length C = length P" "cm_finish (bt_encrypt bt) F c = Inr C'" "length C' = 16"
    "if P = [] then d = cm_start (bt_decrypt bt) k n
       else cm_process (bt_decrypt bt) C (cm_start (bt_decrypt bt) k n) = Inr (P, d)"
    "cm_finish (bt_decrypt bt) C' d = Inr F" by blast
  have e: "mode_run (bt_encrypt bt) k n P = Inr (C, c)" using *(1) by (auto simp: mode_run_def split: if_splits)
  have d: "mode_run (bt_decrypt bt) k n C = Inr (P, d)" using *(1,2,5) by (auto simp: mode_run_def split: if_splits)
  have "aes_image bt k n pay = C @ C'"
    using e *(3) by (simp add: aes_image_def P_def F_def)
  with that e d * show thesis by blast
qed

definition next_impl :: "'c botan \<Rightarrow> nat \<Rightarrow> byte list \<Rightarrow> cipher_impl \<Rightarrow> cipher_impl" where
  "next_impl bt interval pay ci =
     (let data = bt_sha1 bt (take 64 pay @ ci_data ci) in
      \<lparr>ci_key = (if ci_count ci mod interval = 0 then take 16 data else ci_key ci), ci_nonce = take 16 data,
       ci_data = data, ci_count = ci_count ci + 1\<rparr>)"

definition impl_ok :: "cipher_impl \<Rightarrow> bool" where
  "impl_ok ci \<longleftrightarrow> length (ci_key ci) = 16 \<and> length (ci_nonce ci) = 16"

lemma mk_cipher_impl_ok: "impl_ok mk_cipher_impl"
  by (simp add: impl_ok_def mk_cipher_impl_def)

lemma next_impl_ok: "botan_ok bt \<Longrightarrow> impl_ok ci \<Longrightarrow> impl_ok (next_impl bt i pay ci)"
  by (simp add: impl_ok_def next_impl_def botan_ok_def Let_def)

lemma complete_ok:
  assumes "botan_ok bt" "interval > 0"
  shows "cipher_complete interval (ci\<lparr>ci_data := bt_sha1 bt (take 64 pay @ ci_data ci)\<rparr>) = Inr (next_impl bt interval pay ci)"
  using assms
  by (simp add: cipher_complete_def update_key_def update_nonce_def next_impl_def botan_ok_def Let_def)

lemma update_hash_ok:
  assumes "rb_inv r" "rb_bytes r = a @ pay @ rest" "i = length a" "pay \<noteq> []"
  shows "update_hash bt i (length pay) r ci = Inr (ci\<lparr>ci_data := bt_sha1 bt (take 64 pay @ ci_data ci)\<rparr>)"
proof -
  have "rb_peek i (min (length pay) 64) r = Inr (take (min (length pay) 64) (pay @ rest))"
    using rb_peek_ok [OF assms(1), of i "min (length pay) 64"] assms(2-4) by simp
  then show ?thesis by (simp add: update_hash_def min_def)
qed

lemma process_ok:
  assumes "rb_inv r" "rb_bytes r = a @ bs @ rest" "i = length a" "n = length bs" "a \<noteq> []"
    and "mode_run m k v bs = Inr (bs', c)" "length bs' = length bs"
  shows "\<exists>r'. process_in_place m i n (cm_start m k v) r = Inr (c, r') \<and> rb_inv r' \<and> rb_bytes r' = a @ bs' @ rest \<and>
           rb_read_pos r' = rb_read_pos r"
proof (cases "bs = []")
  case True
  with assms show ?thesis by (auto simp: process_in_place_def mode_run_def)
next
  case False
  have "rb_peek i n r = Inr bs" using rb_peek_ok [OF assms(1), of i n] assms(2-5) by simp
  moreover obtain r' where "rb_poke i bs' r = Inr r'" "rb_inv r'" "rb_bytes r' = a @ bs' @ rest" "rb_read_pos r' = rb_read_pos r"
    using rb_poke_ok [OF assms(1), of i bs'] assms(2-5,7) by (auto simp: splice_at_prefix)
  ultimately show ?thesis
    using assms False by (auto simp: process_in_place_def mode_run_def)
qed

subsection \<open>Sending\<close>

text \<open>A header keeps its topic when its length field changes.\<close>

definition same_topic :: "byte list \<Rightarrow> byte list \<Rightarrow> bool" where
  "same_topic h h' \<longleftrightarrow> length h = 8 \<and> length h' = 8 \<and> drop 4 h = drop 4 h'"

lemma same_topic_trans: "same_topic a b \<Longrightarrow> same_topic b c \<Longrightarrow> same_topic a c"
  by (simp add: same_topic_def)

lemma same_topic_refl: "length h = 8 \<Longrightarrow> same_topic h h"
  by (simp add: same_topic_def)

lemma update_length_ok:
  assumes "rb_inv r" "rb_bytes r = h @ rest" "length h = 8"
  shows "\<exists>r' h'. update_length_field 0 n r = Inr r' \<and> rb_inv r' \<and> rb_bytes r' = h' @ rest \<and> same_topic h h' \<and>
           rb_read_pos r' = rb_read_pos r"
proof -
  define f where "f = [octet_of n, octet_of (n div 2 ^ 8), octet_of (n div 2 ^ 8), octet_of (n div 2 ^ 8)]"
  have f: "length f = 4" by (simp add: f_def)
  have "h @ rest \<noteq> []" using assms(3) by auto
  then obtain r' where r': "rb_poke 0 f r = Inr r'" "rb_inv r'" "rb_bytes r' = splice 0 f (h @ rest)"
    "rb_read_pos r' = rb_read_pos r"
    using rb_poke_ok [OF assms(1), of 0 f] assms(2,3) f by auto
  moreover have "splice 0 f (h @ rest) = (f @ drop 4 h) @ rest" using assms(3) f by (simp add: splice_def)
  moreover have "same_topic h (f @ drop 4 h)" using assms(3) f by (simp add: same_topic_def)
  ultimately show ?thesis unfolding update_length_field_def f_def by metis
qed

text \<open>Appending a trailer and overwriting it, then fixing the length field.\<close>

lemma append_poke_ok:
  assumes "rb_inv r" "length t = length u" "t \<noteq> []"
  shows "\<exists>r1 r2. rb_append (Some t) r = Inr (length t, r1) \<and> rb_poke (length (rb_bytes r)) u r1 = Inr r2 \<and> rb_inv r2 \<and>
           rb_bytes r2 = rb_bytes r @ u \<and> rb_read_pos r2 = rb_read_pos r"
proof -
  obtain r1 where r1: "rb_append (Some t) r = Inr (length t, r1)" "rb_inv r1" "rb_bytes r1 = rb_bytes r @ t"
    "rb_read_pos r1 = rb_read_pos r"
    using rb.append_total [OF assms(1), of t] by blast
  with rb_poke_ok [OF r1(2), of "length (rb_bytes r)" u] assms show ?thesis by (auto simp: splice_at_prefix)
qed

lemma seq_send_ok:
  assumes "rb_inv r" "rb_bytes r = h @ pay" "length h = 8"
  shows "\<exists>r' h'. seq_on_send 0 (8 + length pay) s r = Inr ((True, success), s\<lparr>send_seq := send_seq s + 1\<rparr>, r') \<and> rb_inv r' \<and>
           rb_bytes r' = h' @ pay @ [send_seq s] \<and> same_topic h h' \<and> rb_read_pos r' = rb_read_pos r"
proof -
  obtain r1 r2 where a: "rb_append (Some [0x61]) r = Inr (1, r1)" "rb_poke (8 + length pay) [send_seq s] r1 = Inr r2"
    "rb_inv r2" "rb_bytes r2 = h @ pay @ [send_seq s]" "rb_read_pos r2 = rb_read_pos r"
    using append_poke_ok [OF assms(1), of "[0x61]" "[send_seq s]"] assms(2,3) by auto
  from update_length_ok [OF a(3,4) assms(3), of "8 + length pay + sequence_size"] a show ?thesis
    by (auto simp: seq_on_send_def)
qed

lemma checksum_send_ok:
  assumes "botan_ok bt" "bt_crc32 bt = Some crc" "rb_inv r" "rb_bytes r = h @ pay" "length h = 8" "pay \<noteq> []"
  shows "\<exists>r' h'. checksum_on_send bt 8 0 (8 + length pay) r = Inr ((True, success), r') \<and> rb_inv r' \<and>
           rb_bytes r' = h' @ pay @ crc pay \<and> same_topic h h' \<and> rb_read_pos r' = rb_read_pos r"
proof -
  have len: "length (crc pay) = 4" using assms(1,2) by (simp add: botan_ok_def)
  have p: "rb_peek 8 (length pay) r = Inr pay"
    using rb_peek_ok [OF assms(3), of 8 "length pay"] assms(4-6) by simp
  obtain r1 r2 where a: "rb_append (Some [0x61, 0x62, 0x63, 0x64]) r = Inr (4, r1)"
    "rb_poke (8 + length pay) (crc pay) r1 = Inr r2" "rb_inv r2" "rb_bytes r2 = h @ pay @ crc pay" "rb_read_pos r2 = rb_read_pos r"
    using append_poke_ok [OF assms(3), of "[0x61, 0x62, 0x63, 0x64]" "crc pay"] assms(4,5) len by auto
  from update_length_ok [OF a(3,4) assms(5), of "8 + length pay + checksum_size"] a p assms(2,6) show ?thesis
    by (auto simp: checksum_on_send_def)
qed

lemma cipher_send_ok:
  assumes "botan_ok bt" "interval > 0" "impl_ok ci" "rb_inv r" "rb_bytes r = h @ pay" "length h = 8" "pay \<noteq> []"
  shows "\<exists>r' h'. cipher_on_send bt 8 interval 0 (8 + length pay) ci r = Inr ((True, success), next_impl bt interval pay ci, r') \<and>
           rb_inv r' \<and> rb_bytes r' = h' @ aes_image bt (ci_key ci) (ci_nonce ci) pay \<and> same_topic h h' \<and>
           rb_read_pos r' = rb_read_pos r"
proof -
  have hne: "h \<noteq> []" using \<open>length h = 8\<close> by auto
  define q where "q = 16 * (length pay div 16)"
  define P F where "P = take q pay" and "F = drop q pay"
  have pay: "pay = P @ F" and lP: "length P = q" and lF: "length F = length pay mod 16" and q: "length pay = q + length pay mod 16"
    by (simp_all add: P_def F_def q_def minus_mult_div_eq_mod)
  from assms(3) have k: "length (ci_key ci) = 16" "length (ci_nonce ci) = 16" by (simp_all add: impl_ok_def)
  obtain C c C' d where bc: "mode_run (bt_encrypt bt) (ci_key ci) (ci_nonce ci) P = Inr (C, c)" "length C = length P"
    "cm_finish (bt_encrypt bt) F c = Inr C'" "length C' = 16" "aes_image bt (ci_key ci) (ci_nonce ci) pay = C @ C'"
    using botan_cipher [OF assms(1) k, of pay] unfolding P_def F_def q_def by metis
  let ?pad = "16 - length pay mod 16"
  obtain r1 where r1: "rb_append (Some (replicate ?pad 0xFF)) r = Inr (?pad, r1)" "rb_inv r1"
    "rb_bytes r1 = h @ pay @ replicate ?pad 0xFF" "rb_read_pos r1 = rb_read_pos r"
    using rb.append_total [OF assms(4), of "replicate ?pad 0xFF"] assms(5) by auto
  have uh: "update_hash bt 8 (length pay) r1 ci = Inr (ci\<lparr>ci_data := bt_sha1 bt (take 64 pay @ ci_data ci)\<rparr>)"
    using update_hash_ok [OF r1(2,3) _ assms(7), of 8] assms(6) by simp
  have "rb_bytes r1 = h @ P @ (F @ replicate ?pad 0xFF)" using r1(3) pay by simp
  from process_ok [OF r1(2) this _ lP [symmetric] hne bc(1,2), of 8] assms(6) obtain r2
    where r2: "process_in_place (bt_encrypt bt) 8 q (cm_start (bt_encrypt bt) (ci_key ci) (ci_nonce ci)) r1 = Inr (c, r2)"
      "rb_inv r2" "rb_bytes r2 = h @ C @ F @ replicate ?pad 0xFF" "rb_read_pos r2 = rb_read_pos r" using r1(4) by auto
  have b2: "8 + q = length (h @ C)" "rb_bytes r2 \<noteq> []" using assms(6) bc(2) lP r2(3) hne by simp_all
  then have pk: "rb_peek (8 + q) (length F) r2 = Inr F"
    using rb_peek_ok [OF r2(2), of "8 + q" "length F"] r2(3) by simp
  have "drop (length C') (F @ replicate ?pad 0xFF) = []" using lF bc(4) by simp
  then obtain r3 where r3: "rb_poke (8 + q) C' r2 = Inr r3" "rb_inv r3" "rb_bytes r3 = h @ C @ C'" "rb_read_pos r3 = rb_read_pos r"
    using rb_poke_ok [OF r2(2) _ b2(2), of "8 + q" C'] splice_at_prefix [OF b2(1) [symmetric], of C' "F @ replicate ?pad 0xFF"] r2(3,4)
      b2(1) bc(4) lF by auto
  obtain r4 h' where r4: "update_length_field 0 (8 + length pay + ?pad) r3 = Inr r4" "rb_inv r4" "rb_bytes r4 = h' @ C @ C'"
    "same_topic h h'" "rb_read_pos r4 = rb_read_pos r"
    using update_length_ok [OF r3(2,3) assms(6), of "8 + length pay + ?pad"] r3(4) by auto
  have cl: "length pay + ?pad = q + 16" using q by simp
  have bp: "BLOCK_SIZE - ?pad = length F" using lF by (simp add: BLOCK_SIZE_def)
  have "cipher_on_send bt 8 interval 0 (8 + length pay) ci r = Inr ((True, success), next_impl bt interval pay ci, r4)"
    using assms(7) r1(1) uh r2(1) pk bc(3) r3(1) r4(1) complete_ok [OF assms(1,2)] cl bp
    by (simp add: cipher_on_send_def Let_def BLOCK_SIZE_def add.assoc)
  with r4 bc(5) show ?thesis by auto
qed

subsection \<open>Receiving\<close>

text \<open>The message stands at \<open>length pre\<close> in a buffer with other bytes around it.\<close>

lemma cipher_recv_ok:
  assumes "botan_ok bt" "interval > 0" "impl_ok ci" "rb_inv r" "length h = 8" "pay \<noteq> []"
    and "rb_bytes r = pre @ h @ aes_image bt (ci_key ci) (ci_nonce ci) pay @ post"
  shows "\<exists>r' junk. cipher_on_recv bt 8 interval (length pre) (8 + length (aes_image bt (ci_key ci) (ci_nonce ci) pay)) ci r =
             Inr ((True, success), 8 + length pay, next_impl bt interval pay ci, r') \<and>
           rb_inv r' \<and> rb_bytes r' = pre @ h @ pay @ junk @ post \<and>
           length pay + length junk = length (aes_image bt (ci_key ci) (ci_nonce ci) pay) \<and> rb_read_pos r' = rb_read_pos r"
proof -
  have hne: "h \<noteq> []" using \<open>length h = 8\<close> by auto
  define q where "q = 16 * (length pay div 16)"
  define P F where "P = take q pay" and "F = drop q pay"
  have pay: "pay = P @ F" and lP: "length P = q" and lF: "length F = length pay mod 16" and q: "length pay = q + length pay mod 16"
    by (simp_all add: P_def F_def q_def minus_mult_div_eq_mod)
  from assms(3) have k: "length (ci_key ci) = 16" "length (ci_nonce ci) = 16" by (simp_all add: impl_ok_def)
  obtain C c C' d where bc: "length C = length P" "length C' = 16" "mode_run (bt_decrypt bt) (ci_key ci) (ci_nonce ci) C = Inr (P, d)"
    "cm_finish (bt_decrypt bt) C' d = Inr F" "aes_image bt (ci_key ci) (ci_nonce ci) pay = C @ C'"
    using botan_cipher [OF assms(1) k, of pay] unfolding P_def F_def q_def by metis
  let ?a = "pre @ h"
  have pos: "length pre + 8 = length ?a" using assms(5) by simp
  have "rb_bytes r = ?a @ C @ (C' @ post)" using assms(7) bc(5) by simp
  from process_ok [OF assms(4) this pos _ _ bc(3) bc(1) [symmetric], of q] hne assms(5) bc(1) lP obtain r1
    where r1: "process_in_place (bt_decrypt bt) (length pre + 8) q (cm_start (bt_decrypt bt) (ci_key ci) (ci_nonce ci)) r = Inr (d, r1)"
      "rb_inv r1" "rb_bytes r1 = (?a @ P) @ C' @ post" "rb_read_pos r1 = rb_read_pos r" by auto
  have fp: "length (?a @ P) = length pre + 8 + q" using lP assms(5) by simp
  have ne: "rb_bytes r1 \<noteq> []" using r1(3) assms(5) by auto
  have pk: "rb_peek (length pre + 8 + q) 16 r1 = Inr C'"
    using rb_peek_ok [OF r1(2) _ ne, of "length pre + 8 + q" 16] r1(3) fp bc(2) by simp
  have "length F < 16" using lF by simp
  then have "length pre + 8 + q + length F \<le> length (rb_bytes r1)" using r1(3) fp bc(2) by simp
  then obtain r2 where r2: "rb_poke (length pre + 8 + q) F r1 = Inr r2" "rb_inv r2"
    "rb_bytes r2 = (?a @ P) @ F @ drop (length F) C' @ post" "rb_read_pos r2 = rb_read_pos r"
    using rb_poke_ok [OF r1(2) _ ne, of "length pre + 8 + q" F] r1(3,4) splice_at_prefix [OF fp, of F "C' @ post"] \<open>length F < 16\<close> bc(2)
    by auto
  then have b2: "rb_bytes r2 = ?a @ pay @ drop (length F) C' @ post" using pay by simp
  have uh: "update_hash bt (length pre + 8) (length pay) r2 ci = Inr (ci\<lparr>ci_data := bt_sha1 bt (take 64 pay @ ci_data ci)\<rparr>)"
    by (rule update_hash_ok [OF r2(2) b2 pos assms(6)])
  have len: "length (C @ C') = q + 16" using bc(1,2) lP by simp
  have lp: "length pay = q + length F" using q lF by simp
  have e: "length pre + 8 + q = 8 + (length pre + q)" by simp
  have u: "usub (16 + q) (usub 16 (length F)) = length pay" "usub (24 + q) (usub 16 (length F)) = 8 + length pay"
    using lp \<open>length F < 16\<close> by (auto simp: usub_def)
  have "cipher_on_recv bt 8 interval (length pre) (8 + length (C @ C')) ci r =
      Inr ((True, success), 8 + length pay, next_impl bt interval pay ci, r2)"
    using r1(1) pk [unfolded e] bc(4) r2(1) [unfolded e] uh complete_ok [OF assms(1,2)] len u
    by (simp add: cipher_on_recv_def Let_def BLOCK_SIZE_def)
  moreover have "length pay + length (drop (length F) C') = length (C @ C')" using len lF q bc(2) by simp
  ultimately show ?thesis using r2(2,4) b2 bc(5) by auto
qed

lemma checksum_recv_ok:
  assumes "botan_ok bt" "bt_crc32 bt = Some crc" "rb_inv r" "length h = 8" "rb_bytes r = pre @ h @ pay @ t @ post" "length t = 4"
    and "pay \<noteq> []"
  shows "checksum_on_recv bt 8 (length pre) (8 + length (pay @ t)) r =
           Inr (if t = crc pay then ((True, success), 8 + length pay) else ((False, fail_incorrect_checksum), 8 + length (pay @ t)))"
proof -
  have ne: "rb_bytes r \<noteq> []" using assms(4,5) by auto
  have "rb_peek (length pre + 8) (length pay) r = Inr pay"
    using rb_peek_ok [OF assms(3) _ ne, of "length pre + 8" "length pay"] assms(4,5) by simp
  moreover have "rb_peek (8 + (length pre + length pay)) 4 r = Inr t"
    using rb_peek_ok [OF assms(3) _ ne, of "8 + (length pre + length pay)" 4] assms(4,5,6) by simp
  ultimately show ?thesis
    using assms(2,6) by (simp add: checksum_on_recv_def checksum_size_def ac_simps)
qed

lemma seq_recv_ok:
  assumes "rb_inv r" "rb_bytes r = pre @ m @ [s] @ post"
  shows "seq_on_recv (length pre) (length m + 1) sq r =
           Inr (if s = recv_seq sq then ((True, success), length m, sq\<lparr>recv_seq := recv_seq sq + 1\<rparr>)
                else ((False, fail_invalid_message_sequence), length m + 1, sq\<lparr>recv_seq := recv_seq sq + 1\<rparr>))"
proof -
  have "rb_peek (length pre + length m) 1 r = Inr [s]"
    using rb_peek_ok [OF assms(1), of "length pre + length m" 1] assms(2) by simp
  then show ?thesis by (simp add: seq_on_recv_def sequence_size_def)
qed

section \<open>Properties\<close>

text \<open>
  A message of 9, 10 or 11 bytes makes the checksum verification read far outside the receive
  buffer: the payload length \<^verbatim>\<open>msg_len - checksum_size - header_length_\<close> is computed in unsigned
  arithmetic and wraps around, and nothing checks that the message can hold a checksum.
\<close>

theorem checksum_short_message:
  assumes "8 < msg_len" "msg_len < 12" "bt_crc32 bt = Some crc" "rb_buf r = Some b" "bcapacity b < 2 ^ 63"
  shows "checksum_on_recv bt 8 msg_offset msg_len r = Inl (Undef ''read outside the block'')"
proof -
  have "usub (usub msg_len checksum_size) 8 = 2 ^ 64 - (12 - msg_len)"
    using assms(1,2) by (simp add: usub_def checksum_size_def)
  moreover have "2 ^ 63 \<le> 2 ^ 64 - (12 - msg_len)" using assms(1) by simp
  ultimately have "rb_peek (msg_offset + 8) (usub (usub msg_len checksum_size) 8) r = Inl (Undef ''read outside the block'')"
    using assms(4,5) by (simp add: rb_peek_def)
  then show ?thesis using assms(1,3) by (simp add: checksum_on_recv_def)
qed

lemma checksum_short_message_witness:
  "checksum_on_recv \<lparr>bt_crc32 = Some (\<lambda>bs. [1, 2, 3, 4]), bt_sha1 = (\<lambda>bs. bs), bt_encrypt = (undefined :: unit cipher_mode), bt_decrypt = undefined\<rparr>
     8 0 9 \<lparr>rb_pool = mk_multi_pool (\<lambda>_ _. 0), initial_size = 16,
       rb_buf = Some \<lparr>bdata = replicate 16 0, bstate = Created, hit_count = 0, bpool = None\<rparr>, rb_pos = 9, rb_read_pos = 0\<rparr>
   = Inl (Undef ''read outside the block'')"
  by (rule checksum_short_message, (simp add: bcapacity_def)+)

end
