(* ===== verification/Topic.thy ===== *)
theory Topic
  imports Prelude
begin

text \<open>
  Topics (\<^verbatim>\<open>include/wise.kernel/core/channel/topic.hpp\<close>): a 32-bit key made of an 8-bit
  category, an 8-bit group and a 16-bit type. A topic with type 0 stands for its whole group.
\<close>

unbundle bit_operations_syntax

section \<open>Keys\<close>

(* [include/wise.kernel/core/channel/topic.hpp:14-20 topic] *)
type_synonym topic = u32

(* [include/wise.kernel/core/channel/topic.hpp:33-36 topic::topic] *)
definition mk_topic :: "byte \<Rightarrow> byte \<Rightarrow> u16 \<Rightarrow> topic" where
  "mk_topic cat grp ty = push_bit 24 (ucast cat) OR push_bit 16 (ucast grp) OR ucast ty"

(* [include/wise.kernel/core/channel/topic.hpp:55-58 topic::get_category] *)
definition get_category :: "topic \<Rightarrow> byte" where
  "get_category k = ucast (drop_bit 24 k AND 0xFF)"

(* [include/wise.kernel/core/channel/topic.hpp:60-63 topic::get_group] *)
definition get_group :: "topic \<Rightarrow> byte" where
  "get_group k = ucast (drop_bit 16 k AND 0xFF)"

(* [include/wise.kernel/core/channel/topic.hpp:65-68 topic::get_type] *)
definition get_type :: "topic \<Rightarrow> u16" where
  "get_type k = ucast (k AND 0xFFFF)"

(* [include/wise.kernel/core/channel/topic.hpp:70-73 topic::get_group_topic] *)
definition get_group_topic :: "topic \<Rightarrow> topic" where
  "get_group_topic k = mk_topic (get_category k) (get_group k) 0"

(* [include/wise.kernel/core/channel/topic.hpp:75-78 topic::is_valid] *)
definition topic_valid :: "topic \<Rightarrow> bool" where
  "topic_valid k \<longleftrightarrow> k > 0"

(* [include/wise.kernel/core/channel/topic.hpp:80-93 topic::match] *)
definition topic_match :: "topic \<Rightarrow> topic \<Rightarrow> bool" where
  "topic_match k other =
     (if get_category k = get_category other \<and> get_group k = get_group other then
        if get_type k = 0 then True else get_type k = get_type other
      else False)"

section \<open>The fields determine the key\<close>

lemma topic_bits:
  "bit (get_category k) i = (i < 8 \<and> bit k (24 + i))" "bit (get_group k) i = (i < 8 \<and> bit k (16 + i))"
  "bit (get_type k) i = (i < 16 \<and> bit k i)"
proof -
  have m: "(0xFF :: u32) = mask 8" "(0xFFFF :: u32) = mask 16" by (simp_all add: mask_eq_exp_minus_1)
  show "bit (get_category k) i = (i < 8 \<and> bit k (24 + i))" "bit (get_group k) i = (i < 8 \<and> bit k (16 + i))"
    "bit (get_type k) i = (i < 16 \<and> bit k i)"
    unfolding get_category_def get_group_def get_type_def m
    by (auto simp: bit_simps)
qed

lemma mk_topic_bits:
  "bit (mk_topic c g t) i =
     (i < 32 \<and> (if i < 16 then bit t i else if i < 24 then bit g (i - 16) else bit c (i - 24)))"
  by (auto simp: mk_topic_def bit_simps not_less dest: bit_imp_le_length)

lemma mk_topic_fields [simp]:
  "get_category (mk_topic c g t) = c" "get_group (mk_topic c g t) = g" "get_type (mk_topic c g t) = t"
  by (rule bit_word_eqI; auto simp: topic_bits mk_topic_bits)+

lemma mk_topic_of_fields: "mk_topic (get_category k) (get_group k) (get_type k) = k"
  by (rule bit_word_eqI) (auto simp: topic_bits mk_topic_bits)

lemma topic_eq_iff: "k = k' \<longleftrightarrow> get_category k = get_category k' \<and> get_group k = get_group k' \<and> get_type k = get_type k'"
  by (metis mk_topic_of_fields)

lemma group_topic_fields [simp]:
  "get_category (get_group_topic k) = get_category k" "get_group (get_group_topic k) = get_group k"
  "get_type (get_group_topic k) = 0"
  by (simp_all add: get_group_topic_def)

text \<open>The keys under which the subscribers a topic reaches are filed.\<close>

lemma topic_match_iff: "topic_match k other \<longleftrightarrow> k = other \<or> k = get_group_topic other"
  by (auto simp: topic_match_def topic_eq_iff)

lemma group_topic_same_iff: "get_group_topic k = k \<longleftrightarrow> get_type k = 0"
  by (auto simp: topic_eq_iff)

end
