(* ===== verification/Bits_Protocol.thy ===== *)
theory Bits_Protocol
  imports Bits_Codec Modifier Topic "HOL-Library.Char_ord" "HOL-Library.List_Lexorder"
begin

text \<open>
  The bits protocol (\<^verbatim>\<open>src/net/protocol/bits/bits_protocol.cpp\<close>, \<^verbatim>\<open>bits_factory.cpp\<close>,
  \<^verbatim>\<open>bits_packet.cpp\<close>): framing of packets with a length and a topic, the modifier pipeline on
  both directions, and the receive loop that cuts the byte stream back into packets.

  Packet classes are written by the application: their virtual methods are the record
  \<open>packet_ops\<close>. A registered creator is the packet it creates. What a protocol hands to its
  channels (\<^verbatim>\<open>protocol::publish\<close>) is recorded in \<open>bp_published\<close>, what it hands to its session
  (\<^verbatim>\<open>tcp_protocol::send\<close>) in \<open>bp_wire\<close>; the result of the session's \<open>send\<close> is the argument \<open>rc\<close>.
  The receive loop need not end, so it runs on fuel: \<open>None\<close> is running out of it.
\<close>

section \<open>Packets and their factory\<close>

(* [include/wise.kernel/net/protocol/bits/bits_packet.hpp:17-70 bits_packet] *)
record 'm packet_ops =
  po_pack :: "'m pack_fn"
  po_unpack :: "'m unpack_fn"
  po_topic :: "'m \<Rightarrow> topic"
  po_sequence :: "'m \<Rightarrow> bool"
  po_checksum :: "'m \<Rightarrow> bool"
  po_cipher :: "'m \<Rightarrow> bool"

definition header_length :: nat where
  "header_length = 4 + 4"

(* [src/net/protocol/bits/bits_packet.cpp:10-14 bits_packet::pack] *)
definition bits_packet_pack :: "'m pack_fn" where
  "bits_packet_pack m p = Inr (True, p)"

(* [src/net/protocol/bits/bits_packet.cpp:16-20 bits_packet::unpack] *)
definition bits_packet_unpack :: "'m unpack_fn" where
  "bits_packet_unpack m p = Inr (True, m, p)"

type_synonym 'm factory = "topic \<rightharpoonup> 'm"

(* [include/wise.kernel/net/protocol/bits/bits_packets.hpp:9-32 bits_topic] *)
definition bits_topic_category :: byte where
  "bits_topic_category = 1"

(* [src/net/protocol/bits/bits_factory.cpp:17-37 bits_factory::add] *)
definition factory_add :: "topic \<Rightarrow> 'm \<Rightarrow> 'm factory \<Rightarrow> 'm factory res" where
  "factory_add pic c f =
     (if get_category pic = bits_topic_category
      then Inl (Throw ''bits catetory cannot be used for application messages'')
      else Inr (f(pic \<mapsto> c)))"

(* [src/net/protocol/bits/bits_factory.cpp:39-45 bits_factory::create] *)
definition factory_create :: "topic \<Rightarrow> 'm factory \<Rightarrow> 'm option" where
  "factory_create pic f = f pic"

section \<open>The protocol object\<close>

(* [include/wise.kernel/net/protocol/bits/bits_protocol.hpp:30-43 bits_protocol::config] *)
record bits_config =
  enable_cipher :: bool
  enable_checksum :: bool
  enable_sequence :: bool
  enable_loopback :: bool
  max_packet_length :: nat

text \<open>\<open>bp_pack_buf\<close> and \<open>bp_mod_buf\<close> are the thread-local buffers of \<open>send\<close> and \<open>send_final\<close>.\<close>

(* [include/wise.kernel/net/protocol/bits/bits_protocol.hpp:113-118 bits_protocol] *)
record 'm bits_proto =
  bp_cfg :: bits_config
  bp_interval :: nat
  bp_recv_buf :: rbuf
  bp_sequencer :: sequencer
  bp_sender :: cipher_impl
  bp_receiver :: cipher_impl
  bp_pack_buf :: rbuf
  bp_mod_buf :: rbuf
  bp_channels :: "string list"
  bp_published :: "(string \<times> 'm) list"
  bp_wire :: "byte list list"

text \<open>What the protocol runs in: Botan, the packet classes, the factory, the host.\<close>

record ('c, 'm) env =
  e_botan :: "'c botan"
  e_ops :: "'m packet_ops"
  e_factory :: "'m factory"
  e_host_le :: bool

(* [src/net/protocol/bits/bits_protocol.cpp:16-22 bits_protocol::bits_protocol] *)
definition mk_bits_proto :: "bits_config \<Rightarrow> nat \<Rightarrow> multi_pool \<Rightarrow> rbuf \<Rightarrow> rbuf \<Rightarrow> 'm bits_proto" where
  "mk_bits_proto cfg interval pool pack_buf mod_buf =
     \<lparr>bp_cfg = cfg, bp_interval = interval, bp_recv_buf = mk_rbuf (16 * 1024) pool, bp_sequencer = mk_sequencer,
      bp_sender = mk_cipher_impl, bp_receiver = mk_cipher_impl, bp_pack_buf = pack_buf, bp_mod_buf = mod_buf,
      bp_channels = [], bp_published = [], bp_wire = []\<rparr>"

(* [src/net/protocol.cpp:44-48 protocol::has_channel] *)
definition has_channel :: "string \<Rightarrow> 'm bits_proto \<Rightarrow> bool" where
  "has_channel key p \<longleftrightarrow> key \<in> set (bp_channels p)"

(* [src/net/protocol.cpp:10-21 protocol::bind] *)
definition proto_bind :: "string \<Rightarrow> 'm bits_proto \<Rightarrow> bool \<times> 'm bits_proto" where
  "proto_bind key p = (if has_channel key p then (True, p) else (True, p\<lparr>bp_channels := insort key (bp_channels p)\<rparr>))"

(* [src/net/protocol.cpp:38-42 protocol::unbind] *)
definition proto_unbind :: "string \<Rightarrow> 'm bits_proto \<Rightarrow> 'm bits_proto" where
  "proto_unbind key p = p\<lparr>bp_channels := filter (\<lambda>k. k \<noteq> key) (bp_channels p)\<rparr>"

(* [src/net/protocol.cpp:23-31 protocol::publish] *)
definition proto_publish :: "'m \<Rightarrow> 'm bits_proto \<Rightarrow> 'm bits_proto" where
  "proto_publish m p = p\<lparr>bp_published := bp_published p @ map (\<lambda>key. (key, m)) (bp_channels p)\<rparr>"

section \<open>Length and topic fields\<close>

definition field_bytes :: "u32 \<Rightarrow> byte list" where
  "field_bytes k =
     [ucast (k AND 0xFF), ucast (drop_bit 8 k AND 0xFF), ucast (drop_bit 16 k AND 0xFF), ucast (drop_bit 24 k AND 0xFF)]"

definition field_word :: "byte list \<Rightarrow> u32" where
  "field_word bs =
     ucast (bs ! 0) OR push_bit 8 (ucast (bs ! 1)) OR push_bit 16 (ucast (bs ! 2)) OR push_bit 24 (ucast (bs ! 3))"

(* [src/net/protocol/bits/bits_protocol.cpp:349-355 bits_protocol::set_length] *)
definition set_length :: "u32 \<Rightarrow> nat \<Rightarrow> rbuf \<Rightarrow> rbuf res" where
  "set_length len ri buf = rb_poke ri (field_bytes len) buf"

(* [src/net/protocol/bits/bits_protocol.cpp:341-347 bits_protocol::set_topic] *)
definition set_topic :: "topic \<Rightarrow> nat \<Rightarrow> rbuf \<Rightarrow> rbuf res" where
  "set_topic key ri buf = rb_poke ri (field_bytes key) buf"

(* [src/net/protocol/bits/bits_protocol.cpp:357-367 bits_protocol::get_length] *)
definition get_length :: "nat \<Rightarrow> rbuf \<Rightarrow> u32 res" where
  "get_length ri buf = bind_res (rb_peek ri 4 buf) (\<lambda>bs. Inr (field_word bs))"

(* [src/net/protocol/bits/bits_protocol.cpp:369-379 bits_protocol::get_topic] *)
definition get_topic :: "nat \<Rightarrow> rbuf \<Rightarrow> topic res" where
  "get_topic ri buf = bind_res (rb_peek ri 4 buf) (\<lambda>bs. Inr (field_word bs))"

section \<open>Receiving\<close>

(* [src/net/protocol/bits/bits_protocol.cpp:277-317 bits_protocol::recv_modified] *)
definition recv_modified :: "('c, 'm) env \<Rightarrow> 'm \<Rightarrow> nat \<Rightarrow> nat \<Rightarrow> 'm bits_proto \<Rightarrow> (outcome \<times> nat \<times> 'm bits_proto) res" where
  "recv_modified e mp msg_pos msg_len p =
     bind_res
       (if enable_cipher (bp_cfg p) \<and> po_cipher (e_ops e) mp then
          bind_res (cipher_on_recv (e_botan e) header_length (bp_interval p) msg_pos msg_len (bp_receiver p) (bp_recv_buf p))
            (\<lambda>(rc, n, ci, b). Inr (rc, n, p\<lparr>bp_receiver := ci, bp_recv_buf := b\<rparr>))
        else Inr ((True, success), msg_len, p))
       (\<lambda>(rc1, n1, p1). if \<not> fst rc1 then Inr (rc1, 0, p1) else
     bind_res
       (if enable_checksum (bp_cfg p1) \<and> po_checksum (e_ops e) mp then
          bind_res (checksum_on_recv (e_botan e) header_length msg_pos n1 (bp_recv_buf p1)) (\<lambda>(rc, n). Inr (rc, n, p1))
        else Inr ((True, success), n1, p1))
       (\<lambda>(rc2, n2, p2). if \<not> fst rc2 then Inr (rc2, 0, p2) else
     bind_res
       (if enable_sequence (bp_cfg p2) \<and> po_sequence (e_ops e) mp then
          bind_res (seq_on_recv msg_pos n2 (bp_sequencer p2) (bp_recv_buf p2))
            (\<lambda>(rc, n, s). Inr (rc, n, p2\<lparr>bp_sequencer := s\<rparr>))
        else Inr ((True, success), n2, p2))
       (\<lambda>(rc3, n3, p3). if \<not> fst rc3 then Inr (rc3, 0, p3) else Inr ((True, success), n3, p3))))"

text \<open>
  One round of the loop for a complete message of \<open>msg_len\<close> bytes at \<open>iter\<close>: \<open>Some rc\<close> when
  \<open>on_recv\<close> returns \<open>rc\<close> from inside the loop.
\<close>

(* [src/net/protocol/bits/bits_protocol.cpp:197-254 bits_protocol::on_recv] *)
definition recv_message :: "('c, 'm) env \<Rightarrow> nat \<Rightarrow> nat \<Rightarrow> nat \<Rightarrow> 'm bits_proto \<Rightarrow> (outcome option \<times> 'm bits_proto) res" where
  "recv_message e iter processed_len msg_len p =
     bind_res (get_topic (iter + 4) (bp_recv_buf p)) (\<lambda>pic.
     case factory_create pic (e_factory e) of
       None \<Rightarrow> Inr (Some (False, fail_bits_message_not_registered), p)
     | Some mp \<Rightarrow>
         bind_res (recv_modified e mp processed_len msg_len p) (\<lambda>(rc, final_len, p1).
         if \<not> fst rc then Inr (Some rc, p1)
         else
           bind_res (rb_read 4 (bp_recv_buf p1)) (\<lambda>(_, b1).
           bind_res (rb_read 4 b1) (\<lambda>(_, b2).
           bind_res (po_unpack (e_ops e) mp (mk_packer (e_host_le e) b2)) (\<lambda>(res, mp', pk).
             let p2 = p1\<lparr>bp_recv_buf := pk_buf pk\<rparr> in
             if rb_get_read_pos (bp_recv_buf p2) < final_len then Inr (Some (False, fail_insufficient_unpack), p2)
             else if \<not> res then Inr (Some (False, fail_bits_unpack_error), p2)
             else Inr (None, proto_publish mp' p2))))))"

text \<open>
  \<open>iter\<close> is the index of the iterator; \<open>remained_len\<close> is a signed difference, compared with the
  unsigned \<open>header_length\<close> after conversion, and \<open>iter += payload_len\<close> wraps around.
\<close>

(* [src/net/protocol/bits/bits_protocol.cpp:173-264 bits_protocol::on_recv] *)
fun recv_loop :: "nat \<Rightarrow> ('c, 'm) env \<Rightarrow> nat \<Rightarrow> nat \<Rightarrow> 'm bits_proto \<Rightarrow> (outcome option \<times> nat \<times> 'm bits_proto) res option" where
  "recv_loop 0 e iter processed_len p = None"
| "recv_loop (Suc fuel) e iter processed_len p =
     (let remained_len = int (rb_size (bp_recv_buf p)) - int iter in
      if 0 \<le> remained_len \<and> remained_len < int header_length then Some (Inr (None, processed_len, p))
      else case get_length iter (bp_recv_buf p) of
        Inl f \<Rightarrow> Some (Inl f)
      | Inr len \<Rightarrow>
          let msg_len = unat len in
          if msg_len > max_packet_length (bp_cfg p) then Some (Inr (Some (False, fail_bits_max_packet_size), processed_len, p))
          else if remained_len < int msg_len then Some (Inr (None, processed_len, p))
          else case recv_message e iter processed_len msg_len p of
            Inl f \<Rightarrow> Some (Inl f)
          | Inr (Some rc, p1) \<Rightarrow> Some (Inr (Some rc, processed_len, p1))
          | Inr (None, p1) \<Rightarrow>
              recv_loop fuel e ((iter + 8 + usub msg_len header_length) mod 2 ^ 64) (processed_len + msg_len) p1)"

(* [src/net/protocol/bits/bits_protocol.cpp:161-275 bits_protocol::on_recv] *)
definition on_recv :: "nat \<Rightarrow> ('c, 'm) env \<Rightarrow> byte list option \<Rightarrow> 'm bits_proto \<Rightarrow> (outcome \<times> 'm bits_proto) res option" where
  "on_recv fuel e bytes p =
     (case bytes of
        None \<Rightarrow> Some (Inr ((False, fail_null_pointer), p))
      | Some bs \<Rightarrow>
          if length bs = 0 then Some (Inr ((False, fail_zero_size_data), p))
          else case rb_append (Some bs) (bp_recv_buf p) of
            Inl f \<Rightarrow> Some (Inl f)
          | Inr (_, b) \<Rightarrow>
              (case recv_loop fuel e 0 0 (p\<lparr>bp_recv_buf := b\<rparr>) of
                 None \<Rightarrow> None
               | Some (Inl f) \<Rightarrow> Some (Inl f)
               | Some (Inr (Some rc, _, p1)) \<Rightarrow> Some (Inr (rc, p1))
               | Some (Inr (None, processed_len, p1)) \<Rightarrow>
                   if processed_len > 0 then
                     Some (bind_res (rb_pop_front processed_len (bp_recv_buf p1)) (\<lambda>b1. Inr ((True, success), p1\<lparr>bp_recv_buf := b1\<rparr>)))
                   else Some (Inr ((True, success), p1))))"

section \<open>Sending\<close>

(* [src/net/protocol/bits/bits_protocol.cpp:132-159 bits_protocol::pack] *)
definition bits_pack :: "('c, 'm) env \<Rightarrow> 'm \<Rightarrow> rbuf \<Rightarrow> (outcome \<times> rbuf) res" where
  "bits_pack e mp buf =
     (let pad = host_image (e_host_le e) (0xCAFEABBA :: u32) in
      bind_res (rb_append (Some pad) buf) (\<lambda>(_, b1).
      bind_res (rb_append (Some pad) b1) (\<lambda>(_, b2).
      bind_res (po_pack (e_ops e) mp (mk_packer (e_host_le e) b2)) (\<lambda>(rc, pk).
        if \<not> rc then Inr ((False, fail_bits_pack_error), pk_buf pk)
        else bind_res (set_length (word_of_nat (rb_size (pk_buf pk))) 0 (pk_buf pk)) (\<lambda>b3.
             bind_res (set_topic (po_topic (e_ops e) mp) 4 b3) (\<lambda>b4. Inr ((True, success), b4)))))))"

(* [src/net/protocol/bits/bits_protocol.cpp:389-395 bits_protocol::needs_to_modify] *)
definition needs_to_modify :: "('c, 'm) env \<Rightarrow> 'm \<Rightarrow> 'm bits_proto \<Rightarrow> bool" where
  "needs_to_modify e m p \<longleftrightarrow>
     enable_cipher (bp_cfg p) \<and> po_cipher (e_ops e) m \<or>
     enable_checksum (bp_cfg p) \<and> po_checksum (e_ops e) m \<or>
     enable_sequence (bp_cfg p) \<and> po_sequence (e_ops e) m"

text \<open>The modifier pipeline of \<open>send_modified\<close>, on its buffer.\<close>

(* [src/net/protocol/bits/bits_protocol.cpp:92-111 bits_protocol::send_modified] *)
definition modify_to_send :: "('c, 'm) env \<Rightarrow> 'm \<Rightarrow> rbuf \<Rightarrow> 'm bits_proto \<Rightarrow> (outcome \<times> rbuf \<times> 'm bits_proto) res" where
  "modify_to_send e mp buf p =
     bind_res
       (if enable_sequence (bp_cfg p) \<and> po_sequence (e_ops e) mp then
          bind_res (seq_on_send 0 (rb_size buf) (bp_sequencer p) buf) (\<lambda>(rc, s, b). Inr (rc, b, p\<lparr>bp_sequencer := s\<rparr>))
        else Inr ((True, success), buf, p))
       (\<lambda>(rc1, b1, p1). if \<not> fst rc1 then Inr (rc1, b1, p1) else
     bind_res
       (if enable_checksum (bp_cfg p1) \<and> po_checksum (e_ops e) mp then
          bind_res (checksum_on_send (e_botan e) header_length 0 (rb_size b1) b1) (\<lambda>(rc, b). Inr (rc, b, p1))
        else Inr ((True, success), b1, p1))
       (\<lambda>(rc2, b2, p2). if \<not> fst rc2 then Inr (rc2, b2, p2) else
       if enable_cipher (bp_cfg p2) \<and> po_cipher (e_ops e) mp then
         bind_res (cipher_on_send (e_botan e) header_length (bp_interval p2) 0 (rb_size b2) (bp_sender p2) b2)
           (\<lambda>(rc, ci, b). Inr (rc, b, p2\<lparr>bp_sender := ci\<rparr>))
       else Inr ((True, success), b2, p2)))"

definition wire_bytes :: "rbuf \<Rightarrow> byte list res" where
  "wire_bytes buf = rb_peek 0 (rb_size buf) buf"

(* [src/net/tcp/tcp_protocol.cpp:35-38 tcp_protocol::send] *)
definition tcp_protocol_send :: "outcome \<Rightarrow> byte list \<Rightarrow> 'm bits_proto \<Rightarrow> outcome \<times> 'm bits_proto" where
  "tcp_protocol_send rc bytes p = (rc, p\<lparr>bp_wire := bp_wire p @ [bytes]\<rparr>)"

(* [src/net/protocol/bits/bits_protocol.cpp:83-130 bits_protocol::send_modified] *)
definition send_modified :: "nat \<Rightarrow> outcome \<Rightarrow> ('c, 'm) env \<Rightarrow> 'm \<Rightarrow> rbuf \<Rightarrow> nat \<Rightarrow> 'm bits_proto \<Rightarrow> (outcome \<times> 'm bits_proto) res option" where
  "send_modified fuel rc e mp buf len p =
     (case modify_to_send e mp buf p of
        Inl f \<Rightarrow> Some (Inl f)
      | Inr (r, b, p1) \<Rightarrow>
          if \<not> fst r then Some (Inr (r, p1\<lparr>bp_mod_buf := b\<rparr>))
          else if enable_loopback (bp_cfg p1) then
            (case wire_bytes b of
               Inl f \<Rightarrow> Some (Inl f)
             | Inr bytes \<Rightarrow> on_recv fuel e (Some bytes) (p1\<lparr>bp_mod_buf := b\<rparr>))
          else Some (bind_res (if rb_size b > len then set_length (word_of_nat (rb_size b)) 0 b else Inr b)
            (\<lambda>b1. bind_res (wire_bytes b1) (\<lambda>bytes. Inr (tcp_protocol_send rc bytes (p1\<lparr>bp_mod_buf := b1\<rparr>))))))"

(* [src/net/protocol/bits/bits_protocol.cpp:57-81 bits_protocol::send_final] *)
definition send_final :: "nat \<Rightarrow> outcome \<Rightarrow> ('c, 'm) env \<Rightarrow> 'm \<Rightarrow> byte list \<Rightarrow> 'm bits_proto \<Rightarrow> (outcome \<times> 'm bits_proto) res option" where
  "send_final fuel rc e mp bytes p =
     (if \<not> needs_to_modify e mp p then
        if enable_loopback (bp_cfg p) then on_recv fuel e (Some bytes) p
        else Some (Inr (tcp_protocol_send rc bytes p))
      else case rb_rewind 0 (bp_mod_buf p) of
        Inl f \<Rightarrow> Some (Inl f)
      | Inr b0 \<Rightarrow>
          (case rb_append (Some bytes) b0 of
             Inl f \<Rightarrow> Some (Inl f)
           | Inr (_, b1) \<Rightarrow> send_modified fuel rc e mp b1 (length bytes) (p\<lparr>bp_mod_buf := b1\<rparr>)))"

(* [src/net/protocol/bits/bits_protocol.cpp:28-55 bits_protocol::send] *)
definition bits_send :: "nat \<Rightarrow> outcome \<Rightarrow> ('c, 'm) env \<Rightarrow> 'm option \<Rightarrow> 'm bits_proto \<Rightarrow> (outcome \<times> 'm bits_proto) res option" where
  "bits_send fuel rc e m p =
     (case m of
        None \<Rightarrow> Some (Inr ((False, fail_null_message_pointer), p))
      | Some mp \<Rightarrow>
          (case bind_res (rb_rewind 0 (bp_pack_buf p)) (bits_pack e mp) of
             Inl f \<Rightarrow> Some (Inl f)
           | Inr (r, b) \<Rightarrow>
               if \<not> fst r then Some (Inr (r, p\<lparr>bp_pack_buf := b\<rparr>))
               else (case wire_bytes b of
                       Inl f \<Rightarrow> Some (Inl f)
                     | Inr bytes \<Rightarrow> send_final fuel rc e mp bytes (p\<lparr>bp_pack_buf := b\<rparr>))))"

end
