(* ===== verification/Bits_Framing.thy ===== *)
theory Bits_Framing
  imports Bits_Protocol
begin

text \<open>
  Correctness of the receive loop of the bits protocol. The locale \<open>packet_class\<close> says what an
  application's packets provide: they are registered, their \<open>unpack\<close> reads back what their
  \<open>pack\<close> wrote, they fit the size limit and use no modifiers. Then a stream of packed packets,
  cut into pieces in any way, is published packet by packet in order. A length field below the
  header size, which the code only asserts, makes the loop run forever.
\<close>

section \<open>Framing\<close>

lemma length_field_bytes [simp]: "length (field_bytes k) = 4"
  by (simp add: field_bytes_def)

lemma field_word_Cons: "field_word [a, b, c, d] = ucast a OR push_bit 8 (ucast b) OR push_bit 16 (ucast c) OR push_bit 24 (ucast d)"
  by (simp add: field_word_def numeral_2_eq_2 numeral_3_eq_3)

lemma field_word_field_bytes [simp]: "field_word (field_bytes k) = k"
proof -
  have m: "(0xFF :: u32) = mask 8" by (simp add: mask_eq_exp_minus_1)
  show ?thesis
    unfolding field_bytes_def m field_word_Cons
  proof (rule bit_word_eqI, goal_cases)
    case (1 n)
    consider "n < 8" | "8 \<le> n" "n < 16" | "16 \<le> n" "n < 24" | "24 \<le> n" by linarith
    then show ?case using 1 by cases (auto simp: bit_simps)
  qed
qed

lemma get_length_at:
  assumes "rb_inv b" "rb_bytes b = pre @ field_bytes len @ rest"
  shows "get_length (length pre) b = Inr len" "get_topic (length pre) b = Inr len"
proof -
  have "rb_bytes b \<noteq> []" using assms(2) by (auto simp: field_bytes_def)
  then have "rb_peek (length pre) 4 b = Inr (field_bytes len)"
    using rb_peek_ok [OF assms(1), of "length pre" 4] assms(2) by simp
  then show "get_length (length pre) b = Inr len" "get_topic (length pre) b = Inr len"
    by (simp_all add: get_length_def get_topic_def)
qed

text \<open>The bytes of a packet without modifiers, and what its class has to provide.\<close>

definition frame :: "('m \<Rightarrow> byte list) \<Rightarrow> ('m \<Rightarrow> topic) \<Rightarrow> 'm \<Rightarrow> byte list" where
  "frame enc pic m = field_bytes (word_of_nat (8 + length (enc m))) @ field_bytes (pic m) @ enc m"

locale packet_class =
  fixes e :: "('c, 'm) env" and cfg :: bits_config and enc :: "'m \<Rightarrow> byte list" and ok :: "'m \<Rightarrow> bool"
  assumes created: "ok m \<Longrightarrow> \<exists>m0. factory_create (po_topic (e_ops e) m) (e_factory e) = Some m0 \<and>
            \<not> (enable_cipher cfg \<and> po_cipher (e_ops e) m0) \<and> \<not> (enable_checksum cfg \<and> po_checksum (e_ops e) m0) \<and>
            \<not> (enable_sequence cfg \<and> po_sequence (e_ops e) m0) \<and>
            (\<forall>p rest. usable p \<longrightarrow> pk_unread p = enc m @ rest \<longrightarrow>
               (\<exists>p'. po_unpack (e_ops e) m0 p = Inr (True, m, p') \<and> unpacked (length (enc m)) p p'))"
    and packs: "ok m \<Longrightarrow> usable p \<Longrightarrow> \<exists>p'. po_pack (e_ops e) m p = Inr (True, p') \<and> packed (enc m) p p'"
    and fits: "ok m \<Longrightarrow> 8 + length (enc m) \<le> max_packet_length cfg \<and> 8 + length (enc m) < 2 ^ 32"
begin

abbreviation fr :: "'m \<Rightarrow> byte list" where
  "fr \<equiv> frame enc (po_topic (e_ops e))"

lemma length_fr [simp]: "length (fr m) = 8 + length (enc m)"
  by (simp add: frame_def)

lemma unat_frame_length: "ok m \<Longrightarrow> unat (word_of_nat (8 + length (enc m)) :: u32) = 8 + length (enc m)"
proof -
  assume "ok m"
  with fits have "8 + length (enc m) < 2 ^ 32" by blast
  then show ?thesis by (simp only: unat_of_nat len_num1 len_bit0 len_num0) (simp add: take_bit_eq_mod)
qed

lemma recv_message_ok:
  assumes ok: "ok m" and cfg: "bp_cfg p = cfg" and inv: "rb_inv (bp_recv_buf p)"
    and bytes: "rb_bytes (bp_recv_buf p) = pre @ fr m @ post" and rpos: "rb_read_pos (bp_recv_buf p) = length pre"
  shows "\<exists>b. recv_message e (length pre) (length pre) (8 + length (enc m)) p = Inr (None, proto_publish m (p\<lparr>bp_recv_buf := b\<rparr>)) \<and>
           rb_inv b \<and> rb_bytes b = pre @ fr m @ post \<and> rb_read_pos b = length (pre @ fr m)"
proof -
  obtain m0 where m0: "factory_create (po_topic (e_ops e) m) (e_factory e) = Some m0"
    "\<not> (enable_cipher cfg \<and> po_cipher (e_ops e) m0)" "\<not> (enable_checksum cfg \<and> po_checksum (e_ops e) m0)"
    "\<not> (enable_sequence cfg \<and> po_sequence (e_ops e) m0)"
    and un: "\<And>p rest. usable p \<Longrightarrow> pk_unread p = enc m @ rest \<Longrightarrow>
               \<exists>p'. po_unpack (e_ops e) m0 p = Inr (True, m, p') \<and> unpacked (length (enc m)) p p'"
    using created [OF ok] by blast
  have t: "get_topic (length pre + 4) (bp_recv_buf p) = Inr (po_topic (e_ops e) m)"
    using get_length_at(2) [OF inv, of "pre @ field_bytes (word_of_nat (8 + length (enc m)))"] bytes by (simp add: frame_def)
  have rm: "recv_modified e m0 (length pre) (8 + length (enc m)) p = Inr ((True, success), 8 + length (enc m), p)"
    using m0 cfg by (auto simp: recv_modified_def)
  obtain b1 where b1: "rb_read 4 (bp_recv_buf p) = Inr (Some (take 4 (drop (length pre) (pre @ fr m @ post))), b1)"
    "rb_inv b1" "rb_bytes b1 = pre @ fr m @ post" "rb_read_pos b1 = length pre + 4"
    using rb.read_total [OF inv, of 4] bytes rpos by auto
  obtain b2 where b2: "rb_read 4 b1 = Inr (Some (take 4 (drop (length pre + 4) (pre @ fr m @ post))), b2)"
    "rb_inv b2" "rb_bytes b2 = pre @ fr m @ post" "rb_read_pos b2 = length pre + 8"
    using rb.read_total [OF b1(2), of 4] b1 by auto
  have "usable (mk_packer (e_host_le e) b2)" using b2(2) by (simp add: usable_def mk_packer_def)
  moreover have "pk_unread (mk_packer (e_host_le e) b2) = enc m @ post"
    using b2(3,4) by (simp add: mk_packer_def frame_def)
  ultimately obtain pk where pk: "po_unpack (e_ops e) m0 (mk_packer (e_host_le e) b2) = Inr (True, m, pk)"
    "unpacked (length (enc m)) (mk_packer (e_host_le e) b2) pk" using un by blast
  then have b3: "rb_inv (pk_buf pk)" "pk_bytes pk = pre @ fr m @ post" "pk_rpos pk = length pre + 8 + length (enc m)"
    using b2(3,4) by (simp_all add: unpacked_def usable_def mk_packer_def)
  then show ?thesis
    using t m0(1) rm b1(1) b2(1) pk(1) by (auto simp: recv_message_def Let_def rb_get_read_pos_def)
qed

text \<open>Bytes in which no further complete message starts.\<close>

definition incomplete :: "byte list \<Rightarrow> bool" where
  "incomplete rest \<longleftrightarrow> length rest < 8 \<or> (\<exists>m more. ok m \<and> more \<noteq> [] \<and> fr m = rest @ more)"

definition deliveries :: "string list \<Rightarrow> 'm list \<Rightarrow> (string \<times> 'm) list" where
  "deliveries chans ms = concat (map (\<lambda>m. map (\<lambda>key. (key, m)) chans) ms)"

lemma recv_loop_stops:
  assumes "incomplete rest" "bp_cfg p = cfg" "rb_inv (bp_recv_buf p)" "rb_bytes (bp_recv_buf p) = pre @ rest"
  shows "recv_loop (Suc k) e (length pre) n p = Some (Inr (None, n, p))"
proof (cases "length rest < 8")
  case True
  with assms show ?thesis by (simp add: rb_size_def header_length_def length_rb_bytes [symmetric])
next
  case False
  with assms(1) obtain m more where m: "ok m" "more \<noteq> []" "fr m = rest @ more" by (auto simp: incomplete_def)
  have len: "length rest < 8 + length (enc m)"
    using arg_cong [OF m(3), of length] m(2) by (cases more) auto
  have "take 4 (fr m) = field_bytes (word_of_nat (8 + length (enc m)))" by (simp add: frame_def)
  then have "take 4 rest = field_bytes (word_of_nat (8 + length (enc m)))" using m(3) False by simp
  then have "rb_bytes (bp_recv_buf p) = pre @ field_bytes (word_of_nat (8 + length (enc m))) @ drop 4 rest"
    using assms(4) by (metis append_take_drop_id)
  then have "get_length (length pre) (bp_recv_buf p) = Inr (word_of_nat (8 + length (enc m)))"
    by (rule get_length_at(1) [OF assms(3)])
  moreover have "rb_size (bp_recv_buf p) = length pre + length rest"
    using assms(3,4) by (simp add: rb_size_def length_rb_bytes [symmetric])
  ultimately show ?thesis
    using len False fits [OF m(1)] unat_frame_length [OF m(1)] assms(2)
    by (simp add: header_length_def Let_def del: of_nat_add)
qed

lemma recv_loop_ok:
  assumes "list_all ok ms" "incomplete rest" "bp_cfg p = cfg" "rb_inv (bp_recv_buf p)"
    and "rb_bytes (bp_recv_buf p) = pre @ concat (map fr ms) @ rest" "rb_read_pos (bp_recv_buf p) = length pre"
    and "length (rb_bytes (bp_recv_buf p)) < 2 ^ 64" "length ms < fuel"
  shows "\<exists>b. recv_loop fuel e (length pre) (length pre) p =
             Some (Inr (None, length (pre @ concat (map fr ms)),
               p\<lparr>bp_recv_buf := b, bp_published := bp_published p @ deliveries (bp_channels p) ms\<rparr>)) \<and>
           rb_inv b \<and> rb_bytes b = pre @ concat (map fr ms) @ rest \<and> rb_read_pos b = length (pre @ concat (map fr ms))"
  using assms
proof (induction ms arbitrary: p pre fuel)
  case Nil
  then obtain k where "fuel = Suc k" by (cases fuel) auto
  with Nil recv_loop_stops [of rest p pre k "length pre"] show ?case
    by (intro exI [of _ "bp_recv_buf p"]) (simp add: deliveries_def del: recv_loop.simps)
next
  case (Cons m ms)
  then obtain k where fuel: "fuel = Suc k" "length ms < k" by (cases fuel) auto
  let ?post = "concat (map fr ms) @ rest"
  have b: "rb_bytes (bp_recv_buf p) = pre @ fr m @ ?post" and ok: "ok m" using Cons.prems by simp_all
  obtain b1 where b1: "recv_message e (length pre) (length pre) (8 + length (enc m)) p =
      Inr (None, proto_publish m (p\<lparr>bp_recv_buf := b1\<rparr>))"
    "rb_inv b1" "rb_bytes b1 = pre @ fr m @ ?post" "rb_read_pos b1 = length (pre @ fr m)"
    using recv_message_ok [OF ok Cons.prems(3,4) b Cons.prems(6)] by blast
  let ?p = "proto_publish m (p\<lparr>bp_recv_buf := b1\<rparr>)"
  have "get_length (length pre) (bp_recv_buf p) = Inr (word_of_nat (8 + length (enc m)))"
    using get_length_at(1) [OF Cons.prems(4), of pre] b by (simp add: frame_def)
  moreover have "rb_size (bp_recv_buf p) = length pre + (8 + length (enc m)) + length ?post"
    using Cons.prems(4) b by (simp add: rb_size_def length_rb_bytes [symmetric])
  moreover have "(length pre + 8 + usub (8 + length (enc m)) header_length) mod 2 ^ 64 = length (pre @ fr m)"
    using Cons.prems(7) b by (simp add: header_length_def)
  ultimately have step: "recv_loop fuel e (length pre) (length pre) p = recv_loop k e (length (pre @ fr m)) (length (pre @ fr m)) ?p"
    using fits [OF ok] unat_frame_length [OF ok] Cons.prems(3) b1(1) fuel
    by (simp add: header_length_def Let_def del: of_nat_add)
  have "bp_recv_buf ?p = b1" "bp_cfg ?p = cfg" "bp_channels ?p = bp_channels p"
    "bp_published ?p = bp_published p @ map (\<lambda>key. (key, m)) (bp_channels p)"
    using Cons.prems(3) by (simp_all add: proto_publish_def)
  with Cons.IH [of ?p "pre @ fr m" k] Cons.prems b1 fuel step b show ?case
    by (auto simp: deliveries_def proto_publish_def)
qed

section \<open>Fragmentation\<close>

text \<open>One call of \<open>on_recv\<close>, with \<open>pending\<close> bytes left from earlier calls.\<close>

definition idle :: "byte list \<Rightarrow> 'm bits_proto \<Rightarrow> bool" where
  "idle pending p \<longleftrightarrow> bp_cfg p = cfg \<and> rb_inv (bp_recv_buf p) \<and> rb_bytes (bp_recv_buf p) = pending \<and> rb_read_pos (bp_recv_buf p) = 0"

lemma on_recv_ok:
  assumes "idle pending p" "chunk \<noteq> []" "pending @ chunk = concat (map fr ms) @ rest" "list_all ok ms" "incomplete rest"
    and "length (pending @ chunk) < 2 ^ 64" "length ms < fuel"
  shows "\<exists>p'. on_recv fuel e (Some chunk) p = Some (Inr ((True, success), p')) \<and> idle rest p' \<and>
           bp_channels p' = bp_channels p \<and> bp_published p' = bp_published p @ deliveries (bp_channels p) ms"
proof -
  obtain b where b: "rb_append (Some chunk) (bp_recv_buf p) = Inr (length chunk, b)" "rb_inv b" "rb_bytes b = pending @ chunk"
    "rb_read_pos b = 0" "rb_buf b \<noteq> None"
    using rb.append_law [of "bp_recv_buf p" chunk] assms(1,2) by (auto simp: idle_def)
  let ?p = "p\<lparr>bp_recv_buf := b\<rparr>"
  have bb: "rb_bytes (bp_recv_buf ?p) = [] @ concat (map fr ms) @ rest" using b(3) assms(3) by simp
  obtain b1 where b1: "recv_loop fuel e 0 0 ?p = Some (Inr (None, length (concat (map fr ms)),
      ?p\<lparr>bp_recv_buf := b1, bp_published := bp_published p @ deliveries (bp_channels p) ms\<rparr>))"
    "rb_inv b1" "rb_bytes b1 = concat (map fr ms) @ rest" "rb_read_pos b1 = length (concat (map fr ms))"
    using recv_loop_ok [OF assms(4,5) _ _ bb _ _ assms(7)] assms(1,3,6) b by (auto simp: idle_def)
  have ne: "rb_bytes b1 \<noteq> []" using b1(3) assms(2,3) by (metis Nil_is_append_conv)
  show ?thesis
  proof (cases "concat (map fr ms) = []")
    case True
    with b1 b assms show ?thesis by (auto simp: on_recv_def idle_def)
  next
    case False
    then have "0 < length (concat (map fr ms))" by blast
    with rb_pop_front_ok [OF b1(2) rb.ready_nonempty [OF b1(2) ne] this] b1(3,4) obtain b2
      where b2: "rb_pop_front (length (concat (map fr ms))) b1 = Inr b2" "rb_inv b2" "rb_bytes b2 = rest" "rb_read_pos b2 = 0"
      by (auto simp del: length_concat)
    with False b1(1) b(1) assms(1,2) show ?thesis by (auto simp: on_recv_def idle_def simp del: length_concat)
  qed
qed

lemma split_stream:
  assumes "s @ t = concat (map fr msgs)" "list_all ok msgs"
  shows "\<exists>k rest. s = concat (map fr (take k msgs)) @ rest \<and> rest @ t = concat (map fr (drop k msgs)) \<and> incomplete rest"
  using assms
proof (induction msgs arbitrary: s)
  case Nil
  then show ?case by (auto simp: incomplete_def)
next
  case (Cons m msgs)
  show ?case
  proof (cases "length (fr m) \<le> length s")
    case True
    then obtain s' where s': "s = fr m @ s'" "s' @ t = concat (map fr msgs)"
      using Cons.prems(1) by (auto simp: append_eq_append_conv_if split: if_splits) (metis append_take_drop_id)
    from Cons.IH [OF s'(2)] Cons.prems(2) obtain k rest where "s' = concat (map fr (take k msgs)) @ rest"
      "rest @ t = concat (map fr (drop k msgs))" "incomplete rest" by auto
    with s' show ?thesis by (intro exI [of _ "Suc k"]) auto
  next
    case False
    then obtain more where more: "fr m = s @ more" "more \<noteq> []"
      using Cons.prems(1) by (auto simp: append_eq_append_conv2) (metis append_Nil2 length_fr order_refl)
    with Cons.prems show ?thesis by (intro exI [of _ 0] exI [of _ s]) (auto simp: incomplete_def)
  qed
qed

end

text \<open>Feeding the pieces of a stream one after the other.\<close>

fun feed :: "nat \<Rightarrow> ('c, 'm) env \<Rightarrow> byte list list \<Rightarrow> 'm bits_proto \<Rightarrow> (outcome \<times> 'm bits_proto) res option" where
  "feed fuel e [] p = Some (Inr ((True, success), p))"
| "feed fuel e (c # cs) p =
     (case on_recv fuel e (Some c) p of
        Some (Inr ((True, r), p')) \<Rightarrow> feed fuel e cs p'
      | other \<Rightarrow> other)"

context packet_class
begin

lemma deliveries_append: "deliveries chans (ms @ ms') = deliveries chans ms @ deliveries chans ms'"
  by (simp add: deliveries_def)

lemma feed_ok:
  assumes "idle pending p" "list_all ok msgs" "pending @ concat chunks = concat (map fr msgs)" "\<forall>c \<in> set chunks. c \<noteq> []"
    and "incomplete pending" "length (concat (map fr msgs)) < 2 ^ 64" "length msgs < fuel"
  shows "\<exists>p'. feed fuel e chunks p = Some (Inr ((True, success), p')) \<and> idle [] p' \<and> bp_channels p' = bp_channels p \<and>
           bp_published p' = bp_published p @ deliveries (bp_channels p) msgs"
  using assms
proof (induction chunks arbitrary: p pending msgs)
  case Nil
  have "msgs = []"
  proof (cases msgs)
    case (Cons m ms)
    with Nil.prems have "pending = fr m @ concat (map fr ms)" by simp
    then have "8 \<le> length pending" by simp
    with Nil.prems(5) obtain m' more where m': "ok m'" "more \<noteq> []" "fr m' = pending @ more" by (auto simp: incomplete_def)
    have "take 4 (fr m') = take 4 (fr m)" using m'(3) \<open>pending = _\<close> by simp
    then have "field_bytes (word_of_nat (8 + length (enc m))) = field_bytes (word_of_nat (8 + length (enc m')))"
      by (simp add: frame_def del: of_nat_add)
    then have "(word_of_nat (8 + length (enc m)) :: u32) = word_of_nat (8 + length (enc m'))"
      by (metis field_word_field_bytes)
    then have "length (enc m) = length (enc m')"
      using unat_frame_length [of m] unat_frame_length [OF m'(1)] Nil.prems(2) Cons
      by (metis add_left_cancel list.pred_inject(2))
    with arg_cong [OF m'(3), of length] \<open>pending = _\<close> m'(2) show ?thesis by simp
  qed simp
  with Nil show ?case by (auto simp: deliveries_def)
next
  case (Cons c cs)
  have "(pending @ c) @ concat cs = concat (map fr msgs)" using Cons.prems(3) by simp
  from split_stream [OF this Cons.prems(2)] obtain k rest where s: "pending @ c = concat (map fr (take k msgs)) @ rest"
    "rest @ concat cs = concat (map fr (drop k msgs))" "incomplete rest" by blast
  have l: "list_all ok (take k msgs)" "list_all ok (drop k msgs)"
    using Cons.prems(2) by (auto simp: list_all_iff dest: in_set_takeD in_set_dropD)
  have "length (pending @ c) \<le> length (concat (map fr msgs))"
    using arg_cong [OF Cons.prems(3), of length] by (simp del: length_concat) 
  moreover have "length (take k msgs) < fuel" using Cons.prems(7) by simp
  ultimately obtain p1 where p1: "on_recv fuel e (Some c) p = Some (Inr ((True, success), p1))" "idle rest p1"
    "bp_channels p1 = bp_channels p" "bp_published p1 = bp_published p @ deliveries (bp_channels p) (take k msgs)"
    using on_recv_ok [OF Cons.prems(1) _ s(1) l(1) s(3), of fuel] Cons.prems(4,6,7) by auto
  have "length (concat (map fr (drop k msgs))) \<le> length (concat (map fr msgs))"
    by (metis append_take_drop_id concat_append length_append le_add2 map_append)
  moreover have "length (drop k msgs) < fuel" using Cons.prems(7) by simp
  ultimately obtain p2 where p2: "feed fuel e cs p1 = Some (Inr ((True, success), p2))" "idle [] p2" "bp_channels p2 = bp_channels p"
    "bp_published p2 = bp_published p1 @ deliveries (bp_channels p) (drop k msgs)"
    using Cons.IH [OF p1(2) l(2) s(2) _ s(3)] Cons.prems(4,6,7) p1(3) by auto
  have "deliveries (bp_channels p) msgs = deliveries (bp_channels p) (take k msgs) @ deliveries (bp_channels p) (drop k msgs)"
    by (metis append_take_drop_id deliveries_append)
  with p1 p2 show ?case by auto
qed

end

section \<open>Sending a frame\<close>

context packet_class
begin

lemma bits_pack_ok:
  assumes "ok m" "rb_inv b" "rb_bytes b = []"
  shows "\<exists>b'. bits_pack e m b = Inr ((True, success), b') \<and> rb_inv b' \<and> rb_bytes b' = fr m \<and> rb_read_pos b' = rb_read_pos b"
proof -
  let ?pad = "host_image (e_host_le e) (0xCAFEABBA :: u32)"
  have len: "length ?pad = 4" by (simp add: host_image_def sizeof_def)
  obtain b1 where b1: "rb_append (Some ?pad) b = Inr (4, b1)" "rb_inv b1" "rb_bytes b1 = ?pad" "rb_read_pos b1 = rb_read_pos b"
    using rb.append_total [OF assms(2), of ?pad] assms(3) len by auto
  obtain b2 where b2: "rb_append (Some ?pad) b1 = Inr (4, b2)" "rb_inv b2" "rb_bytes b2 = ?pad @ ?pad" "rb_read_pos b2 = rb_read_pos b"
    using rb.append_total [OF b1(2), of ?pad] b1 len by auto
  have "usable (mk_packer (e_host_le e) b2)" using b2(2) by (simp add: usable_def mk_packer_def)
  from packs [OF assms(1) this] obtain pk where pk: "po_pack (e_ops e) m (mk_packer (e_host_le e) b2) = Inr (True, pk)"
    "packed (enc m) (mk_packer (e_host_le e) b2) pk" by blast
  then have k: "rb_inv (pk_buf pk)" "pk_bytes pk = ?pad @ ?pad @ enc m" "pk_rpos pk = rb_read_pos b"
    using b2 by (simp_all add: packed_def usable_def mk_packer_def)
  have sz: "rb_size (pk_buf pk) = 8 + length (enc m)" using k(1,2) len by (simp add: rb_size_def length_rb_bytes [symmetric])
  have ne: "pk_bytes pk \<noteq> []" using k(2) len by auto
  let ?l = "field_bytes (word_of_nat (8 + length (enc m)))"
  have "0 + length ?l \<le> length (pk_bytes pk)" using k(2) len by simp
  from rb_poke_ok [OF k(1) this ne] obtain b3 where b3: "set_length (word_of_nat (8 + length (enc m))) 0 (pk_buf pk) = Inr b3"
    "rb_inv b3" "rb_bytes b3 = ?l @ ?pad @ enc m" "rb_read_pos b3 = rb_read_pos b"
    using k len splice_at_prefix [of "[]" 0 ?l "?pad @ ?pad @ enc m"] by (auto simp: set_length_def)
  have ne3: "rb_bytes b3 \<noteq> []" using b3(3) len by auto
  have "4 + length (field_bytes (po_topic (e_ops e) m)) \<le> length (rb_bytes b3)" using b3(3) len by simp
  from rb_poke_ok [OF b3(2) this ne3] obtain b4 where b4: "set_topic (po_topic (e_ops e) m) 4 b3 = Inr b4"
    "rb_inv b4" "rb_bytes b4 = fr m" "rb_read_pos b4 = rb_read_pos b"
    using b3 len splice_at_prefix [of ?l 4 "field_bytes (po_topic (e_ops e) m)" "?pad @ enc m"]
    by (auto simp: set_topic_def frame_def)
  have "bits_pack e m b = Inr ((True, success), b4)"
    using b1(1) b2(1) pk(1) sz b3(1) b4(1) by (simp add: bits_pack_def Let_def del: of_nat_add)
  with b4 show ?thesis by blast
qed

end

section \<open>The modifier pipeline\<close>

text \<open>What is on after a modifier: the same flags decide at the sender and at the receiver.\<close>

abbreviation seq_on :: "('c, 'm) env \<Rightarrow> 'm \<Rightarrow> bits_config \<Rightarrow> bool" where
  "seq_on e m c \<equiv> enable_sequence c \<and> po_sequence (e_ops e) m"

abbreviation crc_on :: "('c, 'm) env \<Rightarrow> 'm \<Rightarrow> bits_config \<Rightarrow> bool" where
  "crc_on e m c \<equiv> enable_checksum c \<and> po_checksum (e_ops e) m"

abbreviation aes_on :: "('c, 'm) env \<Rightarrow> 'm \<Rightarrow> bits_config \<Rightarrow> bool" where
  "aes_on e m c \<equiv> enable_cipher c \<and> po_cipher (e_ops e) m"

text \<open>The payload after the sequence byte, the checksum and the encryption.\<close>

definition with_seq :: "('c, 'm) env \<Rightarrow> 'm \<Rightarrow> bits_config \<Rightarrow> byte \<Rightarrow> byte list \<Rightarrow> byte list" where
  "with_seq e m c s pay = (if seq_on e m c then pay @ [s] else pay)"

definition with_crc :: "('c, 'm) env \<Rightarrow> 'm \<Rightarrow> bits_config \<Rightarrow> byte list \<Rightarrow> byte list" where
  "with_crc e m c pay = (if crc_on e m c \<and> pay \<noteq> [] then pay @ the (bt_crc32 (e_botan e)) pay else pay)"

definition with_aes :: "('c, 'm) env \<Rightarrow> 'm \<Rightarrow> bits_config \<Rightarrow> cipher_impl \<Rightarrow> byte list \<Rightarrow> byte list" where
  "with_aes e m c ci pay = (if aes_on e m c \<and> pay \<noteq> [] then aes_image (e_botan e) (ci_key ci) (ci_nonce ci) pay else pay)"

definition next_seq :: "('c, 'm) env \<Rightarrow> 'm \<Rightarrow> bits_config \<Rightarrow> byte \<Rightarrow> byte" where
  "next_seq e m c s = (if seq_on e m c then s + 1 else s)"

definition next_aes :: "('c, 'm) env \<Rightarrow> 'm \<Rightarrow> bits_config \<Rightarrow> nat \<Rightarrow> byte list \<Rightarrow> cipher_impl \<Rightarrow> cipher_impl" where
  "next_aes e m c interval pay ci = (if aes_on e m c \<and> pay \<noteq> [] then next_impl (e_botan e) interval pay ci else ci)"

definition wrapped :: "('c, 'm) env \<Rightarrow> 'm \<Rightarrow> bits_config \<Rightarrow> byte \<Rightarrow> cipher_impl \<Rightarrow> byte list \<Rightarrow> byte list" where
  "wrapped e m c s ci pay = with_aes e m c ci (with_crc e m c (with_seq e m c s pay))"

lemma modify_to_send_ok:
  fixes e :: "('c, 'm) env" and m :: 'm and pay :: "byte list"
  assumes "botan_ok (e_botan e)" "bt_crc32 (e_botan e) \<noteq> None" "bp_interval p > 0" "impl_ok (bp_sender p)"
    and "rb_inv b" "rb_bytes b = h @ pay" "length h = 8"
  defines "c \<equiv> bp_cfg p"
  defines "pay1 \<equiv> with_crc e m c (with_seq e m c (send_seq (bp_sequencer p)) pay)"
  shows "\<exists>b' h'. modify_to_send e m b p = Inr ((True, success), b',
             p\<lparr>bp_sequencer := (bp_sequencer p)\<lparr>send_seq := next_seq e m c (send_seq (bp_sequencer p))\<rparr>,
               bp_sender := next_aes e m c (bp_interval p) pay1 (bp_sender p)\<rparr>) \<and>
           rb_inv b' \<and> same_topic h h' \<and> rb_read_pos b' = rb_read_pos b \<and>
           rb_bytes b' = h' @ wrapped e m c (send_seq (bp_sequencer p)) (bp_sender p) pay"
proof -
  define s where "s = send_seq (bp_sequencer p)"
  define p1 where "p1 = p\<lparr>bp_sequencer := (bp_sequencer p)\<lparr>send_seq := next_seq e m c s\<rparr>\<rparr>"
  have sz: "rb_size b = length h + length pay" if "rb_inv b" "rb_bytes b = h @ pay" for b h pay
    using that by (simp add: rb_size_def length_rb_bytes [symmetric])
  obtain b1 h1 where b1: "(if seq_on e m c then
        bind_res (seq_on_send 0 (rb_size b) (bp_sequencer p) b) (\<lambda>(rc, s, b). Inr (rc, b, p\<lparr>bp_sequencer := s\<rparr>))
      else Inr ((True, success), b, p)) = Inr ((True, success), b1, p1)"
    "rb_inv b1" "rb_bytes b1 = h1 @ with_seq e m c s pay" "same_topic h h1" "rb_read_pos b1 = rb_read_pos b"
  proof (cases "seq_on e m c")
    case True
    from seq_send_ok [OF assms(5-7), of "bp_sequencer p"] obtain r' h' where
      "seq_on_send 0 (8 + length pay) (bp_sequencer p) b = Inr ((True, success), (bp_sequencer p)\<lparr>send_seq := s + 1\<rparr>, r')"
      "rb_inv r'" "rb_bytes r' = h' @ pay @ [s]" "same_topic h h'" "rb_read_pos r' = rb_read_pos b" by (auto simp: s_def)
    with that [of r' h'] True sz [OF assms(5,6)] assms(7) show thesis
      by (simp add: p1_def next_seq_def with_seq_def)
  next
    case False
    with that [of b h] assms(5-7) show thesis
      by (auto simp: p1_def next_seq_def s_def with_seq_def same_topic_refl)
  qed
  let ?pay = "with_seq e m c s pay"
  have h1: "length h1 = 8" using b1(4) by (simp add: same_topic_def)
  obtain b2 h2 where b2: "(if crc_on e m c then
        bind_res (checksum_on_send (e_botan e) header_length 0 (rb_size b1) b1) (\<lambda>(rc, b). Inr (rc, b, p1))
      else Inr ((True, success), b1, p1)) = Inr ((True, success), b2, p1)"
    "rb_inv b2" "rb_bytes b2 = h2 @ with_crc e m c ?pay" "same_topic h h2" "rb_read_pos b2 = rb_read_pos b"
  proof (cases "crc_on e m c \<and> ?pay \<noteq> []")
    case True
    with assms(2) obtain crc where crc: "bt_crc32 (e_botan e) = Some crc" by auto
    from checksum_send_ok [OF assms(1) crc b1(2,3) h1] True obtain r' h' where
      "checksum_on_send (e_botan e) 8 0 (8 + length ?pay) b1 = Inr ((True, success), r')" "rb_inv r'"
      "rb_bytes r' = h' @ ?pay @ crc ?pay" "same_topic h1 h'" "rb_read_pos r' = rb_read_pos b1" by auto
    with that [of r' h'] True crc b1(4,5) sz [OF b1(2,3)] h1 show thesis
      by (auto simp: header_length_def with_crc_def intro: same_topic_trans)
  next
    case False
    with that [of b1 h1] b1 h1 sz [OF b1(2,3)] show thesis
      by (auto simp: checksum_on_send_def header_length_def with_crc_def)
  qed
  have pay1: "with_crc e m c ?pay = pay1" by (simp add: pay1_def s_def)
  have h2: "length h2 = 8" using b2(4) by (simp add: same_topic_def)
  have sp: "bp_sender p1 = bp_sender p" "bp_interval p1 = bp_interval p" "bp_cfg p1 = c" by (simp_all add: p1_def c_def)
  obtain b3 h3 where b3: "(if aes_on e m c then
        bind_res (cipher_on_send (e_botan e) header_length (bp_interval p) 0 (rb_size b2) (bp_sender p) b2)
           (\<lambda>(rc, ci, b). Inr (rc, b, p1\<lparr>bp_sender := ci\<rparr>))
      else Inr ((True, success), b2, p1)) =
      Inr ((True, success), b3, p1\<lparr>bp_sender := next_aes e m c (bp_interval p) pay1 (bp_sender p)\<rparr>)"
    "rb_inv b3" "rb_bytes b3 = h3 @ with_aes e m c (bp_sender p) pay1" "same_topic h h3" "rb_read_pos b3 = rb_read_pos b"
  proof (cases "aes_on e m c \<and> pay1 \<noteq> []")
    case True
    from cipher_send_ok [OF assms(1,3,4) b2(2) _ h2, of pay1] b2(3) True pay1 obtain r' h' where
      "cipher_on_send (e_botan e) 8 (bp_interval p) 0 (8 + length pay1) (bp_sender p) b2 =
        Inr ((True, success), next_impl (e_botan e) (bp_interval p) pay1 (bp_sender p), r')" "rb_inv r'"
      "rb_bytes r' = h' @ aes_image (e_botan e) (ci_key (bp_sender p)) (ci_nonce (bp_sender p)) pay1"
      "same_topic h2 h'" "rb_read_pos r' = rb_read_pos b2" by auto
    with that [of r' h'] True b2(4,5) sz [OF b2(2,3)] h2 pay1 show thesis
      by (auto simp: header_length_def with_aes_def next_aes_def intro: same_topic_trans)
  next
    case False
    with that [of b2 h2] b2 h2 sz [OF b2(2,3)] pay1 sp show thesis
      by (auto simp: cipher_on_send_def header_length_def with_aes_def next_aes_def p1_def)
  qed
  have "modify_to_send e m b p = Inr ((True, success), b3, p1\<lparr>bp_sender := next_aes e m c (bp_interval p) pay1 (bp_sender p)\<rparr>)"
    unfolding modify_to_send_def
    by (simp only: c_def [symmetric] b1(1) bind_res_simps prod.case fst_conv not_True_eq_False if_False sp b2(1) b3(1))
  with b3 pay1 show ?thesis by (auto simp: p1_def s_def wrapped_def c_def)
qed

lemma recv_modified_ok:
  fixes e :: "('c, 'm) env" and m :: 'm and pay :: "byte list"
  assumes "botan_ok (e_botan e)" "bt_crc32 (e_botan e) \<noteq> None" "bp_interval p > 0" "impl_ok (bp_receiver p)"
    and "rb_inv (bp_recv_buf p)" "length h = 8"
  defines "c \<equiv> bp_cfg p" and "s \<equiv> recv_seq (bp_sequencer p)"
  defines "pay1 \<equiv> with_crc e m c (with_seq e m c s pay)" and "wr \<equiv> wrapped e m c s (bp_receiver p) pay"
  assumes bytes: "rb_bytes (bp_recv_buf p) = pre @ h @ wr @ post"
  shows "\<exists>b junk. recv_modified e m (length pre) (8 + length wr) p = Inr ((True, success), 8 + length pay,
             p\<lparr>bp_receiver := next_aes e m c (bp_interval p) pay1 (bp_receiver p), bp_recv_buf := b,
               bp_sequencer := (bp_sequencer p)\<lparr>recv_seq := next_seq e m c s\<rparr>\<rparr>) \<and>
           rb_inv b \<and> rb_bytes b = pre @ h @ pay @ junk @ post \<and> length pay + length junk = length wr \<and>
           rb_read_pos b = rb_read_pos (bp_recv_buf p)"
proof -
  let ?pay = "with_seq e m c s pay"
  obtain b1 j1 p1 where b1: "(if aes_on e m c then
        bind_res (cipher_on_recv (e_botan e) header_length (bp_interval p) (length pre) (8 + length wr) (bp_receiver p) (bp_recv_buf p))
          (\<lambda>(rc, n, ci, b). Inr (rc, n, p\<lparr>bp_receiver := ci, bp_recv_buf := b\<rparr>))
      else Inr ((True, success), 8 + length wr, p)) = Inr ((True, success), 8 + length pay1, p1)"
    "rb_inv b1" "rb_bytes b1 = pre @ h @ pay1 @ j1 @ post" "length pay1 + length j1 = length wr"
    "rb_read_pos b1 = rb_read_pos (bp_recv_buf p)"
    "p1 = p\<lparr>bp_receiver := next_aes e m c (bp_interval p) pay1 (bp_receiver p), bp_recv_buf := b1\<rparr>"
  proof (cases "aes_on e m c \<and> pay1 \<noteq> []")
    case True
    then have wr: "wr = aes_image (e_botan e) (ci_key (bp_receiver p)) (ci_nonce (bp_receiver p)) pay1"
      by (simp add: wr_def wrapped_def with_aes_def pay1_def)
    have pne: "pay1 \<noteq> []" using True by blast
    from cipher_recv_ok [OF assms(1,3-6) pne bytes [unfolded wr]] obtain r' junk where
      "cipher_on_recv (e_botan e) 8 (bp_interval p) (length pre) (8 + length wr) (bp_receiver p) (bp_recv_buf p) =
         Inr ((True, success), 8 + length pay1, next_impl (e_botan e) (bp_interval p) pay1 (bp_receiver p), r')"
      "rb_inv r'" "rb_bytes r' = pre @ h @ pay1 @ junk @ post" "length pay1 + length junk = length wr"
      "rb_read_pos r' = rb_read_pos (bp_recv_buf p)" by (auto simp: wr)
    with that [of _ r' junk] True show thesis by (simp add: header_length_def next_aes_def)
  next
    case False
    then have wr: "wr = pay1" by (auto simp: wr_def wrapped_def with_aes_def pay1_def)
    with False that [of p "bp_recv_buf p" "[]"] bytes assms(5) show thesis
      by (auto simp: cipher_on_recv_def header_length_def next_aes_def)
  qed
  have cf: "bp_cfg p1 = c" "bp_recv_buf p1 = b1" "bp_sequencer p1 = bp_sequencer p" by (simp_all add: b1(6) c_def)
  obtain j2 where b2: "(if crc_on e m c then
        bind_res (checksum_on_recv (e_botan e) header_length (length pre) (8 + length pay1) b1) (\<lambda>(rc, n). Inr (rc, n, p1))
      else Inr ((True, success), 8 + length pay1, p1)) = Inr ((True, success), 8 + length ?pay, p1)"
    "rb_bytes b1 = pre @ h @ ?pay @ j2 @ post" "length ?pay + length j2 = length wr"
  proof (cases "crc_on e m c \<and> ?pay \<noteq> []")
    case True
    with assms(2) obtain crc where crc: "bt_crc32 (e_botan e) = Some crc" by auto
    then have p1: "pay1 = ?pay @ crc ?pay" using True by (simp add: pay1_def with_crc_def)
    have "length (crc ?pay) = 4" using assms(1) crc by (simp add: botan_ok_def)
    moreover have "rb_bytes b1 = pre @ h @ ?pay @ crc ?pay @ (j1 @ post)" using b1(3) p1 by simp
    ultimately have "checksum_on_recv (e_botan e) 8 (length pre) (8 + length pay1) b1 = Inr ((True, success), 8 + length ?pay)"
      using checksum_recv_ok [OF assms(1) crc b1(2) assms(6), of pre ?pay "crc ?pay" "j1 @ post"] True p1 by simp
    with that [of "crc ?pay @ j1"] True b1(3,4) p1 show thesis by (simp add: header_length_def)
  next
    case False
    then have p1: "pay1 = ?pay" by (auto simp: pay1_def with_crc_def)
    with False that [of j1] b1(3,4) show thesis by (auto simp: checksum_on_recv_def header_length_def)
  qed
  obtain j3 where b3: "(if seq_on e m c then
        bind_res (seq_on_recv (length pre) (8 + length ?pay) (bp_sequencer p) b1) (\<lambda>(rc, n, s). Inr (rc, n, p1\<lparr>bp_sequencer := s\<rparr>))
      else Inr ((True, success), 8 + length ?pay, p1)) =
      Inr ((True, success), 8 + length pay, p1\<lparr>bp_sequencer := (bp_sequencer p)\<lparr>recv_seq := next_seq e m c s\<rparr>\<rparr>)"
    "rb_bytes b1 = pre @ h @ pay @ j3 @ post" "length pay + length j3 = length wr"
  proof (cases "seq_on e m c")
    case True
    then have p1: "?pay = pay @ [s]" by (simp add: with_seq_def)
    then have "seq_on_recv (length pre) (8 + length ?pay) (bp_sequencer p) b1 =
        Inr ((True, success), 8 + length pay, (bp_sequencer p)\<lparr>recv_seq := s + 1\<rparr>)"
      using seq_recv_ok [OF b1(2), of pre "h @ pay" s "j2 @ post" "bp_sequencer p"] b2(2) assms(6) by (simp add: s_def)
    with that [of "s # j2"] True b2(2,3) p1 show thesis by (simp add: next_seq_def)
  next
    case False
    with that [of j2] b2(2,3) show thesis by (auto simp: with_seq_def next_seq_def s_def cf(3) [symmetric])
  qed
  have "recv_modified e m (length pre) (8 + length wr) p =
      Inr ((True, success), 8 + length pay, p1\<lparr>bp_sequencer := (bp_sequencer p)\<lparr>recv_seq := next_seq e m c s\<rparr>\<rparr>)"
    unfolding recv_modified_def
    by (simp only: c_def [symmetric] b1(1) bind_res_simps prod.case fst_conv not_True_eq_False if_False cf b2(1) b3(1))
  with b1(2,5,6) b3(2,3) show ?thesis by auto
qed

section \<open>Properties\<close>

text \<open>The receiver's counters and keys agree with the sender's.\<close>

definition in_sync :: "'m bits_proto \<Rightarrow> 'm bits_proto \<Rightarrow> bool" where
  "in_sync p q \<longleftrightarrow> bp_cfg q = bp_cfg p \<and> bp_interval q = bp_interval p \<and>
     recv_seq (bp_sequencer q) = send_seq (bp_sequencer p) \<and> bp_receiver q = bp_sender p"

text \<open>
  C2. The modifiers undo each other: what \<open>send_modified\<close>'s pipeline (sequence byte, checksum,
  encryption, each as configured for the packet) makes of a message, \<open>recv_modified\<close> accepts
  at any position of a receive buffer, with other bytes before and after it, and turns back into the
  original topic and payload with the original length; afterwards sender and
  receiver agree again on sequence number, key, nonce and hash, so the next message works too.
\<close>

theorem modifiers_round_trip:
  assumes "botan_ok (e_botan e)" "bt_crc32 (e_botan e) \<noteq> None" "bp_interval p > 0" "impl_ok (bp_sender p)" "in_sync p q"
    and "rb_inv b" "rb_bytes b = h @ pay" "length h = 8"
  shows "\<exists>b' p'. modify_to_send e m b p = Inr ((True, success), b', p') \<and> impl_ok (bp_sender p') \<and>
           (\<forall>r pre post. rb_inv r \<longrightarrow> rb_bytes r = pre @ rb_bytes b' @ post \<longrightarrow>
              (\<exists>q' h' junk. recv_modified e m (length pre) (length (rb_bytes b')) (q\<lparr>bp_recv_buf := r\<rparr>) =
                   Inr ((True, success), length (h @ pay), q') \<and>
                 rb_bytes (bp_recv_buf q') = pre @ h' @ pay @ junk @ post \<and> length h' = 8 \<and> drop 4 h' = drop 4 h \<and> in_sync p' q'))"
proof -
  let ?c = "bp_cfg p" and ?s = "send_seq (bp_sequencer p)"
  let ?pay1 = "with_crc e m ?c (with_seq e m ?c ?s pay)" and ?wr = "wrapped e m ?c ?s (bp_sender p) pay"
  obtain b' h' where b': "modify_to_send e m b p = Inr ((True, success), b',
      p\<lparr>bp_sequencer := (bp_sequencer p)\<lparr>send_seq := next_seq e m ?c ?s\<rparr>,
        bp_sender := next_aes e m ?c (bp_interval p) ?pay1 (bp_sender p)\<rparr>)"
    "rb_inv b'" "same_topic h h'" "rb_bytes b' = h' @ ?wr"
    using modify_to_send_ok [OF assms(1-4,6-8), of m] by auto
  have ok: "impl_ok (next_aes e m ?c (bp_interval p) ?pay1 (bp_sender p))"
    using assms(1,4) by (simp add: next_aes_def next_impl_ok)
  have sy: "bp_cfg q = ?c" "bp_interval q = bp_interval p" "recv_seq (bp_sequencer q) = ?s" "bp_receiver q = bp_sender p"
    using assms(5) by (simp_all add: in_sync_def)
  have h': "length h' = 8" "drop 4 h' = drop 4 h" using b'(3) by (simp_all add: same_topic_def)
  have "\<exists>q' h' junk. recv_modified e m (length pre) (length (rb_bytes b')) (q\<lparr>bp_recv_buf := r\<rparr>) =
       Inr ((True, success), length (h @ pay), q') \<and> rb_bytes (bp_recv_buf q') = pre @ h' @ pay @ junk @ post \<and>
       length h' = 8 \<and> drop 4 h' = drop 4 h \<and>
       in_sync (p\<lparr>bp_sequencer := (bp_sequencer p)\<lparr>send_seq := next_seq e m ?c ?s\<rparr>,
         bp_sender := next_aes e m ?c (bp_interval p) ?pay1 (bp_sender p)\<rparr>) q'"
    if r: "rb_inv r" "rb_bytes r = pre @ rb_bytes b' @ post" for r pre post
    using recv_modified_ok [of e "q\<lparr>bp_recv_buf := r\<rparr>" h pre m pay post] assms(1-4,8) r b'(4) h' sy
      recv_modified_ok [of e "q\<lparr>bp_recv_buf := r\<rparr>" h' pre m pay post]
    by (fastforce simp: in_sync_def)
  with b'(1) ok show ?thesis by (intro exI conjI) auto
qed

text \<open>
  A stand-in for Botan for concrete runs: a constant checksum and hash, and a cipher mode that
  only pads the last block.
\<close>

definition pkcs_pad :: "byte list \<Rightarrow> byte list" where
  "pkcs_pad bs = bs @ replicate (16 - length bs) (word_of_nat (16 - length bs))"

definition pkcs_unpad :: "byte list \<Rightarrow> byte list" where
  "pkcs_unpad bs = take (16 - unat (last bs)) bs"

definition plain_mode :: "bool \<Rightarrow> unit cipher_mode" where
  "plain_mode encrypting =
     \<lparr>cm_start = (\<lambda>k n. ()), cm_process = (\<lambda>bs c. Inr (bs, ())),
      cm_finish = (\<lambda>bs c. Inr (if encrypting then pkcs_pad bs else pkcs_unpad bs))\<rparr>"

definition plain_botan :: "unit botan" where
  "plain_botan = \<lparr>bt_crc32 = Some (\<lambda>bs. [1, 2, 3, 4]), bt_sha1 = (\<lambda>bs. replicate 20 7),
     bt_encrypt = plain_mode True, bt_decrypt = plain_mode False\<rparr>"

lemma pkcs_ok:
  assumes "length F < 16"
  shows "length (pkcs_pad F) = 16" "pkcs_unpad (pkcs_pad F) = F"
proof -
  show "length (pkcs_pad F) = 16" using assms by (simp add: pkcs_pad_def)
  have "16 - length F \<noteq> 0" using assms by simp
  then have "last (pkcs_pad F) = word_of_nat (16 - length F)" by (simp add: pkcs_pad_def)
  moreover have "unat (word_of_nat (16 - length F) :: byte) = 16 - length F"
    by (simp only: unat_of_nat len_num1 len_bit0 len_num0) (simp add: take_bit_eq_mod)
  moreover have "16 - (16 - length F) = length F" using assms by simp
  ultimately show "pkcs_unpad (pkcs_pad F) = F" by (simp only: pkcs_unpad_def) (simp add: pkcs_pad_def)
qed

lemma plain_botan_ok: "botan_ok plain_botan" "bt_crc32 plain_botan \<noteq> None"
  unfolding botan_ok_def by (auto simp: plain_botan_def plain_mode_def pkcs_ok)

definition all_on :: bits_config where
  "all_on = \<lparr>enable_cipher = True, enable_checksum = True, enable_sequence = True, enable_loopback = False,
     max_packet_length = 512 * 1024\<rparr>"

definition flagged_ops :: "nat packet_ops" where
  "flagged_ops = \<lparr>po_pack = bits_packet_pack, po_unpack = bits_packet_unpack, po_topic = word_of_nat,
     po_sequence = (\<lambda>m. True), po_checksum = (\<lambda>m. True), po_cipher = (\<lambda>m. True)\<rparr>"

definition small_buf :: rbuf where
  "small_buf = mk_rbuf 64 (mk_multi_pool (\<lambda>_ _. 0))"

lemma small_buf_ok: "rb_inv small_buf" "rb_bytes small_buf = []" "rb_read_pos small_buf = 0"
  using mk_rbuf_ok [OF mk_multi_pool_inv] by (simp_all add: small_buf_def) (simp add: mk_rbuf_def)

definition loaded :: "byte list \<Rightarrow> rbuf" where
  "loaded bs = snd (projr (rb_append (Some bs) small_buf))"

lemma loaded_ok: "rb_inv (loaded bs)" "rb_bytes (loaded bs) = bs" "rb_read_pos (loaded bs) = 0"
  using rb.append_total [OF small_buf_ok(1), of bs] by (auto simp: loaded_def small_buf_ok)

definition fresh_proto :: "bits_config \<Rightarrow> 'm bits_proto" where
  "fresh_proto c = (mk_bits_proto c 1024 (mk_multi_pool (\<lambda>_ _. 0)) small_buf small_buf)\<lparr>bp_recv_buf := small_buf\<rparr>"

definition flagged_env :: "(unit, nat) env" where
  "flagged_env = \<lparr>e_botan = plain_botan, e_ops = flagged_ops, e_factory = Map.empty, e_host_le = True\<rparr>"

text \<open>The witness: a twelve-byte message with all three modifiers on, received at offset 2 before another byte.\<close>

lemma modifiers_round_trip_witness:
  "\<exists>b' p'. modify_to_send flagged_env 5 (loaded [12, 0, 0, 0, 5, 0, 0, 0, 97, 98, 99, 100]) (fresh_proto all_on) =
       Inr ((True, success), b', p') \<and>
     (\<exists>q' h' junk. recv_modified flagged_env 5 2 (length (rb_bytes b'))
           ((fresh_proto all_on)\<lparr>bp_recv_buf := loaded ([9, 9] @ rb_bytes b' @ [7])\<rparr>) = Inr ((True, success), 12, q') \<and>
         rb_bytes (bp_recv_buf q') = [9, 9] @ h' @ [97, 98, 99, 100] @ junk @ [7])"
proof -
  let ?p = "fresh_proto all_on"
  have p: "bp_interval ?p > 0" "impl_ok (bp_sender ?p)" "in_sync ?p ?p"
    by (simp_all add: fresh_proto_def mk_bits_proto_def mk_cipher_impl_ok in_sync_def mk_sequencer_def)
  have b: "botan_ok (e_botan flagged_env)" "bt_crc32 (e_botan flagged_env) \<noteq> None"
    using plain_botan_ok by (simp_all add: flagged_env_def)
  have bytes: "rb_bytes (loaded [12, 0, 0, 0, 5, 0, 0, 0, 97, 98, 99, 100]) = [12, 0, 0, 0, 5, 0, 0, 0] @ [97, 98, 99, 100]"
    by (simp add: loaded_ok)
  have l: "length [12, 0, 0, 0, 5, 0, 0, 0 :: byte] = 8" "length ([12, 0, 0, 0, 5, 0, 0, 0 :: byte] @ [97, 98, 99, 100]) = 12"
    by simp_all
  from modifiers_round_trip [OF b p loaded_ok(1) bytes l(1), of 5, unfolded l(2)] obtain b' p' where
    b': "modify_to_send flagged_env 5 (loaded [12, 0, 0, 0, 5, 0, 0, 0, 97, 98, 99, 100]) ?p = Inr ((True, success), b', p')"
    and r: "\<forall>r pre post. rb_inv r \<longrightarrow> rb_bytes r = pre @ rb_bytes b' @ post \<longrightarrow>
      (\<exists>q' h' junk. recv_modified flagged_env 5 (length pre) (length (rb_bytes b')) (?p\<lparr>bp_recv_buf := r\<rparr>) =
         Inr ((True, success), 12, q') \<and> rb_bytes (bp_recv_buf q') = pre @ h' @ [97, 98, 99, 100] @ junk @ post \<and>
         length h' = 8 \<and> drop 4 h' = drop 4 [12, 0, 0, 0, 5, 0, 0, 0] \<and> in_sync p' q')"
    by blast
  have "rb_bytes (loaded ([9, 9] @ rb_bytes b' @ [7])) = [9, 9] @ rb_bytes b' @ [7]" by (rule loaded_ok(2))
  from r [rule_format, OF loaded_ok(1) this] b' show ?thesis by (fastforce simp: numeral_2_eq_2)
qed

text \<open>A header-only packet whose length field is 0: one round publishes it and changes nothing that ends the loop.\<close>

definition plain_packet :: "('c, 'm) env \<Rightarrow> bits_config \<Rightarrow> 'm \<Rightarrow> bool" where
  "plain_packet e c m0 \<longleftrightarrow> \<not> aes_on e m0 c \<and> \<not> crc_on e m0 c \<and> \<not> seq_on e m0 c"

lemma zero_length_round:
  assumes "factory_create t (e_factory e) = Some m0" "plain_packet e (bp_cfg p) m0"
    and "\<And>pk. po_unpack (e_ops e) m0 pk = bits_packet_unpack m0 pk"
    and "rb_inv (bp_recv_buf p)" "rb_bytes (bp_recv_buf p) = field_bytes 0 @ field_bytes t @ rest"
  shows "\<exists>b. recv_message e 0 0 0 p = Inr (None, proto_publish m0 (p\<lparr>bp_recv_buf := b\<rparr>)) \<and>
           rb_inv b \<and> rb_bytes b = rb_bytes (bp_recv_buf p)"
proof -
  have t: "get_topic 4 (bp_recv_buf p) = Inr t"
    using get_length_at(2) [OF assms(4), of "field_bytes 0" t rest] assms(5) by simp
  have rm: "recv_modified e m0 0 0 p = Inr ((True, success), 0, p)"
    using assms(2) by (auto simp: recv_modified_def plain_packet_def)
  have rd: "\<exists>r b'. rb_read 4 b = Inr (r, b') \<and> rb_inv b' \<and> rb_bytes b' = rb_bytes b" if "rb_inv b" "rb_bytes b \<noteq> []" for b
    using rb_read_safe [OF that(1) rb.ready_nonempty [OF that], of 4] that by fastforce
  have ne: "rb_bytes (bp_recv_buf p) \<noteq> []" using assms(5) by (auto simp: field_bytes_def)
  obtain r1 b1 where b1: "rb_read 4 (bp_recv_buf p) = Inr (r1, b1)" "rb_inv b1" "rb_bytes b1 = rb_bytes (bp_recv_buf p)"
    using rd [OF assms(4) ne] by blast
  obtain r2 b2 where b2: "rb_read 4 b1 = Inr (r2, b2)" "rb_inv b2" "rb_bytes b2 = rb_bytes (bp_recv_buf p)"
    using rd [OF b1(2)] b1(3) ne by auto
  show ?thesis
    using t assms(1,3) rm b1 b2
    by (auto simp: recv_message_def bits_packet_unpack_def mk_packer_def Let_def)
qed

lemma zero_length_loop:
  assumes "factory_create t (e_factory e) = Some m0" "plain_packet e (bp_cfg p) m0"
    and "\<And>pk. po_unpack (e_ops e) m0 pk = bits_packet_unpack m0 pk"
    and "rb_inv (bp_recv_buf p)" "rb_bytes (bp_recv_buf p) = field_bytes 0 @ field_bytes t @ rest"
  shows "recv_loop fuel e 0 0 p = None"
  using assms(2,4,5)
proof (induction fuel arbitrary: p)
  case (Suc fuel)
  from zero_length_round [OF assms(1) Suc.prems(1) assms(3) Suc.prems(2,3)] obtain b where
    b: "recv_message e 0 0 0 p = Inr (None, proto_publish m0 (p\<lparr>bp_recv_buf := b\<rparr>))" "rb_inv b"
      "rb_bytes b = rb_bytes (bp_recv_buf p)" by blast
  have "get_length 0 (bp_recv_buf p) = Inr 0"
    using get_length_at(1) [OF Suc.prems(2), of "[]" 0] Suc.prems(3) by simp
  moreover have "rb_size (bp_recv_buf p) = 8 + length rest"
    using Suc.prems(2,3) by (simp add: rb_size_def length_rb_bytes [symmetric])
  moreover have "(0 + 8 + usub 0 header_length) mod 2 ^ 64 = 0" by (simp add: usub_def header_length_def)
  ultimately have "recv_loop (Suc fuel) e 0 0 p = recv_loop fuel e 0 0 (proto_publish m0 (p\<lparr>bp_recv_buf := b\<rparr>))"
    using b(1) by (simp add: header_length_def Let_def)
  also have "\<dots> = None"
    by (rule Suc.IH) (use Suc.prems b in \<open>simp_all add: proto_publish_def\<close>)
  finally show ?case .
qed simp

text \<open>
  A remote peer can hang the receiver: the length field is only asserted to be at least the
  header size, so eight bytes with length 0 and the topic of a registered packet without fields
  make \<open>on_recv\<close> loop forever, publishing the packet in every round: no amount of fuel is enough.
\<close>

theorem zero_length_never_returns:
  assumes "factory_create t (e_factory e) = Some m0" "plain_packet e (bp_cfg p) m0"
    and "\<And>pk. po_unpack (e_ops e) m0 pk = bits_packet_unpack m0 pk"
    and "rb_inv (bp_recv_buf p)" "rb_bytes (bp_recv_buf p) = []"
  shows "on_recv fuel e (Some (field_bytes 0 @ field_bytes t)) p = None"
proof -
  let ?c = "field_bytes 0 @ field_bytes t"
  obtain n b where b: "rb_append (Some ?c) (bp_recv_buf p) = Inr (n, b)" "rb_inv b" "rb_bytes b = field_bytes 0 @ field_bytes t @ []"
    using rb.append_total [OF assms(4), of ?c] assms(5) by auto
  have "recv_loop fuel e 0 0 (p\<lparr>bp_recv_buf := b\<rparr>) = None"
    by (rule zero_length_loop [OF assms(1) _ assms(3)]) (use assms(2) b in simp_all)
  moreover have "?c \<noteq> []" by (simp add: field_bytes_def)
  ultimately show ?thesis using b(1) by (simp add: on_recv_def)
qed

definition bare_ops :: "nat packet_ops" where
  "bare_ops = flagged_ops\<lparr>po_sequence := (\<lambda>m. False), po_checksum := (\<lambda>m. False), po_cipher := (\<lambda>m. False)\<rparr>"

definition bare_env :: "(unit, nat) env" where
  "bare_env = \<lparr>e_botan = plain_botan, e_ops = bare_ops, e_factory = [0x02020001 \<mapsto> 7], e_host_le = True\<rparr>"

lemma fresh_proto_ok:
  "rb_inv (bp_recv_buf (fresh_proto c))" "rb_bytes (bp_recv_buf (fresh_proto c)) = []" "rb_read_pos (bp_recv_buf (fresh_proto c)) = 0"
  "bp_cfg (fresh_proto c) = c" "bp_published (fresh_proto c) = []"
  by (simp_all add: fresh_proto_def small_buf_ok mk_bits_proto_def)

lemma zero_length_never_returns_witness:
  "on_recv 1000 bare_env (Some [0, 0, 0, 0, 1, 0, 2, 2]) (fresh_proto all_on) = None"
proof -
  have f: "field_bytes 0 @ field_bytes 0x02020001 = [0, 0, 0, 0, 1, 0, 2, 2]" by (simp add: field_bytes_def)
  have "on_recv 1000 bare_env (Some (field_bytes 0 @ field_bytes 0x02020001)) (fresh_proto all_on) = None"
    by (rule zero_length_never_returns [of _ _ 7])
      (simp_all add: bare_env_def factory_create_def plain_packet_def bare_ops_def flagged_ops_def fresh_proto_ok)
  then show ?thesis by (simp only: f)
qed

text \<open>A four-byte field as a number.\<close>

lemma word_or_disjoint: "(x :: 'a::len word) AND y = 0 \<Longrightarrow> x OR y = x + y"
  using word_plus_and_or [of x y] by simp

lemma field_word_sum:
  "field_word [a, b, c, d] = ucast a + push_bit 8 (ucast b) + push_bit 16 (ucast c) + push_bit 24 (ucast d)"
proof -
  have or1: "ucast a OR push_bit 8 (ucast b) = (ucast a + push_bit 8 (ucast b) :: u32)"
    and or2: "(ucast a OR push_bit 8 (ucast b)) OR push_bit 16 (ucast c) = (ucast a OR push_bit 8 (ucast b)) + (push_bit 16 (ucast c) :: u32)"
    and or3: "((ucast a OR push_bit 8 (ucast b)) OR push_bit 16 (ucast c)) OR push_bit 24 (ucast d) =
              ((ucast a OR push_bit 8 (ucast b)) OR push_bit 16 (ucast c)) + (push_bit 24 (ucast d) :: u32)"
    by (rule word_or_disjoint, rule bit_word_eqI, auto simp: bit_simps dest: bit_imp_le_length)+
  show ?thesis
    unfolding field_word_Cons or.assoc [symmetric] by (simp only: or1 or2 [unfolded or1] or3 [unfolded or1, unfolded or2 [unfolded or1]])
qed

lemma unat_field_word:
  "unat (field_word [a, b, c, d]) = unat a + 2 ^ 8 * unat b + 2 ^ 16 * unat c + 2 ^ 24 * unat d"
proof -
  have "unat a < 256" "unat b < 256" "unat c < 256" "unat d < 256"
    using unsigned_less [of a, where 'a = nat] unsigned_less [of b, where 'a = nat] unsigned_less [of c, where 'a = nat]
      unsigned_less [of d, where 'a = nat] by simp_all
  moreover have "field_word [a, b, c, d] = word_of_nat (unat a + 2 ^ 8 * unat b + 2 ^ 16 * unat c + 2 ^ 24 * unat d)"
    by (simp add: field_word_sum push_bit_eq_mult of_nat_unat mult.commute)
  ultimately show ?thesis by (simp only: unat_of_nat) (simp add: take_bit_eq_mod)
qed

text \<open>
  \<open>update_length_field\<close> stores the second byte of the new length three times: a receiver
  reads back \<open>n mod 256 + n div 256 mod 256 * 0x01010100\<close>, which for messages below 64 KB is the
  length itself only if the message is shorter than 256 bytes.
\<close>

theorem update_length_field_result:
  assumes "rb_inv b" "rb_bytes b = h @ rest" "length h = 8" "n < 2 ^ 16"
  shows "\<exists>b' len. update_length_field 0 n b = Inr b' \<and> get_length 0 b' = Inr len \<and>
           unat len = n mod 256 + n div 256 mod 256 * 0x01010100 \<and> (unat len = n \<longleftrightarrow> n < 256)"
proof -
  define f where "f = [octet_of n, octet_of (n div 2 ^ 8), octet_of (n div 2 ^ 8), octet_of (n div 2 ^ 8)]"
  have f: "length f = 4" by (simp add: f_def)
  have ne: "rb_bytes b \<noteq> []" using assms(2,3) by auto
  obtain b' where b': "update_length_field 0 n b = Inr b'" "rb_inv b'" "rb_bytes b' = f @ drop 4 (h @ rest)"
    using rb_poke_ok [OF assms(1) _ ne, of 0 f] assms(2,3) f splice_at_prefix [of "[]" 0 f "h @ rest"]
    unfolding update_length_field_def f_def [symmetric] by auto
  have ne': "rb_bytes b' \<noteq> []" using b'(3) f by auto
  have "rb_peek 0 4 b' = Inr f"
    using rb_peek_ok [OF b'(2) _ ne', of 0 4] b'(3) f by simp
  then have g: "get_length 0 b' = Inr (field_word f)" by (simp add: get_length_def)
  have o: "unat (octet_of k) = k mod 256" for k by (simp add: octet_of_def unat_of_nat)
  have v: "unat (field_word f) = n mod 256 + n div 256 mod 256 * 0x01010100"
    by (simp add: f_def unat_field_word o)
  have "n div 256 mod 256 = n div 256" using assms(4) by simp
  then have "n = n mod 256 + n div 256 mod 256 * 256" by simp
  then have "unat (field_word f) = n \<longleftrightarrow> n < 256"
    using v by (auto simp: div_eq_0_iff)
  with b'(1) g v show ?thesis by blast
qed

lemma update_length_field_result_witness:
  "\<exists>b' len. update_length_field 0 300 (loaded [8, 0, 0, 0, 1, 0, 0, 0]) = Inr b' \<and> get_length 0 b' = Inr len \<and> unat len = 16843052"
  using update_length_field_result [OF loaded_ok(1), of "[8, 0, 0, 0, 1, 0, 0, 0]" "[8, 0, 0, 0, 1, 0, 0, 0]" "[]" 300]
  by (auto simp: loaded_ok)

end
