(* ===== verification/Server_Packets.thy ===== *)
theory Server_Packets
  imports Bits_Framing
begin

text \<open>
  The packets of the server cluster (\<^verbatim>\<open>include/wise.kernel/server/server_packets.hpp\<close>,
  \<^verbatim>\<open>server_topics.hpp\<close>, \<^verbatim>\<open>src/server/server_packets_factory.cpp\<close>): the application of the bits
  protocol inside the repository. They satisfy the contract \<open>packet_class\<close>, so a stream of
  them survives any fragmentation.
\<close>

section \<open>The packets\<close>

(* [include/wise.kernel/server/server_packets.hpp:15-19 syn_peer_up] *)
datatype cluster_packet =
    Syn_Peer_Up (peer_domain: u16)
  | Syn_Peer_Down (peer_domain: u16)
  | Syn_Actor_Up (actor_id: u64) (actor_type: "byte list") (actor_name: "byte list")
  | Syn_Actor_Down (actor_id: u64)

(* [include/wise.kernel/server/server_topics.hpp:12-22 topics] *)
definition cluster_topic :: "cluster_packet \<Rightarrow> topic" where
  "cluster_topic m = mk_topic 2 2
     (case m of Syn_Peer_Up _ \<Rightarrow> 1 | Syn_Peer_Down _ \<Rightarrow> 2 | Syn_Actor_Up _ _ _ \<Rightarrow> 3 | Syn_Actor_Down _ \<Rightarrow> 4)"

text \<open>The members are packed one after the other; the packer's latch remembers a failure.\<close>

definition ignore_pack :: "(bool \<times> packer) res \<Rightarrow> (packer \<Rightarrow> (bool \<times> packer) res) \<Rightarrow> (bool \<times> packer) res" where
  "ignore_pack m k = bind_res m (\<lambda>(_, p). k p)"

definition ignore_unpack :: "(bool \<times> 'f \<times> packer) res \<Rightarrow> ('f \<Rightarrow> packer \<Rightarrow> (bool \<times> 's \<times> packer) res) \<Rightarrow> (bool \<times> 's \<times> packer) res" where
  "ignore_unpack m k = bind_res m (\<lambda>(_, f, p). k f p)"

(* [include/wise.kernel/server/server_packets.hpp:40-45 syn_peer_up::pack] *)
definition syn_peer_up_pack :: "u16 pack_fn" where
  "syn_peer_up_pack domain p =
     ignore_pack (bits_packet_pack domain p) (\<lambda>p. ignore_pack (pack_word domain p) (\<lambda>p. Inr (is_valid p, p)))"

(* [include/wise.kernel/server/server_packets.hpp:47-52 syn_peer_up::unpack] *)
definition syn_peer_up_unpack :: "u16 unpack_fn" where
  "syn_peer_up_unpack domain p =
     ignore_unpack (bits_packet_unpack domain p) (\<lambda>domain p. ignore_unpack (unpack_word domain p) (\<lambda>domain p. Inr (is_valid p, domain, p)))"

(* [include/wise.kernel/server/server_packets.hpp:83-88 syn_peer_down::pack] *)
definition syn_peer_down_pack :: "u16 pack_fn" where
  "syn_peer_down_pack domain p =
     ignore_pack (bits_packet_pack domain p) (\<lambda>p. ignore_pack (pack_word domain p) (\<lambda>p. Inr (is_valid p, p)))"

(* [include/wise.kernel/server/server_packets.hpp:90-95 syn_peer_down::unpack] *)
definition syn_peer_down_unpack :: "u16 unpack_fn" where
  "syn_peer_down_unpack domain p =
     ignore_unpack (bits_packet_unpack domain p) (\<lambda>domain p. ignore_unpack (unpack_word domain p) (\<lambda>domain p. Inr (is_valid p, domain, p)))"

(* [include/wise.kernel/server/server_packets.hpp:128-135 syn_actor_up::pack] *)
definition syn_actor_up_pack :: "(u64 \<times> byte list \<times> byte list) pack_fn" where
  "syn_actor_up_pack m p = (case m of (i, ty, nm) \<Rightarrow>
     ignore_pack (bits_packet_pack m p) (\<lambda>p. ignore_pack (pack_word i p)
       (\<lambda>p. ignore_pack (pack_string ty p) (\<lambda>p. ignore_pack (pack_string nm p) (\<lambda>p. Inr (is_valid p, p))))))"

(* [include/wise.kernel/server/server_packets.hpp:137-144 syn_actor_up::unpack] *)
definition syn_actor_up_unpack :: "(u64 \<times> byte list \<times> byte list) unpack_fn" where
  "syn_actor_up_unpack m p = (case m of (i, ty, nm) \<Rightarrow>
     ignore_unpack (bits_packet_unpack m p) (\<lambda>_ p. ignore_unpack (unpack_word i p)
       (\<lambda>i p. ignore_unpack (unpack_string ty p) (\<lambda>ty p. ignore_unpack (unpack_string nm p)
         (\<lambda>nm p. Inr (is_valid p, (i, ty, nm), p))))))"

(* [include/wise.kernel/server/server_packets.hpp:175-180 syn_actor_down::pack] *)
definition syn_actor_down_pack :: "u64 pack_fn" where
  "syn_actor_down_pack i p =
     ignore_pack (bits_packet_pack i p) (\<lambda>p. ignore_pack (pack_word i p) (\<lambda>p. Inr (is_valid p, p)))"

(* [include/wise.kernel/server/server_packets.hpp:182-187 syn_actor_down::unpack] *)
definition syn_actor_down_unpack :: "u64 unpack_fn" where
  "syn_actor_down_unpack i p =
     ignore_unpack (bits_packet_unpack i p) (\<lambda>i p. ignore_unpack (unpack_word i p) (\<lambda>i p. Inr (is_valid p, i, p)))"

text \<open>The virtual calls.\<close>

definition rewrap :: "('f \<Rightarrow> 'm) \<Rightarrow> (bool \<times> 'f \<times> packer) res \<Rightarrow> (bool \<times> 'm \<times> packer) res" where
  "rewrap f m = bind_res m (\<lambda>(r, v, p). Inr (r, f v, p))"

fun cluster_pack :: "cluster_packet pack_fn" where
  "cluster_pack (Syn_Peer_Up domain) p = syn_peer_up_pack domain p"
| "cluster_pack (Syn_Peer_Down domain) p = syn_peer_down_pack domain p"
| "cluster_pack (Syn_Actor_Up i ty nm) p = syn_actor_up_pack (i, ty, nm) p"
| "cluster_pack (Syn_Actor_Down i) p = syn_actor_down_pack i p"

fun cluster_unpack :: "cluster_packet unpack_fn" where
  "cluster_unpack (Syn_Peer_Up domain) p = rewrap Syn_Peer_Up (syn_peer_up_unpack domain p)"
| "cluster_unpack (Syn_Peer_Down domain) p = rewrap Syn_Peer_Down (syn_peer_down_unpack domain p)"
| "cluster_unpack (Syn_Actor_Up i ty nm) p = rewrap (\<lambda>(i, ty, nm). Syn_Actor_Up i ty nm) (syn_actor_up_unpack (i, ty, nm) p)"
| "cluster_unpack (Syn_Actor_Down i) p = rewrap Syn_Actor_Down (syn_actor_down_unpack i p)"

definition cluster_ops :: "cluster_packet packet_ops" where
  "cluster_ops = \<lparr>po_pack = cluster_pack, po_unpack = cluster_unpack, po_topic = cluster_topic,
     po_sequence = (\<lambda>m. False), po_checksum = (\<lambda>m. False), po_cipher = (\<lambda>m. False)\<rparr>"

definition cluster_creators :: "cluster_packet list" where
  "cluster_creators = [Syn_Peer_Up 0, Syn_Peer_Down 0, Syn_Actor_Up 0 [] [], Syn_Actor_Down 0]"

fun add_all :: "cluster_packet list \<Rightarrow> cluster_packet factory \<Rightarrow> cluster_packet factory res" where
  "add_all [] f = Inr f"
| "add_all (m # ms) f = bind_res (factory_add (cluster_topic m) m f) (add_all ms)"

(* [src/server/server_packets_factory.cpp:6-14 add_server_packets] *)
definition cluster_factory :: "cluster_packet factory res" where
  "cluster_factory = add_all cluster_creators Map.empty"

section \<open>They are a packet class\<close>

fun enc_cluster :: "cluster_packet \<Rightarrow> byte list" where
  "enc_cluster (Syn_Peer_Up domain) = wire domain"
| "enc_cluster (Syn_Peer_Down domain) = wire domain"
| "enc_cluster (Syn_Actor_Up i ty nm) = wire i @ enc_string ty @ enc_string nm"
| "enc_cluster (Syn_Actor_Down i) = wire i"

fun cluster_ok :: "cluster_packet \<Rightarrow> bool" where
  "cluster_ok (Syn_Actor_Up i ty nm) \<longleftrightarrow>
     length ty \<le> max_string_size \<and> 0 \<notin> set ty \<and> length nm \<le> max_string_size \<and> 0 \<notin> set nm"
| "cluster_ok _ \<longleftrightarrow> True"

lemma cluster_factory_ok:
  "\<exists>f. cluster_factory = Inr f \<and> (\<forall>m. \<exists>m0. f (cluster_topic m) = Some m0 \<and> m0 \<in> set cluster_creators \<and> cluster_topic m0 = cluster_topic m)"
proof -
  let ?k = "\<lambda>n. mk_topic 2 2 n"
  have ne: "?k a = ?k b \<longleftrightarrow> a = b" for a b by (metis mk_topic_fields(3))
  have "\<exists>m0. [?k 1 \<mapsto> Syn_Peer_Up 0, ?k 2 \<mapsto> Syn_Peer_Down 0, ?k 3 \<mapsto> Syn_Actor_Up 0 [] [], ?k 4 \<mapsto> Syn_Actor_Down 0] (cluster_topic m) = Some m0 \<and>
      m0 \<in> set cluster_creators \<and> cluster_topic m0 = cluster_topic m" for m
    by (cases m) (auto simp: cluster_topic_def cluster_creators_def ne)
  moreover have "cluster_factory = Inr [?k 1 \<mapsto> Syn_Peer_Up 0, ?k 2 \<mapsto> Syn_Peer_Down 0, ?k 3 \<mapsto> Syn_Actor_Up 0 [] [], ?k 4 \<mapsto> Syn_Actor_Down 0]"
    by (simp add: cluster_factory_def cluster_creators_def factory_add_def cluster_topic_def bits_topic_category_def)
  ultimately show ?thesis by blast
qed

lemma ignore_simps [simp]: "ignore_pack (Inr (r, p)) k = k p" "ignore_unpack (Inr (r, f, p)) k' = k' f p"
  by (simp_all add: ignore_pack_def ignore_unpack_def)

lemma cluster_pack_ok:
  assumes "cluster_ok m" "usable p"
  shows "\<exists>p'. cluster_pack m p = Inr (True, p') \<and> packed (enc_cluster m) p p'"
proof (cases m)
  case (Syn_Actor_Up i ty nm)
  obtain p1 where p1: "pack_word i p = Inr (True, p1)" "packed (wire i) p p1"
    using u64.pack_law [OF assms(2), of i] by blast
  obtain p2 where p2: "pack_string ty p1 = Inr (True, p2)" "packed (enc_string ty) p1 p2"
    using str.pack_law [OF packed_usable [OF p1(2)], of ty] assms(1) Syn_Actor_Up by auto
  obtain p3 where p3: "pack_string nm p2 = Inr (True, p3)" "packed (enc_string nm) p2 p3"
    using str.pack_law [OF packed_usable [OF p2(2)], of nm] assms(1) Syn_Actor_Up by auto
  show ?thesis
    using Syn_Actor_Up p1(1) p2(1) p3(1) packed_trans [OF p1(2) packed_trans [OF p2(2) p3(2)]] usable_valid [OF packed_usable [OF p3(2)]]
    by (simp add: bits_packet_pack_def syn_actor_up_pack_def)
qed (use u16.pack_law [OF assms(2), of "peer_domain m"] u64.pack_law [OF assms(2), of "actor_id m"] in
      \<open>auto simp: bits_packet_pack_def syn_peer_up_pack_def syn_peer_down_pack_def syn_actor_down_pack_def usable_valid packed_usable\<close>)

lemma cluster_unpack_ok:
  assumes "cluster_ok m" "m0 \<in> set cluster_creators" "cluster_topic m0 = cluster_topic m"
    and "usable p" "pk_unread p = enc_cluster m @ rest"
  shows "\<exists>p'. cluster_unpack m0 p = Inr (True, m, p') \<and> unpacked (length (enc_cluster m)) p p'"
proof -
  have ne: "mk_topic 2 2 a = mk_topic 2 2 b \<longleftrightarrow> a = b" for a b by (metis mk_topic_fields(3))
  show ?thesis
  proof (cases m)
    case (Syn_Actor_Up i ty nm)
    with assms(2,3) have m0: "m0 = Syn_Actor_Up 0 [] []" by (auto simp: cluster_creators_def cluster_topic_def ne)
    obtain p1 where p1: "unpack_word 0 p = Inr (True, i, p1)" "unpacked (length (wire i)) p p1"
      using u64.unpack_law [OF assms(4) TrueI TrueI, of i "enc_string ty @ enc_string nm @ rest" 0] assms(5) Syn_Actor_Up by auto
    obtain p2 where p2: "unpack_string [] p1 = Inr (True, ty, p2)" "unpacked (length (enc_string ty)) p1 p2"
      using str.unpack_law [OF unpacked_usable [OF p1(2)], of ty "[]" "enc_string nm @ rest"] unpacked_unread [OF p1(2)]
        assms(1,5) Syn_Actor_Up by auto
    obtain p3 where p3: "unpack_string [] p2 = Inr (True, nm, p3)" "unpacked (length (enc_string nm)) p2 p3"
      using str.unpack_law [OF unpacked_usable [OF p2(2)], of nm "[]" rest] unpacked_unread [OF p1(2)] unpacked_unread [OF p2(2)]
        assms(1,5) Syn_Actor_Up by auto
    show ?thesis
      using Syn_Actor_Up m0 p1(1) p2(1) p3(1) unpacked_trans [OF p1(2) unpacked_trans [OF p2(2) p3(2)]]
        usable_valid [OF unpacked_usable [OF p3(2)]]
      by (simp add: bits_packet_unpack_def syn_actor_up_unpack_def rewrap_def)
  next
    case (Syn_Actor_Down i)
    with assms(2,3) have m0: "m0 = Syn_Actor_Down 0" by (auto simp: cluster_creators_def cluster_topic_def ne)
    with Syn_Actor_Down show ?thesis
      using u64.unpack_law [OF assms(4) TrueI TrueI, of i rest 0] assms(5)
      by (auto simp: bits_packet_unpack_def syn_actor_down_unpack_def rewrap_def usable_valid unpacked_usable)
  next
    case (Syn_Peer_Up d)
    with assms(2,3) have m0: "m0 = Syn_Peer_Up 0" by (auto simp: cluster_creators_def cluster_topic_def ne)
    with Syn_Peer_Up show ?thesis
      using u16.unpack_law [OF assms(4) TrueI TrueI, of d rest 0] assms(5)
      by (auto simp: bits_packet_unpack_def syn_peer_up_unpack_def rewrap_def usable_valid unpacked_usable)
  next
    case (Syn_Peer_Down d)
    with assms(2,3) have m0: "m0 = Syn_Peer_Down 0" by (auto simp: cluster_creators_def cluster_topic_def ne)
    with Syn_Peer_Down show ?thesis
      using u16.unpack_law [OF assms(4) TrueI TrueI, of d rest 0] assms(5)
      by (auto simp: bits_packet_unpack_def syn_peer_down_unpack_def rewrap_def usable_valid unpacked_usable)
  qed
qed

lemma length_enc_cluster: "cluster_ok m \<Longrightarrow> length (enc_cluster m) \<le> 4108"
  by (cases m) (auto simp: enc_string_def max_string_size_def)

text \<open>The environment of a server: any Botan, either byte order.\<close>

definition cluster_env :: "'c botan \<Rightarrow> bool \<Rightarrow> ('c, cluster_packet) env" where
  "cluster_env bt host_le = \<lparr>e_botan = bt, e_ops = cluster_ops, e_factory = projr cluster_factory, e_host_le = host_le\<rparr>"

lemma cluster_packet_class:
  assumes "8192 \<le> max_packet_length cfg"
  shows "packet_class (cluster_env bt host_le) cfg enc_cluster cluster_ok"
proof (unfold_locales, goal_cases)
  case (1 m)
  obtain f where f: "cluster_factory = Inr f" "\<And>m. \<exists>m0. f (cluster_topic m) = Some m0 \<and> m0 \<in> set cluster_creators \<and> cluster_topic m0 = cluster_topic m"
    using cluster_factory_ok by blast
  from f(2) [of m] obtain m0 where m0: "f (cluster_topic m) = Some m0" "m0 \<in> set cluster_creators" "cluster_topic m0 = cluster_topic m" by blast
  have pf: "projr cluster_factory = f" unfolding f(1) by simp
  show ?case
  proof (intro exI [of _ m0] conjI)
    show "factory_create (po_topic (e_ops (cluster_env bt host_le)) m) (e_factory (cluster_env bt host_le)) = Some m0"
      using m0(1) by (simp add: cluster_env_def cluster_ops_def factory_create_def pf)
    show "\<forall>p rest. usable p \<longrightarrow> pk_unread p = enc_cluster m @ rest \<longrightarrow>
        (\<exists>p'. po_unpack (e_ops (cluster_env bt host_le)) m0 p = Inr (True, m, p') \<and> unpacked (length (enc_cluster m)) p p')"
      using cluster_unpack_ok [OF 1 m0(2,3)] by (simp add: cluster_env_def cluster_ops_def)
  qed (simp_all add: cluster_env_def cluster_ops_def)
next
  case (2 m p)
  then show ?case using cluster_pack_ok by (simp add: cluster_env_def cluster_ops_def)
next
  case (3 m)
  then show ?case using length_enc_cluster [of m] assms by simp
qed

interpretation cluster: packet_class "cluster_env bt host_le" all_on enc_cluster cluster_ok for bt host_le
  by (rule cluster_packet_class) (simp add: all_on_def)

section \<open>Properties\<close>


lemma two_frames:
  "concat [[10, 0, 0], [0, 1, 0, 2, 2, 3, 0, 16, 0, 0, 0, 4, 0, 2], [2, 9, 0, 0, 0, 0, 0, 0, 0]] =
     concat (map (frame enc_cluster cluster_topic) [Syn_Peer_Up 3, Syn_Actor_Down 9])"
  by (simp add: frame_def cluster_topic_def field_bytes_def wire_def mk_topic_def) code_simp


end
