(* ===== verification/Hash_Map.thy ===== *)
theory Hash_Map
  imports Prelude
begin

text \<open>
  \<^verbatim>\<open>std::unordered_map\<close> and \<^verbatim>\<open>std::map\<close> as the sources use them: an association list with
  pairwise different keys, in the order in which its iterator visits it. \<open>um_insert\<close> is
  \<^verbatim>\<open>insert\<close> (an existing key keeps its value), \<open>um_set\<close> is the assignment through
  \<^verbatim>\<open>operator[]\<close>, \<open>um_adjust\<close> an update through an iterator or a reference.
\<close>

type_synonym ('k, 'v) umap = "('k \<times> 'v) list"

definition um_ok :: "('k, 'v) umap \<Rightarrow> bool" where
  "um_ok m \<longleftrightarrow> distinct (map fst m)"

definition um_find :: "'k \<Rightarrow> ('k, 'v) umap \<Rightarrow> 'v option" where
  "um_find k m = map_of m k"

definition um_has :: "'k \<Rightarrow> ('k, 'v) umap \<Rightarrow> bool" where
  "um_has k m \<longleftrightarrow> um_find k m \<noteq> None"

definition um_insert :: "'k \<Rightarrow> 'v \<Rightarrow> ('k, 'v) umap \<Rightarrow> ('k, 'v) umap" where
  "um_insert k v m = (if um_has k m then m else m @ [(k, v)])"

definition um_adjust :: "'k \<Rightarrow> ('v \<Rightarrow> 'v) \<Rightarrow> ('k, 'v) umap \<Rightarrow> ('k, 'v) umap" where
  "um_adjust k f m = map (\<lambda>(k', v). if k' = k then (k', f v) else (k', v)) m"

definition um_set :: "'k \<Rightarrow> 'v \<Rightarrow> ('k, 'v) umap \<Rightarrow> ('k, 'v) umap" where
  "um_set k v m = (if um_has k m then um_adjust k (\<lambda>_. v) m else m @ [(k, v)])"

definition um_erase :: "'k \<Rightarrow> ('k, 'v) umap \<Rightarrow> ('k, 'v) umap" where
  "um_erase k m = filter (\<lambda>(k', v). k' \<noteq> k) m"

lemma um_find_Nil [simp]: "um_find k [] = None"
  by (simp add: um_find_def)

lemma um_find_Cons: "um_find k ((k', v) # m) = (if k' = k then Some v else um_find k m)"
  by (simp add: um_find_def)

lemma um_find_insert [simp]:
  "um_find k' (um_insert k v m) = (if k' = k \<and> um_find k m = None then Some v else um_find k' m)"
  by (auto simp: um_insert_def um_find_def um_has_def map_add_def split: option.splits)

lemma um_find_adjust [simp]: "um_find k' (um_adjust k f m) = (if k' = k then map_option f (um_find k m) else um_find k' m)"
  by (induction m) (auto simp: um_adjust_def um_find_def)

lemma um_find_set [simp]: "um_find k' (um_set k v m) = (if k' = k then Some v else um_find k' m)"
proof (cases "um_has k m")
  case True
  then show ?thesis by (auto simp: um_set_def um_has_def)
next
  case False
  then show ?thesis by (auto simp: um_set_def um_has_def um_find_def map_add_def split: option.splits)
qed

lemma um_find_erase [simp]: "um_find k' (um_erase k m) = (if k' = k then None else um_find k' m)"
  by (induction m) (auto simp: um_erase_def um_find_def)

lemma map_fst_adjust [simp]: "map fst (um_adjust k f m) = map fst m"
  by (induction m) (auto simp: um_adjust_def)

lemma um_has_iff: "um_has k m \<longleftrightarrow> k \<in> fst ` set m"
  by (simp add: um_has_def um_find_def map_of_eq_None_iff)

lemma um_ok_Nil [simp, inv_intros]: "um_ok []"
  by (simp add: um_ok_def)

lemma um_ok_insert [simp, inv_intros]: "um_ok m \<Longrightarrow> um_ok (um_insert k v m)"
  by (auto simp: um_ok_def um_insert_def um_has_iff)

lemma um_ok_adjust [simp, inv_intros]: "um_ok m \<Longrightarrow> um_ok (um_adjust k f m)"
  by (simp add: um_ok_def)

lemma um_ok_set [simp, inv_intros]: "um_ok m \<Longrightarrow> um_ok (um_set k v m)"
  by (auto simp: um_ok_def um_set_def um_has_iff)

lemma um_ok_erase [simp, inv_intros]: "um_ok m \<Longrightarrow> um_ok (um_erase k m)"
  by (auto simp: um_ok_def um_erase_def distinct_map inj_on_def)

lemma um_find_mem: "um_ok m \<Longrightarrow> um_find k m = Some v \<longleftrightarrow> (k, v) \<in> set m"
  by (simp add: um_ok_def um_find_def map_of_eq_Some_iff)

text \<open>What every user of a hash map relies on.\<close>

locale lookup_table =
  fixes ok :: "'s \<Rightarrow> bool" and find :: "'k \<Rightarrow> 's \<Rightarrow> 'v option"
    and put :: "'k \<Rightarrow> 'v \<Rightarrow> 's \<Rightarrow> 's" and erase :: "'k \<Rightarrow> 's \<Rightarrow> 's" and size_of :: "'s \<Rightarrow> nat"
  assumes put_ok: "ok m \<Longrightarrow> ok (put k v m)"
    and erase_ok: "ok m \<Longrightarrow> ok (erase k m)"
    and find_put: "find k' (put k v m) = (if k' = k then Some v else find k' m)"
    and find_erase: "find k' (erase k m) = (if k' = k then None else find k' m)"
    and size_find: "ok m \<Longrightarrow> size_of m = card {k. find k m \<noteq> None}"
    and finite_find: "ok m \<Longrightarrow> finite {k. find k m \<noteq> None}"
begin

lemma size_put: "ok m \<Longrightarrow> size_of (put k v m) = (if find k m = None then Suc (size_of m) else size_of m)"
proof -
  assume m: "ok m"
  have "{k'. find k' (put k v m) \<noteq> None} = insert k {k'. find k' m \<noteq> None}" by (auto simp: find_put)
  then show ?thesis using m finite_find [OF m] by (auto simp: size_find put_ok card_insert_if)
qed

lemma size_erase: "ok m \<Longrightarrow> size_of (erase k m) = (if find k m = None then size_of m else size_of m - 1)"
proof -
  assume m: "ok m"
  have "{k'. find k' (erase k m) \<noteq> None} = {k'. find k' m \<noteq> None} - {k}" by (auto simp: find_erase)
  then show ?thesis using m finite_find [OF m] by (auto simp: size_find erase_ok)
qed

lemma put_erase: "find k m = None \<Longrightarrow> find k' (erase k (put k v m)) = find k' m"
  by (simp add: find_put find_erase)

end

interpretation um: lookup_table um_ok um_find um_set um_erase length
proof (unfold_locales, goal_cases)
  case (5 m)
  have "{k. um_find k m \<noteq> None} = set (map fst m)"
    using um_has_iff [of _ m] by (auto simp: um_has_def)
  with 5 show ?case by (metis distinct_card length_map um_ok_def)
next
  case (6 m)
  have "{k. um_find k m \<noteq> None} = set (map fst m)"
    using um_has_iff [of _ m] by (auto simp: um_has_def)
  then show ?case by simp
qed simp_all

end
