(* ===== verification/Sequence.thy ===== *)
theory Sequence
  imports Prelude
begin

text \<open>
  The id pool \<^verbatim>\<open>sequence<Seq>\<close> of \<^verbatim>\<open>include/wise.kernel/core/sequence.hpp\<close>, used for
  subscription keys, timer ids and acceptor/connector keys. A pool hands out ids of
  \<open>[begin, end)\<close>, keeps a queue of ids it has acquired or got back, and throws when every
  id is in use.

  \<^verbatim>\<open>Seq\<close> is an unsigned type and \<open>current_\<close> never passes \<open>end_\<close>, so no addition wraps and
  the fields are natural numbers. The lock (\<^verbatim>\<open>Mutex\<close>) makes each operation atomic.
  The locale \<open>id_source\<close> states what the clients of a pool rely on; the model's pool is its
  interpretation.
\<close>

section \<open>The pool\<close>

(* [include/wise.kernel/core/sequence.hpp:122-129 sequence] *)
record id_pool =
  seq_begin :: nat
  seq_end :: nat
  seq_reserve :: nat
  seq_current :: nat
  seqs :: "nat list"

(* [include/wise.kernel/core/sequence.hpp:111-117 acquire] *)
fun acquire :: "nat \<Rightarrow> id_pool \<Rightarrow> id_pool" where
  "acquire 0 s = s"
| "acquire (Suc count) s =
     (if seq_current s < seq_end s
      then acquire count (s\<lparr>seqs := seqs s @ [seq_current s], seq_current := Suc (seq_current s)\<rparr>)
      else s)"

(* [include/wise.kernel/core/sequence.hpp:30-48 sequence::sequence] *)
definition mk_sequence :: "nat \<Rightarrow> nat \<Rightarrow> nat \<Rightarrow> id_pool" where
  "mk_sequence b e r =
     (let res = min (e - b) r
      in acquire res \<lparr>seq_begin = b, seq_end = e, seq_reserve = res, seq_current = b, seqs = []\<rparr>)"

(* [include/wise.kernel/core/sequence.hpp:60-90 next] *)
definition seq_next :: "id_pool \<Rightarrow> (nat \<times> id_pool) res" where
  "seq_next s0 =
     (let s = (if length (seqs s0) < seq_reserve s0 then acquire (seq_reserve s0) s0 else s0)
      in case seqs s of
           v # vs \<Rightarrow> Inr (v, s\<lparr>seqs := vs\<rparr>)
         | [] \<Rightarrow> if seq_current s = seq_end s then Inl (Throw ''no sequence to use'')
                else Inr (seq_current s, s\<lparr>seq_current := Suc (seq_current s)\<rparr>))"

(* [include/wise.kernel/core/sequence.hpp:92-99 release] *)
definition seq_release :: "nat \<Rightarrow> id_pool \<Rightarrow> id_pool" where
  "seq_release q s =
     (if \<not> (seq_begin s \<le> q \<and> q < seq_end s) then s else s\<lparr>seqs := seqs s @ [q]\<rparr>)"

section \<open>Invariant and available ids\<close>

definition seq_avail :: "id_pool \<Rightarrow> nat set" where
  "seq_avail s = set (seqs s) \<union> {seq_current s ..< seq_end s}"

definition seq_range :: "id_pool \<Rightarrow> nat set" where
  "seq_range s = {seq_begin s ..< seq_end s}"

definition seq_inv :: "id_pool \<Rightarrow> bool" where
  "seq_inv s \<longleftrightarrow> seq_begin s \<le> seq_current s \<and> seq_current s \<le> seq_end s \<and>
     set (seqs s) \<subseteq> {seq_begin s ..< seq_current s} \<and> distinct (seqs s)"

lemma acquire_one_inv:
  "seq_inv s \<Longrightarrow> seq_current s < seq_end s \<Longrightarrow>
   seq_inv (s\<lparr>seqs := seqs s @ [seq_current s], seq_current := Suc (seq_current s)\<rparr>)"
  by (fastforce simp: seq_inv_def)

lemma acquire_inv [inv_intros]: "seq_inv s \<Longrightarrow> seq_inv (acquire n s)"
  by (induction n s rule: acquire.induct) (simp_all add: acquire_one_inv)

lemma acquire_one_avail:
  "seq_current s < seq_end s \<Longrightarrow>
   seq_avail (s\<lparr>seqs := seqs s @ [seq_current s], seq_current := Suc (seq_current s)\<rparr>) = seq_avail s"
  by (auto simp: seq_avail_def)

lemma acquire_one_range:
  "seq_range (s\<lparr>seqs := vs, seq_current := c\<rparr>) = seq_range s"
  by (simp add: seq_range_def)

lemma acquire_avail: "seq_avail (acquire n s) = seq_avail s"
  by (induction n s rule: acquire.induct) (simp_all add: acquire_one_avail)

lemma acquire_range: "seq_range (acquire n s) = seq_range s"
  by (induction n s rule: acquire.induct) (simp_all add: acquire_one_range)

lemma acquire_nonempty:
  "0 < n \<Longrightarrow> seq_current s < seq_end s \<or> seqs s \<noteq> [] \<Longrightarrow> seqs (acquire n s) \<noteq> []"
proof (induction n s rule: acquire.induct)
  case (2 n s)
  then show ?case by (cases n) auto
qed simp

lemma mk_sequence_inv: "b \<le> e \<Longrightarrow> seq_inv (mk_sequence b e r)"
  unfolding mk_sequence_def Let_def by (rule acquire_inv) (simp add: seq_inv_def)

lemma mk_sequence_avail: "seq_avail (mk_sequence b e r) = {b..<e}"
  by (simp add: mk_sequence_def Let_def acquire_avail) (simp add: seq_avail_def)

lemma mk_sequence_range: "seq_range (mk_sequence b e r) = {b..<e}"
  by (simp add: mk_sequence_def Let_def acquire_range) (simp add: seq_range_def)

lemmas seq_acquired = acquire_inv acquire_avail acquire_range

text \<open>The pool after the refill at the head of \<open>seq_next\<close>.\<close>

definition refill :: "id_pool \<Rightarrow> id_pool" where
  "refill s = (if length (seqs s) < seq_reserve s then acquire (seq_reserve s) s else s)"

lemma refill_facts:
  assumes "seq_inv s"
  shows "seq_inv (refill s)" "seq_avail (refill s) = seq_avail s" "seq_range (refill s) = seq_range s"
  using assms by (simp_all add: refill_def seq_acquired)

lemma seq_next_refill:
  "seq_next s =
     (case seqs (refill s) of
        v # vs \<Rightarrow> Inr (v, (refill s)\<lparr>seqs := vs\<rparr>)
      | [] \<Rightarrow> if seq_current (refill s) = seq_end (refill s) then Inl (Throw ''no sequence to use'')
             else Inr (seq_current (refill s),
                       (refill s)\<lparr>seq_current := Suc (seq_current (refill s))\<rparr>))"
  by (simp only: seq_next_def refill_def [symmetric] Let_def)

lemma avail_pop:
  assumes "seq_inv s" "seqs s = v # vs"
  shows "seq_inv (s\<lparr>seqs := vs\<rparr>)" "seq_avail (s\<lparr>seqs := vs\<rparr>) = seq_avail s - {v}"
    and "v \<in> seq_avail s" "v \<in> seq_range s"
  using assms by (auto simp: seq_inv_def seq_avail_def seq_range_def)

lemma avail_bump:
  assumes "seq_inv s" "seqs s = []" "seq_current s \<noteq> seq_end s"
  shows "seq_inv (s\<lparr>seq_current := Suc (seq_current s)\<rparr>)"
    and "seq_avail (s\<lparr>seq_current := Suc (seq_current s)\<rparr>) = seq_avail s - {seq_current s}"
    and "seq_current s \<in> seq_avail s" "seq_current s \<in> seq_range s"
  using assms by (auto simp: seq_inv_def seq_avail_def seq_range_def)

lemma seq_next_ok:
  assumes inv: "seq_inv s" and nx: "seq_next s = Inr (v, s')"
  shows "seq_inv s'" "v \<in> seq_avail s" "seq_avail s' = seq_avail s - {v}"
    and "v \<in> seq_range s" "seq_range s' = seq_range s"
proof -
  note rf = refill_facts [OF inv]
  have "seq_inv s' \<and> v \<in> seq_avail s \<and> seq_avail s' = seq_avail s - {v} \<and>
        v \<in> seq_range s \<and> seq_range s' = seq_range s"
  proof (cases "seqs (refill s)")
    case Nil
    with nx have "seq_current (refill s) \<noteq> seq_end (refill s)"
      by (auto simp: seq_next_refill)
    from avail_bump [OF rf(1) Nil this] nx Nil rf(2,3) show ?thesis
      by (auto simp: seq_next_refill seq_range_def split: if_splits)
  next
    case (Cons w ws)
    from avail_pop [OF rf(1) Cons] nx Cons rf(2,3) show ?thesis
      by (auto simp: seq_next_refill seq_range_def)
  qed
  then show "seq_inv s'" "v \<in> seq_avail s" "seq_avail s' = seq_avail s - {v}"
    "v \<in> seq_range s" "seq_range s' = seq_range s" by auto
qed

lemma seq_next_fails_iff: "seq_inv s \<Longrightarrow> (\<exists>e. seq_next s = Inl e) \<longleftrightarrow> seq_avail s = {}"
proof -
  assume inv: "seq_inv s"
  note rf = refill_facts [OF inv]
  have "(\<exists>e. seq_next s = Inl e) \<longleftrightarrow>
        seqs (refill s) = [] \<and> seq_current (refill s) = seq_end (refill s)"
    by (auto simp: seq_next_refill split: list.splits)
  also have "\<dots> \<longleftrightarrow> seq_avail (refill s) = {}"
    using rf(1) by (auto simp: seq_avail_def seq_inv_def)
  finally show ?thesis using rf(2) by simp
qed

lemma seq_release_avail:
  "q \<in> seq_range s \<Longrightarrow> seq_avail (seq_release q s) = insert q (seq_avail s)"
  by (auto simp: seq_release_def seq_avail_def seq_range_def)

lemma seq_release_range: "seq_range (seq_release q s) = seq_range s"
  by (simp add: seq_release_def seq_range_def)

lemma seq_release_inv [inv_intros]:
  "seq_inv s \<Longrightarrow> q \<notin> seq_avail s \<Longrightarrow> seq_inv (seq_release q s)"
  by (auto simp: seq_release_def seq_inv_def seq_avail_def)

section \<open>What a client of an id pool relies on\<close>

locale id_source =
  fixes nxt :: "'s \<Rightarrow> (nat \<times> 's) res"
    and rel :: "nat \<Rightarrow> 's \<Rightarrow> 's"
    and avail :: "'s \<Rightarrow> nat set"
    and rng :: "'s \<Rightarrow> nat set"
    and inv :: "'s \<Rightarrow> bool"
  assumes nxt_inv: "inv s \<Longrightarrow> nxt s = Inr (v, s') \<Longrightarrow> inv s'"
    and nxt_avail: "inv s \<Longrightarrow> nxt s = Inr (v, s') \<Longrightarrow> v \<in> avail s \<and> avail s' = avail s - {v}"
    and nxt_rng: "inv s \<Longrightarrow> nxt s = Inr (v, s') \<Longrightarrow> v \<in> rng s \<and> rng s' = rng s"
    and nxt_fails: "inv s \<Longrightarrow> (\<exists>e. nxt s = Inl e) \<longleftrightarrow> avail s = {}"
    and rel_inv: "inv s \<Longrightarrow> q \<notin> avail s \<Longrightarrow> inv (rel q s)"
    and rel_avail: "q \<in> rng s \<Longrightarrow> avail (rel q s) = insert q (avail s)"
    and rel_rng: "rng (rel q s) = rng s"
begin

definition owns :: "'s \<Rightarrow> nat set \<Rightarrow> bool" where
  "owns s held \<longleftrightarrow> inv s \<and> held \<union> avail s = rng s \<and> held \<inter> avail s = {}"

lemma owns_next:
  assumes "owns s held" "nxt s = Inr (v, s')"
  shows "v \<notin> held" "owns s' (insert v held)"
proof -
  have "inv s" using assms(1) by (simp add: owns_def)
  note step = nxt_inv [OF this assms(2)] nxt_avail [OF this assms(2)] nxt_rng [OF this assms(2)]
  from step assms(1) show "v \<notin> held" "owns s' (insert v held)"
    by (auto simp: owns_def)
qed

lemma owns_release:
  assumes "owns s held" "q \<in> held"
  shows "owns (rel q s) (held - {q})"
proof -
  from assms have "q \<in> rng s" "q \<notin> avail s" "inv s"
    by (auto simp: owns_def)
  then show ?thesis
    using assms by (auto simp: owns_def rel_inv rel_avail rel_rng)
qed

lemma owns_exhausted: "owns s held \<Longrightarrow> (\<exists>e. nxt s = Inl e) \<longleftrightarrow> held = rng s"
  using nxt_fails [of s] by (auto simp: owns_def)

end

interpretation pool: id_source seq_next seq_release seq_avail seq_range seq_inv
proof (unfold_locales, goal_cases)
  case 1 then show ?case by (rule seq_next_ok)
next
  case 2 then show ?case by (blast dest: seq_next_ok(2) seq_next_ok(3))
next
  case 3 then show ?case by (blast dest: seq_next_ok(4) seq_next_ok(5))
next
  case 4 then show ?case by (rule seq_next_fails_iff)
next
  case 5 then show ?case by (rule seq_release_inv)
next
  case 6 then show ?case by (rule seq_release_avail)
next
  case 7 show ?case by (rule seq_release_range)
qed

lemma pool_owns_start: "b \<le> e \<Longrightarrow> pool.owns (mk_sequence b e r) {}"
  by (simp add: pool.owns_def mk_sequence_inv mk_sequence_avail mk_sequence_range)

lemma acquire_prefix: "\<exists>vs. seqs (acquire n s) = seqs s @ vs"
proof (induction n s rule: acquire.induct)
  case (2 n s)
  then show ?case by (cases "seq_current s < seq_end s") auto
qed simp

text \<open>The first id a pool hands out is the first of its range.\<close>

lemma seq_next_first:
  assumes "b < e" "0 < r"
  shows "\<exists>s. seq_next (mk_sequence b e r) = Inr (b, s)"
proof -
  obtain n where n: "min (e - b) r = Suc n" using assms by (cases "min (e - b) r") auto
  then obtain vs where "seqs (mk_sequence b e r) = b # vs"
    using assms acquire_prefix [of n "\<lparr>seq_begin = b, seq_end = e, seq_reserve = Suc n, seq_current = Suc b, seqs = [b]\<rparr>"]
    by (auto simp: mk_sequence_def Let_def)
  moreover have "\<exists>ws. seqs (refill (mk_sequence b e r)) = seqs (mk_sequence b e r) @ ws"
    using acquire_prefix by (simp add: refill_def)
  ultimately show ?thesis by (auto simp: seq_next_refill)
qed

section \<open>Runs of a client\<close>

text \<open>
  A client takes ids and gives back ids it holds. A take that throws leaves the state as it
  was; giving back an id that is not held is not a step of a client that follows the
  discipline the header asks for.
\<close>

datatype pool_op = Take | Give nat

fun pool_step :: "pool_op \<Rightarrow> id_pool \<times> nat list \<Rightarrow> id_pool \<times> nat list" where
  "pool_step Take (s, held) =
     (case seq_next s of Inl _ \<Rightarrow> (s, held) | Inr (v, s') \<Rightarrow> (s', v # held))"
| "pool_step (Give q) (s, held) =
     (if q \<in> set held then (seq_release q s, remove1 q held) else (s, held))"

fun pool_run :: "pool_op list \<Rightarrow> id_pool \<times> nat list \<Rightarrow> id_pool \<times> nat list" where
  "pool_run [] st = st"
| "pool_run (x # xs) st = pool_run xs (pool_step x st)"

lemma pool_step_owns:
  assumes "pool.owns (fst st) (set (snd st))" "distinct (snd st)"
  shows "pool.owns (fst (pool_step x st)) (set (snd (pool_step x st)))
         \<and> distinct (snd (pool_step x st)) \<and> seq_range (fst (pool_step x st)) = seq_range (fst st)"
proof (cases x)
  case Take
  obtain s held where st: "st = (s, held)" by (cases st)
  show ?thesis
  proof (cases "seq_next s")
    case (Inl e)
    then show ?thesis using Take st assms by simp
  next
    case (Inr vs)
    obtain v s' where vs: "vs = (v, s')" by (cases vs)
    have own: "pool.owns s (set held)" using assms st by simp
    have nx: "seq_next s = Inr (v, s')" using Inr vs by simp
    have "seq_range s' = seq_range s"
      using pool.nxt_rng nx own by (simp add: pool.owns_def)
    then show ?thesis
      using pool.owns_next [OF own nx] assms(2) Take st nx by simp
  qed
next
  case (Give q)
  then show ?thesis
    using assms pool.owns_release [of "fst st" "set (snd st)" q]
    by (cases st) (auto simp: seq_release_range)
qed

lemma pool_run_owns:
  "pool.owns (fst st) (set (snd st)) \<Longrightarrow> distinct (snd st) \<Longrightarrow>
   pool.owns (fst (pool_run xs st)) (set (snd (pool_run xs st))) \<and>
   distinct (snd (pool_run xs st)) \<and> seq_range (fst (pool_run xs st)) = seq_range (fst st)"
proof (induction xs st rule: pool_run.induct)
  case (2 x xs st)
  from pool_step_owns [OF "2.prems"] "2.IH" show ?case by simp
qed simp

text \<open>
  C35. Ids are never shared: after any sequence of takes and (disciplined) releases, the ids
  held by clients are pairwise different, lie in \<open>[begin, end)\<close>, and together with the ids the
  pool can still hand out they are exactly \<open>[begin, end)\<close>: none is duplicated and none is lost.
\<close>

theorem pool_partition:
  assumes "b \<le> e" and "pool_run ops (mk_sequence b e r, []) = (s, held)"
  shows "distinct held \<and> set held \<inter> seq_avail s = {} \<and> set held \<union> seq_avail s = {b..<e}"
  using pool_run_owns [of "(mk_sequence b e r, [])" ops] pool_owns_start [OF assms(1), of r] assms(2)
  by (simp add: pool.owns_def mk_sequence_range)

theorem pool_partition_witness:
  "(1::nat) \<le> 4 \<and> (\<exists>s held. pool_run [Take, Take, Give 1, Take, Take, Take] (mk_sequence 1 4 2, []) = (s, held)
     \<and> held = [1, 3, 2] \<and> set held \<union> seq_avail s = {1..<4})"
proof -
  obtain s where run: "pool_run [Take, Take, Give 1, Take, Take, Take] (mk_sequence 1 4 2, []) = (s, [1, 3, 2])"
    by (simp add: mk_sequence_def seq_next_def seq_release_def Let_def numeral_2_eq_2)
  have le: "(1::nat) \<le> 4" by simp
  from pool_partition [OF le run] run show ?thesis by auto
qed

text \<open>
  \<open>next\<close> throws exactly when every id of the range is held: a pool never refuses an id
  while one is free, and never hands one out when none is.
\<close>

theorem pool_throws_iff_exhausted:
  assumes "b \<le> e" and "pool_run ops (mk_sequence b e r, []) = (s, held)"
  shows "(\<exists>x. seq_next s = Inl x) \<longleftrightarrow> set held = {b..<e}"
  using pool_run_owns [of "(mk_sequence b e r, [])" ops] pool_owns_start [OF assms(1), of r] assms(2)
    pool.owns_exhausted [of s "set held"]
  by (simp add: mk_sequence_range)

theorem pool_throws_iff_exhausted_witness:
  "\<exists>s held x. pool_run [Take, Take] (mk_sequence 5 7 100, []) = (s, held) \<and> seq_next s = Inl x"
proof -
  obtain s where run: "pool_run [Take, Take] (mk_sequence 5 7 100, []) = (s, [6, 5])"
    by (simp add: mk_sequence_def seq_next_def Let_def numeral_2_eq_2)
  have le: "(5::nat) \<le> 7" by simp
  have "set [6, 5] = {5..<7::nat}" by auto
  with pool_throws_iff_exhausted [OF le run] run show ?thesis by blast
qed

end
