(* ===== verification/Sub_Map.thy ===== *)
theory Sub_Map
  imports Hash_Map Sequence Topic
begin

text \<open>
  Subscriptions (\<^verbatim>\<open>core/channel/message.hpp\<close>, \<^verbatim>\<open>sub.hpp\<close>, \<^verbatim>\<open>sub_map.hpp\<close>,
  \<^verbatim>\<open>src/core/channel/sub_map.cpp\<close>): the table behind a channel. A subscription is stored twice,
  by value: in \<open>all_subs_\<close> under its key and in the table of its mode under its topic.
  Unsubscribing only marks both copies; \<open>purge\<close> removes them later and gives the key back.

  A condition or a callback is a function of the message: \<open>None\<close> (a condition) or \<open>False\<close> (a
  callback) stands for a thrown \<^verbatim>\<open>std::exception\<close>, which \<open>post_topic\<close> catches and which ends
  its loop. The keys of the callbacks invoked are returned in the order of the calls. Callbacks
  do not call back into the same table (its lock is held while they run). The clock enters as
  the milliseconds elapsed since the last purge.
\<close>

section \<open>Messages and subscriptions\<close>

(* [include/wise.kernel/core/channel/message.hpp:10-50 message] *)
record 'x message =
  msg_topic :: topic
  msg_body :: 'x

(* [include/wise.kernel/core/channel/sub.hpp:18-22 sub::mode] *)
datatype sub_mode = Immediate | Delayed

(* [include/wise.kernel/core/channel/sub.hpp:79-86 sub] *)
record 'x sub =
  sub_key :: nat
  sub_topic :: topic
  sub_cond :: "'x message \<Rightarrow> bool option"
  sub_cb :: "'x message \<Rightarrow> bool"
  sub_mode :: sub_mode
  sub_post_count :: nat
  sub_unsub :: bool

(* [include/wise.kernel/core/channel/sub.hpp:25-32 sub::sub] *)
definition mk_sub :: "nat \<Rightarrow> topic \<Rightarrow> ('x message \<Rightarrow> bool option) \<Rightarrow> ('x message \<Rightarrow> bool) \<Rightarrow> sub_mode \<Rightarrow> 'x sub" where
  "mk_sub key tp cond cb md =
     \<lparr>sub_key = key, sub_topic = tp, sub_cond = cond, sub_cb = cb, sub_mode = md, sub_post_count = 0, sub_unsub = False\<rparr>"

text \<open>How \<open>sub::post\<close> ends: it returns false, returns true, or the condition or the callback throws.\<close>

datatype posted = Refused | Called | Cond_Threw | Cb_Threw

(* [include/wise.kernel/core/channel/sub.hpp:39-52 sub::post] *)
definition sub_post :: "'x message \<Rightarrow> 'x sub \<Rightarrow> posted \<times> 'x sub" where
  "sub_post m s =
     (if \<not> topic_match (sub_topic s) (msg_topic m) then (Refused, s)
      else case sub_cond s m of
        None \<Rightarrow> (Cond_Threw, s)
      | Some False \<Rightarrow> (Refused, s)
      | Some True \<Rightarrow> if sub_cb s m then (Called, s\<lparr>sub_post_count := sub_post_count s + 1\<rparr>) else (Cb_Threw, s))"

(* [include/wise.kernel/core/channel/sub.hpp:54-57 sub::unsubscribe] *)
definition sub_unsubscribe :: "'x sub \<Rightarrow> 'x sub" where
  "sub_unsubscribe s = s\<lparr>sub_unsub := True\<rparr>"

section \<open>The tables\<close>

(* [include/wise.kernel/core/channel/sub_map.hpp:61-68 sub_map::topic_entry] *)
record 'x topic_entry =
  te_topic :: topic
  te_post_count :: nat
  te_subs :: "(nat, 'x sub) umap"

type_synonym 'x entry_map = "(topic, 'x topic_entry) umap"

(* [include/wise.kernel/core/channel/sub_map.hpp:93-101 sub_map] *)
record 'x sub_map =
  sm_immediate :: "'x entry_map"
  sm_delayed :: "'x entry_map"
  sm_all :: "(nat, 'x sub) umap"
  sm_seq :: id_pool
  sm_purge_keys :: "nat list"

(* [src/core/channel/sub_map.cpp:9-13 sub_map::sub_map] *)
definition mk_sub_map :: "'x sub_map" where
  "mk_sub_map = \<lparr>sm_immediate = [], sm_delayed = [], sm_all = [], sm_seq = mk_sequence 1 (2 ^ 32 - 1) 1000, sm_purge_keys = []\<rparr>"

definition entries :: "sub_mode \<Rightarrow> 'x sub_map \<Rightarrow> 'x entry_map" where
  "entries md sm = (case md of Immediate \<Rightarrow> sm_immediate sm | Delayed \<Rightarrow> sm_delayed sm)"

definition set_entries :: "sub_mode \<Rightarrow> 'x entry_map \<Rightarrow> 'x sub_map \<Rightarrow> 'x sub_map" where
  "set_entries md em sm = (case md of Immediate \<Rightarrow> sm\<lparr>sm_immediate := em\<rparr> | Delayed \<Rightarrow> sm\<lparr>sm_delayed := em\<rparr>)"

(* [src/core/channel/sub_map.cpp:115-118 sub_map::subscribe_topic] *)
definition subscribe_topic :: "'x sub \<Rightarrow> 'x topic_entry \<Rightarrow> 'x topic_entry" where
  "subscribe_topic s e = e\<lparr>te_subs := um_insert (sub_key s) s (te_subs e)\<rparr>"

(* [src/core/channel/sub_map.cpp:96-113 sub_map::subscribe_mode] *)
definition subscribe_mode :: "'x sub \<Rightarrow> 'x entry_map \<Rightarrow> 'x entry_map" where
  "subscribe_mode s em =
     (if um_find (sub_topic s) em = None then
        um_insert (sub_topic s) (subscribe_topic s \<lparr>te_topic = sub_topic s, te_post_count = 0, te_subs = []\<rparr>) em
      else um_adjust (sub_topic s) (subscribe_topic s) em)"

(* [src/core/channel/sub_map.cpp:20-39 sub_map::subscribe] *)
definition sm_subscribe :: "topic \<Rightarrow> ('x message \<Rightarrow> bool option) \<Rightarrow> ('x message \<Rightarrow> bool) \<Rightarrow> sub_mode \<Rightarrow> 'x sub_map \<Rightarrow> (nat \<times> 'x sub_map) res" where
  "sm_subscribe tp cond cb md sm =
     bind_res (seq_next (sm_seq sm)) (\<lambda>(key, sq).
       let s = mk_sub key tp cond cb md;
           sm1 = sm\<lparr>sm_seq := sq, sm_all := um_insert key s (sm_all sm)\<rparr>
       in Inr (key, set_entries md (subscribe_mode s (entries md sm1)) sm1))"

(* [src/core/channel/sub_map.cpp:41-51 sub_map::subscribe] *)
definition sm_subscribe_all :: "topic \<Rightarrow> ('x message \<Rightarrow> bool) \<Rightarrow> sub_mode \<Rightarrow> 'x sub_map \<Rightarrow> (nat \<times> 'x sub_map) res" where
  "sm_subscribe_all tp cb md sm = sm_subscribe tp (\<lambda>m. Some True) cb md sm"

(* [src/core/channel/sub_map.cpp:120-136 sub_map::unsubscribe_mode] *)
definition unsubscribe_mode :: "'x sub \<Rightarrow> 'x entry_map \<Rightarrow> bool \<times> 'x entry_map" where
  "unsubscribe_mode s em =
     (case um_find (sub_topic s) em of
        None \<Rightarrow> (False, em)
      | Some e \<Rightarrow>
          if um_find (sub_key s) (te_subs e) = None then (False, em)
          else (True, um_adjust (sub_topic s) (\<lambda>e. e\<lparr>te_subs := um_adjust (sub_key s) sub_unsubscribe (te_subs e)\<rparr>) em))"

(* [src/core/channel/sub_map.cpp:53-71 sub_map::unsubscribe] *)
definition sm_unsubscribe :: "nat \<Rightarrow> 'x sub_map \<Rightarrow> bool \<times> 'x sub_map" where
  "sm_unsubscribe key sm =
     (case um_find key (sm_all sm) of
        None \<Rightarrow> (False, sm)
      | Some s \<Rightarrow>
          let sm1 = sm\<lparr>sm_all := um_adjust key sub_unsubscribe (sm_all sm), sm_purge_keys := sm_purge_keys sm @ [key]\<rparr>;
              (r, em) = unsubscribe_mode s (entries (sub_mode s) sm1)
          in (r, set_entries (sub_mode s) em sm1))"

(* [src/core/channel/sub_map.cpp:73-85 sub_map::get_sub] *)
definition sm_get_sub :: "nat \<Rightarrow> 'x sub_map \<Rightarrow> 'x sub res" where
  "sm_get_sub key sm =
     (case um_find key (sm_all sm) of Some s \<Rightarrow> Inr s | None \<Rightarrow> Inl (Throw ''subscription key is invalid''))"

(* [src/core/channel/sub_map.cpp:87-94 sub_map::clear] *)
definition sm_clear :: "'x sub_map \<Rightarrow> 'x sub_map" where
  "sm_clear sm = sm\<lparr>sm_delayed := [], sm_immediate := [], sm_all := []\<rparr>"

section \<open>Posting\<close>

(* [src/core/channel/sub_map.cpp:226-249 sub_map::post_topic] *)
fun post_subs :: "'x message \<Rightarrow> (nat, 'x sub) umap \<Rightarrow> nat \<times> nat list \<times> (nat, 'x sub) umap" where
  "post_subs m [] = (0, [], [])"
| "post_subs m ((k, s) # ss) =
     (if sub_unsub s then (case post_subs m ss of (n, cs, ss') \<Rightarrow> (n, cs, (k, s) # ss'))
      else case sub_post m s of
        (Refused, s') \<Rightarrow> (case post_subs m ss of (n, cs, ss') \<Rightarrow> (n, cs, (k, s') # ss'))
      | (Called, s') \<Rightarrow> (case post_subs m ss of (n, cs, ss') \<Rightarrow> (Suc n, k # cs, (k, s') # ss'))
      | (Cond_Threw, s') \<Rightarrow> (0, [], (k, s') # ss)
      | (Cb_Threw, s') \<Rightarrow> (0, [k], (k, s') # ss))"

(* [src/core/channel/sub_map.cpp:204-252 sub_map::post_topic] *)
definition post_topic :: "topic \<Rightarrow> 'x message \<Rightarrow> 'x entry_map \<Rightarrow> nat \<times> nat list \<times> 'x entry_map" where
  "post_topic tp m em =
     (if \<not> topic_valid tp then (0, [], em)
      else case um_find tp em of
        None \<Rightarrow> (0, [], em)
      | Some e \<Rightarrow>
          (case post_subs m (te_subs e) of
             (n, cs, ss) \<Rightarrow> (n, cs, um_adjust tp (\<lambda>e. e\<lparr>te_subs := ss\<rparr>) em)))"

(* [src/core/channel/sub_map.cpp:184-192 sub_map::post_mode] *)
definition post_mode_topic :: "topic \<Rightarrow> 'x message \<Rightarrow> 'x entry_map \<Rightarrow> nat \<times> nat list \<times> 'x entry_map" where
  "post_mode_topic tp m em =
     (case post_topic tp m em of (n1, cs1, em1) \<Rightarrow>
       (case post_topic (get_group_topic tp) m em1 of (n2, cs2, em2) \<Rightarrow> (n1 + n2, cs1 @ cs2, em2)))"

(* [src/core/channel/sub_map.cpp:194-202 sub_map::post_mode] *)
definition post_mode :: "'x message \<Rightarrow> 'x entry_map \<Rightarrow> nat \<times> nat list \<times> 'x entry_map" where
  "post_mode m em =
     (case post_topic (msg_topic m) m em of (n1, cs1, em1) \<Rightarrow>
       (case post_topic (get_group_topic (msg_topic m)) m em1 of (n2, cs2, em2) \<Rightarrow> (n1 + n2, cs1 @ cs2, em2)))"

(* [src/core/channel/sub_map.cpp:289-297 sub_map::purge_mode] *)
definition purge_mode :: "'x sub \<Rightarrow> 'x entry_map \<Rightarrow> 'x entry_map" where
  "purge_mode s em =
     (if um_find (sub_topic s) em = None then em
      else um_adjust (sub_topic s) (\<lambda>e. e\<lparr>te_subs := um_erase (sub_key s) (te_subs e)\<rparr>) em)"

(* [src/core/channel/sub_map.cpp:263-287 sub_map::purge] *)
fun purge_keys :: "nat list \<Rightarrow> 'x sub_map \<Rightarrow> 'x sub_map" where
  "purge_keys [] sm = sm\<lparr>sm_purge_keys := []\<rparr>"
| "purge_keys (key # keys) sm =
     (case um_find key (sm_all sm) of
        None \<Rightarrow> purge_keys keys sm
      | Some s \<Rightarrow> purge_keys keys
          (sm\<lparr>sm_immediate := purge_mode s (sm_immediate sm), sm_delayed := purge_mode s (sm_delayed sm),
              sm_seq := seq_release key (sm_seq sm), sm_all := um_erase key (sm_all sm)\<rparr>))"

definition sm_purge :: "'x sub_map \<Rightarrow> 'x sub_map" where
  "sm_purge sm = purge_keys (sm_purge_keys sm) sm"

(* [include/wise.kernel/core/channel/sub_map.hpp:72-72 sub_map::purge_sub_interval] *)
definition purge_sub_interval :: nat where
  "purge_sub_interval = 5000"

(* [src/core/channel/sub_map.cpp:254-261 sub_map::purge_wait] *)
definition purge_wait :: "nat \<Rightarrow> 'x sub_map \<Rightarrow> 'x sub_map" where
  "purge_wait elapsed sm = (if elapsed \<ge> purge_sub_interval then sm_purge sm else sm)"

(* [src/core/channel/sub_map.cpp:138-159 sub_map::post] *)
definition sm_post_topic :: "nat \<Rightarrow> topic \<Rightarrow> 'x message \<Rightarrow> sub_mode \<Rightarrow> 'x sub_map \<Rightarrow> nat \<times> nat list \<times> 'x sub_map" where
  "sm_post_topic elapsed tp m md sm =
     (case post_mode_topic tp m (entries md sm) of (n, cs, em) \<Rightarrow> (n, cs, purge_wait elapsed (set_entries md em sm)))"

(* [src/core/channel/sub_map.cpp:161-182 sub_map::post] *)
definition sm_post :: "nat \<Rightarrow> 'x message \<Rightarrow> sub_mode \<Rightarrow> 'x sub_map \<Rightarrow> nat \<times> nat list \<times> 'x sub_map" where
  "sm_post elapsed m md sm =
     (case post_mode m (entries md sm) of (n, cs, em) \<Rightarrow> (n, cs, purge_wait elapsed (set_entries md em sm)))"

section \<open>Looking up a stored subscription\<close>

definition em_find :: "topic \<Rightarrow> nat \<Rightarrow> 'x entry_map \<Rightarrow> 'x sub option" where
  "em_find tp k em = (case um_find tp em of None \<Rightarrow> None | Some e \<Rightarrow> um_find k (te_subs e))"

definition em_ok :: "'x entry_map \<Rightarrow> bool" where
  "em_ok em \<longleftrightarrow> um_ok em \<and> (\<forall>tp e. um_find tp em = Some e \<longrightarrow> um_ok (te_subs e))"

lemma em_find_Nil [simp]: "em_find tp k [] = None" "em_ok []"
  by (simp_all add: em_find_def em_ok_def)

lemma entries_set [simp]:
  "entries md' (set_entries md em sm) = (if md' = md then em else entries md' sm)"
  "sm_all (set_entries md em sm) = sm_all sm" "sm_seq (set_entries md em sm) = sm_seq sm"
  "sm_purge_keys (set_entries md em sm) = sm_purge_keys sm"
  by (cases md; cases md'; simp add: entries_def set_entries_def)+

lemma entries_frame [simp]:
  "entries md (sm\<lparr>sm_all := al\<rparr>) = entries md sm" "entries md (sm\<lparr>sm_seq := sq\<rparr>) = entries md sm"
  "entries md (sm\<lparr>sm_purge_keys := ks\<rparr>) = entries md sm"
  by (cases md; simp add: entries_def)+

lemma em_find_subscribe:
  "em_find tp k (subscribe_mode s em) =
     (if tp = sub_topic s \<and> k = sub_key s \<and> em_find tp k em = None then Some s else em_find tp k em)"
  by (auto simp: em_find_def subscribe_mode_def subscribe_topic_def split: option.splits)

lemma em_ok_subscribe [inv_intros]: "em_ok em \<Longrightarrow> em_ok (subscribe_mode s em)"
  by (auto simp: em_ok_def subscribe_mode_def subscribe_topic_def split: if_splits)

lemma unsubscribe_mode_result:
  "fst (unsubscribe_mode s em) \<longleftrightarrow> em_find (sub_topic s) (sub_key s) em \<noteq> None"
  by (auto simp: unsubscribe_mode_def em_find_def split: option.splits)

lemma em_find_unsubscribe:
  "em_find tp k (snd (unsubscribe_mode s em)) =
     (if tp = sub_topic s \<and> k = sub_key s then map_option sub_unsubscribe (em_find tp k em) else em_find tp k em)"
  by (auto simp: unsubscribe_mode_def em_find_def split: option.splits)

lemma em_ok_unsubscribe [inv_intros]: "em_ok em \<Longrightarrow> em_ok (snd (unsubscribe_mode s em))"
  by (auto simp: em_ok_def unsubscribe_mode_def split: option.splits if_splits)

lemma em_find_purge:
  "em_find tp k (purge_mode s em) = (if tp = sub_topic s \<and> k = sub_key s then None else em_find tp k em)"
  by (auto simp: em_find_def purge_mode_def split: option.splits)

lemma em_ok_purge [inv_intros]: "em_ok em \<Longrightarrow> em_ok (purge_mode s em)"
  by (auto simp: em_ok_def purge_mode_def split: if_splits)

lemmas em_finds = em_find_subscribe em_find_unsubscribe em_find_purge

section \<open>What one pass over the subscriptions of a topic does\<close>

text \<open>A stored subscription without its counter.\<close>

definition plain :: "'x sub \<Rightarrow> 'x sub" where
  "plain s = s\<lparr>sub_post_count := 0\<rparr>"

lemma plain_simps [simp]:
  "sub_key (plain s) = sub_key s" "sub_topic (plain s) = sub_topic s" "sub_cond (plain s) = sub_cond s"
  "sub_cb (plain s) = sub_cb s" "sub_mode (plain s) = sub_mode s" "sub_unsub (plain s) = sub_unsub s"
  "sub_post_count (plain s) = 0" "plain (plain s) = plain s" "plain (s\<lparr>sub_post_count := n\<rparr>) = plain s"
  "plain (sub_unsubscribe s) = sub_unsubscribe (plain s)" "plain (mk_sub k tp c cb md) = mk_sub k tp c cb md"
  by (simp_all add: plain_def sub_unsubscribe_def mk_sub_def)

lemma plain_same: "sub_post_count s = 0 \<Longrightarrow> plain s = s"
  by (simp add: plain_def)

text \<open>The message is one the subscription asks for; and neither of its functions throws on it.\<close>

definition wants :: "'x message \<Rightarrow> 'x sub \<Rightarrow> bool" where
  "wants m s \<longleftrightarrow> topic_match (sub_topic s) (msg_topic m) \<and> sub_cond s m = Some True"

definition quiet :: "'x message \<Rightarrow> 'x sub \<Rightarrow> bool" where
  "quiet m s \<longleftrightarrow> sub_cond s m \<noteq> None \<and> sub_cb s m"

lemma wants_plain [simp]: "wants m (plain s) = wants m s" "quiet m (plain s) = quiet m s"
  by (simp_all add: wants_def quiet_def)

lemma sub_post_cases:
  obtains (refused) "sub_post m s = (Refused, s)" "\<not> wants m s"
  | (called) "sub_post m s = (Called, s\<lparr>sub_post_count := sub_post_count s + 1\<rparr>)" "wants m s"
  | (cond_threw) "sub_post m s = (Cond_Threw, s)" "\<not> wants m s" "topic_match (sub_topic s) (msg_topic m)" "\<not> quiet m s"
  | (cb_threw) "sub_post m s = (Cb_Threw, s)" "wants m s" "topic_match (sub_topic s) (msg_topic m)" "\<not> quiet m s"
proof (cases "topic_match (sub_topic s) (msg_topic m)")
  case True
  show ?thesis
  proof (cases "sub_cond s m")
    case None
    with True show ?thesis by (intro cond_threw) (simp_all add: sub_post_def wants_def quiet_def)
  next
    case (Some b)
    show ?thesis
    proof (cases b)
      case t: True
      with Some True show ?thesis
        by (cases "sub_cb s m") (auto simp: sub_post_def wants_def quiet_def intro: called cb_threw)
    next
      case False
      with Some True show ?thesis by (intro refused) (simp_all add: sub_post_def wants_def)
    qed
  qed
next
  case False
  then show ?thesis by (intro refused) (simp_all add: sub_post_def wants_def)
qed

lemma post_subs_same:
  "map (map_prod id plain) (snd (snd (post_subs m ss))) = map (map_prod id plain) ss"
proof (induction ss)
  case (Cons x ss)
  obtain k s where x: "x = (k, s)" by (cases x)
  from Cons x show ?case
    by (cases m s rule: sub_post_cases) (simp_all add: case_prod_beta)
qed simp

lemma post_subs_calls:
  "fst (post_subs m ss) \<le> length (fst (snd (post_subs m ss))) \<and>
   set (fst (snd (post_subs m ss))) \<subseteq> {k. \<exists>s. (k, s) \<in> set ss \<and> \<not> sub_unsub s \<and> wants m s}"
proof (induction ss)
  case (Cons x ss)
  obtain k s where x: "x = (k, s)" by (cases x)
  show ?case
  proof (cases "sub_unsub s")
    case True
    with Cons x show ?thesis by (auto simp: case_prod_beta)
  next
    case False
    with Cons x show ?thesis
      by (cases m s rule: sub_post_cases) (auto simp: case_prod_beta)
  qed
qed simp

text \<open>Without exceptions the calls are a selection: those subscriptions, in storage order.\<close>

lemma post_subs_quiet:
  "\<forall>(k, s) \<in> set ss. \<not> sub_unsub s \<and> topic_match (sub_topic s) (msg_topic m) \<longrightarrow> quiet m s \<Longrightarrow>
   fst (post_subs m ss) = length (fst (snd (post_subs m ss))) \<and>
   fst (snd (post_subs m ss)) = map fst (filter (\<lambda>(k, s). \<not> sub_unsub s \<and> wants m s) ss)"
proof (induction ss)
  case (Cons x ss)
  obtain k s where x: "x = (k, s)" by (cases x)
  show ?case
  proof (cases "sub_unsub s")
    case True
    with Cons x show ?thesis by (auto simp: case_prod_beta)
  next
    case False
    with Cons x show ?thesis
      by (cases m s rule: sub_post_cases) (auto simp: case_prod_beta)
  qed
qed simp

lemma um_find_map: "um_find k (map (map_prod id f) ss) = map_option f (um_find k ss)"
  by (induction ss) (auto simp: um_find_def)

lemma post_subs_find: "map_option plain (um_find k (snd (snd (post_subs m ss)))) = map_option plain (um_find k ss)"
  by (metis post_subs_same um_find_map)

lemma post_subs_ok: "um_ok (snd (snd (post_subs m ss))) \<longleftrightarrow> um_ok ss"
proof -
  have "map fst (snd (snd (post_subs m ss))) = map fst ss"
    using arg_cong [OF post_subs_same [of m ss], of "map fst"] by (simp add: comp_def)
  then show ?thesis by (simp add: um_ok_def)
qed

lemma post_topic_find:
  "map_option plain (em_find tp' k (snd (snd (post_topic tp m em)))) = map_option plain (em_find tp' k em)"
  using post_subs_find [of k m] by (auto simp: post_topic_def em_find_def case_prod_beta split: option.splits)

lemma post_topic_ok [inv_intros]: "em_ok em \<Longrightarrow> em_ok (snd (snd (post_topic tp m em)))"
  by (auto simp: post_topic_def em_ok_def case_prod_beta post_subs_ok split: option.splits if_splits)

text \<open>The keys one pass over a topic has to call.\<close>

definition due :: "topic \<Rightarrow> 'x message \<Rightarrow> 'x entry_map \<Rightarrow> nat set" where
  "due tp m em = {k. topic_valid tp \<and> (\<exists>s. em_find tp k em = Some s \<and> \<not> sub_unsub s \<and> wants m s)}"

definition calm :: "topic \<Rightarrow> 'x message \<Rightarrow> 'x entry_map \<Rightarrow> bool" where
  "calm tp m em \<longleftrightarrow> (\<forall>k s. em_find tp k em = Some s \<and> \<not> sub_unsub s \<and> topic_match (sub_topic s) (msg_topic m) \<longrightarrow> quiet m s)"

lemma due_plain: "(\<And>k. map_option plain (em_find tp k em') = map_option plain (em_find tp k em)) \<Longrightarrow> due tp m em' = due tp m em"
proof -
  assume eq: "\<And>k. map_option plain (em_find tp k em') = map_option plain (em_find tp k em)"
  have "due tp m e = {k. topic_valid tp \<and> (\<exists>s. map_option plain (em_find tp k e) = Some s \<and> \<not> sub_unsub s \<and> wants m s)}" for e
    by (auto simp: due_def)
  then show ?thesis by (simp only: eq)
qed

lemma calm_plain: "(\<And>k. map_option plain (em_find tp k em') = map_option plain (em_find tp k em)) \<Longrightarrow> calm tp m em' = calm tp m em"
proof -
  assume eq: "\<And>k. map_option plain (em_find tp k em') = map_option plain (em_find tp k em)"
  have "calm tp m e \<longleftrightarrow> (\<forall>k s. map_option plain (em_find tp k e) = Some s \<and> \<not> sub_unsub s \<and>
      topic_match (sub_topic s) (msg_topic m) \<longrightarrow> quiet m s)" for e
  proof -
    have "(\<forall>s. em_find tp k e = Some s \<and> \<not> sub_unsub s \<and> topic_match (sub_topic s) (msg_topic m) \<longrightarrow> quiet m s) \<longleftrightarrow>
        (\<forall>s. map_option plain (em_find tp k e) = Some s \<and> \<not> sub_unsub s \<and> topic_match (sub_topic s) (msg_topic m) \<longrightarrow> quiet m s)" for k
      by (cases "em_find tp k e") auto
    then show ?thesis by (simp only: calm_def)
  qed
  then show ?thesis by (simp only: eq)
qed

lemma post_topic_calls:
  assumes "em_ok em" "post_topic tp m em = (n, cs, em')"
  shows "n \<le> length cs" "set cs \<subseteq> due tp m em"
proof -
  have "n \<le> length cs \<and> set cs \<subseteq> due tp m em"
  proof (cases "topic_valid tp \<and> um_find tp em \<noteq> None")
    case True
    then obtain e where e: "um_find tp em = Some e" by blast
    then have "um_ok (te_subs e)" using assms(1) by (simp add: em_ok_def)
    then show ?thesis
      using assms(2) e True post_subs_calls [of m "te_subs e"]
      by (auto simp: post_topic_def due_def em_find_def um_find_mem case_prod_beta)
  next
    case False
    then show ?thesis using assms(2) by (auto simp: post_topic_def split: if_splits)
  qed
  then show "n \<le> length cs" "set cs \<subseteq> due tp m em" by simp_all
qed

lemma post_topic_quiet:
  assumes "em_ok em" "calm tp m em" "post_topic tp m em = (n, cs, em')"
  shows "n = length cs" "distinct cs" "set cs = due tp m em"
proof -
  have "n = length cs \<and> distinct cs \<and> set cs = due tp m em"
  proof (cases "topic_valid tp \<and> um_find tp em \<noteq> None")
    case True
    then obtain e where e: "um_find tp em = Some e" by blast
    then have ok: "um_ok (te_subs e)" using assms(1) by (simp add: em_ok_def)
    have "\<forall>(k, s) \<in> set (te_subs e). \<not> sub_unsub s \<and> topic_match (sub_topic s) (msg_topic m) \<longrightarrow> quiet m s"
      using assms(2) e ok by (auto simp: calm_def em_find_def um_find_mem)
    note q = post_subs_quiet [OF this]
    have "n = fst (post_subs m (te_subs e))" "cs = fst (snd (post_subs m (te_subs e)))"
      using assms(3) e True by (auto simp: post_topic_def case_prod_beta)
    with q have cs: "cs = map fst (filter (\<lambda>(k, s). \<not> sub_unsub s \<and> wants m s) (te_subs e))" "n = length cs"
      by metis+
    have "distinct cs" using ok unfolding cs(1) um_ok_def by (simp add: distinct_map_filter)
    moreover have "set cs = due tp m em"
      using True e ok by (force simp: cs(1) due_def em_find_def um_find_mem)
    ultimately show ?thesis using cs(2) by simp
  next
    case False
    then show ?thesis using assms(3) by (auto simp: post_topic_def due_def em_find_def split: if_splits)
  qed
  then show "n = length cs" "distinct cs" "set cs = due tp m em" by simp_all
qed

section \<open>Both passes\<close>

lemma post_mode_own: "post_mode m em = post_mode_topic (msg_topic m) m em"
  by (simp add: post_mode_def post_mode_topic_def)

lemma post_mode_frame:
  assumes "post_mode_topic tp m em = (n, cs, em')"
  shows "map_option plain (em_find tp' k em') = map_option plain (em_find tp' k em)" "em_ok em \<Longrightarrow> em_ok em'"
  using assms post_topic_find [of tp' k tp m em]
    post_topic_find [of tp' k "get_group_topic tp" m "snd (snd (post_topic tp m em))"]
    post_topic_ok [of em tp m] post_topic_ok [of "snd (snd (post_topic tp m em))" "get_group_topic tp" m]
  by (auto simp: post_mode_topic_def case_prod_beta)

lemma post_mode_passes:
  assumes "post_mode_topic tp m em = (n, cs, em')" "em_ok em"
  obtains n1 cs1 em1 n2 cs2 where "post_topic tp m em = (n1, cs1, em1)" "post_topic (get_group_topic tp) m em1 = (n2, cs2, em')"
    "n = n1 + n2" "cs = cs1 @ cs2" "em_ok em1" "due tp' m em1 = due tp' m em" "calm tp' m em1 = calm tp' m em"
proof -
  obtain n1 cs1 em1 where p1: "post_topic tp m em = (n1, cs1, em1)" by (cases "post_topic tp m em")
  obtain n2 cs2 em2 where p2: "post_topic (get_group_topic tp) m em1 = (n2, cs2, em2)" by (cases "post_topic (get_group_topic tp) m em1")
  have f: "map_option plain (em_find tp' k em1) = map_option plain (em_find tp' k em)" for k
    using post_topic_find [of tp' k tp m em] p1 by simp
  show thesis
    using that [OF p1] p2 assms(1) post_topic_ok [OF assms(2), of tp m] p1 due_plain [OF f] calm_plain [OF f]
    by (simp add: post_mode_topic_def)
qed

lemma post_mode_calls:
  assumes "post_mode_topic tp m em = (n, cs, em')" "em_ok em"
  shows "set cs \<subseteq> due tp m em \<union> due (get_group_topic tp) m em" "n \<le> length cs"
proof -
  obtain n1 cs1 em1 n2 cs2 where p: "post_topic tp m em = (n1, cs1, em1)" "post_topic (get_group_topic tp) m em1 = (n2, cs2, em')"
    "n = n1 + n2" "cs = cs1 @ cs2" "em_ok em1" "due (get_group_topic tp) m em1 = due (get_group_topic tp) m em"
    by (rule post_mode_passes [OF assms])
  show "set cs \<subseteq> due tp m em \<union> due (get_group_topic tp) m em" "n \<le> length cs"
    using post_topic_calls [OF assms(2) p(1)] post_topic_calls [OF p(5,2)] p(3,4,6) by auto
qed

lemma post_mode_quiet:
  assumes "post_mode_topic tp m em = (n, cs, em')" "em_ok em" "calm tp m em" "calm (get_group_topic tp) m em"
  obtains cs1 cs2 where "cs = cs1 @ cs2" "n = length cs" "distinct cs1" "distinct cs2"
    "set cs1 = due tp m em" "set cs2 = due (get_group_topic tp) m em"
proof -
  obtain n1 cs1 em1 n2 cs2 where p: "post_topic tp m em = (n1, cs1, em1)" "post_topic (get_group_topic tp) m em1 = (n2, cs2, em')"
    "n = n1 + n2" "cs = cs1 @ cs2" "em_ok em1" "due (get_group_topic tp) m em1 = due (get_group_topic tp) m em"
    "calm (get_group_topic tp) m em1 = calm (get_group_topic tp) m em"
    by (rule post_mode_passes [OF assms(1,2)])
  show thesis
    using that [of cs1 cs2] post_topic_quiet [OF assms(2,3) p(1)] post_topic_quiet [OF p(5) _ p(2)] p(3,4,6,7) assms(4) by auto
qed

end
