(* ===== verification/Subscriptions.thy ===== *)
theory Subscriptions
  imports Sub_Map
begin

text \<open>
  What the subscription table promises: its invariant (the two copies of a subscription agree,
  keys are held exclusively), the abstract table of live subscriptions it implements, and the
  contract \<open>registry\<close> a channel relies on.
\<close>

section \<open>Invariant\<close>

definition filed :: "sub_mode \<Rightarrow> topic \<Rightarrow> nat \<Rightarrow> 'x sub_map \<Rightarrow> 'x sub option" where
  "filed md tp k sm = em_find tp k (entries md sm)"

text \<open>
  \<open>held\<close> are the keys taken from the id pool, \<open>K\<close> the keys waiting to be purged. The stored
  copies agree up to the counter, which only the filed copy moves.
\<close>

definition sm_core :: "nat set \<Rightarrow> nat set \<Rightarrow> 'x sub_map \<Rightarrow> bool" where
  "sm_core held K sm \<longleftrightarrow>
     em_ok (sm_immediate sm) \<and> em_ok (sm_delayed sm) \<and> um_ok (sm_all sm) \<and>
     pool.owns (sm_seq sm) held \<and> {k. um_find k (sm_all sm) \<noteq> None} \<subseteq> held \<and>
     (\<forall>k s. um_find k (sm_all sm) = Some s \<longrightarrow> sub_key s = k \<and> sub_post_count s = 0 \<and> (sub_unsub s \<longleftrightarrow> k \<in> K)) \<and>
     (\<forall>md tp k. map_option plain (filed md tp k sm) =
        (case um_find k (sm_all sm) of None \<Rightarrow> None | Some s \<Rightarrow> if sub_mode s = md \<and> sub_topic s = tp then Some s else None))"

definition sm_inv :: "'x sub_map \<Rightarrow> bool" where
  "sm_inv sm \<longleftrightarrow> (\<exists>held. sm_core held (set (sm_purge_keys sm)) sm \<and> set (sm_purge_keys sm) \<subseteq> held)"

lemma sm_coreD:
  assumes "sm_core held K sm"
  shows "em_ok (entries md sm)" "um_ok (sm_all sm)" "pool.owns (sm_seq sm) held"
    and "um_find k (sm_all sm) = Some s \<Longrightarrow> k \<in> held \<and> sub_key s = k \<and> sub_post_count s = 0 \<and> (sub_unsub s \<longleftrightarrow> k \<in> K)"
    and "map_option plain (filed md tp k sm) =
        (case um_find k (sm_all sm) of None \<Rightarrow> None | Some s \<Rightarrow> if sub_mode s = md \<and> sub_topic s = tp then Some s else None)"
  using assms by (auto simp: sm_core_def entries_def split: sub_mode.splits)

lemma sm_coreI:
  assumes "\<And>md. em_ok (entries md sm)" "um_ok (sm_all sm)" "pool.owns (sm_seq sm) held"
    and "\<And>k s. um_find k (sm_all sm) = Some s \<Longrightarrow> k \<in> held \<and> sub_key s = k \<and> sub_post_count s = 0 \<and> (sub_unsub s \<longleftrightarrow> k \<in> K)"
    and "\<And>md tp k. map_option plain (filed md tp k sm) =
        (case um_find k (sm_all sm) of None \<Rightarrow> None | Some s \<Rightarrow> if sub_mode s = md \<and> sub_topic s = tp then Some s else None)"
  shows "sm_core held K sm"
  using assms(1) [of Immediate] assms(1) [of Delayed] assms(2-5) by (auto simp: sm_core_def entries_def)

section \<open>The live subscriptions\<close>

definition live :: "'x sub_map \<Rightarrow> nat \<Rightarrow> 'x sub option" where
  "live sm k = (case um_find k (sm_all sm) of None \<Rightarrow> None | Some s \<Rightarrow> if sub_unsub s then None else Some s)"

lemma mk_sub_map_inv: "sm_inv mk_sub_map" "live mk_sub_map = Map.empty"
proof -
  have "sm_core {} {} mk_sub_map"
    by (rule sm_coreI) (simp_all add: mk_sub_map_def entries_def filed_def pool_owns_start split: sub_mode.splits)
  then show "sm_inv mk_sub_map" by (auto simp: sm_inv_def mk_sub_map_def)
  show "live mk_sub_map = Map.empty" by (rule ext) (simp add: live_def mk_sub_map_def)
qed

lemma sm_subscribe_ok:
  assumes "sm_inv sm" "sm_subscribe tp cond cb md sm = Inr (k, sm')"
  shows "sm_inv sm'" "live sm k = None" "live sm' = (live sm)(k \<mapsto> mk_sub k tp cond cb md)"
proof -
  from assms(1) obtain held where c: "sm_core held (set (sm_purge_keys sm)) sm" and pk: "set (sm_purge_keys sm) \<subseteq> held"
    by (auto simp: sm_inv_def)
  let ?s = "mk_sub k tp cond cb md"
  from assms(2) obtain sq where sq: "seq_next (sm_seq sm) = Inr (k, sq)"
    and sm': "sm' = set_entries md (subscribe_mode ?s (entries md sm)) (sm\<lparr>sm_seq := sq, sm_all := um_insert k ?s (sm_all sm)\<rparr>)"
    by (auto simp: sm_subscribe_def bind_res_Inr_iff Let_def)
  note own = pool.owns_next [OF sm_coreD(3) [OF c] sq]
  have free: "um_find k (sm_all sm) = None" using own(1) sm_coreD(4) [OF c, of k] by fastforce
  have nf: "filed md' tp' k sm = None" for md' tp' using sm_coreD(5) [OF c, of md' tp' k] free by simp
  have "sm_core (insert k held) (set (sm_purge_keys sm)) sm'"
  proof (rule sm_coreI, goal_cases)
    case (1 md') show ?case by (simp add: sm' sm_coreD(1) [OF c] em_ok_subscribe)
  next
    case 2 show ?case by (simp add: sm' sm_coreD(2) [OF c])
  next
    case 3 show ?case using own(2) by (simp add: sm')
  next
    case (4 k' s) then show ?case
      using sm_coreD(4) [OF c, of k' s] own(1) pk free by (auto simp: sm' mk_sub_def split: if_splits)
  next
    case (5 md' tp' k') show ?case
      using sm_coreD(5) [OF c, of md' tp' k'] nf [of md' tp'] free
      by (auto simp: sm' filed_def em_find_subscribe) (auto simp: mk_sub_def)
  qed
  moreover have "sm_purge_keys sm' = sm_purge_keys sm" by (simp add: sm')
  ultimately show "sm_inv sm'" using pk by (auto simp: sm_inv_def)
  show "live sm k = None" by (simp add: live_def free)
  show "live sm' = (live sm)(k \<mapsto> ?s)"
    using free by (auto simp: live_def sm' fun_eq_iff mk_sub_def)
qed

lemma sm_subscribe_throws_iff:
  "sm_inv sm \<Longrightarrow> (\<exists>x. sm_subscribe tp cond cb md sm = Inl x) \<longleftrightarrow> seq_avail (sm_seq sm) = {}"
  using seq_next_fails_iff [of "sm_seq sm"]
  by (auto simp: sm_inv_def sm_core_def pool.owns_def sm_subscribe_def bind_res_def Let_def split: sum.splits)

lemma sm_unsubscribe_ok:
  assumes "sm_inv sm" "sm_unsubscribe k sm = (r, sm')"
  shows "sm_inv sm'" "live sm' = (live sm)(k := None)" "r \<longleftrightarrow> um_find k (sm_all sm) \<noteq> None"
proof -
  from assms(1) obtain held where c: "sm_core held (set (sm_purge_keys sm)) sm" and pk: "set (sm_purge_keys sm) \<subseteq> held"
    by (auto simp: sm_inv_def)
  have "sm_inv sm' \<and> live sm' = (live sm)(k := None) \<and> (r \<longleftrightarrow> um_find k (sm_all sm) \<noteq> None)"
  proof (cases "um_find k (sm_all sm)")
    case None
    with assms show ?thesis by (auto simp: sm_unsubscribe_def live_def fun_eq_iff)
  next
    case (Some s)
    let ?u = "unsubscribe_mode s (entries (sub_mode s) sm)"
    have sk: "sub_key s = k" "k \<in> held" using sm_coreD(4) [OF c Some] by simp_all
    have sm': "sm' = set_entries (sub_mode s) (snd ?u) (sm\<lparr>sm_all := um_adjust k sub_unsubscribe (sm_all sm), sm_purge_keys := sm_purge_keys sm @ [k]\<rparr>)"
      and r: "r = fst ?u"
      using assms(2) Some by (simp_all add: sm_unsubscribe_def Let_def case_prod_beta)
    have "sm_core held (insert k (set (sm_purge_keys sm))) sm'"
    proof (rule sm_coreI, goal_cases)
      case (1 md') show ?case by (simp add: sm' sm_coreD(1) [OF c] em_ok_unsubscribe)
    next
      case 2 show ?case by (simp add: sm' sm_coreD(2) [OF c])
    next
      case 3 show ?case using sm_coreD(3) [OF c] by (simp add: sm')
    next
      case (4 k' s') then show ?case
        using sm_coreD(4) [OF c, of k'] by (auto simp: sm' sub_unsubscribe_def split: if_splits)
    next
      case (5 md' tp' k')
      have "map_option plain (map_option sub_unsubscribe x) = map_option sub_unsubscribe (map_option plain x)" for x :: "'a sub option"
        by (cases x) simp_all
      then show ?case
        using sm_coreD(5) [OF c, of md' tp' k'] sk Some
        by (auto simp: sm' filed_def em_find_unsubscribe) (auto simp: sub_unsubscribe_def split: option.splits)
    qed
    moreover have "live sm' = (live sm)(k := None)"
      using Some by (auto simp: live_def sm' fun_eq_iff sub_unsubscribe_def)
    moreover have r
    proof -
      have "map_option plain (filed (sub_mode s) (sub_topic s) k sm) = Some s" using sm_coreD(5) [OF c, of "sub_mode s" "sub_topic s" k] Some by simp
      then show ?thesis by (auto simp: r unsubscribe_mode_result sk(1) filed_def)
    qed
    ultimately show ?thesis using sk(2) pk Some by (auto simp: sm_inv_def sm')
  qed
  then show "sm_inv sm'" "live sm' = (live sm)(k := None)" "r \<longleftrightarrow> um_find k (sm_all sm) \<noteq> None" by simp_all
qed

lemma purge_keys_ok:
  assumes "sm_core held K sm" "K \<subseteq> set keys" "live sm = l" "\<And>k. k \<in> set keys \<Longrightarrow> um_find k (sm_all sm) \<noteq> None \<Longrightarrow> k \<in> K"
  shows "\<exists>held'. sm_core held' {} (purge_keys keys sm) \<and> live (purge_keys keys sm) = l \<and> sm_purge_keys (purge_keys keys sm) = []"
  using assms
proof (induction keys arbitrary: sm held K)
  case Nil
  then have c: "sm_core held {} sm" by simp
  have "sm_core held {} (sm\<lparr>sm_purge_keys := []\<rparr>)"
    by (rule sm_coreI) (use sm_coreD [OF c] in \<open>auto simp: filed_def\<close>)
  with Nil show ?case by (auto simp: live_def)
next
  case (Cons key keys)
  show ?case
  proof (cases "um_find key (sm_all sm)")
    case None
    have "sm_core held (K - {key}) sm"
    proof (rule sm_coreI, goal_cases)
      case (4 k s) then show ?case using sm_coreD(4) [OF Cons.prems(1), of k s] None by auto
    qed (use sm_coreD [OF Cons.prems(1)] in auto)
    moreover have "k \<in> K - {key}" if "k \<in> set keys" "um_find k (sm_all sm) \<noteq> None" for k
      using that Cons.prems(4) [of k] None by auto
    ultimately show ?thesis using Cons.IH [of held "K - {key}" sm] Cons.prems(2,3) None by auto
  next
    case (Some s)
    note c = Cons.prems(1)
    have sk: "sub_key s = key" "key \<in> held" "sub_unsub s \<longleftrightarrow> key \<in> K" using sm_coreD(4) [OF c Some] by simp_all
    let ?sm = "sm\<lparr>sm_immediate := purge_mode s (sm_immediate sm), sm_delayed := purge_mode s (sm_delayed sm),
       sm_seq := seq_release key (sm_seq sm), sm_all := um_erase key (sm_all sm)\<rparr>"
    have e: "entries md ?sm = purge_mode s (entries md sm)" for md by (cases md) (simp_all add: entries_def)
    have "sm_core (held - {key}) (K - {key}) ?sm"
    proof (rule sm_coreI, goal_cases)
      case (1 md) show ?case by (simp only: e) (simp add: sm_coreD(1) [OF c] em_ok_purge)
    next
      case 2 show ?case by (simp add: sm_coreD(2) [OF c])
    next
      case 3 show ?case using pool.owns_release [OF sm_coreD(3) [OF c] sk(2)] by simp
    next
      case (4 k' s') then show ?case using sm_coreD(4) [OF c, of k' s'] by (auto split: if_splits)
    next
      case (5 md tp k') show ?case
        unfolding filed_def e em_find_purge using sm_coreD(5) [OF c, of md tp k'] Some sk(1)
        by (auto simp: filed_def split: option.splits if_splits)
    qed
    moreover have "key \<in> K" using Cons.prems(4) [of key] Some by simp
    moreover have "live ?sm = l"
    proof
      fix x show "live ?sm x = l x"
        using fun_cong [OF Cons.prems(3), of x] Some sk(3) \<open>key \<in> K\<close> by (auto simp: live_def)
    qed
    moreover have "k \<in> K - {key}" if "k \<in> set keys" "um_find k (sm_all ?sm) \<noteq> None" for k
      using that Cons.prems(4) [of k] by (auto split: if_splits)
    ultimately show ?thesis using Cons.IH [of "held - {key}" "K - {key}" ?sm] Cons.prems(2) Some by auto
  qed
qed

lemma sm_purge_ok:
  assumes "sm_inv sm"
  shows "sm_inv (sm_purge sm)" "live (sm_purge sm) = live sm"
proof -
  from assms obtain held where c: "sm_core held (set (sm_purge_keys sm)) sm" by (auto simp: sm_inv_def)
  from purge_keys_ok [OF c order_refl refl] obtain held' where "sm_core held' {} (sm_purge sm)" "live (sm_purge sm) = live sm"
    "sm_purge_keys (sm_purge sm) = []" by (auto simp: sm_purge_def)
  then show "sm_inv (sm_purge sm)" "live (sm_purge sm) = live sm" by (auto simp: sm_inv_def)
qed

lemma purge_wait_ok:
  assumes "sm_inv sm"
  shows "sm_inv (purge_wait t sm)" "live (purge_wait t sm) = live sm"
  using sm_purge_ok [OF assms] assms by (simp_all add: purge_wait_def)

lemma sm_clear_ok:
  assumes "sm_inv sm"
  shows "sm_inv (sm_clear sm)" "live (sm_clear sm) = Map.empty"
proof -
  from assms obtain held where c: "sm_core held (set (sm_purge_keys sm)) sm" "set (sm_purge_keys sm) \<subseteq> held" by (auto simp: sm_inv_def)
  have e: "entries md (sm_clear sm) = []" for md by (cases md) (simp_all add: entries_def sm_clear_def)
  have "sm_core held (set (sm_purge_keys sm)) (sm_clear sm)"
    by (rule sm_coreI) (use sm_coreD(3) [OF c(1)] in \<open>simp_all add: e filed_def\<close>, simp_all add: sm_clear_def)
  then show "sm_inv (sm_clear sm)" using c(2) by (auto simp: sm_inv_def sm_clear_def)
  show "live (sm_clear sm) = Map.empty" by (rule ext) (simp add: live_def sm_clear_def)
qed

section \<open>Posting reaches the live subscriptions\<close>

definition reached :: "topic set \<Rightarrow> 'x message \<Rightarrow> sub_mode \<Rightarrow> 'x sub_map \<Rightarrow> nat set" where
  "reached tps m md sm =
     {k. \<exists>s. live sm k = Some s \<and> sub_mode s = md \<and> sub_topic s \<in> tps \<and> topic_valid (sub_topic s) \<and> wants m s}"

definition undisturbed :: "'x message \<Rightarrow> sub_mode \<Rightarrow> 'x sub_map \<Rightarrow> bool" where
  "undisturbed m md sm \<longleftrightarrow> (\<forall>k s. live sm k = Some s \<and> sub_mode s = md \<and> topic_match (sub_topic s) (msg_topic m) \<longrightarrow> quiet m s)"

lemma filed_live:
  assumes "sm_inv sm"
  shows "(\<exists>s. filed md tp k sm = Some s \<and> \<not> sub_unsub s \<and> P (plain s)) \<longleftrightarrow>
     (\<exists>s. live sm k = Some s \<and> sub_mode s = md \<and> sub_topic s = tp \<and> P s)"
proof -
  from assms obtain held K where c: "sm_core held K sm" by (auto simp: sm_inv_def)
  have "(\<exists>s. filed md tp k sm = Some s \<and> \<not> sub_unsub s \<and> P (plain s)) \<longleftrightarrow>
    (\<exists>s. map_option plain (filed md tp k sm) = Some s \<and> \<not> sub_unsub s \<and> P s)"
    by (cases "filed md tp k sm") auto
  then show ?thesis
    unfolding sm_coreD(5) [OF c] by (auto simp: live_def split: option.splits if_splits)
qed

lemma due_reached: "sm_inv sm \<Longrightarrow> due tp m (entries md sm) = reached {tp} m md sm"
  using filed_live [of sm md tp _ "wants m"] by (auto simp: due_def reached_def filed_def)

lemma calm_undisturbed:
  assumes "sm_inv sm" "undisturbed m md sm"
  shows "calm tp m (entries md sm)"
  unfolding calm_def
proof (intro allI impI)
  fix k s assume s: "em_find tp k (entries md sm) = Some s \<and> \<not> sub_unsub s \<and> topic_match (sub_topic s) (msg_topic m)"
  then obtain s' where "live sm k = Some s'" "sub_mode s' = md" "s' = plain s"
    using filed_live [OF assms(1), of md tp k "\<lambda>s'. s' = plain s"] by (auto simp: filed_def)
  then show "quiet m s" using s assms(2) [unfolded undisturbed_def, rule_format, of k s'] by simp
qed

lemma set_entries_ok:
  assumes "sm_inv sm" "em_ok em" "\<And>tp k. map_option plain (em_find tp k em) = map_option plain (em_find tp k (entries md sm))"
  shows "sm_inv (set_entries md em sm)" "live (set_entries md em sm) = live sm"
proof -
  from assms(1) obtain held where c: "sm_core held (set (sm_purge_keys sm)) sm" "set (sm_purge_keys sm) \<subseteq> held" by (auto simp: sm_inv_def)
  have "sm_core held (set (sm_purge_keys sm)) (set_entries md em sm)"
  proof (rule sm_coreI, goal_cases)
    case (1 md') show ?case using sm_coreD(1) [OF c(1)] assms(2) by simp
  next
    case (5 md' tp k) show ?case using sm_coreD(5) [OF c(1), of md' tp k] assms(3) [of tp k] by (auto simp: filed_def)
  qed (use sm_coreD(2-4) [OF c(1)] in auto)
  with c(2) show "sm_inv (set_entries md em sm)" by (auto simp: sm_inv_def)
  show "live (set_entries md em sm) = live sm" by (rule ext) (simp add: live_def)
qed

lemma sm_post_own: "sm_post t m md sm = sm_post_topic t (msg_topic m) m md sm"
  by (simp add: sm_post_def sm_post_topic_def post_mode_own)

lemma sm_post_topic_ok:
  assumes "sm_inv sm" "sm_post_topic t tp m md sm = (n, cs, sm')"
  shows "sm_inv sm'" "live sm' = live sm" "set cs \<subseteq> reached {tp, get_group_topic tp} m md sm" "n \<le> length cs"
proof -
  obtain n1 cs1 em where p: "post_mode_topic tp m (entries md sm) = (n1, cs1, em)" by (cases "post_mode_topic tp m (entries md sm)")
  then have eq: "n = n1" "cs = cs1" "sm' = purge_wait t (set_entries md em sm)" using assms(2) by (simp_all add: sm_post_topic_def)
  have ok: "em_ok (entries md sm)" using assms(1) sm_coreD(1) by (auto simp: sm_inv_def)
  note s = set_entries_ok [OF assms(1) post_mode_frame(2) [OF p ok] post_mode_frame(1) [OF p]]
  show "sm_inv sm'" "live sm' = live sm" using purge_wait_ok [OF s(1)] s(2) by (simp_all add: eq)
  show "set cs \<subseteq> reached {tp, get_group_topic tp} m md sm" "n \<le> length cs"
    using post_mode_calls [OF p ok] by (auto simp: eq due_reached [OF assms(1)] reached_def)
qed

lemma sm_post_topic_all:
  assumes "sm_inv sm" "undisturbed m md sm" "sm_post_topic t tp m md sm = (n, cs, sm')"
  obtains cs1 cs2 where "cs = cs1 @ cs2" "n = length cs" "distinct cs1" "distinct cs2"
    "set cs1 = reached {tp} m md sm" "set cs2 = reached {get_group_topic tp} m md sm"
proof -
  obtain n1 cs1 em where p: "post_mode_topic tp m (entries md sm) = (n1, cs1, em)" by (cases "post_mode_topic tp m (entries md sm)")
  then have eq: "n = n1" "cs = cs1" using assms(3) by (simp_all add: sm_post_topic_def)
  have ok: "em_ok (entries md sm)" using assms(1) sm_coreD(1) by (auto simp: sm_inv_def)
  from post_mode_quiet [OF p ok calm_undisturbed calm_undisturbed, OF assms(1,2) assms(1,2)] show thesis
    using that by (auto simp: eq due_reached [OF assms(1)])
qed

section \<open>The contract of a subscription table\<close>

text \<open>
  A table of subscriptions, seen by its clients as a finite map from keys to descriptions:
  subscribing adds a fresh key, unsubscribing removes one, posting calls some of the
  subscriptions that accept the message and leaves the table as it was.
\<close>

locale registry =
  fixes ok :: "'s \<Rightarrow> bool" and subs :: "'s \<Rightarrow> nat \<Rightarrow> 'd option"
    and add :: "'a \<Rightarrow> 's \<Rightarrow> (nat \<times> 's) res" and drop_sub :: "nat \<Rightarrow> 's \<Rightarrow> bool \<times> 's"
    and post :: "'m \<Rightarrow> 's \<Rightarrow> nat \<times> nat list \<times> 's"
    and descr :: "nat \<Rightarrow> 'a \<Rightarrow> 'd" and accepts :: "'m \<Rightarrow> 'd \<Rightarrow> bool"
  assumes add_law: "ok s \<Longrightarrow> add a s = Inr (k, s') \<Longrightarrow> ok s' \<and> subs s k = None \<and> subs s' = (subs s)(k \<mapsto> descr k a)"
    and drop_law: "ok s \<Longrightarrow> drop_sub k s = (r, s') \<Longrightarrow> ok s' \<and> subs s' = (subs s)(k := None)"
    and post_law: "ok s \<Longrightarrow> post m s = (n, cs, s') \<Longrightarrow> ok s' \<and> subs s' = subs s \<and>
          set cs \<subseteq> {k. \<exists>d. subs s k = Some d \<and> accepts m d}"
begin

text \<open>A client's operations, each recorded with the calls it made.\<close>

fun serve :: "('a + nat + 'm) list \<Rightarrow> 's \<Rightarrow> (nat \<times> 'm) list \<times> 's" where
  "serve [] s = ([], s)"
| "serve (Inl a # xs) s = (case add a s of Inl _ \<Rightarrow> serve xs s | Inr (k, s') \<Rightarrow> serve xs s')"
| "serve (Inr (Inl k) # xs) s = serve xs (snd (drop_sub k s))"
| "serve (Inr (Inr m) # xs) s = (case post m s of (n, cs, s') \<Rightarrow>
     (case serve xs s' of (log, s'') \<Rightarrow> (map (\<lambda>k. (k, m)) cs @ log, s'')))"

lemma serve_ok: "ok s \<Longrightarrow> ok (snd (serve xs s))"
proof (induction xs s rule: serve.induct)
  case (2 a xs s)
  then show ?case using add_law [of s a] by (auto split: sum.splits)
next
  case (3 k xs s)
  then show ?case using drop_law [of s k] by (cases "drop_sub k s") auto
next
  case (4 m xs s)
  then show ?case using post_law [of s m] by (auto split: prod.splits)
qed simp

text \<open>A key that is not subscribed is called only after a subscription was added.\<close>

lemma serve_silent:
  "ok s \<Longrightarrow> subs s k = None \<Longrightarrow> (\<And>a. Inl a \<notin> set xs) \<Longrightarrow> k \<notin> fst ` set (fst (serve xs s))"
proof (induction xs s rule: serve.induct)
  case (2 a xs s)
  then show ?case by (metis list.set_intros(1))
next
  case (3 k' xs s)
  then show ?case using drop_law [of s k'] by (cases "drop_sub k' s") auto
next
  case (4 m xs s)
  obtain n cs s' where p: "post m s = (n, cs, s')" by (cases "post m s")
  obtain log s'' where r: "serve xs s' = (log, s'')" by (cases "serve xs s'")
  note l = post_law [OF "4.prems"(1) p]
  have "k \<notin> fst ` set log" using "4.IH" [OF p [symmetric] refl] l "4.prems" r by auto
  with p r l "4.prems"(2) show ?case by auto
qed auto

end

interpretation sm: registry sm_inv live
  "\<lambda>(tp, cond, cb, md). sm_subscribe tp cond cb md" sm_unsubscribe "\<lambda>(t, tp, m, md). sm_post_topic t tp m md"
  "\<lambda>k (tp, cond, cb, md). mk_sub k tp cond cb md"
  "\<lambda>(t, tp, m, md) s. sub_mode s = md \<and> sub_topic s \<in> {tp, get_group_topic tp} \<and> wants m s"
proof (unfold_locales, goal_cases)
  case (1 s a k s')
  then show ?case using sm_subscribe_ok [OF 1(1)] by (auto split: prod.splits)
next
  case (2 s k r s')
  then show ?case using sm_unsubscribe_ok by blast
next
  case (3 s m n cs s')
  obtain t tp x md where m: "m = (t, tp, x, md)" by (cases m)
  from 3 m have p: "sm_post_topic t tp x md s = (n, cs, s')" by simp
  have "reached {tp, get_group_topic tp} x md s \<subseteq>
      {k. \<exists>d. live s k = Some d \<and> sub_mode d = md \<and> sub_topic d \<in> {tp, get_group_topic tp} \<and> wants x d}"
    by (auto simp: reached_def)
  with sm_post_topic_ok [OF 3(1) p] m show ?case by auto
qed

section \<open>Properties\<close>

lemma reached_own: "reached {msg_topic m, get_group_topic (msg_topic m)} m md sm =
    {k. \<exists>s. live sm k = Some s \<and> sub_mode s = md \<and> topic_valid (sub_topic s) \<and> wants m s}"
  by (auto simp: reached_def wants_def topic_match_iff)


text \<open>
  A message whose own topic is a group topic (type 0) is delivered twice to every
  subscription of that group: both passes of \<open>post_mode\<close> find the same entry.
\<close>

theorem group_message_delivered_twice:
  assumes "sm_inv sm" "undisturbed m md sm" "get_type (msg_topic m) = 0" "sm_post t m md sm = (n, cs, sm')"
  shows "\<forall>k. count_list cs k =
           (if \<exists>s. live sm k = Some s \<and> sub_mode s = md \<and> topic_valid (sub_topic s) \<and> wants m s then 2 else 0)"
proof -
  from assms(4) have p: "sm_post_topic t (msg_topic m) m md sm = (n, cs, sm')" by (simp add: sm_post_own)
  have g: "get_group_topic (msg_topic m) = msg_topic m" using assms(3) by (simp add: group_topic_same_iff)
  obtain cs1 cs2 where c: "cs = cs1 @ cs2" "distinct cs1" "distinct cs2" "set cs1 = reached {msg_topic m} m md sm"
    "set cs2 = reached {msg_topic m} m md sm"
    by (rule sm_post_topic_all [OF assms(1,2) p]) (simp add: g)
  have cl: "distinct xs \<Longrightarrow> count_list xs k = (if k \<in> set xs then 1 else 0)" for xs :: "nat list" and k
    by (induction xs) auto
  show ?thesis using reached_own [of m md sm] c by (auto simp: g cl)
qed

section \<open>A concrete table\<close>

text \<open>One delayed subscription to the group 2:2, for bodies below 100.\<close>

definition sample_cond :: "nat message \<Rightarrow> bool option" where
  "sample_cond m = Some (msg_body m < 100)"

definition sample_cb :: "nat message \<Rightarrow> bool" where
  "sample_cb m = True"

definition sample_sub :: "nat sub" where
  "sample_sub = mk_sub 1 0x02020000 sample_cond sample_cb Delayed"

definition sample_entry :: "nat entry_map" where
  "sample_entry = [(0x02020000, \<lparr>te_topic = 0x02020000, te_post_count = 0, te_subs = [(1, sample_sub)]\<rparr>)]"

definition sample_message :: "topic \<Rightarrow> nat \<Rightarrow> nat message" where
  "sample_message tp n = \<lparr>msg_topic = tp, msg_body = n\<rparr>"

lemma sample_subscribe:
  "\<exists>sm. sm_subscribe 0x02020000 sample_cond sample_cb Delayed mk_sub_map = Inr (1, sm) \<and>
     sm_inv sm \<and> sm_immediate sm = [] \<and> sm_delayed sm = sample_entry \<and> live sm = [1 \<mapsto> sample_sub]"
proof -
  obtain sq where sq: "seq_next (mk_sequence 1 (2 ^ 32 - 1) 1000) = Inr (1, sq)"
    using seq_next_first [of 1 "2 ^ 32 - 1" 1000] by auto
  then have "\<exists>sm. sm_subscribe 0x02020000 sample_cond sample_cb Delayed mk_sub_map = Inr (1, sm) \<and>
    sm_immediate sm = [] \<and> sm_delayed sm = sample_entry"
    by (simp add: sm_subscribe_def mk_sub_map_def entries_def set_entries_def subscribe_mode_def subscribe_topic_def
        um_insert_def um_has_def sample_entry_def sample_sub_def mk_sub_def Let_def)
  then obtain sm where sm: "sm_subscribe 0x02020000 sample_cond sample_cb Delayed mk_sub_map = Inr (1, sm)"
    "sm_immediate sm = []" "sm_delayed sm = sample_entry" by blast
  from sm_subscribe_ok [OF mk_sub_map_inv(1) sm(1)] sm show ?thesis by (simp add: sample_sub_def mk_sub_map_inv(2))
qed

lemma sample_topics:
  "get_group_topic 0x02020001 = 0x02020000" "get_group_topic 0x03030001 = 0x03030000" "get_group_topic 0x02020000 = 0x02020000"
  "topic_match 0x02020000 0x02020001" "topic_match 0x02020000 0x02020000" "\<not> topic_match 0x02020000 0x03030001"
  "get_type 0x02020001 = 1" "get_type 0x02020000 = 0"
  by code_simp+

lemma sample_quiet: "live sm = [1 \<mapsto> sample_sub] \<Longrightarrow> undisturbed m md sm"
  by (auto simp: undisturbed_def sample_sub_def mk_sub_def quiet_def sample_cond_def sample_cb_def split: if_splits)

lemmas sample_eval = sm_post_def post_mode_def post_topic_def entries_def set_entries_def
  purge_wait_def purge_sub_interval_def sample_entry_def sample_sub_def mk_sub_def sample_message_def sub_post_def
  sample_cond_def sample_cb_def topic_valid_def um_find_Cons um_adjust_def sample_topics


lemma group_message_delivered_twice_witness:
  "\<exists>sm n cs sm'. sm_subscribe 0x02020000 sample_cond sample_cb Delayed mk_sub_map = Inr (1, sm) \<and>
     sm_post 0 (sample_message 0x02020000 7) Delayed sm = (n, cs, sm') \<and> count_list cs 1 = 2"
proof -
  from sample_subscribe obtain sm where sm: "sm_subscribe 0x02020000 sample_cond sample_cb Delayed mk_sub_map = Inr (1, sm)"
    "sm_inv sm" "live sm = [1 \<mapsto> sample_sub]" by blast
  let ?m = "sample_message 0x02020000 7"
  obtain n cs sm' where p: "sm_post 0 ?m Delayed sm = (n, cs, sm')" by (cases "sm_post 0 ?m Delayed sm")
  have "\<exists>s. live sm 1 = Some s \<and> sub_mode s = Delayed \<and> topic_valid (sub_topic s) \<and> wants ?m s"
    by (simp add: sm(3) wants_def sample_eval)
  with group_message_delivered_twice [OF sm(2) sample_quiet [OF sm(3)] _ p] sm(1) p show ?thesis
    by (simp add: sample_message_def sample_topics)
qed

end
