(* ===== verification/Channel.thy ===== *)
theory Channel
  imports Subscriptions Concurrent_Queue
begin

text \<open>
  Channels (\<^verbatim>\<open>core/channel/channel.hpp\<close>, \<^verbatim>\<open>src/core/channel/channel.cpp\<close>): a queue of
  messages in front of a subscription table. \<open>publish\<close> queues the message and serves the
  immediate subscriptions at once; \<open>execute\<close> later takes the messages out one by one for the
  delayed ones. The clock is read before each post: \<open>clock i\<close> is the time since the last purge at
  the \<open>i\<close>-th round of the loop. Messages pushed by other threads during \<open>execute\<close> are part of its
  queue from the start.
\<close>

section \<open>The channel\<close>

(* [include/wise.kernel/core/channel/channel.hpp:60-95 channel::config] *)
record channel_config =
  loop_post_limit :: nat
  time_to_log_when_post_time_over :: nat
  time_to_log_when_post_loop_time_over :: nat
  log_no_sub_when_post :: bool
  log_remaining_messages_on_exit :: bool

(* [include/wise.kernel/core/channel/channel.hpp:63-75 channel::config] *)
definition default_channel_config :: channel_config where
  "default_channel_config = \<lparr>loop_post_limit = 2 ^ 32 - 1, time_to_log_when_post_time_over = 20,
     time_to_log_when_post_loop_time_over = 200, log_no_sub_when_post = False, log_remaining_messages_on_exit = False\<rparr>"

(* [include/wise.kernel/core/channel/channel.hpp:98-106 channel::stat] *)
record channel_stat =
  total_post_count :: nat
  total_immediate_post_count :: nat
  last_post_count :: nat

(* [include/wise.kernel/core/channel/channel.hpp:239-244 channel] *)
record 'x channel =
  ch_key :: string
  ch_q :: "'x message list"
  ch_map :: "'x sub_map"
  ch_config :: channel_config
  ch_stat :: channel_stat

(* [src/core/channel/channel.cpp:28-33 channel::channel] *)
definition mk_channel :: "string \<Rightarrow> channel_config \<Rightarrow> 'x channel" where
  "mk_channel key cfg = \<lparr>ch_key = key, ch_q = [], ch_map = mk_sub_map, ch_config = cfg,
     ch_stat = \<lparr>total_post_count = 0, total_immediate_post_count = 0, last_post_count = 0\<rparr>\<rparr>"

definition immediate_posted :: "nat \<Rightarrow> channel_stat \<Rightarrow> channel_stat" where
  "immediate_posted count st = st\<lparr>total_immediate_post_count := total_immediate_post_count st + count\<rparr>"

(* [src/core/channel/channel.cpp:40-49 channel::publish] *)
definition ch_publish :: "nat \<Rightarrow> 'x message \<Rightarrow> 'x channel \<Rightarrow> nat \<times> nat list \<times> 'x channel" where
  "ch_publish t m ch =
     (case sm_post t m Immediate (ch_map ch) of (count, cs, sm) \<Rightarrow>
       (count, cs, ch\<lparr>ch_q := cq_push m (ch_q ch), ch_map := sm, ch_stat := immediate_posted count (ch_stat ch)\<rparr>))"

(* [src/core/channel/channel.cpp:51-60 channel::publish] *)
definition ch_publish_topic :: "nat \<Rightarrow> topic \<Rightarrow> 'x message \<Rightarrow> 'x channel \<Rightarrow> nat \<times> nat list \<times> 'x channel" where
  "ch_publish_topic t tp m ch =
     (case sm_post_topic t tp m Immediate (ch_map ch) of (count, cs, sm) \<Rightarrow>
       (count, cs, ch\<lparr>ch_q := cq_push m (ch_q ch), ch_map := sm, ch_stat := immediate_posted count (ch_stat ch)\<rparr>))"

text \<open>The loop of \<open>execute\<close>; the calls are recorded with their messages.\<close>

(* [src/core/channel/channel.cpp:70-89 channel::execute] *)
function execute_loop :: "(nat \<Rightarrow> nat) \<Rightarrow> nat \<Rightarrow> nat \<Rightarrow> nat \<Rightarrow> 'x message list \<Rightarrow> 'x sub_map \<Rightarrow> nat \<times> (nat \<times> 'x message) list \<times> 'x message list \<times> 'x sub_map" where
  "execute_loop clock i limit count q sm =
     (case cq_pop q of
        None \<Rightarrow> (count, [], q, sm)
      | Some (m, q') \<Rightarrow>
          (case sm_post (clock i) m Delayed sm of (n, cs, sm') \<Rightarrow>
            if count + n > limit then (count + n, map (\<lambda>k. (k, m)) cs, q', sm')
            else (case execute_loop clock (Suc i) limit (count + n) q' sm' of
                    (tot, log, q'', sm'') \<Rightarrow> (tot, map (\<lambda>k. (k, m)) cs @ log, q'', sm''))))"
  by pat_completeness auto
termination by (relation "measure (\<lambda>(_, _, _, _, q, _). length q)") (auto simp: cq_pop_length)

(* [src/core/channel/channel.cpp:62-104 channel::execute] *)
definition ch_execute :: "(nat \<Rightarrow> nat) \<Rightarrow> 'x channel \<Rightarrow> nat \<times> (nat \<times> 'x message) list \<times> 'x channel" where
  "ch_execute clock ch =
     (case execute_loop clock 0 (loop_post_limit (ch_config ch)) 0 (ch_q ch) (ch_map ch) of (count, log, q, sm) \<Rightarrow>
       (count, log, ch\<lparr>ch_q := q, ch_map := sm,
          ch_stat := (ch_stat ch)\<lparr>last_post_count := count, total_post_count := total_post_count (ch_stat ch) + count\<rparr>\<rparr>))"

(* [src/core/channel/channel.cpp:106-109 channel::subscribe] *)
definition ch_subscribe :: "topic \<Rightarrow> ('x message \<Rightarrow> bool option) \<Rightarrow> ('x message \<Rightarrow> bool) \<Rightarrow> sub_mode \<Rightarrow> 'x channel \<Rightarrow> (nat \<times> 'x channel) res" where
  "ch_subscribe tp cond cb md ch = bind_res (sm_subscribe tp cond cb md (ch_map ch)) (\<lambda>(k, sm). Inr (k, ch\<lparr>ch_map := sm\<rparr>))"

(* [src/core/channel/channel.cpp:111-114 channel::subscribe] *)
definition ch_subscribe_all :: "topic \<Rightarrow> ('x message \<Rightarrow> bool) \<Rightarrow> sub_mode \<Rightarrow> 'x channel \<Rightarrow> (nat \<times> 'x channel) res" where
  "ch_subscribe_all tp cb md ch = bind_res (sm_subscribe_all tp cb md (ch_map ch)) (\<lambda>(k, sm). Inr (k, ch\<lparr>ch_map := sm\<rparr>))"

(* [src/core/channel/channel.cpp:116-119 channel::unsubscribe] *)
definition ch_unsubscribe :: "nat \<Rightarrow> 'x channel \<Rightarrow> bool \<times> 'x channel" where
  "ch_unsubscribe k ch = (case sm_unsubscribe k (ch_map ch) of (r, sm) \<Rightarrow> (r, ch\<lparr>ch_map := sm\<rparr>))"

(* [src/core/channel/channel.cpp:121-134 channel::clear] *)
definition ch_clear :: "'x channel \<Rightarrow> 'x channel" where
  "ch_clear ch = ch\<lparr>ch_q := [], ch_map := sm_clear (ch_map ch)\<rparr>"

(* [src/core/channel/channel.cpp:136-139 channel::get_queue_size] *)
definition ch_queue_size :: "'x channel \<Rightarrow> nat" where
  "ch_queue_size ch = cq_size (ch_q ch)"

section \<open>Executing\<close>

declare execute_loop.simps [simp del]

lemma execute_loop_simps:
  "execute_loop clock i limit count [] sm = (count, [], [], sm)"
  "sm_post (clock i) m Delayed sm = (n, cs, sm') \<Longrightarrow>
   execute_loop clock i limit count (m # q) sm =
     (if count + n > limit then (count + n, map (\<lambda>k. (k, m)) cs, q, sm')
      else (case execute_loop clock (Suc i) limit (count + n) q sm' of
              (tot, log, q'', sm'') \<Rightarrow> (tot, map (\<lambda>k. (k, m)) cs @ log, q'', sm'')))"
  by (simp_all add: execute_loop.simps [of _ _ _ _ "[]"] execute_loop.simps [of _ _ _ _ "m # q"])

text \<open>
  The loop consumes a prefix of the queue, in order; every call belongs to a consumed message
  and to a delayed subscription that asked for it; it stops early only above the limit.
\<close>

lemma execute_loop_ok:
  "sm_inv sm \<Longrightarrow> execute_loop clock i limit count q sm = (tot, log, q', sm') \<Longrightarrow>
   sm_inv sm' \<and> live sm' = live sm \<and>
   (\<exists>dn. q = dn @ q' \<and> (q' \<noteq> [] \<longrightarrow> tot > limit) \<and>
      (\<forall>(k, m) \<in> set log. m \<in> set dn \<and> (\<exists>s. live sm k = Some s \<and> sub_mode s = Delayed \<and> wants m s)))"
proof (induction q arbitrary: clock i count sm tot log)
  case Nil
  then show ?case by (simp add: execute_loop_simps)
next
  case (Cons m q)
  obtain n cs sm1 where p: "sm_post (clock i) m Delayed sm = (n, cs, sm1)" by (cases "sm_post (clock i) m Delayed sm")
  note pk = sm_post_topic_ok [OF Cons.prems(1) p [unfolded sm_post_own]]
  have cs: "\<exists>s. live sm k = Some s \<and> sub_mode s = Delayed \<and> wants m s" if "k \<in> set cs" for k
    using pk(3) that by (auto simp: reached_def)
  show ?case
  proof (cases "count + n > limit")
    case True
    with Cons.prems p pk(1,2) cs show ?thesis
      by (intro conjI exI [of _ "[m]"]) (auto simp: execute_loop_simps)
  next
    case False
    obtain tot' log' q1 sm2 where r: "execute_loop clock (Suc i) limit (count + n) q sm1 = (tot', log', q1, sm2)"
      by (cases "execute_loop clock (Suc i) limit (count + n) q sm1")
    with Cons.prems(2) p False have eq: "tot = tot'" "log = map (\<lambda>k. (k, m)) cs @ log'" "q' = q1" "sm' = sm2"
      by (simp_all add: execute_loop_simps)
    from Cons.IH [OF pk(1) r [folded eq(3,4)]] obtain dn where dn: "sm_inv sm'" "live sm' = live sm1" "q = dn @ q'"
      "q' \<noteq> [] \<longrightarrow> tot' > limit"
      "\<forall>(k, m) \<in> set log'. m \<in> set dn \<and> (\<exists>s. live sm1 k = Some s \<and> sub_mode s = Delayed \<and> wants m s)" by auto
    then show ?thesis using cs pk(2)
      by (intro conjI exI [of _ "m # dn"]) (auto simp: eq)
  qed
qed

text \<open>The deliveries of a batch, message by message.\<close>

definition delivered_to :: "'x sub_map \<Rightarrow> 'x message \<Rightarrow> nat set" where
  "delivered_to sm m = {k. \<exists>s. live sm k = Some s \<and> sub_mode s = Delayed \<and> topic_valid (sub_topic s) \<and> wants m s}"

lemma execute_loop_all:
  "sm_inv sm \<Longrightarrow> \<forall>m \<in> set q. undisturbed m Delayed sm \<Longrightarrow> limit \<ge> tot \<Longrightarrow>
   execute_loop clock i limit count q sm = (tot, log, q', sm') \<Longrightarrow>
   q' = [] \<and> (\<exists>css. length css = length q \<and> log = concat (map2 (\<lambda>cs m. map (\<lambda>k. (k, m)) cs) css q) \<and>
      (\<forall>j < length q. set (css ! j) = delivered_to sm (q ! j)))"
proof (induction q arbitrary: clock i count sm tot log)
  case Nil
  then show ?case by (simp add: execute_loop_simps)
next
  case (Cons m q)
  obtain n cs sm1 where p: "sm_post (clock i) m Delayed sm = (n, cs, sm1)" by (cases "sm_post (clock i) m Delayed sm")
  note pk = sm_post_topic_ok [OF Cons.prems(1) p [unfolded sm_post_own]]
  have "undisturbed x Delayed sm1 \<longleftrightarrow> undisturbed x Delayed sm" for x by (simp only: undisturbed_def pk(2))
  then have und: "undisturbed m Delayed sm" "\<forall>m \<in> set q. undisturbed m Delayed sm1" using Cons.prems(2) by simp_all
  have cs: "set cs = delivered_to sm m"
    by (rule sm_post_topic_all [OF Cons.prems(1) und(1) p [unfolded sm_post_own]])
       (use reached_own [of m Delayed sm] in \<open>auto simp: reached_def delivered_to_def\<close>)
  obtain tot' log' q1 sm2 where r: "execute_loop clock (Suc i) limit (count + n) q sm1 = (tot', log', q1, sm2)"
    by (cases "execute_loop clock (Suc i) limit (count + n) q sm1")
  have nl: "\<not> count + n > limit" using Cons.prems(3,4) p by (auto simp: execute_loop_simps split: if_splits)
  with Cons.prems(4) p r have eq: "tot = tot'" "log = map (\<lambda>k. (k, m)) cs @ log'" "q' = q1" "sm' = sm2"
    by (simp_all add: execute_loop_simps)
  from Cons.IH [OF pk(1) und(2) Cons.prems(3) r [folded eq(1,3,4)]] obtain css where
    css: "q' = []" "length css = length q" "log' = concat (map2 (\<lambda>cs m. map (\<lambda>k. (k, m)) cs) css q)"
      "\<forall>j < length q. set (css ! j) = delivered_to sm1 (q ! j)" by blast
  moreover have "delivered_to sm1 = delivered_to sm" by (simp add: delivered_to_def pk(2) fun_eq_iff)
  ultimately show ?case using cs eq(2)
    by (intro conjI exI [of _ "cs # css"]) (auto simp: nth_Cons split: nat.splits)
qed

section \<open>A channel keeps the contract of its table\<close>

text \<open>What a user of a channel can ask it to do with messages.\<close>

datatype 'x chan_op = Publish nat "'x message" | Publish_To nat topic "'x message" | Execute "nat \<Rightarrow> nat"

definition chan_do :: "'x chan_op \<Rightarrow> 'x channel \<Rightarrow> nat \<times> nat list \<times> 'x channel" where
  "chan_do x ch =
     (case x of
        Publish t m \<Rightarrow> ch_publish t m ch
      | Publish_To t tp m \<Rightarrow> ch_publish_topic t tp m ch
      | Execute clock \<Rightarrow> (case ch_execute clock ch of (n, log, ch') \<Rightarrow> (n, map fst log, ch')))"

definition chan_accepts :: "'x chan_op \<Rightarrow> 'x sub \<Rightarrow> bool" where
  "chan_accepts x s =
     (case x of
        Publish t m \<Rightarrow> sub_mode s = Immediate \<and> wants m s
      | Publish_To t tp m \<Rightarrow> sub_mode s = Immediate \<and> sub_topic s \<in> {tp, get_group_topic tp} \<and> wants m s
      | Execute clock \<Rightarrow> sub_mode s = Delayed)"

interpretation chan: registry "\<lambda>ch. sm_inv (ch_map ch)" "\<lambda>ch. live (ch_map ch)"
  "\<lambda>(tp, cond, cb, md). ch_subscribe tp cond cb md" ch_unsubscribe chan_do
  "\<lambda>k (tp, cond, cb, md). mk_sub k tp cond cb md" chan_accepts
proof (unfold_locales, goal_cases)
  case (1 s a k s')
  then show ?case using sm_subscribe_ok [OF 1(1)] by (auto simp: ch_subscribe_def bind_res_Inr_iff split: prod.splits)
next
  case (2 s k r s')
  then show ?case using sm_unsubscribe_ok [OF 2(1)] by (auto simp: ch_unsubscribe_def split: prod.splits)
next
  case (3 ch x n cs ch')
  show ?case
  proof (cases x)
    case (Publish t m)
    with 3 sm_post_topic_ok [OF 3(1), of t "msg_topic m" m Immediate] show ?thesis
      by (fastforce simp: chan_do_def ch_publish_def chan_accepts_def sm_post_own reached_def split: prod.splits)
  next
    case (Publish_To t tp m)
    with 3 sm_post_topic_ok [OF 3(1), of t tp m Immediate] show ?thesis
      by (fastforce simp: chan_do_def ch_publish_topic_def chan_accepts_def reached_def split: prod.splits)
  next
    case (Execute clock)
    obtain c log q sm where l: "execute_loop clock 0 (loop_post_limit (ch_config ch)) 0 (ch_q ch) (ch_map ch) = (c, log, q, sm)"
      by (cases "execute_loop clock 0 (loop_post_limit (ch_config ch)) 0 (ch_q ch) (ch_map ch)")
    with 3(2) Execute have "cs = map fst log" "ch_map ch' = sm" by (auto simp: chan_do_def ch_execute_def)
    with execute_loop_ok [OF 3(1) l] Execute show ?thesis by (force simp: chan_accepts_def)
  qed
qed

section \<open>Properties\<close>

fun publish_all :: "nat list \<Rightarrow> 'x message list \<Rightarrow> 'x channel \<Rightarrow> 'x channel" where
  "publish_all (t # ts) (m # ms) ch = publish_all ts ms (snd (snd (ch_publish t m ch)))"
| "publish_all _ _ ch = ch"

lemma publish_all_queue:
  "sm_inv (ch_map ch) \<Longrightarrow> length ts = length ms \<Longrightarrow>
   ch_q (publish_all ts ms ch) = ch_q ch @ ms \<and> sm_inv (ch_map (publish_all ts ms ch)) \<and>
   live (ch_map (publish_all ts ms ch)) = live (ch_map ch) \<and> ch_config (publish_all ts ms ch) = ch_config ch"
proof (induction ts ms ch rule: publish_all.induct)
  case (1 t ts m ms ch)
  obtain n cs sm where p: "sm_post t m Immediate (ch_map ch) = (n, cs, sm)" by (cases "sm_post t m Immediate (ch_map ch)")
  note sm_post_topic_ok [OF "1.prems"(1) p [unfolded sm_post_own]]
  with 1 p show ?case by (simp add: ch_publish_def cq_push_def)
qed auto


text \<open>
  The post limit loses nothing: whatever the callbacks do, \<open>execute\<close> takes a prefix of the
  queue, leaves the rest in place, stops early only when its count has passed the limit, and
  every callback it invokes belongs to a live delayed subscription that asked for one of the
  taken messages. It always returns.
\<close>

theorem execute_takes_prefix:
  assumes "sm_inv (ch_map ch)" "ch_execute clock ch = (n, log, ch')"
  shows "\<exists>dn. ch_q ch = dn @ ch_q ch' \<and> (ch_q ch' \<noteq> [] \<longrightarrow> n > loop_post_limit (ch_config ch)) \<and>
           (\<forall>(k, m) \<in> set log. m \<in> set dn \<and> (\<exists>s. live (ch_map ch) k = Some s \<and> sub_mode s = Delayed \<and> wants m s)) \<and>
           live (ch_map ch') = live (ch_map ch)"
proof -
  obtain c log1 q sm where l: "execute_loop clock 0 (loop_post_limit (ch_config ch)) 0 (ch_q ch) (ch_map ch) = (c, log1, q, sm)"
    by (cases "execute_loop clock 0 (loop_post_limit (ch_config ch)) 0 (ch_q ch) (ch_map ch)")
  with assms(2) have "n = c" "log = log1" "ch_q ch' = q" "ch_map ch' = sm" by (auto simp: ch_execute_def)
  with execute_loop_ok [OF assms(1) l] show ?thesis by auto
qed

text \<open>
  C16. After \<open>unsubscribe\<close> returns, the subscription is never called again, by whatever sequence
  of publishing, executing and further unsubscribing (its key can only be reused by a new
  \<open>subscribe\<close>).
\<close>

theorem unsubscribed_never_called:
  assumes "sm_inv (ch_map ch)" "ch_unsubscribe k ch = (r, ch')" "\<And>a. Inl a \<notin> set xs"
  shows "k \<notin> fst ` set (fst (chan.serve xs ch'))"
  using chan.serve_silent [of ch' k xs] chan.drop_law [OF assms(1,2)] assms(3) by simp

section \<open>A concrete channel\<close>

lemma sample_channel:
  "\<exists>ch. ch_subscribe 0x02020000 sample_cond sample_cb Delayed (mk_channel ''c'' cfg) = Inr (1, ch) \<and>
     sm_inv (ch_map ch) \<and> ch_q ch = [] \<and> ch_config ch = cfg \<and> sm_immediate (ch_map ch) = [] \<and>
     sm_delayed (ch_map ch) = sample_entry \<and> live (ch_map ch) = [1 \<mapsto> sample_sub]"
  using sample_subscribe by (auto simp: ch_subscribe_def mk_channel_def)

lemmas channel_eval = sample_eval ch_execute_def ch_publish_def cq_push_def execute_loop.simps default_channel_config_def


lemma execute_takes_prefix_witness:
  "\<exists>ch ch' dn. ch_subscribe 0x02020000 sample_cond sample_cb Delayed
       (mk_channel ''c'' (default_channel_config\<lparr>loop_post_limit := 0\<rparr>)) = Inr (1, ch) \<and>
     ch_execute (\<lambda>_. 0) (publish_all [0, 0] [sample_message 0x02020001 7, sample_message 0x02020001 8] ch) =
       (1, [(1, sample_message 0x02020001 7)], ch') \<and>
     [sample_message 0x02020001 7, sample_message 0x02020001 8] = dn @ ch_q ch' \<and> live (ch_map ch') = [1 \<mapsto> sample_sub]"
proof -
  let ?ms = "[sample_message 0x02020001 7, sample_message 0x02020001 8]"
  obtain ch where ch: "ch_subscribe 0x02020000 sample_cond sample_cb Delayed (mk_channel ''c'' (default_channel_config\<lparr>loop_post_limit := 0\<rparr>)) = Inr (1, ch)"
    "sm_inv (ch_map ch)" "ch_q ch = []" "ch_config ch = default_channel_config\<lparr>loop_post_limit := 0\<rparr>" "sm_immediate (ch_map ch) = []"
    "sm_delayed (ch_map ch) = sample_entry" "live (ch_map ch) = [1 \<mapsto> sample_sub]"
    using sample_channel by blast
  obtain ch' where e: "ch_execute (\<lambda>_. 0) (publish_all [0, 0] ?ms ch) = (1, [(1, sample_message 0x02020001 7)], ch')"
    using ch(3-6) by (simp add: channel_eval)
  note q = publish_all_queue [OF ch(2), of "[0, 0]" ?ms]
  from execute_takes_prefix [OF _ e] q ch(1,3,7) e show ?thesis by auto
qed

lemma unsubscribed_never_called_witness:
  "\<exists>ch r ch'. ch_subscribe 0x02020000 sample_cond sample_cb Delayed (mk_channel ''c'' default_channel_config) = Inr (1, ch) \<and>
     ch_unsubscribe 1 ch = (r, ch') \<and>
     1 \<notin> fst ` set (fst (chan.serve [Inr (Inr (Publish 0 (sample_message 0x02020001 7))), Inr (Inr (Execute (\<lambda>_. 0)))] ch'))"
proof -
  obtain ch where ch: "ch_subscribe 0x02020000 sample_cond sample_cb Delayed (mk_channel ''c'' default_channel_config) = Inr (1, ch)"
    "sm_inv (ch_map ch)" using sample_channel by blast
  obtain r ch' where u: "ch_unsubscribe 1 ch = (r, ch')" by (cases "ch_unsubscribe 1 ch")
  have "1 \<notin> fst ` set (fst (chan.serve [Inr (Inr (Publish 0 (sample_message 0x02020001 7))), Inr (Inr (Execute (\<lambda>_. 0)))] ch'))"
    by (rule unsubscribed_never_called [OF ch(2) u]) simp
  with ch(1) u show ?thesis by blast
qed

end
