(* ===== verification/Channel_Map.thy ===== *)
theory Channel_Map
  imports Hash_Map
begin

text \<open>
  The registry of channels (\<^verbatim>\<open>core/index.hpp\<close>, \<^verbatim>\<open>core/channel/channel_map.hpp\<close>,
  \<^verbatim>\<open>src/core/channel/channel_map.cpp\<close>). A channel object is its address (\<open>get_pkey\<close>); the map
  goes from names to addresses and the secondary index from addresses to names. \<open>create\<close> checks
  under a shared lock, releases it, allocates, and inserts under an exclusive lock: two atomic
  steps, between which other threads run.
\<close>

section \<open>The secondary index\<close>

(* [include/wise.kernel/core/index.hpp:16-63 index] *)
record ('i, 'p) ix =
  ix_map :: "('i, 'p) umap"
  ix_null :: 'p

(* [include/wise.kernel/core/index.hpp:25-30 index::set] *)
definition ix_set :: "'i \<Rightarrow> 'p \<Rightarrow> ('i, 'p) ix \<Rightarrow> ('i, 'p) ix" where
  "ix_set ik pk x = x\<lparr>ix_map := um_set ik pk (ix_map x)\<rparr>"

(* [include/wise.kernel/core/index.hpp:32-35 index::unset] *)
definition ix_unset :: "'i \<Rightarrow> ('i, 'p) ix \<Rightarrow> ('i, 'p) ix" where
  "ix_unset ik x = x\<lparr>ix_map := um_erase ik (ix_map x)\<rparr>"

(* [include/wise.kernel/core/index.hpp:37-41 index::has] *)
definition ix_has :: "'i \<Rightarrow> ('i, 'p) ix \<Rightarrow> bool" where
  "ix_has ik x = um_has ik (ix_map x)"

(* [include/wise.kernel/core/index.hpp:43-46 index::size] *)
definition ix_size :: "('i, 'p) ix \<Rightarrow> nat" where
  "ix_size x = length (ix_map x)"

(* [include/wise.kernel/core/index.hpp:48-54 index::get] *)
definition ix_get :: "'i \<Rightarrow> ('i, 'p) ix \<Rightarrow> 'p" where
  "ix_get ik x = (case um_find ik (ix_map x) of None \<Rightarrow> ix_null x | Some pk \<Rightarrow> pk)"

(* [include/wise.kernel/core/index.hpp:56-59 index::clear] *)
definition ix_clear :: "('i, 'p) ix \<Rightarrow> ('i, 'p) ix" where
  "ix_clear x = x\<lparr>ix_map := []\<rparr>"

section \<open>The registry\<close>

type_synonym addr = nat

(* [include/wise.kernel/core/channel/channel_map.hpp:25-34 channel_map] *)
record channel_map =
  cm_map :: "(string, addr) umap"
  cm_pkeys :: "(addr, string) ix"

definition mk_channel_map :: channel_map where
  "mk_channel_map = \<lparr>cm_map = [], cm_pkeys = \<lparr>ix_map = [], ix_null = []\<rparr>\<rparr>"

(* [src/core/channel/channel_map.cpp:26-35 channel_map::create] *)
definition cm_create_check :: "string \<Rightarrow> channel_map \<Rightarrow> bool" where
  "cm_create_check key cm \<longleftrightarrow> um_find key (cm_map cm) = None"

(* [src/core/channel/channel_map.cpp:37-45 channel_map::create] *)
definition cm_create_insert :: "addr \<Rightarrow> string \<Rightarrow> channel_map \<Rightarrow> channel_map" where
  "cm_create_insert cp key cm = cm\<lparr>cm_map := um_insert key cp (cm_map cm), cm_pkeys := ix_set cp key (cm_pkeys cm)\<rparr>"

(* [src/core/channel/channel_map.cpp:24-50 channel_map::create] *)
definition cm_create :: "addr \<Rightarrow> string \<Rightarrow> channel_map \<Rightarrow> addr option \<times> channel_map" where
  "cm_create cp key cm =
     (if \<not> cm_create_check key cm then (None, cm) else (Some cp, cm_create_insert cp key cm))"

(* [src/core/channel/channel_map.cpp:52-60 channel_map::find] *)
definition cm_find :: "string \<Rightarrow> channel_map \<Rightarrow> addr option" where
  "cm_find key cm = um_find key (cm_map cm)"

(* [src/core/channel/channel_map.cpp:62-75 channel_map::find_from_addr] *)
definition cm_find_from_addr :: "addr \<Rightarrow> channel_map \<Rightarrow> addr option" where
  "cm_find_from_addr pkey cm =
     (if \<not> ix_has pkey (cm_pkeys cm) then None else cm_find (ix_get pkey (cm_pkeys cm)) cm)"

(* [src/core/channel/channel_map.cpp:77-91 channel_map::destroy] *)
definition cm_destroy :: "string \<Rightarrow> channel_map \<Rightarrow> bool \<times> channel_map" where
  "cm_destroy key cm =
     (case um_find key (cm_map cm) of
        None \<Rightarrow> (False, cm)
      | Some cp \<Rightarrow> (True, cm\<lparr>cm_pkeys := ix_unset cp (cm_pkeys cm), cm_map := um_erase key (cm_map cm)\<rparr>))"

section \<open>Map and index are inverse to each other\<close>

definition cm_inv :: "channel_map \<Rightarrow> bool" where
  "cm_inv cm \<longleftrightarrow> um_ok (cm_map cm) \<and> um_ok (ix_map (cm_pkeys cm)) \<and>
     (\<forall>key cp. um_find key (cm_map cm) = Some cp \<longleftrightarrow> um_find cp (ix_map (cm_pkeys cm)) = Some key)"

lemma mk_channel_map_inv: "cm_inv mk_channel_map"
  by (simp add: cm_inv_def mk_channel_map_def)

lemma cm_insert_inv:
  "cm_inv cm \<Longrightarrow> um_find key (cm_map cm) = None \<Longrightarrow> um_find cp (ix_map (cm_pkeys cm)) = None \<Longrightarrow> cm_inv (cm_create_insert cp key cm)"
  unfolding cm_inv_def cm_create_insert_def ix_set_def by simp (metis option.distinct(1))

lemma cm_destroy_inv: "cm_inv cm \<Longrightarrow> cm_inv (snd (cm_destroy key cm))"
proof -
  assume inv: "cm_inv cm"
  then have ab: "um_find k (cm_map cm) = Some a \<longleftrightarrow> um_find a (ix_map (cm_pkeys cm)) = Some k" for k a by (simp add: cm_inv_def)
  show ?thesis
  proof (cases "um_find key (cm_map cm)")
    case (Some cp)
    let ?m = "um_erase key (cm_map cm)" and ?i = "um_erase cp (ix_map (cm_pkeys cm))"
    have "um_find k ?m = Some a \<longleftrightarrow> um_find a ?i = Some k" for k a
      using Some ab [of k a] ab [of key a] ab [of k cp] ab [of key cp] by auto
    moreover have "cm_map (snd (cm_destroy key cm)) = ?m" "ix_map (cm_pkeys (snd (cm_destroy key cm))) = ?i"
      using Some by (simp_all add: cm_destroy_def ix_unset_def)
    ultimately show ?thesis using inv unfolding cm_inv_def by (simp only: um_ok_erase) blast
  qed (use inv in \<open>simp add: cm_destroy_def\<close>)
qed

lemma cm_inv_from_addr:
  "cm_inv cm \<Longrightarrow> cm_find_from_addr cp cm = (if \<exists>key. cm_find key cm = Some cp then Some cp else None)"
  by (auto simp: cm_inv_def cm_find_from_addr_def cm_find_def ix_has_def um_has_def ix_get_def split: option.splits)

lemma cm_inv_sizes:
  assumes "cm_inv cm"
  shows "length (cm_map cm) = ix_size (cm_pkeys cm)"
proof -
  let ?A = "{k. um_find k (cm_map cm) \<noteq> None}" and ?B = "{a. um_find a (ix_map (cm_pkeys cm)) \<noteq> None}"
  let ?f = "\<lambda>k. the (um_find k (cm_map cm))"
  have ab: "um_find k (cm_map cm) = Some a \<longleftrightarrow> um_find a (ix_map (cm_pkeys cm)) = Some k" for k a
    using assms by (simp add: cm_inv_def)
  have "inj_on ?f ?A"
  proof (rule inj_onI)
    fix k k' assume "k \<in> ?A" "k' \<in> ?A" "?f k = ?f k'"
    then obtain a where "um_find k (cm_map cm) = Some a" "um_find k' (cm_map cm) = Some a" by auto
    then show "k = k'" using ab [of k a] ab [of k' a] by simp
  qed
  moreover have "?f ` ?A = ?B"
  proof (intro equalityI subsetI)
    fix a assume "a \<in> ?B"
    then obtain k where "um_find a (ix_map (cm_pkeys cm)) = Some k" by auto
    then show "a \<in> ?f ` ?A" using ab [of k a] by (intro image_eqI [of _ _ k]) auto
  next
    fix a assume "a \<in> ?f ` ?A"
    then obtain k a' where "a = the (um_find k (cm_map cm))" "um_find k (cm_map cm) = Some a'" by auto
    then show "a \<in> ?B" using ab [of k a'] by simp
  qed
  ultimately have "card ?A = card ?B" using card_image [of ?f ?A] by simp
  moreover have "um_ok (cm_map cm)" "um_ok (ix_map (cm_pkeys cm))" using assms by (simp_all add: cm_inv_def)
  ultimately show ?thesis unfolding ix_size_def by (simp only: um.size_find)
qed

section \<open>Threads\<close>

text \<open>
  A thread inside \<open>create\<close> has passed the check for a name and still has to insert. Every
  allocation yields an address not in use (\<open>alive\<close> are the channels some client still holds).
\<close>

record cm_world =
  w_map :: channel_map
  w_pending :: "string list"
  w_alive :: "addr set"

inductive cm_step :: "bool \<Rightarrow> cm_world \<Rightarrow> cm_world \<Rightarrow> bool" for exclusive where
  check: "cm_create_check key (w_map w) \<Longrightarrow> exclusive \<longrightarrow> key \<notin> set (w_pending w) \<Longrightarrow>
    cm_step exclusive w (w\<lparr>w_pending := key # w_pending w\<rparr>)"
| insert: "key \<in> set (w_pending w) \<Longrightarrow> cp \<notin> w_alive w \<Longrightarrow>
    cm_step exclusive w (w\<lparr>w_map := cm_create_insert cp key (w_map w), w_pending := remove1 key (w_pending w), w_alive := insert cp (w_alive w)\<rparr>)"
| destroy: "cm_destroy key (w_map w) = (r, cm) \<Longrightarrow> cm_step exclusive w (w\<lparr>w_map := cm\<rparr>)"

inductive_cases cm_stepE: "cm_step exclusive w w'"

definition mk_world :: cm_world where
  "mk_world = \<lparr>w_map = mk_channel_map, w_pending = [], w_alive = {}\<rparr>"

definition world_inv :: "cm_world \<Rightarrow> bool" where
  "world_inv w \<longleftrightarrow> cm_inv (w_map w) \<and> distinct (w_pending w) \<and>
     (\<forall>key \<in> set (w_pending w). um_find key (cm_map (w_map w)) = None) \<and>
     (\<forall>key cp. um_find key (cm_map (w_map w)) = Some cp \<longrightarrow> cp \<in> w_alive w)"

lemma world_step_inv: "cm_step True w w' \<Longrightarrow> world_inv w \<Longrightarrow> world_inv w'"
proof (induction rule: cm_step.induct)
  case (check key w)
  then show ?case by (auto simp: world_inv_def cm_create_check_def)
next
  case (insert key w cp)
  have "um_find cp (ix_map (cm_pkeys (w_map w))) = None"
  proof (cases "um_find cp (ix_map (cm_pkeys (w_map w)))")
    case (Some k)
    then have "um_find k (cm_map (w_map w)) = Some cp" using insert by (simp add: world_inv_def cm_inv_def)
    then show ?thesis using insert by (auto simp: world_inv_def)
  qed simp
  with insert have "cm_inv (cm_create_insert cp key (w_map w))" by (intro cm_insert_inv) (auto simp: world_inv_def)
  with insert show ?case by (auto simp: world_inv_def cm_create_insert_def set_remove1_eq split: if_splits)
next
  case (destroy key w r cm)
  then have "cm_inv cm" using cm_destroy_inv [of "w_map w" key] by (simp add: world_inv_def)
  with destroy show ?case by (auto simp: world_inv_def cm_destroy_def split: option.splits if_splits)
qed

section \<open>Properties\<close>


text \<open>
  Two threads that create the same name together both pass the check. The second insertion
  leaves the map as it is but still enters its channel into the index: the loser's channel is
  not registered, a lookup by its address yields the winner's channel, and \<open>destroy\<close> leaves its
  entry behind.
\<close>

theorem create_race:
  assumes "cp \<noteq> cp'" "um_find key (cm_map cm) = None" "cm_inv cm" "um_find cp' (ix_map (cm_pkeys cm)) = None"
  shows "cm_create_check key cm \<and>
    (let cm2 = cm_create_insert cp' key (cm_create_insert cp key cm)
     in cm_find key cm2 = Some cp \<and> cm_find_from_addr cp' cm2 = Some cp \<and> ix_has cp' (cm_pkeys (snd (cm_destroy key cm2))))"
  using assms
  by (simp add: Let_def cm_create_check_def cm_find_def cm_find_from_addr_def cm_create_insert_def ix_set_def ix_has_def um_has_def
      ix_get_def cm_destroy_def ix_unset_def)


lemma create_race_witness:
  "let cm2 = cm_create_insert 8 ''a'' (cm_create_insert 7 ''a'' mk_channel_map)
   in cm_create_check ''a'' mk_channel_map \<and> cm_find ''a'' cm2 = Some 7 \<and> cm_find_from_addr 8 cm2 = Some 7 \<and>
      ix_has 8 (cm_pkeys (snd (cm_destroy ''a'' cm2)))"
  using create_race [of 7 8 "''a''" mk_channel_map] mk_channel_map_inv by (simp add: Let_def mk_channel_map_def)

end
