(* ===== verification/Tick.thy ===== *)
theory Tick
  imports Prelude
begin

text \<open>
  Stop watches (\<^verbatim>\<open>include/wise.kernel/core/tick.hpp\<close>) in milliseconds. A watch is the time it was
  started; the system clock may be set back, in which case the difference wraps around to a
  very large \<^verbatim>\<open>tick_t\<close>.
\<close>

(* [include/wise.kernel/core/tick.hpp:21-26 tick::elapsed] *)
definition tick_elapsed :: "nat \<Rightarrow> nat \<Rightarrow> nat" where
  "tick_elapsed now start = usub now start"

(* [include/wise.kernel/core/tick.hpp:34-47 tick::check_timeout] *)
definition check_timeout :: "nat \<Rightarrow> nat \<Rightarrow> nat \<Rightarrow> bool \<times> nat" where
  "check_timeout now time start = (if tick_elapsed now start > time then (True, now) else (False, start))"

lemma check_timeout_iff: "start \<le> now \<Longrightarrow> fst (check_timeout now time start) \<longleftrightarrow> start + time < now"
  by (auto simp: check_timeout_def tick_elapsed_def)

text \<open>Unsigned 64-bit addition of two times.\<close>

definition uadd :: "nat \<Rightarrow> nat \<Rightarrow> nat" where
  "uadd a b = (a + b) mod 2 ^ 64"

lemma uadd_small [simp]: "a + b < 2 ^ 64 \<Longrightarrow> uadd a b = a + b"
  by (simp add: uadd_def)

end
