(* ===== verification/Task.thy ===== *)
theory Task
  imports Concurrent_Queue Tick
begin

text \<open>
  Tasks, the scheduler and its runners (\<^verbatim>\<open>core/task/task.hpp\<close>, \<^verbatim>\<open>task_scheduler.hpp\<close>,
  \<^verbatim>\<open>task_runner.hpp\<close> and \<^verbatim>\<open>src/core/task\<close>). A task object is a number; the heap maps it to its
  fields. What a derived class does in \<open>on_start\<close>, \<open>on_execute\<close> and \<open>on_finish\<close> is a parameter:
  a function of the task's identity and fields that returns a value or throws. Times come in as the
  readings of the clock. A runner's treatment of one popped task is one step; between two steps
  any other thread may act.
\<close>

section \<open>Tasks\<close>

(* [include/wise.kernel/core/task/task.hpp:30-37 task::state] *)
datatype task_state = Constructed | Started | Cancelled | Paused | Finished

(* [include/wise.kernel/core/task/task.hpp:39-45 task::result] *)
datatype task_result = Success | Fail | Exit | Result_Finished

(* [include/wise.kernel/core/task/task.hpp:47-53 task::priority] *)
datatype task_priority = Realtime | Level_1 | Level_2 | Level_3

(* [include/wise.kernel/core/task/task.hpp:155-171 task] *)
record task =
  t_state :: task_state
  t_last_runner :: u32
  t_execution_count :: u32
  t_priority :: task_priority
  t_last_execution_time :: u64
  t_average_execution_time :: u64
  t_total_execution_time :: u64
  t_last_waiting_time :: u64
  t_total_waiting_time :: u64
  t_queue_tick :: nat

(* [src/core/task/task.cpp:10-13 task::task] *)
definition mk_task :: task where
  "mk_task = \<lparr>t_state = Constructed, t_last_runner = 0, t_execution_count = 0, t_priority = Level_1,
     t_last_execution_time = 0, t_average_execution_time = 0, t_total_execution_time = 0,
     t_last_waiting_time = 0, t_total_waiting_time = 0, t_queue_tick = 0\<rparr>"

text \<open>A virtual call returns or throws.\<close>

datatype 'a call = Ret 'a | Raise

(* [include/wise.kernel/core/task/task.hpp:145-153 task::on_start] *)
record behaviour =
  on_start :: "nat \<Rightarrow> task \<Rightarrow> bool call"
  on_execute :: "nat \<Rightarrow> task \<Rightarrow> task_result call"
  on_finish :: "nat \<Rightarrow> task \<Rightarrow> unit call"

(* [src/core/task/task.cpp:95-107 task::on_start] *)
definition default_behaviour :: behaviour where
  "default_behaviour = \<lparr>on_start = \<lambda>_ _. Ret True, on_execute = \<lambda>_ _. Ret Success, on_finish = \<lambda>_ _. Ret ()\<rparr>"

(* [src/core/task/task.cpp:19-29 task::start] *)
definition task_start :: "behaviour \<Rightarrow> nat \<Rightarrow> task \<Rightarrow> bool call \<times> task" where
  "task_start bh i t =
     (case on_start bh i t of
        Raise \<Rightarrow> (Raise, t)
      | Ret ok \<Rightarrow> let t' = (if ok then t\<lparr>t_state := Started\<rparr> else t) in (Ret (t_state t' = Started), t'))"

(* [src/core/task/task.cpp:31-64 task::execute] *)
definition task_execute :: "behaviour \<Rightarrow> nat \<Rightarrow> u32 \<Rightarrow> u64 \<Rightarrow> u64 \<Rightarrow> task \<Rightarrow> task_result call \<times> task" where
  "task_execute bh i runner_id waited took t0 =
     (let t = t0\<lparr>t_last_execution_time := 0\<rparr> in
      if t_state t = Finished then (Ret Result_Finished, t)
      else if t_state t = Cancelled then (Ret Exit, t)
      else if t_state t = Paused then (Ret Success, t)
      else
        let t1 = t\<lparr>t_last_runner := runner_id, t_last_waiting_time := waited, t_total_waiting_time := t_total_waiting_time t + waited\<rparr> in
        case on_execute bh i t1 of
          Raise \<Rightarrow> (Raise, t1)
        | Ret rc \<Rightarrow> (Ret rc, t1\<lparr>t_execution_count := t_execution_count t1 + 1, t_last_execution_time := took,
            t_total_execution_time := t_total_execution_time t1 + took,
            t_average_execution_time := (t_average_execution_time t1 + took) div 2\<rparr>))"

(* [src/core/task/task.cpp:66-70 task::pause] *)
definition task_pause :: "task \<Rightarrow> task" where
  "task_pause t = (if t_state t = Finished then t else t\<lparr>t_state := Paused\<rparr>)"

(* [src/core/task/task.cpp:72-76 task::resume] *)
definition task_resume :: "task \<Rightarrow> task" where
  "task_resume t = t\<lparr>t_state := Started\<rparr>"

(* [src/core/task/task.cpp:78-82 task::cancel] *)
definition task_cancel :: "task \<Rightarrow> task" where
  "task_cancel t = (if t_state t = Finished then t else t\<lparr>t_state := Cancelled\<rparr>)"

(* [src/core/task/task.cpp:84-93 task::finish] *)
definition task_finish :: "behaviour \<Rightarrow> nat \<Rightarrow> task \<Rightarrow> unit call \<times> task" where
  "task_finish bh i t = (case on_finish bh i t of Raise \<Rightarrow> (Raise, t) | Ret _ \<Rightarrow> (Ret (), t\<lparr>t_state := Finished\<rparr>))"

section \<open>The scheduler\<close>

(* [include/wise.kernel/core/task/task_scheduler.hpp:79-92 task_scheduler] *)
record sched =
  heap :: "nat \<Rightarrow> task"
  run_queue :: "nat list"
  wait_queue_1 :: "nat list"
  wait_queue_2 :: "nat list"
  wait_queue_3 :: "nat list"
  st_1 :: nat
  st_2 :: nat
  st_3 :: nat

definition on_heap :: "nat \<Rightarrow> task \<Rightarrow> sched \<Rightarrow> sched" where
  "on_heap i t s = s\<lparr>heap := (heap s)(i := t)\<rparr>"

(* [src/core/task/task_scheduler.cpp:9-11 level_1] *)
definition level_time :: "task_priority \<Rightarrow> nat" where
  "level_time p = (case p of Realtime \<Rightarrow> 0 | Level_1 \<Rightarrow> 10 | Level_2 \<Rightarrow> 20 | Level_3 \<Rightarrow> 100)"

(* [src/core/task/task_scheduler.cpp:55-61 task_scheduler::add] *)
definition sched_add :: "nat \<Rightarrow> sched \<Rightarrow> sched" where
  "sched_add i s = s\<lparr>run_queue := cq_push i (run_queue s)\<rparr>"

(* [include/wise.kernel/core/task/task.hpp:126-129 task::mark_queue_time] *)
definition mark_queue_time :: "nat \<Rightarrow> task \<Rightarrow> task" where
  "mark_queue_time now t = t\<lparr>t_queue_tick := now\<rparr>"

text \<open>Emptying one wait queue into the run queue.\<close>

(* [src/core/task/task_scheduler.cpp:71-75 task_scheduler::schedule] *)
fun release_waiting :: "nat \<Rightarrow> nat list \<Rightarrow> sched \<Rightarrow> sched" where
  "release_waiting now [] s = s"
| "release_waiting now (i # q) s =
     release_waiting now q (on_heap i (mark_queue_time now (heap s i)) (s\<lparr>run_queue := cq_push i (run_queue s)\<rparr>))"

(* [src/core/task/task_scheduler.cpp:63-95 task_scheduler::schedule] *)
definition sched_schedule :: "nat \<Rightarrow> sched \<Rightarrow> sched" where
  "sched_schedule now s0 =
     (let (due1, t1) = check_timeout now (level_time Level_1) (st_1 s0);
          s1 = (if due1 then release_waiting now (wait_queue_1 s0) (s0\<lparr>st_1 := t1, wait_queue_1 := []\<rparr>) else s0);
          (due2, t2) = check_timeout now (level_time Level_2) (st_2 s1);
          s2 = (if due2 then release_waiting now (wait_queue_2 s1) (s1\<lparr>st_2 := t2, wait_queue_2 := []\<rparr>) else s1);
          (due3, t3) = check_timeout now (level_time Level_3) (st_3 s2)
      in (if due3 then release_waiting now (wait_queue_3 s2) (s2\<lparr>st_3 := t3, wait_queue_3 := []\<rparr>) else s2))"

(* [src/core/task/task_scheduler.cpp:135-160 task_scheduler::pass] *)
definition sched_pass :: "nat \<Rightarrow> nat \<Rightarrow> sched \<Rightarrow> sched" where
  "sched_pass now i s =
     (case t_priority (heap s i) of
        Realtime \<Rightarrow> (on_heap i (mark_queue_time now (heap s i)) s)\<lparr>run_queue := cq_push i (run_queue s)\<rparr>
      | Level_1 \<Rightarrow> s\<lparr>wait_queue_1 := cq_push i (wait_queue_1 s)\<rparr>
      | Level_2 \<Rightarrow> s\<lparr>wait_queue_2 := cq_push i (wait_queue_2 s)\<rparr>
      | Level_3 \<Rightarrow> s\<lparr>wait_queue_3 := cq_push i (wait_queue_3 s)\<rparr>)"

(* [src/core/task/task_scheduler.cpp:162-165 task_scheduler::pop] *)
definition sched_pop :: "sched \<Rightarrow> (nat \<times> sched) option" where
  "sched_pop s = (case cq_pop (run_queue s) of None \<Rightarrow> None | Some (i, q) \<Rightarrow> Some (i, s\<lparr>run_queue := q\<rparr>))"

text \<open>
  Finishing what is left in a queue; an \<open>on_finish\<close> that throws leaves \<open>finish_queue\<close>, so the
  result says whether the loop ran to its end.
\<close>

(* [src/core/task/task_scheduler.cpp:114-128 task_scheduler::finish_queue] *)
fun finish_queue :: "behaviour \<Rightarrow> nat list \<Rightarrow> (nat \<Rightarrow> task) \<Rightarrow> bool \<times> nat list \<times> (nat \<Rightarrow> task)" where
  "finish_queue bh [] h = (True, [], h)"
| "finish_queue bh (i # q) h =
     (if t_state (h i) = Started \<or> t_state (h i) = Cancelled then
        (case task_finish bh i (h i) of
           (Raise, t) \<Rightarrow> (False, q, h(i := t))
         | (Ret _, t) \<Rightarrow> finish_queue bh q (h(i := t)))
      else finish_queue bh q h)"

(* [src/core/task/task_scheduler.cpp:97-112 task_scheduler::finish] *)
definition sched_finish :: "behaviour \<Rightarrow> sched \<Rightarrow> bool \<times> sched" where
  "sched_finish bh s =
     (case finish_queue bh (run_queue s) (heap s) of (ok0, q0, h0) \<Rightarrow>
      let s0 = s\<lparr>run_queue := q0, heap := h0\<rparr> in if \<not> ok0 then (False, s0) else
     (case finish_queue bh (wait_queue_1 s0) h0 of (ok1, q1, h1) \<Rightarrow>
      let s1 = s0\<lparr>wait_queue_1 := q1, heap := h1\<rparr> in if \<not> ok1 then (False, s1) else
     (case finish_queue bh (wait_queue_2 s1) h1 of (ok2, q2, h2) \<Rightarrow>
      let s2 = s1\<lparr>wait_queue_2 := q2, heap := h2\<rparr> in if \<not> ok2 then (False, s2) else
     (case finish_queue bh (wait_queue_3 s2) h2 of (ok3, q3, h3) \<Rightarrow>
      (ok3, s2\<lparr>wait_queue_3 := q3, heap := h3\<rparr>)))))"

(* [src/core/task/task_scheduler.cpp:130-133 task_scheduler::get_task_count] *)
definition get_task_count :: "sched \<Rightarrow> nat" where
  "get_task_count s = cq_size (run_queue s)"

section \<open>Runners\<close>

text \<open>The readings of the clock while a runner treats one task.\<close>

record reading =
  rd_now :: nat
  rd_waited :: u64
  rd_took :: u64

(* [src/core/task/task_runner.cpp:96-111 task_runner::run] *)
definition dispose :: "behaviour \<Rightarrow> reading \<Rightarrow> nat \<Rightarrow> task_result \<Rightarrow> sched \<Rightarrow> bool \<times> sched" where
  "dispose bh rd i rc s =
     (case rc of
        Fail \<Rightarrow> (case task_finish bh i (heap s i) of (Raise, t) \<Rightarrow> (False, on_heap i t s) | (Ret _, t) \<Rightarrow> (True, on_heap i t s))
      | Exit \<Rightarrow> (case task_finish bh i (heap s i) of (Raise, t) \<Rightarrow> (False, on_heap i t s) | (Ret _, t) \<Rightarrow> (True, on_heap i t s))
      | Success \<Rightarrow> (True, sched_pass (rd_now rd) i s)
      | Result_Finished \<Rightarrow> (True, s))"

text \<open>
  The body of the inner loop for a popped task; the flag tells whether the round reached
  \<open>++loop_count\<close> (it does not after a \<open>continue\<close> or a caught exception).
\<close>

(* [src/core/task/task_runner.cpp:73-132 task_runner::run] *)
definition run_one :: "behaviour \<Rightarrow> u32 \<Rightarrow> reading \<Rightarrow> nat \<Rightarrow> sched \<Rightarrow> bool \<times> sched" where
  "run_one bh rid rd i s =
     (case (if t_state (heap s i) = Constructed then task_start bh i (heap s i) else (Ret True, heap s i)) of
        (Raise, t) \<Rightarrow> (False, on_heap i t s)
      | (Ret False, t) \<Rightarrow> (False, on_heap i t s)
      | (Ret True, t) \<Rightarrow>
          if t_state t = Paused then (False, sched_pass (rd_now rd) i (on_heap i t s))
          else (case task_execute bh i rid (rd_waited rd) (rd_took rd) t of
                  (Raise, t') \<Rightarrow> (False, on_heap i t' s)
                | (Ret rc, t') \<Rightarrow> dispose bh rd i rc (on_heap i t' s)))"

text \<open>
  The inner loop of one runner while no other thread acts: \<open>limit\<close> is
  \<open>single_loop_run_limit\<close> (0: none), the result the number of counted rounds, \<open>None\<close> when the
  fuel does not suffice.
\<close>

(* [src/core/task/task_runner.cpp:69-133 task_runner::run] *)
fun run_loop :: "nat \<Rightarrow> behaviour \<Rightarrow> u32 \<Rightarrow> (nat \<Rightarrow> reading) \<Rightarrow> nat \<Rightarrow> nat \<Rightarrow> sched \<Rightarrow> (nat \<times> sched) option" where
  "run_loop 0 bh rid rds limit n s = None"
| "run_loop (Suc fuel) bh rid rds limit n s =
     (case sched_pop s of
        None \<Rightarrow> Some (n, s)
      | Some (i, s1) \<Rightarrow>
          (case run_one bh rid (rds fuel) i s1 of
             (counted, s2) \<Rightarrow>
               let n' = (if counted then n + 1 else n) in
               if counted \<and> limit > 0 \<and> n' \<ge> limit then Some (n', s2)
               else run_loop fuel bh rid rds limit n' s2))"

(* [src/core/task/task_runner.cpp:139-159 task_runner::run] *)
definition idle_sleep_time :: "nat \<Rightarrow> nat \<Rightarrow> nat \<Rightarrow> nat \<times> nat" where
  "idle_sleep_time idle_sleep_time_ms loop_count continous_sleep_count =
     (if loop_count = 0 then
        let c = continous_sleep_count + 1 in (min 5 (idle_sleep_time_ms * c), c)
      else (idle_sleep_time_ms, 0))"

end
