(* ===== verification/Task_Runners.thy ===== *)
theory Task_Runners
  imports Task "HOL-Library.Multiset"
begin

text \<open>
  Several runners on one scheduler. A step of the system is one of: a new task is added, a runner
  pops a task, a runner treats the task it holds, the waiting tasks are scheduled, some thread
  pauses, resumes, cancels or re-prioritises a task. The invariant is that a task is in at most
  one queue or in the hands of at most one runner.
\<close>

section \<open>What the operations do to the queues\<close>

definition queued :: "sched \<Rightarrow> nat list" where
  "queued s = run_queue s @ wait_queue_1 s @ wait_queue_2 s @ wait_queue_3 s"

lemma on_heap_simps [simp]:
  "run_queue (on_heap i t s) = run_queue s" "wait_queue_1 (on_heap i t s) = wait_queue_1 s"
  "wait_queue_2 (on_heap i t s) = wait_queue_2 s" "wait_queue_3 (on_heap i t s) = wait_queue_3 s"
  "st_1 (on_heap i t s) = st_1 s" "st_2 (on_heap i t s) = st_2 s" "st_3 (on_heap i t s) = st_3 s"
  "heap (on_heap i t s) = (heap s)(i := t)" "queued (on_heap i t s) = queued s"
  by (simp_all add: on_heap_def queued_def)

lemma mark_queue_time_simps [simp]:
  "t_state (mark_queue_time now t) = t_state t" "t_priority (mark_queue_time now t) = t_priority t"
  by (simp_all add: mark_queue_time_def)

lemma release_waiting_simps [simp]:
  "run_queue (release_waiting now q s) = run_queue s @ q" "wait_queue_1 (release_waiting now q s) = wait_queue_1 s"
  "wait_queue_2 (release_waiting now q s) = wait_queue_2 s" "wait_queue_3 (release_waiting now q s) = wait_queue_3 s"
  "st_1 (release_waiting now q s) = st_1 s" "st_2 (release_waiting now q s) = st_2 s" "st_3 (release_waiting now q s) = st_3 s"
  "t_state (heap (release_waiting now q s) i) = t_state (heap s i)"
  "t_priority (heap (release_waiting now q s) i) = t_priority (heap s i)"
  by (induction now q s rule: release_waiting.induct) (simp_all add: cq_push_def)

lemma schedule_queues:
  "run_queue (sched_schedule now s) = run_queue s @
     (if fst (check_timeout now 10 (st_1 s)) then wait_queue_1 s else []) @
     (if fst (check_timeout now 20 (st_2 s)) then wait_queue_2 s else []) @
     (if fst (check_timeout now 100 (st_3 s)) then wait_queue_3 s else [])"
  "wait_queue_1 (sched_schedule now s) = (if fst (check_timeout now 10 (st_1 s)) then [] else wait_queue_1 s)"
  "wait_queue_2 (sched_schedule now s) = (if fst (check_timeout now 20 (st_2 s)) then [] else wait_queue_2 s)"
  "wait_queue_3 (sched_schedule now s) = (if fst (check_timeout now 100 (st_3 s)) then [] else wait_queue_3 s)"
  "t_state (heap (sched_schedule now s) i) = t_state (heap s i)"
  by (simp_all add: sched_schedule_def check_timeout_def level_time_def Let_def)

lemma schedule_queued: "mset (queued (sched_schedule now s)) = mset (queued s)"
  by (simp add: queued_def schedule_queues)

lemma pass_queued: "mset (queued (sched_pass now i s)) = add_mset i (mset (queued s))"
  by (auto simp: queued_def sched_pass_def cq_push_def split: task_priority.splits)

lemma pass_heap: "t_state (heap (sched_pass now i s) j) = t_state (heap s j)"
  by (auto simp: sched_pass_def split: task_priority.splits)

lemma pop_queued: "sched_pop s = Some (i, s') \<Longrightarrow> queued s = i # queued s' \<and> heap s' = heap s"
  by (cases "run_queue s") (auto simp: sched_pop_def queued_def)

lemma add_queued: "mset (queued (sched_add i s)) = add_mset i (mset (queued s))"
  by (simp add: queued_def sched_add_def cq_push_def)

text \<open>One treatment of a task puts back that task or nothing.\<close>

lemma run_one_queued:
  assumes "run_one bh rid rd i s = (c, s')"
  shows "mset (queued s') = mset (queued s) \<or> mset (queued s') = add_mset i (mset (queued s))"
proof -
  have d: "mset (queued (snd (dispose bh rd i rc s1))) \<in> {mset (queued s1), add_mset i (mset (queued s1))}" for rc s1
    by (auto simp: dispose_def pass_queued split: task_result.splits prod.splits call.splits)
  from assms show ?thesis
    using d [of _ "on_heap i _ s"]
    by (auto simp: run_one_def pass_queued split: if_splits prod.splits call.splits bool.splits) (metis on_heap_simps(9) snd_conv insert_iff singletonD)+
qed

section \<open>The system\<close>

record system =
  sys_sched :: sched
  hands :: "u32 \<Rightarrow> nat option"
  added :: "nat set"

inductive sys_step :: "behaviour \<Rightarrow> system \<Rightarrow> system \<Rightarrow> bool" for bh where
  add: "i \<notin> added w \<Longrightarrow> sys_step bh w (w\<lparr>sys_sched := sched_add i (sys_sched w), added := insert i (added w)\<rparr>)"
| pop: "hands w r = None \<Longrightarrow> sched_pop (sys_sched w) = Some (i, s) \<Longrightarrow>
    sys_step bh w (w\<lparr>sys_sched := s, hands := (hands w)(r \<mapsto> i)\<rparr>)"
| run: "hands w r = Some i \<Longrightarrow> run_one bh r rd i (sys_sched w) = (c, s) \<Longrightarrow>
    sys_step bh w (w\<lparr>sys_sched := s, hands := (hands w)(r := None)\<rparr>)"
| schedule: "sys_step bh w (w\<lparr>sys_sched := sched_schedule now (sys_sched w)\<rparr>)"
| control: "t \<in> {task_pause (heap (sys_sched w) i), task_resume (heap (sys_sched w) i), task_cancel (heap (sys_sched w) i),
       (heap (sys_sched w) i)\<lparr>t_priority := p\<rparr>} \<Longrightarrow>
    sys_step bh w (w\<lparr>sys_sched := on_heap i t (sys_sched w)\<rparr>)"

inductive_cases sys_stepE: "sys_step bh w w'"

definition mk_system :: "(nat \<Rightarrow> task) \<Rightarrow> system" where
  "mk_system h = \<lparr>sys_sched = \<lparr>heap = h, run_queue = [], wait_queue_1 = [], wait_queue_2 = [], wait_queue_3 = [],
      st_1 = 0, st_2 = 0, st_3 = 0\<rparr>, hands = Map.empty, added = {}\<rparr>"

definition sys_inv :: "system \<Rightarrow> bool" where
  "sys_inv w \<longleftrightarrow> distinct (queued (sys_sched w)) \<and> set (queued (sys_sched w)) \<subseteq> added w \<and>
     (\<forall>r i. hands w r = Some i \<longrightarrow> i \<in> added w \<and> i \<notin> set (queued (sys_sched w))) \<and>
     (\<forall>r r' i. hands w r = Some i \<and> hands w r' = Some i \<longrightarrow> r = r')"

lemma sys_inv_mset:
  assumes "sys_inv w" "mset (queued s) = mset (queued (sys_sched w))"
  shows "sys_inv (w\<lparr>sys_sched := s\<rparr>)"
  using assms mset_eq_setD [OF assms(2)] mset_eq_imp_distinct_iff [OF assms(2)] by (simp add: sys_inv_def)

lemma mset_add_list: "mset xs = add_mset i (mset ys) \<Longrightarrow> set xs = insert i (set ys) \<and> (distinct xs \<longleftrightarrow> i \<notin> set ys \<and> distinct ys)"
  using mset_eq_setD [of xs "i # ys"] mset_eq_imp_distinct_iff [of xs "i # ys"] by simp

lemma sys_step_inv: "sys_step bh w w' \<Longrightarrow> sys_inv w \<Longrightarrow> sys_inv w'"
proof (induction rule: sys_step.induct)
  case (add i w)
  with mset_add_list [OF add_queued, of i "sys_sched w"] show ?case by (auto simp: sys_inv_def)
next
  case (pop w r i s)
  with pop_queued [OF pop(2)] show ?case by (auto simp: sys_inv_def)
next
  case (run w r i rd c s)
  from run_one_queued [OF run(2)] show ?case
  proof
    assume m: "mset (queued s) = mset (queued (sys_sched w))"
    with run mset_eq_setD [OF m] mset_eq_imp_distinct_iff [OF m] show ?thesis by (auto simp: sys_inv_def)
  next
    assume m: "mset (queued s) = add_mset i (mset (queued (sys_sched w)))"
    with run mset_add_list [OF m] show ?thesis by (auto simp: sys_inv_def)
  qed
next
  case (schedule w now)
  then show ?case by (intro sys_inv_mset) (simp_all add: schedule_queued)
next
  case (control t w i p)
  then show ?case by (intro sys_inv_mset) simp_all
qed

lemma sys_reach_inv: "(sys_step bh)\<^sup>*\<^sup>* (mk_system h) w \<Longrightarrow> sys_inv w"
proof (induction rule: rtranclp_induct)
  case base
  then show ?case by (simp add: sys_inv_def mk_system_def queued_def)
next
  case (step y z)
  then show ?case by (auto intro: sys_step_inv)
qed

section \<open>One runner alone\<close>

definition spins :: "task \<Rightarrow> bool" where
  "spins t \<longleftrightarrow> t_state t = Paused \<and> t_priority t = Realtime"

lemma execute_not_spinning: "task_execute bh i rid wt tk t = (r, t') \<Longrightarrow> t_state t' = t_state t \<and> t_priority t' = t_priority t"
  by (auto simp: task_execute_def Let_def split: if_splits call.splits)

lemma start_not_spinning: "task_start bh i t = (r, t') \<Longrightarrow> t_priority t' = t_priority t \<and> (t_state t' = t_state t \<or> t_state t' = Started)"
  by (auto simp: task_start_def Let_def split: if_splits call.splits)

text \<open>
  A round that is not counted takes the task out of the run queue, unless the task is paused
  and realtime; a counted one appends at most that task.
\<close>

lemma run_one_progress:
  assumes "run_one bh rid rd i s = (c, s')" "\<not> spins (heap s i)" "\<forall>j \<in> set (run_queue s). \<not> spins (heap s j)"
  shows "(if c then length (run_queue s') \<le> Suc (length (run_queue s)) else run_queue s' = run_queue s) \<and>
         (\<forall>j \<in> set (run_queue s'). \<not> spins (heap s' j))"
proof -
  have p: "run_queue (sched_pass now i s1) = run_queue s1 \<or> run_queue (sched_pass now i s1) = run_queue s1 @ [i]"
    "t_state (heap s1 i) = Paused \<Longrightarrow> \<not> spins (heap s1 i) \<Longrightarrow> run_queue (sched_pass now i s1) = run_queue s1"
    "spins (heap (sched_pass now i s1) j) \<longleftrightarrow> spins (heap s1 j)" for now s1 j
    by (auto simp: sched_pass_def cq_push_def spins_def split: task_priority.splits)
  have keep: "\<forall>j \<in> set (run_queue s). \<not> spins (((heap s)(i := t)) j)" if "\<not> spins t" for t
    using that assms(3) by auto
  have f: "task_finish bh i t = (r, t') \<Longrightarrow> t_state t' = t_state t \<or> t_state t' = Finished" for t r t'
    by (auto simp: task_finish_def split: call.splits)
  have fp: "task_finish bh i t = (r, t') \<Longrightarrow> t_priority t' = t_priority t" for t r t'
    by (auto simp: task_finish_def split: call.splits)
  obtain r1 t1 where t1: "(if t_state (heap s i) = Constructed then task_start bh i (heap s i) else (Ret True, heap s i)) = (r1, t1)"
    by fastforce
  have ns1: "\<not> spins t1" using t1 assms(2) start_not_spinning [of bh i "heap s i" r1 t1] by (auto simp: spins_def split: if_splits)
  show ?thesis
  proof (cases "r1 = Ret True \<and> t_state t1 \<noteq> Paused")
    case False
    have "c = False \<and> (s' = on_heap i t1 s \<or> t_state t1 = Paused \<and> s' = sched_pass (rd_now rd) i (on_heap i t1 s))"
      using assms(1) False by (auto simp: run_one_def t1 split: call.splits bool.splits if_splits)
    then show ?thesis using keep [OF ns1] ns1 p(2) [of "on_heap i t1 s"] by (auto simp: p(3))
  next
    case True
    obtain r2 t2 where t2: "task_execute bh i rid (rd_waited rd) (rd_took rd) t1 = (r2, t2)" by fastforce
    have ns2: "\<not> spins t2" "t_state t2 \<noteq> Paused" using execute_not_spinning [OF t2] ns1 True by (auto simp: spins_def)
    show ?thesis
    proof (cases r2)
      case Raise
      with assms(1) t1 t2 True keep [OF ns2(1)] show ?thesis by (auto simp: run_one_def)
    next
      case (Ret rc)
      with assms(1) t1 t2 True have d: "dispose bh rd i rc (on_heap i t2 s) = (c, s')" by (simp add: run_one_def)
      obtain r3 t3 where t3: "task_finish bh i t2 = (r3, t3)" by fastforce
      have ns3: "\<not> spins t3" using f [OF t3] fp [OF t3] ns2 by (auto simp: spins_def)
      show ?thesis
        using d t3 keep [OF ns2(1)] keep [OF ns3] ns2(1) p(1) [of "rd_now rd" "on_heap i t2 s"]
        by (auto simp: dispose_def p(3) split: task_result.splits call.splits)
    qed
  qed
qed

lemma run_loop_enough:
  "limit > 0 \<Longrightarrow> n \<le> limit \<Longrightarrow> \<forall>j \<in> set (run_queue s). \<not> spins (heap s j) \<Longrightarrow> length (run_queue s) + (limit - n) < fuel \<Longrightarrow>
   run_loop fuel bh rid rds limit n s \<noteq> None"
proof (induction fuel arbitrary: n s)
  case (Suc fuel)
  show ?case
  proof (cases "run_queue s")
    case Nil
    then show ?thesis by (simp add: sched_pop_def)
  next
    case (Cons i q)
    let ?s = "s\<lparr>run_queue := q\<rparr>"
    obtain c s' where r: "run_one bh rid (rds fuel) i ?s = (c, s')" by fastforce
    have "\<not> spins (heap ?s i)" "\<forall>j \<in> set (run_queue ?s). \<not> spins (heap ?s j)" using Suc.prems(3) Cons by auto
    note p = run_one_progress [OF r this]
    show ?thesis
      using Suc.IH [of "if c then n + 1 else n" s'] p Suc.prems Cons r
      by (auto simp: sched_pop_def Let_def split: if_splits)
  qed
qed simp

section \<open>Properties\<close>




definition sample_sched :: "task \<Rightarrow> sched" where
  "sample_sched t = \<lparr>heap = (\<lambda>_. t), run_queue = [4, 5], wait_queue_1 = [6], wait_queue_2 = [], wait_queue_3 = [7], st_1 = 0, st_2 = 0, st_3 = 0\<rparr>"


text \<open>
  One paused realtime task alone in the run queue keeps a runner busy for ever: it is put
  back at once, the round is not counted, and the run limit never takes effect.
\<close>

theorem paused_realtime_spins:
  assumes "run_queue s = [i]" "spins (heap s i)"
  shows "run_loop fuel bh rid rds limit n s = None"
  using assms
proof (induction fuel arbitrary: s)
  case (Suc fuel)
  let ?s = "s\<lparr>run_queue := []\<rparr>"
  have r: "run_one bh rid (rds fuel) i ?s = (False, sched_pass (rd_now (rds fuel)) i (on_heap i (heap s i) ?s))"
    using Suc.prems(2) by (simp add: run_one_def spins_def)
  let ?s' = "sched_pass (rd_now (rds fuel)) i (on_heap i (heap s i) ?s)"
  have "run_queue ?s' = [i]" "spins (heap ?s' i)"
    using Suc.prems(2) by (simp_all add: sched_pass_def spins_def cq_push_def)
  from Suc.IH [OF this] show ?case using Suc.prems(1) r by (simp add: sched_pop_def)
qed simp

lemma paused_realtime_spins_witness:
  "run_loop 1000 default_behaviour 1 (\<lambda>_. \<lparr>rd_now = 0, rd_waited = 0, rd_took = 0\<rparr>) 64 0
     ((sample_sched (mk_task\<lparr>t_priority := Realtime, t_state := Paused\<rparr>))\<lparr>run_queue := [4]\<rparr>) = None"
  by (rule paused_realtime_spins [of _ 4]) (simp_all add: sample_sched_def spins_def)

text \<open>
  \<open>schedule\<close> moves exactly the wait queues whose period has passed (10, 20 and 100 ms since the
  last time) to the end of the run queue, in level order and each in arrival order, and leaves
  the others alone; no task is lost, duplicated or changes its state.
\<close>

theorem schedule_releases_due:
  assumes "st_1 s \<le> now" "st_2 s \<le> now" "st_3 s \<le> now"
  shows "run_queue (sched_schedule now s) = run_queue s @ (if st_1 s + 10 < now then wait_queue_1 s else []) @
           (if st_2 s + 20 < now then wait_queue_2 s else []) @ (if st_3 s + 100 < now then wait_queue_3 s else []) \<and>
         mset (queued (sched_schedule now s)) = mset (queued s) \<and>
         (\<forall>i. t_state (heap (sched_schedule now s) i) = t_state (heap s i))"
  using assms by (simp add: schedule_queues schedule_queued check_timeout_iff)

lemma schedule_releases_due_witness:
  "run_queue (sched_schedule 11 (sample_sched mk_task)) = [4, 5, 6]"
  using schedule_releases_due [of "sample_sched mk_task" 11] by (simp add: sample_sched_def)

text \<open>
  What becomes of a task whose \<open>on_execute\<close> throws: the runner drops it. It is in no queue
  any more, so it never runs again, and it is never finished: its state stays as it was and
  \<open>on_finish\<close> is not called, not even by \<open>finish\<close> of the scheduler.
\<close>

theorem thrown_task_dropped:
  assumes "sys_inv w" "hands w r = Some i" "t_state (heap (sys_sched w) i) = Started"
    and "\<And>t. on_execute bh i t = Raise" "run_one bh r rd i (sys_sched w) = (c, s)"
  shows "\<not> c \<and> i \<notin> set (queued s) \<and> t_state (heap s i) = Started \<and>
         t_state (heap (snd (sched_finish bh s)) i) = Started"
proof -
  have t: "task_execute bh i r (rd_waited rd) (rd_took rd) (heap (sys_sched w) i) = (Raise, t') \<Longrightarrow> t_state t' = Started" for t'
    using execute_not_spinning assms(3) by force
  obtain t' where e: "task_execute bh i r (rd_waited rd) (rd_took rd) (heap (sys_sched w) i) = (Raise, t')"
    using assms(3,4) by (simp add: task_execute_def Let_def)
  then have s: "s = on_heap i t' (sys_sched w)" "\<not> c" using assms(3,5) by (simp_all add: run_one_def)
  have notin: "i \<notin> set (queued s)" using assms(1,2) s by (auto simp: sys_inv_def)
  have q: "i \<notin> set q \<Longrightarrow> snd (snd (finish_queue bh q h)) i = h i" for q h
    by (induction bh q h rule: finish_queue.induct) (auto split: prod.splits call.splits)
  have "heap (snd (sched_finish bh s)) i = heap s i"
    using notin q by (auto simp: sched_finish_def queued_def Let_def split: prod.splits) (metis snd_conv)+
  with s t [OF e] notin show ?thesis by simp
qed

lemma thrown_task_dropped_witness:
  "\<exists>c s. run_one (default_behaviour\<lparr>on_execute := \<lambda>_ _. Raise\<rparr>) 1 \<lparr>rd_now = 0, rd_waited = 0, rd_took = 0\<rparr> 5
       (sys_sched (mk_system (\<lambda>_. mk_task\<lparr>t_state := Started\<rparr>))) = (c, s) \<and>
     \<not> c \<and> 5 \<notin> set (queued s) \<and> t_state (heap s 5) = Started"
proof -
  let ?bh = "default_behaviour\<lparr>on_execute := \<lambda>_ _. Raise\<rparr>" and ?rd = "\<lparr>rd_now = 0, rd_waited = 0, rd_took = 0\<rparr> :: reading"
  let ?w0 = "mk_system (\<lambda>_. mk_task\<lparr>t_state := Started\<rparr>)"
  let ?w = "?w0\<lparr>hands := [1 \<mapsto> 5], added := {5}\<rparr>"
  obtain c s where r: "run_one ?bh 1 ?rd 5 (sys_sched ?w) = (c, s)" by fastforce
  have "sys_inv ?w" by (simp add: sys_inv_def mk_system_def queued_def)
  then have "\<not> c \<and> 5 \<notin> set (queued s) \<and> t_state (heap s 5) = Started"
    using thrown_task_dropped [OF _ _ _ _ r] by (simp add: mk_system_def)
  with r show ?thesis by auto
qed

end
