(* ===== verification/Timer.thy ===== *)
theory Timer
  imports Sequence Tick
begin

text \<open>
  The timer (\<^verbatim>\<open>core/timer.hpp\<close>, \<^verbatim>\<open>src/core/timer.cpp\<close>). Requests sit in priority queues, one per
  slot; a slot is looked at only once per slot interval, which is about half the interval of
  the requests in it.

  A request object is shared between the table of requests and the queue of its slot; it lives
  in a store under its id, and its destructor gives the id back to the pool. So an id names at
  most one living request. The actions of a request are labels; what \<open>execute\<close> runs is recorded
  as a log of ids and labels. Actions do not call back into the timer. Times are those of the
  timer's own stop watch, as 64-bit numbers.
\<close>

section \<open>Requests and slots\<close>

(* [include/wise.kernel/core/timer.hpp:128-142 timer::req] *)
record 'a req =
  r_id :: nat
  r_interval :: nat
  r_duration :: nat
  r_after :: nat
  r_repeat :: bool
  r_actions :: "'a list"
  r_last_run :: nat
  r_next_run :: nat
  r_end_run :: nat
  r_cancel :: bool
  r_run_count :: nat

(* [include/wise.kernel/core/timer.hpp:145-165 timer::slot] *)
record slot =
  sl_interval :: nat
  sl_last_run :: nat
  sl_reqs :: "nat list"

(* [include/wise.kernel/core/timer.hpp:186-191 timer] *)
record 'a timer =
  tm_slots :: "slot list"
  tm_reqs :: "nat list"
  tm_store :: "nat \<Rightarrow> 'a req option"
  tm_seq :: id_pool

(* [src/core/timer.cpp:8-36 intervals] *)
definition intervals :: "nat list" where
  "intervals = [10, 20, 30, 40, 50, 100, 200, 300, 400, 500, 1000, 2000, 3000, 5000, 10 * 1000, 20 * 1000, 30 * 1000,
     40 * 1000, 50 * 1000, 60 * 1000, 2 * 60 * 1000, 3 * 60 * 1000, 4 * 60 * 1000, 5 * 60 * 1000, 10 * 60 * 1000,
     30 * 60 * 1000, 60 * 60 * 1000]"

(* [include/wise.kernel/core/timer.hpp:39-40 timer::min_interval] *)
definition min_interval :: nat where
  "min_interval = 10"

(* [src/core/timer.cpp:42-45 timer::timer] *)
definition mk_timer :: "'a timer" where
  "mk_timer = \<lparr>tm_slots = [], tm_reqs = [], tm_store = Map.empty, tm_seq = mk_sequence 1 (2 ^ 32 - 1) 16\<rparr>"

(* [src/core/timer.cpp:282-301 timer::req::req] *)
definition mk_req :: "nat \<Rightarrow> nat \<Rightarrow> nat \<Rightarrow> nat \<Rightarrow> nat \<Rightarrow> bool \<Rightarrow> 'a req" where
  "mk_req now tid interval duration after rep =
     (let iv = max min_interval interval in
      \<lparr>r_id = tid, r_interval = iv, r_duration = duration, r_after = after, r_repeat = rep, r_actions = [],
        r_last_run = 0, r_next_run = uadd (uadd now after) iv, r_end_run = uadd (uadd now after) duration,
        r_cancel = False, r_run_count = 0\<rparr>)"

text \<open>The search for the slot interval: the largest table entry that is at most the target, with 10 as the fallback.\<close>

(* [src/core/timer.cpp:71-80 timer::set] *)
fun find_interval :: "nat \<Rightarrow> nat list \<Rightarrow> nat" where
  "find_interval target (a # b # rest) = (if a \<le> target \<and> target < b then a else find_interval target (b # rest))"
| "find_interval target _ = 10"

(* [src/core/timer.cpp:236-271 timer::create_slot] *)
definition create_slot :: "nat \<Rightarrow> slot list \<Rightarrow> slot list" where
  "create_slot interval sls =
     (if \<exists>sl \<in> set sls. sl_interval sl = interval then sls
      else sls @ [\<lparr>sl_interval = interval, sl_last_run = 0, sl_reqs = []\<rparr>])"

text \<open>Pushing on the queue of the slot with the given interval.\<close>

fun push_slot :: "nat \<Rightarrow> nat \<Rightarrow> slot list \<Rightarrow> slot list" where
  "push_slot interval tid [] = []"
| "push_slot interval tid (sl # sls) =
     (if sl_interval sl = interval then sl\<lparr>sl_reqs := sl_reqs sl @ [tid]\<rparr> # sls else sl # push_slot interval tid sls)"

(* [src/core/timer.cpp:56-91 timer::set] *)
definition timer_set :: "nat \<Rightarrow> nat \<Rightarrow> nat \<Rightarrow> bool \<Rightarrow> nat \<Rightarrow> 'a timer \<Rightarrow> (nat \<times> 'a timer) res" where
  "timer_set now interval0 duration rep after tm =
     (let interval = (if interval0 < min_interval then min_interval else interval0);
          fi = find_interval (interval div 2) intervals;
          sls = create_slot fi (tm_slots tm)
      in bind_res (seq_next (tm_seq tm)) (\<lambda>(tid, sq).
           Inr (tid, tm\<lparr>tm_slots := push_slot fi tid sls, tm_reqs := tm_reqs tm @ [tid],
              tm_store := (tm_store tm)(tid \<mapsto> mk_req now tid interval duration after rep), tm_seq := sq\<rparr>)))"

(* [src/core/timer.cpp:119-128 timer::add] *)
definition timer_add :: "nat \<Rightarrow> 'a \<Rightarrow> 'a timer \<Rightarrow> bool \<times> 'a timer" where
  "timer_add tid act tm =
     (if tid \<notin> set (tm_reqs tm) then (False, tm)
      else (True, tm\<lparr>tm_store := (tm_store tm)(tid := map_option (\<lambda>r. r\<lparr>r_actions := r_actions r @ [act]\<rparr>) (tm_store tm tid))\<rparr>))"

(* [src/core/timer.cpp:93-100 timer::once] *)
definition timer_once :: "nat \<Rightarrow> nat \<Rightarrow> 'a \<Rightarrow> 'a timer \<Rightarrow> (nat \<times> 'a timer) res" where
  "timer_once now after act tm = bind_res (timer_set now after 0 False 0 tm) (\<lambda>(tid, tm1). Inr (tid, snd (timer_add tid act tm1)))"

(* [src/core/timer.cpp:102-112 timer::repeat] *)
definition timer_repeat :: "nat \<Rightarrow> nat \<Rightarrow> 'a \<Rightarrow> 'a timer \<Rightarrow> (nat \<times> 'a timer) res" where
  "timer_repeat now interval act tm =
     bind_res (timer_set now interval 0 True 0 tm) (\<lambda>(tid, tm1).
       case timer_add tid act tm1 of (True, tm2) \<Rightarrow> Inr (tid, tm2) | (False, tm2) \<Rightarrow> Inr (0, tm2))"

(* [src/core/timer.cpp:114-117 timer::has] *)
definition timer_has :: "nat \<Rightarrow> 'a timer \<Rightarrow> bool" where
  "timer_has tid tm \<longleftrightarrow> tid \<in> set (tm_reqs tm)"

(* [src/core/timer.cpp:130-142 timer::cancel] *)
definition timer_cancel :: "nat \<Rightarrow> 'a timer \<Rightarrow> bool \<times> 'a timer" where
  "timer_cancel tid tm =
     (if tid \<notin> set (tm_reqs tm) then (False, tm)
      else (True, tm\<lparr>tm_store := (tm_store tm)(tid := map_option (\<lambda>r. r\<lparr>r_cancel := True\<rparr>) (tm_store tm tid)),
                     tm_reqs := remove1 tid (tm_reqs tm)\<rparr>))"

(* [src/core/timer.cpp:209-216 timer::get_next_run_tick] *)
definition get_next_run_tick :: "nat \<Rightarrow> 'a timer \<Rightarrow> nat" where
  "get_next_run_tick tid tm = (if tid \<notin> set (tm_reqs tm) then 0 else case tm_store tm tid of None \<Rightarrow> 0 | Some r \<Rightarrow> r_next_run r)"

(* [src/core/timer.cpp:218-225 timer::get_last_run_tick] *)
definition get_last_run_tick :: "nat \<Rightarrow> 'a timer \<Rightarrow> nat" where
  "get_last_run_tick tid tm = (if tid \<notin> set (tm_reqs tm) then 0 else case tm_store tm tid of None \<Rightarrow> 0 | Some r \<Rightarrow> r_last_run r)"

(* [src/core/timer.cpp:227-234 timer::get_run_count] *)
definition get_run_count :: "nat \<Rightarrow> 'a timer \<Rightarrow> nat" where
  "get_run_count tid tm = (if tid \<notin> set (tm_reqs tm) then 0 else case tm_store tm tid of None \<Rightarrow> 0 | Some r \<Rightarrow> r_run_count r)"

section \<open>Running\<close>

text \<open>The top of the priority queue: a request with the smallest next run.\<close>

(* [include/wise.kernel/core/timer.hpp:156-159 timer::slot::entry] *)
fun pq_top :: "('e \<Rightarrow> nat) \<Rightarrow> 'e list \<Rightarrow> 'e option" where
  "pq_top key [] = None"
| "pq_top key (x # xs) = (case pq_top key xs of None \<Rightarrow> Some x | Some y \<Rightarrow> Some (if key x \<le> key y then x else y))"

(* [src/core/timer.cpp:315-323 timer::req::release] *)
definition drop_req :: "nat \<Rightarrow> 'a timer \<Rightarrow> 'a timer" where
  "drop_req tid tm = tm\<lparr>tm_store := (tm_store tm)(tid := None), tm_seq := seq_release tid (tm_seq tm)\<rparr>"

(* [src/core/timer.cpp:273-280 timer::remove_end_req] *)
definition remove_end_req :: "nat \<Rightarrow> 'a timer \<Rightarrow> 'a timer" where
  "remove_end_req tid tm = tm\<lparr>tm_reqs := remove1 tid (tm_reqs tm)\<rparr>"

(* [src/core/timer.cpp:303-313 timer::req::run] *)
definition run_req :: "nat \<Rightarrow> 'a req \<Rightarrow> (nat \<times> 'a) list \<times> 'a req" where
  "run_req now r = (map (\<lambda>a. (r_id r, a)) (r_actions r), r\<lparr>r_last_run := now, r_run_count := r_run_count r + 1\<rparr>)"

definition next_of :: "'a timer \<Rightarrow> nat \<Rightarrow> nat" where
  "next_of tm tid = (case tm_store tm tid of None \<Rightarrow> 0 | Some r \<Rightarrow> r_next_run r)"

text \<open>The loop of \<open>update_slot\<close> on the queue \<open>q\<close> of the slot.\<close>

(* [src/core/timer.cpp:175-205 timer::update_slot] *)
fun slot_loop :: "nat \<Rightarrow> nat \<Rightarrow> nat list \<Rightarrow> 'a timer \<Rightarrow> ((nat \<times> 'a) list \<times> nat list \<times> 'a timer) option" where
  "slot_loop 0 now q tm = None"
| "slot_loop (Suc fuel) now q tm =
     (case pq_top (next_of tm) q of
        None \<Rightarrow> Some ([], q, tm)
      | Some tid \<Rightarrow>
          (case tm_store tm tid of
             None \<Rightarrow> None
           | Some r \<Rightarrow>
               if \<not> r_next_run r \<le> now then Some ([], q, tm)
               else if r_cancel r then slot_loop fuel now (remove1 tid q) (drop_req tid tm)
               else (case run_req now r of (log, r1) \<Rightarrow>
                 map_option (\<lambda>(log', x). (log @ log', x))
                   (if r_repeat r \<or> now < r_end_run r then
                      slot_loop fuel now (remove1 tid q @ [tid])
                        (tm\<lparr>tm_store := (tm_store tm)(tid \<mapsto> r1\<lparr>r_next_run := uadd now (r_interval r)\<rparr>)\<rparr>)
                    else slot_loop fuel now (remove1 tid q) (drop_req tid (remove_end_req tid tm))))))"

(* [src/core/timer.cpp:164-206 timer::update_slot] *)
definition update_slot :: "nat \<Rightarrow> nat \<Rightarrow> slot \<Rightarrow> 'a timer \<Rightarrow> ((nat \<times> 'a) list \<times> slot \<times> 'a timer) option" where
  "update_slot fuel now sl tm =
     (if uadd (sl_last_run sl) (sl_interval sl) > now then Some ([], sl, tm)
      else map_option (\<lambda>(log, q, tm'). (log, sl\<lparr>sl_last_run := now, sl_reqs := q\<rparr>, tm')) (slot_loop fuel now (sl_reqs sl) tm))"

fun update_slots :: "nat \<Rightarrow> nat \<Rightarrow> slot list \<Rightarrow> 'a timer \<Rightarrow> ((nat \<times> 'a) list \<times> slot list \<times> 'a timer) option" where
  "update_slots fuel now [] tm = Some ([], [], tm)"
| "update_slots fuel now (sl # sls) tm =
     (case update_slot fuel now sl tm of
        None \<Rightarrow> None
      | Some (log, sl', tm') \<Rightarrow> map_option (\<lambda>(log', sls', x). (log @ log', sl' # sls', x)) (update_slots fuel now sls tm'))"

(* [src/core/timer.cpp:144-162 timer::execute] *)
definition timer_execute :: "nat \<Rightarrow> nat \<Rightarrow> 'a timer \<Rightarrow> ((nat \<times> 'a) list \<times> 'a timer) option" where
  "timer_execute fuel now tm =
     map_option (\<lambda>(log, sls, tm'). (log, tm'\<lparr>tm_slots := sls\<rparr>)) (update_slots fuel now (tm_slots tm) tm)"

section \<open>Holders\<close>

(* [include/wise.kernel/core/timer.hpp:195-219 timer_holder] *)
record 'a holder =
  h_id :: nat
  h_once :: bool
  h_act :: "'a option"

(* [src/core/timer.cpp:325-328 timer_holder::timer_holder] *)
definition mk_holder :: "'a holder" where
  "mk_holder = \<lparr>h_id = 0, h_once = False, h_act = None\<rparr>"

text \<open>
  The action registered with the timer is the label \<open>cb\<close> of the lambda that calls \<open>on_once\<close>.
\<close>

(* [src/core/timer.cpp:338-347 timer_holder::once] *)
definition holder_once :: "nat \<Rightarrow> nat \<Rightarrow> 'a \<Rightarrow> 'a \<Rightarrow> 'a holder \<Rightarrow> 'a timer \<Rightarrow> (nat \<times> 'a holder \<times> 'a timer) res" where
  "holder_once now after cb act h tm =
     (if h_id h > 0 then Inl (Throw ''timer holder can have only one timer'')
      else bind_res (timer_once now after cb tm) (\<lambda>(tid, tm1). Inr (tid, h\<lparr>h_once := True, h_id := tid, h_act := Some act\<rparr>, tm1)))"

(* [src/core/timer.cpp:349-353 timer_holder::repeat] *)
definition holder_repeat :: "nat \<Rightarrow> nat \<Rightarrow> 'a \<Rightarrow> 'a holder \<Rightarrow> 'a timer \<Rightarrow> (nat \<times> 'a holder \<times> 'a timer) res" where
  "holder_repeat now interval act h tm = bind_res (timer_repeat now interval act tm) (\<lambda>(tid, tm1). Inr (tid, h\<lparr>h_id := tid\<rparr>, tm1))"

(* [src/core/timer.cpp:355-363 timer_holder::cancel] *)
definition holder_cancel :: "'a holder \<Rightarrow> 'a timer \<Rightarrow> 'a holder \<times> 'a timer" where
  "holder_cancel h tm = (h\<lparr>h_id := 0\<rparr>, if h_id h > 0 then snd (timer_cancel (h_id h) tm) else tm)"

(* [src/core/timer.cpp:330-336 timer_holder::~timer_holder] *)
definition holder_destroy :: "'a holder \<Rightarrow> 'a timer \<Rightarrow> 'a timer" where
  "holder_destroy h tm = (if h_id h > 0 then snd (timer_cancel (h_id h) tm) else tm)"

(* [src/core/timer.cpp:365-374 timer_holder::on_once] *)
definition holder_on_once :: "nat \<Rightarrow> 'a holder \<Rightarrow> (nat \<times> 'a) list" where
  "holder_on_once tid h = (case h_act h of None \<Rightarrow> [] | Some act \<Rightarrow> [(tid, act)])"

end
