(* ===== verification/Timer_Laws.thy ===== *)
theory Timer_Laws
  imports Timer
begin

text \<open>
  What the timer promises: it fires every due request exactly once per \<open>execute\<close>, earliest
  first, never early and at most one slot interval late, never after a cancellation; and its
  ids stay exclusive.
\<close>

section \<open>Priority queues\<close>

locale min_queue =
  fixes top :: "('e \<Rightarrow> nat) \<Rightarrow> 'e list \<Rightarrow> 'e option"
  assumes top_None: "top key q = None \<longleftrightarrow> q = []"
    and top_min: "top key q = Some x \<Longrightarrow> x \<in> set q \<and> (\<forall>y \<in> set q. key x \<le> key y)"
begin

lemma top_not_due: "top key q = Some x \<Longrightarrow> \<not> key x \<le> now \<Longrightarrow> y \<in> set q \<Longrightarrow> now < key y"
  using top_min [of key q x] by auto

lemma due_count:
  "top key q = Some x \<Longrightarrow> key x \<le> now \<Longrightarrow>
   length (filter (\<lambda>y. key y \<le> now) q) = Suc (length (filter (\<lambda>y. key y \<le> now) (remove1 x q)))"
proof -
  have "x \<in> set q \<Longrightarrow> key x \<le> now \<Longrightarrow>
    length (filter (\<lambda>y. key y \<le> now) q) = Suc (length (filter (\<lambda>y. key y \<le> now) (remove1 x q)))" for q
    by (induction q) auto
  then show "top key q = Some x \<Longrightarrow> key x \<le> now \<Longrightarrow> ?thesis" using top_min [of key q x] by blast
qed

end

lemma pq_top_min: "pq_top key q = Some x \<Longrightarrow> x \<in> set q \<and> (\<forall>y \<in> set q. key x \<le> key y)"
proof (induction q arbitrary: x)
  case (Cons a q)
  show ?case
  proof (cases "pq_top key q")
    case None
    then have "q = []" by (cases q) (auto split: option.splits)
    with Cons.prems show ?thesis by simp
  next
    case (Some y)
    from Cons.IH [OF this] Some Cons.prems show ?thesis by (force split: if_splits)
  qed
qed simp

interpretation pq: min_queue pq_top
proof
  show "pq_top key q = None \<longleftrightarrow> q = []" for key :: "'b \<Rightarrow> nat" and q
    by (cases q) (auto split: option.splits)
  show "pq_top key q = Some x \<Longrightarrow> x \<in> set q \<and> (\<forall>y \<in> set q. key x \<le> key y)" for key :: "'b \<Rightarrow> nat" and q x
    by (rule pq_top_min)
qed

section \<open>One pass over a slot\<close>

definition due :: "nat \<Rightarrow> 'a req \<Rightarrow> bool" where
  "due now r \<longleftrightarrow> r_next_run r \<le> now"

text \<open>What is left of a due request after the pass.\<close>

definition after_run :: "nat \<Rightarrow> 'a req \<Rightarrow> 'a req option" where
  "after_run now r =
     (if r_cancel r \<or> \<not> (r_repeat r \<or> now < r_end_run r) then None
      else Some (r\<lparr>r_last_run := now, r_run_count := r_run_count r + 1, r_next_run := now + r_interval r\<rparr>))"

definition passed :: "nat \<Rightarrow> nat set \<Rightarrow> (nat \<Rightarrow> 'a req option) \<Rightarrow> nat \<Rightarrow> 'a req option" where
  "passed now Q st i = (case st i of None \<Rightarrow> None | Some r \<Rightarrow> if i \<in> Q \<and> due now r then after_run now r else Some r)"

definition sane :: "nat \<Rightarrow> nat \<Rightarrow> 'a req \<Rightarrow> bool" where
  "sane now i r \<longleftrightarrow> r_id r = i \<and> 0 < r_interval r \<and> now + r_interval r < 2 ^ 64"

definition pass_ok :: "nat \<Rightarrow> nat list \<Rightarrow> 'a timer \<Rightarrow> bool" where
  "pass_ok now q tm \<longleftrightarrow> distinct q \<and> (\<forall>i \<in> set q. \<exists>r. tm_store tm i = Some r \<and> sane now i r) \<and>
     pool.owns (tm_seq tm) (dom (tm_store tm)) \<and> distinct (tm_reqs tm) \<and>
     (\<forall>i. i \<in> set (tm_reqs tm) \<longleftrightarrow> (\<exists>r. tm_store tm i = Some r \<and> \<not> r_cancel r))"

definition fired :: "nat \<Rightarrow> nat set \<Rightarrow> (nat \<Rightarrow> 'a req option) \<Rightarrow> nat set" where
  "fired now Q st = {i \<in> Q. \<exists>r. st i = Some r \<and> due now r \<and> \<not> r_cancel r}"

definition log_of :: "(nat \<Rightarrow> 'a req option) \<Rightarrow> nat list \<Rightarrow> (nat \<times> 'a) list" where
  "log_of st order = concat (map (\<lambda>i. map (\<lambda>a. (i, a)) (r_actions (the (st i)))) order)"

definition pass_result :: "nat \<Rightarrow> nat list \<Rightarrow> 'a timer \<Rightarrow> ((nat \<times> 'a) list \<times> nat list \<times> 'a timer) \<Rightarrow> bool" where
  "pass_result now q tm res = (case res of (log, q', tm') \<Rightarrow>
     (\<exists>order. distinct order \<and> set order = fired now (set q) (tm_store tm) \<and> sorted (map (next_of tm) order) \<and> log = log_of (tm_store tm) order) \<and>
     tm_store tm' = passed now (set q) (tm_store tm) \<and> distinct q' \<and> set q' = {i \<in> set q. tm_store tm' i \<noteq> None} \<and>
     tm_slots tm' = tm_slots tm \<and> pool.owns (tm_seq tm') (dom (tm_store tm')) \<and> distinct (tm_reqs tm') \<and>
     (\<forall>i. i \<in> set (tm_reqs tm') \<longleftrightarrow> (\<exists>r. tm_store tm' i = Some r \<and> \<not> r_cancel r)))"

lemma passed_outside: "i \<notin> Q \<Longrightarrow> passed now Q st i = st i"
  by (simp add: passed_def split: option.splits)

lemma drop_req_simps [simp]:
  "tm_store (drop_req i tm) = (tm_store tm)(i := None)" "tm_reqs (drop_req i tm) = tm_reqs tm" "tm_slots (drop_req i tm) = tm_slots tm"
  "tm_seq (drop_req i tm) = seq_release i (tm_seq tm)"
  "tm_store (remove_end_req i tm) = tm_store tm" "tm_reqs (remove_end_req i tm) = remove1 i (tm_reqs tm)"
  "tm_slots (remove_end_req i tm) = tm_slots tm" "tm_seq (remove_end_req i tm) = tm_seq tm"
  by (simp_all add: drop_req_def remove_end_req_def)

lemma owns_drop: "pool.owns sq (dom st) \<Longrightarrow> st i \<noteq> None \<Longrightarrow> pool.owns (seq_release i sq) (dom (st(i := None)))"
  using pool.owns_release [of sq "dom st" i] by auto

text \<open>Removing a request that is not due, or is dropped, from the front of the pass.\<close>

lemma passed_drop:
  assumes "st i = Some r" "due now r" "after_run now r = None" "i \<in> set q" "distinct q"
  shows "passed now (set (remove1 i q)) (st(i := None)) = passed now (set q) st"
  using assms by (auto simp: passed_def fun_eq_iff split: option.splits)

lemma passed_again:
  assumes "st i = Some r" "due now r" "after_run now r = Some r'" "0 < r_interval r" "i \<in> set q" "distinct q"
  shows "passed now (set (remove1 i q @ [i])) (st(i \<mapsto> r')) = passed now (set q) st"
  using assms by (auto simp: passed_def fun_eq_iff after_run_def due_def split: option.splits if_splits)

lemma fired_step:
  assumes "st i = Some r" "due now r" "i \<in> set q" "distinct q"
  shows "fired now (set q) st = (if r_cancel r then {} else {i}) \<union> fired now (set (remove1 i q)) st"
  using assms by (auto simp: fired_def)

lemma fired_cong: "(\<And>j. j \<in> Q \<Longrightarrow> st j = st' j) \<Longrightarrow> fired now Q st = fired now Q st'"
  by (auto simp: fired_def)

lemma log_of_cong: "(\<And>j. j \<in> set order \<Longrightarrow> st j = st' j) \<Longrightarrow> log_of st order = log_of st' order"
  unfolding log_of_def by (rule arg_cong [where f = concat]) simp

lemma sorted_next_cong: "(\<And>j. j \<in> set order \<Longrightarrow> tm_store tm j = tm_store tm' j) \<Longrightarrow> map (next_of tm) order = map (next_of tm') order"
  by (simp add: next_of_def)

lemma pass_ok_drop:
  assumes "pass_ok now q tm" "i \<in> set q" "tm_store tm i = Some r" "r_cancel r"
  shows "pass_ok now (remove1 i q) (drop_req i tm)"
  using assms owns_drop [of "tm_seq tm" "tm_store tm" i] by (auto simp: pass_ok_def)

lemma pass_ok_end:
  assumes "pass_ok now q tm" "i \<in> set q" "tm_store tm i = Some r"
  shows "pass_ok now (remove1 i q) (drop_req i (remove_end_req i tm))"
  using assms owns_drop [of "tm_seq tm" "tm_store tm" i] by (auto simp: pass_ok_def)

lemma pass_ok_again:
  assumes "pass_ok now q tm" "i \<in> set q" "tm_store tm i = Some r" "r_id r' = r_id r" "r_interval r' = r_interval r" "r_cancel r' = r_cancel r"
  shows "pass_ok now (remove1 i q @ [i]) (tm\<lparr>tm_store := (tm_store tm)(i \<mapsto> r')\<rparr>)"
proof -
  have "dom ((tm_store tm)(i \<mapsto> r')) = dom (tm_store tm)" using assms(3) by auto
  with assms show ?thesis by (auto simp: pass_ok_def sane_def)
qed

text \<open>The result of a pass from the result of the pass over what remains.\<close>

lemma pass_result_step:
  assumes rest: "pass_result now q1 tm1 (log', q', tm')"
    and i: "tm_store tm i = Some r" "due now r" "i \<in> set q" "distinct q" "\<forall>j \<in> set q. next_of tm i \<le> next_of tm j"
    and q1: "set q1 - {i} = set q - {i}" "fired now (set q1) (tm_store tm1) = fired now (set (remove1 i q)) (tm_store tm)"
    and same: "\<And>j. j \<noteq> i \<Longrightarrow> tm_store tm1 j = tm_store tm j" "tm_slots tm1 = tm_slots tm"
    and passed: "passed now (set q1) (tm_store tm1) = passed now (set q) (tm_store tm)"
    and keep: "i \<notin> set q1 \<Longrightarrow> after_run now r = None"
    and log: "log = (if r_cancel r then [] else map (\<lambda>a. (i, a)) (r_actions r))"
  shows "pass_result now q tm (log @ log', q', tm')"
proof -
  from rest obtain order where o: "distinct order" "set order = fired now (set (remove1 i q)) (tm_store tm)"
    "sorted (map (next_of tm1) order)" "log' = log_of (tm_store tm1) order"
    by (auto simp: pass_result_def q1(2))
  have ni: "i \<notin> set order" using o(2) i(4) by (auto simp: fired_def)
  then have eq: "tm_store tm1 j = tm_store tm j" if "j \<in> set order" for j using that same(1) by metis
  let ?order = "(if r_cancel r then [] else [i]) @ order"
  have "distinct ?order" using o(1) ni by simp
  moreover have "set ?order = fired now (set q) (tm_store tm)" using o(2) fired_step [of "tm_store tm" i r now q] i(1-4) by simp
  moreover have "sorted (map (next_of tm) ?order)"
  proof -
    have "sorted (map (next_of tm) order)" using o(3) sorted_next_cong [of order tm1 tm] eq by simp
    moreover have "next_of tm i \<le> next_of tm j" if "j \<in> set order" for j
      using that o(2) i(5) by (auto simp: fired_def dest: notin_set_remove1)
    ultimately show ?thesis by simp
  qed
  moreover have "log @ log' = log_of (tm_store tm) ?order"
    using log o(4) log_of_cong [of order "tm_store tm1" "tm_store tm"] eq i(1) by (simp add: log_of_def)
  ultimately have "\<exists>order. distinct order \<and> set order = fired now (set q) (tm_store tm) \<and> sorted (map (next_of tm) order) \<and>
      log @ log' = log_of (tm_store tm) order" by blast
  moreover have st: "tm_store tm' = passed now (set q) (tm_store tm)" using rest passed by (simp add: pass_result_def)
  moreover have "set q' = {j \<in> set q. tm_store tm' j \<noteq> None}"
  proof -
    have n: "tm_store tm' i = None" if "i \<notin> set q1" using keep [OF that] i by (simp add: st passed_def)
    have mem: "j \<in> set q1 \<longleftrightarrow> j \<in> set q \<and> (j = i \<longrightarrow> i \<in> set q1)" for j
    proof (cases "j = i")
      case False
      then show ?thesis using q1(1) by blast
    qed (simp add: i(3))
    have "set q' = {j \<in> set q1. tm_store tm' j \<noteq> None}" using rest by (simp add: pass_result_def)
    also have "\<dots> = {j \<in> set q. tm_store tm' j \<noteq> None}" using n mem by (intro Collect_cong) metis
    finally show ?thesis .
  qed
  moreover have "tm_slots tm' = tm_slots tm" using rest same(2) by (simp add: pass_result_def)
  ultimately show ?thesis using rest unfolding pass_result_def prod.case by blast
qed

lemma slot_loop_ok:
  "pass_ok now q tm \<Longrightarrow> length (filter (\<lambda>i. next_of tm i \<le> now) q) < fuel \<Longrightarrow>
   \<exists>res. slot_loop fuel now q tm = Some res \<and> pass_result now q tm res"
proof (induction fuel arbitrary: q tm)
  case (Suc fuel)
  note ok = Suc.prems(1)
  show ?case
  proof (cases "pq_top (next_of tm) q")
    case None
    then have "q = []" by (simp add: pq.top_None)
    then show ?thesis using ok None
      by (auto simp: pass_result_def fired_def passed_def pass_ok_def log_of_def fun_eq_iff split: option.splits)
  next
    case (Some i)
    note top = pq.top_min [OF Some]
    from ok top obtain r where r: "tm_store tm i = Some r" "sane now i r" by (auto simp: pass_ok_def)
    have nx: "next_of tm i = r_next_run r" by (simp add: next_of_def r(1))
    have dq: "distinct q" using ok by (simp add: pass_ok_def)
    show ?thesis
    proof (cases "r_next_run r \<le> now")
      case False
      have nd: "\<not> due now r'" if "j \<in> set q" "tm_store tm j = Some r'" for j r'
        using pq.top_not_due [OF Some _ that(1), of now] False nx that(2) by (simp add: due_def next_of_def)
      have "fired now (set q) (tm_store tm) = {}" using nd by (auto simp: fired_def)
      moreover have "passed now (set q) (tm_store tm) = tm_store tm" using nd by (auto simp: passed_def fun_eq_iff split: option.splits)
      ultimately show ?thesis using Some r False ok by (auto simp: pass_result_def pass_ok_def log_of_def)
    next
      case True
      note cnt = pq.due_count [OF Some, unfolded nx, OF True]
      have d: "due now r" using True by (simp add: due_def)
      have iq: "i \<in> set q" using top by blast
      have fl: "length (filter (\<lambda>j. next_of tm1 j \<le> now) (remove1 i q)) < fuel"
        if "\<And>j. j \<noteq> i \<Longrightarrow> tm_store tm1 j = tm_store tm j" for tm1
      proof -
        have "filter (\<lambda>j. next_of tm1 j \<le> now) (remove1 i q) = filter (\<lambda>j. next_of tm j \<le> now) (remove1 i q)"
          using dq that by (intro filter_cong) (auto simp: next_of_def)
        then show ?thesis using cnt Suc.prems(2) nx True by simp
      qed
      consider (cancelled) "r_cancel r" | (again) "\<not> r_cancel r" "r_repeat r \<or> now < r_end_run r"
        | (ended) "\<not> r_cancel r" "\<not> (r_repeat r \<or> now < r_end_run r)" by blast
      then show ?thesis
      proof cases
        case cancelled
        have a: "after_run now r = None" using cancelled by (simp add: after_run_def)
        obtain log' q' tm' where l: "slot_loop fuel now (remove1 i q) (drop_req i tm) = Some (log', q', tm')"
          "pass_result now (remove1 i q) (drop_req i tm) (log', q', tm')"
          using Suc.IH [OF pass_ok_drop [OF ok iq r(1) cancelled] fl] by auto
        have "pass_result now q tm ([] @ log', q', tm')"
          by (rule pass_result_step [OF l(2) r(1) d iq dq])
             (use top dq iq a passed_drop [of "tm_store tm" i r now q] r(1) d cancelled in \<open>auto simp: fired_def\<close>)
        with l(1) Some r(1) True cancelled show ?thesis by simp
      next
        case again
        let ?r = "r\<lparr>r_last_run := now, r_run_count := r_run_count r + 1, r_next_run := now + r_interval r\<rparr>"
        let ?tm = "tm\<lparr>tm_store := (tm_store tm)(i \<mapsto> ?r)\<rparr>"
        have a: "after_run now r = Some ?r" using again by (simp add: after_run_def)
        have iv: "0 < r_interval r" "uadd now (r_interval r) = now + r_interval r" "r_id r = i" using r(2) by (simp_all add: sane_def)
        have "length (filter (\<lambda>j. next_of ?tm j \<le> now) (remove1 i q @ [i])) < fuel"
          using fl [of ?tm] iv(1) by (simp add: next_of_def)
        with Suc.IH [OF pass_ok_again [OF ok iq r(1), of ?r]] obtain log' q' tm' where
          l: "slot_loop fuel now (remove1 i q @ [i]) ?tm = Some (log', q', tm')"
             "pass_result now (remove1 i q @ [i]) ?tm (log', q', tm')" by auto
        have nf: "fired now (set (remove1 i q @ [i])) (tm_store ?tm) = fired now (set (remove1 i q)) (tm_store tm)"
          using iv(1) dq by (auto simp: fired_def due_def)
        have "pass_result now q tm (map (\<lambda>a. (i, a)) (r_actions r) @ log', q', tm')"
          by (rule pass_result_step [OF l(2) r(1) d iq dq _ _ nf])
             (use top dq iq a passed_again [of "tm_store tm" i r now ?r q] r(1) d iv(1) again(1) in auto)
        with l(1) Some r(1) True again iv show ?thesis by (simp add: run_req_def)
      next
        case ended
        have a: "after_run now r = None" using ended by (simp add: after_run_def)
        obtain log' q' tm' where l: "slot_loop fuel now (remove1 i q) (drop_req i (remove_end_req i tm)) = Some (log', q', tm')"
          "pass_result now (remove1 i q) (drop_req i (remove_end_req i tm)) (log', q', tm')"
          using Suc.IH [OF pass_ok_end [OF ok iq r(1)] fl] by auto
        have "pass_result now q tm (map (\<lambda>a. (i, a)) (r_actions r) @ log', q', tm')"
          by (rule pass_result_step [OF l(2) r(1) d iq dq])
             (use top dq iq a passed_drop [of "tm_store tm" i r now q] r(1) d ended(1) in \<open>auto simp: fired_def\<close>)
        with l(1) Some r True ended show ?thesis by (simp add: run_req_def sane_def)
      qed
    qed
  qed
qed simp

section \<open>All slots\<close>

definition slot_due :: "nat \<Rightarrow> slot \<Rightarrow> bool" where
  "slot_due now sl \<longleftrightarrow> sl_last_run sl + sl_interval sl \<le> now"

definition ids_of :: "slot list \<Rightarrow> nat list" where
  "ids_of sls = concat (map sl_reqs sls)"

lemma ids_of_simps [simp]: "ids_of [] = []" "ids_of (sl # sls) = sl_reqs sl @ ids_of sls" "ids_of (sls @ sls') = ids_of sls @ ids_of sls'"
  by (simp_all add: ids_of_def)

lemma set_ids_of: "set (ids_of sls) = (\<Union>sl \<in> set sls. set (sl_reqs sl))"
  by (simp add: ids_of_def)

lemma slot_unique:
  "distinct (ids_of sls) \<Longrightarrow> sl \<in> set sls \<Longrightarrow> sl2 \<in> set sls \<Longrightarrow> i \<in> set (sl_reqs sl) \<Longrightarrow> i \<in> set (sl_reqs sl2) \<Longrightarrow> sl = sl2"
  by (induction sls) (auto simp: set_ids_of)

text \<open>The ids of the slots whose turn it is.\<close>

definition looked_at :: "nat \<Rightarrow> slot list \<Rightarrow> nat set" where
  "looked_at now sls = set (ids_of (filter (slot_due now) sls))"

lemma looked_at_Cons: "looked_at now (sl # sls) = (if slot_due now sl then set (sl_reqs sl) else {}) \<union> looked_at now sls"
  by (simp add: looked_at_def)

lemma looked_at_ids: "looked_at now sls \<subseteq> set (ids_of sls)"
  by (auto simp: looked_at_def set_ids_of)

definition slot_step :: "nat \<Rightarrow> (nat \<Rightarrow> 'a req option) \<Rightarrow> slot \<Rightarrow> slot \<Rightarrow> bool" where
  "slot_step now st sl sl' \<longleftrightarrow> sl_interval sl' = sl_interval sl \<and>
     (if slot_due now sl then sl_last_run sl' = now \<and> distinct (sl_reqs sl') \<and> set (sl_reqs sl') = {i \<in> set (sl_reqs sl). st i \<noteq> None}
      else sl' = sl)"

lemma passed_passed: "Q \<inter> Q' = {} \<Longrightarrow> passed now Q' (passed now Q st) = passed now (Q \<union> Q') st"
proof
  fix i assume "Q \<inter> Q' = {}"
  then show "passed now Q' (passed now Q st) i = passed now (Q \<union> Q') st i"
    by (cases "i \<in> Q'") (auto simp: passed_def after_run_def split: option.splits)
qed

lemma fired_passed: "Q \<inter> Q' = {} \<Longrightarrow> fired now Q' (passed now Q st) = fired now Q' st"
  by (rule fired_cong) (auto intro: passed_outside)

lemma pass_ok_sub: "pass_ok now q tm \<Longrightarrow> distinct q' \<Longrightarrow> set q' \<subseteq> set q \<Longrightarrow> pass_ok now q' tm"
  by (auto simp: pass_ok_def)

lemma pass_ok_next:
  assumes "pass_ok now (q @ q') tm" "pass_result now q tm (log, q1, tm1)"
  shows "pass_ok now q' tm1"
proof -
  have "tm_store tm1 i = tm_store tm i" if "i \<in> set q'" for i
    using assms that by (auto simp: pass_result_def pass_ok_def intro!: passed_outside)
  with assms show ?thesis by (auto simp: pass_ok_def pass_result_def)
qed

lemma update_slots_ok:
  "pass_ok now (ids_of sls) tm \<Longrightarrow> \<forall>sl \<in> set sls. sl_last_run sl + sl_interval sl < 2 ^ 64 \<Longrightarrow> length (ids_of sls) < fuel \<Longrightarrow>
   \<exists>log sls' tm'. update_slots fuel now sls tm = Some (log, sls', tm') \<and>
     (\<exists>order. distinct order \<and> set order = fired now (looked_at now sls) (tm_store tm) \<and> log = log_of (tm_store tm) order) \<and>
     tm_store tm' = passed now (looked_at now sls) (tm_store tm) \<and> list_all2 (slot_step now (tm_store tm')) sls sls' \<and>
     tm_slots tm' = tm_slots tm \<and> pass_ok now [] tm'"
proof (induction sls arbitrary: tm)
  case Nil
  have "passed now {} (tm_store tm) = tm_store tm" by (rule ext) (simp add: passed_outside)
  with Nil show ?case by (auto simp: looked_at_def fired_def log_of_def)
next
  case (Cons sl sls)
  let ?q = "sl_reqs sl"
  have un: "uadd (sl_last_run sl) (sl_interval sl) > now \<longleftrightarrow> \<not> slot_due now sl" using Cons.prems(2) by (auto simp: slot_due_def)
  have dj: "set ?q \<inter> set (ids_of sls) = {}" using Cons.prems(1) by (auto simp: pass_ok_def)
  show ?case
  proof (cases "slot_due now sl")
    case False
    have "pass_ok now (ids_of sls) tm" using Cons.prems(1) by (rule pass_ok_sub) (use Cons.prems(1) in \<open>auto simp: pass_ok_def\<close>)
    moreover have "\<forall>sl \<in> set sls. sl_last_run sl + sl_interval sl < 2 ^ 64" "length (ids_of sls) < fuel" using Cons.prems(2,3) by simp_all
    ultimately obtain log sls' tm' where l: "update_slots fuel now sls tm = Some (log, sls', tm')"
      "\<exists>order. distinct order \<and> set order = fired now (looked_at now sls) (tm_store tm) \<and> log = log_of (tm_store tm) order"
      "tm_store tm' = passed now (looked_at now sls) (tm_store tm)" "list_all2 (slot_step now (tm_store tm')) sls sls'"
      "tm_slots tm' = tm_slots tm" "pass_ok now [] tm'" using Cons.IH by blast
    have "slot_step now (tm_store tm') sl sl" using False by (simp add: slot_step_def)
    with l False un show ?thesis by (simp add: update_slot_def looked_at_Cons)
  next
    case True
    have ok: "pass_ok now ?q tm" using Cons.prems(1) by (rule pass_ok_sub) (use Cons.prems(1) in \<open>auto simp: pass_ok_def\<close>)
    have "length (filter (\<lambda>i. next_of tm i \<le> now) ?q) < fuel"
      by (rule order_le_less_trans [OF length_filter_le]) (use Cons.prems(3) in simp)
    from slot_loop_ok [OF ok this] obtain log1 q1 tm1 where l1: "slot_loop fuel now ?q tm = Some (log1, q1, tm1)"
      "pass_result now ?q tm (log1, q1, tm1)" by auto
    have "pass_ok now (ids_of sls) tm1" by (rule pass_ok_next [OF _ l1(2)]) (use Cons.prems(1) in simp)
    from Cons.IH [OF this] Cons.prems(2,3) obtain log2 sls' tm' order2 where l2: "update_slots fuel now sls tm1 = Some (log2, sls', tm')"
      "distinct order2" "set order2 = fired now (looked_at now sls) (tm_store tm1)" "log2 = log_of (tm_store tm1) order2"
      "tm_store tm' = passed now (looked_at now sls) (tm_store tm1)" "list_all2 (slot_step now (tm_store tm')) sls sls'"
      "tm_slots tm' = tm_slots tm1" "pass_ok now [] tm'" by auto
    from l1(2) obtain order1 where o1: "distinct order1" "set order1 = fired now (set ?q) (tm_store tm)" "log1 = log_of (tm_store tm) order1"
      and st1: "tm_store tm1 = passed now (set ?q) (tm_store tm)" "distinct q1" "set q1 = {i \<in> set ?q. tm_store tm1 i \<noteq> None}" "tm_slots tm1 = tm_slots tm"
      unfolding pass_result_def prod.case by blast
    have dj': "set ?q \<inter> looked_at now sls = {}" using dj looked_at_ids by blast
    have o2: "set order2 = fired now (looked_at now sls) (tm_store tm)" using l2(3) fired_passed [OF dj'] st1(1) by metis
    have "log2 = log_of (tm_store tm) order2"
      unfolding l2(4) by (rule log_of_cong) (use dj' in \<open>auto simp: st1(1) o2 fired_def intro: passed_outside\<close>)
    then have lg: "log1 @ log2 = log_of (tm_store tm) (order1 @ order2)" using o1(3) by (simp add: log_of_def)
    have "set order1 \<inter> set order2 = {}" using o1(2) o2 dj' by (auto simp: fired_def)
    moreover have "set (order1 @ order2) = fired now (looked_at now (sl # sls)) (tm_store tm)"
      using o1(2) o2 True by (auto simp: looked_at_Cons fired_def)
    ultimately have ord: "\<exists>order. distinct order \<and> set order = fired now (looked_at now (sl # sls)) (tm_store tm) \<and> log1 @ log2 = log_of (tm_store tm) order"
      using lg o1(1) l2(2) by (intro exI [of _ "order1 @ order2"]) auto
    have st: "tm_store tm' = passed now (looked_at now (sl # sls)) (tm_store tm)"
      using l2(5) st1(1) passed_passed [OF dj'] True by (simp add: looked_at_Cons)
    have "slot_step now (tm_store tm') sl (sl\<lparr>sl_last_run := now, sl_reqs := q1\<rparr>)"
    proof -
      have "tm_store tm' i = tm_store tm1 i" if "i \<in> set ?q" for i
        using that dj' by (auto simp: l2(5) intro: passed_outside)
      then show ?thesis using True st1(2,3) by (auto simp: slot_step_def)
    qed
    with l1(1) l2(1,6,7,8) st1(4) un True ord st show ?thesis by (simp add: update_slot_def)
  qed
qed

section \<open>Invariant of the timer\<close>

text \<open>
  At clock reading \<open>lo\<close>: the queues of the slots hold every living request once; a request lies
  in a slot that is at most half its interval wide (or 10 ms), and its next run lies after the
  last look at the slot.
\<close>

definition tm_inv :: "nat \<Rightarrow> 'a timer \<Rightarrow> bool" where
  "tm_inv lo tm \<longleftrightarrow> distinct (ids_of (tm_slots tm)) \<and> set (ids_of (tm_slots tm)) = dom (tm_store tm) \<and>
     (\<forall>i r. tm_store tm i = Some r \<longrightarrow> r_id r = i \<and> 10 \<le> r_interval r) \<and>
     pool.owns (tm_seq tm) (dom (tm_store tm)) \<and> distinct (tm_reqs tm) \<and>
     (\<forall>i. i \<in> set (tm_reqs tm) \<longleftrightarrow> (\<exists>r. tm_store tm i = Some r \<and> \<not> r_cancel r)) \<and>
     (\<forall>sl \<in> set (tm_slots tm). sl_last_run sl \<le> lo \<and> sl_interval sl \<le> 3600000 \<and>
        (\<forall>i \<in> set (sl_reqs sl). \<forall>r. tm_store tm i = Some r \<longrightarrow>
           sl_interval sl \<le> max 10 (r_interval r div 2) \<and> sl_last_run sl < r_next_run r))"

lemma mk_timer_inv: "tm_inv 0 mk_timer"
  by (simp add: tm_inv_def mk_timer_def pool_owns_start)

definition in_range :: "nat \<Rightarrow> 'a timer \<Rightarrow> bool" where
  "in_range now tm \<longleftrightarrow> now + 3600000 < 2 ^ 64 \<and> (\<forall>i r. tm_store tm i = Some r \<longrightarrow> now + r_interval r < 2 ^ 64)"

lemma tm_inv_pass_ok:
  assumes "tm_inv lo tm" "in_range now tm"
  shows "pass_ok now (ids_of (tm_slots tm)) tm"
proof -
  have "sane now i r" if "tm_store tm i = Some r" for i r
  proof -
    have "10 \<le> r_interval r" using assms(1) that by (auto simp: tm_inv_def)
    then have "0 < r_interval r" by simp
    then show ?thesis using assms that by (auto simp: sane_def tm_inv_def in_range_def)
  qed
  with assms(1) show ?thesis by (auto simp: tm_inv_def pass_ok_def)
qed

lemma list_all2_ids:
  "list_all2 (slot_step now st) sls sls' \<Longrightarrow> distinct (ids_of sls) \<Longrightarrow>
   (\<And>i. i \<in> set (ids_of sls) - looked_at now sls \<Longrightarrow> st i \<noteq> None) \<Longrightarrow>
   distinct (ids_of sls') \<and> set (ids_of sls') = {i \<in> set (ids_of sls). st i \<noteq> None}"
proof (induction rule: list_all2_induct)
  case (Cons sl sls sl' sls')
  have dj: "set (sl_reqs sl) \<inter> set (ids_of sls) = {}" using Cons.prems(1) by auto
  have "distinct (ids_of sls') \<and> set (ids_of sls') = {i \<in> set (ids_of sls). st i \<noteq> None}"
  proof (rule Cons.IH)
    show "distinct (ids_of sls)" using Cons.prems(1) by simp
    fix i assume "i \<in> set (ids_of sls) - looked_at now sls"
    then show "st i \<noteq> None" using Cons.prems(2) [of i] dj by (cases "slot_due now sl") (auto simp: looked_at_Cons)
  qed
  moreover have "distinct (sl_reqs sl') \<and> set (sl_reqs sl') = {i \<in> set (sl_reqs sl). st i \<noteq> None}"
  proof (cases "slot_due now sl")
    case True
    then show ?thesis using Cons.hyps(1) by (simp add: slot_step_def)
  next
    case False
    have "st i \<noteq> None" if "i \<in> set (sl_reqs sl)" for i
      using that Cons.prems(2) [of i] dj looked_at_ids [of now sls] False by (auto simp: looked_at_Cons)
    then show ?thesis using False Cons.hyps(1) Cons.prems(1) by (auto simp: slot_step_def)
  qed
  ultimately show ?case using dj by auto
qed simp

lemma timer_execute_ok:
  assumes "tm_inv lo tm" "lo \<le> now" "in_range now tm" "length (ids_of (tm_slots tm)) < fuel"
  shows "\<exists>log tm'. timer_execute fuel now tm = Some (log, tm') \<and> tm_inv now tm' \<and>
     (\<exists>order. distinct order \<and> set order = fired now (looked_at now (tm_slots tm)) (tm_store tm) \<and> log = log_of (tm_store tm) order) \<and>
     tm_store tm' = passed now (looked_at now (tm_slots tm)) (tm_store tm)"
proof -
  let ?sls = "tm_slots tm" and ?Q = "looked_at now (tm_slots tm)"
  have ov: "\<forall>sl \<in> set ?sls. sl_last_run sl + sl_interval sl < 2 ^ 64"
    using assms(1-3) by (fastforce simp: tm_inv_def in_range_def)
  obtain log sls' tm1 where l: "update_slots fuel now ?sls tm = Some (log, sls', tm1)"
    "\<exists>order. distinct order \<and> set order = fired now ?Q (tm_store tm) \<and> log = log_of (tm_store tm) order"
    "tm_store tm1 = passed now ?Q (tm_store tm)" "list_all2 (slot_step now (tm_store tm1)) ?sls sls'" "pass_ok now [] tm1"
    using update_slots_ok [OF tm_inv_pass_ok [OF assms(1,3)] ov assms(4)] by blast
  have d: "distinct (ids_of ?sls)" "set (ids_of ?sls) = dom (tm_store tm)" using assms(1) by (simp_all add: tm_inv_def)
  have ids: "distinct (ids_of sls') \<and> set (ids_of sls') = {i \<in> set (ids_of ?sls). tm_store tm1 i \<noteq> None}"
    by (rule list_all2_ids [OF l(4) d(1)]) (use d(2) in \<open>auto simp: l(3) passed_outside\<close>)
  have sub: "tm_store tm1 i = Some r' \<Longrightarrow> \<exists>r. tm_store tm i = Some r \<and> r_id r' = r_id r \<and> r_interval r' = r_interval r \<and>
      (if i \<in> ?Q then now < r_next_run r' else r' = r)" for i r'
    using assms(1) by (fastforce simp: l(3) passed_def after_run_def due_def tm_inv_def split: option.splits if_splits)
  have slots: "sl_last_run sl' \<le> now \<and> sl_interval sl' \<le> 3600000 \<and> (\<forall>i \<in> set (sl_reqs sl'). \<forall>r. tm_store tm1 i = Some r \<longrightarrow>
      sl_interval sl' \<le> max 10 (r_interval r div 2) \<and> sl_last_run sl' < r_next_run r)" if "sl' \<in> set sls'" for sl'
  proof -
    from that obtain n where n: "n < length sls'" "sls' ! n = sl'" by (auto simp: in_set_conv_nth)
    obtain sl where sl: "sl \<in> set ?sls" "slot_step now (tm_store tm1) sl sl'"
      using list_all2_nthD2 [OF l(4) n(1)] list_all2_lengthD [OF l(4)] n by (metis nth_mem)
    have old: "sl_last_run sl \<le> lo" "sl_interval sl \<le> 3600000"
      "\<And>i r. i \<in> set (sl_reqs sl) \<Longrightarrow> tm_store tm i = Some r \<Longrightarrow> sl_interval sl \<le> max 10 (r_interval r div 2) \<and> sl_last_run sl < r_next_run r"
      using assms(1) sl(1) by (auto simp: tm_inv_def)
    show ?thesis
    proof (cases "slot_due now sl")
      case True
      have "i \<in> ?Q" if "i \<in> set (sl_reqs sl)" for i using that sl(1) True by (auto simp: looked_at_def set_ids_of)
      with True sl(2) old sub show ?thesis by (fastforce simp: slot_step_def)
    next
      case False
      have "i \<notin> ?Q" if i: "i \<in> set (sl_reqs sl)" for i
      proof
        assume "i \<in> ?Q"
        then obtain sl2 where "sl2 \<in> set ?sls" "slot_due now sl2" "i \<in> set (sl_reqs sl2)" by (auto simp: looked_at_def set_ids_of)
        with slot_unique [OF d(1) sl(1) _ i] False show False by metis
      qed
      with False sl(2) old sub assms(2) show ?thesis by (fastforce simp: slot_step_def)
    qed
  qed
  let ?tm' = "tm1\<lparr>tm_slots := sls'\<rparr>"
  have "timer_execute fuel now tm = Some (log, ?tm')" using l(1) by (simp add: timer_execute_def)
  moreover have "tm_inv now ?tm'"
  proof -
    have "set (ids_of sls') = dom (tm_store tm1)" using ids d(2) sub by fastforce
    moreover have "r_id r = i \<and> 10 \<le> r_interval r" if "tm_store tm1 i = Some r" for i r
      using sub [OF that] assms(1) by (auto simp: tm_inv_def)
    ultimately show ?thesis using ids slots l(5) by (auto simp: tm_inv_def pass_ok_def)
  qed
  moreover have "tm_store ?tm' = passed now ?Q (tm_store tm)" using l(3) by simp
  ultimately show ?thesis using l(2) by blast
qed

section \<open>The other operations\<close>

lemma find_interval_le: "find_interval t xs \<le> max 10 t"
  by (induction t xs rule: find_interval.induct) auto

lemma find_interval_bound: "\<forall>x \<in> set xs. x \<le> b \<Longrightarrow> 10 \<le> b \<Longrightarrow> find_interval t xs \<le> b"
  by (induction t xs rule: find_interval.induct) auto

lemma slot_interval_bound: "find_interval t intervals \<le> 3600000"
  by (rule find_interval_bound) (simp_all add: intervals_def)

lemma push_slot_ids:
  "\<exists>sl \<in> set sls. sl_interval sl = fi \<Longrightarrow> i \<notin> set (ids_of sls) \<Longrightarrow>
   (distinct (ids_of (push_slot fi i sls)) \<longleftrightarrow> distinct (ids_of sls)) \<and> set (ids_of (push_slot fi i sls)) = insert i (set (ids_of sls))"
proof (induction sls)
  case (Cons a sls)
  show ?case
  proof (cases "sl_interval a = fi")
    case False
    with Cons have "(distinct (ids_of (push_slot fi i sls)) \<longleftrightarrow> distinct (ids_of sls)) \<and>
      set (ids_of (push_slot fi i sls)) = insert i (set (ids_of sls))" by auto
    with False Cons.prems(2) show ?thesis by simp
  qed (use Cons.prems(2) in auto)
qed simp

lemma push_slot_mem:
  "sl' \<in> set (push_slot fi i sls) \<Longrightarrow>
   \<exists>sl \<in> set sls. sl_interval sl' = sl_interval sl \<and> sl_last_run sl' = sl_last_run sl \<and>
     (set (sl_reqs sl') = set (sl_reqs sl) \<or> sl_interval sl = fi \<and> set (sl_reqs sl') = insert i (set (sl_reqs sl)))"
  by (induction sls) (auto split: if_splits)

lemma timer_set_ok:
  assumes "tm_inv lo tm" "lo \<le> now" "now + after + max 10 interval < 2 ^ 64" "timer_set now interval duration rep after tm = Inr (i, tm')"
  shows "tm_inv now tm'" "tm_store tm i = None"
    "tm_store tm' = (tm_store tm)(i \<mapsto> mk_req now i (max 10 interval) duration after rep)"
proof -
  let ?iv = "max 10 interval" let ?r = "mk_req now i ?iv duration after rep :: 'a req"
  let ?fi = "find_interval (?iv div 2) intervals" let ?sls = "create_slot ?fi (tm_slots tm)"
  have mx: "(if interval < min_interval then min_interval else interval) = ?iv" by (auto simp: min_interval_def)
  from assms(4) obtain sq where sq: "seq_next (tm_seq tm) = Inr (i, sq)"
    and tm': "tm' = tm\<lparr>tm_slots := push_slot ?fi i ?sls, tm_reqs := tm_reqs tm @ [i], tm_store := (tm_store tm)(i \<mapsto> ?r), tm_seq := sq\<rparr>"
    unfolding timer_set_def mx Let_def by (auto simp: bind_res_Inr_iff)
  have own: "pool.owns (tm_seq tm) (dom (tm_store tm))" using assms(1) by (simp add: tm_inv_def)
  note fresh = pool.owns_next [OF own sq]
  show n: "tm_store tm i = None" using fresh(1) by auto
  show "tm_store tm' = (tm_store tm)(i \<mapsto> ?r)" by (simp add: tm')
  have r: "r_id ?r = i" "r_interval ?r = ?iv" "r_next_run ?r = now + after + ?iv" "\<not> r_cancel ?r"
    using assms(3) by (simp_all add: mk_req_def Let_def min_interval_def)
  have e: "\<exists>sl \<in> set ?sls. sl_interval sl = ?fi" by (auto simp: create_slot_def)
  have ids: "ids_of ?sls = ids_of (tm_slots tm)" by (simp add: create_slot_def)
  have mem: "\<forall>sl \<in> set ?sls. sl \<in> set (tm_slots tm) \<or> sl_interval sl = ?fi \<and> sl_last_run sl = 0 \<and> sl_reqs sl = []"
    by (auto simp: create_slot_def)
  have i: "i \<notin> set (ids_of ?sls)" using assms(1) n by (auto simp: tm_inv_def ids)
  note ps = push_slot_ids [OF e i]
  have iv: "10 \<le> ?iv" by simp
  have slots: "sl_last_run sl' \<le> now \<and> sl_interval sl' \<le> 3600000 \<and> (\<forall>j \<in> set (sl_reqs sl'). \<forall>r. tm_store tm' j = Some r \<longrightarrow>
      sl_interval sl' \<le> max 10 (r_interval r div 2) \<and> sl_last_run sl' < r_next_run r)" if "sl' \<in> set (tm_slots tm')" for sl'
  proof -
    from that push_slot_mem [of sl' ?fi i ?sls] obtain sl where sl: "sl \<in> set ?sls" "sl_interval sl' = sl_interval sl" "sl_last_run sl' = sl_last_run sl"
      "set (sl_reqs sl') = set (sl_reqs sl) \<or> sl_interval sl = ?fi \<and> set (sl_reqs sl') = insert i (set (sl_reqs sl))" by (auto simp: tm')
    have old: "sl_last_run sl \<le> lo" "sl_interval sl \<le> 3600000"
      "\<And>j r. j \<in> set (sl_reqs sl) \<Longrightarrow> tm_store tm j = Some r \<Longrightarrow> sl_interval sl \<le> max 10 (r_interval r div 2) \<and> sl_last_run sl < r_next_run r"
      using assms(1) sl(1) mem slot_interval_bound by (fastforce simp: tm_inv_def)+
    have ni: "i \<notin> set (sl_reqs sl)" using sl(1) i by (auto simp: set_ids_of)
    have lt: "sl_last_run sl < now + after + ?iv" using old(1) assms(2) iv by linarith
    have "sl_interval sl' \<le> max 10 (r_interval ?r div 2) \<and> sl_last_run sl' < r_next_run ?r" if "i \<in> set (sl_reqs sl')"
      using that sl ni lt r(2,3) find_interval_le [of "?iv div 2" intervals] iv by auto
    moreover have "j \<in> set (sl_reqs sl) \<and> tm_store tm j = Some r" if "j \<in> set (sl_reqs sl')" "tm_store tm' j = Some r" "j \<noteq> i" for j r
      using that sl(4) by (auto simp: tm')
    ultimately show ?thesis using old assms(2) sl(2,3) n by (auto simp: tm')
  qed
  have "tm_inv now tm' \<longleftrightarrow> True" using ps ids assms(1) fresh n r slots
    by (auto simp: tm_inv_def tm')
  then show "tm_inv now tm'" by simp
qed

lemma tm_inv_update:
  assumes "tm_inv lo tm" "tm_store tm i = Some r" "r_id r' = r_id r" "r_interval r' = r_interval r" "r_next_run r' = r_next_run r"
    and "distinct rs" "\<And>j. j \<in> set rs \<longleftrightarrow> (\<exists>r. ((tm_store tm)(i \<mapsto> r')) j = Some r \<and> \<not> r_cancel r)"
  shows "tm_inv lo (tm\<lparr>tm_store := (tm_store tm)(i \<mapsto> r'), tm_reqs := rs\<rparr>)"
proof -
  have "dom ((tm_store tm)(i \<mapsto> r')) = dom (tm_store tm)" using assms(2) by auto
  then show ?thesis using assms by (auto simp: tm_inv_def)
qed

lemma timer_add_ok:
  assumes "tm_inv lo tm"
  shows "tm_inv lo (snd (timer_add i act tm))"
proof (cases "i \<in> set (tm_reqs tm)")
  case True
  then obtain r where r: "tm_store tm i = Some r" "\<not> r_cancel r" using assms by (auto simp: tm_inv_def)
  have "tm_inv lo (tm\<lparr>tm_store := (tm_store tm)(i \<mapsto> r\<lparr>r_actions := r_actions r @ [act]\<rparr>), tm_reqs := tm_reqs tm\<rparr>)"
    by (rule tm_inv_update [OF assms r(1)]) (use assms r True in \<open>auto simp: tm_inv_def\<close>)
  with True r show ?thesis by (simp add: timer_add_def)
qed (use assms in \<open>simp add: timer_add_def\<close>)

lemma timer_cancel_ok:
  assumes "tm_inv lo tm"
  shows "tm_inv lo (snd (timer_cancel i tm))" "fst (timer_cancel i tm) \<longleftrightarrow> timer_has i tm" "\<not> timer_has i (snd (timer_cancel i tm))"
    "tm_store (snd (timer_cancel i tm)) = (if timer_has i tm then (tm_store tm)(i := map_option (\<lambda>r. r\<lparr>r_cancel := True\<rparr>) (tm_store tm i)) else tm_store tm)"
proof -
  show "fst (timer_cancel i tm) \<longleftrightarrow> timer_has i tm" by (simp add: timer_cancel_def timer_has_def)
  show "\<not> timer_has i (snd (timer_cancel i tm))" using assms by (auto simp: timer_cancel_def timer_has_def tm_inv_def)
  show "tm_store (snd (timer_cancel i tm)) = (if timer_has i tm then (tm_store tm)(i := map_option (\<lambda>r. r\<lparr>r_cancel := True\<rparr>) (tm_store tm i)) else tm_store tm)"
    by (simp add: timer_cancel_def timer_has_def)
  show "tm_inv lo (snd (timer_cancel i tm))"
  proof (cases "i \<in> set (tm_reqs tm)")
    case True
    then obtain r where r: "tm_store tm i = Some r" "\<not> r_cancel r" using assms by (auto simp: tm_inv_def)
    have "tm_inv lo (tm\<lparr>tm_store := (tm_store tm)(i \<mapsto> r\<lparr>r_cancel := True\<rparr>), tm_reqs := remove1 i (tm_reqs tm)\<rparr>)"
      by (rule tm_inv_update [OF assms r(1)]) (use assms r True in \<open>auto simp: tm_inv_def\<close>)
    with True r show ?thesis by (simp add: timer_cancel_def)
  qed (use assms in \<open>simp add: timer_cancel_def\<close>)
qed

lemma tm_inv_later: "tm_inv lo tm \<Longrightarrow> lo \<le> now \<Longrightarrow> tm_inv now tm"
  by (force simp: tm_inv_def)

section \<open>Properties\<close>

lemma log_mem: "(i, a) \<in> set (log_of st order) \<longleftrightarrow> i \<in> set order \<and> a \<in> set (r_actions (the (st i)))"
  by (auto simp: log_of_def)

text \<open>
  \<open>execute\<close> returns and runs exactly the requests that are due in the slots whose turn it is:
  each of them once, with all its actions in the order they were added, none of them before its
  time and none that was cancelled. The invariant is kept.
\<close>

theorem execute_fires_due:
  assumes "tm_inv lo tm" "lo \<le> now" "in_range now tm" "length (ids_of (tm_slots tm)) < fuel"
  shows "\<exists>log tm' order. timer_execute fuel now tm = Some (log, tm') \<and> tm_inv now tm' \<and> distinct order \<and> log = log_of (tm_store tm) order \<and>
     (\<forall>i. i \<in> set order \<longleftrightarrow> i \<in> looked_at now (tm_slots tm) \<and> (\<exists>r. tm_store tm i = Some r \<and> r_next_run r \<le> now \<and> \<not> r_cancel r))"
proof -
  from timer_execute_ok [OF assms] obtain log tm' order where e: "timer_execute fuel now tm = Some (log, tm')" "tm_inv now tm'" "distinct order"
    "set order = fired now (looked_at now (tm_slots tm)) (tm_store tm)" "log = log_of (tm_store tm) order" by blast
  moreover have "i \<in> set order \<longleftrightarrow> i \<in> looked_at now (tm_slots tm) \<and> (\<exists>r. tm_store tm i = Some r \<and> r_next_run r \<le> now \<and> \<not> r_cancel r)" for i
    by (simp add: e(4) fired_def due_def)
  ultimately show ?thesis by blast
qed

text \<open>
  C12. A timer is late by at most half its interval (or 10 ms, when that is more): any \<open>execute\<close>
  at or after that moment runs it, and reschedules it a full interval later when it repeats.
\<close>

theorem timer_fires_in_time:
  assumes "tm_inv lo tm" "lo \<le> now" "in_range now tm" "length (ids_of (tm_slots tm)) < fuel"
    and "tm_store tm i = Some r" "\<not> r_cancel r" "r_next_run r + max 10 (r_interval r div 2) \<le> now"
  shows "\<exists>log tm'. timer_execute fuel now tm = Some (log, tm') \<and> (\<forall>a \<in> set (r_actions r). (i, a) \<in> set log) \<and>
     (r_repeat r \<longrightarrow> (\<exists>r'. tm_store tm' i = Some r' \<and> r_next_run r' = now + r_interval r))"
proof -
  from timer_execute_ok [OF assms(1-4)] obtain log tm' order where e: "timer_execute fuel now tm = Some (log, tm')"
    "set order = fired now (looked_at now (tm_slots tm)) (tm_store tm)" "log = log_of (tm_store tm) order"
    "tm_store tm' = passed now (looked_at now (tm_slots tm)) (tm_store tm)" by blast
  have "i \<in> set (ids_of (tm_slots tm))" using assms(1,5) by (auto simp: tm_inv_def)
  then obtain sl where sl: "sl \<in> set (tm_slots tm)" "i \<in> set (sl_reqs sl)" by (auto simp: set_ids_of)
  have "sl_interval sl \<le> max 10 (r_interval r div 2) \<and> sl_last_run sl < r_next_run r" using assms(1,5) sl by (auto simp: tm_inv_def)
  then have "slot_due now sl" using assms(7) by (simp add: slot_due_def)
  then have q: "i \<in> looked_at now (tm_slots tm)" using sl by (auto simp: looked_at_def set_ids_of)
  have d: "due now r" using assms(7) by (simp add: due_def)
  have "i \<in> set order" using q d assms(5,6) by (auto simp: e(2) fired_def)
  moreover have "tm_store tm' i = after_run now r" using q d assms(5) by (simp add: e(4) passed_def)
  ultimately show ?thesis using e(1,3) assms(5,6) by (auto simp: log_mem after_run_def)
qed

text \<open>A series of \<open>execute\<close> calls.\<close>

fun executes :: "nat \<Rightarrow> nat list \<Rightarrow> 'a timer \<Rightarrow> ((nat \<times> 'a) list \<times> 'a timer) option" where
  "executes fuel [] tm = Some ([], tm)"
| "executes fuel (t # ts) tm = (case timer_execute fuel t tm of None \<Rightarrow> None
     | Some (log, tm') \<Rightarrow> map_option (\<lambda>(log', x). (log @ log', x)) (executes fuel ts tm'))"

lemma executes_silent:
  "tm_inv lo tm \<Longrightarrow> sorted (lo # ts) \<Longrightarrow> \<forall>t \<in> set ts. in_range t tm \<Longrightarrow> length (ids_of (tm_slots tm)) < fuel \<Longrightarrow>
   (\<And>r. tm_store tm i = Some r \<Longrightarrow> r_cancel r) \<Longrightarrow>
   \<exists>log tm'. executes fuel ts tm = Some (log, tm') \<and> i \<notin> fst ` set log"
proof (induction ts arbitrary: lo tm)
  case (Cons t ts)
  from timer_execute_ok [of lo tm t fuel] Cons.prems obtain log tm' order where e: "timer_execute fuel t tm = Some (log, tm')"
    "tm_inv t tm'" "set order = fired t (looked_at t (tm_slots tm)) (tm_store tm)" "log = log_of (tm_store tm) order"
    "tm_store tm' = passed t (looked_at t (tm_slots tm)) (tm_store tm)" by auto
  have sub: "tm_store tm' j = Some r' \<Longrightarrow> \<exists>r. tm_store tm j = Some r \<and> r_interval r' = r_interval r \<and> r_cancel r' = r_cancel r" for j r'
    by (auto simp: e(5) passed_def after_run_def split: option.splits if_splits)
  have "length (ids_of (tm_slots tm')) \<le> length (ids_of (tm_slots tm))"
  proof -
    have "set (ids_of (tm_slots tm')) \<subseteq> set (ids_of (tm_slots tm))" using e(2) Cons.prems(1) sub by (fastforce simp: tm_inv_def)
    then show ?thesis using e(2) Cons.prems(1) by (metis List.finite_set card_mono distinct_card tm_inv_def)
  qed
  moreover have "\<forall>u \<in> set ts. in_range u tm'" using Cons.prems(3) sub by (fastforce simp: in_range_def)
  moreover have "r_cancel r'" if "tm_store tm' i = Some r'" for r' using sub [OF that] Cons.prems(5) by auto
  ultimately obtain log2 tm2 where "executes fuel ts tm' = Some (log2, tm2)" "i \<notin> fst ` set log2"
    using Cons.IH [OF e(2)] Cons.prems(2,4) by fastforce
  moreover have "i \<notin> fst ` set log" using Cons.prems(5) by (auto simp: e(4) log_mem e(3) fired_def)
  ultimately show ?case using e(1) by (auto simp: image_Un)
qed auto

text \<open>
  C17. After \<open>cancel\<close> the request never runs again, through any series of later \<open>execute\<close> calls,
  although it stays in its queue until its time comes.
\<close>

theorem cancelled_never_fires:
  assumes "tm_inv lo tm" "timer_cancel i tm = (ok, tm1)" "sorted (lo # ts)" "\<forall>t \<in> set ts. in_range t tm" "length (ids_of (tm_slots tm)) < fuel"
  shows "\<exists>log tm'. executes fuel ts tm1 = Some (log, tm') \<and> i \<notin> fst ` set log"
proof (rule executes_silent)
  note c = timer_cancel_ok [OF assms(1), of i, unfolded assms(2) fst_conv snd_conv]
  show "tm_inv lo tm1" "sorted (lo # ts)" using c(1) assms(3) by simp_all
  have "\<exists>r0. tm_store tm j = Some r0 \<and> r_interval r = r_interval r0" if "tm_store tm1 j = Some r" for j r
    using that by (cases "j = i"; cases "timer_has i tm"; auto simp: c(4))
  then show "\<forall>t \<in> set ts. in_range t tm1" using assms(4) unfolding in_range_def by metis
  have "tm_slots tm1 = tm_slots tm" using assms(2) by (auto simp: timer_cancel_def split: if_splits)
  then show "length (ids_of (tm_slots tm1)) < fuel" using assms(5) by simp
  have "(\<exists>r. tm_store tm1 i = Some r \<and> \<not> r_cancel r) \<longleftrightarrow> i \<in> set (tm_reqs tm1)" using c(1) by (simp add: tm_inv_def)
  then show "r_cancel r" if "tm_store tm1 i = Some r" for r using that c(3) by (auto simp: timer_has_def)
qed

text \<open>
  A holder keeps the id of its one-shot timer after the timer has run. Once the pool has
  handed that id to another client, destroying the holder cancels the other client's timer.
\<close>

theorem stale_holder_cancels_stranger:
  assumes "holder_once now after cb act h0 tm0 = Inr (i, h, tm1)" "i > 0"
    and "tm_inv lo tm2" "lo \<le> t" "t + aft + max 10 iv < 2 ^ 64" "timer_set t iv dur rep aft tm2 = Inr (i, tm3)"
  shows "timer_has i tm3 \<and> \<not> timer_has i (holder_destroy h tm3)"
proof -
  have h: "h_id h = i" using assms(1) by (auto simp: holder_once_def bind_res_Inr_iff split: if_splits)
  note s = timer_set_ok [OF assms(3-6)]
  have "timer_has i tm3" using s(1,3) by (auto simp: timer_has_def tm_inv_def mk_req_def Let_def)
  then show ?thesis using timer_cancel_ok(3) [OF s(1), of i] h assms(2) by (simp add: holder_destroy_def)
qed

section \<open>A concrete timer\<close>

text \<open>One request that repeats every 100 ms from time 0 with the action 7.\<close>

definition sample_req :: "nat req" where
  "sample_req = (mk_req 0 1 100 0 0 True)\<lparr>r_actions := [7]\<rparr>"

lemma sample_req_simps [simp]:
  "r_next_run sample_req = 100" "r_interval sample_req = 100" "r_actions sample_req = [7]" "\<not> r_cancel sample_req" "r_repeat sample_req"
  by (simp_all add: sample_req_def mk_req_def min_interval_def Let_def)

lemma sample_timer:
  "\<exists>tm. timer_repeat 0 100 (7 :: nat) mk_timer = Inr (1, tm) \<and> tm_inv 0 tm \<and> ids_of (tm_slots tm) = [1] \<and> tm_store tm = [1 \<mapsto> sample_req]"
proof -
  obtain sq where sq: "seq_next (mk_sequence 1 (2 ^ 32 - 1) 16) = Inr (1, sq)"
    using seq_next_first [of 1 "2 ^ 32 - 1" 16] by auto
  then have "\<exists>tm. timer_set 0 100 0 True 0 (mk_timer :: nat timer) = Inr (1, tm) \<and> tm_reqs tm = [1] \<and> ids_of (tm_slots tm) = [1]"
    by (simp add: timer_set_def mk_timer_def min_interval_def intervals_def create_slot_def)
  then obtain tm :: "nat timer" where tm: "timer_set 0 100 0 True 0 mk_timer = Inr (1, tm)" "tm_reqs tm = [1]" "ids_of (tm_slots tm) = [1]" by blast
  have ov: "0 + 0 + max 10 100 < (2 ^ 64 :: nat)" by simp
  note s = timer_set_ok [OF mk_timer_inv order_refl ov tm(1)]
  have "timer_repeat 0 100 (7 :: nat) mk_timer = Inr (1, snd (timer_add 1 7 tm))" using tm by (simp add: timer_repeat_def timer_add_def)
  moreover have "tm_store (snd (timer_add 1 7 tm)) = [1 \<mapsto> sample_req]"
    using tm(2) s(3) by (simp add: timer_add_def sample_req_def mk_timer_def mk_req_def Let_def)
  moreover have "ids_of (tm_slots (snd (timer_add 1 7 tm))) = [1]" using tm(3) by (simp add: timer_add_def)
  ultimately show ?thesis using timer_add_ok [OF s(1), of 1 7] by blast
qed

lemma sample_range: "tm_store tm = [1 \<mapsto> sample_req] \<Longrightarrow> t \<le> 1000 \<Longrightarrow> in_range t tm"
  by (simp add: in_range_def)

lemma execute_fires_due_witness:
  "\<exists>tm log tm' order. timer_repeat 0 100 (7 :: nat) mk_timer = Inr (1, tm) \<and> timer_execute 2 99 tm = Some (log, tm') \<and>
     log = log_of (tm_store tm) order \<and> order = []"
proof -
  obtain tm where tm: "timer_repeat 0 100 (7 :: nat) mk_timer = Inr (1, tm)" "tm_inv 0 tm" "ids_of (tm_slots tm) = [1]" "tm_store tm = [1 \<mapsto> sample_req]"
    using sample_timer by blast
  have "length (ids_of (tm_slots tm)) < 2" by (simp add: tm(3))
  from execute_fires_due [OF tm(2) _ sample_range [OF tm(4)] this, of 99] obtain log tm' order where
    e: "timer_execute 2 99 tm = Some (log, tm')" "log = log_of (tm_store tm) order"
      "\<forall>i. i \<in> set order \<longleftrightarrow> i \<in> looked_at 99 (tm_slots tm) \<and> (\<exists>r. tm_store tm i = Some r \<and> r_next_run r \<le> 99 \<and> \<not> r_cancel r)" by auto
  have "i \<notin> set order" for i
  proof
    assume "i \<in> set order"
    then obtain r where "tm_store tm i = Some r" "r_next_run r \<le> 99" using e(3) by blast
    then show False by (auto simp: tm(4) split: if_splits)
  qed
  then have "order = []" by (cases order) auto
  with e(1,2) tm(1) show ?thesis by blast
qed

lemma timer_fires_in_time_witness:
  "\<exists>tm log tm' r'. timer_repeat 0 100 (7 :: nat) mk_timer = Inr (1, tm) \<and> timer_execute 2 150 tm = Some (log, tm') \<and> (1, 7) \<in> set log \<and>
     tm_store tm' 1 = Some r' \<and> r_next_run r' = 250"
proof -
  obtain tm where tm: "timer_repeat 0 100 (7 :: nat) mk_timer = Inr (1, tm)" "tm_inv 0 tm" "ids_of (tm_slots tm) = [1]" "tm_store tm = [1 \<mapsto> sample_req]"
    using sample_timer by blast
  have "length (ids_of (tm_slots tm)) < 2" by (simp add: tm(3))
  from timer_fires_in_time [OF tm(2) _ sample_range [OF tm(4)] this, of 150 1 sample_req] tm(1,4) show ?thesis by auto
qed

lemma cancelled_never_fires_witness:
  "\<exists>tm ok tm1 log tm'. timer_repeat 0 100 (7 :: nat) mk_timer = Inr (1, tm) \<and> timer_cancel 1 tm = (ok, tm1) \<and>
     executes 2 [150, 300] tm1 = Some (log, tm') \<and> 1 \<notin> fst ` set log"
proof -
  obtain tm where tm: "timer_repeat 0 100 (7 :: nat) mk_timer = Inr (1, tm)" "tm_inv 0 tm" "ids_of (tm_slots tm) = [1]" "tm_store tm = [1 \<mapsto> sample_req]"
    using sample_timer by blast
  obtain ok tm1 where c: "timer_cancel 1 tm = (ok, tm1)" by fastforce
  have "length (ids_of (tm_slots tm)) < 2" by (simp add: tm(3))
  from cancelled_never_fires [OF tm(2) c _ _ this, of "[150, 300]"] sample_range [OF tm(4)] tm(1) c show ?thesis by auto
qed

lemma stale_holder_cancels_stranger_witness:
  "\<exists>h tm1 tm3. holder_once 0 10 8 9 mk_holder mk_timer = Inr (1, h, tm1) \<and>
     timer_set 50 100 0 True 0 (mk_timer :: nat timer) = Inr (1, tm3) \<and> timer_has 1 tm3 \<and> \<not> timer_has 1 (holder_destroy h tm3)"
proof -
  obtain sq where sq: "seq_next (mk_sequence 1 (2 ^ 32 - 1) 16) = Inr (1, sq)"
    using seq_next_first [of 1 "2 ^ 32 - 1" 16] by auto
  then obtain tm3 :: "nat timer" where t3: "timer_set 50 100 0 True 0 mk_timer = Inr (1, tm3)"
    by (simp add: timer_set_def mk_timer_def min_interval_def intervals_def create_slot_def)
  from sq obtain h tm1 where h: "holder_once 0 10 (8::nat) 9 mk_holder mk_timer = Inr (1, h, tm1)"
    by (simp add: holder_once_def mk_holder_def timer_once_def timer_set_def mk_timer_def min_interval_def intervals_def create_slot_def)
  have b: "(0 :: nat) < 1" "0 \<le> (50 :: nat)" "50 + 0 + max 10 100 < (2 ^ 64 :: nat)" by simp_all
  show ?thesis using stale_holder_cancels_stranger [OF h b(1) mk_timer_inv b(2,3) t3] h t3 by blast
qed

end
