(* ===== verification/Crc32.thy ===== *)
theory Crc32
  imports Prelude
begin

text \<open>
  The CRC-32 of \<^verbatim>\<open>include/wise.kernel/util/crc32.hpp\<close>: a table of the checksums of all bytes and
  a loop that consumes one byte per step. \<^verbatim>\<open>uint_fast32_t\<close> is 64 bits wide on the supported
  platforms, hence the clipping to 32 bits. The reference is the shift register of the CRC-32
  standard, one bit at a time, on 32-bit words.
\<close>

unbundle bit_operations_syntax

section \<open>The code\<close>

(* [include/wise.kernel/util/crc32.hpp:15-15 reversed_polynomial] *)
definition reversed_polynomial :: "'a::len word" where
  "reversed_polynomial = 0xEDB88320"

(* [include/wise.kernel/util/crc32.hpp:25-26 byte_checksum] *)
definition crc_round :: "'a::len word \<Rightarrow> 'a word" where
  "crc_round checksum = drop_bit 1 checksum XOR (if checksum AND 1 \<noteq> 0 then reversed_polynomial else 0)"

(* [include/wise.kernel/util/crc32.hpp:19-32 byte_checksum] *)
definition byte_checksum :: "nat \<Rightarrow> u64" where
  "byte_checksum n = (crc_round ^^ 8) (word_of_nat n)"

(* [include/wise.kernel/util/crc32.hpp:11-38 generate_crc_lookup_table] *)
definition generate_crc_lookup_table :: "u64 list" where
  "generate_crc_lookup_table = map byte_checksum [0..<256]"

definition crc_step :: "u64 list \<Rightarrow> byte \<Rightarrow> u64 \<Rightarrow> u64" where
  "crc_step table val checksum = table ! unat ((checksum XOR ucast val) AND 0xFF) XOR drop_bit 8 checksum"

(* [include/wise.kernel/util/crc32.hpp:42-55 crc32] *)
definition crc32 :: "byte list \<Rightarrow> u64" where
  "crc32 bytes = 0xFFFFFFFF AND NOT (fold (crc_step generate_crc_lookup_table) bytes (NOT 0 AND 0xFFFFFFFF))"

section \<open>The shift register\<close>

definition crc_byte :: "byte \<Rightarrow> u32 \<Rightarrow> u32" where
  "crc_byte val s = (crc_round ^^ 8) (s XOR ucast val)"

definition crc_reference :: "byte list \<Rightarrow> u32" where
  "crc_reference bytes = NOT (fold crc_byte bytes (NOT 0))"

lemma crc_round_bit: "crc_round c = drop_bit 1 c XOR (if bit c 0 then reversed_polynomial else 0)"
  by (simp add: crc_round_def and_one_eq odd_iff_mod_2_eq_one bit_0 flip: odd_iff_mod_2_eq_one)

lemma crc_round_linear: "crc_round (a XOR b) = crc_round a XOR crc_round b"
  unfolding crc_round_bit by (rule bit_word_eqI) (auto simp: bit_simps)

lemma crc_rounds_linear: "(crc_round ^^ n) (a XOR b) = (crc_round ^^ n) a XOR (crc_round ^^ n) b"
  by (induction n arbitrary: a b) (simp_all add: funpow_swap1 crc_round_linear)

lemma crc_rounds_shift:
  fixes z :: "'a::len word"
  shows "(\<And>i. i < n \<Longrightarrow> \<not> bit z i) \<Longrightarrow> (crc_round ^^ n) z = drop_bit n z"
proof (induction n arbitrary: z)
  case (Suc n)
  have "crc_round z = drop_bit 1 z" using Suc.prems [of 0] by (simp add: crc_round_bit)
  moreover have "\<not> bit (drop_bit 1 z) i" if "i < n" for i using Suc.prems [of "Suc i"] that by (simp add: bit_drop_bit_eq)
  ultimately have "(crc_round ^^ Suc n) z = drop_bit n (drop_bit 1 z)" using Suc.IH [of "drop_bit 1 z"] by (simp add: funpow_swap1)
  then show ?case by (simp add: drop_bit_drop_bit)
qed simp

lemma crc_split: "(crc_round ^^ 8) y = (crc_round ^^ 8) (y AND 0xFF) XOR drop_bit 8 (y :: u64)"
proof -
  have m: "(0xFF :: u64) = mask 8" by (simp add: mask_eq_exp_minus_1)
  have "y = (y AND 0xFF) XOR (y AND NOT 0xFF)" by (rule bit_word_eqI) (auto simp: bit_simps)
  then have "(crc_round ^^ 8) y = (crc_round ^^ 8) (y AND 0xFF) XOR (crc_round ^^ 8) (y AND NOT 0xFF)" by (metis crc_rounds_linear)
  also have "(crc_round ^^ 8) (y AND NOT 0xFF) = drop_bit 8 (y AND NOT 0xFF)"
    by (rule crc_rounds_shift) (simp add: m bit_simps)
  also have "drop_bit 8 (y AND NOT 0xFF) = drop_bit 8 y" unfolding m by (rule bit_word_eqI) (auto simp: bit_simps dest: bit_imp_le_length)
  finally show ?thesis .
qed

text \<open>One step of the table-driven loop is eight rounds of the register.\<close>

lemma crc_step_rounds: "crc_step generate_crc_lookup_table val c = (crc_round ^^ 8) (c XOR ucast val)"
proof -
  let ?y = "c XOR ucast val"
  have "unat (?y AND 0xFF) < 256"
  proof -
    have "?y AND 0xFF \<le> 0xFF" by (rule word_and_le1)
    then show ?thesis by (simp add: word_le_nat_alt)
  qed
  then have "generate_crc_lookup_table ! unat (?y AND 0xFF) = (crc_round ^^ 8) (?y AND 0xFF)"
    by (simp add: generate_crc_lookup_table_def byte_checksum_def)
  moreover have "drop_bit 8 ?y = drop_bit 8 c"
    by (rule bit_word_eqI) (auto simp: bit_simps dest: bit_imp_le_length)
  ultimately show ?thesis using crc_split [of ?y] by (simp add: crc_step_def)
qed

lemma crc_round_ucast: "crc_round (ucast (s :: u32) :: u64) = ucast (crc_round s)"
proof -
  have p: "(reversed_polynomial :: u64) = ucast (reversed_polynomial :: u32)" by (simp add: reversed_polynomial_def)
  show ?thesis unfolding crc_round_bit p by (rule bit_word_eqI) (auto simp: bit_simps dest: bit_imp_le_length)
qed

lemma crc_rounds_ucast: "(crc_round ^^ n) (ucast (s :: u32) :: u64) = ucast ((crc_round ^^ n) s)"
  by (induction n) (simp_all add: crc_round_ucast)

lemma crc_step_ucast: "crc_step generate_crc_lookup_table val (ucast s) = ucast (crc_byte val s)"
proof -
  have "ucast s XOR ucast val = (ucast (s XOR ucast val) :: u64)"
    by (rule bit_word_eqI) (auto simp: bit_simps dest: bit_imp_le_length)
  then show ?thesis by (simp add: crc_step_rounds crc_byte_def crc_rounds_ucast)
qed

lemma crc_fold_ucast: "fold (crc_step generate_crc_lookup_table) bs (ucast s) = ucast (fold crc_byte bs s)"
  by (induction bs arbitrary: s) (simp_all add: crc_step_ucast)

section \<open>Detection of errors\<close>

lemma xor_cancel: "a XOR v = b XOR v \<longleftrightarrow> a = (b :: 'a::len word)"
proof
  assume "a XOR v = b XOR v"
  then have "(a XOR v) XOR v = (b XOR v) XOR v" by simp
  then show "a = b" by (simp add: xor.assoc)
qed simp

text \<open>A round can be undone: its top bit tells whether the polynomial was added.\<close>

lemma crc_round_inj: "inj (crc_round :: u32 \<Rightarrow> u32)"
proof (rule injI)
  fix a b :: u32 assume e: "crc_round a = crc_round b"
  have t: "bit (crc_round c) 31 = bit c 0" for c :: u32
    unfolding crc_round_bit by (auto simp: bit_simps reversed_polynomial_def dest: bit_imp_le_length)
  then have z: "bit a 0 = bit b 0" using e by metis
  then have d: "drop_bit 1 a = drop_bit 1 b" using e by (auto simp: crc_round_bit xor_cancel split: if_splits)
  show "a = b"
  proof (rule bit_word_eqI)
    fix i assume "i < LENGTH(32)"
    show "bit a i = bit b i"
    proof (cases i)
      case (Suc j)
      have "bit (drop_bit 1 a) j = bit (drop_bit 1 b) j" by (simp only: d)
      then show ?thesis by (simp add: bit_drop_bit_eq Suc)
    qed (simp add: z)
  qed
qed

lemma crc_rounds_inj: "(crc_round ^^ n) (a :: u32) = (crc_round ^^ n) b \<longleftrightarrow> a = b"
  by (induction n) (auto simp: inj_eq [OF crc_round_inj])

lemma crc_byte_inj: "crc_byte v s = crc_byte v t \<longleftrightarrow> s = t"
  by (simp add: crc_byte_def crc_rounds_inj xor_cancel)

lemma crc_byte_val: "crc_byte v s = crc_byte w s \<longleftrightarrow> v = w"
proof -
  have "ucast v = (ucast w :: u32) \<longleftrightarrow> v = w"
  proof
    assume e: "ucast v = (ucast w :: u32)"
    show "v = w"
    proof (rule bit_word_eqI)
      fix n assume "n < LENGTH(8)"
      then show "bit v n = bit w n" using arg_cong [OF e, of "\<lambda>x. bit x n"] by (simp add: bit_simps)
    qed
  qed simp
  then show ?thesis by (simp add: crc_byte_def crc_rounds_inj xor_cancel xor.commute [of s])
qed

lemma crc_fold_inj: "fold crc_byte bs s = fold crc_byte bs t \<longleftrightarrow> s = t"
  by (induction bs arbitrary: s t) (simp_all add: crc_byte_inj)

lemma crc32_register: "crc32 bytes = ucast (crc_reference bytes)"
proof -
  have m: "(0xFFFFFFFF :: u64) = mask 32" by (simp add: mask_eq_exp_minus_1)
  have n: "(NOT 0 AND mask 32 :: u64) = ucast (NOT 0 :: u32)"
    by (rule bit_word_eqI) (auto simp: bit_simps dest: bit_imp_le_length)
  have "mask 32 AND NOT (ucast s :: u64) = ucast (NOT s :: u32)" for s :: u32
    by (rule bit_word_eqI) (auto simp: bit_simps dest: bit_imp_le_length)
  then show ?thesis unfolding crc32_def m n crc_fold_ucast by (simp add: crc_reference_def)
qed

section \<open>Properties\<close>


text \<open>
  Two byte sequences of the same length that differ in exactly one byte never have the same
  CRC: every corruption of a single byte is detected.
\<close>

theorem crc32_detects_byte: 
  assumes "v \<noteq> w"
  shows "crc32 (pre @ v # post) \<noteq> crc32 (pre @ w # post)"
proof -
  have u: "ucast a = (ucast b :: u64) \<longleftrightarrow> a = b" for a b :: u32
  proof
    assume e: "ucast a = (ucast b :: u64)"
    show "a = b"
    proof (rule bit_word_eqI)
      fix n assume "n < LENGTH(32)"
      then show "bit a n = bit b n" using arg_cong [OF e, of "\<lambda>x. bit x n"] by (simp add: bit_simps)
    qed
  qed simp
  have "fold crc_byte (v # post) s \<noteq> fold crc_byte (w # post) s" for s
    using assms by (simp add: crc_fold_inj crc_byte_val)
  then show ?thesis
    by (simp add: crc32_register u crc_reference_def)
qed

lemma crc32_detects_byte_witness: "crc32 [49, 50, 51] \<noteq> crc32 [49, 55, 51]"
  using crc32_detects_byte [of 50 55 "[49]" "[51]"] by simp

end
