(* ===== verification/Segment_Buffer.thy ===== *)
theory Segment_Buffer
  imports Object_Pool
begin

text \<open>
  The send buffer of a TCP session: \<^verbatim>\<open>segment\<close> (a fixed array of \<open>L\<close> bytes with a write
  position) and \<^verbatim>\<open>segment_buffer\<close> (a vector of segments taken from one static
  \<^verbatim>\<open>object_pool\<close>). Segments are shared by address: the pool, the memory of its objects and
  the buffers that point into it are modelled separately, so that what a buffer holds can only be
  shown unchanged by showing that nobody else writes its segments.

  \<^verbatim>\<open>new\<close> leaves the array of a segment indeterminate: the bytes at a fresh address are an
  arbitrary function, the argument of \<open>mk_store\<close>. The default allocator hands out increasing
  addresses (\<open>st_brk\<close>); the objects of the pool are recycled through its queue.
\<close>

section \<open>Segments\<close>

(* [include/wise.kernel/net/buffer/segment.hpp:126-128 segment] *)
record segment =
  sg_buf :: "byte list"
  sg_pos :: nat

text \<open>
  The pointer and the length are one argument, the bytes (a pointer handed in by the callers of
  this class is never null).
\<close>

(* [include/wise.kernel/net/buffer/segment.hpp:38-55 segment::append] *)
definition seg_append :: "nat \<Rightarrow> byte list \<Rightarrow> segment \<Rightarrow> nat \<times> segment" where
  "seg_append L bs s =
     (if bs = [] then (0, s)
      else let n = min (length bs) (usub L (sg_pos s))
           in if n = 0 then (0, s)
              else (n, s\<lparr>sg_buf := splice (sg_pos s) (take n bs) (sg_buf s), sg_pos := sg_pos s + n\<rparr>))"

(* [include/wise.kernel/net/buffer/segment.hpp:73-81 segment::get] *)
definition seg_bytes :: "segment \<Rightarrow> byte list" where
  "seg_bytes s = take (sg_pos s) (sg_buf s)"

(* [include/wise.kernel/net/buffer/segment.hpp:95-98 segment::rewind] *)
definition seg_rewind :: "segment \<Rightarrow> segment" where
  "seg_rewind s = s\<lparr>sg_pos := 0\<rparr>"

(* [include/wise.kernel/net/buffer/segment.hpp:105-116 segment::pop_front] *)
definition seg_pop_front :: "nat \<Rightarrow> segment \<Rightarrow> segment" where
  "seg_pop_front cnt s =
     (let n = min cnt (sg_pos s)
      in s\<lparr>sg_buf := splice 0 (take (sg_pos s - n) (drop n (sg_buf s))) (sg_buf s), sg_pos := sg_pos s - n\<rparr>)"

lemma seg_bytes_pop_front:
  assumes "sg_pos s \<le> length (sg_buf s)"
  shows "seg_bytes (seg_pop_front cnt s) = drop cnt (seg_bytes s)"
  using assms by (auto simp: seg_bytes_def seg_pop_front_def Let_def splice_def drop_take min_def)

lemma seg_append_bytes:
  assumes "sg_pos s \<le> L" "length (sg_buf s) = L" "seg_append L bs s = (n, s')"
  shows "n = min (length bs) (L - sg_pos s)" "sg_pos s' = sg_pos s + n"
    and "seg_bytes s' = seg_bytes s @ take n bs" "length (sg_buf s') = L"
proof -
  define k where "k = min (length bs) (L - sg_pos s)"
  have fit: "sg_pos s + length (take k bs) \<le> length (sg_buf s)"
    using assms(1,2) by (auto simp: k_def)
  have "length (take k bs) = k" by (simp add: k_def)
  then have "take (sg_pos s + k) (splice (sg_pos s) (take k bs) (sg_buf s)) = seg_bytes s @ take k bs"
    using take_splice_end [OF fit] by (simp add: seg_bytes_def)
  moreover have "k = 0" if "bs = []"
    using that by (simp add: k_def)
  ultimately show "n = min (length bs) (L - sg_pos s)" "sg_pos s' = sg_pos s + n"
    "seg_bytes s' = seg_bytes s @ take n bs" "length (sg_buf s') = L"
    using assms fit
    by (cases "bs = []"; auto simp: seg_append_def Let_def seg_bytes_def k_def [symmetric] split: if_splits)+
qed

section \<open>The static pool and its memory\<close>

(* [include/wise.kernel/net/buffer/segment_buffer.hpp:196-196 segment_buffer::pool_] *)
record seg_store =
  st_pool :: obj_pool
  st_mem :: "nat \<Rightarrow> segment"
  st_brk :: nat

definition mk_store :: "nat \<Rightarrow> (nat \<Rightarrow> nat \<Rightarrow> byte) \<Rightarrow> seg_store" where
  "mk_store L raw = \<lparr>st_pool = mk_object_pool,
     st_mem = (\<lambda>a. \<lparr>sg_buf = map (raw a) [0..<L], sg_pos = 0\<rparr>), st_brk = 0\<rparr>"

text \<open>\<^verbatim>\<open>pool_.create_raw()\<close>: the constructor resets the position and leaves the array.\<close>

(* [include/wise.kernel/net/buffer/segment.hpp:34-34 segment::segment] *)
definition st_create :: "seg_store \<Rightarrow> nat \<times> seg_store" where
  "st_create st =
     (let (a, p) = op_create_raw (st_brk st) (st_pool st)
      in (a, st\<lparr>st_pool := p, st_mem := (st_mem st)(a := (st_mem st a)\<lparr>sg_pos := 0\<rparr>),
               st_brk := (if a = st_brk st then Suc a else st_brk st)\<rparr>))"

definition st_destroy :: "nat \<Rightarrow> seg_store \<Rightarrow> seg_store" where
  "st_destroy a st = st\<lparr>st_pool := op_destroy a (st_pool st)\<rparr>"

text \<open>\<open>live\<close> is the set of segments somebody holds.\<close>

definition st_inv :: "nat \<Rightarrow> seg_store \<Rightarrow> nat set \<Rightarrow> bool" where
  "st_inv L st live \<longleftrightarrow> (\<exists>xs. set xs = live \<and> op_inv (st_pool st) xs) \<and>
     (\<forall>a \<in> set (op_q (st_pool st)) \<union> live. a < st_brk st) \<and>
     (\<forall>a. length (sg_buf (st_mem st a)) = L)"

lemma mk_store_inv: "st_inv L (mk_store L raw) {}"
  using op_inv_init by (auto simp: st_inv_def mk_store_def) (auto simp: mk_object_pool_def)

lemma op_alloc_known:
  "op_alloc os p = (ob, p') \<Longrightarrow> set (op_q p') \<subseteq> set (op_q p) \<and> (ob = os \<or> ob \<in> set (op_q p))"
  by (cases "op_q p") (auto simp: op_alloc_def)

lemma st_create_ok:
  assumes "st_inv L st live" "st_create st = (a, st')"
  shows "a \<notin> live" "st_inv L st' (insert a live)" "sg_pos (st_mem st' a) = 0"
    and "b \<noteq> a \<Longrightarrow> st_mem st' b = st_mem st b"
proof -
  obtain xs where xs: "set xs = live" "op_inv (st_pool st) xs"
    using assms(1) by (auto simp: st_inv_def)
  obtain p where p: "op_alloc (st_brk st) (st_pool st) = (a, p)"
    and st': "st' = st\<lparr>st_pool := p, st_mem := (st_mem st)(a := (st_mem st a)\<lparr>sg_pos := 0\<rparr>),
                       st_brk := (if a = st_brk st then Suc a else st_brk st)\<rparr>"
    using assms(2) by (auto simp: st_create_def op_create_raw_def split: prod.splits)
  have new: "st_brk st \<notin> set (op_q (st_pool st)) \<union> set xs"
    using assms(1) xs(1) by (auto simp: st_inv_def)
  note ok = op_alloc_inv [OF xs(2) new p]
  have "\<exists>ys. set ys = insert a live \<and> op_inv p ys"
    using ok(2) xs(1) by (intro exI [of _ "a # xs"]) simp
  moreover have "\<forall>x \<in> set (op_q p) \<union> insert a live. x < st_brk st'"
    using assms(1) op_alloc_known [OF p] by (auto simp: st' st_inv_def less_Suc_eq)
  moreover have "\<forall>x. length (sg_buf (st_mem st' x)) = L"
    using assms(1) by (simp add: st' st_inv_def)
  ultimately show "st_inv L st' (insert a live)"
    by (simp add: st_inv_def st')
  show "a \<notin> live" using ok(1) xs(1) by simp
  show "sg_pos (st_mem st' a) = 0" by (simp add: st')
  show "st_mem st' b = st_mem st b" if "b \<noteq> a" using that by (simp add: st')
qed

lemma st_destroy_ok:
  assumes "st_inv L st live" "a \<in> live"
  shows "st_inv L (st_destroy a st) (live - {a})"
proof -
  obtain xs where xs: "set xs = live" "op_inv (st_pool st) xs"
    using assms(1) by (auto simp: st_inv_def)
  then have "op_inv (op_destroy a (st_pool st)) (remove1 a xs)"
    using op_destroy_inv assms(2) by blast
  moreover have "set (remove1 a xs) = live - {a}"
    using xs by (auto simp: op_inv_def)
  moreover have "\<forall>x \<in> set (op_q (op_destroy a (st_pool st))) \<union> (live - {a}). x < st_brk st"
    using assms by (auto simp: st_inv_def op_destroy_def op_dealloc_def cq_push_def)
  ultimately show ?thesis
    using assms(1) unfolding st_inv_def st_destroy_def by auto
qed

lemma st_mem_destroy [simp]: "st_mem (st_destroy a st) = st_mem st"
  by (simp add: st_destroy_def)

section \<open>Buffers of segments\<close>

(* [include/wise.kernel/net/buffer/segment_buffer.hpp:198-199 segment_buffer] *)
record seg_buffer =
  sb_segs :: "nat list"
  sb_pos :: nat

(* [include/wise.kernel/net/buffer/segment_buffer.hpp:24-32 segment_buffer::segment_buffer] *)
definition mk_seg_buffer :: seg_buffer where
  "mk_seg_buffer = \<lparr>sb_segs = [], sb_pos = 0\<rparr>"

(* [include/wise.kernel/net/buffer/segment_buffer.hpp:88-91 segment_buffer::size] *)
definition sb_size :: "seg_buffer \<Rightarrow> nat" where
  "sb_size b = sb_pos b"

(* [include/wise.kernel/net/buffer/segment_buffer.hpp:156-159 get_write_seg] *)
definition get_write_seg :: "nat \<Rightarrow> seg_buffer \<Rightarrow> nat" where
  "get_write_seg L b = sb_pos b div L"

(* [include/wise.kernel/net/buffer/segment_buffer.hpp:162-167 get_data_seg] *)
definition get_data_seg :: "nat \<Rightarrow> seg_buffer \<Rightarrow> nat" where
  "get_data_seg L b = (if sb_pos b > 0 then sb_pos b - 1 else 0) div L"

fun grow :: "nat \<Rightarrow> seg_buffer \<Rightarrow> seg_store \<Rightarrow> seg_buffer \<times> seg_store" where
  "grow 0 b st = (b, st)"
| "grow (Suc n) b st = (let (a, st') = st_create st in grow n (b\<lparr>sb_segs := sb_segs b @ [a]\<rparr>) st')"

(* [include/wise.kernel/net/buffer/segment_buffer.hpp:174-185 reserve] *)
definition sb_reserve :: "nat \<Rightarrow> nat \<Rightarrow> seg_buffer \<Rightarrow> seg_store \<Rightarrow> seg_buffer \<times> seg_store" where
  "sb_reserve L len b st =
     (let total_segs = (sb_pos b + len) div L + 1;
          required_segs = usub total_segs (length (sb_segs b))
      in grow required_segs b st)"

text \<open>
  The loop of \<open>append\<close>; \<open>bs\<close> are the bytes still to write. A segment that takes no byte would
  make the loop run forever (\<open>None\<close>), an index outside \<^verbatim>\<open>segs_\<close> is undefined.
\<close>

(* [include/wise.kernel/net/buffer/segment_buffer.hpp:48-68 segment_buffer::append] *)
partial_function (option) sb_fill ::
    "nat \<Rightarrow> byte list \<Rightarrow> seg_buffer \<Rightarrow> seg_store \<Rightarrow> (seg_buffer \<times> seg_store) res option" where
  "sb_fill L bs b st =
     (if bs = [] then Some (Inr (b, st))
      else let w = get_write_seg L b;
               full = (w < length (sb_segs b) \<and> sg_pos (st_mem st (sb_segs b ! w)) = L);
               i = (if full then w + 1 else w)
           in if length (sb_segs b) \<le> i then Some (Inl (Undef ''segs_ index''))
              else let a = sb_segs b ! i;
                       (wl, s') = seg_append L bs (st_mem st a)
                   in sb_fill L (drop wl bs) (b\<lparr>sb_pos := sb_pos b + wl\<rparr>)
                        (st\<lparr>st_mem := (st_mem st)(a := s')\<rparr>))"

(* [include/wise.kernel/net/buffer/segment_buffer.hpp:40-73 segment_buffer::append] *)
definition sb_append :: "nat \<Rightarrow> byte list \<Rightarrow> seg_buffer \<Rightarrow> seg_store \<Rightarrow> (seg_buffer \<times> seg_store) res option" where
  "sb_append L bs b st = (let (b', st') = sb_reserve L (length bs) b st in sb_fill L bs b' st')"

(* [include/wise.kernel/net/buffer/segment_buffer.hpp:94-106 segment_buffer::at] *)
definition sb_at :: "nat \<Rightarrow> nat \<Rightarrow> seg_buffer \<Rightarrow> seg_store \<Rightarrow> byte res" where
  "sb_at L k b st =
     (if sb_pos b \<le> k then Inr 0
      else if sb_segs b = [] then Inr 0
      else if length (sb_segs b) \<le> k div L then Inl (Undef ''segs_ index'')
      else Inr (sg_buf (st_mem st (sb_segs b ! (k div L))) ! (k mod L)))"

(* [include/wise.kernel/net/buffer/segment_buffer.hpp:109-114 segment_buffer::rewind] *)
definition sb_rewind :: "seg_buffer \<Rightarrow> seg_store \<Rightarrow> seg_buffer \<times> seg_store" where
  "sb_rewind b st =
     (b\<lparr>sb_pos := 0\<rparr>,
      st\<lparr>st_mem := (\<lambda>a. if a \<in> set (sb_segs b) then seg_rewind (st_mem st a) else st_mem st a)\<rparr>)"

(* [include/wise.kernel/net/buffer/segment_buffer.hpp:117-143 segment_buffer::transfer] *)
definition sb_transfer :: "nat \<Rightarrow> seg_buffer \<Rightarrow> seg_store \<Rightarrow> nat list \<times> seg_buffer \<times> seg_store" where
  "sb_transfer L b st =
     (if sb_pos b = 0 then ([], b, st)
      else let k = get_data_seg L b + 1;
               (b', st') = sb_rewind (b\<lparr>sb_segs := drop k (sb_segs b)\<rparr>) st
           in (take k (sb_segs b), b', st'))"

(* [include/wise.kernel/net/buffer/segment_buffer.hpp:146-152 segment_buffer::release] *)
definition sb_release :: "nat list \<Rightarrow> seg_store \<Rightarrow> seg_store" where
  "sb_release as st = fold st_destroy as st"

(* [include/wise.kernel/net/buffer/segment_buffer.hpp:187-193 cleanup] *)
definition sb_cleanup :: "seg_buffer \<Rightarrow> seg_store \<Rightarrow> seg_store" where
  "sb_cleanup b st = fold st_destroy (sb_segs b) st"

end
