(* ===== verification/Segment_Laws.thy ===== *)
theory Segment_Laws
  imports Segment_Buffer
begin

text \<open>
  What a segment buffer promises: its bytes are a queue (\<open>append\<close> adds at the end, \<open>transfer\<close> hands
  over everything), it never indexes outside its vector or loops forever, and it writes no segment
  but its own. The promises are the locale \<open>send_queue\<close>, interpreted on the definitions
  of \<open>Segment_Buffer\<close>; the session theory rests on it.
\<close>

section \<open>How a position fills the segments\<close>

definition fill :: "nat \<Rightarrow> nat \<Rightarrow> nat \<Rightarrow> nat" where
  "fill L p j = (if j < p div L then L else if j = p div L then p mod L else 0)"

lemma fill_zero [simp]: "fill L 0 j = 0"
  by (simp add: fill_def)

lemma fill_advance:
  assumes "0 < L" "n \<le> L - p mod L"
  shows "fill L (p + n) j = (if j = p div L then p mod L + n else fill L p j)"
proof (cases "p mod L + n < L")
  case True
  then have "(p + n) div L = p div L" "(p + n) mod L = p mod L + n"
    by (metis div_mult_mod_eq add.assoc mult.commute div_mult_self4 div_less add_0_right assms(1) less_not_refl)
       (metis True mod_add_left_eq mod_less)
  then show ?thesis by (simp add: fill_def)
next
  case False
  with assms have n: "n = L - p mod L" "0 < n"
    using mod_less_divisor [OF assms(1), of p] by auto
  have "p + n = (p div L + 1) * L"
    using n mod_less_divisor [OF assms(1), of p] div_mult_mod_eq [of p L] by (simp only: add_mult_distrib)
  then have "(p + n) div L = p div L + 1" "(p + n) mod L = 0"
    using assms(1) by simp_all
  then show ?thesis using n mod_less_divisor [OF assms(1), of p] by (auto simp: fill_def)
qed

lemma fill_beyond_data:
  assumes "0 < L" "0 < p" "(p - 1) div L < j"
  shows "fill L p j = 0"
proof (cases "p mod L = 0")
  case True
  then obtain q where q: "p = L * q" by (auto simp: mod_eq_0_iff_dvd dvd_def)
  with assms(2) obtain r where r: "q = Suc r" by (cases q) auto
  have "p - 1 = L * r + (L - 1)" using q r assms(1) by simp
  moreover have "(L * r + (L - 1)) div L = r" using assms(1) by (intro div_nat_eqI) simp_all
  ultimately have "(p - 1) div L = r" by simp
  then show ?thesis using assms q r by (auto simp: fill_def)
next
  case False
  then have "(p - 1) div L = p div L"
    using assms(1,2) by (metis Suc_diff_1 div_Suc mod_Suc less_nat_zero_code neq0_conv)
  then show ?thesis using assms by (simp add: fill_def)
qed

section \<open>Chains of segments\<close>

definition chain :: "seg_store \<Rightarrow> nat list \<Rightarrow> byte list" where
  "chain st as = concat (map (\<lambda>a. seg_bytes (st_mem st a)) as)"

lemma chain_append [simp]: "chain st (as @ bs) = chain st as @ chain st bs"
  by (simp add: chain_def)

lemma chain_Cons [simp]: "chain st (a # as) = seg_bytes (st_mem st a) @ chain st as"
  by (simp add: chain_def)

lemma chain_Nil [simp]: "chain st [] = []"
  by (simp add: chain_def)

lemma chain_frame: "(\<And>a. a \<in> set as \<Longrightarrow> st_mem st' a = st_mem st a) \<Longrightarrow> chain st' as = chain st as"
  by (induction as) simp_all

lemma chain_empty: "(\<And>a. a \<in> set as \<Longrightarrow> sg_pos (st_mem st a) = 0) \<Longrightarrow> chain st as = []"
  by (induction as) (simp_all add: seg_bytes_def)

definition layout :: "nat \<Rightarrow> seg_store \<Rightarrow> seg_buffer \<Rightarrow> bool" where
  "layout L st b \<longleftrightarrow> 0 < L \<and> distinct (sb_segs b) \<and>
     (\<forall>j < length (sb_segs b). sg_pos (st_mem st (sb_segs b ! j)) = fill L (sb_pos b) j)"

definition sb_inv :: "nat \<Rightarrow> seg_store \<Rightarrow> seg_buffer \<Rightarrow> bool" where
  "sb_inv L st b \<longleftrightarrow> layout L st b \<and> length (sb_segs b) \<le> sb_pos b div L + 1 \<and>
     (0 < sb_pos b \<longrightarrow> sb_pos b div L < length (sb_segs b))"

definition sb_content :: "seg_store \<Rightarrow> seg_buffer \<Rightarrow> byte list" where
  "sb_content st b = chain st (sb_segs b)"

lemma layout_frame:
  "(\<And>a. a \<in> set (sb_segs b) \<Longrightarrow> st_mem st' a = st_mem st a) \<Longrightarrow> layout L st' b = layout L st b"
  by (auto simp: layout_def)

section \<open>Growing\<close>

lemma segs_grow:
  assumes "st_inv L st live" "set (sb_segs b) \<subseteq> live" "layout L st b"
    and "sb_pos b div L < length (sb_segs b) \<or> sb_pos b = 0"
    and "grow n b st = (b', st')"
  shows "st_inv L st' (live \<union> set (sb_segs b')) \<and> layout L st' b' \<and> sb_pos b' = sb_pos b \<and>
    length (sb_segs b') = length (sb_segs b) + n \<and> sb_content st' b' = sb_content st b \<and>
    set (sb_segs b) \<subseteq> set (sb_segs b') \<and> (set (sb_segs b') - set (sb_segs b)) \<inter> live = {} \<and>
    (\<forall>a \<in> live. st_mem st' a = st_mem st a)"
  using assms
proof (induction n b st arbitrary: live rule: grow.induct)
  case (1 b st)
  then show ?case by (simp add: Un_absorb2)
next
  case (2 n b st)
  obtain a st1 where cr: "st_create st = (a, st1)" by (cases "st_create st")
  note ok = st_create_ok [OF "2.prems"(1) cr]
  let ?b = "b\<lparr>sb_segs := sb_segs b @ [a]\<rparr>"
  have mem: "st_mem st1 x = st_mem st x" if "x \<in> live" for x
    using ok(1,4) that by metis
  then have old: "\<And>x. x \<in> set (sb_segs b) \<Longrightarrow> st_mem st1 x = st_mem st x"
    using "2.prems"(2) by blast
  have "a \<notin> set (sb_segs b)" using ok(1) "2.prems"(2) by blast
  moreover have "fill L (sb_pos b) (length (sb_segs b)) = 0"
    using "2.prems"(4) by (auto simp: fill_def)
  ultimately have lay: "layout L st1 ?b"
    using "2.prems"(3) old ok(3) by (auto simp: layout_def nth_append less_Suc_eq)
  have content: "sb_content st1 ?b = sb_content st b"
    using chain_frame [OF old] ok(3) by (simp add: sb_content_def seg_bytes_def)
  have "grow n ?b st1 = (b', st')" using "2.prems"(5) cr by simp
  have IH: "st_inv L st' (insert a live \<union> set (sb_segs b')) \<and> layout L st' b' \<and> sb_pos b' = sb_pos b \<and>
    length (sb_segs b') = length (sb_segs b) + Suc n \<and> sb_content st' b' = sb_content st1 ?b \<and>
    set (sb_segs ?b) \<subseteq> set (sb_segs b') \<and> (set (sb_segs b') - set (sb_segs ?b)) \<inter> insert a live = {} \<and>
    (\<forall>x \<in> insert a live. st_mem st' x = st_mem st1 x)"
  proof -
    have "set (sb_segs ?b) \<subseteq> insert a live" using "2.prems"(2) by auto
    moreover have "sb_pos ?b div L < length (sb_segs ?b) \<or> sb_pos ?b = 0" using "2.prems"(4) by auto
    ultimately show ?thesis
      using "2.IH" [OF cr [symmetric] refl ok(2) _ lay] \<open>grow n ?b st1 = (b', st')\<close> by simp
  qed
  moreover have "insert a live \<union> set (sb_segs b') = live \<union> set (sb_segs b')"
    using IH by auto
  ultimately show ?case
    using content mem ok(1) by auto
qed

section \<open>Filling\<close>

lemma fill_step:
  assumes st: "st_inv L st live" and lay: "layout L st b" and w: "sb_pos b div L < length (sb_segs b)"
    and ne: "bs \<noteq> []" and ap: "seg_append L bs (st_mem st (sb_segs b ! (sb_pos b div L))) = (n, s')"
  defines "a \<equiv> sb_segs b ! (sb_pos b div L)"
  defines "st' \<equiv> st\<lparr>st_mem := (st_mem st)(a := s')\<rparr>"
  defines "b' \<equiv> b\<lparr>sb_pos := sb_pos b + n\<rparr>"
  shows "0 < n" "n \<le> length bs" "layout L st' b'" "st_inv L st' live"
    and "sb_content st' b' = sb_content st b @ take n bs"
proof -
  let ?w = "sb_pos b div L" and ?p = "sb_pos b"
  have L: "0 < L" using lay by (simp add: layout_def)
  have pa: "sg_pos (st_mem st a) = ?p mod L"
    using lay w by (simp add: layout_def a_def fill_def)
  have len: "length (sg_buf (st_mem st a)) = L" using st by (simp add: st_inv_def)
  have "sg_pos (st_mem st a) \<le> L" using pa L by (simp add: less_imp_le)
  note ap' = seg_append_bytes [OF this len ap [folded a_def]]
  have nL: "n \<le> L - ?p mod L" using ap'(1) pa by simp
  show "0 < n" "n \<le> length bs" using ap'(1) ne pa L by simp_all
  show "st_inv L st' live" using st ap'(4) by (auto simp: st_inv_def st'_def)
  have dist: "distinct (sb_segs b)" using lay by (simp add: layout_def)
  show "layout L st' b'"
    using lay w ap'(2) pa dist
    by (auto simp: layout_def st'_def b'_def fill_advance [OF L nL] a_def nth_eq_iff_index_eq)
  define xs ys where "xs = take ?w (sb_segs b)" and "ys = drop (Suc ?w) (sb_segs b)"
  have split: "sb_segs b = xs @ a # ys"
    using id_take_nth_drop [OF w] by (simp add: xs_def ys_def a_def)
  have out: "a \<notin> set xs" "a \<notin> set ys" using dist by (auto simp: split)
  have "sg_pos (st_mem st y) = 0" if y: "y \<in> set ys" for y
  proof -
    obtain j where "j < length ys" "y = ys ! j" using y by (auto simp: in_set_conv_nth)
    then show ?thesis using lay w by (simp add: layout_def ys_def fill_def)
  qed
  then have "chain st ys = []" by (rule chain_empty)
  moreover have "chain st' xs = chain st xs" "chain st' ys = chain st ys"
    by (rule chain_frame, use out in \<open>auto simp: st'_def\<close>)+
  ultimately show "sb_content st' b' = sb_content st b @ take n bs"
    using ap'(3) by (simp add: sb_content_def split b'_def st'_def)
qed

lemma sb_fill_ok:
  assumes "st_inv L st live" "layout L st b" "(sb_pos b + length bs) div L < length (sb_segs b)"
  shows "\<exists>b' st'. sb_fill L bs b st = Some (Inr (b', st')) \<and> st_inv L st' live \<and> layout L st' b' \<and>
    sb_segs b' = sb_segs b \<and> sb_pos b' = sb_pos b + length bs \<and>
    sb_content st' b' = sb_content st b @ bs \<and>
    (\<forall>a. a \<notin> set (sb_segs b) \<longrightarrow> st_mem st' a = st_mem st a)"
  using assms
proof (induction "length bs" arbitrary: bs b st rule: less_induct)
  case less
  show ?case
  proof (cases "bs = []")
    case True
    then show ?thesis using less.prems by (simp add: sb_fill.simps)
  next
    case False
    let ?w = "sb_pos b div L"
    have L: "0 < L" using less.prems(2) by (simp add: layout_def)
    have "?w \<le> (sb_pos b + length bs) div L" by (simp add: div_le_mono)
    then have w: "?w < length (sb_segs b)" using less.prems(3) by simp
    define a where "a = sb_segs b ! ?w"
    obtain n s' where ap: "seg_append L bs (st_mem st a) = (n, s')"
      by (cases "seg_append L bs (st_mem st a)")
    note step = fill_step [OF less.prems(1,2) w False ap [unfolded a_def], folded a_def]
    let ?b = "b\<lparr>sb_pos := sb_pos b + n\<rparr>" and ?st = "st\<lparr>st_mem := (st_mem st)(a := s')\<rparr>"
    have "sg_pos (st_mem st a) \<noteq> L"
      using less.prems(2) w mod_less_divisor [OF L, of "sb_pos b"] by (simp add: layout_def a_def fill_def)
    then have eq: "sb_fill L bs b st = sb_fill L (drop n bs) ?b ?st"
      using False w ap by (subst sb_fill.simps) (simp add: Let_def get_write_seg_def a_def)
    have "(sb_pos ?b + length (drop n bs)) div L < length (sb_segs ?b)"
      using less.prems(3) step(2) by simp
    moreover have "length (drop n bs) < length bs" using step(1,2) by simp
    ultimately obtain b' st' where IH: "sb_fill L (drop n bs) ?b ?st = Some (Inr (b', st'))"
        "st_inv L st' live" "layout L st' b'" "sb_segs b' = sb_segs b"
        "sb_pos b' = sb_pos b + n + length (drop n bs)"
        "sb_content st' b' = sb_content ?st ?b @ drop n bs"
        "\<forall>x. x \<notin> set (sb_segs b) \<longrightarrow> st_mem st' x = st_mem ?st x"
      using less.hyps [of "drop n bs" ?st ?b] step(3,4) by auto
    moreover have "a \<in> set (sb_segs b)" using w by (simp add: a_def)
    ultimately show ?thesis using eq step(2,5) by auto
  qed
qed

section \<open>The operations\<close>

lemma sb_append_ok:
  assumes "st_inv L st live" "sb_inv L st b" "set (sb_segs b) \<subseteq> live"
  shows "\<exists>b' st'. sb_append L bs b st = Some (Inr (b', st')) \<and>
    st_inv L st' (live \<union> set (sb_segs b')) \<and> sb_inv L st' b' \<and> sb_content st' b' = sb_content st b @ bs \<and>
    set (sb_segs b) \<subseteq> set (sb_segs b') \<and> (set (sb_segs b') - set (sb_segs b)) \<inter> live = {} \<and>
    (\<forall>a \<in> live - set (sb_segs b). st_mem st' a = st_mem st a)"
proof -
  let ?total = "(sb_pos b + length bs) div L + 1"
  obtain b1 st1 where rs: "sb_reserve L (length bs) b st = (b1, st1)"
    by (cases "sb_reserve L (length bs) b st")
  have "sb_pos b div L \<le> (sb_pos b + length bs) div L" by (simp add: div_le_mono)
  then have le: "length (sb_segs b) \<le> ?total"
    using assms(2) by (simp add: sb_inv_def)
  then have gr: "grow (?total - length (sb_segs b)) b st = (b1, st1)"
    using rs by (simp add: sb_reserve_def Let_def)
  have lay: "layout L st b" and p: "sb_pos b div L < length (sb_segs b) \<or> sb_pos b = 0"
    using assms(2) by (auto simp: sb_inv_def)
  have tl: "length (sb_segs b) + (?total - length (sb_segs b)) = ?total"
    using le by simp
  from segs_grow [OF assms(1,3) lay p gr] have g: "st_inv L st1 (live \<union> set (sb_segs b1))" "layout L st1 b1" "sb_pos b1 = sb_pos b"
      "length (sb_segs b1) = ?total" "sb_content st1 b1 = sb_content st b"
      "set (sb_segs b) \<subseteq> set (sb_segs b1)" "(set (sb_segs b1) - set (sb_segs b)) \<inter> live = {}"
      "\<forall>a \<in> live. st_mem st1 a = st_mem st a"
    unfolding tl by blast+
  obtain b' st' where f: "sb_fill L bs b1 st1 = Some (Inr (b', st'))"
      "st_inv L st' (live \<union> set (sb_segs b1))" "layout L st' b'" "sb_segs b' = sb_segs b1"
      "sb_pos b' = sb_pos b1 + length bs" "sb_content st' b' = sb_content st1 b1 @ bs"
      "\<forall>a. a \<notin> set (sb_segs b1) \<longrightarrow> st_mem st' a = st_mem st1 a"
    using sb_fill_ok [OF g(1,2), of bs] g(3,4) by auto
  have "st_mem st' a = st_mem st a" if "a \<in> live - set (sb_segs b)" for a
    using that f(7) g(7,8) by (metis DiffD1 DiffD2 DiffI disjoint_iff)
  moreover have "sb_inv L st' b'"
    using f(3,4,5) g(3,4) by (simp add: sb_inv_def)
  ultimately show ?thesis
    using rs f g by (simp add: sb_append_def)
qed

lemma sb_transfer_ok:
  assumes "st_inv L st live" "sb_inv L st b" "sb_transfer L b st = (as, b', st')"
  shows "st_inv L st' live \<and> sb_inv L st' b' \<and> chain st' as = sb_content st b \<and> sb_content st' b' = [] \<and>
    set as \<union> set (sb_segs b') = set (sb_segs b) \<and> set as \<inter> set (sb_segs b') = {} \<and> distinct as \<and>
    sb_pos b' = 0 \<and> st_mem st' = st_mem st"
proof (cases "sb_pos b = 0")
  case True
  have lay: "layout L st b" using assms(2) by (simp add: sb_inv_def)
  then have "sb_content st b = []"
    using True by (auto simp: layout_def sb_content_def in_set_conv_nth intro!: chain_empty)
  then show ?thesis using True assms by (auto simp: sb_transfer_def)
next
  case False
  let ?k = "get_data_seg L b + 1"
  have lay: "layout L st b" "0 < L" "distinct (sb_segs b)" using assms(2) by (auto simp: sb_inv_def layout_def)
  have rest: "sg_pos (st_mem st a) = 0" if mem: "a \<in> set (drop ?k (sb_segs b))" for a
  proof -
    obtain j where j: "j < length (drop ?k (sb_segs b))" "drop ?k (sb_segs b) ! j = a"
      using mem unfolding in_set_conv_nth by blast
    then have "a = sb_segs b ! (?k + j)" "?k + j < length (sb_segs b)"
      by auto
    then show ?thesis
      using lay False fill_beyond_data [of L "sb_pos b" "?k + j"]
      by (simp add: layout_def get_data_seg_def)
  qed
  then have mem: "(\<lambda>a. if a \<in> set (drop ?k (sb_segs b)) then seg_rewind (st_mem st a) else st_mem st a) = st_mem st"
    by (auto simp: seg_rewind_def fun_eq_iff)
  then have eqs: "as = take ?k (sb_segs b)" "b' = \<lparr>sb_segs = drop ?k (sb_segs b), sb_pos = 0\<rparr>" "st' = st"
    using assms(3) False by (cases b; simp add: sb_transfer_def sb_rewind_def Let_def)+
  have "chain st (drop ?k (sb_segs b)) = []" using rest by (rule chain_empty)
  moreover have "sb_content st b = chain st (take ?k (sb_segs b)) @ chain st (drop ?k (sb_segs b))"
    unfolding sb_content_def chain_append [symmetric] by simp
  moreover have "length (sb_segs b) - ?k \<le> 1"
  proof -
    have "sb_pos b div L \<le> (sb_pos b - 1) div L + 1"
      using False lay(2) by (metis Suc_diff_1 div_Suc Suc_eq_plus1 le_Suc_eq le_refl neq0_conv)
    then show ?thesis using assms(2) False by (simp add: sb_inv_def get_data_seg_def) linarith
  qed
  moreover have "layout L st \<lparr>sb_segs = drop ?k (sb_segs b), sb_pos = 0\<rparr>"
    using rest [OF nth_mem] lay(2,3) unfolding layout_def seg_buffer.simps fill_zero by (simp del: nth_drop)
  moreover have "set (take ?k (sb_segs b)) \<union> set (drop ?k (sb_segs b)) = set (sb_segs b)"
    unfolding set_append [symmetric] by simp
  ultimately show ?thesis
    using assms(1) lay(3) by (simp add: eqs sb_inv_def sb_content_def set_take_disj_set_drop_if_distinct)
qed

lemma sb_release_ok:
  assumes "st_inv L st live" "set as \<subseteq> live" "distinct as"
  shows "st_inv L (sb_release as st) (live - set as) \<and> st_mem (sb_release as st) = st_mem st"
  using assms
proof (induction as arbitrary: st live)
  case (Cons a as)
  from Cons.prems have "st_inv L (st_destroy a st) (live - {a})"
    by (intro st_destroy_ok) auto
  moreover have "set as \<subseteq> live - {a}" "distinct as" using Cons.prems by auto
  ultimately have "st_inv L (sb_release as (st_destroy a st)) (live - {a} - set as) \<and>
      st_mem (sb_release as (st_destroy a st)) = st_mem (st_destroy a st)"
    by (rule Cons.IH)
  moreover have "live - {a} - set as = live - set (a # as)" by auto
  ultimately show ?case by (simp add: sb_release_def)
qed (simp add: sb_release_def)

lemma mk_seg_buffer_inv: "0 < L \<Longrightarrow> sb_inv L st mk_seg_buffer"
  by (simp add: sb_inv_def layout_def mk_seg_buffer_def)

lemma sb_content_size:
  assumes "st_inv L st live" "sb_inv L st b"
  shows "sb_size b = 0 \<longleftrightarrow> sb_content st b = []"
proof
  assume "sb_size b = 0"
  then show "sb_content st b = []"
    using assms(2) by (auto simp: sb_size_def sb_inv_def layout_def sb_content_def in_set_conv_nth intro!: chain_empty)
next
  assume c: "sb_content st b = []"
  show "sb_size b = 0"
  proof (rule ccontr)
    assume "sb_size b \<noteq> 0"
    then have pos: "0 < sb_pos b" by (simp add: sb_size_def)
    then have "0 < length (sb_segs b)" "0 < L" using assms(2) by (auto simp: sb_inv_def layout_def)
    then have "0 < sg_pos (st_mem st (sb_segs b ! 0))"
      using assms(2) pos by (auto simp: sb_inv_def layout_def fill_def) (metis div_less mod_less neq0_conv not_less_iff_gr_or_eq div_eq_0_iff)
    moreover have "length (sg_buf (st_mem st (sb_segs b ! 0))) = L" using assms(1) by (simp add: st_inv_def)
    ultimately have "seg_bytes (st_mem st (sb_segs b ! 0)) \<noteq> []"
      using \<open>0 < L\<close> by (auto simp: seg_bytes_def)
    then show False using c \<open>0 < length (sb_segs b)\<close> by (auto simp: sb_content_def chain_def)
  qed
qed

section \<open>What the sessions rely on\<close>

text \<open>
  The interface of a send buffer over a shared store. \<open>owned\<close> are the segments a buffer points to,
  \<open>cell\<close> what the store keeps of one segment, \<open>inv s live\<close> the well-formedness of the store when
  \<open>live\<close> are the segments anybody holds.
\<close>

locale send_queue =
  fixes app :: "byte list \<Rightarrow> 'b \<Rightarrow> 's \<Rightarrow> ('b \<times> 's) res option"
    and tr :: "'b \<Rightarrow> 's \<Rightarrow> nat list \<times> 'b \<times> 's"
    and rel :: "nat list \<Rightarrow> 's \<Rightarrow> 's"
    and content :: "'s \<Rightarrow> 'b \<Rightarrow> byte list"
    and chn :: "'s \<Rightarrow> nat list \<Rightarrow> byte list"
    and owned :: "'b \<Rightarrow> nat set"
    and cell :: "'s \<Rightarrow> nat \<Rightarrow> 'c"
    and inv :: "'s \<Rightarrow> nat set \<Rightarrow> bool"
    and binv :: "'s \<Rightarrow> 'b \<Rightarrow> bool"
  assumes app_ok: "inv s live \<Longrightarrow> binv s b \<Longrightarrow> owned b \<subseteq> live \<Longrightarrow>
      \<exists>b' s'. app bs b s = Some (Inr (b', s')) \<and> inv s' (live \<union> owned b') \<and> binv s' b' \<and>
        content s' b' = content s b @ bs \<and> owned b \<subseteq> owned b' \<and> (owned b' - owned b) \<inter> live = {} \<and>
        (\<forall>a \<in> live - owned b. cell s' a = cell s a)"
    and tr_ok: "inv s live \<Longrightarrow> binv s b \<Longrightarrow> tr b s = (as, b', s') \<Longrightarrow>
      inv s' live \<and> binv s' b' \<and> chn s' as = content s b \<and> content s' b' = [] \<and>
      set as \<union> owned b' = owned b \<and> set as \<inter> owned b' = {} \<and> distinct as \<and> cell s' = cell s"
    and rel_ok: "inv s live \<Longrightarrow> set as \<subseteq> live \<Longrightarrow> distinct as \<Longrightarrow>
      inv (rel as s) (live - set as) \<and> cell (rel as s) = cell s"
    and chn_frame: "(\<And>a. a \<in> set as \<Longrightarrow> cell s' a = cell s a) \<Longrightarrow> chn s' as = chn s as"
    and buf_frame: "(\<And>a. a \<in> owned b \<Longrightarrow> cell s' a = cell s a) \<Longrightarrow>
      content s' b = content s b \<and> binv s' b = binv s b"
begin

text \<open>
  A client is a buffer and the chain it has in flight. A family of clients is well formed when no
  segment is held twice: not by two clients, and not by a client's buffer and its chain.
\<close>

definition held :: "('i \<Rightarrow> 'b \<times> nat list) \<Rightarrow> 'i \<Rightarrow> nat set" where
  "held cl i = owned (fst (cl i)) \<union> set (snd (cl i))"

definition wf :: "'s \<Rightarrow> ('i \<Rightarrow> 'b \<times> nat list) \<Rightarrow> nat set \<Rightarrow> bool" where
  "wf s cl live \<longleftrightarrow> inv s live \<and>
     (\<forall>i. binv s (fst (cl i)) \<and> held cl i \<subseteq> live \<and> distinct (snd (cl i)) \<and>
          owned (fst (cl i)) \<inter> set (snd (cl i)) = {}) \<and>
     (\<forall>i j. i \<noteq> j \<longrightarrow> held cl i \<inter> held cl j = {})"

definition same :: "'s \<Rightarrow> 's \<Rightarrow> 'b \<times> nat list \<Rightarrow> bool" where
  "same s s' c \<longleftrightarrow> content s' (fst c) = content s (fst c) \<and> chn s' (snd c) = chn s (snd c) \<and>
     (\<forall>a \<in> set (snd c). cell s' a = cell s a)"

lemma same_frame:
  assumes "\<And>a. a \<in> owned (fst c) \<union> set (snd c) \<Longrightarrow> cell s' a = cell s a"
  shows "same s s' c" "binv s' (fst c) = binv s (fst c)"
  using chn_frame [of "snd c" s' s] buf_frame [of "fst c" s' s] assms by (auto simp: same_def)

lemma wf_update:
  assumes "wf s cl live" "inv s' live'" "binv s' b" "owned b \<union> set as \<subseteq> live'" "distinct as"
    and "owned b \<inter> set as = {}" and "(owned b \<union> set as) - held cl i \<subseteq> - live"
    and "live - held cl i \<subseteq> live'" and "\<And>a. a \<in> live - held cl i \<Longrightarrow> cell s' a = cell s a"
  shows "wf s' (cl(i := (b, as))) live' \<and> (\<forall>j. j \<noteq> i \<longrightarrow> same s s' (cl j))"
proof -
  have out: "held cl j \<subseteq> live - held cl i" if "j \<noteq> i" for j
    using assms(1) that unfolding wf_def by blast
  then have cells: "cell s' a = cell s a" if "j \<noteq> i" "a \<in> owned (fst (cl j)) \<union> set (snd (cl j))" for j a
    using that assms(9) by (auto simp: held_def)
  have old: "binv s (fst (cl j))" "distinct (snd (cl j))" "owned (fst (cl j)) \<inter> set (snd (cl j)) = {}" for j
    using assms(1) by (auto simp: wf_def)
  have keep: "same s s' (cl j)" "binv s' (fst (cl j))" if "j \<noteq> i" for j
    using same_frame [OF cells [OF that]] old(1) by auto
  have hd: "held (cl(i := (b, as))) j = (if j = i then owned b \<union> set as else held cl j)" for j
    by (simp add: held_def)
  have "held cl j \<inter> held cl k = {}" if "j \<noteq> k" for j k
    using assms(1) that unfolding wf_def by blast
  moreover have "(owned b \<union> set as) \<inter> held cl j = {}" if "j \<noteq> i" for j
    using out [OF that] assms(7) by blast
  moreover have "held cl j \<subseteq> live'" if "j \<noteq> i" for j
    using out [OF that] assms(8) by blast
  ultimately show ?thesis
    using assms(2-6) keep old by (auto simp: wf_def hd)
qed

lemma wf_append:
  assumes "wf s cl live"
  shows "\<exists>b' s' live'. app bs (fst (cl i)) s = Some (Inr (b', s')) \<and> wf s' (cl(i := (b', snd (cl i)))) live' \<and>
    content s' b' = content s (fst (cl i)) @ bs \<and> chn s' (snd (cl i)) = chn s (snd (cl i)) \<and>
    (\<forall>a \<in> set (snd (cl i)). cell s' a = cell s a) \<and> (\<forall>j. j \<noteq> i \<longrightarrow> same s s' (cl j))"
proof -
  let ?b = "fst (cl i)" and ?as = "snd (cl i)"
  have c: "inv s live" "binv s ?b" "owned ?b \<subseteq> live" "set ?as \<subseteq> live" "distinct ?as" "owned ?b \<inter> set ?as = {}"
    using assms by (auto simp: wf_def held_def)
  obtain b' s' where ap: "app bs ?b s = Some (Inr (b', s'))" "inv s' (live \<union> owned b')" "binv s' b'"
      "content s' b' = content s ?b @ bs" "owned ?b \<subseteq> owned b'" "(owned b' - owned ?b) \<inter> live = {}"
      "\<forall>a \<in> live - owned ?b. cell s' a = cell s a"
    using app_ok [OF c(1-3)] by blast
  have "owned b' \<inter> set ?as = {}" using ap(6) c(4,6) by blast
  then have "wf s' (cl(i := (b', ?as))) (live \<union> owned b') \<and> (\<forall>j. j \<noteq> i \<longrightarrow> same s s' (cl j))"
    using ap c by (intro wf_update [OF assms]) (auto simp: held_def)
  moreover have "\<forall>a \<in> set ?as. cell s' a = cell s a" using ap(7) c(4,6) by blast
  moreover from this have "chn s' ?as = chn s ?as" by (intro chn_frame) blast
  ultimately show ?thesis using ap(1,4) by blast
qed

lemma wf_transfer:
  assumes "wf s cl live" "snd (cl i) = []" "tr (fst (cl i)) s = (as, b', s')"
  shows "wf s' (cl(i := (b', as))) live \<and> chn s' as = content s (fst (cl i)) \<and> content s' b' = [] \<and>
    (\<forall>j. j \<noteq> i \<longrightarrow> same s s' (cl j))"
proof -
  have c: "inv s live" "binv s (fst (cl i))" "owned (fst (cl i)) \<subseteq> live"
    using assms by (auto simp: wf_def held_def)
  note t = tr_ok [OF c(1,2) assms(3)]
  have "wf s' (cl(i := (b', as))) live \<and> (\<forall>j. j \<noteq> i \<longrightarrow> same s s' (cl j))"
    using t c assms(2) by (intro wf_update [OF assms(1)]) (auto simp: held_def)
  then show ?thesis using t by blast
qed

lemma wf_release:
  assumes "wf s cl live"
  shows "wf (rel (snd (cl i)) s) (cl(i := (fst (cl i), []))) (live - set (snd (cl i))) \<and>
    (\<forall>c. same s (rel (snd (cl i)) s) c)"
proof -
  have c: "inv s live" "binv s (fst (cl i))" "owned (fst (cl i)) \<subseteq> live" "set (snd (cl i)) \<subseteq> live"
      "distinct (snd (cl i))" "owned (fst (cl i)) \<inter> set (snd (cl i)) = {}"
    using assms by (auto simp: wf_def held_def)
  note r = rel_ok [OF c(1,4,5)]
  have "binv (rel (snd (cl i)) s) (fst (cl i))"
    using same_frame(2) [of "cl i" "rel (snd (cl i)) s" s] r c(2) by simp
  then have "wf (rel (snd (cl i)) s) (cl(i := (fst (cl i), []))) (live - set (snd (cl i)))"
    using r c by (intro wf_update [OF assms, THEN conjunct1]) (auto simp: held_def)
  moreover have "same s (rel (snd (cl i)) s) c" for c
    using r by (intro same_frame(1)) simp
  ultimately show ?thesis by blast
qed

end

interpretation sq: send_queue "sb_append L" "sb_transfer L" sb_release sb_content chain
    "\<lambda>b. set (sb_segs b)" st_mem "st_inv L" "sb_inv L" for L
proof (unfold_locales, goal_cases)
  case 1 then show ?case by (rule sb_append_ok)
next
  case 2 from sb_transfer_ok [OF this] show ?case by blast
next
  case 3 then show ?case by (rule sb_release_ok)
next
  case 4 then show ?case by (rule chain_frame)
next
  case (5 b s' s)
  then have "layout L s' b = layout L s b" "chain s' (sb_segs b) = chain s (sb_segs b)"
    by (intro layout_frame chain_frame; simp)+
  then show ?case by (simp add: sb_content_def sb_inv_def)
qed

end
