(* ===== verification/Tcp_Session.thy ===== *)
theory Tcp_Session
  imports Segment_Laws Modifier
begin

text \<open>
  \<^verbatim>\<open>tcp_session\<close>: one TCP connection. The members of the class are the record \<open>session\<close>; what the
  asynchronous library and the peer see of it (the read and the write that are outstanding, the bytes
  that went out) is its extension \<open>conn\<close>. boost::asio is not modelled beyond its documented
  contract: an asynchronous operation calls its handler once, a write that succeeds has sent
  all the bytes its buffers refer to at that time and one that fails a prefix of them.

  Each critical section of the class (the code between taking and releasing \<^verbatim>\<open>session_mutex_\<close> or
  \<^verbatim>\<open>send_mutex_\<close>) and each stretch between two of them is one definition; the member functions
  are their compositions. Error codes are numbers, \<open>0\<close> is success.
\<close>

section \<open>State\<close>

(* [include/wise.kernel/net/tcp/tcp_session.hpp:121-139 tcp_session] *)
record session =
  ss_open :: bool
  ss_remote_addr :: string
  ss_local_addr :: string
  ss_recving :: bool
  ss_sending :: bool
  ss_send_buffer :: seg_buffer
  ss_send_request_size :: nat
  ss_sending_segs :: "nat list"
  ss_sending_bufs :: "(nat \<times> nat) list"
  ss_last_error :: nat
  ss_destroyed :: bool

text \<open>
  Where a thread is inside the session: between two critical sections, or outside (\<open>Idle\<close>).
\<close>

datatype pc =
    Idle
  | Sending "byte list"   \<comment> \<open>in \<open>send\<close>, the socket was found open\<close>
  | Request               \<comment> \<open>about to enter \<open>request_send\<close>\<close>
  | Claimed               \<comment> \<open>set \<open>sending_\<close>, before the transfer\<close>
  | Taken                 \<comment> \<open>has the segments, before \<open>async_write\<close>\<close>
  | Released              \<comment> \<open>write handler: segments released, \<open>sending_\<close> still set\<close>
  | Recv_done bool        \<comment> \<open>read handler: the protocol has the bytes\<close>
  | Recv_failed nat       \<comment> \<open>read handler: the read failed\<close>
  | Rearm                 \<comment> \<open>read handler: about to request the next read\<close>
  | Fail nat              \<comment> \<open>about to run \<open>error(ec)\<close>\<close>
  | Fail_result           \<comment> \<open>about to run \<open>error(rc)\<close>\<close>
  | Notify nat            \<comment> \<open>closed, about to call \<open>protocol_->on_error\<close>\<close>

text \<open>
  \<open>io_read\<close> and \<open>io_write\<close> are the outstanding asynchronous operations (a write with its buffers,
  each an address and a length), \<open>wire\<close> the bytes sent, \<open>appended\<close> the bytes accepted by \<open>send\<close>,
  \<open>delivered\<close> the bytes given to the protocol, \<open>reported\<close> its \<open>on_error\<close> calls.
\<close>

record conn = session +
  io_read :: bool
  io_write :: "(nat \<times> nat) list option"
  wire :: "byte list"
  appended :: "byte list"
  write_failed :: bool
  delivered :: "byte list"
  reported :: "nat list"
  sent_lens :: "nat list"
  sock_opts :: "string list"
  begun :: bool
  pcs :: "nat \<Rightarrow> pc"

(* [src/net/tcp/tcp_session.cpp:16-21 tcp_session::tcp_session] *)
definition mk_conn :: conn where
  "mk_conn = \<lparr>ss_open = True, ss_remote_addr = [], ss_local_addr = [], ss_recving = False, ss_sending = False,
     ss_send_buffer = mk_seg_buffer, ss_send_request_size = 0, ss_sending_segs = [], ss_sending_bufs = [],
     ss_last_error = 0, ss_destroyed = False,
     io_read = False, io_write = None, wire = [], appended = [], write_failed = False, delivered = [],
     reported = [], sent_lens = [], sock_opts = [], begun = False, pcs = (\<lambda>_. Idle)\<rparr>"

section \<open>Sending\<close>

definition flat :: "seg_store \<Rightarrow> (nat \<times> nat) list \<Rightarrow> byte list" where
  "flat st bufs = concat (map (\<lambda>(a, n). take n (sg_buf (st_mem st a))) bufs)"

text \<open>The section of \<open>send\<close> under \<^verbatim>\<open>send_mutex_\<close>.\<close>

(* [src/net/tcp/tcp_session.cpp:89-93 tcp_session::send] *)
definition send_append :: "nat \<Rightarrow> byte list \<Rightarrow> conn \<Rightarrow> seg_store \<Rightarrow> (conn \<times> seg_store) res option" where
  "send_append L bs s st =
     (case sb_append L bs (ss_send_buffer s) st of
        None \<Rightarrow> None
      | Some (Inl e) \<Rightarrow> Some (Inl e)
      | Some (Inr (b, st')) \<Rightarrow> Some (Inr (s\<lparr>ss_send_buffer := b, appended := appended s @ bs\<rparr>, st')))"

text \<open>The section of \<open>request_send\<close> under \<^verbatim>\<open>session_mutex_\<close>; \<open>True\<close> when it falls through.\<close>

(* [src/net/tcp/tcp_session.cpp:228-249 tcp_session::request_send] *)
definition send_claim :: "conn \<Rightarrow> bool \<times> outcome \<times> conn" where
  "send_claim s =
     (if ss_sending s then (False, (True, success_session_already_sending), s)
      else if \<not> ss_open s then (False, (False, fail_socket_closed), s)
      else if sb_size (ss_send_buffer s) = 0 then (False, (True, success_session_no_data_to_send), s)
      else (True, (True, success), s\<lparr>ss_sending := True\<rparr>))"

(* [src/net/tcp/tcp_session.cpp:251-267 tcp_session::request_send] *)
definition send_take :: "nat \<Rightarrow> conn \<Rightarrow> seg_store \<Rightarrow> conn \<times> seg_store" where
  "send_take L s st =
     (let (as, b, st') = sb_transfer L (ss_send_buffer s) st
      in (s\<lparr>ss_sending_bufs := [], ss_sending_segs := as, ss_send_buffer := b\<rparr>, st'))"

(* [src/net/tcp/tcp_session.cpp:269-295 tcp_session::request_send] *)
definition send_write :: "seg_store \<Rightarrow> conn \<Rightarrow> conn" where
  "send_write st s =
     (let bufs = ss_sending_bufs s @ map (\<lambda>a. (a, sg_pos (st_mem st a))) (ss_sending_segs s)
      in s\<lparr>ss_sending_bufs := bufs,
           ss_send_request_size := sum_list (map (\<lambda>a. sg_pos (st_mem st a)) (ss_sending_segs s)),
           io_write := Some bufs\<rparr>)"

(* [src/net/tcp/tcp_session.cpp:226-296 tcp_session::request_send] *)
definition request_send :: "nat \<Rightarrow> conn \<Rightarrow> seg_store \<Rightarrow> outcome \<times> conn \<times> seg_store" where
  "request_send L s st =
     (let (go, rc, s1) = send_claim s
      in if go then let (s2, st2) = send_take L s1 st in ((True, success), send_write st2 s2, st2)
         else (rc, s1, st))"

(* [src/net/tcp/tcp_session.cpp:85-96 tcp_session::send] *)
definition ss_send :: "nat \<Rightarrow> byte list \<Rightarrow> conn \<Rightarrow> seg_store \<Rightarrow> (outcome \<times> conn \<times> seg_store) res option" where
  "ss_send L bs s st =
     (if \<not> ss_open s then Some (Inr ((False, fail_socket_closed), s, st))
      else case send_append L bs s st of
             None \<Rightarrow> None
           | Some (Inl e) \<Rightarrow> Some (Inl e)
           | Some (Inr (s1, st1)) \<Rightarrow> Some (Inr (request_send L s1 st1)))"

text \<open>
  The write handler: the section that releases the segments (the handler is called, so the write
  is no longer outstanding and \<open>len\<close> bytes are on the wire), then the one that clears
  \<^verbatim>\<open>sending_\<close>. The error code only decides whether the protocol hears of it.
\<close>

(* [src/net/tcp/tcp_session.cpp:348-365 tcp_session::on_send_completed] *)
definition sent_release :: "nat \<Rightarrow> nat \<Rightarrow> conn \<Rightarrow> seg_store \<Rightarrow> conn \<times> seg_store" where
  "sent_release ec len s st =
     (let bufs = (case io_write s of Some bufs \<Rightarrow> bufs | None \<Rightarrow> [])
      in (s\<lparr>io_write := None, wire := wire s @ take len (flat st bufs),
            write_failed := (write_failed s \<or> ec \<noteq> 0),
            sent_lens := (if ec = 0 then sent_lens s @ [len] else sent_lens s),
            ss_sending_segs := [], ss_sending_bufs := [], ss_send_request_size := 0\<rparr>,
          sb_release (ss_sending_segs s) st))"

(* [src/net/tcp/tcp_session.cpp:367-371 tcp_session::on_send_completed] *)
definition sent_clear :: "conn \<Rightarrow> conn" where
  "sent_clear s = s\<lparr>ss_sending := False\<rparr>"

(* [src/net/tcp/tcp_session.cpp:346-374 tcp_session::on_send_completed] *)
definition on_send_completed :: "nat \<Rightarrow> nat \<Rightarrow> nat \<Rightarrow> conn \<Rightarrow> seg_store \<Rightarrow> conn \<times> seg_store" where
  "on_send_completed L ec len s st =
     (let (s1, st1) = sent_release ec len s st in snd (request_send L (sent_clear s1) st1))"

section \<open>Closing and errors\<close>

(* [src/net/tcp/tcp_session.cpp:104-151 tcp_session::close] *)
definition ss_close :: "conn \<Rightarrow> conn" where
  "ss_close s =
     (if ss_destroyed s then s
      else let s1 = (if ss_open s then s\<lparr>ss_open := False\<rparr> else s)
           in if ss_sending s1 \<or> ss_recving s1 then s1 else s1\<lparr>ss_destroyed := True\<rparr>)"

(* [src/net/tcp/tcp_session.cpp:98-102 tcp_session::disconnect] *)
definition ss_disconnect :: "conn \<Rightarrow> conn" where
  "ss_disconnect s = ss_close s"

(* [src/net/tcp/tcp_session.cpp:158-162 tcp_session::is_busy] *)
definition is_busy :: "conn \<Rightarrow> bool" where
  "is_busy s \<longleftrightarrow> ss_sending s \<or> ss_recving s"

(* [src/net/tcp/tcp_session.cpp:166-176 tcp_session::error] *)
definition error_close :: "nat \<Rightarrow> conn \<Rightarrow> conn" where
  "error_close ec s = ss_close (s\<lparr>ss_last_error := ec\<rparr>)"

definition report :: "nat \<Rightarrow> conn \<Rightarrow> conn" where
  "report ec s = s\<lparr>reported := reported s @ [ec]\<rparr>"

(* [src/net/tcp/tcp_session.cpp:164-179 tcp_session::error] *)
definition ss_error :: "nat \<Rightarrow> conn \<Rightarrow> conn" where
  "ss_error ec s = report ec (error_close ec s)"

(* [src/net/tcp/tcp_session.cpp:181-196 tcp_session::error] *)
definition ss_error_result :: "outcome \<Rightarrow> conn \<Rightarrow> conn" where
  "ss_error_result rc s = report 59 (ss_close s)"

section \<open>Receiving\<close>

(* [src/net/tcp/tcp_session.cpp:198-224 tcp_session::request_recv] *)
definition request_recv :: "conn \<Rightarrow> outcome \<times> conn" where
  "request_recv s =
     (if ss_recving s then ((False, fail_session_already_recving), s)
      else if \<not> ss_open s then ((False, fail_socket_closed), s)
      else ((True, success), s\<lparr>ss_recving := True, io_read := True\<rparr>))"

definition recv_clear :: "conn \<Rightarrow> conn" where
  "recv_clear s = s\<lparr>ss_recving := False\<rparr>"

text \<open>
  The read handler; \<open>rc\<close> is what the protocol's \<open>on_recv\<close> returns for the bytes. When the
  protocol refuses them, \<open>error(ec)\<close> runs with the success code of the read.
\<close>

(* [src/net/tcp/tcp_session.cpp:298-344 tcp_session::on_recv_completed] *)
definition on_recv_completed :: "(byte list \<Rightarrow> bool) \<Rightarrow> nat \<Rightarrow> byte list \<Rightarrow> conn \<Rightarrow> conn" where
  "on_recv_completed proto ec bs s0 =
     (let s = s0\<lparr>io_read := False\<rparr>
      in if ec = 0 then
           let rc = proto bs;
               s1 = recv_clear (s\<lparr>delivered := delivered s @ bs\<rparr>)
           in if rc then
                let (rc2, s2) = request_recv s1
                in if fst rc2 then s2 else ss_error_result rc2 s2
              else ss_error ec s1
         else ss_error ec (recv_clear s))"

(* [include/wise.kernel/net/tcp/tcp_node.hpp:28-34 tcp_node::config] *)
record tcp_config =
  set_tcp_no_delay :: bool
  set_tcp_linger :: bool
  set_tcp_reuse_addr :: bool
  max_session_count :: nat

text \<open>
  \<open>remote\<close> and \<open>local\<close> are the formatted endpoints of the socket; asking a closed socket for them throws.
\<close>

(* [src/net/tcp/tcp_session.cpp:23-74 tcp_session::begin] *)
definition ss_begin :: "tcp_config \<Rightarrow> string \<Rightarrow> string \<Rightarrow> conn \<Rightarrow> conn res" where
  "ss_begin cfg remote local s =
     (if \<not> ss_open s then Inl (Throw ''remote_endpoint'')
      else Inr (snd (request_recv
             (s\<lparr>ss_remote_addr := remote, ss_local_addr := local, begun := True,
                sock_opts := sock_opts s @
                  (if set_tcp_no_delay cfg then [''no_delay''] else []) @
                  (if set_tcp_linger cfg then [''linger''] else []) @
                  (if set_tcp_reuse_addr cfg then [''reuse_address''] else [])\<rparr>))))"

end
