(* ===== verification/Tcp_Streams.thy ===== *)
theory Tcp_Streams
  imports Tcp_Session
begin

text \<open>
  Any number of sessions, each entered by any number of threads at once, over the one static segment
  pool. A step is one critical section of one thread (or a completion of an asynchronous
  operation); the interleaving is arbitrary. The theory shows that no session loses, reorders or
  mixes up bytes, that no bytes are left waiting in an idle session, and that a session reports
  at most one error to its protocol.
\<close>

section \<open>Steps\<close>

definition goto :: "nat \<Rightarrow> pc \<Rightarrow> conn \<Rightarrow> conn" where
  "goto t p s = s\<lparr>pcs := (pcs s)(t := p)\<rparr>"

inductive conn_step :: "nat \<Rightarrow> conn \<times> seg_store \<Rightarrow> conn \<times> seg_store \<Rightarrow> bool" for L where
  Send: "pcs s t = Idle \<Longrightarrow> ss_open s \<Longrightarrow> conn_step L (s, st) (goto t (Sending bs) s, st)"
| Append: "pcs s t = Sending bs \<Longrightarrow> send_append L bs s st = Some (Inr (s', st')) \<Longrightarrow>
    conn_step L (s, st) (goto t Request s', st')"
| Claim: "pcs s t = Request \<Longrightarrow> send_claim s = (go, rc, s') \<Longrightarrow>
    conn_step L (s, st) (goto t (if go then Claimed else Idle) s', st)"
| Take: "pcs s t = Claimed \<Longrightarrow> send_take L s st = (s', st') \<Longrightarrow>
    conn_step L (s, st) (goto t Taken s', st')"
| Write: "pcs s t = Taken \<Longrightarrow> conn_step L (s, st) (goto t Idle (send_write st s), st)"
| Written: "pcs s t = Idle \<Longrightarrow> io_write s = Some bufs \<Longrightarrow> len \<le> length (flat st bufs) \<Longrightarrow>
    (ec = 0 \<Longrightarrow> len = length (flat st bufs)) \<Longrightarrow> sent_release ec len s st = (s', st') \<Longrightarrow>
    conn_step L (s, st) (goto t Released s', st')"
| Clear: "pcs s t = Released \<Longrightarrow> conn_step L (s, st) (goto t Request (sent_clear s), st)"
| Begin: "pcs s t = Idle \<Longrightarrow> \<not> begun s \<Longrightarrow> ss_begin cfg ra la s = Inr s' \<Longrightarrow> conn_step L (s, st) (s', st)"
| Read: "pcs s t = Idle \<Longrightarrow> io_read s \<Longrightarrow> bs \<noteq> [] \<Longrightarrow>
    conn_step L (s, st) (goto t (Recv_done rc) (s\<lparr>io_read := False, delivered := delivered s @ bs\<rparr>), st)"
| Read_failed: "pcs s t = Idle \<Longrightarrow> io_read s \<Longrightarrow> ec \<noteq> 0 \<Longrightarrow>
    conn_step L (s, st) (goto t (Recv_failed ec) (s\<lparr>io_read := False\<rparr>), st)"
| Accepted: "pcs s t = Recv_done rc \<Longrightarrow>
    conn_step L (s, st) (goto t (if rc then Rearm else Fail 0) (recv_clear s), st)"
| Broken: "pcs s t = Recv_failed ec \<Longrightarrow> conn_step L (s, st) (goto t (Fail ec) (recv_clear s), st)"
| Rearm: "pcs s t = Rearm \<Longrightarrow> request_recv s = (rc, s') \<Longrightarrow>
    conn_step L (s, st) (goto t (if fst rc then Idle else Fail_result) s', st)"
| Fail: "pcs s t = Fail ec \<Longrightarrow> conn_step L (s, st) (goto t (Notify ec) (error_close ec s), st)"
| Fail_result: "pcs s t = Fail_result \<Longrightarrow> conn_step L (s, st) (goto t (Notify 59) (ss_close s), st)"
| Notify: "pcs s t = Notify ec \<Longrightarrow> conn_step L (s, st) (goto t Idle (report ec s), st)"
| Disconnect: "pcs s t = Idle \<Longrightarrow> conn_step L (s, st) (ss_disconnect s, st)"

record tcp_sys =
  sys_conn :: "nat \<Rightarrow> conn"
  sys_store :: seg_store

inductive tcp_reach :: "nat \<Rightarrow> (nat \<Rightarrow> nat \<Rightarrow> byte) \<Rightarrow> tcp_sys \<Rightarrow> bool" for L raw where
  Start: "tcp_reach L raw \<lparr>sys_conn = (\<lambda>_. mk_conn), sys_store = mk_store L raw\<rparr>"
| Step: "tcp_reach L raw w \<Longrightarrow> conn_step L (sys_conn w i, sys_store w) (s', st') \<Longrightarrow>
    tcp_reach L raw \<lparr>sys_conn = (sys_conn w)(i := s'), sys_store = st'\<rparr>"

lemma goto_sel [simp]:
  "pcs (goto t p s) = (pcs s)(t := p)" "ss_open (goto t p s) = ss_open s" "ss_recving (goto t p s) = ss_recving s"
  "ss_sending (goto t p s) = ss_sending s" "ss_send_buffer (goto t p s) = ss_send_buffer s"
  "ss_sending_segs (goto t p s) = ss_sending_segs s" "ss_sending_bufs (goto t p s) = ss_sending_bufs s"
  "io_read (goto t p s) = io_read s" "io_write (goto t p s) = io_write s" "wire (goto t p s) = wire s"
  "appended (goto t p s) = appended s" "write_failed (goto t p s) = write_failed s"
  "reported (goto t p s) = reported s" "begun (goto t p s) = begun s" "ss_destroyed (goto t p s) = ss_destroyed s"
  by (simp_all add: goto_def)

section \<open>One error at most\<close>

text \<open>
  The read chain: from \<open>begin\<close> on, either a read is outstanding, or exactly one thread is in its handler,
  or the one report has been made.
\<close>

fun in_recv :: "pc \<Rightarrow> bool" where
  "in_recv (Recv_done _) = True"
| "in_recv (Recv_failed _) = True"
| "in_recv Rearm = True"
| "in_recv (Fail _) = True"
| "in_recv Fail_result = True"
| "in_recv (Notify _) = True"
| "in_recv _ = False"

fun recv_holds :: "pc \<Rightarrow> bool" where
  "recv_holds (Recv_done _) = True"
| "recv_holds (Recv_failed _) = True"
| "recv_holds _ = False"

definition recv_inv :: "conn \<Rightarrow> bool" where
  "recv_inv s \<longleftrightarrow>
     (\<forall>t u. in_recv (pcs s t) \<and> in_recv (pcs s u) \<longrightarrow> t = u) \<and>
     (io_read s \<longrightarrow> (\<forall>t. \<not> in_recv (pcs s t)) \<and> begun s \<and> reported s = []) \<and>
     ((\<exists>t. in_recv (pcs s t)) \<longrightarrow> begun s \<and> reported s = []) \<and>
     (ss_recving s \<longrightarrow> io_read s \<or> (\<exists>t. recv_holds (pcs s t))) \<and>
     (\<not> begun s \<longrightarrow> reported s = []) \<and> length (reported s) \<le> 1"

lemma ss_close_sel [simp]:
  "pcs (ss_close s) = pcs s" "io_read (ss_close s) = io_read s" "begun (ss_close s) = begun s"
  "reported (ss_close s) = reported s" "ss_recving (ss_close s) = ss_recving s"
  "ss_sending (ss_close s) = ss_sending s" "ss_send_buffer (ss_close s) = ss_send_buffer s"
  "ss_sending_segs (ss_close s) = ss_sending_segs s" "ss_sending_bufs (ss_close s) = ss_sending_bufs s"
  "io_write (ss_close s) = io_write s" "wire (ss_close s) = wire s" "appended (ss_close s) = appended s"
  "write_failed (ss_close s) = write_failed s" "ss_open (ss_close s) = (ss_open s \<and> ss_destroyed s)"
  by (simp_all add: ss_close_def Let_def)

lemma recv_inv_start: "recv_inv mk_conn"
  by (simp add: recv_inv_def mk_conn_def)

lemma recv_inv_goto:
  assumes "recv_inv s" "in_recv (pcs s t) = in_recv p" "recv_holds (pcs s t) \<longrightarrow> recv_holds p"
    and "pcs s' = (pcs s)(t := p)" "io_read s' = io_read s" "begun s' = begun s" "reported s' = reported s"
    and "ss_recving s' = ss_recving s"
  shows "recv_inv s'"
  using assms unfolding recv_inv_def by (auto simp: fun_upd_apply split: if_splits)

lemma recv_inv_same:
  assumes "recv_inv s" "pcs s' = pcs s" "io_read s' = io_read s" "begun s' = begun s"
    "reported s' = reported s" "ss_recving s' = ss_recving s"
  shows "recv_inv s'"
  using assms by (simp add: recv_inv_def)

lemma recv_inv_holder:
  assumes "recv_inv s" "in_recv (pcs s t)"
  shows "u \<noteq> t \<Longrightarrow> \<not> in_recv (pcs s u)" "\<not> io_read s" "begun s" "reported s = []"
    and "ss_recving s \<Longrightarrow> recv_holds (pcs s t)"
proof -
  from assms show *: "u \<noteq> t \<Longrightarrow> \<not> in_recv (pcs s u)" "\<not> io_read s" "begun s" "reported s = []" for u
    unfolding recv_inv_def by blast+
  assume "ss_recving s"
  then obtain u where u: "recv_holds (pcs s u)" using assms(1) *(2) unfolding recv_inv_def by blast
  then have "in_recv (pcs s u)" by (cases "pcs s u") simp_all
  then show "recv_holds (pcs s t)" using *(1) u by metis
qed

lemma recv_inv_alone:
  assumes "\<And>u. u \<noteq> t \<Longrightarrow> \<not> in_recv (pcs s u)" "in_recv (pcs s t) \<longrightarrow> \<not> io_read s \<and> begun s \<and> reported s = []"
    and "io_read s \<longrightarrow> begun s \<and> reported s = []" "ss_recving s \<longrightarrow> io_read s \<or> recv_holds (pcs s t)"
    and "\<not> begun s \<longrightarrow> reported s = []" "length (reported s) \<le> 1"
  shows "recv_inv s"
  using assms unfolding recv_inv_def by metis

lemma recv_inv_step:
  assumes "conn_step L (s, st) (s', st')" "recv_inv s"
  shows "recv_inv s'"
  using assms
proof (cases rule: conn_step.cases)
  case (Append t bs s1)
  then show ?thesis using assms(2)
    by - (rule recv_inv_goto [of s t Request]; auto simp: send_append_def split: option.splits sum.splits)
next
  case (Claim t go rc s1)
  then show ?thesis using assms(2)
    by - (rule recv_inv_goto [of s t "if go then Claimed else Idle"]; auto simp: send_claim_def split: if_splits)
next
  case (Take t s1)
  then show ?thesis using assms(2)
    by - (rule recv_inv_goto [of s t Taken]; auto simp: send_take_def split: prod.splits)
next
  case (Written t bufs len ec s1)
  then show ?thesis using assms(2)
    by - (rule recv_inv_goto [of s t Released]; auto simp: sent_release_def Let_def)
next
  case (Begin t cfg ra la)
  then have "\<not> io_read s" "\<not> in_recv (pcs s u)" "\<not> ss_recving s" "reported s = []" for u
    using assms(2) by (auto simp: recv_inv_def) (metis in_recv.simps recv_holds.elims(2))
  then show ?thesis using Begin
    by (auto simp: ss_begin_def request_recv_def recv_inv_def split: if_splits)
next
  case (Read t bs rc)
  then show ?thesis using assms(2) by (auto simp: recv_inv_def fun_upd_apply split: if_splits)
next
  case (Read_failed t ec)
  then show ?thesis using assms(2) by (auto simp: recv_inv_def fun_upd_apply split: if_splits)
next
  case (Accepted t rc)
  then show ?thesis using recv_inv_holder [OF assms(2), of t]
    by - (rule recv_inv_alone [of t]; auto simp: recv_clear_def split: if_splits)
next
  case (Broken t ec)
  then show ?thesis using recv_inv_holder [OF assms(2), of t]
    by - (rule recv_inv_alone [of t]; auto simp: recv_clear_def split: if_splits)
next
  case (Rearm t rc s1)
  then show ?thesis using recv_inv_holder [OF assms(2), of t]
    by - (rule recv_inv_alone [of t]; auto simp: request_recv_def split: if_splits)
next
  case (Notify t ec)
  then show ?thesis using recv_inv_holder [OF assms(2), of t]
    by - (rule recv_inv_alone [of t]; auto simp: report_def split: if_splits)
next
  case (Disconnect t)
  then show ?thesis using assms(2) by (auto simp: ss_disconnect_def intro: recv_inv_same)
next
  case (Send t bs)
  then show ?thesis using assms(2) by - (rule recv_inv_goto [where t = t]; auto)
next
  case (Write t)
  then show ?thesis using assms(2) by - (rule recv_inv_goto [where t = t]; auto simp: send_write_def Let_def)
next
  case (Clear t)
  then show ?thesis using assms(2) by - (rule recv_inv_goto [where t = t]; auto simp: sent_clear_def)
next
  case (Fail t ec)
  then show ?thesis using assms(2) by - (rule recv_inv_goto [where t = t]; auto simp: error_close_def)
next
  case (Fail_result t)
  then show ?thesis using assms(2) by - (rule recv_inv_goto [where t = t]; auto)
qed

section \<open>Bytes in order\<close>

fun in_send :: "pc \<Rightarrow> bool" where
  "in_send Claimed = True"
| "in_send Taken = True"
| "in_send Released = True"
| "in_send _ = False"

definition send_inv :: "seg_store \<Rightarrow> conn \<Rightarrow> bool" where
  "send_inv st s \<longleftrightarrow>
     (\<forall>t u. in_send (pcs s t) \<and> in_send (pcs s u) \<longrightarrow> t = u) \<and>
     ((\<exists>t. in_send (pcs s t)) \<longrightarrow> ss_sending s \<and> io_write s = None) \<and>
     (ss_sending s \<longleftrightarrow> io_write s \<noteq> None \<or> (\<exists>t. in_send (pcs s t))) \<and>
     (ss_sending_segs s \<noteq> [] \<longrightarrow> io_write s \<noteq> None \<or> (\<exists>t. pcs s t = Taken)) \<and>
     (\<forall>t. pcs s t = Taken \<longrightarrow> ss_sending_bufs s = []) \<and>
     (\<forall>bufs. io_write s = Some bufs \<longrightarrow>
        bufs = map (\<lambda>a. (a, sg_pos (st_mem st a))) (ss_sending_segs s)) \<and>
     (\<not> write_failed s \<longrightarrow>
        wire s @ chain st (ss_sending_segs s) @ sb_content st (ss_send_buffer s) = appended s) \<and>
     (sb_content st (ss_send_buffer s) \<noteq> [] \<and> ss_open s \<longrightarrow> ss_sending s \<or> (\<exists>t. pcs s t = Request))"

definition clients :: "(nat \<Rightarrow> conn) \<Rightarrow> nat \<Rightarrow> seg_buffer \<times> nat list" where
  "clients cs i = (ss_send_buffer (cs i), ss_sending_segs (cs i))"

lemma clients_upd: "clients (cs(i := s)) = (clients cs)(i := (ss_send_buffer s, ss_sending_segs s))"
  by (auto simp: clients_def fun_eq_iff)

lemma clients_same:
  "ss_send_buffer s = ss_send_buffer (cs i) \<Longrightarrow> ss_sending_segs s = ss_sending_segs (cs i) \<Longrightarrow>
   clients (cs(i := s)) = clients cs"
  by (auto simp: clients_def fun_eq_iff)

lemma flat_segs: "flat st (map (\<lambda>a. (a, sg_pos (st_mem st a))) as) = chain st as"
  by (simp add: flat_def chain_def seg_bytes_def comp_def)

lemma send_inv_start: "send_inv st mk_conn"
  by (simp add: send_inv_def mk_conn_def sb_content_def mk_seg_buffer_def)

lemma send_inv_frame:
  assumes "sq.same st st' (ss_send_buffer s, ss_sending_segs s)" "send_inv st s"
  shows "send_inv st' s"
proof -
  have eqs: "map (\<lambda>a. (a, sg_pos (st_mem st' a))) (ss_sending_segs s) = map (\<lambda>a. (a, sg_pos (st_mem st a))) (ss_sending_segs s)"
    "sb_content st' (ss_send_buffer s) = sb_content st (ss_send_buffer s)"
    "chain st' (ss_sending_segs s) = chain st (ss_sending_segs s)"
    using assms(1) by (simp_all add: sq.same_def)
  show ?thesis using assms(2) unfolding send_inv_def eqs .
qed

lemma send_inv_cong:
  assumes inv: "send_inv st s"
    and pc: "\<And>u. in_send (pcs s' u) = in_send (pcs s u)" "\<And>u. (pcs s' u = Taken) = (pcs s u = Taken)"
    and eqs: "ss_sending s' = ss_sending s" "io_write s' = io_write s" "ss_sending_segs s' = ss_sending_segs s"
      "ss_sending_bufs s' = ss_sending_bufs s"
      "map (\<lambda>a. (a, sg_pos (st_mem st' a))) (ss_sending_segs s) = map (\<lambda>a. (a, sg_pos (st_mem st a))) (ss_sending_segs s)"
    and stream: "\<not> write_failed s' \<longrightarrow>
        wire s' @ chain st' (ss_sending_segs s) @ sb_content st' (ss_send_buffer s') = appended s'"
    and wake: "sb_content st' (ss_send_buffer s') \<noteq> [] \<and> ss_open s' \<longrightarrow> ss_sending s \<or> (\<exists>t. pcs s' t = Request)"
  shows "send_inv st' s'"
  using inv stream wake unfolding send_inv_def pc eqs by (intro conjI) (elim conjE, assumption)+

lemma send_inv_quiet:
  assumes "send_inv st s" "pcs s' = (pcs s)(t := p)"
    and "\<not> in_send p" "p \<noteq> Request" "\<not> in_send (pcs s t)" "pcs s t \<noteq> Request"
    and "ss_sending s' = ss_sending s" "io_write s' = io_write s" "ss_sending_segs s' = ss_sending_segs s"
    and "ss_sending_bufs s' = ss_sending_bufs s" "ss_send_buffer s' = ss_send_buffer s"
    and "wire s' = wire s" "appended s' = appended s" "write_failed s' = write_failed s"
    and "ss_open s' \<longrightarrow> ss_open s"
  shows "send_inv st s'"
proof -
  have pc: "in_send (pcs s' u) = in_send (pcs s u)" "(pcs s' u = Taken) = (pcs s u = Taken)"
      "(pcs s' u = Request) = (pcs s u = Request)" for u
    using assms(2-6) by auto
  show ?thesis
  proof (rule send_inv_cong [OF assms(1) pc(1,2) assms(7-10) refl])
    show "\<not> write_failed s' \<longrightarrow>
        wire s' @ chain st (ss_sending_segs s) @ sb_content st (ss_send_buffer s') = appended s'"
      using assms(1,11-14) by (simp add: send_inv_def)
    show "sb_content st (ss_send_buffer s') \<noteq> [] \<and> ss_open s' \<longrightarrow> ss_sending s \<or> (\<exists>t. pcs s' t = Request)"
      using assms(1,11,15) unfolding send_inv_def pc(3) by metis
  qed
qed

lemma send_inv_holder:
  assumes "send_inv st s" "in_send (pcs s t)"
  shows "u \<noteq> t \<Longrightarrow> \<not> in_send (pcs s u)" "ss_sending s" "io_write s = None"
    and "pcs s t \<noteq> Taken \<Longrightarrow> ss_sending_segs s = []"
proof -
  from assms show *: "u \<noteq> t \<Longrightarrow> \<not> in_send (pcs s u)" "ss_sending s" "io_write s = None" for u
    unfolding send_inv_def by blast+
  assume "pcs s t \<noteq> Taken"
  then have "\<forall>u. pcs s u \<noteq> Taken" using *(1) by (metis in_send.simps(2))
  then show "ss_sending_segs s = []" using assms(1) *(3) unfolding send_inv_def by blast
qed

text \<open>A state in which at most the thread \<open>t\<close> is in the send path.\<close>

lemma send_inv_alone:
  assumes "\<And>u. u \<noteq> t \<Longrightarrow> \<not> in_send (pcs s u)"
    and "in_send (pcs s t) \<longrightarrow> io_write s = None"
    and "ss_sending s \<longleftrightarrow> io_write s \<noteq> None \<or> in_send (pcs s t)"
    and "ss_sending_segs s \<noteq> [] \<longrightarrow> io_write s \<noteq> None \<or> pcs s t = Taken"
    and "pcs s t = Taken \<longrightarrow> ss_sending_bufs s = []"
    and "\<And>bufs. io_write s = Some bufs \<Longrightarrow> bufs = map (\<lambda>a. (a, sg_pos (st_mem st a))) (ss_sending_segs s)"
    and "\<not> write_failed s \<longrightarrow>
        wire s @ chain st (ss_sending_segs s) @ sb_content st (ss_send_buffer s) = appended s"
    and "sb_content st (ss_send_buffer s) \<noteq> [] \<and> ss_open s \<longrightarrow> ss_sending s \<or> (\<exists>t. pcs s t = Request)"
  shows "send_inv st s"
  unfolding send_inv_def
proof (intro conjI)
  show "\<forall>v u. in_send (pcs s v) \<and> in_send (pcs s u) \<longrightarrow> v = u" using assms(1) by metis
  show "(\<exists>t. in_send (pcs s t)) \<longrightarrow> ss_sending s \<and> io_write s = None" using assms(1-3) by metis
  show "ss_sending s \<longleftrightarrow> io_write s \<noteq> None \<or> (\<exists>t. in_send (pcs s t))" using assms(1,3) by metis
  show "ss_sending_segs s \<noteq> [] \<longrightarrow> io_write s \<noteq> None \<or> (\<exists>t. pcs s t = Taken)" using assms(4) by metis
  show "\<forall>t. pcs s t = Taken \<longrightarrow> ss_sending_bufs s = []" using assms(1,5) by (metis in_send.simps(2))
  show "\<forall>bufs. io_write s = Some bufs \<longrightarrow>
      bufs = map (\<lambda>a. (a, sg_pos (st_mem st a))) (ss_sending_segs s)" using assms(6) by blast
qed (use assms(7,8) in blast)+

text \<open>What a step of session \<open>i\<close> has to keep: the segments stay apart, its own invariant, the bytes of the others.\<close>

definition kept :: "nat \<Rightarrow> (nat \<Rightarrow> conn) \<Rightarrow> nat \<Rightarrow> seg_store \<Rightarrow> conn \<Rightarrow> seg_store \<Rightarrow> bool" where
  "kept L cs i st s' st' \<longleftrightarrow> (\<exists>live. sq.wf L st' (clients (cs(i := s'))) live) \<and> send_inv st' s' \<and>
     (\<forall>j. j \<noteq> i \<longrightarrow> sq.same st st' (clients cs j))"

lemma kept_local:
  assumes "sq.wf L st (clients cs) live" "send_inv st s'"
    and "ss_send_buffer s' = ss_send_buffer (cs i)" "ss_sending_segs s' = ss_sending_segs (cs i)"
  shows "kept L cs i st s' st"
proof -
  have "clients (cs(i := s')) = clients cs" using assms(3,4) by (rule clients_same)
  then show ?thesis using assms(1,2) by (auto simp: kept_def sq.same_def)
qed

lemma kept_append:
  assumes "sq.wf L st (clients cs) live" "send_inv st (cs i)"
    and "pcs (cs i) t = Sending bs" "send_append L bs (cs i) st = Some (Inr (s', st'))"
  shows "kept L cs i st (goto t Request s') st'"
proof -
  let ?s = "cs i"
  obtain b' st1 live' where ap: "sb_append L bs (ss_send_buffer ?s) st = Some (Inr (b', st1))"
      "sq.wf L st1 ((clients cs)(i := (b', ss_sending_segs ?s))) live'"
      "sb_content st1 b' = sb_content st (ss_send_buffer ?s) @ bs"
      "chain st1 (ss_sending_segs ?s) = chain st (ss_sending_segs ?s)"
      "\<forall>a \<in> set (ss_sending_segs ?s). st_mem st1 a = st_mem st a"
      "\<forall>j. j \<noteq> i \<longrightarrow> sq.same st st1 (clients cs j)"
    using sq.wf_append [OF assms(1), of bs i] by (auto simp: clients_def)
  have s': "s' = ?s\<lparr>ss_send_buffer := b', appended := appended ?s @ bs\<rparr>" "st' = st1"
    using assms(4) ap(1) by (auto simp: send_append_def)
  have eqs: "map (\<lambda>a. (a, sg_pos (st_mem st1 a))) (ss_sending_segs ?s) = map (\<lambda>a. (a, sg_pos (st_mem st a))) (ss_sending_segs ?s)"
    using ap(5) by simp
  have pc: "in_send (((pcs ?s)(t := Request)) u) = in_send (pcs ?s u)"
    "(((pcs ?s)(t := Request)) u = Taken) = (pcs ?s u = Taken)" for u
    using assms(3) by auto
  have "send_inv st1 (goto t Request s')"
  proof (rule send_inv_cong [OF assms(2)])
    show "\<not> write_failed (goto t Request s') \<longrightarrow> wire (goto t Request s') @ chain st1 (ss_sending_segs ?s) @
        sb_content st1 (ss_send_buffer (goto t Request s')) = appended (goto t Request s')"
      using assms(2) by (auto simp: send_inv_def s' ap(3,4))
    have "pcs (goto t Request s') t = Request" by simp
    then show "sb_content st1 (ss_send_buffer (goto t Request s')) \<noteq> [] \<and> ss_open (goto t Request s') \<longrightarrow>
        ss_sending ?s \<or> (\<exists>t'. pcs (goto t Request s') t' = Request)" by blast
  qed (use pc eqs in \<open>simp_all add: s'\<close>)
  then show ?thesis using ap(2,6) by (auto simp: kept_def clients_upd s')
qed

lemma kept_claim:
  assumes "sq.wf L st (clients cs) live" "send_inv st (cs i)"
    and "pcs (cs i) t = Request" "send_claim (cs i) = (go, rc, s')"
  shows "kept L cs i st (goto t (if go then Claimed else Idle) s') st"
proof -
  let ?s = "cs i"
  have size: "sb_size (ss_send_buffer ?s) = 0 \<longleftrightarrow> sb_content st (ss_send_buffer ?s) = []"
    using assms(1) by (intro sb_content_size [of L st live]) (auto simp: sq.wf_def clients_def)
  have "send_inv st (goto t (if go then Claimed else Idle) s')"
  proof (cases go)
    case True
    then have c: "\<not> ss_sending ?s" "s' = ?s\<lparr>ss_sending := True\<rparr>"
      using assms(4) by (auto simp: send_claim_def split: if_splits)
    then have "\<And>u. \<not> in_send (pcs ?s u)" "io_write ?s = None" "ss_sending_segs ?s = []"
      using assms(2) unfolding send_inv_def by (blast, blast, metis in_send.simps(2))
    then show ?thesis using True c assms(2)
      by (intro send_inv_alone [of t]) (auto simp: send_inv_def)
  next
    case False
    then have c: "s' = ?s" "ss_sending ?s \<or> \<not> ss_open ?s \<or> sb_content st (ss_send_buffer ?s) = []"
      using assms(4) size by (auto simp: send_claim_def split: if_splits)
    have pc: "in_send (((pcs ?s)(t := Idle)) u) = in_send (pcs ?s u)"
      "(((pcs ?s)(t := Idle)) u = Taken) = (pcs ?s u = Taken)" for u
      using assms(3) by auto
    show ?thesis
    proof (rule send_inv_cong [OF assms(2)])
      show "\<not> write_failed (goto t (if go then Claimed else Idle) s') \<longrightarrow>
          wire (goto t (if go then Claimed else Idle) s') @ chain st (ss_sending_segs ?s) @
          sb_content st (ss_send_buffer (goto t (if go then Claimed else Idle) s')) =
          appended (goto t (if go then Claimed else Idle) s')"
        using assms(2) by (simp add: send_inv_def c(1))
    qed (use pc c False in auto)
  qed
  moreover have "ss_send_buffer s' = ss_send_buffer ?s" "ss_sending_segs s' = ss_sending_segs ?s"
    using assms(4) by (auto simp: send_claim_def split: if_splits)
  ultimately show ?thesis using assms(1) by (intro kept_local) simp_all
qed

lemma kept_take:
  assumes "sq.wf L st (clients cs) live" "send_inv st (cs i)"
    and "pcs (cs i) t = Claimed" "send_take L (cs i) st = (s', st')"
  shows "kept L cs i st (goto t Taken s') st'"
proof -
  let ?s = "cs i"
  have h: "\<And>u. u \<noteq> t \<Longrightarrow> \<not> in_send (pcs ?s u)" "ss_sending ?s" "io_write ?s = None" "ss_sending_segs ?s = []"
    using send_inv_holder [OF assms(2), of t] assms(3) by auto
  obtain as b st1 where tr: "sb_transfer L (ss_send_buffer ?s) st = (as, b, st1)" by (rule prod_cases3)
  have s': "s' = ?s\<lparr>ss_sending_bufs := [], ss_sending_segs := as, ss_send_buffer := b\<rparr>" "st' = st1"
    using assms(4) tr by (auto simp: send_take_def)
  have "sq.wf L st1 ((clients cs)(i := (b, as))) live \<and> chain st1 as = sb_content st (ss_send_buffer ?s) \<and>
      sb_content st1 b = [] \<and> (\<forall>j. j \<noteq> i \<longrightarrow> sq.same st st1 (clients cs j))"
    using sq.wf_transfer [OF assms(1), of i as b st1] tr h(4) by (simp add: clients_def)
  moreover have "\<not> write_failed ?s \<longrightarrow> wire ?s @ sb_content st (ss_send_buffer ?s) = appended ?s"
    using assms(2) h(4) by (simp add: send_inv_def)
  ultimately show ?thesis
    using h by (auto simp: kept_def clients_upd s' intro!: send_inv_alone [of t])
qed

lemma kept_write:
  assumes "sq.wf L st (clients cs) live" "send_inv st (cs i)" "pcs (cs i) t = Taken"
  shows "kept L cs i st (goto t Idle (send_write st (cs i))) st"
proof -
  let ?s = "cs i"
  have h: "\<And>u. u \<noteq> t \<Longrightarrow> \<not> in_send (pcs ?s u)" "ss_sending ?s" "io_write ?s = None"
    using send_inv_holder [OF assms(2), of t] assms(3) by auto
  have "ss_sending_bufs ?s = []" using assms(2,3) unfolding send_inv_def by blast
  moreover have "\<not> write_failed ?s \<longrightarrow>
      wire ?s @ chain st (ss_sending_segs ?s) @ sb_content st (ss_send_buffer ?s) = appended ?s"
    using assms(2) by (simp add: send_inv_def)
  ultimately have "send_inv st (goto t Idle (send_write st ?s))"
    using h by (intro send_inv_alone [of t]) (auto simp: send_write_def Let_def)
  then show ?thesis using assms(1) by (intro kept_local) (simp_all add: send_write_def Let_def)
qed

lemma kept_written:
  assumes "sq.wf L st (clients cs) live" "send_inv st (cs i)"
    and "pcs (cs i) t = Idle" "io_write (cs i) = Some bufs" "ec = 0 \<Longrightarrow> len = length (flat st bufs)"
    and "sent_release ec len (cs i) st = (s', st')"
  shows "kept L cs i st (goto t Released s') st'"
proof -
  let ?s = "cs i"
  have "bufs = map (\<lambda>a. (a, sg_pos (st_mem st a))) (ss_sending_segs ?s)" "ss_sending ?s"
      "\<And>u. \<not> in_send (pcs ?s u)"
    using assms(2,4) unfolding send_inv_def by (blast, blast, metis option.distinct(1))
  note c = this(2,3) flat_segs [of st "ss_sending_segs ?s", folded this(1)]
  have rel: "sq.wf L st' ((clients cs)(i := (ss_send_buffer ?s, []))) (live - set (ss_sending_segs ?s))"
      "\<And>c. sq.same st st' c"
    using sq.wf_release [OF assms(1), of i] assms(6) by (auto simp: sent_release_def clients_def Let_def)
  have "sb_content st' (ss_send_buffer ?s) = sb_content st (ss_send_buffer ?s)"
    using rel(2) [of "(ss_send_buffer ?s, [])"] by (simp add: sq.same_def)
  moreover have "\<not> write_failed ?s \<longrightarrow>
      wire ?s @ chain st (ss_sending_segs ?s) @ sb_content st (ss_send_buffer ?s) = appended ?s"
    using assms(2) by (simp add: send_inv_def)
  ultimately have "send_inv st' (goto t Released s')"
    using c assms(4,5,6) by (intro send_inv_alone [of t]) (auto simp: sent_release_def)
  moreover have "ss_send_buffer s' = ss_send_buffer ?s" "ss_sending_segs s' = []"
    using assms(6) by (auto simp: sent_release_def)
  ultimately show ?thesis using rel by (auto simp: kept_def clients_upd)
qed

lemma kept_clear:
  assumes "sq.wf L st (clients cs) live" "send_inv st (cs i)" "pcs (cs i) t = Released"
  shows "kept L cs i st (goto t Request (sent_clear (cs i))) st"
proof -
  let ?s = "cs i"
  have h: "\<And>u. u \<noteq> t \<Longrightarrow> \<not> in_send (pcs ?s u)" "ss_sending ?s" "io_write ?s = None" "ss_sending_segs ?s = []"
    using send_inv_holder [OF assms(2), of t] assms(3) by auto
  have "\<not> write_failed ?s \<longrightarrow>
      wire ?s @ chain st (ss_sending_segs ?s) @ sb_content st (ss_send_buffer ?s) = appended ?s"
    using assms(2) by (simp add: send_inv_def)
  then have "send_inv st (goto t Request (sent_clear ?s))"
    using h by (intro send_inv_alone [of t]) (auto simp: sent_clear_def)
  then show ?thesis using assms(1) by (intro kept_local) (simp_all add: sent_clear_def)
qed

lemma kept_quiet:
  assumes "sq.wf L st (clients cs) live" "send_inv st (cs i)" "pcs s' = (pcs (cs i))(t := p)"
    and "\<not> in_send p" "p \<noteq> Request" "\<not> in_send (pcs (cs i) t)" "pcs (cs i) t \<noteq> Request"
    and "ss_sending s' = ss_sending (cs i)" "io_write s' = io_write (cs i)" "ss_sending_segs s' = ss_sending_segs (cs i)"
    and "ss_sending_bufs s' = ss_sending_bufs (cs i)" "ss_send_buffer s' = ss_send_buffer (cs i)"
    and "wire s' = wire (cs i)" "appended s' = appended (cs i)" "write_failed s' = write_failed (cs i)"
    and "ss_open s' \<longrightarrow> ss_open (cs i)"
  shows "kept L cs i st s' st"
  using kept_local [OF assms(1) send_inv_quiet [OF assms(2-)]] assms by blast

lemma kept_step:
  assumes "conn_step L (cs i, st) (s', st')" "sq.wf L st (clients cs) live" "send_inv st (cs i)"
  shows "kept L cs i st s' st'"
  using assms(1)
proof (cases rule: conn_step.cases)
  case (Append t bs s1)
  then show ?thesis using kept_append [OF assms(2,3)] by simp
next
  case (Claim t go rc s1)
  then show ?thesis using kept_claim [OF assms(2,3)] by simp
next
  case (Take t s1)
  then show ?thesis using kept_take [OF assms(2,3)] by simp
next
  case (Write t)
  then show ?thesis using kept_write [OF assms(2,3)] by simp
next
  case (Written t bufs len ec s1)
  show ?thesis unfolding Written(1)
    by (rule kept_written [OF assms(2,3) Written(2,3) _ Written(6)]) (rule Written(5))
next
  case (Clear t)
  then show ?thesis using kept_clear [OF assms(2,3)] by simp
next
  case (Send t bs)
  then show ?thesis by (simp only:) (rule kept_quiet [OF assms(2,3), of _ t "Sending bs"]; simp)
next
  case (Begin t cfg ra la)
  then have "kept L cs i st s' st"
    by (intro kept_quiet [OF assms(2,3), of _ t Idle])
       (auto simp: ss_begin_def request_recv_def fun_upd_idem split: if_splits)
  then show ?thesis using Begin by simp
next
  case (Read t bs rc)
  then show ?thesis by (simp only:) (rule kept_quiet [OF assms(2,3), of _ t "Recv_done rc"]; simp)
next
  case (Read_failed t ec)
  then show ?thesis by (simp only:) (rule kept_quiet [OF assms(2,3), of _ t "Recv_failed ec"]; simp)
next
  case (Accepted t rc)
  then show ?thesis
    by (simp only:) (rule kept_quiet [OF assms(2,3), of _ t "if rc then Rearm else Fail 0"]; simp add: recv_clear_def)
next
  case (Broken t ec)
  then show ?thesis by (simp only:) (rule kept_quiet [OF assms(2,3), of _ t "Fail ec"]; simp add: recv_clear_def)
next
  case (Rearm t rc s1)
  then have "kept L cs i st s' st"
    by (intro kept_quiet [OF assms(2,3), of _ t "if fst rc then Idle else Fail_result"])
       (auto simp: request_recv_def split: if_splits)
  then show ?thesis using Rearm by simp
next
  case (Fail t ec)
  then show ?thesis by (simp only:) (rule kept_quiet [OF assms(2,3), of _ t "Notify ec"]; simp add: error_close_def)
next
  case (Fail_result t)
  then show ?thesis by (simp only:) (rule kept_quiet [OF assms(2,3), of _ t "Notify 59"]; simp)
next
  case (Notify t ec)
  then show ?thesis by (simp only:) (rule kept_quiet [OF assms(2,3), of _ t Idle]; simp add: report_def)
next
  case (Disconnect t)
  then show ?thesis
    by (simp only:) (rule kept_quiet [OF assms(2,3), of _ t Idle]; simp add: ss_disconnect_def fun_upd_idem)
qed

definition tcp_inv :: "nat \<Rightarrow> tcp_sys \<Rightarrow> bool" where
  "tcp_inv L w \<longleftrightarrow> (\<exists>live. sq.wf L (sys_store w) (clients (sys_conn w)) live) \<and>
     (\<forall>i. send_inv (sys_store w) (sys_conn w i) \<and> recv_inv (sys_conn w i))"

lemma tcp_reach_inv:
  assumes "tcp_reach L raw w" "0 < L"
  shows "tcp_inv L w"
  using assms(1)
proof induction
  case Start
  have "sq.wf L (mk_store L raw) (clients (\<lambda>_. mk_conn)) {}"
    using assms(2) by (simp add: sq.wf_def sq.held_def clients_def mk_conn_def mk_store_inv mk_seg_buffer_inv)
       (simp add: mk_seg_buffer_def)
  then show ?case by (auto simp: tcp_inv_def send_inv_start recv_inv_start)
next
  case (Step w i s' st')
  then have i: "send_inv (sys_store w) (sys_conn w j)" "recv_inv (sys_conn w j)" for j
    by (simp_all add: tcp_inv_def)
  obtain live where "sq.wf L (sys_store w) (clients (sys_conn w)) live"
    using Step.IH by (auto simp: tcp_inv_def)
  then have k: "kept L (sys_conn w) i (sys_store w) s' st'"
    using kept_step Step.hyps(2) i(1) by blast
  then have "send_inv st' (sys_conn w j)" if "j \<noteq> i" for j
    using that i(1) send_inv_frame [of "sys_store w" st' "sys_conn w j"] by (simp add: kept_def clients_def)
  moreover have "recv_inv s'" using recv_inv_step Step.hyps(2) i(2) by blast
  ultimately show ?case using k i(2) by (auto simp: tcp_inv_def kept_def)
qed

section \<open>Runs\<close>

text \<open>The system \<open>w\<close> with session \<open>i\<close> and the store replaced.\<close>

definition at_conn :: "nat \<Rightarrow> tcp_sys \<Rightarrow> conn \<Rightarrow> seg_store \<Rightarrow> tcp_sys" where
  "at_conn i w s st = \<lparr>sys_conn = (sys_conn w)(i := s), sys_store = st\<rparr>"

lemma at_conn_sel [simp]: "sys_conn (at_conn i w s st) i = s" "sys_store (at_conn i w s st) = st"
  by (simp_all add: at_conn_def)

lemma at_conn_self: "at_conn i w (sys_conn w i) (sys_store w) = w"
  by (simp add: at_conn_def)

lemma at_conn_step:
  "tcp_reach L raw (at_conn i w s st) \<Longrightarrow> conn_step L (s, st) (s', st') \<Longrightarrow> tcp_reach L raw (at_conn i w s' st')"
  using tcp_reach.Step [of L raw "at_conn i w s st" i s' st'] by (simp add: at_conn_def)

lemma goto_goto [simp]: "goto t p (goto t q s) = goto t p s"
  by (simp add: goto_def)

lemma goto_idle: "pcs s t = p \<Longrightarrow> goto t p s = s"
  by (simp add: goto_def fun_upd_idem)

text \<open>A thread that sends to an idle open session gets a write going.\<close>

lemma send_starts_write:
  assumes "0 < L" "tcp_reach L raw w" "\<forall>t. pcs (sys_conn w i) t = Idle" "io_write (sys_conn w i) = None"
    and "ss_open (sys_conn w i)" "bs \<noteq> []"
  shows "\<exists>b as bufs n st. sb_content st b = [] \<and> tcp_reach L raw (at_conn i w
     ((sys_conn w i)\<lparr>appended := appended (sys_conn w i) @ bs, ss_sending := True, ss_sending_segs := as,
        ss_send_buffer := b, ss_sending_bufs := bufs, ss_send_request_size := n, io_write := Some bufs\<rparr>) st)"
proof -
  let ?c = "sys_conn w i" and ?st = "sys_store w"
  let ?R = "\<lambda>s st. tcp_reach L raw (at_conn i w s st)"
  have inv: "send_inv ?st ?c" and "\<exists>live. sq.wf L ?st (clients (sys_conn w)) live"
    using tcp_reach_inv [OF assms(2,1)] by (simp_all add: tcp_inv_def)
  then obtain live where wf: "sq.wf L ?st (clients (sys_conn w)) live" by blast
  have idle: "\<not> ss_sending ?c" using inv assms(3,4) by (simp add: send_inv_def)
  obtain b1 st1 live1 where ap: "sb_append L bs (ss_send_buffer ?c) ?st = Some (Inr (b1, st1))"
      "sq.wf L st1 ((clients (sys_conn w))(i := (b1, ss_sending_segs ?c))) live1"
      "sb_content st1 b1 = sb_content ?st (ss_send_buffer ?c) @ bs"
    using sq.wf_append [OF wf, of bs i] by (auto simp: clients_def)
  have ok: "st_inv L st1 live1" "sb_inv L st1 b1"
    using ap(2) unfolding sq.wf_def by (auto dest: spec [of _ i])
  then have sz: "sb_size b1 \<noteq> 0" using sb_content_size ap(3) assms(6) by auto
  obtain as b2 st2 where tr: "sb_transfer L b1 st1 = (as, b2, st2)" by (rule prod_cases3)
  have empty: "sb_content st2 b2 = []" using sb_transfer_ok [OF ok tr] by blast
  define s1 where "s1 = ?c\<lparr>ss_send_buffer := b1, appended := appended ?c @ bs\<rparr>"
  define s2 where "s2 = s1\<lparr>ss_sending := True\<rparr>"
  define s3 where "s3 = s2\<lparr>ss_sending_bufs := [], ss_sending_segs := as, ss_send_buffer := b2\<rparr>"
  have "?R ?c ?st" using assms(2) by (simp add: at_conn_self)
  then have "?R (goto 0 (Sending bs) ?c) ?st"
    by (rule at_conn_step) (rule conn_step.Send; simp add: assms)
  then have "?R (goto 0 Request (goto 0 (Sending bs) s1)) st1"
    by (rule at_conn_step) (rule conn_step.Append [of _ _ bs]; simp add: send_append_def ap(1) s1_def goto_def)
  then have "?R (goto 0 (if True then Claimed else Idle) (goto 0 Request s2)) st1"
    by (rule at_conn_step)
       (rule conn_step.Claim [where rc = "(True, success)"];
        use idle sz assms(5) in \<open>simp add: send_claim_def goto_def s2_def s1_def\<close>)
  then have "?R (goto 0 Claimed s2) st1" by simp
  then have "?R (goto 0 Taken (goto 0 Claimed s3)) st2"
    by (rule at_conn_step) (rule conn_step.Take; simp add: send_take_def tr goto_def s3_def s2_def s1_def)
  then have "?R (goto 0 Taken s3) st2" by simp
  then have "?R (goto 0 Idle (send_write st2 (goto 0 Taken s3))) st2"
    by (rule at_conn_step) (rule conn_step.Write; simp)
  moreover have "\<exists>bufs n. goto 0 Idle (send_write st2 (goto 0 Taken s3)) =
      ?c\<lparr>appended := appended ?c @ bs, ss_sending := True, ss_sending_segs := as, ss_send_buffer := b2,
         ss_sending_bufs := bufs, ss_send_request_size := n, io_write := Some bufs\<rparr>"
    unfolding send_write_def Let_def goto_def s3_def s2_def s1_def
    by (intro exI) (use assms(3) in \<open>simp add: fun_upd_idem\<close>)
  ultimately show ?thesis using empty by metis
qed

text \<open>A successful completion of the outstanding write of an otherwise idle session leaves it idle, or writing again.\<close>

lemma write_completes:
  assumes "0 < L" "tcp_reach L raw w" "\<forall>t. pcs (sys_conn w i) t = Idle" "io_write (sys_conn w i) = Some bufs"
    and "ss_open (sys_conn w i)" "sb_content (sys_store w) (ss_send_buffer (sys_conn w i)) = []"
  shows "\<exists>s st. tcp_reach L raw (at_conn i w s st) \<and> pcs s = pcs (sys_conn w i) \<and> io_write s = None \<and>
     ss_open s \<and> appended s = appended (sys_conn w i) \<and> write_failed s = write_failed (sys_conn w i)"
proof -
  let ?c = "sys_conn w i" and ?st = "sys_store w"
  let ?R = "\<lambda>s st. tcp_reach L raw (at_conn i w s st)"
  obtain live where wf: "sq.wf L ?st (clients (sys_conn w)) live"
    using tcp_reach_inv [OF assms(2,1)] by (auto simp: tcp_inv_def)
  obtain s1 st1 where rl: "sent_release 0 (length (flat ?st bufs)) ?c ?st = (s1, st1)"
    by (cases "sent_release 0 (length (flat ?st bufs)) ?c ?st")
  define s2 where "s2 = sent_clear s1"
  have "st_inv L ?st live" "sb_inv L ?st (ss_send_buffer ?c)"
    using wf unfolding sq.wf_def by (auto dest: spec [of _ i] simp: clients_def)
  then have sz: "sb_size (ss_send_buffer ?c) = 0" using sb_content_size assms(6) by blast
  have "?R ?c ?st" using assms(2) by (simp add: at_conn_self)
  then have "?R (goto 0 Released s1) st1"
    by (rule at_conn_step) (rule conn_step.Written [OF _ assms(4) _ _ rl]; use assms(3) in simp)
  then have "?R (goto 0 Request (sent_clear (goto 0 Released s1))) st1"
    by (rule at_conn_step) (rule conn_step.Clear; simp)
  then have "?R (goto 0 Request s2) st1"
    by (simp add: s2_def goto_def sent_clear_def)
  then have "?R (goto 0 (if False then Claimed else Idle) (goto 0 Request s2)) st1"
    by (rule at_conn_step)
       (rule conn_step.Claim [where rc = "(True, success_session_no_data_to_send)"];
        use rl sz assms(5) in \<open>auto simp: send_claim_def goto_def s2_def sent_clear_def sent_release_def\<close>)
  then have "?R (goto 0 Idle s2) st1" by simp
  moreover have "pcs s2 = pcs ?c" "io_write s2 = None" "ss_open s2" "appended s2 = appended ?c"
      "write_failed s2 = write_failed ?c"
    using rl assms(5) by (auto simp: s2_def sent_clear_def sent_release_def)
  ultimately show ?thesis using assms(3) by (intro exI [of _ s2] exI [of _ st1]) (simp add: goto_idle)
qed

lemma sample_run:
  "\<exists>w. tcp_reach 32768 raw w \<and> (\<forall>t. pcs (sys_conn w 7) t = Idle) \<and> io_write (sys_conn w 7) = None \<and>
     ss_open (sys_conn w 7) \<and> \<not> write_failed (sys_conn w 7) \<and> appended (sys_conn w 7) = [1, 2, 3]"
proof -
  let ?w0 = "\<lparr>sys_conn = (\<lambda>_. mk_conn), sys_store = mk_store 32768 raw\<rparr>"
  have r0: "tcp_reach 32768 raw ?w0" by (rule tcp_reach.Start)
  obtain b as bufs n st where empty: "sb_content st b = []" and r1: "tcp_reach 32768 raw (at_conn 7 ?w0
     (mk_conn\<lparr>appended := [1, 2, 3], ss_sending := True, ss_sending_segs := as, ss_send_buffer := b,
        ss_sending_bufs := bufs, ss_send_request_size := n, io_write := Some bufs\<rparr>) st)" (is "tcp_reach _ _ ?w1")
    using send_starts_write [OF _ r0, of 7 "[1, 2, 3]"] by (auto simp: mk_conn_def)
  obtain s' st' where "tcp_reach 32768 raw (at_conn 7 ?w1 s' st') \<and> pcs s' = pcs (sys_conn ?w1 7) \<and>
      io_write s' = None \<and> ss_open s' \<and> appended s' = appended (sys_conn ?w1 7) \<and>
      write_failed s' = write_failed (sys_conn ?w1 7)"
    using write_completes [OF _ r1, of 7 bufs] empty by (auto simp: mk_conn_def)
  then show ?thesis by (intro exI [of _ "at_conn 7 ?w1 s' st'"]) (simp add: mk_conn_def)
qed

section \<open>Properties\<close>

text \<open>
  C3. In every interleaving of any number of threads and sessions over the shared segment pool, and as
  long as no write of the session has failed, what went out on the wire, what is in flight and
  what is queued are together exactly the bytes \<open>send\<close> accepted, in order: nothing is lost,
  duplicated or reordered, and nothing of another session slips in. The bytes the outstanding
  write will send are still those in flight.
\<close>

theorem tcp_stream_in_order:
  assumes "0 < L" "tcp_reach L raw w" "\<not> write_failed (sys_conn w i)"
  shows "wire (sys_conn w i) @ chain (sys_store w) (ss_sending_segs (sys_conn w i)) @
      sb_content (sys_store w) (ss_send_buffer (sys_conn w i)) = appended (sys_conn w i) \<and>
    (\<forall>bufs. io_write (sys_conn w i) = Some bufs \<longrightarrow>
      flat (sys_store w) bufs = chain (sys_store w) (ss_sending_segs (sys_conn w i)))"
proof -
  have "send_inv (sys_store w) (sys_conn w i)"
    using tcp_reach_inv [OF assms(2,1)] by (simp add: tcp_inv_def)
  then show ?thesis using assms(3) flat_segs unfolding send_inv_def by metis
qed

theorem tcp_stream_in_order_witness:
  "\<exists>w. tcp_reach 32768 (\<lambda>_ _. 0) w \<and> appended (sys_conn w 7) = [1, 2, 3] \<and>
     wire (sys_conn w 7) @ chain (sys_store w) (ss_sending_segs (sys_conn w 7)) @
       sb_content (sys_store w) (ss_send_buffer (sys_conn w 7)) = [1, 2, 3]"
proof -
  obtain w where w: "tcp_reach 32768 (\<lambda>_ _. 0) w" "\<not> write_failed (sys_conn w 7)" "appended (sys_conn w 7) = [1, 2, 3]"
    using sample_run by blast
  have L: "0 < (32768::nat)" by simp
  from tcp_stream_in_order [OF L w(1,2)] w(1,3) show ?thesis by auto
qed

text \<open>
  C4. No wake-up is lost: whenever no thread is inside an open session and no write is outstanding,
  its send buffer is empty; with no failed write, every byte \<open>send\<close> accepted is on the wire.
\<close>

theorem tcp_idle_session_drained:
  assumes "0 < L" "tcp_reach L raw w" "\<forall>t. pcs (sys_conn w i) t = Idle" "io_write (sys_conn w i) = None"
    and "ss_open (sys_conn w i)"
  shows "sb_content (sys_store w) (ss_send_buffer (sys_conn w i)) = [] \<and>
    (\<not> write_failed (sys_conn w i) \<longrightarrow> wire (sys_conn w i) = appended (sys_conn w i))"
proof -
  let ?s = "sys_conn w i"
  have inv: "send_inv (sys_store w) ?s"
    using tcp_reach_inv [OF assms(2,1)] by (simp add: tcp_inv_def)
  then have "\<not> ss_sending ?s" "ss_sending_segs ?s = []"
    using assms(3,4) by (auto simp: send_inv_def)
  with inv assms(3,5) show ?thesis by (auto simp: send_inv_def)
qed

theorem tcp_idle_session_drained_witness:
  "\<exists>w. tcp_reach 32768 (\<lambda>_ _. 0) w \<and> wire (sys_conn w 7) = [1, 2, 3]"
proof -
  obtain w where w: "tcp_reach 32768 (\<lambda>_ _. 0) w" "\<forall>t. pcs (sys_conn w 7) t = Idle" "io_write (sys_conn w 7) = None"
      "ss_open (sys_conn w 7)" "\<not> write_failed (sys_conn w 7)" "appended (sys_conn w 7) = [1, 2, 3]"
    using sample_run by blast
  have L: "0 < (32768::nat)" by simp
  from tcp_idle_session_drained [OF L w(1-4)] w(1,5,6) show ?thesis by auto
qed

text \<open>
  C5. A session calls its protocol's \<open>on_error\<close> at most once, whatever reads fail, whatever the
  protocol refuses and whoever disconnects: a protocol is removed from its node at most once.
\<close>

theorem tcp_error_reported_once:
  assumes "0 < L" "tcp_reach L raw w"
  shows "length (reported (sys_conn w i)) \<le> 1"
  using tcp_reach_inv [OF assms(2,1)] by (simp add: tcp_inv_def recv_inv_def)

text \<open>A read error of a session that is writing.\<close>

lemma read_error_while_writing:
  "\<exists>w. tcp_reach 32768 raw w \<and> reported (sys_conn w 7) = [104] \<and> io_write (sys_conn w 7) \<noteq> None \<and>
     ss_sending (sys_conn w 7) \<and> \<not> ss_destroyed (sys_conn w 7) \<and> \<not> ss_open (sys_conn w 7)"
proof -
  let ?w0 = "\<lparr>sys_conn = (\<lambda>_. mk_conn), sys_store = mk_store 32768 raw\<rparr>"
  let ?cfg = "\<lparr>set_tcp_no_delay = False, set_tcp_linger = False, set_tcp_reuse_addr = False, max_session_count = 5000\<rparr>"
  let ?c0 = "mk_conn\<lparr>begun := True, ss_recving := True, io_read := True\<rparr>"
  have "tcp_reach 32768 raw (at_conn 7 ?w0 mk_conn (mk_store 32768 raw))"
    using tcp_reach.Start [of 32768 raw] by (simp add: at_conn_def fun_upd_idem)
  then have r0: "tcp_reach 32768 raw (at_conn 7 ?w0 ?c0 (mk_store 32768 raw))" (is "tcp_reach _ _ ?w1")
    by (rule at_conn_step)
       (rule conn_step.Begin [where t = 0 and cfg = ?cfg and ra = "[]" and la = "[]"];
        simp add: ss_begin_def request_recv_def mk_conn_def)
  obtain b as bufs n st where r1: "tcp_reach 32768 raw (at_conn 7 ?w1
     (?c0\<lparr>appended := [1], ss_sending := True, ss_sending_segs := as, ss_send_buffer := b,
        ss_sending_bufs := bufs, ss_send_request_size := n, io_write := Some bufs\<rparr>) st)" (is "tcp_reach _ _ (at_conn _ _ ?c1 _)")
    using send_starts_write [OF _ r0, of 7 "[1]"] by (auto simp: mk_conn_def)
  let ?R = "\<lambda>s. tcp_reach 32768 raw (at_conn 7 ?w1 s st)"
  from r1 have "?R (goto 0 (Recv_failed 104) (?c1\<lparr>io_read := False\<rparr>))"
    by (rule at_conn_step) (rule conn_step.Read_failed; simp add: mk_conn_def)
  then have "?R (goto 0 (Fail 104) (recv_clear (goto 0 (Recv_failed 104) (?c1\<lparr>io_read := False\<rparr>))))"
    by (rule at_conn_step) (rule conn_step.Broken; simp)
  then have "?R (goto 0 (Notify 104) (error_close 104 (goto 0 (Fail 104) (recv_clear (goto 0 (Recv_failed 104) (?c1\<lparr>io_read := False\<rparr>))))))"
    by (rule at_conn_step) (rule conn_step.Fail; simp)
  then have "?R (goto 0 Idle (report 104 (goto 0 (Notify 104) (error_close 104 (goto 0 (Fail 104) (recv_clear
      (goto 0 (Recv_failed 104) (?c1\<lparr>io_read := False\<rparr>))))))))"
    by (rule at_conn_step) (rule conn_step.Notify; simp)
  then show ?thesis
    by (intro exI conjI) (assumption, simp_all add: report_def error_close_def ss_close_def recv_clear_def mk_conn_def Let_def goto_def)
qed

theorem tcp_error_reported_once_witness:
  "\<exists>w. tcp_reach 32768 (\<lambda>_ _. 0) w \<and> length (reported (sys_conn w 7)) = 1"
proof -
  obtain w where w: "tcp_reach 32768 (\<lambda>_ _. 0) w" "reported (sys_conn w 7) = [104]"
    using read_error_while_writing by blast
  have L: "0 < (32768::nat)" by simp
  from tcp_error_reported_once [OF L w(1), of 7] w show ?thesis by auto
qed

text \<open>
  The error path does not wait for the write: a session can have reported its error (its node has then removed
  the protocol, which owns the session) while its write is outstanding, with the handler still to
  run on the session and \<open>destroyed_\<close> never set.
\<close>

theorem tcp_removed_while_writing:
  "\<exists>w. tcp_reach 32768 raw w \<and> reported (sys_conn w 7) \<noteq> [] \<and> io_write (sys_conn w 7) \<noteq> None \<and>
     is_busy (sys_conn w 7) \<and> \<not> ss_destroyed (sys_conn w 7)"
  using read_error_while_writing [of raw] by (auto simp: is_busy_def)

end
