(* ===== verification/Slot_Vector.thy ===== *)
theory Slot_Vector
  imports Prelude
begin

text \<open>
  \<^verbatim>\<open>slot_vector\<close>: the table of the protocols of a node. An id packs a 16-bit sequence number of
  its slot and the index of the slot; a slot that is freed keeps its sequence number, so an old id
  of a reused slot does not resolve. A \<^verbatim>\<open>shared_ptr\<close> is an option: \<open>None\<close> is the null pointer.
\<close>

section \<open>Ids\<close>

text \<open>The union of a 32-bit value and the pair (sequence, index), sequence in the low half.\<close>

(* [include/wise.kernel/net/util/slot_vector.hpp:217-223 slot_id::slot_id] *)
definition slot_id :: "u16 \<Rightarrow> u16 \<Rightarrow> u32" where
  "slot_id sq ix = word_of_nat (unat sq + 65536 * unat ix)"

(* [include/wise.kernel/net/util/slot_vector.hpp:237-241 slot_id::get_seq] *)
definition get_seq :: "u32 \<Rightarrow> u16" where
  "get_seq v = word_of_nat (unat v mod 65536)"

(* [include/wise.kernel/net/util/slot_vector.hpp:243-247 slot_id::get_index] *)
definition get_index :: "u32 \<Rightarrow> u16" where
  "get_index v = word_of_nat (unat v div 65536)"

(* [include/wise.kernel/net/util/slot_vector.hpp:225-229 slot_id::is_valid] *)
definition is_valid :: "u32 \<Rightarrow> bool" where
  "is_valid v \<longleftrightarrow> get_seq v > 0 \<and> get_index v \<ge> 0"

lemma u16_bound: "unat (w :: u16) < 65536"
  using unsigned_less [of w, where 'a = nat] by simp

lemma u32_bound: "unat (w :: u32) < 65536 * 65536"
  using unsigned_less [of w, where 'a = nat] by simp

lemma unat_slot_id: "unat (slot_id sq ix) = unat sq + 65536 * unat ix"
proof -
  have "unat sq + 65536 * unat ix < 2 ^ LENGTH(32)"
    using u16_bound [of sq] u16_bound [of ix] by simp
  then show ?thesis unfolding slot_id_def unat_of_nat by (rule mod_less)
qed

lemma slot_id_seq [simp]: "get_seq (slot_id sq ix) = sq"
  using u16_bound [of sq] by (simp add: get_seq_def unat_slot_id)

lemma slot_id_index [simp]: "get_index (slot_id sq ix) = ix"
  using u16_bound [of sq] by (simp add: get_index_def unat_slot_id)

lemma slot_id_split: "slot_id (get_seq v) (get_index v) = v"
proof -
  have "unat (get_seq v) = unat v mod 65536" "unat (get_index v) = unat v div 65536"
    using u32_bound [of v] by (simp_all add: get_seq_def get_index_def unat_of_nat less_mult_imp_div_less)
  then show ?thesis by (simp add: slot_id_def)
qed

lemma slot_id_eq_iff: "v = slot_id sq ix \<longleftrightarrow> get_seq v = sq \<and> get_index v = ix"
  using slot_id_split [of v] by auto

lemma id_eqI: "get_seq a = get_seq b \<Longrightarrow> get_index a = get_index b \<Longrightarrow> a = b"
  by (metis slot_id_split)

lemma unat_u16_eq: "unat (a :: u16) = unat b \<longleftrightarrow> a = b"
  by (metis unsigned_word_eqI)

section \<open>The vector\<close>

(* [include/wise.kernel/net/util/slot_vector.hpp:93-95 slot_vector] *)
record 'p slot_vec =
  sv_slots :: "('p option \<times> u16) list"
  sv_free :: "u16 list"
  sv_used :: nat

(* [include/wise.kernel/net/util/slot_vector.hpp:98-104 slot_vector::slot_vector] *)
definition mk_slot_vec :: "'p slot_vec" where
  "mk_slot_vec = \<lparr>sv_slots = [], sv_free = [], sv_used = 0\<rparr>"

(* [include/wise.kernel/net/util/slot_vector.hpp:187-209 get_free_slot_index] *)
definition get_free_slot_index :: "nat \<Rightarrow> 'p slot_vec \<Rightarrow> (u16 \<times> 'p slot_vec) res" where
  "get_free_slot_index max_slot v =
     (if length (sv_slots v) \<ge> max_slot then Inl (Throw ''slot_vector. slot limit reached'')
      else case sv_free v of
             [] \<Rightarrow> Inr (word_of_nat (length (sv_slots v)), v\<lparr>sv_slots := sv_slots v @ [(None, 0)]\<rparr>)
           | i # is \<Rightarrow> Inr (i, v\<lparr>sv_free := is\<rparr>))"

(* [include/wise.kernel/net/util/slot_vector.hpp:111-127 slot_vector::add] *)
definition sv_add :: "nat \<Rightarrow> 'p \<Rightarrow> 'p slot_vec \<Rightarrow> (u32 \<times> 'p slot_vec) res" where
  "sv_add max_slot p v =
     bind_res (get_free_slot_index max_slot v) (\<lambda>(i, v1).
       if length (sv_slots v1) \<le> unat i then Inl (Undef ''slots_ index'')
       else let sq = snd (sv_slots v1 ! unat i) + 1
            in Inr (slot_id sq i,
                    v1\<lparr>sv_slots := (sv_slots v1)[unat i := (Some p, sq)], sv_used := sv_used v1 + 1\<rparr>))"

(* [include/wise.kernel/net/util/slot_vector.hpp:129-142 slot_vector::get] *)
definition sv_get :: "u32 \<Rightarrow> 'p slot_vec \<Rightarrow> 'p option" where
  "sv_get h v =
     (if length (sv_slots v) \<le> unat (get_index h) then None
      else let (sp, sq) = sv_slots v ! unat (get_index h)
           in if sq \<noteq> get_seq h then None else sp)"

(* [include/wise.kernel/net/util/slot_vector.hpp:144-162 slot_vector::del] *)
definition sv_del :: "u32 \<Rightarrow> 'p slot_vec \<Rightarrow> bool \<times> 'p slot_vec" where
  "sv_del h v =
     (let i = get_index h
      in if length (sv_slots v) \<le> unat i then (False, v)
         else (True, v\<lparr>sv_slots := (sv_slots v)[unat i := (None, snd (sv_slots v ! unat i))],
                       sv_used := usub (sv_used v) 1, sv_free := sv_free v @ [i]\<rparr>))"

(* [include/wise.kernel/net/util/slot_vector.hpp:164-168 slot_vector::clear] *)
definition sv_clear :: "'p slot_vec \<Rightarrow> 'p slot_vec" where
  "sv_clear v = v\<lparr>sv_slots := []\<rparr>"

text \<open>The pointers \<open>fn\<close> is called with; their number is the result.\<close>

(* [include/wise.kernel/net/util/slot_vector.hpp:170-185 slot_vector::each] *)
definition sv_each :: "'p slot_vec \<Rightarrow> 'p list" where
  "sv_each v = [p. (Some p, _) \<leftarrow> sv_slots v]"

section \<open>Invariant\<close>

definition sv_inv :: "nat \<Rightarrow> 'p slot_vec \<Rightarrow> bool" where
  "sv_inv max_slot v \<longleftrightarrow> max_slot \<le> 65535 \<and> length (sv_slots v) \<le> max_slot \<and> distinct (sv_free v) \<and>
     (\<forall>i. i \<in> set (sv_free v) \<longleftrightarrow> unat i < length (sv_slots v) \<and> fst (sv_slots v ! unat i) = None) \<and>
     sv_used v = length (filter (\<lambda>s. fst s \<noteq> None) (sv_slots v))"

lemma mk_slot_vec_inv: "m \<le> 65535 \<Longrightarrow> sv_inv m mk_slot_vec"
  by (simp add: sv_inv_def mk_slot_vec_def)

lemma length_filter_update:
  "i < length xs \<Longrightarrow> length (filter P (xs[i := x])) + (if P (xs ! i) then 1 else 0) =
     length (filter P xs) + (if P x then 1 else 0)"
proof (induction xs arbitrary: i)
  case (Cons y ys)
  then show ?case by (cases i) auto
qed simp

lemma filter_nonempty: "i < length xs \<Longrightarrow> P (xs ! i) \<Longrightarrow> 0 < length (filter P xs)"
  by (metis filter_empty_conv length_greater_0_conv nth_mem)

lemma sv_add_cases:
  assumes "sv_inv m v" "sv_add m p v = Inr (h, v')"
  obtains (fresh) "sv_free v = []" "length (sv_slots v) < m" "h = slot_id 1 (word_of_nat (length (sv_slots v)))"
      "v' = v\<lparr>sv_slots := sv_slots v @ [(Some p, 1)], sv_used := sv_used v + 1\<rparr>"
      "unat (word_of_nat (length (sv_slots v)) :: u16) = length (sv_slots v)"
  | (reuse) i "is" where "sv_free v = i # is" "length (sv_slots v) < m" "h = slot_id (snd (sv_slots v ! unat i) + 1) i"
      "v' = v\<lparr>sv_free := is, sv_slots := (sv_slots v)[unat i := (Some p, snd (sv_slots v ! unat i) + 1)],
               sv_used := sv_used v + 1\<rparr>"
      "unat i < length (sv_slots v)" "fst (sv_slots v ! unat i) = None"
proof (cases "sv_free v")
  case Nil
  have lt: "length (sv_slots v) < m" "m \<le> 65535"
    using assms by (auto simp: sv_inv_def sv_add_def get_free_slot_index_def split: if_splits)
  then have ix: "unat (word_of_nat (length (sv_slots v)) :: u16) = length (sv_slots v)"
    by (simp add: unat_of_nat)
  show ?thesis
    using assms(2) Nil lt ix by (intro fresh) (auto simp: sv_add_def get_free_slot_index_def Let_def nth_append list_update_append split: if_splits)
next
  case (Cons i "is")
  have "length (sv_slots v) < m"
    using assms(2) by (auto simp: sv_add_def get_free_slot_index_def split: if_splits)
  moreover have "unat i < length (sv_slots v)" "fst (sv_slots v ! unat i) = None"
    using assms(1) Cons by (auto simp: sv_inv_def)
  ultimately show ?thesis
    using assms(2) Cons by (intro reuse) (auto simp: sv_add_def get_free_slot_index_def Let_def split: if_splits)
qed

lemma sv_add_inv [inv_intros]:
  assumes "sv_inv m v" "sv_add m p v = Inr (h, v')"
  shows "sv_inv m v'"
  using assms
proof (cases rule: sv_add_cases)
  case fresh
  have "unat i < Suc (length (sv_slots v)) \<Longrightarrow> unat i < length (sv_slots v) \<or> unat i = length (sv_slots v)" for i :: u16
    by auto
  with fresh assms(1) show ?thesis by (auto simp: sv_inv_def nth_append)
next
  case (reuse i "is")
  have "length (filter (\<lambda>s. fst s \<noteq> None) ((sv_slots v)[unat i := (Some p, snd (sv_slots v ! unat i) + 1)])) =
      length (filter (\<lambda>s. fst s \<noteq> None) (sv_slots v)) + 1"
    using length_filter_update [OF reuse(5), of "\<lambda>s. fst s \<noteq> None" "(Some p, snd (sv_slots v ! unat i) + 1)"] reuse(6)
    by simp
  moreover have "j \<in> set is \<longleftrightarrow> j \<noteq> i \<and> unat j < length (sv_slots v) \<and> fst (sv_slots v ! unat j) = None" for j
    using assms(1) reuse(1) unfolding sv_inv_def by (metis distinct.simps(2) set_ConsD list.set_intros)
  moreover have "m \<le> 65535" "distinct is" "sv_used v = length (filter (\<lambda>s. fst s \<noteq> None) (sv_slots v))"
    using assms(1) reuse(1) by (auto simp: sv_inv_def)
  ultimately show ?thesis
    using reuse(2,5) unfolding reuse(4) sv_inv_def by (auto simp: nth_list_update unat_u16_eq)
qed

lemma sv_add_get:
  assumes "sv_inv m v" "sv_add m p v = Inr (h, v')"
  shows "sv_get h v = None" "sv_get h' v' = (if h' = h then Some p else sv_get h' v)"
proof -
  show "sv_get h v = None"
    using assms by (cases rule: sv_add_cases) (auto simp: sv_get_def split: prod.splits)
  show "sv_get h' v' = (if h' = h then Some p else sv_get h' v)"
    using assms
  proof (cases rule: sv_add_cases)
    case fresh
    have "get_index h' = word_of_nat (length (sv_slots v)) \<longleftrightarrow> unat (get_index h') = length (sv_slots v)"
      using fresh(5) by (metis unsigned_word_eqI)
    with fresh(2,5) show ?thesis
      unfolding fresh(3,4) by (auto simp: sv_get_def slot_id_eq_iff nth_append split: prod.splits)
  next
    case (reuse i "is")
    from reuse(5,6) show ?thesis
      unfolding reuse(3,4)
      by (auto simp: sv_get_def slot_id_eq_iff nth_list_update unat_u16_eq split: prod.splits)
  qed
qed

lemma sv_del_ok:
  assumes "sv_inv m v" "sv_get h v = Some p" "sv_del h v = (r, v')"
  shows "r" "sv_inv m v'" "sv_get h' v' = (if h' = h then None else sv_get h' v)"
proof -
  let ?i = "get_index h"
  have i: "unat ?i < length (sv_slots v)" "sv_slots v ! unat ?i = (Some p, get_seq h)"
    using assms(2) by (auto simp: sv_get_def split: if_splits prod.splits)
  then have v': "r" "v' = v\<lparr>sv_slots := (sv_slots v)[unat ?i := (None, get_seq h)],
                       sv_used := usub (sv_used v) 1, sv_free := sv_free v @ [?i]\<rparr>"
    using assms(3) by (auto simp: sv_del_def Let_def)
  show "r" by (rule v'(1))
  show "sv_get h' v' = (if h' = h then None else sv_get h' v)"
    using i id_eqI [of h' h] by (auto simp: v'(2) sv_get_def nth_list_update unat_u16_eq split: prod.splits)
  have cnt: "length (filter (\<lambda>s. fst s \<noteq> None) ((sv_slots v)[unat ?i := (None, get_seq h)])) + 1 =
      length (filter (\<lambda>s. fst s \<noteq> None) (sv_slots v))"
    using length_filter_update [OF i(1), of "\<lambda>s. fst s \<noteq> None" "(None, get_seq h)"] i(2) by simp
  have "?i \<notin> set (sv_free v)" using assms(1) i(2) by (auto simp: sv_inv_def)
  moreover have "\<And>j. j \<in> set (sv_free v) \<longleftrightarrow> unat j < length (sv_slots v) \<and> fst (sv_slots v ! unat j) = None"
      "m \<le> 65535" "length (sv_slots v) \<le> m" "distinct (sv_free v)"
      "sv_used v = length (filter (\<lambda>s. fst s \<noteq> None) (sv_slots v))"
    using assms(1) unfolding sv_inv_def by blast+
  ultimately show "sv_inv m v'"
    using i(1) cnt unfolding v'(2) sv_inv_def
    by (auto simp: nth_list_update unat_u16_eq usub_def)
qed

lemma sv_add_total:
  assumes "sv_inv m v" "length (sv_slots v) < m"
  shows "\<exists>h v'. sv_add m p v = Inr (h, v')"
proof (cases "sv_free v")
  case Nil
  then have "unat (word_of_nat (length (sv_slots v)) :: u16) = length (sv_slots v)"
    using assms by (simp add: sv_inv_def unat_of_nat)
  then show ?thesis using Nil assms by (simp add: sv_add_def get_free_slot_index_def Let_def)
next
  case (Cons i "is")
  then have "unat i < length (sv_slots v)" using assms(1) by (auto simp: sv_inv_def)
  then show ?thesis using Cons assms by (simp add: sv_add_def get_free_slot_index_def Let_def)
qed

section \<open>What a client relies on\<close>

locale handle_table =
  fixes add :: "'p \<Rightarrow> 's \<Rightarrow> (u32 \<times> 's) res"
    and get :: "u32 \<Rightarrow> 's \<Rightarrow> 'p option"
    and del :: "u32 \<Rightarrow> 's \<Rightarrow> bool \<times> 's"
    and inv :: "'s \<Rightarrow> bool"
  assumes add_inv: "inv s \<Longrightarrow> add p s = Inr (h, s') \<Longrightarrow> inv s'"
    and add_new: "inv s \<Longrightarrow> add p s = Inr (h, s') \<Longrightarrow> get h s = None"
    and add_get: "inv s \<Longrightarrow> add p s = Inr (h, s') \<Longrightarrow> get h' s' = (if h' = h then Some p else get h' s)"
    and del_inv: "inv s \<Longrightarrow> get h s = Some p \<Longrightarrow> del h s = (r, s') \<Longrightarrow> inv s'"
    and del_get: "inv s \<Longrightarrow> get h s = Some p \<Longrightarrow> del h s = (r, s') \<Longrightarrow>
      get h' s' = (if h' = h then None else get h' s)"
begin

text \<open>The table is a partial map from ids to objects.\<close>

definition table :: "'s \<Rightarrow> u32 \<rightharpoonup> 'p" where
  "table s = (\<lambda>h. get h s)"

lemma add_table: "inv s \<Longrightarrow> add p s = Inr (h, s') \<Longrightarrow> h \<notin> dom (table s) \<and> table s' = (table s)(h \<mapsto> p)"
  using add_new add_get by (auto simp: table_def fun_eq_iff)

lemma del_table:
  "inv s \<Longrightarrow> h \<in> dom (table s) \<Longrightarrow> inv (snd (del h s)) \<and> table (snd (del h s)) = (table s)(h := None)"
proof -
  assume a: "inv s" "h \<in> dom (table s)"
  then obtain p where "get h s = Some p" by (auto simp: table_def)
  moreover obtain r s' where "del h s = (r, s')" by (cases "del h s")
  ultimately show ?thesis
    using del_inv [OF a(1), of h p r s'] del_get [OF a(1), of h p r s'] by (simp add: table_def fun_eq_iff)
qed

end

interpretation hv: handle_table "sv_add m" sv_get sv_del "sv_inv m" for m
proof (unfold_locales, goal_cases)
  case 1 then show ?case by (rule sv_add_inv)
next
  case 2 then show ?case by (rule sv_add_get)
next
  case 3 then show ?case by (rule sv_add_get)
next
  case 4 then show ?case by (rule sv_del_ok)
next
  case 5 then show ?case by (rule sv_del_ok)
qed

section \<open>Runs\<close>

text \<open>
  A client adds objects and deletes ids that are live; a failed \<open>add\<close> changes nothing. \<open>hist\<close> are
  the ids handed out with their objects, \<open>gone\<close> the ids deleted.
\<close>

datatype 'p sv_op = Add 'p | Del u32

fun sv_step :: "nat \<Rightarrow> 'p sv_op \<Rightarrow> 'p slot_vec \<times> (u32 \<times> 'p) list \<times> u32 list
    \<Rightarrow> 'p slot_vec \<times> (u32 \<times> 'p) list \<times> u32 list" where
  "sv_step m (Add p) (v, hist, gone) =
     (case sv_add m p v of Inl _ \<Rightarrow> (v, hist, gone) | Inr (h, v') \<Rightarrow> (v', (h, p) # hist, gone))"
| "sv_step m (Del h) (v, hist, gone) =
     (case sv_get h v of None \<Rightarrow> (v, hist, gone) | Some _ \<Rightarrow> (snd (sv_del h v), hist, h # gone))"

definition sv_run :: "nat \<Rightarrow> 'p sv_op list \<Rightarrow> 'p slot_vec \<times> (u32 \<times> 'p) list \<times> u32 list" where
  "sv_run m ops = fold (sv_step m) ops (mk_slot_vec, [], [])"

definition seq_sum :: "'p slot_vec \<Rightarrow> nat" where
  "seq_sum v = sum_list (map (\<lambda>s. unat (snd s)) (sv_slots v))"

definition run_inv :: "nat \<Rightarrow> 'p slot_vec \<times> (u32 \<times> 'p) list \<times> u32 list \<Rightarrow> bool" where
  "run_inv m = (\<lambda>(v, hist, gone). sv_inv m v \<and>
     (\<forall>(h, p) \<in> set hist. sv_get h v = (if h \<in> set gone then None else Some p)) \<and>
     (\<forall>h. h \<notin> fst ` set hist \<longrightarrow> sv_get h v = None) \<and> distinct (map fst hist) \<and>
     seq_sum v = length hist \<and>
     (\<forall>h \<in> fst ` set hist. unat (get_index h) < length (sv_slots v) \<and>
        unat (get_seq h) \<le> unat (snd (sv_slots v ! unat (get_index h)))))"

lemma seq_le_sum: "i < length (sv_slots v) \<Longrightarrow> unat (snd (sv_slots v ! i)) \<le> seq_sum v"
  by (auto simp: seq_sum_def intro!: member_le_sum_list)

lemma sv_del_slots:
  assumes "sv_get h v = Some p"
  shows "length (sv_slots (snd (sv_del h v))) = length (sv_slots v)"
    and "map snd (sv_slots (snd (sv_del h v))) = map snd (sv_slots v)"
  using assms
  by (auto simp: sv_del_def Let_def sv_get_def map_update split: if_splits)
     (metis list_update_id nth_map not_le)

lemma u16_inc: "unat q < 65535 \<Longrightarrow> unat (q + 1 :: u16) = unat q + 1"
  by (simp add: unat_word_ariths)

text \<open>What \<open>add\<close> does to the sequence numbers while none of them wraps.\<close>

lemma sv_add_seq:
  assumes "sv_inv m v" "sv_add m p v = Inr (h, v')" "seq_sum v < 65535"
  shows "seq_sum v' = seq_sum v + 1" "length (sv_slots v) \<le> length (sv_slots v')"
    and "unat (get_index h) < length (sv_slots v')" "snd (sv_slots v' ! unat (get_index h)) = get_seq h"
    and "\<And>i. i < length (sv_slots v) \<Longrightarrow> unat (snd (sv_slots v ! i)) \<le> unat (snd (sv_slots v' ! i))"
    and "unat (get_index h) < length (sv_slots v) \<Longrightarrow> unat (snd (sv_slots v ! unat (get_index h))) < unat (get_seq h)"
proof -
  from assms(1,2) have "seq_sum v' = seq_sum v + 1 \<and> length (sv_slots v) \<le> length (sv_slots v') \<and>
    unat (get_index h) < length (sv_slots v') \<and> snd (sv_slots v' ! unat (get_index h)) = get_seq h \<and>
    (\<forall>i < length (sv_slots v). unat (snd (sv_slots v ! i)) \<le> unat (snd (sv_slots v' ! i))) \<and>
    (unat (get_index h) < length (sv_slots v) \<longrightarrow> unat (snd (sv_slots v ! unat (get_index h))) < unat (get_seq h))"
  proof (cases rule: sv_add_cases)
    case fresh
    then show ?thesis by (simp add: seq_sum_def nth_append)
  next
    case (reuse i "is")
    let ?q = "snd (sv_slots v ! unat i)"
    have q: "unat (?q + 1) = unat ?q + 1"
      using seq_le_sum [OF reuse(5)] assms(3) by (intro u16_inc) simp
    have "sum_list (map (\<lambda>s. unat (snd s)) ((sv_slots v)[unat i := (Some p, ?q + 1)])) =
        sum_list (map (\<lambda>s. unat (snd s)) (sv_slots v)) + 1"
      using reuse(5) q member_le_sum_list [of "unat ?q" "map (\<lambda>s. unat (snd s)) (sv_slots v)"]
      by (simp add: map_update sum_list_update nth_mem)
    then show ?thesis using reuse(5) q unfolding reuse(3,4)
      by (auto simp: seq_sum_def nth_list_update)
  qed
  then show "seq_sum v' = seq_sum v + 1" "length (sv_slots v) \<le> length (sv_slots v')"
    "unat (get_index h) < length (sv_slots v')" "snd (sv_slots v' ! unat (get_index h)) = get_seq h"
    "\<And>i. i < length (sv_slots v) \<Longrightarrow> unat (snd (sv_slots v ! i)) \<le> unat (snd (sv_slots v' ! i))"
    "unat (get_index h) < length (sv_slots v) \<Longrightarrow> unat (snd (sv_slots v ! unat (get_index h))) < unat (get_seq h)"
    by blast+
qed

lemma run_inv_add:
  assumes inv: "run_inv m (v, hist, gone)" and gone: "set gone \<subseteq> fst ` set hist" and lt: "length hist < 65535"
    and add: "sv_add m p v = Inr (h, v')"
  shows "run_inv m (v', (h, p) # hist, gone)"
proof -
  have i: "sv_inv m v" "seq_sum v = length hist" "distinct (map fst hist)"
      "\<forall>(h, p) \<in> set hist. sv_get h v = (if h \<in> set gone then None else Some p)"
      "\<forall>h. h \<notin> fst ` set hist \<longrightarrow> sv_get h v = None"
      "\<forall>h \<in> fst ` set hist. unat (get_index h) < length (sv_slots v) \<and>
        unat (get_seq h) \<le> unat (snd (sv_slots v ! unat (get_index h)))"
    using inv by (simp_all add: run_inv_def)
  note get = hv.add_get [OF i(1) add]
  have "seq_sum v < 65535" using i(2) lt by simp
  note sq = sv_add_seq [OF i(1) add this]
  have new: "h \<notin> fst ` set hist" using sq(6) i(6) leD by blast
  have seqs: "\<forall>k \<in> fst ` set hist. unat (get_index k) < length (sv_slots v') \<and>
      unat (get_seq k) \<le> unat (snd (sv_slots v' ! unat (get_index k)))"
    using i(6) sq(2,5) by (meson le_trans less_le_trans)
  have "\<forall>(k, q) \<in> set hist. sv_get k v' = (if k \<in> set gone then None else Some q)"
    using i(4) new get by force
  moreover have "\<forall>k. k \<notin> fst ` set ((h, p) # hist) \<longrightarrow> sv_get k v' = None"
    using i(5) get by auto
  moreover have "h \<notin> set gone" using new gone by blast
  ultimately show ?thesis
    using i(2,3) sq(1,3,4) new seqs get hv.add_inv [OF i(1) add] by (simp add: run_inv_def)
qed

lemma run_inv_del:
  assumes inv: "run_inv m (v, hist, gone)" and get: "sv_get h v = Some p"
  shows "run_inv m (snd (sv_del h v), hist, h # gone)" "h \<in> fst ` set hist"
proof -
  have i: "sv_inv m v" "seq_sum v = length hist" "distinct (map fst hist)"
      "\<forall>(h, p) \<in> set hist. sv_get h v = (if h \<in> set gone then None else Some p)"
      "\<forall>h. h \<notin> fst ` set hist \<longrightarrow> sv_get h v = None"
      "\<forall>h \<in> fst ` set hist. unat (get_index h) < length (sv_slots v) \<and>
        unat (get_seq h) \<le> unat (snd (sv_slots v ! unat (get_index h)))"
    using inv by (simp_all add: run_inv_def)
  show "h \<in> fst ` set hist" using i(5) get by force
  obtain r v' where del: "sv_del h v = (r, v')" by (cases "sv_del h v")
  note g = hv.del_get [OF i(1) get del]
  note sl = sv_del_slots [OF get, unfolded del snd_conv]
  have "snd (sv_slots v' ! k) = snd (sv_slots v ! k)" if "k < length (sv_slots v)" for k
    using sl that by (metis nth_map)
  moreover have "seq_sum v' = seq_sum v"
    using arg_cong [OF sl(2), of "\<lambda>xs. sum_list (map unat xs)"] by (simp add: seq_sum_def comp_def)
  moreover have "\<forall>(k, q) \<in> set hist. sv_get k v' = (if k \<in> set (h # gone) then None else Some q)"
    using i(4) g by fastforce
  ultimately show "run_inv m (snd (sv_del h v), hist, h # gone)"
    using i(2,3,5,6) g sl(1) hv.del_inv [OF i(1) get del] by (simp add: run_inv_def del)
qed

fun adds :: "'p sv_op list \<Rightarrow> nat" where
  "adds [] = 0"
| "adds (Add p # ops) = Suc (adds ops)"
| "adds (Del h # ops) = adds ops"

lemma run_inv_fold:
  assumes "run_inv m st" "set (snd (snd st)) \<subseteq> fst ` set (fst (snd st))" "length (fst (snd st)) + adds ops \<le> 65535"
  shows "run_inv m (fold (sv_step m) ops st)"
  using assms
proof (induction ops arbitrary: st rule: adds.induct)
  case (2 p ops)
  obtain v hist gone where st: "st = (v, hist, gone)" by (rule prod_cases3)
  show ?case
  proof (cases "sv_add m p v")
    case (Inl e)
    then show ?thesis using "2.IH" [of st] "2.prems" by (simp add: st)
  next
    case (Inr r)
    then obtain h v' where add: "sv_add m p v = Inr (h, v')" by (cases r) auto
    then have "run_inv m (v', (h, p) # hist, gone)"
      using run_inv_add [OF _ _ _ add, of hist gone] "2.prems" by (simp add: st)
    then show ?thesis using "2.IH" [of "(v', (h, p) # hist, gone)"] "2.prems" add by (auto simp: st)
  qed
next
  case (3 h ops)
  obtain v hist gone where st: "st = (v, hist, gone)" by (rule prod_cases3)
  show ?case
  proof (cases "sv_get h v")
    case None
    then show ?thesis using "3.IH" [of st] "3.prems" by (simp add: st)
  next
    case (Some p)
    then show ?thesis
      using "3.IH" [of "(snd (sv_del h v), hist, h # gone)"] "3.prems" run_inv_del [of m v hist gone h p] by (simp add: st)
  qed
qed simp

lemma sv_each_used: "sv_inv m v \<Longrightarrow> length (sv_each v) = sv_used v"
proof -
  have "length [p. (Some p, _) \<leftarrow> xs] = length (filter (\<lambda>s. fst s \<noteq> None) xs)" for xs :: "('p option \<times> u16) list"
    by (induction xs) (auto split: prod.splits option.splits)
  then show "sv_inv m v \<Longrightarrow> length (sv_each v) = sv_used v" by (simp add: sv_inv_def sv_each_def)
qed

text \<open>
  C31. Ids are exclusive and never come back: in any sequence of adds and deletes of live ids with at most
  65535 adds, all ids handed out are different; an id that was not deleted resolves to its own object,
  a deleted one to none (also after its slot was reused), an id never handed out to none; and the
  used count is the number of objects \<open>each\<close> visits.
\<close>

theorem slot_vector_handles:
  assumes "m \<le> 65535" "adds ops \<le> 65535" "sv_run m ops = (v, hist, gone)"
  shows "distinct (map fst hist) \<and>
    (\<forall>(h, p) \<in> set hist. sv_get h v = (if h \<in> set gone then None else Some p)) \<and>
    (\<forall>h. h \<notin> fst ` set hist \<longrightarrow> sv_get h v = None) \<and> sv_used v = length (sv_each v)"
proof -
  have "run_inv m (mk_slot_vec, [] :: (u32 \<times> 'a) list, [])"
    using mk_slot_vec_inv [OF assms(1)] by (simp add: run_inv_def mk_slot_vec_def seq_sum_def sv_get_def)
  then have "run_inv m (v, hist, gone)"
    using run_inv_fold [of m "(mk_slot_vec, [], [])" ops] assms(2,3) by (simp add: sv_run_def)
  then show ?thesis using sv_each_used [of m v] by (simp add: run_inv_def)
qed

theorem slot_vector_handles_witness:
  "\<exists>v hist gone. sv_run 65535 [Add ''a'', Add ''b'', Del 1, Add ''c''] = (v, hist, gone) \<and>
     map snd hist = [''c'', ''b'', ''a''] \<and> distinct (map fst hist) \<and> sv_get 1 v = None \<and> sv_get 2 v = Some ''c''"
proof -
  let ?ops = "[Add ''a'', Add ''b'', Del 1, Add ''c'']"
  have run: "sv_run 65535 ?ops =
      (\<lparr>sv_slots = [(Some ''c'', 2), (Some ''b'', 1)], sv_free = [], sv_used = 2\<rparr>,
       [(2, ''c''), (65537, ''b''), (1, ''a'')], [1])"
    by (simp add: sv_run_def sv_add_def get_free_slot_index_def mk_slot_vec_def slot_id_def get_index_def get_seq_def
        sv_get_def sv_del_def usub_def Let_def)
  have le: "(65535::nat) \<le> 65535" and n: "adds ?ops \<le> 65535" by simp_all
  from slot_vector_handles [OF le n run] run show ?thesis by simp
qed

text \<open>
  A second delete of the same id is not detected: the slot is put on the free list twice, and the two
  objects added next share it, so that the id of the first resolves to nothing although it was
  never deleted.
\<close>

lemma double_delete_aliases:
  "\<exists>v1 v2 h1 h2. snd (sv_del 1 (snd (sv_del 1 (\<lparr>sv_slots = [(Some ''a'', 1)], sv_free = [], sv_used = 1\<rparr>)))) = v1 \<and>
     sv_add 65535 ''b'' v1 = Inr (h1, v2) \<and> (\<exists>v3. sv_add 65535 ''c'' v2 = Inr (h2, v3) \<and>
       sv_get h1 v2 = Some ''b'' \<and> sv_get h1 v3 = None)"
  by (simp add: sv_add_def get_free_slot_index_def slot_id_def get_index_def get_seq_def sv_get_def sv_del_def
      usub_def Let_def)

text \<open>After \<open>clear\<close> the free list still names the slots that are gone: the next \<open>add\<close> indexes an empty vector.\<close>

lemma add_after_clear:
  assumes "sv_free v \<noteq> []" "0 < m"
  shows "sv_add m p (sv_clear v) = Inl (Undef ''slots_ index'')"
  using assms by (cases "sv_free v") (simp_all add: sv_add_def get_free_slot_index_def sv_clear_def)

end
