(* ===== verification/Tcp_Node.thy ===== *)
theory Tcp_Node
  imports Sequence Slot_Vector Tcp_Session
begin

text \<open>
  \<^verbatim>\<open>tcp_node\<close> with its acceptors, connectors, addresses, and the notifications \<^verbatim>\<open>bits_node\<close> sends.
  Protocols and channels are numbers (their identity). Sockets and their completions come
  from boost::asio: whether opening, binding and listening succeed, and which addresses its parser accepts,
  are arguments. What the node publishes is recorded with the channel it goes to.
\<close>

section \<open>Addresses\<close>

text \<open>\<^verbatim>\<open>atoi\<close>: white space, an optional sign, digits up to the first other character.\<close>

fun atoi_digits :: "int \<Rightarrow> string \<Rightarrow> int" where
  "atoi_digits acc [] = acc"
| "atoi_digits acc (c # cs) =
     (if 48 \<le> (of_char c :: nat) \<and> (of_char c :: nat) \<le> 57 then atoi_digits (10 * acc + (int (of_char c) - 48)) cs else acc)"

fun atoi :: "string \<Rightarrow> int" where
  "atoi [] = 0"
| "atoi (c # cs) =
     (if c = CHR '' '' \<or> (9 \<le> (of_char c :: nat) \<and> (of_char c :: nat) \<le> 13) then atoi cs
      else if c = CHR ''-'' then - atoi_digits 0 cs
      else if c = CHR ''+'' then atoi_digits 0 cs
      else atoi_digits 0 (c # cs))"

(* [include/wise.kernel/net/tcp/tcp_addr.hpp:52-54 tcp_addr] *)
record 'a tcp_addr =
  ta_raw :: string
  ta_ep :: "('a \<times> u16) option"
  ta_valid :: bool

text \<open>
  \<open>from_string\<close> is boost's address parser (\<open>None\<close> for an error; the endpoint then has the
  unspecified address, which nothing looks at since the address is not valid). A number
  outside \<^verbatim>\<open>int\<close> is undefined for \<^verbatim>\<open>atoi\<close>.
\<close>

(* [src/net/tcp/tcp_addr.cpp:8-30 tcp_addr::tcp_addr] *)
definition mk_tcp_addr :: "(string \<Rightarrow> 'a option) \<Rightarrow> string \<Rightarrow> 'a tcp_addr res" where
  "mk_tcp_addr from_string s =
     (let pos = length (takeWhile (\<lambda>c. c \<noteq> CHR '':'') s);
          invalid = \<lparr>ta_raw = s, ta_ep = None, ta_valid = False\<rparr>
      in if pos = length s then Inr invalid
         else if pos + 1 \<ge> length s then Inr invalid
         else let sip = take pos s;
                  n = atoi (drop (pos + 1) s);
                  port = (word_of_int n :: u16)
              in if n < - (2 ^ 31) \<or> n \<ge> 2 ^ 31 then Inl (Undef ''atoi'')
                 else if port = 0 then Inr invalid
                 else case from_string sip of
                        None \<Rightarrow> Inr invalid
                      | Some a \<Rightarrow> Inr \<lparr>ta_raw = s, ta_ep = Some (a, port), ta_valid = True\<rparr>)"

(* [src/net/tcp/tcp_addr.cpp:32-35 tcp_addr::tcp_addr] *)
definition mk_tcp_addr2 :: "(string \<Rightarrow> 'a option) \<Rightarrow> string \<Rightarrow> u16 \<Rightarrow> 'a tcp_addr res" where
  "mk_tcp_addr2 from_string ip port = mk_tcp_addr from_string (ip @ '':'' @ digits (unat port))"

section \<open>Acceptors and connectors\<close>

text \<open>
  Opening, binding and listening throw inside asio; each is caught. The failure is returned
  with the code \<open>true\<close>. The second component says whether accepting has started.
\<close>

(* [src/net/tcp/tcp_acceptor.cpp:24-81 tcp_acceptor::listen] *)
definition acceptor_listen :: "bool \<Rightarrow> bool \<Rightarrow> bool \<Rightarrow> bool \<Rightarrow> outcome \<times> bool" where
  "acceptor_listen valid open_ok bind_ok listen_ok =
     (if \<not> valid then ((False, fail_invalid_address), False)
      else if \<not> open_ok then ((True, fail_acceptor_open), False)
      else if \<not> bind_ok then ((True, fail_acceptor_bind), False)
      else if \<not> listen_ok then ((True, fail_acceptor_listen), False)
      else ((True, success), True))"

(* [src/net/tcp/tcp_connector.cpp:26-36 tcp_connector::connect] *)
definition connector_connect :: outcome where
  "connector_connect = (True, success)"

section \<open>The node\<close>

text \<open>The packets a node publishes: the events of \<^verbatim>\<open>bits_node\<close>.\<close>

datatype notice =
    Syn_accepted nat
  | Syn_connected nat
  | Syn_connect_failed string nat
  | Syn_disconnected nat nat

(* [include/wise.kernel/net/tcp/tcp_node.hpp:97-102 tcp_node] *)
record node_state =
  nd_seq :: id_pool
  nd_acceptors :: "nat \<rightharpoonup> string \<times> nat"
  nd_connectors :: "nat \<rightharpoonup> string \<times> nat"
  nd_protocols :: "nat slot_vec"
  nd_ids :: "nat \<rightharpoonup> u32"
  nd_bound :: "(nat \<times> nat) list"
  nd_begun :: "nat list"
  nd_published :: "(nat \<times> notice) list"
  nd_closed :: "nat list"
  nd_next :: nat

definition max_slot :: nat where
  "max_slot = 65535"

(* [src/net/tcp/tcp_node.cpp:7-16 tcp_node::tcp_node] *)
definition mk_node :: node_state where
  "mk_node = \<lparr>nd_seq = mk_sequence 1 65535 100, nd_acceptors = Map.empty, nd_connectors = Map.empty,
     nd_protocols = mk_slot_vec, nd_ids = Map.empty, nd_bound = [], nd_begun = [], nd_published = [],
     nd_closed = [], nd_next = 0\<rparr>"

text \<open>A protocol publishes to every channel bound to it.\<close>

definition nd_publish :: "nat \<Rightarrow> notice \<Rightarrow> node_state \<Rightarrow> node_state" where
  "nd_publish p m n = n\<lparr>nd_published := nd_published n @ map (\<lambda>(_, c). (c, m)) (filter (\<lambda>(q, _). q = p) (nd_bound n))\<rparr>"

(* [src/net/protocol/bits/bits_node.cpp:24-29 bits_node::notify_accepted] *)
definition notify_accepted :: "nat \<Rightarrow> node_state \<Rightarrow> node_state" where
  "notify_accepted p n = nd_publish p (Syn_accepted p) n"

(* [src/net/protocol/bits/bits_node.cpp:31-36 bits_node::notify_connected] *)
definition notify_connected :: "nat \<Rightarrow> node_state \<Rightarrow> node_state" where
  "notify_connected p n = nd_publish p (Syn_connected p) n"

(* [src/net/protocol/bits/bits_node.cpp:38-48 bits_node::notify_connect_failed] *)
definition notify_connect_failed :: "string \<Rightarrow> nat \<Rightarrow> nat \<Rightarrow> node_state \<Rightarrow> node_state" where
  "notify_connect_failed addr ec ch n = n\<lparr>nd_published := nd_published n @ [(ch, Syn_connect_failed addr ec)]\<rparr>"

(* [src/net/protocol/bits/bits_node.cpp:50-57 bits_node::notify_disconnect] *)
definition notify_disconnect :: "nat \<Rightarrow> nat \<Rightarrow> node_state \<Rightarrow> node_state" where
  "notify_disconnect p ec n = nd_publish p (Syn_disconnected p ec) n"

text \<open>\<open>up\<close> is the outcome of the acceptor's \<open>listen\<close>; a null channel is \<open>None\<close>.\<close>

(* [src/net/tcp/tcp_node.cpp:22-34 tcp_node::listen] *)
definition nd_listen :: "outcome \<Rightarrow> string \<Rightarrow> nat option \<Rightarrow> node_state \<Rightarrow> (outcome \<times> node_state) res" where
  "nd_listen up addr ch n =
     (case ch of
        None \<Rightarrow> Inl (Throw ''listen must have a valid channel.'')
      | Some c \<Rightarrow> bind_res (seq_next (nd_seq n)) (\<lambda>(k, q).
          Inr (up, n\<lparr>nd_seq := q, nd_acceptors := (nd_acceptors n)(k \<mapsto> (addr, c))\<rparr>)))"

(* [src/net/tcp/tcp_node.cpp:36-55 tcp_node::connect] *)
definition nd_connect :: "string \<Rightarrow> nat option \<Rightarrow> node_state \<Rightarrow> (outcome \<times> node_state) res" where
  "nd_connect addr ch n =
     (case ch of
        None \<Rightarrow> Inl (Throw ''connect must have a valid channel.'')
      | Some c \<Rightarrow> bind_res (seq_next (nd_seq n)) (\<lambda>(k, q).
          Inr (connector_connect, n\<lparr>nd_seq := q, nd_connectors := (nd_connectors n)(k \<mapsto> (addr, c))\<rparr>)))"

(* [src/net/tcp/tcp_node.cpp:57-62 tcp_node::get] *)
definition nd_get :: "u32 \<Rightarrow> node_state \<Rightarrow> nat option" where
  "nd_get h n = sv_get h (nd_protocols n)"

text \<open>A socket becomes a protocol, numbered \<open>nd_next\<close>; the table may throw at its limit.\<close>

(* [src/net/tcp/tcp_node.cpp:206-245 tcp_node::on_new_socket] *)
definition on_new_socket :: "nat \<Rightarrow> bool \<Rightarrow> node_state \<Rightarrow> node_state res" where
  "on_new_socket ch accepted n =
     (let p = nd_next n
      in bind_res (sv_add max_slot p (nd_protocols n)) (\<lambda>(h, v).
           Inr ((if accepted then notify_accepted p else notify_connected p)
                 (n\<lparr>nd_next := Suc p, nd_protocols := v, nd_ids := (nd_ids n)(p \<mapsto> h),
                    nd_bound := nd_bound n @ [(p, ch)], nd_begun := nd_begun n @ [p]\<rparr>))))"

text \<open>\<open>soc\<close> names the socket, recorded when it is closed unused.\<close>

(* [src/net/tcp/tcp_node.cpp:101-117 tcp_node::on_accepted] *)
definition on_accepted :: "nat \<Rightarrow> nat \<Rightarrow> nat \<Rightarrow> node_state \<Rightarrow> node_state res" where
  "on_accepted k soc ch n =
     (case nd_acceptors n k of
        None \<Rightarrow> Inr (n\<lparr>nd_closed := nd_closed n @ [soc]\<rparr>)
      | Some _ \<Rightarrow> on_new_socket ch True n)"

(* [src/net/tcp/tcp_node.cpp:142-165 tcp_node::on_connected] *)
definition on_connected :: "nat \<Rightarrow> nat \<Rightarrow> nat \<Rightarrow> node_state \<Rightarrow> node_state res" where
  "on_connected k soc ch n =
     (case nd_connectors n k of
        None \<Rightarrow> Inr (n\<lparr>nd_closed := nd_closed n @ [soc]\<rparr>)
      | Some _ \<Rightarrow> bind_res (on_new_socket ch False n) (\<lambda>n1.
          Inr (n1\<lparr>nd_seq := seq_release k (nd_seq n1), nd_connectors := (nd_connectors n1)(k := None)\<rparr>)))"

(* [src/net/tcp/tcp_node.cpp:167-190 tcp_node::on_connect_failed] *)
definition on_connect_failed :: "nat \<Rightarrow> nat \<Rightarrow> nat \<Rightarrow> node_state \<Rightarrow> node_state" where
  "on_connect_failed k ec ch n =
     (let n1 = (case nd_connectors n k of
                  None \<Rightarrow> n
                | Some (addr, _) \<Rightarrow> notify_connect_failed addr ec ch n)
      in n1\<lparr>nd_seq := seq_release k (nd_seq n1), nd_connectors := (nd_connectors n1)(k := None)\<rparr>)"

text \<open>
  The handlers of an acceptor and a connector. The acceptor asks for the next socket in
  either case; a failed accept is only logged (\<open>on_accept_failed\<close>).
\<close>

(* [src/net/tcp/tcp_acceptor.cpp:93-111 tcp_acceptor::on_accepted] *)
definition acceptor_on_accepted :: "nat \<Rightarrow> nat \<Rightarrow> nat \<Rightarrow> nat \<Rightarrow> node_state \<Rightarrow> node_state res" where
  "acceptor_on_accepted k ec soc ch n = (if ec = 0 then on_accepted k soc ch n else Inr n)"

(* [src/net/tcp/tcp_connector.cpp:38-54 tcp_connector::on_connected] *)
definition connector_on_connected :: "nat \<Rightarrow> nat \<Rightarrow> nat \<Rightarrow> nat \<Rightarrow> node_state \<Rightarrow> node_state res" where
  "connector_on_connected k ec soc ch n =
     (if ec = 0 then on_connected k soc ch n else Inr (on_connect_failed k ec ch n))"

(* [src/net/tcp/tcp_node.cpp:192-204 tcp_node::on_error] *)
definition nd_on_error :: "nat \<Rightarrow> nat \<Rightarrow> node_state \<Rightarrow> node_state" where
  "nd_on_error p ec n =
     notify_disconnect p ec
       (n\<lparr>nd_protocols := snd (sv_del (case nd_ids n p of Some h \<Rightarrow> h | None \<Rightarrow> 0) (nd_protocols n))\<rparr>)"

text \<open>
  \<open>on_finish\<close> disconnects every protocol and polls the used count. The errors the other threads
  report meanwhile are \<open>evs\<close>; \<open>None\<close> means that it is still waiting after them.
\<close>

fun finish_wait :: "(nat \<times> nat) list \<Rightarrow> node_state \<Rightarrow> node_state option" where
  "finish_wait evs n =
     (if sv_used (nd_protocols n) = 0 then Some n
      else case evs of [] \<Rightarrow> None | (p, ec) # evs' \<Rightarrow> finish_wait evs' (nd_on_error p ec n))"

(* [src/net/tcp/tcp_node.cpp:69-99 tcp_node::on_finish] *)
definition on_finish :: "(nat \<times> nat) list \<Rightarrow> node_state \<Rightarrow> nat list \<times> node_state option" where
  "on_finish evs n = (sv_each (nd_protocols n), finish_wait evs n)"

section \<open>Descriptions of reasons\<close>

text \<open>The value of an enumerator is its position; the description is read from a static array at that index.\<close>

fun reason_index :: "reason \<Rightarrow> nat" where
  "reason_index success = 0"
| "reason_index fail_null_pointer = 1"
| "reason_index fail_zero_size_data = 2"
| "reason_index fail_invalid_parameter = 3"
| "reason_index fail_not_implemented = 4"
| "reason_index fail_invalid_address = 5"
| "reason_index fail_acceptor_open = 6"
| "reason_index fail_acceptor_bind = 7"
| "reason_index fail_acceptor_listen = 8"
| "reason_index fail_session_already_recving = 9"
| "reason_index success_session_already_sending = 10"
| "reason_index success_session_no_data_to_send = 11"
| "reason_index fail_invalid_session = 12"
| "reason_index fail_socket_closed = 13"
| "reason_index fail_null_message_pointer = 14"
| "reason_index fail_invalid_message_header = 15"
| "reason_index fail_protocol_not_added = 16"
| "reason_index fail_protocol_not_bound = 17"
| "reason_index fail_invalid_bits_message = 18"
| "reason_index fail_bits_message_not_registered = 19"
| "reason_index fail_bits_pack_error = 20"
| "reason_index fail_bits_unpack_error = 21"
| "reason_index fail_insufficient_unpack = 22"
| "reason_index fail_bits_max_packet_size = 23"
| "reason_index fail_invalid_message_sequence = 24"
| "reason_index fail_null_hash_function = 25"
| "reason_index fail_incorrect_checksum = 26"
| "reason_index fail_incorrect_checksum_length = 27"
| "reason_index fail_service_not_found = 28"
| "reason_index fail_handler_not_found = 29"

(* [src/net/reason.cpp:6-44 get_reason_desc] *)
definition reason_descs :: "string list" where
  "reason_descs =
    [''success'',
     ''fail_null_pointer'',
     ''fail_zero_size_data'',
     ''fail_invalid_parameter'',
     ''fail_not_implemented'',
     ''fail_invalid_session_index'',
     ''fail_invalid_address'',
     ''fail_acceptor_open'',
     ''fail_acceptor_bind'',
     ''fail_acceptor_listen'',
     ''fail_session_already_recving'',
     ''success_session_already_sending'',
     ''success_session_no_data_to_send'',
     ''fail_socket_closed'',
     ''fail_null_message_pointer'',
     ''fail_invalid_message_header'',
     ''fail_protocol_not_added'',
     ''fail_inavlid_bits_message'',
     ''fail_bits_message_not_registered'',
     ''fail_bits_pack_error'',
     ''fail_bits_unpack_error'',
     ''fail_bits_max_packet_size'',
     ''fail_invalid_message_sequence'',
     ''fail_null_hash_function'',
     ''fail_incorrect_checksum'',
     ''fail_incorrect_checksum_length'',
     ''fail_service_not_found'']"

(* [src/net/reason.cpp:4-47 get_reason_desc] *)
definition get_reason_desc :: "reason \<Rightarrow> string res" where
  "get_reason_desc r =
     (if reason_index r < length reason_descs then Inr (reason_descs ! reason_index r)
      else Inl (Undef ''desc index''))"

text \<open>The array misses three entries and has one too many: later descriptions are shifted, the last reasons have none.\<close>

lemma reason_desc_shifted:
  "get_reason_desc fail_acceptor_bind = Inr ''fail_acceptor_open''"
  "get_reason_desc fail_bits_unpack_error = Inr ''fail_bits_max_packet_size''"
  "get_reason_desc fail_service_not_found = Inl (Undef ''desc index'')"
  by (simp_all add: get_reason_desc_def reason_descs_def)

section \<open>The threads of a node\<close>

text \<open>
  \<^verbatim>\<open>node\<close>: the threads that run the asio loop. \<open>hw\<close> is the number of hardware threads; \<open>stopped\<close>
  records the calls that stop the loop, \<open>joined\<close> the threads joined.
\<close>

(* [include/wise.kernel/net/node.hpp:18-23 node::config] *)
record node_config =
  use_hardware_concurreny :: bool
  concurreny_level :: nat

(* [include/wise.kernel/net/node.hpp:62-66 node] *)
record node_base =
  nb_stop :: bool
  nb_threads :: nat
  nb_stopped :: nat
  nb_joined :: nat

(* [src/net/node.cpp:10-14 node::node] *)
definition mk_node_base :: node_base where
  "mk_node_base = \<lparr>nb_stop = True, nb_threads = 0, nb_stopped = 0, nb_joined = 0\<rparr>"

(* [src/net/node.cpp:21-46 node::start] *)
definition nb_start :: "node_config \<Rightarrow> nat \<Rightarrow> node_base \<Rightarrow> outcome \<times> node_base" where
  "nb_start cfg hw b =
     (let n = (if use_hardware_concurreny cfg then hw else concurreny_level cfg)
      in ((True, success), b\<lparr>nb_stop := False, nb_threads := n\<rparr>))"

text \<open>\<open>finish\<close> around the node's \<open>on_finish\<close>; \<open>None\<close> while that is waiting.\<close>

(* [src/net/node.cpp:48-73 node::finish] *)
definition nb_finish :: "(nat \<times> nat) list \<Rightarrow> node_base \<Rightarrow> node_state \<Rightarrow> (node_base \<times> node_state) option" where
  "nb_finish evs b n =
     (if nb_stop b then Some (b, n)
      else case on_finish evs n of
             (_, None) \<Rightarrow> None
           | (_, Some n') \<Rightarrow> Some (b\<lparr>nb_stop := True, nb_stopped := nb_stopped b + nb_threads b,
                                     nb_joined := nb_joined b + nb_threads b\<rparr>, n'))"

declare finish_wait.simps [simp del]

section \<open>Reading back an address\<close>

definition is_digit :: "char \<Rightarrow> bool" where
  "is_digit c \<longleftrightarrow> 48 \<le> (of_char c :: nat) \<and> (of_char c :: nat) \<le> 57"

lemma is_digit_char_of: "k < 10 \<Longrightarrow> is_digit (char_of (48 + k :: nat))"
  by (simp add: is_digit_def of_char_of)

lemma digits_are_digits: "list_all is_digit (digits n)"
  by (induction n rule: digits.induct) (subst digits.simps, simp add: is_digit_char_of)

lemma digits_nonempty: "digits n \<noteq> []"
  by (subst digits.simps) simp

lemma atoi_digits_snoc:
  "list_all is_digit xs \<Longrightarrow> is_digit d \<Longrightarrow>
   atoi_digits acc (xs @ [d]) = 10 * atoi_digits acc xs + (int (of_char d) - 48)"
  by (induction acc xs rule: atoi_digits.induct) (simp_all add: is_digit_def)

lemma atoi_digits_digits: "atoi_digits 0 (digits n) = int n"
proof (induction n rule: digits.induct)
  case (1 n)
  have d: "int (of_char (char_of (48 + k :: nat))) - 48 = int k" if "k < 10" for k
    using that by (simp add: of_char_of)
  show ?case
  proof (cases "n < 10")
    case True
    then show ?thesis using d [OF True] is_digit_char_of [OF True] by (subst digits.simps) (simp add: is_digit_def)
  next
    case False
    have "digits n = digits (n div 10) @ [char_of (48 + n mod 10)]" using False by (subst digits.simps) simp
    moreover have "10 * int (n div 10) + int (n mod 10) = int n"
      using arg_cong [OF mult_div_mod_eq [of 10 n], of int] by (simp only: of_nat_add of_nat_mult of_nat_numeral)
    ultimately show ?thesis
      using "1.IH" [OF False] atoi_digits_snoc [OF digits_are_digits is_digit_char_of, of "n mod 10" 0 "n div 10"] d [of "n mod 10"]
      by simp
  qed
qed

lemma atoi_of_digits: "atoi (digits n) = int n"
proof -
  obtain c cs where c: "digits n = c # cs" using digits_nonempty by (cases "digits n") auto
  then have dig: "is_digit c" using digits_are_digits [of n] by simp
  then have "c \<noteq> CHR '' ''" "c \<noteq> CHR ''-''" "c \<noteq> CHR ''+''" by (auto simp: is_digit_def)
  then show ?thesis using dig atoi_digits_digits [of n] by (simp add: c is_digit_def)
qed

section \<open>Reachable nodes\<close>

text \<open>
  \<open>gone\<close> are the protocols that have reported an error. A session reports at most once, and the
  handler of a pending connector runs once; acceptors may run at any time.
\<close>

inductive nd_reach :: "node_state \<Rightarrow> nat set \<Rightarrow> bool" where
  Start: "nd_reach mk_node {}"
| Listen: "nd_reach n gone \<Longrightarrow> nd_listen up addr ch n = Inr (rc, n') \<Longrightarrow> nd_reach n' gone"
| Connect: "nd_reach n gone \<Longrightarrow> nd_connect addr ch n = Inr (rc, n') \<Longrightarrow> nd_reach n' gone"
| Accept: "nd_reach n gone \<Longrightarrow> acceptor_on_accepted k ec soc ch n = Inr n' \<Longrightarrow> nd_reach n' gone"
| Connected: "nd_reach n gone \<Longrightarrow> nd_connectors n k \<noteq> None \<Longrightarrow> connector_on_connected k ec soc ch n = Inr n' \<Longrightarrow>
    nd_reach n' gone"
| Error: "nd_reach n gone \<Longrightarrow> p < nd_next n \<Longrightarrow> p \<notin> gone \<Longrightarrow> nd_reach (nd_on_error p ec n) (insert p gone)"

definition keys_inv :: "node_state \<Rightarrow> bool" where
  "keys_inv n \<longleftrightarrow> pool.owns (nd_seq n) (dom (nd_acceptors n) \<union> dom (nd_connectors n)) \<and>
     dom (nd_acceptors n) \<inter> dom (nd_connectors n) = {} \<and> seq_range (nd_seq n) = {1..<65535}"

definition prot_inv :: "node_state \<Rightarrow> nat set \<Rightarrow> bool" where
  "prot_inv n gone \<longleftrightarrow> sv_inv max_slot (nd_protocols n) \<and> gone \<subseteq> {..<nd_next n} \<and>
     (\<forall>p. p < nd_next n \<and> p \<notin> gone \<longrightarrow> (\<exists>h. nd_ids n p = Some h \<and> sv_get h (nd_protocols n) = Some p)) \<and>
     (\<forall>h p. sv_get h (nd_protocols n) = Some p \<longrightarrow> p < nd_next n \<and> p \<notin> gone \<and> nd_ids n p = Some h)"

lemma publish_sel [simp]:
  "nd_seq (nd_publish p m n) = nd_seq n" "nd_acceptors (nd_publish p m n) = nd_acceptors n"
  "nd_connectors (nd_publish p m n) = nd_connectors n" "nd_protocols (nd_publish p m n) = nd_protocols n"
  "nd_ids (nd_publish p m n) = nd_ids n" "nd_next (nd_publish p m n) = nd_next n"
  by (simp_all add: nd_publish_def)

lemmas notify_defs = notify_accepted_def notify_connected_def notify_connect_failed_def notify_disconnect_def

lemma prot_inv_start: "prot_inv mk_node {}"
  using mk_slot_vec_inv [of max_slot] by (simp add: prot_inv_def mk_node_def max_slot_def sv_get_def mk_slot_vec_def)

lemma keys_inv_start: "keys_inv mk_node"
  using pool_owns_start [of 1 65535 100] by (simp add: keys_inv_def mk_node_def mk_sequence_range)

lemma prot_inv_same:
  "prot_inv n gone \<Longrightarrow> nd_protocols n' = nd_protocols n \<Longrightarrow> nd_ids n' = nd_ids n \<Longrightarrow> nd_next n' = nd_next n \<Longrightarrow>
   prot_inv n' gone"
  by (simp add: prot_inv_def)

lemma on_new_socket_prot:
  assumes "prot_inv n gone" "on_new_socket ch accepted n = Inr n'"
  shows "prot_inv n' gone"
proof -
  obtain h v where add: "sv_add max_slot (nd_next n) (nd_protocols n) = Inr (h, v)"
      and n': "nd_protocols n' = v" "nd_ids n' = (nd_ids n)(nd_next n \<mapsto> h)" "nd_next n' = Suc (nd_next n)"
    using assms(2) by (auto simp: on_new_socket_def Let_def bind_res_Inr_iff notify_defs split: if_splits)
  have i: "sv_inv max_slot (nd_protocols n)" "gone \<subseteq> {..<nd_next n}"
      "\<And>p. p < nd_next n \<Longrightarrow> p \<notin> gone \<Longrightarrow> \<exists>h. nd_ids n p = Some h \<and> sv_get h (nd_protocols n) = Some p"
      "\<And>h p. sv_get h (nd_protocols n) = Some p \<Longrightarrow> p < nd_next n \<and> p \<notin> gone \<and> nd_ids n p = Some h"
    using assms(1) by (simp_all add: prot_inv_def)
  note get = hv.add_get [OF i(1) add] and new = hv.add_new [OF i(1) add]
  have "nd_next n \<notin> gone" using i(2) by auto
  moreover have "\<exists>k. ((nd_ids n)(nd_next n \<mapsto> h)) p = Some k \<and> sv_get k v = Some p"
    if p: "p < Suc (nd_next n)" "p \<notin> gone" for p
  proof (cases "p = nd_next n")
    case False
    then obtain k where "nd_ids n p = Some k" "sv_get k (nd_protocols n) = Some p"
      using p i(3) [of p] by (auto simp: less_Suc_eq)
    then show ?thesis using get [of k] new False by auto
  qed (use get [of h] in simp)
  moreover have "q < Suc (nd_next n) \<and> q \<notin> gone \<and> ((nd_ids n)(nd_next n \<mapsto> h)) q = Some k"
    if "sv_get k v = Some q" for k q
    using that get [of k] i(4) [of k q] calculation(1) by (auto split: if_splits)
  ultimately show ?thesis
    using i(2) hv.add_inv [OF i(1) add] by (auto simp: prot_inv_def n')
qed

lemma on_error_prot:
  assumes "prot_inv n gone" "p < nd_next n" "p \<notin> gone"
  shows "prot_inv (nd_on_error p ec n) (insert p gone)"
proof -
  obtain h where h: "nd_ids n p = Some h" "sv_get h (nd_protocols n) = Some p"
    using assms by (auto simp: prot_inv_def)
  have i: "sv_inv max_slot (nd_protocols n)" using assms(1) by (simp add: prot_inv_def)
  obtain r v where del: "sv_del h (nd_protocols n) = (r, v)" by (cases "sv_del h (nd_protocols n)")
  note get = hv.del_get [OF i h(2) del]
  have "\<exists>k. nd_ids n q = Some k \<and> sv_get k v = Some q" if q: "q < nd_next n" "q \<notin> insert p gone" for q
  proof -
    obtain k where k: "nd_ids n q = Some k" "sv_get k (nd_protocols n) = Some q"
      using assms(1) q by (auto simp: prot_inv_def)
    then show ?thesis using get [of k] h(2) q(2) by auto
  qed
  moreover have "q < nd_next n \<and> q \<notin> insert p gone \<and> nd_ids n q = Some k" if "sv_get k v = Some q" for k q
    using that get [of k] assms(1) h(1) by (auto simp: prot_inv_def split: if_splits)
  moreover have "gone \<subseteq> {..<nd_next n}" using assms(1) by (simp add: prot_inv_def)
  ultimately show ?thesis
    using hv.del_inv [OF i h(2) del] assms(2) by (auto simp: prot_inv_def nd_on_error_def notify_defs h(1) del)
qed

lemma keys_inv_take:
  assumes "keys_inv n" "seq_next (nd_seq n) = Inr (k, q)"
  shows "k \<notin> dom (nd_acceptors n) \<union> dom (nd_connectors n)"
    and "pool.owns q (insert k (dom (nd_acceptors n) \<union> dom (nd_connectors n)))" "seq_range q = {1..<65535}"
proof -
  have own: "pool.owns (nd_seq n) (dom (nd_acceptors n) \<union> dom (nd_connectors n))"
    using assms(1) by (simp add: keys_inv_def)
  show "k \<notin> dom (nd_acceptors n) \<union> dom (nd_connectors n)"
    "pool.owns q (insert k (dom (nd_acceptors n) \<union> dom (nd_connectors n)))"
    by (rule pool.owns_next [OF own assms(2)])+
  have "seq_range q = seq_range (nd_seq n)"
    using pool.nxt_rng own assms(2) by (simp add: pool.owns_def)
  then show "seq_range q = {1..<65535}" using assms(1) by (simp add: keys_inv_def)
qed

lemma keys_inv_release:
  assumes "keys_inv n" "nd_connectors n k \<noteq> None" "nd_acceptors n' = nd_acceptors n"
    and "nd_connectors n' = (nd_connectors n)(k := None)" "nd_seq n' = seq_release k (nd_seq n)"
  shows "keys_inv n'"
proof -
  let ?held = "dom (nd_acceptors n) \<union> dom (nd_connectors n)"
  have k: "k \<in> ?held" "k \<notin> dom (nd_acceptors n)" using assms(1,2) by (auto simp: keys_inv_def)
  then have "pool.owns (seq_release k (nd_seq n)) (?held - {k})"
    using assms(1) by (intro pool.owns_release) (simp_all add: keys_inv_def)
  moreover have "?held - {k} = dom (nd_acceptors n') \<union> dom (nd_connectors n')"
    using k(2) by (auto simp: assms(3,4))
  ultimately show ?thesis using assms by (auto simp: keys_inv_def seq_release_range)
qed

lemma on_new_socket_keys:
  assumes "on_new_socket ch accepted n = Inr n'"
  shows "nd_seq n' = nd_seq n" "nd_acceptors n' = nd_acceptors n" "nd_connectors n' = nd_connectors n"
  using assms by (auto simp: on_new_socket_def Let_def bind_res_Inr_iff notify_defs split: if_splits)

lemma nd_reach_inv: "nd_reach n gone \<Longrightarrow> keys_inv n \<and> prot_inv n gone"
proof (induction rule: nd_reach.induct)
  case Start
  then show ?case by (simp add: keys_inv_start prot_inv_start)
next
  case (Listen n gone up addr ch rc n')
  then obtain c k q where "seq_next (nd_seq n) = Inr (k, q)"
      "n' = n\<lparr>nd_seq := q, nd_acceptors := (nd_acceptors n)(k \<mapsto> (addr, c))\<rparr>"
    by (auto simp: nd_listen_def bind_res_Inr_iff split: option.splits)
  then show ?case using keys_inv_take [of n k q] Listen.IH by (auto simp: keys_inv_def prot_inv_def)
next
  case (Connect n gone addr ch rc n')
  then obtain c k q where "seq_next (nd_seq n) = Inr (k, q)"
      "n' = n\<lparr>nd_seq := q, nd_connectors := (nd_connectors n)(k \<mapsto> (addr, c))\<rparr>"
    by (auto simp: nd_connect_def bind_res_Inr_iff split: option.splits)
  then show ?case using keys_inv_take [of n k q] Connect.IH by (auto simp: keys_inv_def prot_inv_def)
next
  case (Accept n gone k ec soc ch n')
  have "keys_inv n' \<and> prot_inv n' gone" if "on_new_socket ch True n = Inr n'"
    using on_new_socket_keys [OF that] on_new_socket_prot [OF _ that] Accept.IH by (simp add: keys_inv_def)
  moreover have "keys_inv (n\<lparr>nd_closed := nd_closed n @ [soc]\<rparr>) \<and> prot_inv (n\<lparr>nd_closed := nd_closed n @ [soc]\<rparr>) gone"
    using Accept.IH by (simp add: keys_inv_def prot_inv_def)
  ultimately show ?case using Accept.hyps Accept.IH
    by (auto simp: acceptor_on_accepted_def on_accepted_def split: if_splits option.splits)
next
  case (Connected n gone k ec soc ch n')
  have "keys_inv n' \<and> prot_inv n' gone" if ec: "ec = 0"
  proof -
    obtain n1 where n1: "on_new_socket ch False n = Inr n1"
        and n': "n' = n1\<lparr>nd_seq := seq_release k (nd_seq n1), nd_connectors := (nd_connectors n1)(k := None)\<rparr>"
      using Connected ec by (auto simp: connector_on_connected_def on_connected_def bind_res_Inr_iff split: option.splits)
    then show ?thesis
      using on_new_socket_keys [OF n1] on_new_socket_prot [OF _ n1, of gone] keys_inv_release [of n k n'] Connected.IH Connected.hyps(2)
        prot_inv_same [of n1 gone n'] by simp
  qed
  moreover have "keys_inv n' \<and> prot_inv n' gone" if "ec \<noteq> 0"
    using Connected that keys_inv_release [of n k n'] prot_inv_same [of n gone n']
    by (auto simp: connector_on_connected_def on_connect_failed_def notify_connect_failed_def split: option.splits)
  ultimately show ?case by blast
next
  case (Error n gone p ec)
  then show ?case
    using on_error_prot [of n gone p ec] by (simp add: keys_inv_def nd_on_error_def notify_defs)
qed

section \<open>Finishing\<close>

lemma sv_used_zero:
  assumes "sv_inv m v"
  shows "sv_used v = 0 \<longleftrightarrow> (\<forall>h. sv_get h v = None)"
proof
  assume z: "sv_used v = 0"
  show "\<forall>h. sv_get h v = None"
  proof
    fix h
    show "sv_get h v = None"
    proof (rule ccontr)
      assume "sv_get h v \<noteq> None"
      then have "unat (get_index h) < length (sv_slots v)" "fst (sv_slots v ! unat (get_index h)) \<noteq> None"
        by (auto simp: sv_get_def split: if_splits prod.splits)
      then have "0 < length (filter (\<lambda>s. fst s \<noteq> None) (sv_slots v))"
        by (rule filter_nonempty)
      then show False using z assms by (simp add: sv_inv_def)
    qed
  qed
next
  assume none: "\<forall>h. sv_get h v = None"
  have "fst (sv_slots v ! i) = None" if "i < length (sv_slots v)" for i
  proof -
    have "unat (word_of_nat i :: u16) = i" using that assms by (simp add: sv_inv_def unat_of_nat)
    then show ?thesis
      using none [THEN spec, of "slot_id (snd (sv_slots v ! i)) (word_of_nat i)"] that
      by (simp add: sv_get_def split: prod.splits)
  qed
  then have "filter (\<lambda>s. fst s \<noteq> None) (sv_slots v) = []"
    by (metis (mono_tags, lifting) filter_False in_set_conv_nth)
  then show "sv_used v = 0" using assms by (simp add: sv_inv_def)
qed

lemma prot_inv_idle:
  "prot_inv n gone \<Longrightarrow> sv_used (nd_protocols n) = 0 \<longleftrightarrow> {..<nd_next n} \<subseteq> gone"
  using sv_used_zero [of max_slot "nd_protocols n"] unfolding prot_inv_def
  by (metis lessThan_iff not_None_eq option.distinct(1) subsetD subsetI)

lemma sv_used_del:
  assumes "sv_inv m v" "sv_get h v = Some p"
  shows "sv_used v = Suc (sv_used (snd (sv_del h v)))"
proof -
  have "0 < sv_used v" using sv_used_zero [OF assms(1)] assms(2) by (metis neq0_conv option.distinct(1))
  moreover have "unat (get_index h) < length (sv_slots v)" using assms(2) by (auto simp: sv_get_def split: if_splits)
  ultimately show ?thesis by (simp add: sv_del_def Let_def)
qed

lemma finish_wait_returns:
  assumes "prot_inv n gone" "distinct (map fst evs)" "set (map fst evs) = {..<nd_next n} - gone"
  shows "\<exists>n'. finish_wait evs n = Some n' \<and> sv_used (nd_protocols n) = length evs \<and>
     sv_inv max_slot (nd_protocols n') \<and> sv_used (nd_protocols n') = 0"
  using assms
proof (induction evs arbitrary: n gone)
  case Nil
  then have "sv_used (nd_protocols n) = 0" using prot_inv_idle by auto
  then show ?case using Nil.prems(1) by (subst finish_wait.simps) (simp add: prot_inv_def)
next
  case (Cons e evs)
  obtain p ec where e: "e = (p, ec)" by (cases e)
  have p: "p < nd_next n" "p \<notin> gone" using Cons.prems(3) by (auto simp: e)
  have "nd_next (nd_on_error p ec n) = nd_next n" by (simp add: nd_on_error_def notify_defs)
  moreover have "set (map fst evs) = {..<nd_next n} - insert p gone"
    using Cons.prems(2,3) by (auto simp: e)
  ultimately have "\<exists>n'. finish_wait evs (nd_on_error p ec n) = Some n' \<and>
      sv_used (nd_protocols (nd_on_error p ec n)) = length evs \<and>
      sv_inv max_slot (nd_protocols n') \<and> sv_used (nd_protocols n') = 0"
    using Cons.IH [OF on_error_prot [OF Cons.prems(1) p, of ec]] Cons.prems(2) by simp
  moreover have "sv_used (nd_protocols n) = Suc (sv_used (nd_protocols (nd_on_error p ec n)))"
  proof -
    obtain h where "nd_ids n p = Some h" "sv_get h (nd_protocols n) = Some p" "sv_inv max_slot (nd_protocols n)"
      using Cons.prems(1) p by (auto simp: prot_inv_def)
    then show ?thesis using sv_used_del by (simp add: nd_on_error_def notify_defs)
  qed
  ultimately show ?case by (subst finish_wait.simps) (simp add: e)
qed

section \<open>Properties\<close>

text \<open>A run: listen, accept one socket.\<close>

lemma sample_node:
  "\<exists>n. nd_reach n {} \<and> nd_next n = 1 \<and> nd_ids n 0 = Some 1 \<and> nd_acceptors n 1 = Some (''0.0.0.0:7700'', 5) \<and>
     nd_published n = [(5, Syn_accepted 0)]"
proof -
  obtain q where q: "seq_next (mk_sequence 1 65535 100) = Inr (1, q)"
    using seq_next_first [of 1 65535 100] by auto
  let ?n1 = "mk_node\<lparr>nd_seq := q, nd_acceptors := [1 \<mapsto> (''0.0.0.0:7700'', 5)]\<rparr>"
  have "nd_listen (True, success) ''0.0.0.0:7700'' (Some 5) mk_node = Inr ((True, success), ?n1)"
    using q by (simp add: nd_listen_def mk_node_def)
  then have r1: "nd_reach ?n1 {}" by (rule nd_reach.Listen [OF nd_reach.Start])
  let ?n2 = "?n1\<lparr>nd_next := 1, nd_protocols := \<lparr>sv_slots = [(Some 0, 1)], sv_free = [], sv_used = 1\<rparr>,
      nd_ids := [0 \<mapsto> 1], nd_bound := [(0, 5)], nd_begun := [0], nd_published := [(5, Syn_accepted 0)]\<rparr>"
  have "acceptor_on_accepted 1 0 3 5 ?n1 = Inr ?n2"
    by (simp add: acceptor_on_accepted_def on_accepted_def on_new_socket_def mk_node_def sv_add_def
        get_free_slot_index_def mk_slot_vec_def max_slot_def slot_id_def notify_accepted_def nd_publish_def Let_def)
  then have "nd_reach ?n2 {}" by (rule nd_reach.Accept [OF r1])
  then show ?thesis by (intro exI [of _ ?n2]) simp
qed

text \<open>
  C32. The tables of a node stay well formed: the keys of acceptors and connectors are different and,
  with the keys the pool can still give, are exactly the range of the pool; and an id resolves to a
  protocol exactly when that protocol was given the id and has not reported an error.
\<close>

theorem node_tables_wellformed:
  assumes "nd_reach n gone"
  shows "dom (nd_acceptors n) \<inter> dom (nd_connectors n) = {} \<and>
    (dom (nd_acceptors n) \<union> dom (nd_connectors n)) \<inter> seq_avail (nd_seq n) = {} \<and>
    dom (nd_acceptors n) \<union> dom (nd_connectors n) \<union> seq_avail (nd_seq n) = {1..<65535} \<and>
    (\<forall>h p. nd_get h n = Some p \<longleftrightarrow> p < nd_next n \<and> p \<notin> gone \<and> nd_ids n p = Some h)"
proof -
  have k: "keys_inv n" and p: "prot_inv n gone" using nd_reach_inv [OF assms] by simp_all
  have "nd_get h n = Some q \<longleftrightarrow> q < nd_next n \<and> q \<notin> gone \<and> nd_ids n q = Some h" for h q
    using p unfolding prot_inv_def nd_get_def by (metis option.inject)
  then show ?thesis using k by (simp add: keys_inv_def pool.owns_def)
qed

theorem node_tables_wellformed_witness:
  "\<exists>n. nd_reach n {} \<and> 1 \<in> dom (nd_acceptors n) \<and> 1 \<notin> seq_avail (nd_seq n) \<and> nd_get 1 n = Some 0"
proof -
  obtain n where n: "nd_reach n {}" "nd_next n = 1" "nd_ids n 0 = Some 1" "nd_acceptors n 1 = Some (''0.0.0.0:7700'', 5)"
    using sample_node by blast
  from node_tables_wellformed [OF n(1)] n show ?thesis by (intro exI [of _ n]) auto
qed



text \<open>
  An address written as \<open>ip:port\<close> is read back: with no colon in the ip part, a port that is not
  zero and an ip boost accepts, the address is valid and has that ip and port.
\<close>

theorem tcp_addr_round_trip:
  assumes "CHR '':'' \<notin> set ip" "port \<noteq> 0" "from_string ip = Some a"
  shows "mk_tcp_addr2 from_string ip port =
    Inr \<lparr>ta_raw = ip @ '':'' @ digits (unat port), ta_ep = Some (a, port), ta_valid = True\<rparr>"
proof -
  have "takeWhile (\<lambda>c. c \<noteq> CHR '':'') (ip @ CHR '':'' # digits (unat port)) = ip"
    using assms(1) by (subst takeWhile_append2) auto
  moreover have "uint port < 65536" using unsigned_less [of port, where 'a = int] by simp
  moreover have "\<not> uint port < - 2147483648"
    using order_trans [of "- 2147483648" 0 "uint port"] by (simp add: not_less)
  ultimately show ?thesis
    using assms(2,3) digits_nonempty [of "unat port"]
    by (simp add: mk_tcp_addr2_def mk_tcp_addr_def Let_def atoi_of_digits)
qed

theorem tcp_addr_round_trip_witness:
  "mk_tcp_addr2 (\<lambda>s. if s = ''127.0.0.1'' then Some (127, 0, 0, 1::nat) else None) ''127.0.0.1'' 7700 =
     Inr \<lparr>ta_raw = ''127.0.0.1:7700'', ta_ep = Some ((127, 0, 0, 1), 7700), ta_valid = True\<rparr>"
proof -
  have "digits 7700 = ''7700''" by (simp add: digits.simps char_of_def bit_0)
  then show ?thesis
    using tcp_addr_round_trip [of "''127.0.0.1''" 7700 "\<lambda>s. if s = ''127.0.0.1'' then Some (127, 0, 0, 1::nat) else None"]
    by simp
qed

text \<open>An IPv6 address is cut at its first colon.\<close>

lemma tcp_addr_ipv6: "mk_tcp_addr from_string ''::1:7700'' = Inr \<lparr>ta_raw = ''::1:7700'', ta_ep = None, ta_valid = False\<rparr>"
  by (simp add: mk_tcp_addr_def Let_def)

text \<open>A failed \<open>bind\<close> comes back as a success with a failure reason.\<close>

lemma acceptor_bind_failure: "acceptor_listen True True False b = ((True, fail_acceptor_bind), False)"
  by (simp add: acceptor_listen_def)

end
