(* ===== verification/Actor_Ids.thy ===== *)
theory Actor_Ids
  imports Prelude
begin

unbundle bit_operations_syntax

text \<open>
  \<^verbatim>\<open>actor_id_generator\<close>: 64-bit ids of 40 bits of milliseconds, 16 bits of domain and 8 bits of sequence.
  The clock readings are arguments: \<open>now\<close> is the one taken before the lock, \<open>wake\<close> the one taken
  after the sleep (used only when 256 ids were made in the same millisecond).
\<close>

(* [include/wise.kernel/server/actor_id_generator.hpp:134-139 actor_id_generator] *)
record id_gen =
  ig_domain :: u16
  ig_last_ms :: u64
  ig_seq :: u16
  ig_last_id :: u64
  ig_sleep_count :: nat

(* [include/wise.kernel/server/actor_id_generator.hpp:29-32 actor_id_generator] *)
definition mk_id_gen :: id_gen where
  "mk_id_gen = \<lparr>ig_domain = 0, ig_last_ms = 0, ig_seq = 0, ig_last_id = 0, ig_sleep_count = 0\<rparr>"

text \<open>The domain is stored before it is checked: a throw leaves it set.\<close>

(* [include/wise.kernel/server/actor_id_generator.hpp:34-39 setup] *)
definition ig_setup :: "u16 \<Rightarrow> id_gen \<Rightarrow> fault option \<times> id_gen" where
  "ig_setup d g =
     (let g' = g\<lparr>ig_domain := d\<rparr>
      in if d = 0 then (Some (Throw ''domain_ must be positive number''), g')
         else if d \<ge> 0xFFFF then (Some (Throw ''domain_ number must be less than 0xFFFF''), g')
         else (None, g'))"

(* [include/wise.kernel/server/actor_id_generator.hpp:80-83 next] *)
definition make_id :: "u64 \<Rightarrow> u16 \<Rightarrow> u16 \<Rightarrow> u64" where
  "make_id now d sq =
     push_bit 24 (now AND 0xFFFFFFFFFF) OR push_bit 8 (ucast d AND 0xFFFF) OR (ucast sq AND 0xFF)"

(* [include/wise.kernel/server/actor_id_generator.hpp:42-96 next] *)
definition ig_next :: "u64 \<Rightarrow> u64 \<Rightarrow> id_gen \<Rightarrow> (u64 \<times> id_gen) res" where
  "ig_next now wake g =
     (if ig_domain g = 0 then Inl (Throw ''domain_ must be positive number'')
      else if now < ig_last_ms g then Inl (Throw ''time inverted'')
      else let (sq, ms, slept) =
             (if ig_last_ms g = now then
                let sq = (ig_seq g + 1) AND 0xFF
                in if sq = 0 then (sq, wake, 1) else (sq, now, 0)
              else (0, now, 0));
             i = make_id ms (ig_domain g) sq
           in Inr (i, g\<lparr>ig_last_ms := ms, ig_seq := sq, ig_last_id := i,
                        ig_sleep_count := ig_sleep_count g + slept\<rparr>))"

(* [include/wise.kernel/server/actor_id_generator.hpp:98-101 get_domain_of] *)
definition get_domain_of :: "u64 \<Rightarrow> u16" where
  "get_domain_of i = ucast (drop_bit 8 i AND 0x000000000000FFFF)"

section \<open>The fields of an id\<close>

lemma mask_consts:
  "(0xFFFFFFFFFF :: u64) = mask 40" "(0xFFFF :: u64) = mask 16" "(0xFF :: u64) = mask 8" "(0xFF :: u16) = mask 8"
  by (simp_all add: mask_eq_exp_minus_1)

lemma domain_of_make_id [simp]: "get_domain_of (make_id now d sq) = d"
  unfolding get_domain_of_def make_id_def mask_consts
  by (rule bit_word_eqI) (auto simp: bit_simps)

lemma seq_of_make_id: "make_id now d sq AND 0xFF = ucast sq AND 0xFF"
  unfolding make_id_def mask_consts by (rule bit_word_eqI) (auto simp: bit_simps)

lemma ms_of_make_id: "drop_bit 24 (make_id now d sq) = now AND 0xFFFFFFFFFF"
  unfolding make_id_def mask_consts by (rule bit_word_eqI) (auto simp: bit_simps dest: bit_imp_le_length)

lemma low_byte: "unat (take_bit 8 (ucast (a::u16) :: u64)) = unat a mod 256"
  unfolding unsigned_take_bit_eq unsigned_ucast_eq by (simp add: take_bit_eq_mod mod_mod_cancel)

lemma make_id_inj:
  assumes "make_id m d a = make_id m' d b" "a < 256" "b < 256" "drop_bit 40 m = drop_bit 40 m'"
  shows "m = m'" "a = b"
proof -
  have lo: "take_bit 40 m = take_bit 40 m'"
    using ms_of_make_id [of m d a] ms_of_make_id [of m' d b] assms(1) by (simp add: mask_consts take_bit_eq_mask)
  have "m = push_bit 40 (drop_bit 40 m) + take_bit 40 m" "m' = push_bit 40 (drop_bit 40 m') + take_bit 40 m'"
    by (simp_all only: bits_ident)
  then show "m = m'" using lo assms(4) by simp
  have "take_bit 8 (ucast a :: u64) = take_bit 8 (ucast b)"
    using seq_of_make_id [of m d a] seq_of_make_id [of m' d b] assms(1) by (simp add: mask_consts take_bit_eq_mask)
  then have "unat a mod 256 = unat b mod 256"
    using arg_cong [of _ _ unat] unfolding low_byte [symmetric] by blast
  then have "unat a = unat b" using assms(2,3) by (simp add: word_less_nat_alt)
  then show "a = b" by (rule unsigned_word_eqI)
qed

lemma seq_byte: "(x::u16) AND 0xFF < 256"
  unfolding mask_consts take_bit_eq_mask [symmetric] word_less_nat_alt unsigned_take_bit_eq
  by (simp add: take_bit_eq_mod)

lemma seq_step:
  assumes "(q::u16) < 256" "(q + 1) AND 0xFF \<noteq> 0"
  shows "q < (q + 1) AND 0xFF"
proof -
  have "unat ((q + 1) AND 0xFF) = (unat q + 1) mod 256"
    unfolding mask_consts take_bit_eq_mask [symmetric] unsigned_take_bit_eq
    using assms(1) by (simp add: take_bit_eq_mod unat_word_ariths word_less_nat_alt)
  moreover have "unat ((q + 1) AND 0xFF) \<noteq> 0" using assms(2) by (metis unat_eq_zero)
  moreover have "unat q < 256" using assms(1) by (simp add: word_less_nat_alt)
  ultimately show ?thesis by (cases "unat q = 255") (auto simp: word_less_nat_alt)
qed

section \<open>Runs\<close>

text \<open>The ids of a sequence of calls, each with its two clock readings.\<close>

fun ig_run :: "(u64 \<times> u64) list \<Rightarrow> id_gen \<Rightarrow> u64 list res" where
  "ig_run [] g = Inr []"
| "ig_run ((now, wake) # cs) g =
     bind_res (ig_next now wake g) (\<lambda>(i, g'). bind_res (ig_run cs g') (\<lambda>is. Inr (i # is)))"

text \<open>Ids are made from strictly increasing pairs of a time and a sequence number.\<close>

definition later :: "u64 \<times> u16 \<Rightarrow> u64 \<times> u16 \<Rightarrow> bool" where
  "later x y \<longleftrightarrow> fst x < fst y \<or> fst x = fst y \<and> snd x < snd y"

lemma later_trans: "later x y \<Longrightarrow> later y z \<Longrightarrow> later x z"
  by (cases x; cases y; cases z) (auto simp: later_def)

lemma later_distinct: "sorted_wrt later xs \<Longrightarrow> distinct xs"
  by (induction xs) (auto simp: later_def)

lemma ig_next_ok:
  assumes "ig_next now wake g = Inr (i, g')" "now < wake" "ig_seq g < 256"
    and "drop_bit 40 now = k" "drop_bit 40 wake = k"
  shows "i = make_id (ig_last_ms g') (ig_domain g) (ig_seq g')" "ig_domain g' = ig_domain g" "ig_seq g' < 256"
    and "drop_bit 40 (ig_last_ms g') = k" "later (ig_last_ms g, ig_seq g) (ig_last_ms g', ig_seq g')"
proof -
  have "\<not> now < ig_last_ms g" using assms(1) by (auto simp: ig_next_def split: if_splits)
  then have le: "ig_last_ms g \<noteq> now \<Longrightarrow> ig_last_ms g < now" by simp
  show "i = make_id (ig_last_ms g') (ig_domain g) (ig_seq g')" "ig_domain g' = ig_domain g"
    "drop_bit 40 (ig_last_ms g') = k"
    using assms(1,4,5) by (auto simp: ig_next_def Let_def split: if_splits)
  show "ig_seq g' < 256"
    using assms(1) seq_byte by (auto simp: ig_next_def Let_def split: if_splits)
  show "later (ig_last_ms g, ig_seq g) (ig_last_ms g', ig_seq g')"
    using assms(1,2) le seq_step [OF assms(3)] by (auto simp: ig_next_def Let_def later_def split: if_splits)
qed

lemma ig_run_keys:
  assumes "ig_run cs g = Inr is" "ig_seq g < 256"
    and "\<forall>(now, wake) \<in> set cs. now < wake \<and> drop_bit 40 now = k \<and> drop_bit 40 wake = k"
  shows "\<exists>keys. is = map (\<lambda>(m, q). make_id m (ig_domain g) q) keys \<and> sorted_wrt later keys \<and>
    (\<forall>(m, q) \<in> set keys. later (ig_last_ms g, ig_seq g) (m, q) \<and> q < 256 \<and> drop_bit 40 m = k)"
  using assms
proof (induction cs g arbitrary: "is" rule: ig_run.induct)
  case (1 g)
  then show ?case by simp
next
  case (2 now wake cs g)
  obtain i g' js where nx: "ig_next now wake g = Inr (i, g')" and run: "ig_run cs g' = Inr js" and "is": "is = i # js"
    using "2.prems"(1) by (auto simp: bind_res_Inr_iff)
  have c: "now < wake" "drop_bit 40 now = k" "drop_bit 40 wake = k" using "2.prems"(3) by auto
  note ok = ig_next_ok [OF nx c(1) "2.prems"(2) c(2,3)]
  obtain keys where k: "js = map (\<lambda>(m, q). make_id m (ig_domain g') q) keys" "sorted_wrt later keys"
      "\<forall>(m, q) \<in> set keys. later (ig_last_ms g', ig_seq g') (m, q) \<and> q < 256 \<and> drop_bit 40 m = k"
    using "2.IH" [OF nx refl run ok(3)] "2.prems"(3) by auto
  let ?key = "(ig_last_ms g', ig_seq g')"
  note new = ok(5,3,4)
  have "later (ig_last_ms g, ig_seq g) x" if "x \<in> set keys" for x
    using k(3) that later_trans [OF new(1)] by (cases x) blast
  then have "\<forall>(m, q) \<in> set (?key # keys). later (ig_last_ms g, ig_seq g) (m, q) \<and> q < 256 \<and> drop_bit 40 m = k"
    using new k(3) by auto
  moreover have "sorted_wrt later (?key # keys)" using k(2,3) by auto
  moreover have "is = map (\<lambda>(m, q). make_id m (ig_domain g) q) (?key # keys)"
    unfolding "is" k(1) ok(1,2) by simp
  ultimately show ?case by blast
qed

text \<open>
  C9. Actor ids are unique: as long as the readings lie in one period of \<open>2 ^ 40\<close> ms and every sleep lets
  the clock advance, the ids of any sequence of successful calls are pairwise different, and each
  carries the domain it was made in.
\<close>

theorem actor_ids_unique:
  assumes "ig_run cs g = Inr is" "ig_seq g < 256"
    and "\<forall>(now, wake) \<in> set cs. now < wake \<and> drop_bit 40 now = k \<and> drop_bit 40 wake = k"
  shows "distinct is \<and> (\<forall>i \<in> set is. get_domain_of i = ig_domain g)"
proof -
  obtain keys where k: "is = map (\<lambda>(m, q). make_id m (ig_domain g) q) keys" "sorted_wrt later keys"
      "\<forall>(m, q) \<in> set keys. later (ig_last_ms g, ig_seq g) (m, q) \<and> q < 256 \<and> drop_bit 40 m = k"
    using ig_run_keys [OF assms] by (elim exE conjE)
  have "distinct keys" using k(2) by (rule later_distinct)
  moreover have "inj_on (\<lambda>(m, q). make_id m (ig_domain g) q) (set keys)"
  proof (rule inj_onI)
    fix x y
    assume x: "x \<in> set keys" and y: "y \<in> set keys"
      and eq: "(case x of (m, q) \<Rightarrow> make_id m (ig_domain g) q) = (case y of (m, q) \<Rightarrow> make_id m (ig_domain g) q)"
    obtain m q m' q' where xy: "x = (m, q)" "y = (m', q')" by (cases x; cases y)
    then have "q < 256 \<and> drop_bit 40 m = k" "q' < 256 \<and> drop_bit 40 m' = k" using k(3) x y by fastforce+
    then show "x = y" using make_id_inj [of m "ig_domain g" q m' q'] eq xy by simp
  qed
  ultimately show ?thesis using k(1) by (auto simp: distinct_map)
qed

theorem actor_ids_unique_witness:
  "\<exists>is. ig_run [(5, 6), (5, 6), (7, 9)] (mk_id_gen\<lparr>ig_domain := 3\<rparr>) = Inr is \<and> distinct is \<and> length is = 3 \<and>
     (\<forall>i \<in> set is. get_domain_of i = 3)"
proof -
  let ?g = "mk_id_gen\<lparr>ig_domain := 3\<rparr>"
  have run: "ig_run [(5, 6), (5, 6), (7, 9)] ?g = Inr [83886848, 83886849, 117441280]"
    by (simp add: mk_id_gen_def ig_next_def make_id_def Let_def)
  have s: "ig_seq ?g < 256" by (simp add: mk_id_gen_def)
  have c: "\<forall>(now, wake) \<in> set [(5, 6), (5, 6), (7::u64, 9::u64)]. now < wake \<and> drop_bit 40 now = 0 \<and> drop_bit 40 wake = 0"
    by simp
  from actor_ids_unique [OF run s c] run show ?thesis by (simp add: mk_id_gen_def)
qed

text \<open>
  The clock is read before the lock: of two threads that read \<open>t1 < t2\<close> from a clock that never goes back, the
  first may get the lock second; it then throws although time was not inverted.
\<close>

theorem clock_read_before_lock:
  assumes "ig_last_ms g \<le> t1" "t1 < t2" "ig_last_ms g < t2" "ig_domain g \<noteq> 0" "ig_next t2 w2 g = Inr (i2, g2)"
  shows "ig_next t1 w1 g2 = Inl (Throw ''time inverted'')"
proof -
  have "ig_last_ms g2 = t2" "ig_domain g2 = ig_domain g"
    using assms(3,5) by (auto simp: ig_next_def Let_def split: if_splits)
  then show ?thesis using assms(2,4) by (simp add: ig_next_def)
qed

theorem clock_read_before_lock_witness:
  "\<exists>i g. ig_next 8 9 (mk_id_gen\<lparr>ig_domain := 3\<rparr>) = Inr (i, g) \<and> ig_next 7 9 g = Inl (Throw ''time inverted'')"
proof -
  let ?g = "mk_id_gen\<lparr>ig_domain := 3\<rparr>"
  obtain i g2 where nx: "ig_next 8 9 ?g = Inr (i, g2)"
    by (auto simp: mk_id_gen_def ig_next_def Let_def)
  have "ig_last_ms ?g \<le> 7" "(7::u64) < 8" "ig_last_ms ?g < 8" "ig_domain ?g \<noteq> 0" by (simp_all add: mk_id_gen_def)
  from clock_read_before_lock [OF this nx] nx show ?thesis by blast
qed

end
