(* ===== verification/Actor_Directory.thy ===== *)
theory Actor_Directory
  imports Channel_Map
begin

text \<open>
  \<^verbatim>\<open>actor::ref\<close>, \<^verbatim>\<open>actor_directory\<close> and \<^verbatim>\<open>actor_factory\<close>. Actors, protocols and packets are
  numbers (their identity). A reference is a value: the directory stores a copy. What a reference
  sends is an \<open>effect\<close>: to the actor's channel, or to the protocol.
\<close>

section \<open>References\<close>

(* [include/wise.kernel/server/actor.hpp:24-30 actor::mode] *)
datatype actor_mode = Mode_none | Mode_local | Mode_peer | Mode_client

(* [include/wise.kernel/server/actor.hpp:181-186 actor::ref] *)
record actor_ref =
  ar_actor :: "nat option"
  ar_id :: nat
  ar_protocol :: "nat option"
  ar_mode :: actor_mode
  ar_name :: string

(* [include/wise.kernel/server/actor.hpp:35-37 ref::ref] *)
definition ref_none :: actor_ref where
  "ref_none = \<lparr>ar_actor = None, ar_id = 0, ar_protocol = None, ar_mode = Mode_none, ar_name = []\<rparr>"

text \<open>\<open>id_of\<close> is the id an actor was constructed with.\<close>

(* [include/wise.kernel/server/actor.hpp:39-45 ref::ref] *)
definition ref_local :: "(nat \<Rightarrow> nat) \<Rightarrow> nat option \<Rightarrow> actor_ref res" where
  "ref_local id_of ap =
     (case ap of
        None \<Rightarrow> Inl (Throw ''actor is not valid'')
      | Some a \<Rightarrow> Inr (ref_none\<lparr>ar_actor := Some a, ar_mode := Mode_local, ar_id := id_of a\<rparr>))"

(* [include/wise.kernel/server/actor.hpp:47-61 ref::ref] *)
definition ref_remote :: "nat option \<Rightarrow> nat \<Rightarrow> bool \<Rightarrow> actor_ref res" where
  "ref_remote pp i is_client =
     (if i = 0 then Inl (Throw ''actor id is not valid'')
      else Inr (ref_none\<lparr>ar_protocol := pp, ar_id := i,
                          ar_mode := (if is_client then Mode_client else Mode_peer)\<rparr>))"

(* [include/wise.kernel/server/actor.hpp:156-159 ref::has_name] *)
definition ref_has_name :: "actor_ref \<Rightarrow> bool" where
  "ref_has_name r \<longleftrightarrow> length (ar_name r) > 0"

(* [include/wise.kernel/server/actor.hpp:169-179 ref::operator bool] *)
definition ref_bool :: "actor_ref \<Rightarrow> bool" where
  "ref_bool r =
     (if ar_id r = 0 then False
      else if ar_mode r = Mode_local then ar_actor r \<noteq> None else ar_protocol r \<noteq> None)"

datatype effect = To_actor nat nat | To_protocol nat nat

text \<open>\<open>ok\<close> is what the protocol's \<open>send\<close> returns; a null pointer in the reference is undefined.\<close>

(* [include/wise.kernel/server/actor.hpp:127-144 ref::send] *)
definition ref_send :: "bool \<Rightarrow> nat \<Rightarrow> actor_ref \<Rightarrow> (bool \<times> effect list) res" where
  "ref_send ok p r =
     (if ar_mode r = Mode_none then Inr (False, [])
      else if ar_mode r = Mode_local then
        (case ar_actor r of None \<Rightarrow> Inl (Undef ''null actor'') | Some a \<Rightarrow> Inr (True, [To_actor a p]))
      else (case ar_protocol r of None \<Rightarrow> Inl (Undef ''null protocol'') | Some q \<Rightarrow> Inr (ok, [To_protocol q p])))"

text \<open>A reference that tests true can be sent to.\<close>

lemma ref_bool_sends: "ref_bool r \<Longrightarrow> ar_mode r \<noteq> Mode_none \<Longrightarrow> \<exists>b e. ref_send ok p r = Inr (b, [e])"
  by (auto simp: ref_bool_def ref_send_def split: if_splits)

section \<open>The directory\<close>

(* [include/wise.kernel/server/actor_directory.hpp:104-111 actor_directory] *)
record directory =
  dir_actors :: "(nat, actor_ref) umap"
  dir_names :: "(string, nat) ix"

definition mk_directory :: directory where
  "mk_directory = \<lparr>dir_actors = [], dir_names = \<lparr>ix_map = [], ix_null = 0\<rparr>\<rparr>"

(* [include/wise.kernel/server/actor_directory.hpp:54-58 has] *)
definition dir_has :: "nat \<Rightarrow> directory \<Rightarrow> bool" where
  "dir_has i d = um_has i (dir_actors d)"

(* [include/wise.kernel/server/actor_directory.hpp:17-28 add] *)
definition dir_add :: "actor_ref \<Rightarrow> directory \<Rightarrow> (bool \<times> directory) res" where
  "dir_add r d =
     (if dir_has (ar_id r) d then Inl (Throw ''duplicate id for actor'')
      else Inr (True, d\<lparr>dir_actors := um_insert (ar_id r) r (dir_actors d)\<rparr>))"

text \<open>The name is set on the argument after a copy of it went into the map.\<close>

(* [include/wise.kernel/server/actor_directory.hpp:30-52 add] *)
definition dir_add_named :: "string \<Rightarrow> actor_ref \<Rightarrow> directory \<Rightarrow> (bool \<times> directory) res" where
  "dir_add_named name r d =
     (if ix_has name (dir_names d) then Inl (Throw ''name already exists in index'')
      else bind_res (dir_add r d) (\<lambda>(ok, d1).
        if ok then let r' = r\<lparr>ar_name := name\<rparr>
                   in Inr (True, d1\<lparr>dir_names := ix_set name (ar_id r') (dir_names d1)\<rparr>)
        else Inr (False, d1)))"

(* [include/wise.kernel/server/actor_directory.hpp:60-71 get] *)
definition dir_get :: "nat \<Rightarrow> directory \<Rightarrow> actor_ref" where
  "dir_get i d = (case um_find i (dir_actors d) of Some r \<Rightarrow> r | None \<Rightarrow> ref_none)"

(* [include/wise.kernel/server/actor_directory.hpp:73-84 get] *)
definition dir_get_name :: "string \<Rightarrow> directory \<Rightarrow> actor_ref" where
  "dir_get_name name d = (let i = ix_get name (dir_names d) in dir_get i d)"

(* [include/wise.kernel/server/actor_directory.hpp:86-100 del] *)
definition dir_del :: "nat \<Rightarrow> directory \<Rightarrow> directory" where
  "dir_del i d =
     (let r = dir_get i d;
          d1 = d\<lparr>dir_actors := um_erase i (dir_actors d)\<rparr>
      in if ref_has_name r then d1\<lparr>dir_names := ix_unset (ar_name r) (dir_names d1)\<rparr> else d1)"

(* [src/server/actor_directory.cpp:17-22 cleanup] *)
definition dir_cleanup :: "directory \<Rightarrow> directory" where
  "dir_cleanup d = d\<lparr>dir_actors := []\<rparr>"

section \<open>The factory\<close>

text \<open>A creator maps an id to an actor.\<close>

(* [src/server/actor_factory.cpp:14-20 actor_factory::add] *)
definition af_add :: "string \<Rightarrow> (nat \<Rightarrow> nat) \<Rightarrow> (string, nat \<Rightarrow> nat) umap \<Rightarrow> (string, nat \<Rightarrow> nat) umap" where
  "af_add ty c m = (if um_has ty m then m else um_set ty c m)"

(* [src/server/actor_factory.cpp:22-27 actor_factory::has] *)
definition af_has :: "string \<Rightarrow> (string, nat \<Rightarrow> nat) umap \<Rightarrow> bool" where
  "af_has ty m = um_has ty m"

(* [src/server/actor_factory.cpp:29-38 actor_factory::create] *)
definition af_create :: "string \<Rightarrow> nat \<Rightarrow> (string, nat \<Rightarrow> nat) umap \<Rightarrow> nat option" where
  "af_create ty i m = (case um_find ty m of None \<Rightarrow> None | Some c \<Rightarrow> Some (c i))"

section \<open>Laws\<close>

lemma um_has_find: "um_has k m \<longleftrightarrow> um_find k m \<noteq> None"
  by (simp add: um_has_def)

lemma dir_add_get:
  assumes "dir_add r d = Inr (ok, d')"
  shows "dir_get (ar_id r) d' = r" "j \<noteq> ar_id r \<Longrightarrow> dir_get j d' = dir_get j d"
  using assms by (auto simp: dir_add_def dir_has_def um_has_find dir_get_def split: if_splits)

lemma dir_add_named_get:
  assumes "dir_add_named name r d = Inr (ok, d')"
  shows "dir_get_name name d' = r" "dir_get (ar_id r) d' = r" "ix_has name (dir_names d')"
proof -
  obtain d1 where a: "dir_add r d = Inr (True, d1)" "d' = d1\<lparr>dir_names := ix_set name (ar_id r) (dir_names d1)\<rparr>"
    using assms by (auto simp: dir_add_named_def dir_add_def bind_res_Inr_iff split: if_splits)
  then show g: "dir_get (ar_id r) d' = r" using dir_add_get(1) [OF a(1)] by (simp add: dir_get_def)
  show "dir_get_name name d' = r" using g by (simp add: dir_get_name_def a(2) ix_get_def ix_set_def)
  show "ix_has name (dir_names d')" by (simp add: a(2) ix_has_def ix_set_def um_has_find)
qed

text \<open>
  A name outlives its actor: after an actor was added under a name (with a reference that has no name yet, as every new
  one) and deleted, the name resolves to the empty reference but is still taken, so no actor can be
  added under it again.
\<close>

theorem deleted_name_stays_taken:
  assumes "dir_add_named name r d = Inr (ok, d1)" "ar_name r = []"
  shows "dir_get_name name d1 = r \<and> dir_get_name name (dir_del (ar_id r) d1) = ref_none \<and>
    dir_add_named name r' (dir_del (ar_id r) d1) = Inl (Throw ''name already exists in index'')"
proof -
  note g = dir_add_named_get [OF assms(1)]
  have del: "dir_del (ar_id r) d1 = d1\<lparr>dir_actors := um_erase (ar_id r) (dir_actors d1)\<rparr>"
    using g(2) assms(2) by (simp add: dir_del_def ref_has_name_def)
  have "ix_get name (dir_names d1) = ar_id r"
    using assms(1) by (auto simp: dir_add_named_def dir_add_def bind_res_Inr_iff ix_get_def ix_set_def split: if_splits)
  then have "dir_get_name name (dir_del (ar_id r) d1) = ref_none"
    by (simp add: del dir_get_name_def dir_get_def)
  then show ?thesis using g(1,3) by (simp add: del dir_add_named_def)
qed

theorem deleted_name_stays_taken_witness:
  "\<exists>d1. dir_add_named ''lobby'' (ref_none\<lparr>ar_actor := Some 4, ar_mode := Mode_local, ar_id := 9\<rparr>) mk_directory = Inr (True, d1) \<and>
     dir_get_name ''lobby'' (dir_del 9 d1) = ref_none \<and>
     dir_add_named ''lobby'' ref_none (dir_del 9 d1) = Inl (Throw ''name already exists in index'')"
proof -
  let ?r = "ref_none\<lparr>ar_actor := Some 4, ar_mode := Mode_local, ar_id := 9\<rparr>"
  obtain d1 where a: "dir_add_named ''lobby'' ?r mk_directory = Inr (True, d1)"
    by (simp add: dir_add_named_def dir_add_def dir_has_def mk_directory_def ix_has_def um_has_find)
  have n: "ar_name ?r = []" by (simp add: ref_none_def)
  from deleted_name_stays_taken [OF a n, of ref_none] a show ?thesis by auto
qed

end
