(* ===== verification/Actor_Cluster.thy ===== *)
theory Actor_Cluster
  imports Actor_Directory Tcp_Node
begin

text \<open>
  \<^verbatim>\<open>actor_cluster\<close>: the connections to the configured remotes and the peers behind them, as handlers of
  the node's events and of the cluster packets. What a handler does to other components is recorded:
  \<open>cl_timers\<close> are the reconnect requests its timer holds, \<open>cl_connects\<close> the calls of
  \<^verbatim>\<open>server::connect\<close>, \<open>cl_sent\<close> the protocols a \<^verbatim>\<open>syn_peer_up\<close> went to, \<open>cl_down\<close> the domains
  reported down, \<open>cl_closed\<close> the protocols disconnected. What a protocol is (its id, the address
  of its other end, who opened it) is an argument.
\<close>

section \<open>State\<close>

(* [include/wise.kernel/server/actor_cluster.hpp:57-63 remote::state] *)
datatype remote_state = R_created | R_connecting | R_disconnected | R_connected

(* [include/wise.kernel/server/actor_cluster.hpp:70-74 peer] *)
record peer =
  pe_protocol :: nat
  pe_domain :: u16

record protos =
  pr_id :: "nat \<Rightarrow> nat"
  pr_remote_addr :: "nat \<Rightarrow> string"
  pr_accepted :: "nat \<Rightarrow> bool"

(* [include/wise.kernel/server/actor_cluster.hpp:108-116 actor_cluster] *)
record cluster =
  cl_remotes :: "(string, remote_state) umap"
  cl_peers :: "(nat, peer) umap"
  cl_timers :: "string list"
  cl_connects :: "string list"
  cl_sent :: "nat list"
  cl_bound :: "nat list"
  cl_down :: "u16 list"
  cl_closed :: "nat list"

section \<open>Operations\<close>

text \<open>\<open>setup\<close> after the JSON configuration was read: the addresses of the remotes.\<close>

(* [src/server/actor_cluster.cpp:41-55 actor_cluster::setup] *)
definition cl_setup :: "string list \<Rightarrow> cluster" where
  "cl_setup addrs =
     \<lparr>cl_remotes = fold (\<lambda>a m. um_insert a R_created m) addrs [], cl_peers = [], cl_timers = [], cl_connects = [],
      cl_sent = [], cl_bound = [], cl_down = [], cl_closed = []\<rparr>"

text \<open>\<open>listened\<close> is the result of listening, \<open>None\<close> when no address is configured.\<close>

(* [src/server/actor_cluster.cpp:58-85 actor_cluster::start] *)
definition cl_start :: "bool option \<Rightarrow> cluster \<Rightarrow> bool \<times> cluster" where
  "cl_start listened c =
     (if listened = Some False then (False, c)
      else (True, c\<lparr>cl_remotes := map (\<lambda>(a, s). (a, if s = R_created then R_connecting else s)) (cl_remotes c),
                    cl_connects := cl_connects c @ [a. (a, s) \<leftarrow> cl_remotes c, s = R_created]\<rparr>))"

(* [src/server/actor_cluster.cpp:92-103 actor_cluster::finish] *)
definition cl_finish :: "cluster \<Rightarrow> cluster" where
  "cl_finish c = c\<lparr>cl_closed := cl_closed c @ map (\<lambda>(_, p). pe_protocol p) (cl_peers c), cl_peers := [], cl_remotes := []\<rparr>"

(* [src/server/actor_cluster.cpp:311-319 actor_cluster::send_syn_peer_up] *)
definition send_syn_peer_up :: "nat \<Rightarrow> cluster \<Rightarrow> cluster" where
  "send_syn_peer_up p c = c\<lparr>cl_sent := cl_sent c @ [p]\<rparr>"

(* [src/server/actor_cluster.cpp:149-171 actor_cluster::on_syn_peer_up] *)
definition on_syn_peer_up :: "protos \<Rightarrow> nat \<Rightarrow> u16 \<Rightarrow> cluster \<Rightarrow> cluster" where
  "on_syn_peer_up pr p domain c =
     (case um_find (pr_id pr p) (cl_peers c) of
        None \<Rightarrow> c
      | Some pe \<Rightarrow>
          let c1 = c\<lparr>cl_peers := um_adjust (pr_id pr p) (\<lambda>e. e\<lparr>pe_domain := domain\<rparr>) (cl_peers c)\<rparr>
          in if \<not> pr_accepted pr (pe_protocol pe) then send_syn_peer_up (pe_protocol pe) c1 else c1)"

(* [src/server/actor_cluster.cpp:191-196 actor_cluster::on_peer_down] *)
definition on_peer_down :: "u16 \<Rightarrow> cluster \<Rightarrow> cluster" where
  "on_peer_down domain c = c\<lparr>cl_down := cl_down c @ [domain]\<rparr>"

(* [src/server/actor_cluster.cpp:173-177 actor_cluster::on_syn_peer_down] *)
definition on_syn_peer_down :: "u16 \<Rightarrow> cluster \<Rightarrow> cluster" where
  "on_syn_peer_down domain c = on_peer_down domain c"

(* [src/server/actor_cluster.cpp:198-223 actor_cluster::on_connected] *)
definition cl_on_connected :: "protos \<Rightarrow> nat \<Rightarrow> cluster \<Rightarrow> cluster" where
  "cl_on_connected pr p c =
     (let a = pr_remote_addr pr p
      in if um_has a (cl_remotes c) then
           c\<lparr>cl_bound := cl_bound c @ [p], cl_remotes := um_adjust a (\<lambda>_. R_connected) (cl_remotes c),
             cl_peers := um_insert (pr_id pr p) \<lparr>pe_protocol = p, pe_domain = 0\<rparr> (cl_peers c)\<rparr>
         else c)"

text \<open>\<open>mp\<close> is the protocol the event was bound to; binding through a null pointer is undefined.\<close>

(* [src/server/actor_cluster.cpp:225-242 actor_cluster::on_connect_failed] *)
definition cl_on_connect_failed :: "nat option \<Rightarrow> string \<Rightarrow> cluster \<Rightarrow> cluster res" where
  "cl_on_connect_failed mp a c =
     (if um_has a (cl_remotes c) then
        (case mp of
           None \<Rightarrow> Inl (Undef ''null protocol'')
         | Some p \<Rightarrow> Inr (c\<lparr>cl_bound := cl_bound c @ [p],
                            cl_remotes := um_adjust a (\<lambda>_. R_disconnected) (cl_remotes c),
                            cl_timers := cl_timers c @ [a]\<rparr>))
      else Inr c)"

(* [src/server/actor_cluster.cpp:244-259 actor_cluster::on_accepted] *)
definition cl_on_accepted :: "protos \<Rightarrow> nat \<Rightarrow> cluster \<Rightarrow> cluster" where
  "cl_on_accepted pr p c =
     send_syn_peer_up p
       (c\<lparr>cl_bound := cl_bound c @ [p],
          cl_peers := um_insert (pr_id pr p) \<lparr>pe_protocol = p, pe_domain = 0\<rparr> (cl_peers c)\<rparr>)"

(* [src/server/actor_cluster.cpp:261-296 actor_cluster::on_disconnected] *)
definition cl_on_disconnected :: "protos \<Rightarrow> nat \<Rightarrow> cluster \<Rightarrow> cluster" where
  "cl_on_disconnected pr p c =
     (let a = pr_remote_addr pr p;
          c1 = (if um_has a (cl_remotes c)
                then c\<lparr>cl_remotes := um_adjust a (\<lambda>_. R_disconnected) (cl_remotes c), cl_timers := cl_timers c @ [a]\<rparr>
                else c)
      in case um_find (pr_id pr p) (cl_peers c1) of
           None \<Rightarrow> c1
         | Some pe \<Rightarrow> (on_peer_down (pe_domain pe) c1)\<lparr>cl_peers := um_erase (pr_id pr p) (cl_peers c1)\<rparr>)"

(* [src/server/actor_cluster.cpp:298-309 actor_cluster::reconnect] *)
definition cl_reconnect :: "string \<Rightarrow> cluster \<Rightarrow> cluster" where
  "cl_reconnect a c =
     (if um_has a (cl_remotes c)
      then c\<lparr>cl_remotes := um_adjust a (\<lambda>_. R_connecting) (cl_remotes c), cl_connects := cl_connects c @ [a]\<rparr>
      else c)"

section \<open>One connection attempt per remote\<close>

text \<open>
  \<open>pending\<close> are the calls of \<^verbatim>\<open>connect\<close> the node has not answered, \<open>live\<close> the protocols it opened for
  them that are not disconnected, \<open>inward\<close> the accepted ones. An accepted connection comes from
  another port than the one a remote listens on.
\<close>

record cl_world =
  cw :: cluster
  pending :: "string list"
  live :: "nat list"
  inward :: "nat list"

definition attempts :: "protos \<Rightarrow> string \<Rightarrow> cl_world \<Rightarrow> nat" where
  "attempts pr a w = count_list (pending w) a + count_list (cl_timers (cw w)) a + count_list (map (pr_remote_addr pr) (live w)) a"

inductive cl_reach :: "protos \<Rightarrow> string list \<Rightarrow> cl_world \<Rightarrow> bool" for pr addrs where
  Start: "listened \<noteq> Some False \<Longrightarrow> cl_start listened (cl_setup addrs) = (True, c) \<Longrightarrow>
    cl_reach pr addrs \<lparr>cw = c, pending = cl_connects c, live = [], inward = []\<rparr>"
| Connected: "cl_reach pr addrs w \<Longrightarrow> pr_remote_addr pr p \<in> set (pending w) \<Longrightarrow>
    cl_reach pr addrs (w\<lparr>cw := cl_on_connected pr p (cw w), pending := remove1 (pr_remote_addr pr p) (pending w),
                         live := p # live w\<rparr>)"
| Accepted: "cl_reach pr addrs w \<Longrightarrow> pr_remote_addr pr p \<notin> set addrs \<Longrightarrow>
    cl_reach pr addrs (w\<lparr>cw := cl_on_accepted pr p (cw w), inward := p # inward w\<rparr>)"
| Disconnected: "cl_reach pr addrs w \<Longrightarrow> p \<in> set (live w) \<Longrightarrow>
    cl_reach pr addrs (w\<lparr>cw := cl_on_disconnected pr p (cw w), live := remove1 p (live w)\<rparr>)"
| Left: "cl_reach pr addrs w \<Longrightarrow> p \<in> set (inward w) \<Longrightarrow>
    cl_reach pr addrs (w\<lparr>cw := cl_on_disconnected pr p (cw w), inward := remove1 p (inward w)\<rparr>)"
| Fire: "cl_reach pr addrs w \<Longrightarrow> a \<in> set (cl_timers (cw w)) \<Longrightarrow>
    cl_reach pr addrs (w\<lparr>cw := cl_reconnect a ((cw w)\<lparr>cl_timers := remove1 a (cl_timers (cw w))\<rparr>), pending := a # pending w\<rparr>)"
| Peer_up: "cl_reach pr addrs w \<Longrightarrow> cl_reach pr addrs (w\<lparr>cw := on_syn_peer_up pr p d (cw w)\<rparr>)"
| Peer_down: "cl_reach pr addrs w \<Longrightarrow> cl_reach pr addrs (w\<lparr>cw := on_syn_peer_down d (cw w)\<rparr>)"

definition expected :: "cl_world \<Rightarrow> string \<Rightarrow> remote_state" where
  "expected w a = (if a \<in> set (pending w) then R_connecting
                   else if a \<in> set (cl_timers (cw w)) then R_disconnected else R_connected)"

definition cl_inv :: "protos \<Rightarrow> string list \<Rightarrow> cl_world \<Rightarrow> bool" where
  "cl_inv pr addrs w \<longleftrightarrow>
     (\<forall>a. um_has a (cl_remotes (cw w)) \<longleftrightarrow> a \<in> set addrs) \<and>
     (\<forall>a \<in> set addrs. attempts pr a w = 1) \<and>
     (\<forall>a. a \<notin> set addrs \<longrightarrow> attempts pr a w = 0) \<and>
     (\<forall>p \<in> set (inward w). pr_remote_addr pr p \<notin> set addrs) \<and>
     (\<forall>a s. um_find a (cl_remotes (cw w)) = Some s \<longrightarrow> s = expected w a)"

lemma count_remove1:
  "x \<in> set xs \<Longrightarrow> count_list (remove1 x xs) a = (if x = a then count_list xs a - 1 else count_list xs a)"
  by (induction xs) auto

lemma count_map_remove1:
  "x \<in> set xs \<Longrightarrow> count_list (map f (remove1 x xs)) a + (if f x = a then 1 else 0) = count_list (map f xs) a"
  by (induction xs) auto

lemma count_pos: "x \<in> set xs \<longleftrightarrow> 0 < count_list xs x"
  by (metis count_list_0_iff neq0_conv)

lemma um_has_adjust [simp]: "um_has a (um_adjust k f m) = um_has a m"
  by (auto simp: um_has_def)

text \<open>Where the one attempt of a remote is.\<close>

lemma cl_inv_where:
  assumes "cl_inv pr addrs w"
  shows "a \<in> set (pending w) \<Longrightarrow> a \<in> set addrs \<and> count_list (pending w) a = 1 \<and> a \<notin> set (cl_timers (cw w)) \<and>
      a \<notin> pr_remote_addr pr ` set (live w)"
    and "a \<in> set (cl_timers (cw w)) \<Longrightarrow> a \<in> set addrs \<and> count_list (cl_timers (cw w)) a = 1 \<and> a \<notin> set (pending w) \<and>
      a \<notin> pr_remote_addr pr ` set (live w)"
    and "a \<in> pr_remote_addr pr ` set (live w) \<Longrightarrow> a \<in> set addrs \<and> a \<notin> set (pending w) \<and> a \<notin> set (cl_timers (cw w))"
proof -
  have n: "attempts pr a w = (if a \<in> set addrs then 1 else 0)" using assms by (simp add: cl_inv_def)
  have l: "a \<in> pr_remote_addr pr ` set (live w) \<longleftrightarrow> 0 < count_list (map (pr_remote_addr pr) (live w)) a"
    using count_pos [of a "map (pr_remote_addr pr) (live w)"] by simp
  show "a \<in> set (pending w) \<Longrightarrow> a \<in> set addrs \<and> count_list (pending w) a = 1 \<and> a \<notin> set (cl_timers (cw w)) \<and>
      a \<notin> pr_remote_addr pr ` set (live w)"
    "a \<in> set (cl_timers (cw w)) \<Longrightarrow> a \<in> set addrs \<and> count_list (cl_timers (cw w)) a = 1 \<and> a \<notin> set (pending w) \<and>
      a \<notin> pr_remote_addr pr ` set (live w)"
    "a \<in> pr_remote_addr pr ` set (live w) \<Longrightarrow> a \<in> set addrs \<and> a \<notin> set (pending w) \<and> a \<notin> set (cl_timers (cw w))"
    using n unfolding l unfolding count_pos attempts_def by (auto split: if_splits)
qed

text \<open>A step moves the attempt of one remote and leaves the others.\<close>

lemma cl_inv_move:
  assumes inv: "cl_inv pr addrs w" and a: "a \<in> set addrs"
    and n: "\<And>b. attempts pr b w' = attempts pr b w"
    and rem: "cl_remotes (cw w') = um_adjust a (\<lambda>_. st) (cl_remotes (cw w))"
    and st: "st = expected w' a"
    and pend: "\<And>b. b \<noteq> a \<Longrightarrow> b \<in> set (pending w') \<longleftrightarrow> b \<in> set (pending w)"
    and tim: "\<And>b. b \<noteq> a \<Longrightarrow> b \<in> set (cl_timers (cw w')) \<longleftrightarrow> b \<in> set (cl_timers (cw w))"
    and inw: "inward w' = inward w"
  shows "cl_inv pr addrs w'"
proof -
  have "s = expected w' b" if f: "um_find b (cl_remotes (cw w')) = Some s" for b s
  proof (cases "b = a")
    case True
    then show ?thesis using f rem st by (auto split: option.splits)
  next
    case False
    then have "um_find b (cl_remotes (cw w)) = Some s" using f rem by simp
    then have "s = expected w b" using inv by (simp add: cl_inv_def)
    then show ?thesis using pend [OF False] tim [OF False] by (simp add: expected_def)
  qed
  then show ?thesis using inv by (simp add: cl_inv_def n rem inw)
qed

text \<open>A step that touches neither the remotes nor the attempts.\<close>

lemma cl_inv_quiet:
  assumes "cl_inv pr addrs w" "cl_remotes (cw w') = cl_remotes (cw w)" "cl_timers (cw w') = cl_timers (cw w)"
    and "pending w' = pending w" "live w' = live w" "\<forall>p \<in> set (inward w'). pr_remote_addr pr p \<notin> set addrs"
  shows "cl_inv pr addrs w'"
proof -
  have "expected w' = expected w" using assms(3,4) by (simp add: expected_def fun_eq_iff)
  then show ?thesis using assms by (simp add: cl_inv_def attempts_def)
qed

lemma cl_setup_remotes:
  "um_ok (fold (\<lambda>a m. um_insert a R_created m) as m) = um_ok m" if "um_ok m"
  using that by (induction as arbitrary: m) auto

lemma cl_setup_find:
  "um_find a (fold (\<lambda>a m. um_insert a R_created m) as m) =
     (case um_find a m of Some s \<Rightarrow> Some s | None \<Rightarrow> if a \<in> set as then Some R_created else None)"
  by (induction as arbitrary: m) (auto split: option.splits)

lemma find_map_values: "um_find a (map (\<lambda>(k, s). (k, f s)) m) = map_option f (um_find a m)"
  by (induction m) (auto simp: um_find_Cons)

lemma count_distinct: "distinct xs \<Longrightarrow> count_list xs a = (if a \<in> set xs then 1 else 0)"
  by (induction xs) auto

lemma created_keys:
  "\<forall>(a, s) \<in> set m. s = R_created \<Longrightarrow> [a. (a, s) \<leftarrow> m, s = R_created] = map fst m"
  by (induction m) auto

lemma cl_inv_start:
  assumes "listened \<noteq> Some False" "cl_start listened (cl_setup addrs) = (True, c)"
  shows "cl_inv pr addrs \<lparr>cw = c, pending = cl_connects c, live = [], inward = []\<rparr>"
proof -
  let ?m = "cl_remotes (cl_setup addrs)"
  have ok: "um_ok ?m" using cl_setup_remotes [of "[]" addrs] by (simp add: cl_setup_def)
  have find: "um_find a ?m = (if a \<in> set addrs then Some R_created else None)" for a
    by (simp add: cl_setup_def cl_setup_find)
  then have all: "(a, s) \<in> set ?m \<Longrightarrow> s = R_created" for a s
    using um_find_mem [OF ok, of a s] by (auto split: if_splits)
  then have con: "[a. (a, s) \<leftarrow> ?m, s = R_created] = map fst ?m"
    by (intro created_keys) auto
  have "a \<in> set (map fst ?m) \<longleftrightarrow> a \<in> set addrs" for a
    using find [of a] um_has_iff [of a ?m] by (simp add: um_has_def split: if_splits)
  then have keys: "set (map fst ?m) = set addrs" by blast
  have c: "cl_connects c = map fst ?m" "cl_timers c = []"
      "cl_remotes c = map (\<lambda>(a, s). (a, if s = R_created then R_connecting else s)) ?m"
    using assms con by (auto simp: cl_start_def cl_setup_def)
  have "um_find a (cl_remotes c) = (if a \<in> set addrs then Some R_connecting else None)" for a
    using find [of a] by (simp add: c(3) find_map_values)
  moreover have "count_list (map fst ?m) a = (if a \<in> set addrs then 1 else 0)" for a
    using count_distinct [of "map fst ?m" a] ok keys by (simp add: um_ok_def)
  ultimately show ?thesis
    using keys by (auto simp: cl_inv_def attempts_def expected_def um_has_def c split: if_splits)
qed

lemma cl_on_disconnected_sel:
  "cl_remotes (cl_on_disconnected pr p c) = (if um_has (pr_remote_addr pr p) (cl_remotes c)
     then um_adjust (pr_remote_addr pr p) (\<lambda>_. R_disconnected) (cl_remotes c) else cl_remotes c)"
  "cl_timers (cl_on_disconnected pr p c) = (if um_has (pr_remote_addr pr p) (cl_remotes c)
     then cl_timers c @ [pr_remote_addr pr p] else cl_timers c)"
  by (auto simp: cl_on_disconnected_def Let_def on_peer_down_def split: option.splits)

lemma cl_reach_inv: "cl_reach pr addrs w \<Longrightarrow> cl_inv pr addrs w"
proof (induction rule: cl_reach.induct)
  case (Start listened c)
  then show ?case by (rule cl_inv_start)
next
  case (Connected w p)
  let ?a = "pr_remote_addr pr p"
  note at = cl_inv_where(1) [OF Connected.IH Connected.hyps(2)]
  have "um_has ?a (cl_remotes (cw w))" using at Connected.IH by (simp add: cl_inv_def)
  moreover have "?a \<notin> set (remove1 ?a (pending w))"
    using at count_remove1 [OF Connected.hyps(2), of ?a] count_pos [of ?a] by simp
  ultimately show ?case
    using at Connected.hyps(2)
    by (intro cl_inv_move [OF Connected.IH, of ?a _ R_connected])
       (auto simp: attempts_def count_remove1 cl_on_connected_def Let_def expected_def)
next
  case (Disconnected w p)
  let ?a = "pr_remote_addr pr p"
  have "?a \<in> pr_remote_addr pr ` set (live w)" using Disconnected.hyps(2) by simp
  note at = cl_inv_where(3) [OF Disconnected.IH this]
  have "um_has ?a (cl_remotes (cw w))" using at Disconnected.IH by (simp add: cl_inv_def)
  then show ?case
    using at
    by (intro cl_inv_move [OF Disconnected.IH, of ?a _ R_disconnected])
       (auto simp: attempts_def cl_on_disconnected_sel expected_def
         count_map_remove1 [OF Disconnected.hyps(2), of "pr_remote_addr pr", symmetric])
next
  case (Left w p)
  then have "\<not> um_has (pr_remote_addr pr p) (cl_remotes (cw w))" by (auto simp: cl_inv_def)
  moreover have "\<forall>q \<in> set (inward w). pr_remote_addr pr q \<notin> set addrs" using Left.IH by (simp add: cl_inv_def)
  ultimately show ?case
    using set_remove1_subset [of p "inward w"]
    by (intro cl_inv_quiet [OF Left.IH]) (auto simp: cl_on_disconnected_sel)
next
  case (Fire w a)
  note at = cl_inv_where(2) [OF Fire.IH Fire.hyps(2)]
  have "um_has a (cl_remotes (cw w))" using at Fire.IH by (simp add: cl_inv_def)
  then show ?case
    using at Fire.hyps(2)
    by (intro cl_inv_move [OF Fire.IH, of a _ R_connecting])
       (auto simp: attempts_def count_remove1 cl_reconnect_def expected_def)
next
  case (Accepted w p)
  have "\<forall>q \<in> set (inward w). pr_remote_addr pr q \<notin> set addrs" using Accepted.IH by (simp add: cl_inv_def)
  then show ?case
    using Accepted.hyps(2)
    by (intro cl_inv_quiet [OF Accepted.IH]) (auto simp: cl_on_accepted_def send_syn_peer_up_def)
next
  case (Peer_up w p d)
  then show ?case
    by (intro cl_inv_quiet [OF Peer_up.IH])
       (auto simp: on_syn_peer_up_def send_syn_peer_up_def Let_def cl_inv_def split: option.splits)
next
  case (Peer_down w d)
  then show ?case
    by (intro cl_inv_quiet [OF Peer_down.IH]) (auto simp: on_syn_peer_down_def on_peer_down_def cl_inv_def)
qed

section \<open>Properties\<close>

lemma one_attempt_parts:
  assumes "cl_reach pr addrs w"
  shows "attempts pr a w = (if a \<in> set addrs then 1 else 0)"
    and "um_find a (cl_remotes (cw w)) = (if a \<in> set addrs then Some (expected w a) else None)"
proof -
  have inv: "cl_inv pr addrs w" using assms by (rule cl_reach_inv)
  then show "attempts pr a w = (if a \<in> set addrs then 1 else 0)" by (simp add: cl_inv_def)
  have "um_has a (cl_remotes (cw w)) \<longleftrightarrow> a \<in> set addrs" using inv by (simp add: cl_inv_def)
  moreover have "\<And>s. um_find a (cl_remotes (cw w)) = Some s \<Longrightarrow> s = expected w a" using inv by (simp add: cl_inv_def)
  ultimately show "um_find a (cl_remotes (cw w)) = (if a \<in> set addrs then Some (expected w a) else None)"
    by (auto simp: um_has_def)
qed


definition one_peer :: protos where
  "one_peer = \<lparr>pr_id = (\<lambda>p. p + 10), pr_remote_addr = (\<lambda>_. ''h:1''), pr_accepted = (\<lambda>_. False)\<rparr>"

definition one_peer_up :: cl_world where
  "one_peer_up =
     (let c = snd (cl_start None (cl_setup [''h:1'', ''k:2''])) in
      \<lparr>cw = cl_on_connected one_peer 0 c, pending = [''k:2''], live = [0], inward = []\<rparr>)"

definition one_peer_down :: cl_world where
  "one_peer_down = one_peer_up\<lparr>cw := cl_on_disconnected one_peer 0 (cw one_peer_up), live := []\<rparr>"

lemma one_peer_down_reach: "cl_reach one_peer [''h:1'', ''k:2''] one_peer_down"
proof -
  let ?c = "snd (cl_start None (cl_setup [''h:1'', ''k:2'']))"
  let ?w = "\<lparr>cw = ?c, pending = cl_connects ?c, live = [], inward = []\<rparr>"
  have pend: "cl_connects ?c = [''h:1'', ''k:2''] \<or> cl_connects ?c = [''k:2'', ''h:1'']" by code_simp
  have "cl_reach one_peer [''h:1'', ''k:2''] ?w"
    by (rule cl_reach.Start [of None]) (simp_all add: cl_start_def)
  from cl_reach.Connected [OF this, of 0] have "cl_reach one_peer [''h:1'', ''k:2''] one_peer_up"
    using pend by (auto simp: one_peer_up_def one_peer_def Let_def)
  from cl_reach.Disconnected [OF this, of 0] show ?thesis
    by (simp add: one_peer_down_def one_peer_up_def Let_def)
qed


text \<open>The protocol \<^verbatim>\<open>bits_node\<close> binds a notice to: \<^verbatim>\<open>notify_connect_failed\<close> binds none.\<close>

(* [include/wise.kernel/net/packet.hpp:36-39 packet::get_protocol] *)
fun notice_protocol :: "notice \<Rightarrow> nat option" where
  "notice_protocol (Syn_accepted p) = Some p"
| "notice_protocol (Syn_connected p) = Some p"
| "notice_protocol (Syn_connect_failed _ _) = None"
| "notice_protocol (Syn_disconnected p _) = Some p"

text \<open>A subscriber of the cluster's channel takes the notices the node publishes there.\<close>

(* [src/server/actor_cluster.cpp:15-18 actor_cluster::setup] *)
fun cl_on_notice :: "protos \<Rightarrow> notice \<Rightarrow> cluster \<Rightarrow> cluster res" where
  "cl_on_notice pr (Syn_accepted p) c = Inr (cl_on_accepted pr p c)"
| "cl_on_notice pr (Syn_connected p) c = Inr (cl_on_connected pr p c)"
| "cl_on_notice pr (Syn_connect_failed a ec) c = cl_on_connect_failed (notice_protocol (Syn_connect_failed a ec)) a c"
| "cl_on_notice pr (Syn_disconnected p _) c = Inr (cl_on_disconnected pr p c)"

text \<open>
  A connection attempt to a configured remote that fails ends in undefined behaviour: the node
  releases the connector and publishes on the cluster's channel one notice, which is bound to no
  protocol, and the cluster's handler of it calls \<^verbatim>\<open>bind\<close> through that null pointer before it
  would arm the reconnect timer.
\<close>

theorem connect_failed_crashes:
  assumes "nd_connectors n k = Some (a, ch')" "ec \<noteq> 0" "um_has a (cl_remotes c)"
  shows "\<exists>n' m. connector_on_connected k ec soc ch n = Inr n' \<and> nd_connectors n' k = None \<and>
    nd_published n' = nd_published n @ [(ch, m)] \<and> cl_on_notice pr m c = Inl (Undef ''null protocol'')"
  using assms
  by (intro exI [of _ "on_connect_failed k ec ch n"] exI [of _ "Syn_connect_failed a ec"])
     (auto simp: connector_on_connected_def on_connect_failed_def notify_connect_failed_def cl_on_connect_failed_def)

definition dialling :: node_state where
  "dialling = mk_node\<lparr>nd_connectors := [4 \<mapsto> (''h:1'', 7)]\<rparr>"

theorem connect_failed_crashes_witness:
  "\<exists>n' m. connector_on_connected 4 2 0 7 dialling = Inr n' \<and> nd_connectors n' 4 = None \<and>
    nd_published n' = nd_published dialling @ [(7, m)] \<and>
    cl_on_notice one_peer m (snd (cl_start None (cl_setup [''h:1'']))) = Inl (Undef ''null protocol'')"
proof (rule connect_failed_crashes)
  show "nd_connectors dialling 4 = Some (''h:1'', 7)" by (simp add: dialling_def)
  show "um_has ''h:1'' (cl_remotes (snd (cl_start None (cl_setup [''h:1'']))))" by code_simp
qed simp

end
