(* ===== verification/Server.thy ===== *)
theory Server
  imports Actor_Cluster Task_Runners
begin

text \<open>
  \<^verbatim>\<open>server\<close>: starting and finishing the node, the scheduler and the cluster, with the
  \<^verbatim>\<open>cleanup_stack\<close> that undoes a start that fails half way. Threads are their join state: a runner can be
  joined once. What comes from outside is an argument: \<open>hw\<close> the number of cores, \<open>up\<close> the outcome of
  opening the acceptor, \<open>meanwhile\<close> what the runners make of the scheduler while the cluster starts,
  \<open>evs\<close> the errors reported while the node finishes, \<open>bh\<close> the behaviour of the tasks.
\<close>

section \<open>The cleanup stack\<close>

(* [include/wise.kernel/server/cleanup_stack.hpp:40-42 cleanup_stack] *)
record 'f cleanup_stack =
  cs_stack :: "'f list"
  cs_failed :: bool

(* [include/wise.kernel/server/cleanup_stack.hpp:13-13 cleanup_stack::cleanup_stack] *)
definition mk_cleanup :: "'f cleanup_stack" where
  "mk_cleanup = \<lparr>cs_stack = [], cs_failed = False\<rparr>"

(* [include/wise.kernel/server/cleanup_stack.hpp:29-32 cleanup_stack::push] *)
definition cs_push :: "'f \<Rightarrow> 'f cleanup_stack \<Rightarrow> 'f cleanup_stack" where
  "cs_push f cs = cs\<lparr>cs_stack := f # cs_stack cs\<rparr>"

(* [include/wise.kernel/server/cleanup_stack.hpp:34-38 cleanup_stack::set_fail] *)
definition set_fail :: "'f cleanup_stack \<Rightarrow> bool \<times> 'f cleanup_stack" where
  "set_fail cs = (True, cs\<lparr>cs_failed := True\<rparr>)"

text \<open>\<open>run\<close> executes one function; \<open>None\<close> while it waits. An exception that leaves a destructor terminates.\<close>

(* [include/wise.kernel/server/cleanup_stack.hpp:19-26 cleanup_stack::~cleanup_stack] *)
fun cs_unwind :: "('f \<Rightarrow> 's \<Rightarrow> 's res option) \<Rightarrow> 'f list \<Rightarrow> 's \<Rightarrow> 's res option" where
  "cs_unwind run [] s = Some (Inr s)"
| "cs_unwind run (f # fs) s =
     (case run f s of
        None \<Rightarrow> None
      | Some (Inl _) \<Rightarrow> Some (Inl (Throw ''terminate''))
      | Some (Inr s') \<Rightarrow> cs_unwind run fs s')"

(* [include/wise.kernel/server/cleanup_stack.hpp:15-27 cleanup_stack::~cleanup_stack] *)
definition cs_destroy :: "('f \<Rightarrow> 's \<Rightarrow> 's res option) \<Rightarrow> 'f cleanup_stack \<Rightarrow> 's \<Rightarrow> 's res option" where
  "cs_destroy run cs s = (if cs_failed cs then cs_unwind run (cs_stack cs) s else Some (Inr s))"

section \<open>Runners\<close>

(* [include/wise.kernel/core/task/task_runner.hpp:48-52 task_runner] *)
record runner =
  rn_id :: u32
  rn_stop :: bool
  rn_joinable :: bool

(* [src/core/task/task_runner.cpp:12-16 task_runner::task_runner] *)
definition mk_runner :: "u32 \<Rightarrow> runner" where
  "mk_runner i = \<lparr>rn_id = i, rn_stop = True, rn_joinable = False\<rparr>"

(* [src/core/task/task_runner.cpp:26-40 task_runner::start] *)
definition runner_start :: "runner \<Rightarrow> bool \<times> runner" where
  "runner_start r = (True, r\<lparr>rn_stop := False, rn_joinable := True\<rparr>)"

(* [src/core/task/task_runner.cpp:42-50 task_runner::finish] *)
definition runner_finish :: "runner \<Rightarrow> runner res" where
  "runner_finish r =
     (if rn_joinable r then Inr (r\<lparr>rn_stop := True, rn_joinable := False\<rparr>) else Inl (Throw ''thread::join''))"

section \<open>The server\<close>

(* [include/wise.kernel/server/server.hpp:20-29 server::error_code] *)
datatype server_code =
    Ok | Fail_start_task_scheduler | Fail_start_bits_node | Fail_start_actor_cluster | Fail_load_config
  | Fail_listen | Fail_connect

type_synonym srv_result = "bool \<times> server_code"

(* [include/wise.kernel/server/server.hpp:101-110 server] *)
record server =
  srv_runners :: "runner list"
  srv_sched :: sched
  srv_node :: "(node_base \<times> node_state) option"
  srv_cluster :: cluster

datatype cleanup = Node_finish | Scheduler_finish

text \<open>A negative runner count starts none.\<close>

(* [src/core/task/task_scheduler.cpp:23-52 task_scheduler::start] *)
definition scheduler_start :: "int \<Rightarrow> server \<Rightarrow> bool \<times> server" where
  "scheduler_start runner_count s =
     (let started = map (\<lambda>i. runner_start (mk_runner (of_nat (i + 1)))) [0..<nat runner_count];
          s' = s\<lparr>srv_runners := srv_runners s @ map snd (filter fst started)\<rparr>
      in (0 < length (srv_runners s'), s'))"

fun finish_runners :: "runner list \<Rightarrow> runner list res" where
  "finish_runners [] = Inr []"
| "finish_runners (r # rs) = bind_res (runner_finish r) (\<lambda>r'. bind_res (finish_runners rs) (\<lambda>rs'. Inr (r' # rs')))"

(* [src/core/task/task_scheduler.cpp:97-112 task_scheduler::finish] *)
definition scheduler_finish :: "behaviour \<Rightarrow> server \<Rightarrow> server res" where
  "scheduler_finish bh s =
     bind_res (finish_runners (srv_runners s)) (\<lambda>rs.
       case sched_finish bh (srv_sched s) of
         (False, _) \<Rightarrow> Inl (Throw ''on_finish'')
       | (True, q) \<Rightarrow> Inr (s\<lparr>srv_runners := rs, srv_sched := q\<rparr>))"

definition bits_node_finish :: "(nat \<times> nat) list \<Rightarrow> server \<Rightarrow> server res option" where
  "bits_node_finish evs s =
     (case srv_node s of
        None \<Rightarrow> Some (Inl (Undef ''null node''))
      | Some (b, n) \<Rightarrow> map_option (\<lambda>bn. Inr (s\<lparr>srv_node := Some bn\<rparr>)) (nb_finish evs b n))"

fun run_cleanup :: "behaviour \<Rightarrow> (nat \<times> nat) list \<Rightarrow> cleanup \<Rightarrow> server \<Rightarrow> server res option" where
  "run_cleanup bh evs Node_finish s = bits_node_finish evs s"
| "run_cleanup bh evs Scheduler_finish s = Some (scheduler_finish bh s)"

(* [src/server/server.cpp:88-98 server::listen] *)
definition server_listen :: "outcome \<Rightarrow> string \<Rightarrow> nat option \<Rightarrow> server \<Rightarrow> (srv_result \<times> server) res" where
  "server_listen up addr ch s =
     (case srv_node s of
        None \<Rightarrow> Inl (Undef ''null node'')
      | Some (b, n) \<Rightarrow> bind_res (nd_listen up addr ch n) (\<lambda>(rc, n').
          Inr (if fst rc then (True, Ok) else (False, Fail_listen), s\<lparr>srv_node := Some (b, n')\<rparr>)))"

(* [src/server/server.cpp:100-110 server::connect] *)
definition server_connect :: "string \<Rightarrow> nat option \<Rightarrow> server \<Rightarrow> (srv_result \<times> server) res" where
  "server_connect addr ch s =
     (case srv_node s of
        None \<Rightarrow> Inl (Undef ''null node'')
      | Some (b, n) \<Rightarrow> bind_res (nd_connect addr ch n) (\<lambda>(rc, n').
          Inr (if fst rc then (True, Ok) else (False, Fail_connect), s\<lparr>srv_node := Some (b, n')\<rparr>)))"

text \<open>The calls of \<^verbatim>\<open>connect\<close> for the remotes; their results are not looked at.\<close>

fun connect_all :: "string list \<Rightarrow> nat option \<Rightarrow> server \<Rightarrow> server res" where
  "connect_all [] ch s = Inr s"
| "connect_all (a # as) ch s = bind_res (server_connect a ch s) (\<lambda>(_, s'). connect_all as ch s')"

text \<open>The cluster's start with its calls of the server carried out.\<close>

(* [src/server/actor_cluster.cpp:58-85 actor_cluster::start] *)
definition cluster_start :: "outcome \<Rightarrow> string \<Rightarrow> nat \<Rightarrow> server \<Rightarrow> (bool \<times> server) res" where
  "cluster_start up listen_addr ch s =
     bind_res (if listen_addr = '''' then Inr (None, s)
               else bind_res (server_listen up listen_addr (Some ch) s) (\<lambda>(rc, s1). Inr (Some (fst rc), s1)))
       (\<lambda>(listened, s1).
          case cl_start listened (srv_cluster s1) of
            (False, _) \<Rightarrow> Inr (False, s1)
          | (True, c) \<Rightarrow> bind_res (connect_all (drop (length (cl_connects (srv_cluster s1))) (cl_connects c)) (Some ch)
                                    (s1\<lparr>srv_cluster := c\<rparr>)) (\<lambda>s2. Inr (True, s2)))"

record start_args =
  sa_node :: node_config
  sa_hw :: nat
  sa_runner_count :: int
  sa_listen :: string
  sa_channel :: nat

text \<open>
  The result of \<open>start\<close>: \<open>None\<close> while a function of the stack waits, otherwise the result or the exception
  that leaves it. Exceptions of the cluster leave the stack without \<^verbatim>\<open>set_fail\<close>.
\<close>

definition leave :: "behaviour \<Rightarrow> (nat \<times> nat) list \<Rightarrow> cleanup cleanup_stack \<Rightarrow> srv_result \<Rightarrow> server \<Rightarrow>
    (srv_result \<times> server) res option" where
  "leave bh evs cs rc s = map_option (\<lambda>r. bind_res r (\<lambda>s'. Inr (rc, s'))) (cs_destroy (run_cleanup bh evs) cs s)"

(* [src/server/server.cpp:40-69 server::start] *)
definition server_start :: "start_args \<Rightarrow> outcome \<Rightarrow> (sched \<Rightarrow> sched) \<Rightarrow> behaviour \<Rightarrow> (nat \<times> nat) list \<Rightarrow> server \<Rightarrow>
    (srv_result \<times> server) res option" where
  "server_start sa up meanwhile bh evs s =
     (let cs = mk_cleanup;
          (rc1, b) = nb_start (sa_node sa) (sa_hw sa) mk_node_base;
          s1 = s\<lparr>srv_node := Some (b, mk_node)\<rparr>
      in if \<not> fst rc1 then leave bh evs (snd (set_fail cs)) (False, Fail_start_bits_node) s1
         else let cs1 = cs_push Node_finish cs;
                  (rc2, s2) = scheduler_start (sa_runner_count sa) s1
              in if \<not> rc2 then leave bh evs (snd (set_fail cs1)) (False, Fail_start_task_scheduler) s2
                 else let cs2 = cs_push Scheduler_finish cs1;
                          s2' = s2\<lparr>srv_sched := meanwhile (srv_sched s2)\<rparr>
                      in case cluster_start up (sa_listen sa) (sa_channel sa) s2' of
                           Inl e \<Rightarrow> Some (Inl e)
                         | Inr (rc3, s3) \<Rightarrow>
                             if \<not> rc3 then leave bh evs (snd (set_fail cs2)) (False, Fail_start_actor_cluster) s3
                             else leave bh evs cs2 (True, Ok) s3)"

text \<open>One pass of the main thread; \<open>due\<close> are the reconnect timers that \<^verbatim>\<open>timer::execute\<close> fires.\<close>

(* [src/server/actor_cluster.cpp:87-90 actor_cluster::run] *)
fun cluster_run :: "nat option \<Rightarrow> string list \<Rightarrow> server \<Rightarrow> server res" where
  "cluster_run ch [] s = Inr s"
| "cluster_run ch (a # due) s =
     (let c = srv_cluster s;
          s1 = s\<lparr>srv_cluster := cl_reconnect a (c\<lparr>cl_timers := remove1 a (cl_timers c)\<rparr>)\<rparr>
      in if um_has a (cl_remotes c) then bind_res (server_connect a ch s1) (\<lambda>(_, s2). cluster_run ch due s2)
         else cluster_run ch due s1)"

(* [src/server/server.cpp:71-77 server::run] *)
definition server_run :: "nat \<Rightarrow> nat option \<Rightarrow> string list \<Rightarrow> server \<Rightarrow> (srv_result \<times> server) res" where
  "server_run now ch due s =
     bind_res (cluster_run ch due (s\<lparr>srv_sched := sched_schedule now (srv_sched s)\<rparr>)) (\<lambda>s'. Inr ((True, Ok), s'))"

(* [src/server/server.cpp:79-86 server::finish] *)
definition server_finish :: "behaviour \<Rightarrow> (nat \<times> nat) list \<Rightarrow> server \<Rightarrow> server res option" where
  "server_finish bh evs s =
     (case scheduler_finish bh s of
        Inl e \<Rightarrow> Some (Inl e)
      | Inr s1 \<Rightarrow> map_option (\<lambda>r. bind_res r (\<lambda>s2. Inr (s2\<lparr>srv_cluster := cl_finish (srv_cluster s2)\<rparr>))) (bits_node_finish evs s1))"

section \<open>Starting and stopping\<close>

definition srv_stopped :: "server \<Rightarrow> bool" where
  "srv_stopped s \<longleftrightarrow> (\<forall>r \<in> set (srv_runners s). rn_stop r \<and> \<not> rn_joinable r) \<and>
     (case srv_node s of None \<Rightarrow> True | Some (b, _) \<Rightarrow> nb_stop b \<and> nb_joined b = nb_threads b)"

definition srv_running :: "server \<Rightarrow> bool" where
  "srv_running s \<longleftrightarrow> srv_runners s \<noteq> [] \<and> (\<forall>r \<in> set (srv_runners s). \<not> rn_stop r \<and> rn_joinable r) \<and>
     (case srv_node s of None \<Rightarrow> False | Some (b, _) \<Rightarrow> \<not> nb_stop b)"

lemma finish_runners_ok:
  "(\<forall>r \<in> set rs. rn_joinable r) \<Longrightarrow>
   finish_runners rs = Inr (map (\<lambda>r. r\<lparr>rn_stop := True, rn_joinable := False\<rparr>) rs)"
  by (induction rs) (auto simp: runner_finish_def)

lemma finish_queue_ok:
  "(\<And>i t. behaviour.on_finish bh i t \<noteq> Raise) \<Longrightarrow> \<exists>h'. finish_queue bh q h = (True, [], h')"
proof (induction q arbitrary: h)
  case (Cons i q)
  have "task_finish bh i (h i) = (Ret (), (h i)\<lparr>t_state := Finished\<rparr>)"
    using Cons.prems [of i "h i"] by (auto simp: task_finish_def split: call.splits)
  then show ?case using Cons.IH [OF Cons.prems] by auto
qed simp

lemma sched_finish_ok:
  assumes "\<And>i t. behaviour.on_finish bh i t \<noteq> Raise"
  shows "\<exists>q. sched_finish bh s = (True, q)"
proof -
  note fq = finish_queue_ok [of bh, OF assms]
  obtain h0 where h0: "finish_queue bh (run_queue s) (heap s) = (True, [], h0)" using fq by blast
  obtain h1 where h1: "finish_queue bh (wait_queue_1 s) h0 = (True, [], h1)" using fq by blast
  obtain h2 where h2: "finish_queue bh (wait_queue_2 s) h1 = (True, [], h2)" using fq by blast
  obtain h3 where h3: "finish_queue bh (wait_queue_3 s) h2 = (True, [], h3)" using fq by blast
  show ?thesis by (simp add: sched_finish_def h0 h1 h2 h3)
qed

lemma scheduler_finish_ok:
  assumes "\<And>i t. behaviour.on_finish bh i t \<noteq> Raise" "\<forall>r \<in> set (srv_runners s). rn_joinable r"
  shows "\<exists>q. scheduler_finish bh s =
    Inr (s\<lparr>srv_runners := map (\<lambda>r. r\<lparr>rn_stop := True, rn_joinable := False\<rparr>) (srv_runners s), srv_sched := q\<rparr>)"
  using sched_finish_ok [of bh "srv_sched s", OF assms(1)] assms(2)
  by (auto simp: scheduler_finish_def finish_runners_ok)

lemma scheduler_start_facts:
  assumes "srv_runners s = []"
  shows "scheduler_start n s = (0 < n, s\<lparr>srv_runners := srv_runners (snd (scheduler_start n s))\<rparr>)"
    and "\<forall>r \<in> set (srv_runners (snd (scheduler_start n s))). \<not> rn_stop r \<and> rn_joinable r"
    and "srv_runners (snd (scheduler_start n s)) = [] \<longleftrightarrow> n \<le> 0"
  using assms by (auto simp: scheduler_start_def runner_start_def Let_def)

text \<open>A node with no protocol finishes at once.\<close>

lemma bits_node_finish_ok:
  assumes "srv_node s = Some (b, n)" "sv_used (nd_protocols n) = 0" "\<not> nb_stop b"
  shows "bits_node_finish evs s =
    Some (Inr (s\<lparr>srv_node := Some (b\<lparr>nb_stop := True, nb_stopped := nb_stopped b + nb_threads b,
                                       nb_joined := nb_joined b + nb_threads b\<rparr>, n)\<rparr>))"
  using assms by (simp add: bits_node_finish_def nb_finish_def Tcp_Node.on_finish_def finish_wait.simps)

lemma connect_all_ok:
  assumes "srv_node s = Some (b, n)" "seq_inv (nd_seq n)" "length as \<le> card (seq_avail (nd_seq n))"
    and "dom (nd_connectors n) \<inter> seq_avail (nd_seq n) = {}"
  shows "\<exists>n'. connect_all as (Some ch) s = Inr (s\<lparr>srv_node := Some (b, n')\<rparr>) \<and>
     nd_connectors n \<subseteq>\<^sub>m nd_connectors n' \<and> (\<forall>a \<in> set as. (a, ch) \<in> ran (nd_connectors n'))"
  using assms
proof (induction as arbitrary: s n)
  case Nil
  then show ?case by (intro exI [of _ n]) simp
next
  case (Cons a as)
  have "seq_avail (nd_seq n) \<noteq> {}" using Cons.prems(3) by auto
  then obtain k q where kq: "seq_next (nd_seq n) = Inr (k, q)"
    using seq_next_fails_iff [OF Cons.prems(2)] by (cases "seq_next (nd_seq n)") auto
  note nx = seq_next_ok [OF Cons.prems(2) kq]
  let ?n = "n\<lparr>nd_seq := q, nd_connectors := (nd_connectors n)(k \<mapsto> (a, ch))\<rparr>"
  have fresh: "nd_connectors n k = None" using nx(2) Cons.prems(4) by auto
  have "length as \<le> card (seq_avail q)" using Cons.prems(3) nx(2,3) by (simp add: card_Diff_singleton)
  moreover have "dom (nd_connectors ?n) \<inter> seq_avail q = {}" using Cons.prems(4) nx(3) by auto
  moreover have "seq_inv (nd_seq ?n)" using nx(1) by simp
  ultimately have "\<exists>n'. connect_all as (Some ch) (s\<lparr>srv_node := Some (b, ?n)\<rparr>) = Inr (s\<lparr>srv_node := Some (b, ?n)\<rparr>\<lparr>srv_node := Some (b, n')\<rparr>) \<and>
     nd_connectors ?n \<subseteq>\<^sub>m nd_connectors n' \<and> (\<forall>a \<in> set as. (a, ch) \<in> ran (nd_connectors n'))"
    by (intro Cons.IH) (simp_all, fastforce simp: dom_def split: if_splits)
  then obtain n' where n': "connect_all as (Some ch) (s\<lparr>srv_node := Some (b, ?n)\<rparr>) = Inr (s\<lparr>srv_node := Some (b, n')\<rparr>)"
      "nd_connectors ?n \<subseteq>\<^sub>m nd_connectors n'" "\<forall>a \<in> set as. (a, ch) \<in> ran (nd_connectors n')"
    by auto
  have "nd_connectors n' k = Some (a, ch)" using n'(2) by (auto simp: map_le_def split: if_splits)
  moreover have "nd_connectors n \<subseteq>\<^sub>m nd_connectors n'"
    using n'(2) fresh by (auto simp: map_le_def dom_def split: if_splits)
  ultimately show ?case
    using Cons.prems(1) n'(1,3) kq
    by (intro exI [of _ n']) (auto simp: server_connect_def nd_connect_def ranI)
qed

lemma mk_node_facts:
  "seq_inv (nd_seq mk_node)" "seq_avail (nd_seq mk_node) = {1..<65535}" "nd_connectors mk_node = Map.empty"
  "sv_used (nd_protocols mk_node) = 0"
  using mk_sequence_inv [of 1 65535 100] mk_sequence_avail [of 1 65535 100]
  by (simp_all add: mk_node_def mk_slot_vec_def)

text \<open>The state in which the cluster is started, and what its start makes of it.\<close>

definition started :: "start_args \<Rightarrow> (sched \<Rightarrow> sched) \<Rightarrow> server \<Rightarrow> server" where
  "started sa meanwhile s =
     (let s1 = s\<lparr>srv_node := Some (snd (nb_start (sa_node sa) (sa_hw sa) mk_node_base), mk_node)\<rparr>;
          s2 = snd (scheduler_start (sa_runner_count sa) s1)
      in s2\<lparr>srv_sched := meanwhile (srv_sched s2)\<rparr>)"

lemma started_facts:
  assumes "srv_runners s = []"
  shows "srv_node (started sa meanwhile s) = Some (snd (nb_start (sa_node sa) (sa_hw sa) mk_node_base), mk_node)"
    and "srv_cluster (started sa meanwhile s) = srv_cluster s"
    and "\<forall>r \<in> set (srv_runners (started sa meanwhile s)). \<not> rn_stop r \<and> rn_joinable r"
    and "srv_runners (started sa meanwhile s) = [] \<longleftrightarrow> sa_runner_count sa \<le> 0"
  using assms by (auto simp: started_def Let_def scheduler_start_def runner_start_def)

lemma cluster_start_no_listen:
  assumes "srv_node s = Some (b, mk_node)" "addr \<noteq> ''''" "\<not> fst up"
  shows "\<exists>n. cluster_start up addr ch s = Inr (False, s\<lparr>srv_node := Some (b, n)\<rparr>) \<and> sv_used (nd_protocols n) = 0"
proof -
  obtain k q where "seq_next (nd_seq mk_node) = Inr (k, q)"
    using seq_next_fails_iff [OF mk_node_facts(1)] mk_node_facts(2) by (cases "seq_next (nd_seq mk_node)") auto
  then show ?thesis
    using assms by (auto simp: cluster_start_def server_listen_def nd_listen_def cl_start_def mk_node_facts)
qed

lemma created_count: "length [a. (a, s) \<leftarrow> m, s = R_created] \<le> length m"
  by (induction m) auto

lemma cluster_start_ok:
  assumes nd: "srv_node s = Some (b, mk_node)" and up: "addr = '''' \<or> fst up"
    and few: "length (cl_remotes (srv_cluster s)) < 65534"
  shows "\<exists>n c. cluster_start up addr ch s = Inr (True, s\<lparr>srv_cluster := c, srv_node := Some (b, n)\<rparr>) \<and>
     (\<forall>(a, st) \<in> set (cl_remotes (srv_cluster s)). st = R_created \<longrightarrow> (a, ch) \<in> ran (nd_connectors n))"
proof -
  let ?l = "if addr = '''' then None else Some True"
  let ?as = "[a. (a, s) \<leftarrow> cl_remotes (srv_cluster s), s = R_created]"
  obtain k q where kq: "seq_next (nd_seq mk_node) = Inr (k, q)"
    using seq_next_fails_iff [OF mk_node_facts(1)] mk_node_facts(2) by (cases "seq_next (nd_seq mk_node)") auto
  note nx = seq_next_ok [OF mk_node_facts(1) kq]
  define n1 where "n1 = (if addr = '''' then mk_node
    else mk_node\<lparr>nd_seq := q, nd_acceptors := (nd_acceptors mk_node)(k \<mapsto> (addr, ch))\<rparr>)"
  obtain c where c: "cl_start ?l (srv_cluster s) = (True, c)" "cl_connects c = cl_connects (srv_cluster s) @ ?as"
    by (simp add: cl_start_def)
  have "length ?as \<le> card (seq_avail (nd_seq n1))"
    using created_count [of "cl_remotes (srv_cluster s)"] few nx(2,3) by (simp add: n1_def mk_node_facts)
  moreover have "seq_inv (nd_seq n1)" "nd_connectors n1 = Map.empty" using nx(1) by (simp_all add: n1_def mk_node_facts)
  moreover define s1 where "s1 = (if addr = [] then s else s\<lparr>srv_node := Some (b, n1)\<rparr>)"
  have s1: "srv_node s1 = Some (b, n1)" "\<And>x. s1\<lparr>srv_cluster := c, srv_node := x\<rparr> = s\<lparr>srv_cluster := c, srv_node := x\<rparr>"
    using nd by (simp_all add: s1_def n1_def)
  ultimately obtain n where n: "connect_all ?as (Some ch) (s1\<lparr>srv_cluster := c\<rparr>) = Inr (s\<lparr>srv_cluster := c, srv_node := Some (b, n)\<rparr>)"
      "\<forall>a \<in> set ?as. (a, ch) \<in> ran (nd_connectors n)"
    using connect_all_ok [of "s1\<lparr>srv_cluster := c\<rparr>" b n1 ?as ch] by auto
  have "cluster_start up addr ch s = Inr (True, s\<lparr>srv_cluster := c, srv_node := Some (b, n)\<rparr>)"
    using up nd kq c n(1) by (auto simp: cluster_start_def server_listen_def nd_listen_def n1_def s1_def split: if_splits)
  then show ?thesis using n(2) by (intro exI [of _ n] exI [of _ c]) auto
qed

lemma server_start_unfold:
  "server_start sa up meanwhile bh evs s =
     (let cs = cs_push Node_finish mk_cleanup;
          b = snd (nb_start (sa_node sa) (sa_hw sa) mk_node_base);
          s2 = started sa meanwhile s
      in if srv_runners s2 = [] then
           leave bh evs (snd (set_fail cs)) (False, Fail_start_task_scheduler)
             (snd (scheduler_start (sa_runner_count sa) (s\<lparr>srv_node := Some (b, mk_node)\<rparr>)))
         else case cluster_start up (sa_listen sa) (sa_channel sa) s2 of
                Inl e \<Rightarrow> Some (Inl e)
              | Inr (False, s3) \<Rightarrow> leave bh evs (snd (set_fail (cs_push Scheduler_finish cs))) (False, Fail_start_actor_cluster) s3
              | Inr (True, s3) \<Rightarrow> Some (Inr ((True, Ok), s3)))"
  by (auto simp: server_start_def Let_def nb_start_def started_def scheduler_start_def leave_def cs_destroy_def
      mk_cleanup_def cs_push_def split: sum.splits bool.splits)

lemmas cleanup_defs = leave_def cs_destroy_def set_fail_def cs_push_def mk_cleanup_def

lemma server_start_no_listen:
  assumes "srv_runners s = []" "\<And>i t. behaviour.on_finish bh i t \<noteq> Raise"
    and a: "0 < sa_runner_count sa" "sa_listen sa \<noteq> []" "\<not> fst up"
  shows "\<exists>s'. server_start sa up meanwhile bh evs s = Some (Inr ((False, Fail_start_actor_cluster), s')) \<and>
     srv_stopped s' \<and> srv_runners s' \<noteq> []"
proof -
  let ?s2 = "started sa meanwhile s"
  define b where "b = snd (nb_start (sa_node sa) (sa_hw sa) mk_node_base)"
  have b: "\<not> nb_stop b" "nb_joined b = 0" by (simp_all add: b_def nb_start_def mk_node_base_def Let_def)
  note st = started_facts [OF assms(1), of sa meanwhile, folded b_def]
  obtain n where n: "cluster_start up (sa_listen sa) (sa_channel sa) ?s2 = Inr (False, ?s2\<lparr>srv_node := Some (b, n)\<rparr>)"
      "sv_used (nd_protocols n) = 0"
    using cluster_start_no_listen [OF st(1) a(2,3), of "sa_channel sa"] by blast
  obtain q where q: "scheduler_finish bh (?s2\<lparr>srv_node := Some (b, n)\<rparr>) = Inr (?s2\<lparr>srv_node := Some (b, n)\<rparr>\<lparr>srv_runners :=
      map (\<lambda>r. r\<lparr>rn_stop := True, rn_joinable := False\<rparr>) (srv_runners ?s2), srv_sched := q\<rparr>)"
    using scheduler_finish_ok [of bh "?s2\<lparr>srv_node := Some (b, n)\<rparr>", OF assms(2)] st(3) by auto
  show ?thesis
    using a(1) st(4) n(1)
    by (simp add: server_start_unfold b_def [symmetric] cleanup_defs q bits_node_finish_ok [of _ b n] n(2) b
        srv_stopped_def Let_def)
qed

lemma server_start_parts:
  assumes "srv_runners s = []" "\<And>i t. behaviour.on_finish bh i t \<noteq> Raise"
  shows "sa_runner_count sa \<le> 0 \<Longrightarrow>
      \<exists>s'. server_start sa up meanwhile bh evs s = Some (Inr ((False, Fail_start_task_scheduler), s')) \<and> srv_stopped s'"
    and "\<lbrakk>0 < sa_runner_count sa; sa_listen sa \<noteq> ''''; \<not> fst up\<rbrakk> \<Longrightarrow>
      \<exists>s'. server_start sa up meanwhile bh evs s = Some (Inr ((False, Fail_start_actor_cluster), s')) \<and> srv_stopped s'"
    and "\<lbrakk>0 < sa_runner_count sa; sa_listen sa = '''' \<or> fst up; length (cl_remotes (srv_cluster s)) < 65534\<rbrakk> \<Longrightarrow>
      \<exists>s' b n. server_start sa up meanwhile bh evs s = Some (Inr ((True, Ok), s')) \<and> srv_running s' \<and> srv_node s' = Some (b, n) \<and>
        (\<forall>(a, st) \<in> set (cl_remotes (srv_cluster s)). st = R_created \<longrightarrow> (a, sa_channel sa) \<in> ran (nd_connectors n))"
proof -
  let ?s2 = "started sa meanwhile s"
  define b where "b = snd (nb_start (sa_node sa) (sa_hw sa) mk_node_base)"
  have b: "\<not> nb_stop b" "nb_joined b = 0" by (simp_all add: b_def nb_start_def mk_node_base_def Let_def)
  note st = started_facts [OF assms(1), of sa meanwhile, folded b_def]
  show "\<exists>s'. server_start sa up meanwhile bh evs s = Some (Inr ((False, Fail_start_task_scheduler), s')) \<and> srv_stopped s'"
    if "sa_runner_count sa \<le> 0"
    using that assms(1) st(4)
    by (simp add: server_start_unfold b_def [symmetric] cleanup_defs scheduler_start_def bits_node_finish_ok [of _ b mk_node]
        mk_node_facts b srv_stopped_def Let_def)
  show "\<exists>s'. server_start sa up meanwhile bh evs s = Some (Inr ((False, Fail_start_actor_cluster), s')) \<and> srv_stopped s'"
    if "0 < sa_runner_count sa" "sa_listen sa \<noteq> []" "\<not> fst up"
    using server_start_no_listen [OF assms that] by blast
  show "\<exists>s' b n. server_start sa up meanwhile bh evs s = Some (Inr ((True, Ok), s')) \<and> srv_running s' \<and> srv_node s' = Some (b, n) \<and>
      (\<forall>(a, st) \<in> set (cl_remotes (srv_cluster s)). st = R_created \<longrightarrow> (a, sa_channel sa) \<in> ran (nd_connectors n))"
    if a: "0 < sa_runner_count sa" "sa_listen sa = '''' \<or> fst up" "length (cl_remotes (srv_cluster s)) < 65534"
  proof -
    obtain n c where n: "cluster_start up (sa_listen sa) (sa_channel sa) ?s2 = Inr (True, ?s2\<lparr>srv_cluster := c, srv_node := Some (b, n)\<rparr>)"
        "\<forall>(a, st) \<in> set (cl_remotes (srv_cluster s)). st = R_created \<longrightarrow> (a, sa_channel sa) \<in> ran (nd_connectors n)"
      using cluster_start_ok [OF st(1) a(2), of "sa_channel sa"] a(3) unfolding st(2) by blast
    have "srv_running (?s2\<lparr>srv_cluster := c, srv_node := Some (b, n)\<rparr>)"
      using st(3,4) a(1) b by (simp add: srv_running_def)
    then show ?thesis
      using a(1) st(4) n by (intro exI [of _ "?s2\<lparr>srv_cluster := c, srv_node := Some (b, n)\<rparr>"]) (simp add: server_start_unfold Let_def)
  qed
qed


definition a_server :: server where
  "a_server = \<lparr>srv_runners = [], srv_sched = sample_sched mk_task, srv_node = None, srv_cluster = cl_setup [''h:1'']\<rparr>"

definition some_args :: "int \<Rightarrow> start_args" where
  "some_args n = \<lparr>sa_node = \<lparr>use_hardware_concurreny = False, concurreny_level = 2\<rparr>, sa_hw = 8, sa_runner_count = n,
     sa_listen = ''0.0.0.0:7000'', sa_channel = 3\<rparr>"

lemma default_never_raises: "behaviour.on_finish default_behaviour i t \<noteq> Raise"
  by (simp add: default_behaviour_def)


lemma finish_stopped_throws:
  assumes "srv_runners s \<noteq> []" "\<forall>r \<in> set (srv_runners s). \<not> rn_joinable r"
  shows "server_finish bh evs s = Some (Inl (Throw ''thread::join''))"
  using assms by (cases "srv_runners s") (auto simp: server_finish_def scheduler_finish_def runner_finish_def)

lemma finish_runners_joined:
  "finish_runners rs = Inr rs' \<Longrightarrow> length rs' = length rs \<and> (\<forall>r \<in> set rs'. \<not> rn_joinable r)"
  by (induction rs arbitrary: rs') (auto simp: runner_finish_def bind_res_Inr_iff split: if_splits)

lemma server_finish_joined:
  assumes "server_finish bh evs s = Some (Inr s')"
  shows "length (srv_runners s') = length (srv_runners s) \<and> (\<forall>r \<in> set (srv_runners s'). \<not> rn_joinable r)"
proof -
  obtain s1 where s1: "scheduler_finish bh s = Inr s1" "srv_runners s' = srv_runners s1"
    using assms
    by (auto simp: server_finish_def bits_node_finish_def bind_res_Inr_iff split: sum.splits option.splits)
  then show ?thesis
    using finish_runners_joined [of "srv_runners s"]
    by (cases "sched_finish bh (srv_sched s)") (auto simp: scheduler_finish_def bind_res_Inr_iff split: bool.splits)
qed

text \<open>
  Joining a runner is not idempotent. When \<open>start\<close> fails because the cluster cannot listen, the rollback
  has joined the runners but left them in the scheduler, so a call of \<open>finish\<close> on that server throws out of
  \<^verbatim>\<open>thread::join\<close>; and so does every second \<open>finish\<close> of a server with a runner.
\<close>

theorem server_finish_after_stop_throws:
  shows "\<lbrakk>server_finish bh evs s = Some (Inr s'); srv_runners s \<noteq> []\<rbrakk> \<Longrightarrow>
      server_finish bh' evs' s' = Some (Inl (Throw ''thread::join''))"
    and "\<lbrakk>srv_runners s = []; \<And>i t. behaviour.on_finish bh i t \<noteq> Raise; 0 < sa_runner_count sa; sa_listen sa \<noteq> ''''; \<not> fst up\<rbrakk> \<Longrightarrow>
      \<exists>s'. server_start sa up meanwhile bh evs s = Some (Inr ((False, Fail_start_actor_cluster), s')) \<and>
        server_finish bh' evs' s' = Some (Inl (Throw ''thread::join''))"
proof -
  show "server_finish bh' evs' s' = Some (Inl (Throw ''thread::join''))"
    if "server_finish bh evs s = Some (Inr s')" "srv_runners s \<noteq> []"
    using server_finish_joined [OF that(1)] that(2) by (intro finish_stopped_throws) auto
  show "\<exists>s'. server_start sa up meanwhile bh evs s = Some (Inr ((False, Fail_start_actor_cluster), s')) \<and>
      server_finish bh' evs' s' = Some (Inl (Throw ''thread::join''))"
    if a: "srv_runners s = []" "\<And>i t. behaviour.on_finish bh i t \<noteq> Raise" "0 < sa_runner_count sa"
      "sa_listen sa \<noteq> []" "\<not> fst up"
  proof -
    obtain s' where "server_start sa up meanwhile bh evs s = Some (Inr ((False, Fail_start_actor_cluster), s'))"
        "srv_stopped s'" "srv_runners s' \<noteq> []"
      using server_start_no_listen [OF a] by blast
    then show ?thesis by (auto simp: srv_stopped_def intro: finish_stopped_throws)
  qed
qed

theorem server_finish_after_stop_throws_witness:
  "\<exists>s'. server_start (some_args 2) (False, success) id default_behaviour [] a_server =
      Some (Inr ((False, Fail_start_actor_cluster), s')) \<and>
    server_finish default_behaviour [] s' = Some (Inl (Throw ''thread::join''))"
proof (rule server_finish_after_stop_throws(2))
  show "srv_runners a_server = []" by code_simp
  show "\<And>i t. behaviour.on_finish default_behaviour i t \<noteq> Raise" by (rule default_never_raises)
qed (simp_all add: some_args_def)

end
