(* ===== verification/Db_Service.thy ===== *)
theory Db_Service
  imports Topic Hash_Map Concurrent_Queue "HOL-Library.Char_ord" "HOL-Library.List_Lexorder"
begin

text \<open>
  The database service (\<^verbatim>\<open>server/service/db\<close>): transactions, the commands a runner prepares for them, the pool of
  commands, the runners and their service. What the database does is an argument (\<open>db_env\<close>): whether a
  connection comes up, whether a statement can be prepared, what executing a transaction on a
  prepared statement yields, how long it takes. A transaction posted locally or sent to a session is recorded
  as it was at that moment.
\<close>

section \<open>Transactions\<close>

type_synonym wstr = "u16 list"

(* [include/wise.kernel/server/service/db/tx.hpp:18-31 tx::result] *)
datatype tx_result =
    Tx_success | Tx_fail | Fail_key_invalid | Fail_runner_not_available | Fail_db_not_found | Fail_query_execute
  | Fail_query_exception | Fail_db_exception | Fail_db_not_ready | Fail_channel_not_found | Fail_invalid_vector_size

(* [include/wise.kernel/server/service/db/tx.hpp:33-50 tx::context] *)
record tx_context =
  cx_dir :: byte
  cx_id :: string
  cx_db :: string
  cx_key :: u64
  cx_oid :: u64
  cx_channel :: string
  cx_error :: string
  cx_rc :: tx_result
  cx_query_time :: nat

(* [include/wise.kernel/server/service/db/tx.hpp:91-94 tx] *)
record tx =
  tx_topic :: topic
  tx_sid :: nat
  tx_query :: wstr
  tx_ctx :: tx_context

datatype dest = Remote nat | Local

definition tx_dest :: "tx \<Rightarrow> dest" where
  "tx_dest t = (if 0 < tx_sid t then Remote (tx_sid t) else Local)"

text \<open>How \<^verbatim>\<open>execute_query\<close> ends: its result, one of the exceptions of \<^verbatim>\<open>dbc\<close>, or another one.\<close>

datatype exec_outcome =
    Rc tx_result | Type_incompatible string | Null_access string | Index_range string | Programming string
  | Database_error string | Other_exception string

text \<open>A connection is known by its dsn, a statement by its connection and its query.\<close>

record db_env =
  env_up :: "wstr \<Rightarrow> bool"
  env_prepares :: "wstr \<Rightarrow> wstr \<Rightarrow> bool"
  env_exec :: "tx \<Rightarrow> wstr \<times> wstr \<Rightarrow> exec_outcome \<times> tx"
  env_elapsed :: "tx \<Rightarrow> nat"

section \<open>Databases\<close>

(* [include/wise.kernel/server/service/db/detail/db.hpp:15-23 db::config] *)
record db_config =
  dc_key :: string
  dc_host :: wstr
  dc_name :: wstr
  dc_user :: wstr
  dc_password :: wstr
  dc_database :: wstr

(* [include/wise.kernel/server/service/db/detail/db.hpp:54-57 db] *)
record db =
  db_cfg :: db_config
  db_dsn :: wstr
  db_conn :: "wstr option"

definition wide :: "string \<Rightarrow> wstr" where
  "wide s = map (\<lambda>c. of_nat (of_char c)) s"

text \<open>\<open>lower\<close> is \<^verbatim>\<open>boost::algorithm::to_lower\<close>.\<close>

(* [src/server/service/db/detail/db.cpp:12-22 db::db] *)
definition mk_db :: "(wstr \<Rightarrow> wstr) \<Rightarrow> db_config \<Rightarrow> db" where
  "mk_db lower cfg =
     (let c = cfg\<lparr>dc_database := lower (dc_database cfg)\<rparr>
      in \<lparr>db_cfg = c,
          db_dsn = wide ''Driver={SQL Server Native Client 11.0};Server='' @ dc_host c @ wide '';Database='' @ dc_database c @
                   wide '';UID='' @ dc_user c @ wide '';PWD='' @ dc_password c,
          db_conn = None\<rparr>)"

(* [src/server/service/db/detail/db.cpp:42-68 db::connect] *)
definition db_connect :: "db_env \<Rightarrow> db \<Rightarrow> bool \<times> db" where
  "db_connect e d = (env_up e (db_dsn d), d\<lparr>db_conn := Some (db_dsn d)\<rparr>)"

section \<open>Commands\<close>

(* [include/wise.kernel/server/service/db/detail/db_command.hpp:58-67 db_command] *)
record db_command =
  cmd_topic :: topic
  cmd_query :: wstr
  cmd_conn :: wstr
  cmd_ready :: bool

text \<open>Opening and preparing the statement; an exception of \<^verbatim>\<open>dbc\<close> leaves the command not ready.\<close>

(* [src/server/service/db/detail/db_command.cpp:95-106 db_command::open_and_preapre_stmt] *)
definition open_and_prepare :: "db_env \<Rightarrow> db_command \<Rightarrow> bool \<times> db_command" where
  "open_and_prepare e c =
     (if env_prepares e (cmd_conn c) (cmd_query c) then (True, c\<lparr>cmd_ready := True\<rparr>) else (False, c\<lparr>cmd_ready := False\<rparr>))"

(* [src/server/service/db/detail/db_command.cpp:13-32 db_command::db_command] *)
definition mk_command :: "db_env \<Rightarrow> topic \<Rightarrow> wstr \<Rightarrow> wstr \<Rightarrow> db_command option" where
  "mk_command e pic conn query =
     (case open_and_prepare e \<lparr>cmd_topic = pic, cmd_query = query, cmd_conn = conn, cmd_ready = False\<rparr> of
        (True, c) \<Rightarrow> Some c
      | (False, _) \<Rightarrow> None)"

(* [src/server/service/db/detail/db_command.cpp:39-46 db_command::reopen] *)
definition cmd_reopen :: "db_env \<Rightarrow> wstr \<Rightarrow> db_command \<Rightarrow> bool \<times> db_command" where
  "cmd_reopen e conn c = open_and_prepare e (c\<lparr>cmd_conn := conn\<rparr>)"

(* [src/server/service/db/detail/db_command.cpp:108-135 db_command::post_result] *)
definition post_result :: "tx_result \<Rightarrow> tx \<Rightarrow> string \<Rightarrow> tx_result \<times> tx \<times> (dest \<times> tx) list" where
  "post_result rc t err =
     (let t' = t\<lparr>tx_ctx := (tx_ctx t)\<lparr>cx_dir := 1, cx_error := err, cx_rc := rc\<rparr>\<rparr>
      in (rc, t', [(tx_dest t', t')]))"

(* [src/server/service/db/detail/db_command.cpp:48-93 db_command::execute] *)
definition cmd_execute :: "db_env \<Rightarrow> tx \<Rightarrow> db_command \<Rightarrow> (tx_result \<times> tx \<times> (dest \<times> tx) list) res" where
  "cmd_execute e t c =
     (if \<not> cmd_ready c then Inr (Fail_db_not_ready, t, [])
      else case env_exec e t (cmd_conn c, cmd_query c) of
             (Rc rc, t1) \<Rightarrow>
               Inr (if rc \<noteq> Tx_success then post_result Fail_query_execute t1 ''Query execute error''
                    else post_result Tx_success t1 ''succss'')
           | (Type_incompatible w, t1) \<Rightarrow> Inr (post_result Fail_query_exception t1 w)
           | (Null_access w, t1) \<Rightarrow> Inr (post_result Fail_query_exception t1 w)
           | (Index_range w, t1) \<Rightarrow> Inr (post_result Fail_query_exception t1 w)
           | (Programming w, t1) \<Rightarrow> Inr (post_result Fail_query_exception t1 w)
           | (Database_error w, t1) \<Rightarrow> Inr (post_result Fail_db_exception t1 w)
           | (Other_exception w, _) \<Rightarrow> Inl (Throw w))"

section \<open>The pool of commands\<close>

(* [include/wise.kernel/server/service/db/detail/db_pool.hpp:33-36 db_pool::cmd_key] *)
record cmd_key =
  ck_db :: string
  ck_pic :: topic

(* [include/wise.kernel/server/service/db/detail/db_pool.hpp:38-42 db_pool::cmd_key::operator<] *)
definition cmd_less :: "cmd_key \<Rightarrow> cmd_key \<Rightarrow> bool" where
  "cmd_less a b \<longleftrightarrow> ck_db a < ck_db b \<and> ck_pic a < ck_pic b"

text \<open>
  A \<^verbatim>\<open>std::map\<close> takes two keys for the same when neither is less than the other. That has to be
  transitive on the keys of the map and the one looked up; otherwise the lookup is undefined.
\<close>

definition cmd_equiv :: "cmd_key \<Rightarrow> cmd_key \<Rightarrow> bool" where
  "cmd_equiv a b \<longleftrightarrow> \<not> cmd_less a b \<and> \<not> cmd_less b a"

definition weak_order :: "cmd_key list \<Rightarrow> bool" where
  "weak_order ks \<longleftrightarrow>
     list_all (\<lambda>a. list_all (\<lambda>b. list_all (\<lambda>c. cmd_equiv a b \<and> cmd_equiv b c \<longrightarrow> cmd_equiv a c) ks) ks) ks"

definition cmds_find :: "cmd_key \<Rightarrow> (cmd_key \<times> db_command) list \<Rightarrow> db_command option res" where
  "cmds_find k m =
     (if weak_order (k # map fst m) then Inr (map_option snd (List.find (\<lambda>(k', _). cmd_equiv k' k) m))
      else Inl (Undef ''map comparator''))"

(* [include/wise.kernel/server/service/db/detail/db_pool.hpp:57-59 db_pool] *)
record db_pool =
  pl_dbs :: "(string, db) umap"
  pl_cmds :: "(cmd_key \<times> db_command) list"

(* [src/server/service/db/detail/db_pool.cpp:9-11 db_pool::db_pool] *)
definition mk_db_pool :: db_pool where
  "mk_db_pool = \<lparr>pl_dbs = [], pl_cmds = []\<rparr>"

(* [src/server/service/db/detail/db_pool.cpp:82-107 db_pool::setup_pool] *)
fun setup_pool :: "db_env \<Rightarrow> db list \<Rightarrow> db_pool \<Rightarrow> bool \<times> db_pool" where
  "setup_pool e [] p = (True, p)"
| "setup_pool e (d # ds) p =
     (case db_connect e d of
        (False, _) \<Rightarrow> (False, p)
      | (True, nd) \<Rightarrow> setup_pool e ds (p\<lparr>pl_dbs := um_insert (dc_key (db_cfg nd)) nd (pl_dbs p)\<rparr>))"

(* [src/server/service/db/detail/db_pool.cpp:24-64 db_pool::get] *)
definition pool_get :: "db_env \<Rightarrow> string \<Rightarrow> topic \<Rightarrow> wstr \<Rightarrow> db_pool \<Rightarrow> (db_command option \<times> db_pool) res" where
  "pool_get e d pic query p =
     (let key = \<lparr>ck_db = d, ck_pic = pic\<rparr>
      in bind_res (cmds_find key (pl_cmds p)) (\<lambda>ci.
         case ci of
           Some c \<Rightarrow> Inr (Some c, p)
         | None \<Rightarrow>
             (case um_find d (pl_dbs p) of
                None \<Rightarrow> Inr (None, p)
              | Some di \<Rightarrow>
                  (case db_conn di of
                     None \<Rightarrow> Inl (Undef ''null connection'')
                   | Some conn \<Rightarrow>
                       (case mk_command e pic conn query of
                          None \<Rightarrow> Inr (None, p)
                        | Some c \<Rightarrow> Inr (Some c, p\<lparr>pl_cmds := pl_cmds p @ [(key, c)]\<rparr>))))))"

(* [src/server/service/db/detail/db_pool.cpp:66-71 db_pool::has_db] *)
definition has_db :: "string \<Rightarrow> db_pool \<Rightarrow> bool" where
  "has_db d p \<longleftrightarrow> um_has d (pl_dbs p)"

(* [src/server/service/db/detail/db_pool.cpp:73-80 db_pool::has_command] *)
definition has_command :: "string \<Rightarrow> topic \<Rightarrow> db_pool \<Rightarrow> bool res" where
  "has_command d pic p = bind_res (cmds_find \<lparr>ck_db = d, ck_pic = pic\<rparr> (pl_cmds p)) (\<lambda>ci. Inr (ci \<noteq> None))"

section \<open>Runners\<close>

(* [include/wise.kernel/server/service/db/detail/db_runner.hpp:59-73 db_runner] *)
record db_runner =
  dr_stop :: bool
  dr_joinable :: bool
  dr_q :: "tx list"
  dr_pool :: db_pool

(* [src/server/service/db/detail/db_runner.cpp:8-11 db_runner::db_runner] *)
definition mk_db_runner :: db_runner where
  "mk_db_runner = \<lparr>dr_stop = True, dr_joinable = False, dr_q = [], dr_pool = mk_db_pool\<rparr>"

(* [src/server/service/db/detail/db_runner.cpp:18-38 db_runner::start] *)
definition dr_start :: "db_env \<Rightarrow> db list \<Rightarrow> db_runner \<Rightarrow> bool \<times> db_runner" where
  "dr_start e dbs r =
     (case setup_pool e dbs (dr_pool r) of
        (False, p) \<Rightarrow> (False, r\<lparr>dr_pool := p\<rparr>)
      | (True, p) \<Rightarrow> (True, r\<lparr>dr_pool := p, dr_stop := False, dr_joinable := True\<rparr>))"

(* [src/server/service/db/detail/db_runner.cpp:40-45 db_runner::schedule] *)
definition dr_schedule :: "tx \<Rightarrow> db_runner \<Rightarrow> db_runner" where
  "dr_schedule t r = r\<lparr>dr_q := cq_push t (dr_q r)\<rparr>"

text \<open>The transaction after it, what was posted, and the pool.\<close>

(* [src/server/service/db/detail/db_runner.cpp:101-133 db_runner::execute_query] *)
definition execute_query :: "db_env \<Rightarrow> tx \<Rightarrow> db_pool \<Rightarrow> (tx \<times> (dest \<times> tx) list \<times> db_pool) res" where
  "execute_query e t p =
     bind_res (pool_get e (cx_db (tx_ctx t)) (tx_topic t) (tx_query t) p) (\<lambda>(cmd, p').
       case cmd of
         None \<Rightarrow> Inr (t, [], p')
       | Some c \<Rightarrow> bind_res (cmd_execute e t c) (\<lambda>(_, t', posts).
           Inr (t'\<lparr>tx_ctx := (tx_ctx t')\<lparr>cx_query_time := env_elapsed e t\<rparr>\<rparr>, posts, p')))"

text \<open>One pass of the loop in \<open>run\<close>: a transaction is popped and executed.\<close>

(* [src/server/service/db/detail/db_runner.cpp:72-77 db_runner::run] *)
definition dr_step :: "db_env \<Rightarrow> db_runner \<Rightarrow> (tx \<times> (dest \<times> tx) list \<times> db_runner) option res" where
  "dr_step e r =
     (case cq_pop (dr_q r) of
        None \<Rightarrow> Inr None
      | Some (t, q) \<Rightarrow> bind_res (execute_query e t (dr_pool r)) (\<lambda>(_, posts, p).
          Inr (Some (t, posts, r\<lparr>dr_q := q, dr_pool := p\<rparr>))))"

text \<open>The transactions left in the queue when the runner stops, in the order they are executed.\<close>

(* [src/server/service/db/detail/db_runner.cpp:135-151 db_runner::complete_queue] *)
fun complete_queue :: "db_env \<Rightarrow> tx list \<Rightarrow> db_pool \<Rightarrow> (tx list \<times> (dest \<times> tx) list \<times> db_pool) res" where
  "complete_queue e [] p = Inr ([], [], p)"
| "complete_queue e (t # q) p =
     bind_res (execute_query e t p) (\<lambda>(_, posts, p1).
     bind_res (complete_queue e q p1) (\<lambda>(ts, posts', p2). Inr (t # ts, posts @ posts', p2)))"

text \<open>\<open>finish\<close> joins the thread, which first completes its queue.\<close>

(* [src/server/service/db/detail/db_runner.cpp:47-56 db_runner::finish] *)
definition dr_finish :: "db_env \<Rightarrow> db_runner \<Rightarrow> (tx list \<times> (dest \<times> tx) list \<times> db_runner) res" where
  "dr_finish e r =
     (if dr_stop r then Inr ([], [], r)
      else bind_res (complete_queue e (dr_q r) (dr_pool r)) (\<lambda>(ts, posts, p).
        Inr (ts, posts, r\<lparr>dr_stop := True, dr_joinable := False, dr_q := [], dr_pool := p\<rparr>)))"

section \<open>The service\<close>

(* [include/wise.kernel/server/service/db/db_service.hpp:76-80 db_service] *)
record db_svc =
  svc_count :: nat
  svc_dbs :: "db list"
  svc_runners :: "db_runner list"

(* [src/server/service/db/db_service.cpp:163-172 db_service::load_config] *)
definition config_runner_count :: "int option \<Rightarrow> nat" where
  "config_runner_count ns = (case ns of None \<Rightarrow> 16 | Some n \<Rightarrow> nat (max n 1))"

fun start_each :: "db_env \<Rightarrow> db list \<Rightarrow> db_runner list \<Rightarrow> bool \<times> db_runner list" where
  "start_each e dbs [] = (True, [])"
| "start_each e dbs (r # rs) =
     (case dr_start e dbs r of
        (False, r') \<Rightarrow> (False, r' # rs)
      | (True, r') \<Rightarrow> (case start_each e dbs rs of (ok, rs') \<Rightarrow> (ok, r' # rs')))"

(* [src/server/service/db/db_service.cpp:101-126 db_service::start_runners] *)
definition start_runners :: "db_env \<Rightarrow> db_svc \<Rightarrow> bool \<times> db_svc" where
  "start_runners e s =
     (case start_each e (svc_dbs s) (replicate (svc_count s) mk_db_runner) of
        (ok, rs) \<Rightarrow> (ok, s\<lparr>svc_runners := rs\<rparr>))"

(* [src/server/service/db/db_service.cpp:128-142 db_service::fail] *)
definition svc_fail :: "tx \<Rightarrow> (dest \<times> tx) list" where
  "svc_fail t = [(tx_dest t, t)]"

text \<open>\<open>rnd\<close> is the value of \<^verbatim>\<open>rand()\<close>. The first component says whether a runner got the transaction.\<close>

(* [src/server/service/db/db_service.cpp:58-91 db_service::on_tx] *)
definition on_tx :: "nat \<Rightarrow> tx \<Rightarrow> db_svc \<Rightarrow> bool \<times> (dest \<times> tx) list \<times> db_svc" where
  "on_tx rnd t s =
     (let ctx = tx_ctx t; n = length (svc_runners s)
      in if cx_dir ctx = 1 then (False, [], s)
         else if n = 0 then
           (False, svc_fail (t\<lparr>tx_ctx := ctx\<lparr>cx_rc := Fail_runner_not_available, cx_dir := 1\<rparr>\<rparr>), s)
         else let i = (if 0 < cx_key ctx then unat (cx_key ctx) mod n else rnd mod n)
              in (True, [], s\<lparr>svc_runners := (svc_runners s)[i := dr_schedule t (svc_runners s ! i)]\<rparr>))"

fun finish_each :: "db_env \<Rightarrow> db_runner list \<Rightarrow> (tx list \<times> (dest \<times> tx) list) res" where
  "finish_each e [] = Inr ([], [])"
| "finish_each e (r # rs) =
     bind_res (dr_finish e r) (\<lambda>(ts, posts, _).
     bind_res (finish_each e rs) (\<lambda>(ts', posts'). Inr (ts @ ts', posts @ posts')))"

(* [src/server/service/db/db_service.cpp:46-56 db_service::on_finish] *)
definition svc_on_finish :: "db_env \<Rightarrow> db_svc \<Rightarrow> (tx list \<times> (dest \<times> tx) list \<times> db_svc) res" where
  "svc_on_finish e s =
     bind_res (finish_each e (svc_runners s)) (\<lambda>(ts, posts). Inr (ts, posts, s\<lparr>svc_runners := []\<rparr>))"

section \<open>The service and its runners together\<close>

text \<open>
  The service takes transactions, any runner that has one executes it, until the service finishes.
  \<open>accepted\<close> are the transactions a runner got, \<open>executed\<close> those taken from a queue and executed.
\<close>

record db_sys =
  ds_svc :: db_svc
  accepted :: "tx list"
  executed :: "tx list"
  posted :: "(dest \<times> tx) list"

inductive db_reach :: "db_env \<Rightarrow> db_svc \<Rightarrow> db_sys \<Rightarrow> bool" for e s0 where
  Start: "start_runners e s0 = (True, s) \<Longrightarrow> db_reach e s0 \<lparr>ds_svc = s, accepted = [], executed = [], posted = []\<rparr>"
| Request: "db_reach e s0 w \<Longrightarrow> on_tx rnd t (ds_svc w) = (got, posts, s) \<Longrightarrow>
    db_reach e s0 (w\<lparr>ds_svc := s, accepted := accepted w @ (if got then [t] else []), posted := posted w @ posts\<rparr>)"
| Run: "db_reach e s0 w \<Longrightarrow> i < length (svc_runners (ds_svc w)) \<Longrightarrow>
    dr_step e (svc_runners (ds_svc w) ! i) = Inr (Some (t, posts, r)) \<Longrightarrow>
    db_reach e s0 (w\<lparr>ds_svc := (ds_svc w)\<lparr>svc_runners := (svc_runners (ds_svc w))[i := r]\<rparr>,
                     executed := executed w @ [t], posted := posted w @ posts\<rparr>)"
| Finish: "db_reach e s0 w \<Longrightarrow> svc_on_finish e (ds_svc w) = Inr (ts, posts, s) \<Longrightarrow>
    db_reach e s0 (w\<lparr>ds_svc := s, executed := executed w @ ts, posted := posted w @ posts\<rparr>)"

definition with_key :: "u64 \<Rightarrow> tx list \<Rightarrow> tx list" where
  "with_key k = filter (\<lambda>t. cx_key (tx_ctx t) = k)"

lemma with_key_simps [simp]:
  "with_key k [] = []"
  "with_key k (ts @ us) = with_key k ts @ with_key k us"
  "with_key k (t # ts) = (if cx_key (tx_ctx t) = k then t # with_key k ts else with_key k ts)"
  by (simp_all add: with_key_def)

text \<open>The invariant: the transactions of one key wait, in order, in one queue, and no runner has been stopped.\<close>

definition key_ok :: "db_runner list \<Rightarrow> tx list \<Rightarrow> tx list \<Rightarrow> u64 \<Rightarrow> bool" where
  "key_ok rs ex ac k \<longleftrightarrow>
     (if rs = [] then with_key k ex = with_key k ac
      else with_key k ex @ with_key k (dr_q (rs ! (unat k mod length rs))) = with_key k ac \<and>
           (\<forall>i < length rs. i \<noteq> unat k mod length rs \<longrightarrow> with_key k (dr_q (rs ! i)) = []))"

definition db_inv :: "db_sys \<Rightarrow> bool" where
  "db_inv w \<longleftrightarrow> (\<forall>r \<in> set (svc_runners (ds_svc w)). \<not> dr_stop r) \<and>
     (\<forall>k > 0. key_ok (svc_runners (ds_svc w)) (executed w) (accepted w) k)"

lemma key_slot: "rs \<noteq> [] \<Longrightarrow> unat (k :: u64) mod length rs < length rs"
  by simp

lemma start_each_facts:
  "start_each e dbs rs = (True, rs') \<Longrightarrow>
   length rs' = length rs \<and> (\<forall>r \<in> set rs'. \<not> dr_stop r) \<and> map dr_q rs' = map dr_q rs"
  by (induction rs arbitrary: rs') (auto simp: dr_start_def split: prod.splits bool.splits)

lemma complete_queue_all: "complete_queue e q p = Inr (ts, posts, p') \<Longrightarrow> ts = q"
  by (induction q arbitrary: p ts posts p') (auto simp: bind_res_Inr_iff)

lemma finish_each_all:
  "finish_each e rs = Inr (ts, posts) \<Longrightarrow> \<forall>r \<in> set rs. \<not> dr_stop r \<Longrightarrow> ts = concat (map dr_q rs)"
  by (induction rs arbitrary: ts posts) (auto simp: bind_res_Inr_iff dr_finish_def dest!: complete_queue_all)

lemma concat_one_nonempty:
  "j < length qs \<Longrightarrow> \<forall>i < length qs. i \<noteq> j \<longrightarrow> with_key k (qs ! i) = [] \<Longrightarrow>
   with_key k (concat qs) = with_key k (qs ! j)"
proof (induction qs arbitrary: j)
  case (Cons q qs)
  show ?case
  proof (cases j)
    case 0
    have "with_key k (qs ! i) = []" if "i < length qs" for i using Cons.prems(2) 0 that by (auto dest!: spec [of _ "Suc i"])
    then have "\<forall>x \<in> set qs. with_key k x = []" by (auto simp: in_set_conv_nth)
    then have "with_key k (concat qs) = []" by (induction qs) auto
    then show ?thesis using 0 by simp
  next
    case (Suc j')
    have "with_key k q = []" using Cons.prems(2) Suc by (metis length_greater_0_conv list.distinct(1) nth_Cons_0 old.nat.distinct(1))
    moreover have "with_key k (concat qs) = with_key k (qs ! j')"
      using Cons.prems Suc by (intro Cons.IH) auto
    ultimately show ?thesis using Suc by simp
  qed
qed simp

lemma db_inv_request:
  assumes inv: "db_inv w" and tx: "on_tx rnd t (ds_svc w) = (got, posts, s)"
  shows "db_inv (w\<lparr>ds_svc := s, accepted := accepted w @ (if got then [t] else []), posted := posted w @ posts\<rparr>)"
proof (cases "got")
  case False
  then have "svc_runners s = svc_runners (ds_svc w)" using tx by (auto simp: on_tx_def Let_def split: if_splits)
  then show ?thesis using inv False by (simp add: db_inv_def)
next
  case True
  let ?rs = "svc_runners (ds_svc w)" and ?key = "cx_key (tx_ctx t)"
  define i where "i = (if 0 < ?key then unat ?key mod length ?rs else rnd mod length ?rs)"
  have ne: "?rs \<noteq> []" and s: "svc_runners s = ?rs[i := dr_schedule t (?rs ! i)]"
    using tx True by (auto simp: on_tx_def Let_def i_def split: if_splits)
  have i: "i < length ?rs" using ne by (simp add: i_def)
  have q: "dr_q (svc_runners s ! j) = dr_q (?rs ! j) @ (if j = i then [t] else [])" if "j < length ?rs" for j
    using that by (simp add: s nth_list_update dr_schedule_def cq_push_def)
  have stop: "\<forall>r \<in> set (svc_runners s). \<not> dr_stop r"
    using inv i set_update_subset_insert [of ?rs i "dr_schedule t (?rs ! i)"]
    by (auto simp: db_inv_def s dr_schedule_def)
  have "key_ok (svc_runners s) (executed w) (accepted w @ [t]) k" if k: "0 < k" for k
  proof -
    have old: "key_ok ?rs (executed w) (accepted w) k" using inv k by (simp add: db_inv_def)
    let ?j = "unat k mod length ?rs"
    have len: "length (svc_runners s) = length ?rs" "svc_runners s \<noteq> []" using ne by (simp_all add: s)
    have mine: "cx_key (tx_ctx t) = k \<Longrightarrow> i = ?j" using k by (auto simp: i_def)
    have o1: "with_key k (executed w) @ with_key k (dr_q (?rs ! ?j)) = with_key k (accepted w)"
      and o2: "\<forall>m < length ?rs. m \<noteq> ?j \<longrightarrow> with_key k (dr_q (?rs ! m)) = []"
      using old ne by (auto simp: key_ok_def)
    have "with_key k (executed w) @ with_key k (dr_q (svc_runners s ! ?j)) = with_key k (accepted w @ [t])"
      unfolding q [OF key_slot [OF ne, of k]] with_key_simps o1 [symmetric] using mine by simp
    moreover have "with_key k (dr_q (svc_runners s ! m)) = []" if "m < length ?rs" "m \<noteq> ?j" for m
      unfolding q [OF that(1)] with_key_simps using o2 that mine by (cases "m = i") auto
    ultimately show ?thesis using len by (simp add: key_ok_def)
  qed
  then show ?thesis using stop True by (simp add: db_inv_def)
qed

lemma db_inv_run:
  assumes inv: "db_inv w" and i: "i < length (svc_runners (ds_svc w))"
    and st: "dr_step e (svc_runners (ds_svc w) ! i) = Inr (Some (t, posts, r))"
  shows "db_inv (w\<lparr>ds_svc := (ds_svc w)\<lparr>svc_runners := (svc_runners (ds_svc w))[i := r]\<rparr>,
    executed := executed w @ [t], posted := posted w @ posts\<rparr>)"
proof -
  let ?rs = "svc_runners (ds_svc w)"
  have r: "dr_q (?rs ! i) = t # dr_q r" "dr_stop r = dr_stop (?rs ! i)"
    using st by (auto simp: dr_step_def cq_pop_def bind_res_Inr_iff split: list.splits)
  have stop: "\<forall>x \<in> set (?rs[i := r]). \<not> dr_stop x"
    using inv i r(2) set_update_subset_insert [of ?rs i r] by (auto simp: db_inv_def)
  have q: "dr_q (?rs ! j) = (if j = i then [t] else []) @ dr_q (?rs[i := r] ! j)" if "j < length ?rs" for j
    using that r(1) by (simp add: nth_list_update)
  have ne: "?rs \<noteq> []" using i by auto
  have "key_ok (?rs[i := r]) (executed w @ [t]) (accepted w) k" if k: "0 < k" for k
  proof -
    let ?j = "unat k mod length ?rs"
    have old: "with_key k (executed w) @ with_key k (dr_q (?rs ! ?j)) = with_key k (accepted w)"
        "\<forall>i < length ?rs. i \<noteq> ?j \<longrightarrow> with_key k (dr_q (?rs ! i)) = []"
      using inv k ne by (auto simp: db_inv_def key_ok_def)
    have "with_key k [t] = [] \<or> i = ?j" using old(2) i r(1) by force
    moreover have "with_key k (dr_q (?rs[i := r] ! m)) = []" if "m < length ?rs" "m \<noteq> ?j" for m
      using old(2) that q [OF that(1)] by (auto split: if_splits)
    ultimately show ?thesis using old(1) q [OF key_slot [OF ne, of k]] ne by (auto simp: key_ok_def split: if_splits)
  qed
  then show ?thesis using stop by (simp add: db_inv_def)
qed

lemma db_inv_finish:
  assumes inv: "db_inv w" and fin: "svc_on_finish e (ds_svc w) = Inr (ts, posts, s)"
  shows "db_inv (w\<lparr>ds_svc := s, executed := executed w @ ts, posted := posted w @ posts\<rparr>)"
proof -
  let ?rs = "svc_runners (ds_svc w)"
  have ts: "ts = concat (map dr_q ?rs)" and s: "svc_runners s = []"
    using fin inv by (auto simp: svc_on_finish_def bind_res_Inr_iff db_inv_def dest!: finish_each_all)
  have "with_key k ts = with_key k (dr_q (?rs ! (unat k mod length ?rs)))" if "?rs \<noteq> []" "0 < k" for k
    using inv that concat_one_nonempty [of "unat k mod length ?rs" "map dr_q ?rs" k]
    by (simp add: ts db_inv_def key_ok_def)
  then show ?thesis
    using inv by (cases "?rs = []") (auto simp: db_inv_def key_ok_def s ts)
qed

lemma db_inv_reach: "db_reach e s0 w \<Longrightarrow> db_inv w"
proof (induction rule: db_reach.induct)
  case (Start s)
  then obtain rs where rs: "start_each e (svc_dbs s0) (replicate (svc_count s0) mk_db_runner) = (True, rs)" "svc_runners s = rs"
    by (auto simp: start_runners_def split: prod.splits)
  note f = start_each_facts [OF rs(1)]
  have "dr_q (rs ! i) = []" if "i < length rs" for i
  proof -
    have "dr_q (rs ! i) = map dr_q rs ! i" using that by simp
    then show ?thesis using f that by (simp add: mk_db_runner_def)
  qed
  then have "key_ok rs [] [] k" for k using key_slot [of rs k] by (simp add: key_ok_def)
  then show ?case using f by (simp add: db_inv_def rs(2))
next
  case (Request w rnd t got posts s)
  then show ?case by (intro db_inv_request)
qed (auto intro: db_inv_run db_inv_finish)

section \<open>Properties\<close>

lemma key_order_parts:
  assumes "db_reach e s0 w" "0 < k"
  shows "\<exists>rest. with_key k (accepted w) = with_key k (executed w) @ rest"
    and "svc_runners (ds_svc w) = [] \<Longrightarrow> with_key k (executed w) = with_key k (accepted w)"
    and "i < length (svc_runners (ds_svc w)) \<Longrightarrow> i \<noteq> unat k mod length (svc_runners (ds_svc w)) \<Longrightarrow>
      with_key k (dr_q (svc_runners (ds_svc w) ! i)) = []"
proof -
  have ok: "key_ok (svc_runners (ds_svc w)) (executed w) (accepted w) k"
    using db_inv_reach [OF assms(1)] assms(2) by (simp add: db_inv_def)
  then show "\<exists>rest. with_key k (accepted w) = with_key k (executed w) @ rest"
    by (cases "svc_runners (ds_svc w) = []") (auto simp: key_ok_def dest: sym)
  show "svc_runners (ds_svc w) = [] \<Longrightarrow> with_key k (executed w) = with_key k (accepted w)"
    using ok by (simp add: key_ok_def)
  show "i < length (svc_runners (ds_svc w)) \<Longrightarrow> i \<noteq> unat k mod length (svc_runners (ds_svc w)) \<Longrightarrow>
      with_key k (dr_q (svc_runners (ds_svc w) ! i)) = []"
    using ok by (cases "svc_runners (ds_svc w) = []") (simp_all add: key_ok_def)
qed


definition demo_env :: db_env where
  "demo_env = \<lparr>env_up = (\<lambda>_. True), env_prepares = (\<lambda>_ _. True), env_exec = (\<lambda>t _. (Rc Tx_success, t)), env_elapsed = (\<lambda>_. 3)\<rparr>"

definition demo_db :: "string \<Rightarrow> db" where
  "demo_db k = mk_db id \<lparr>dc_key = k, dc_host = wide ''h'', dc_name = [], dc_user = [], dc_password = [], dc_database = wide k\<rparr>"

definition demo_tx :: "string \<Rightarrow> topic \<Rightarrow> u64 \<Rightarrow> string \<Rightarrow> tx" where
  "demo_tx d pic k q = \<lparr>tx_topic = pic, tx_sid = 0, tx_query = wide q, tx_ctx = \<lparr>cx_dir = 0, cx_id = [], cx_db = d, cx_key = k,
     cx_oid = 0, cx_channel = [], cx_error = [], cx_rc = Tx_success, cx_query_time = 0\<rparr>\<rparr>"

definition demo_svc :: db_svc where
  "demo_svc = \<lparr>svc_count = 2, svc_dbs = [demo_db ''g''], svc_runners = []\<rparr>"

definition demo_run :: db_sys where
  "demo_run =
     (let s = snd (start_runners demo_env demo_svc);
          t1 = demo_tx ''g'' 7 5 ''a''; t2 = demo_tx ''g'' 7 5 ''b'';
          s1 = snd (snd (on_tx 0 t1 s)); s2 = snd (snd (on_tx 0 t2 s1))
      in \<lparr>ds_svc = s2, accepted = [t1, t2], executed = [], posted = []\<rparr>)"

lemma demo_run_reach: "db_reach demo_env demo_svc demo_run"
proof -
  let ?s = "snd (start_runners demo_env demo_svc)"
  let ?t1 = "demo_tx ''g'' 7 5 ''a''" and ?t2 = "demo_tx ''g'' 7 5 ''b''"
  let ?s1 = "snd (snd (on_tx 0 ?t1 ?s))"
  have st: "fst (start_runners demo_env demo_svc)" by code_simp
  have g1: "fst (on_tx 0 ?t1 ?s)" "fst (snd (on_tx 0 ?t1 ?s)) = []" by code_simp+
  have g2: "fst (on_tx 0 ?t2 ?s1)" "fst (snd (on_tx 0 ?t2 ?s1)) = []" by code_simp+
  have "db_reach demo_env demo_svc \<lparr>ds_svc = ?s, accepted = [], executed = [], posted = []\<rparr>"
    using st by (intro db_reach.Start) (simp add: prod_eq_iff)
  from db_reach.Request [OF this, of 0 ?t1 True "[]" ?s1]
  have "db_reach demo_env demo_svc \<lparr>ds_svc = ?s1, accepted = [?t1], executed = [], posted = []\<rparr>"
    using g1 by (simp add: prod_eq_iff)
  from db_reach.Request [OF this, of 0 ?t2 True "[]" "snd (snd (on_tx 0 ?t2 ?s1))"]
  show ?thesis using g2 by (simp add: demo_run_def Let_def prod_eq_iff)
qed


lemma pool_conflates_parts:
  assumes "pool_get e d1 t1 q1 (p\<lparr>pl_cmds := []\<rparr>) = Inr (Some c, p1)"
    and "\<not> (d1 < d2 \<and> t1 < t2) \<and> \<not> (d2 < d1 \<and> t2 < t1)"
  shows "pool_get e d2 t2 q2 p1 = Inr (Some c, p1)" and "cmd_topic c = t1 \<and> cmd_query c = q1"
proof -
  have c: "mk_command e t1 (cmd_conn c) q1 = Some c" "p1 = p\<lparr>pl_cmds := [(\<lparr>ck_db = d1, ck_pic = t1\<rparr>, c)]\<rparr>"
    using assms(1)
    by (auto simp: pool_get_def cmds_find_def weak_order_def cmd_equiv_def cmd_less_def mk_command_def open_and_prepare_def
        split: option.splits if_splits)
  then show "pool_get e d2 t2 q2 p1 = Inr (Some c, p1)"
    using assms(2) by (simp add: pool_get_def cmds_find_def weak_order_def cmd_equiv_def cmd_less_def)
  show "cmd_topic c = t1 \<and> cmd_query c = q1"
    using c(1) by (cases c) (auto simp: mk_command_def open_and_prepare_def split: if_splits)
qed

text \<open>
  The pool mixes commands up. Once the command of one database and topic is in an otherwise empty pool,
  a request for another database or topic gets that same command - the first one's
  connection and its prepared query - unless both the database name and the topic are smaller, or
  both larger, than the first. In particular every topic of one database is served by the
  query of the first.
\<close>

theorem db_pool_conflates_commands:
  assumes "pool_get e d1 t1 q1 (p\<lparr>pl_cmds := []\<rparr>) = Inr (Some c, p1)"
    and "\<not> (d1 < d2 \<and> t1 < t2) \<and> \<not> (d2 < d1 \<and> t2 < t1)"
  shows "pool_get e d2 t2 q2 p1 = Inr (Some c, p1) \<and> cmd_topic c = t1 \<and> cmd_query c = q1"
  using pool_conflates_parts [OF assms] by simp

theorem db_pool_conflates_commands_witness:
  "\<exists>c p1. pool_get demo_env ''g'' 1 (wide ''insert'') (snd (setup_pool demo_env [demo_db ''g''] mk_db_pool)) = Inr (Some c, p1) \<and>
     pool_get demo_env ''g'' 2 (wide ''delete'') p1 = Inr (Some c, p1) \<and> cmd_query c = wide ''insert''"
proof -
  let ?p = "snd (setup_pool demo_env [demo_db ''g''] mk_db_pool)"
  have p: "?p\<lparr>pl_cmds := []\<rparr> = ?p" by (simp add: mk_db_pool_def demo_env_def db_connect_def)
  obtain c p1 where g: "pool_get demo_env ''g'' 1 (wide ''insert'') ?p = Inr (Some c, p1)"
    by (simp add: pool_get_def cmds_find_def weak_order_def cmd_equiv_def cmd_less_def mk_command_def open_and_prepare_def
        mk_db_pool_def demo_env_def db_connect_def demo_db_def mk_db_def Let_def um_insert_def um_has_def um_find_def)
  show ?thesis
    using db_pool_conflates_commands [of demo_env "''g''" 1 "wide ''insert''" ?p c p1 "''g''" 2 "wide ''delete''"] g p by auto
qed

lemma find_mem: "List.find P m = Some x \<Longrightarrow> x \<in> set m"
  by (induction m) (auto split: if_splits)

lemma pool_get_from:
  assumes "pool_get e d pic q p = Inr (Some c, p')"
  shows "cmds_find \<lparr>ck_db = d, ck_pic = pic\<rparr> (pl_cmds p) = Inr (Some c) \<or> (\<exists>conn. mk_command e pic conn q = Some c)"
  using assms
  by (cases "cmds_find \<lparr>ck_db = d, ck_pic = pic\<rparr> (pl_cmds p)") (auto simp: pool_get_def Let_def split: option.splits)

lemma pool_get_ready:
  assumes "pool_get e d pic q p = Inr (Some c, p')" "\<forall>(k, c) \<in> set (pl_cmds p). cmd_ready c"
  shows "cmd_ready c"
  using pool_get_from [OF assms(1)]
proof
  assume "cmds_find \<lparr>ck_db = d, ck_pic = pic\<rparr> (pl_cmds p) = Inr (Some c)"
  then obtain k where "(k, c) \<in> set (pl_cmds p)" by (auto simp: cmds_find_def split: if_splits dest: find_mem)
  then show ?thesis using assms(2) by auto
next
  assume "\<exists>conn. mk_command e pic conn q = Some c"
  then show ?thesis by (auto simp: mk_command_def open_and_prepare_def split: if_splits)
qed

lemma cmd_execute_posts:
  assumes "cmd_execute e t c = Inr (rc, t', posts)" "cmd_ready c" "\<And>st. tx_sid (snd (env_exec e t st)) = tx_sid t"
  shows "\<exists>a. posts = [(tx_dest t, a)] \<and> cx_dir (tx_ctx a) = 1 \<and>
    cx_rc (tx_ctx a) \<in> {Tx_success, Fail_query_execute, Fail_query_exception, Fail_db_exception}"
proof -
  obtain o1 t1 where o: "env_exec e t (cmd_conn c, cmd_query c) = (o1, t1)" by fastforce
  then have "tx_sid t1 = tx_sid t" using assms(3) [of "(cmd_conn c, cmd_query c)"] by simp
  then show ?thesis
    using assms(1,2) o by (cases o1) (auto simp: cmd_execute_def post_result_def tx_dest_def Let_def split: if_splits)
qed

text \<open>
  When a runner answers a transaction it answers it once, to where it came from, as a response carrying the
  result; when no command can be had for it - the database is unknown or the statement cannot be
  prepared - it is dropped without any answer.
\<close>

theorem db_answers_or_drops:
  assumes "execute_query e t p = Inr (t', posts, p')" "\<And>st. tx_sid (snd (env_exec e t st)) = tx_sid t"
    and "\<forall>(k, c) \<in> set (pl_cmds p). cmd_ready c"
  shows "(posts = [] \<and> pool_get e (cx_db (tx_ctx t)) (tx_topic t) (tx_query t) p = Inr (None, p') \<and> t' = t) \<or>
    (\<exists>a. posts = [(tx_dest t, a)] \<and> cx_dir (tx_ctx a) = 1 \<and>
         cx_rc (tx_ctx a) \<in> {Tx_success, Fail_query_execute, Fail_query_exception, Fail_db_exception})"
proof -
  obtain cmd p1 where g: "pool_get e (cx_db (tx_ctx t)) (tx_topic t) (tx_query t) p = Inr (cmd, p1)"
    using assms(1) by (auto simp: execute_query_def bind_res_Inr_iff)
  show ?thesis
  proof (cases cmd)
    case None
    then show ?thesis using assms(1) g by (simp add: execute_query_def)
  next
    case (Some c)
    then obtain rc t1 where "cmd_execute e t c = Inr (rc, t1, posts)"
      using assms(1) g by (auto simp: execute_query_def bind_res_Inr_iff)
    moreover have "cmd_ready c" using pool_get_ready [OF g [unfolded Some] assms(3)] .
    ultimately show ?thesis using cmd_execute_posts [of e t c rc t1 posts] assms(2) by blast
  qed
qed

theorem db_answers_or_drops_witness:
  "\<exists>t' p'. execute_query demo_env (demo_tx ''x'' 7 5 ''a'') mk_db_pool = Inr (t', [], p') \<and>
    (([] = ([] :: (dest \<times> tx) list) \<and> pool_get demo_env ''x'' 7 (wide ''a'') mk_db_pool = Inr (None, p') \<and> t' = demo_tx ''x'' 7 5 ''a'') \<or>
     (\<exists>a. [] = [(tx_dest (demo_tx ''x'' 7 5 ''a''), a)]))"
proof -
  let ?t = "demo_tx ''x'' 7 5 ''a''"
  obtain t' p' where x: "execute_query demo_env ?t mk_db_pool = Inr (t', [], p')"
    by (simp add: execute_query_def pool_get_def cmds_find_def weak_order_def cmd_equiv_def cmd_less_def mk_db_pool_def)
  have "tx_sid (snd (env_exec demo_env ?t st)) = tx_sid ?t" for st by (simp add: demo_env_def)
  from db_answers_or_drops [OF x this] show ?thesis using x by (auto simp: mk_db_pool_def demo_tx_def)
qed

end
