(* ===== verification/Bot_Flow.thy ===== *)
theory Bot_Flow
  imports Channel_Map Concurrent_Queue Tick
begin

text \<open>
  The scripted agents of the bot service (\<^verbatim>\<open>server/service/bot\<close>): acts, the flow that runs them and the agent's part
  in it. An act object is its position in the flow, which is the index \<open>load_act_push\<close> gives it. The
  configuration is the one read from JSON. What acts do outside the flow is recorded: timers armed, connections
  requested, sessions closed, report records. The value of a checker, the agent's clock
  and whether the agent's task is finished are arguments.
\<close>

section \<open>Acts\<close>

(* [include/wise.kernel/server/service/bot/act.hpp:117-123 act::slot] *)
record act_slot =
  sl_key :: string
  sl_cmd :: string
  sl_target :: string
  sl_value :: string

text \<open>The kinds of acts with the fields of their classes; counters are in the act's record.\<close>

(* [include/wise.kernel/server/service/bot/acts/act_connect.hpp:9-29 act_connect] *)
datatype act_kind =
    Act_dummy
  | Act_wait u32
  | Act_loop u32
  | Act_connect string string
  | Act_disconnect string
  | Act_wait_input string
  | Act_if string

(* [include/wise.kernel/server/service/bot/act.hpp:142-155 act] *)
record act =
  a_key :: string
  a_kind :: act_kind
  a_slots :: "(string, act_slot list) umap"
  a_active :: bool
  a_failed :: bool
  a_begin :: nat
  a_end :: nat
  a_tq :: "string list"
  a_timer :: nat
  a_timeout :: nat
  a_count :: u32
  a_sid :: nat

text \<open>The configuration of an act; a slot without a target has the act itself as target.\<close>

record act_cfg =
  ac_type :: string
  ac_key :: string
  ac_kind :: act_kind
  ac_slots :: "(string \<times> string \<times> string option \<times> string option) list"

(* [src/server/service/bot/act.cpp:359-373 act::add_slot] *)
definition add_slot :: "act_slot \<Rightarrow> (string, act_slot list) umap \<Rightarrow> (string, act_slot list) umap" where
  "add_slot sl m =
     (case um_find (sl_key sl) m of
        None \<Rightarrow> um_set (sl_key sl) [sl] m
      | Some _ \<Rightarrow> um_adjust (sl_key sl) (\<lambda>vec. vec @ [sl]) m)"

(* [src/server/service/bot/act.cpp:311-347 act::load_slots] *)
definition load_slots :: "act_cfg \<Rightarrow> (string, act_slot list) umap" where
  "load_slots cfg =
     fold (\<lambda>(key, cmd, target, value) m.
       add_slot \<lparr>sl_key = key, sl_cmd = cmd,
                 sl_target = (case target of None \<Rightarrow> ac_key cfg | Some t \<Rightarrow> t),
                 sl_value = (case value of None \<Rightarrow> [] | Some v \<Rightarrow> v)\<rparr> m) (ac_slots cfg) []"

text \<open>The call of \<^verbatim>\<open>load_timeout\<close> is commented out, so no act has a timeout.\<close>

(* [src/server/service/bot/act.cpp:11-20 act::act] *)
definition mk_act :: "act_cfg \<Rightarrow> act" where
  "mk_act cfg = \<lparr>a_key = ac_key cfg, a_kind = ac_kind cfg, a_slots = load_slots cfg, a_active = False, a_failed = False,
     a_begin = 0, a_end = 0, a_tq = [], a_timer = 0, a_timeout = 0, a_count = 0, a_sid = 0\<rparr>"

text \<open>The waiting time of \<^verbatim>\<open>act_wait\<close>; \<open>rnd\<close> is \<^verbatim>\<open>std::rand()\<close>.\<close>

(* [src/server/service/bot/acts/act_wait.cpp:25-44 act_wait::load] *)
definition wait_time :: "u32 option \<Rightarrow> bool option \<Rightarrow> nat \<Rightarrow> u32" where
  "wait_time ntime nrand rnd =
     (let w = max 1 (case ntime of None \<Rightarrow> 1000 | Some t \<Rightarrow> t)
      in if nrand = Some True then of_nat (rnd mod unat w) else w)"

section \<open>The flow\<close>

(* [include/wise.kernel/server/service/bot/report.hpp:35-44 report::record] *)
record report_row =
  rr_agent :: string
  rr_category :: string
  rr_act :: string
  rr_begin :: nat
  rr_end :: nat
  rr_elapsed :: nat
  rr_success :: bool

(* [include/wise.kernel/server/service/bot/flow.hpp:107-115 flow] *)
record flow =
  fl_agent :: string
  fl_acts :: "act list"
  fl_index :: "(string, nat) ix"
  fl_active :: bool
  fl_dic :: "(string, nat) umap"
  fl_cancelled :: bool
  fl_reports :: "report_row list"
  fl_timers :: "(nat \<times> u32) list"
  fl_connects :: "string list"
  fl_closed :: "nat option list"

definition upd_act :: "nat \<Rightarrow> (act \<Rightarrow> act) \<Rightarrow> flow \<Rightarrow> flow" where
  "upd_act i f s = s\<lparr>fl_acts := (fl_acts s)[i := f (fl_acts s ! i)]\<rparr>"

(* [src/server/service/bot/flow.cpp:120-128 flow::load_act_push] *)
definition load_act_push :: "act \<Rightarrow> flow \<Rightarrow> flow" where
  "load_act_push a s =
     s\<lparr>fl_acts := fl_acts s @ [a], fl_index := ix_set (a_key a) (length (fl_acts s)) (fl_index s)\<rparr>"

text \<open>The act types that have a creator.\<close>

(* [src/server/service/bot/bot_service.cpp:363-370 bot_service::add_internal_acts] *)
definition internal_acts :: "string list" where
  "internal_acts = [''act_dummy'', ''act_wait'', ''act_loop'', ''act_connect'', ''act_disconnect'']"

(* [src/server/service/bot/act_factory.cpp:19-42 act_factory::create] *)
definition create_act :: "string list \<Rightarrow> act_cfg \<Rightarrow> act option" where
  "create_act creators cfg = (if ac_type cfg \<in> set creators then Some (mk_act cfg) else None)"

(* [src/server/service/bot/flow.cpp:87-118 flow::load] *)
fun flow_load :: "string list \<Rightarrow> act_cfg list \<Rightarrow> flow \<Rightarrow> flow res" where
  "flow_load creators [] s = Inr s"
| "flow_load creators (c # cs) s =
     (case create_act creators c of
        None \<Rightarrow> Inl (Throw ''failed to create act'')
      | Some a \<Rightarrow> flow_load creators cs (load_act_push a s))"

(* [src/server/service/bot/flow.cpp:10-17 flow::flow] *)
definition mk_flow :: "string \<Rightarrow> string list \<Rightarrow> act_cfg list \<Rightarrow> flow res" where
  "mk_flow agent creators cfgs =
     flow_load creators cfgs
       \<lparr>fl_agent = agent, fl_acts = [], fl_index = \<lparr>ix_map = [], ix_null = 0\<rparr>, fl_active = False, fl_dic = [],
        fl_cancelled = False, fl_reports = [], fl_timers = [], fl_connects = [], fl_closed = []\<rparr>"

text \<open>Looking an act up by its key indexes the vector with what the index holds.\<close>

(* [include/wise.kernel/server/service/bot/flow.hpp:59-70 flow::get_act] *)
definition get_act :: "string \<Rightarrow> flow \<Rightarrow> nat option res" where
  "get_act key s =
     (if ix_has key (fl_index s) then
        let i = ix_get key (fl_index s) in if i < length (fl_acts s) then Inr (Some i) else Inl (Undef ''acts_'')
      else Inr None)"

(* [include/wise.kernel/server/service/bot/flow.hpp:72-80 flow::get_act] *)
definition get_act_at :: "nat \<Rightarrow> flow \<Rightarrow> nat option" where
  "get_act_at i s = (if i < length (fl_acts s) then Some i else None)"

(* [src/server/service/bot/act.cpp:122-127 act::trigger] *)
definition trigger :: "string \<Rightarrow> nat \<Rightarrow> flow \<Rightarrow> flow" where
  "trigger sl i s = upd_act i (\<lambda>a. a\<lparr>a_tq := cq_push sl (a_tq a)\<rparr>) s"

(* [src/server/service/bot/act.cpp:104-111 act::fail] *)
definition act_fail :: "nat \<Rightarrow> flow \<Rightarrow> flow" where
  "act_fail i s = trigger ''fail'' i (upd_act i (\<lambda>a. a\<lparr>a_failed := True\<rparr>) s)"

(* [src/server/service/bot/act.cpp:113-120 act::succeed] *)
definition act_succeed :: "nat \<Rightarrow> flow \<Rightarrow> flow" where
  "act_succeed i s = trigger ''success'' i (upd_act i (\<lambda>a. a\<lparr>a_failed := False\<rparr>) s)"

section \<open>What the kinds of acts do\<close>

record bot_env =
  be_now :: nat
  be_checkers :: "string \<rightharpoonup> bool"

(* [src/server/service/bot/acts/act_dummy.cpp:13-24 act_dummy::on_begin] *)
definition dummy_begin :: "nat \<Rightarrow> flow \<Rightarrow> flow" where
  "dummy_begin i s = upd_act i (\<lambda>a. a\<lparr>a_count := a_count a + 1\<rparr>) (s\<lparr>fl_timers := fl_timers s @ [(i, 1000)]\<rparr>)"

(* [src/server/service/bot/acts/act_wait.cpp:16-23 act_wait::on_begin] *)
definition wait_begin :: "u32 \<Rightarrow> nat \<Rightarrow> flow \<Rightarrow> flow" where
  "wait_begin w i s = s\<lparr>fl_timers := fl_timers s @ [(i, w)]\<rparr>"

(* [src/server/service/bot/acts/act_loop.cpp:14-19 act_loop::on_begin] *)
definition loop_begin :: "nat \<Rightarrow> flow \<Rightarrow> flow" where
  "loop_begin i s = upd_act i (\<lambda>a. a\<lparr>a_count := a_count a + 1\<rparr>) s"

(* [src/server/service/bot/acts/act_connect.cpp:19-22 act_connect::on_begin] *)
definition connect_begin :: "string \<Rightarrow> flow \<Rightarrow> flow" where
  "connect_begin addr s = s\<lparr>fl_connects := fl_connects s @ [addr]\<rparr>"

(* [src/server/service/bot/acts/act_disconnect.cpp:15-22 act_disconnect::on_begin] *)
definition disconnect_begin :: "string \<Rightarrow> nat \<Rightarrow> flow \<Rightarrow> flow" where
  "disconnect_begin name i s = act_succeed i (s\<lparr>fl_closed := fl_closed s @ [um_find name (fl_dic s)]\<rparr>)"

(* [include/wise.kernel/server/service/bot/if_act.hpp:23-40 if_::on_begin] *)
definition if_begin :: "bot_env \<Rightarrow> string \<Rightarrow> nat \<Rightarrow> flow \<Rightarrow> flow" where
  "if_begin e key i s = (if be_checkers e key = Some True then act_succeed i s else act_fail i s)"

definition on_begin :: "bot_env \<Rightarrow> nat \<Rightarrow> flow \<Rightarrow> flow" where
  "on_begin e i s =
     (case a_kind (fl_acts s ! i) of
        Act_dummy \<Rightarrow> dummy_begin i s
      | Act_wait w \<Rightarrow> wait_begin w i s
      | Act_loop _ \<Rightarrow> loop_begin i s
      | Act_connect _ addr \<Rightarrow> connect_begin addr s
      | Act_disconnect name \<Rightarrow> disconnect_begin name i s
      | Act_wait_input _ \<Rightarrow> s
      | Act_if key \<Rightarrow> if_begin e key i s)"

(* [src/server/service/bot/acts/act_dummy.cpp:26-32 act_dummy::on_exec] *)
definition dummy_exec :: "nat \<Rightarrow> flow \<Rightarrow> flow" where
  "dummy_exec i s = (if sint (a_count (fl_acts s ! i)) > 5 then trigger ''abort'' i s else s)"

(* [src/server/service/bot/acts/act_loop.cpp:21-32 act_loop::on_exec] *)
definition loop_exec :: "u32 \<Rightarrow> nat \<Rightarrow> flow \<Rightarrow> flow" where
  "loop_exec n i s = (if n \<le> a_count (fl_acts s ! i) then trigger ''finish'' i s else trigger ''loop'' i s)"

definition on_exec :: "nat \<Rightarrow> flow \<Rightarrow> flow" where
  "on_exec i s =
     (case a_kind (fl_acts s ! i) of
        Act_dummy \<Rightarrow> dummy_exec i s
      | Act_loop n \<Rightarrow> loop_exec n i s
      | _ \<Rightarrow> s)"

section \<open>Running acts\<close>

(* [src/server/service/bot/act.cpp:73-102 act::end] *)
definition act_end :: "bot_env \<Rightarrow> nat \<Rightarrow> flow \<Rightarrow> flow" where
  "act_end e i s =
     (let a = fl_acts s ! i
      in if \<not> a_active a then s
         else (upd_act i (\<lambda>a. a\<lparr>a_active := False, a_end := be_now e\<rparr>) s)
                \<lparr>fl_reports := fl_reports s @
                   [\<lparr>rr_agent = fl_agent s, rr_category = ''act'', rr_act = a_key a, rr_begin = a_begin a, rr_end = be_now e,
                     rr_elapsed = usub (be_now e) (a_begin a), rr_success = \<not> a_failed a\<rparr>]\<rparr>)"

(* [src/server/service/bot/act.cpp:26-50 act::begin] *)
definition act_begin :: "bot_env \<Rightarrow> nat \<Rightarrow> flow \<Rightarrow> flow" where
  "act_begin e i s =
     (let s1 = (if a_active (fl_acts s ! i) then act_end e i s else s)
      in on_begin e i (upd_act i (\<lambda>a. a\<lparr>a_active := True, a_failed := False, a_begin := be_now e, a_timer := be_now e\<rparr>) s1))"

(* [src/server/service/bot/act.cpp:287-298 act::begin_act] *)
definition begin_act :: "bot_env \<Rightarrow> nat option \<Rightarrow> flow \<Rightarrow> flow" where
  "begin_act e ap s = (case ap of None \<Rightarrow> s | Some j \<Rightarrow> if a_active (fl_acts s ! j) then s else act_begin e j s)"

(* [src/server/service/bot/act.cpp:235-250 act::trigger_slot_next] *)
definition trigger_slot_next :: "bot_env \<Rightarrow> nat \<Rightarrow> flow \<Rightarrow> flow" where
  "trigger_slot_next e i s =
     (let next_index = (if length (fl_acts s) \<le> i + 1 then 0 else i + 1)
      in begin_act e (get_act_at next_index s) s)"

(* [src/server/service/bot/act.cpp:252-272 act::trigger_slot_end] *)
definition trigger_slot_end :: "bot_env \<Rightarrow> string \<Rightarrow> flow \<Rightarrow> flow res" where
  "trigger_slot_end e target s =
     bind_res (get_act target s) (\<lambda>ap.
       Inr (case ap of None \<Rightarrow> s | Some j \<Rightarrow> if a_active (fl_acts s ! j) then act_end e j s else s))"

(* [src/server/service/bot/act.cpp:274-285 act::trigger_slot_jump] *)
definition trigger_slot_jump :: "bot_env \<Rightarrow> string \<Rightarrow> flow \<Rightarrow> flow res" where
  "trigger_slot_jump e target s = bind_res (get_act target s) (\<lambda>ap. Inr (begin_act e ap s))"

text \<open>\<open>exit\<close> cancels the agent's task unless it is finished, which a running one is not.\<close>

(* [include/wise.kernel/server/service/bot/agent.hpp:27-33 agent::exit] *)
definition agent_exit :: "flow \<Rightarrow> flow" where
  "agent_exit s = s\<lparr>fl_cancelled := True\<rparr>"

(* [src/server/service/bot/act.cpp:195-233 act::trigger_slot] *)
definition trigger_slot :: "bot_env \<Rightarrow> nat \<Rightarrow> act_slot \<Rightarrow> flow \<Rightarrow> flow res" where
  "trigger_slot e i tr s =
     (let self = a_key (fl_acts s ! i)
      in if sl_cmd tr = ''next'' then bind_res (trigger_slot_end e self s) (\<lambda>s1. Inr (trigger_slot_next e i s1))
         else if sl_cmd tr = ''jump'' then bind_res (trigger_slot_end e self s) (trigger_slot_jump e (sl_target tr))
         else if sl_cmd tr = ''exit'' then Inr (agent_exit s)
         else Inr s)"

fun trigger_slots :: "bot_env \<Rightarrow> nat \<Rightarrow> act_slot list \<Rightarrow> flow \<Rightarrow> flow res" where
  "trigger_slots e i [] s = Inr s"
| "trigger_slots e i (tr # trs) s = bind_res (trigger_slot e i tr s) (trigger_slots e i trs)"

text \<open>The loop over the trigger queue; \<open>None\<close> when it has not ended after \<open>fuel\<close> rounds.\<close>

(* [src/server/service/bot/act.cpp:167-193 act::trigger_from_queue] *)
fun trigger_from_queue :: "nat \<Rightarrow> bot_env \<Rightarrow> nat \<Rightarrow> flow \<Rightarrow> flow res option" where
  "trigger_from_queue 0 e i s = None"
| "trigger_from_queue (Suc fuel) e i s =
     (case cq_pop (a_tq (fl_acts s ! i)) of
        None \<Rightarrow> Some (Inr s)
      | Some (key, q) \<Rightarrow>
          let s1 = upd_act i (\<lambda>a. a\<lparr>a_tq := q\<rparr>) s
          in case um_find key (a_slots (fl_acts s1 ! i)) of
               None \<Rightarrow> Some (Inr s1)
             | Some vec \<Rightarrow> (case trigger_slots e i vec s1 of
                              Inl x \<Rightarrow> Some (Inl x)
                            | Inr s2 \<Rightarrow> trigger_from_queue fuel e i s2))"

(* [src/server/service/bot/act.cpp:52-71 act::exec] *)
definition act_exec :: "nat \<Rightarrow> bot_env \<Rightarrow> nat \<Rightarrow> flow \<Rightarrow> flow res option" where
  "act_exec fuel e i s =
     (let a = fl_acts s ! i;
          (out, t) = (if 0 < a_timeout a then check_timeout (be_now e) (a_timeout a) (a_timer a) else (False, a_timer a))
      in if out then Some (Inr (act_fail i (upd_act i (\<lambda>a. a\<lparr>a_timer := t\<rparr>) s)))
         else trigger_from_queue fuel e i (on_exec i s))"

(* [src/server/service/bot/flow.cpp:23-37 flow::start] *)
definition flow_start :: "bot_env \<Rightarrow> flow \<Rightarrow> bool \<times> flow" where
  "flow_start e s = (let s1 = s\<lparr>fl_active := True\<rparr> in (True, if fl_acts s1 = [] then s1 else act_begin e 0 s1))"

text \<open>The acts from position \<open>i\<close> on.\<close>

fun exec_from :: "nat \<Rightarrow> bot_env \<Rightarrow> nat list \<Rightarrow> flow \<Rightarrow> flow res option" where
  "exec_from fuel e [] s = Some (Inr s)"
| "exec_from fuel e (i # is) s =
     (if a_active (fl_acts s ! i) then
        (case act_exec fuel e i s of
           None \<Rightarrow> None
         | Some (Inl x) \<Rightarrow> Some (Inl x)
         | Some (Inr s1) \<Rightarrow> exec_from fuel e is s1)
      else exec_from fuel e is s)"

(* [src/server/service/bot/flow.cpp:39-50 flow::exec] *)
definition flow_exec :: "nat \<Rightarrow> bot_env \<Rightarrow> flow \<Rightarrow> flow res option" where
  "flow_exec fuel e s = exec_from fuel e [0..<length (fl_acts s)] s"

(* [src/server/service/bot/flow.cpp:76-85 flow::end_current] *)
definition end_current :: "bot_env \<Rightarrow> flow \<Rightarrow> flow" where
  "end_current e s = fold (act_end e) [0..<length (fl_acts s)] s"

(* [src/server/service/bot/flow.cpp:52-69 flow::stop] *)
definition flow_stop :: "bot_env \<Rightarrow> flow \<Rightarrow> flow" where
  "flow_stop e s = (end_current e s)\<lparr>fl_acts := [], fl_active := False\<rparr>"

(* [src/server/service/bot/act.cpp:160-165 act::make_me_active] *)
definition make_me_active :: "bot_env \<Rightarrow> nat \<Rightarrow> flow \<Rightarrow> flow" where
  "make_me_active e i s = act_begin e i (end_current e s)"

section \<open>Events of an agent\<close>

text \<open>A timer of \<^verbatim>\<open>act_wait\<close> or \<^verbatim>\<open>act_dummy\<close> fires.\<close>

definition on_timer :: "nat \<Rightarrow> flow \<Rightarrow> flow" where
  "on_timer i s = trigger ''success'' i s"

text \<open>\<open>remote\<close> is the address of the other end of the session, \<open>None\<close> when it is gone.\<close>

(* [src/server/service/bot/acts/act_connect.cpp:24-50 act_connect::on_session_ready] *)
definition on_session_ready :: "string option \<Rightarrow> nat \<Rightarrow> nat \<Rightarrow> flow \<Rightarrow> flow" where
  "on_session_ready remote sid i s =
     (case a_kind (fl_acts s ! i) of
        Act_connect name addr \<Rightarrow>
          if a_active (fl_acts s ! i) \<and> remote = Some addr
          then act_succeed i (upd_act i (\<lambda>a. a\<lparr>a_sid := sid\<rparr>) (s\<lparr>fl_dic := um_set name sid (fl_dic s)\<rparr>))
          else s
      | _ \<Rightarrow> s)"

(* [src/server/service/bot/acts/act_connect.cpp:52-55 act_connect::on_connect_failed] *)
definition bot_connect_failed :: "nat \<Rightarrow> flow \<Rightarrow> flow" where
  "bot_connect_failed i s = act_fail i s"

section \<open>The shape of a flow\<close>

text \<open>What no operation on acts changes: keys, kinds, slots and the index.\<close>

definition shape :: "flow \<Rightarrow> (string \<times> act_kind \<times> (string, act_slot list) umap) list \<times> (string, nat) ix" where
  "shape s = (map (\<lambda>a. (a_key a, a_kind a, a_slots a)) (fl_acts s), fl_index s)"

definition same_shape :: "(act \<Rightarrow> act) \<Rightarrow> bool" where
  "same_shape f \<longleftrightarrow> (\<forall>a. a_key (f a) = a_key a \<and> a_kind (f a) = a_kind a \<and> a_slots (f a) = a_slots a)"

lemma shape_upd [simp]:
  assumes "same_shape f"
  shows "shape (upd_act i f s) = shape s"
proof -
  let ?g = "\<lambda>a. (a_key a, a_kind a, a_slots a)"
  have "map ?g ((fl_acts s)[i := f (fl_acts s ! i)]) = (map ?g (fl_acts s))[i := ?g (f (fl_acts s ! i))]" by (rule map_update)
  also have "?g (f (fl_acts s ! i)) = ?g (fl_acts s ! i)" using assms by (simp add: same_shape_def)
  also have "(map ?g (fl_acts s))[i := ?g (fl_acts s ! i)] = map ?g (fl_acts s)"
    using list_update_id [of "fl_acts s" i] map_update [of ?g "fl_acts s" i "fl_acts s ! i"] by simp
  finally show ?thesis by (simp add: shape_def upd_act_def)
qed

lemma shape_len: "shape s' = shape s \<Longrightarrow> length (fl_acts s') = length (fl_acts s)"
  by (auto simp: shape_def dest: map_eq_imp_length_eq)

lemma shape_nth:
  assumes "shape s' = shape s" "i < length (fl_acts s)"
  shows "a_key (fl_acts s' ! i) = a_key (fl_acts s ! i)" "a_kind (fl_acts s' ! i) = a_kind (fl_acts s ! i)"
    "a_slots (fl_acts s' ! i) = a_slots (fl_acts s ! i)"
proof -
  have "map (\<lambda>a. (a_key a, a_kind a, a_slots a)) (fl_acts s') ! i = map (\<lambda>a. (a_key a, a_kind a, a_slots a)) (fl_acts s) ! i"
    using assms(1) by (simp add: shape_def)
  then show "a_key (fl_acts s' ! i) = a_key (fl_acts s ! i)" "a_kind (fl_acts s' ! i) = a_kind (fl_acts s ! i)"
    "a_slots (fl_acts s' ! i) = a_slots (fl_acts s ! i)"
    using assms(2) shape_len [OF assms(1)] by simp_all
qed

lemma shape_frame [simp]:
  "shape (s\<lparr>fl_active := x\<rparr>) = shape s" "shape (s\<lparr>fl_dic := d\<rparr>) = shape s" "shape (s\<lparr>fl_cancelled := x\<rparr>) = shape s"
  "shape (s\<lparr>fl_reports := r\<rparr>) = shape s" "shape (s\<lparr>fl_timers := t\<rparr>) = shape s" "shape (s\<lparr>fl_connects := c\<rparr>) = shape s"
  "shape (s\<lparr>fl_closed := cl\<rparr>) = shape s"
  by (simp_all add: shape_def)

lemma shape_basic [simp]:
  "shape (trigger sl i s) = shape s" "shape (act_fail i s) = shape s" "shape (act_succeed i s) = shape s"
  by (simp_all add: trigger_def act_fail_def act_succeed_def same_shape_def)

lemma shape_on_begin [simp]: "shape (on_begin e i s) = shape s"
  by (simp add: on_begin_def dummy_begin_def wait_begin_def loop_begin_def connect_begin_def disconnect_begin_def if_begin_def
      same_shape_def split: act_kind.split)

lemma shape_on_exec [simp]: "shape (on_exec i s) = shape s"
  by (simp add: on_exec_def dummy_exec_def loop_exec_def split: act_kind.split)

lemma shape_run [simp]:
  "shape (act_end e i s) = shape s" "shape (act_begin e i s) = shape s" "shape (begin_act e ap s) = shape s"
  "shape (trigger_slot_next e i s) = shape s" "shape (agent_exit s) = shape s"
  by (simp_all add: act_end_def act_begin_def begin_act_def trigger_slot_next_def agent_exit_def Let_def same_shape_def
      split: option.split)

text \<open>A flow whose index only leads to acts: no lookup leaves the vector.\<close>

definition flow_ok :: "flow \<Rightarrow> bool" where
  "flow_ok s \<longleftrightarrow> (\<forall>k i. um_find k (ix_map (fl_index s)) = Some i \<longrightarrow> i < length (fl_acts s) \<and> a_key (fl_acts s ! i) = k)"

lemma flow_ok_shape: "shape s' = shape s \<Longrightarrow> flow_ok s \<Longrightarrow> flow_ok s'"
  using shape_len [of s' s] shape_nth(1) [of s' s] by (auto simp: flow_ok_def) (simp_all add: shape_def)

lemma get_act_ok:
  assumes "flow_ok s"
  shows "get_act k s = Inr (um_find k (ix_map (fl_index s)))"
  using assms by (auto simp: get_act_def flow_ok_def ix_has_def ix_get_def um_has_def split: option.splits)

lemma trigger_slot_ok:
  assumes "flow_ok s"
  shows "\<exists>s'. trigger_slot e i tr s = Inr s' \<and> shape s' = shape s"
proof -
  obtain s1 where s1: "trigger_slot_end e (a_key (fl_acts s ! i)) s = Inr s1" "shape s1 = shape s"
    by (simp add: trigger_slot_end_def get_act_ok [OF assms] split: option.split)
  have "flow_ok s1" using flow_ok_shape [OF s1(2) assms] .
  then show ?thesis
    using s1 by (simp add: trigger_slot_def trigger_slot_jump_def get_act_ok Let_def)
qed

lemma trigger_slots_ok:
  "flow_ok s \<Longrightarrow> \<exists>s'. trigger_slots e i trs s = Inr s' \<and> shape s' = shape s"
proof (induction trs arbitrary: s)
  case (Cons tr trs)
  obtain s1 where s1: "trigger_slot e i tr s = Inr s1" "shape s1 = shape s"
    using trigger_slot_ok [OF Cons.prems] by blast
  then show ?case using Cons.IH [of s1] flow_ok_shape [OF s1(2) Cons.prems] by auto
qed simp

lemma trigger_from_queue_ok:
  "flow_ok s \<Longrightarrow> trigger_from_queue fuel e i s = Some r \<Longrightarrow> \<exists>s'. r = Inr s' \<and> shape s' = shape s"
proof (induction fuel e i s rule: trigger_from_queue.induct)
  case (2 fuel e i s)
  show ?case
  proof (cases "cq_pop (a_tq (fl_acts s ! i))")
    case None
    then show ?thesis using "2.prems"(2) by auto
  next
    case (Some kq)
    obtain key q where kq: "kq = (key, q)" by (cases kq)
    let ?s1 = "upd_act i (\<lambda>a. a\<lparr>a_tq := q\<rparr>) s"
    have sh: "shape ?s1 = shape s" by (simp add: same_shape_def)
    show ?thesis
    proof (cases "um_find key (a_slots (fl_acts ?s1 ! i))")
      case None
      then show ?thesis using "2.prems"(2) Some kq sh by auto
    next
      case vec: (Some vec)
      obtain s2 where s2: "trigger_slots e i vec ?s1 = Inr s2" "shape s2 = shape s"
        using trigger_slots_ok [OF flow_ok_shape [OF sh "2.prems"(1)], of e i vec] sh by auto
      have "trigger_from_queue fuel e i s2 = Some r" using "2.prems"(2) Some kq vec s2(1) by simp
      from "2.IH" [OF Some kq [symmetric] refl vec s2(1) flow_ok_shape [OF s2(2) "2.prems"(1)] this] show ?thesis using s2(2) by simp
    qed
  qed
qed simp

lemma act_exec_ok:
  assumes "flow_ok s" "act_exec fuel e i s = Some r"
  shows "\<exists>s'. r = Inr s' \<and> shape s' = shape s"
proof -
  have "flow_ok (on_exec i s)" using flow_ok_shape [OF shape_on_exec assms(1)] .
  then show ?thesis
    using assms(2) trigger_from_queue_ok [of "on_exec i s" fuel e i r]
    by (auto simp: act_exec_def Let_def same_shape_def split: prod.splits if_splits)
qed

lemma exec_from_ok:
  "flow_ok s \<Longrightarrow> exec_from fuel e is s = Some r \<Longrightarrow> \<exists>s'. r = Inr s' \<and> shape s' = shape s"
proof (induction "is" arbitrary: s)
  case (Cons i "is")
  show ?case
  proof (cases "a_active (fl_acts s ! i)")
    case True
    then obtain r1 where r1: "act_exec fuel e i s = Some r1" using Cons.prems(2) by (auto split: option.splits)
    then obtain s1 where s1: "r1 = Inr s1" "shape s1 = shape s" using act_exec_ok [OF Cons.prems(1)] by blast
    have "exec_from fuel e is s1 = Some r" using Cons.prems(2) True r1 s1(1) by simp
    then show ?thesis using Cons.IH [OF flow_ok_shape [OF s1(2) Cons.prems(1)]] s1(2) by simp
  next
    case False
    then show ?thesis using Cons.IH [OF Cons.prems(1)] Cons.prems(2) by simp
  qed
qed auto

text \<open>Loading builds such a flow.\<close>

lemma load_act_push_ok:
  assumes "flow_ok s"
  shows "flow_ok (load_act_push a s)"
  using assms unfolding flow_ok_def load_act_push_def
  by (auto simp: ix_set_def nth_append less_SucI split: if_splits)

lemma flow_load_ok: "flow_load creators cfgs s = Inr s' \<Longrightarrow> flow_ok s \<Longrightarrow> flow_ok s'"
  by (induction cfgs arbitrary: s) (auto split: option.splits intro: load_act_push_ok)

lemma mk_flow_ok: "mk_flow agent creators cfgs = Inr s \<Longrightarrow> flow_ok s"
  unfolding mk_flow_def by (erule flow_load_ok) (simp add: flow_ok_def)

section \<open>The trigger queue of an act\<close>

definition tq :: "nat \<Rightarrow> flow \<Rightarrow> string list" where
  "tq i s = a_tq (fl_acts s ! i)"

text \<open>The acts whose \<open>on_begin\<close> triggers a slot at once.\<close>

fun immediate :: "act_kind \<Rightarrow> bool" where
  "immediate (Act_disconnect _) = True"
| "immediate (Act_if _) = True"
| "immediate _ = False"

lemma tq_upd: "tq i (upd_act j f s) = (if i = j \<and> j < length (fl_acts s) then a_tq (f (fl_acts s ! i)) else tq i s)"
  by (cases "j < length (fl_acts s)") (auto simp: tq_def upd_act_def nth_list_update list_update_beyond)

lemma tq_frame [simp]:
  "tq i (s\<lparr>fl_active := x\<rparr>) = tq i s" "tq i (s\<lparr>fl_dic := d\<rparr>) = tq i s" "tq i (s\<lparr>fl_cancelled := x\<rparr>) = tq i s"
  "tq i (s\<lparr>fl_reports := r\<rparr>) = tq i s" "tq i (s\<lparr>fl_timers := t\<rparr>) = tq i s" "tq i (s\<lparr>fl_connects := c\<rparr>) = tq i s"
  "tq i (s\<lparr>fl_closed := cl\<rparr>) = tq i s"
  by (simp_all add: tq_def)

lemma tq_keep: "(\<And>a. a_tq (f a) = a_tq a) \<Longrightarrow> tq i (upd_act j f s) = tq i s"
  by (simp add: tq_upd) (simp add: tq_def)

lemma tq_trigger_other: "i \<noteq> j \<Longrightarrow> tq i (trigger sl j s) = tq i s"
  by (simp add: trigger_def tq_upd)

lemma tq_trigger: "i < length (fl_acts s) \<Longrightarrow> tq i (trigger sl i s) = tq i s @ [sl]"
  by (simp add: trigger_def tq_upd cq_push_def) (simp add: tq_def)

lemma tq_on_begin:
  assumes "i \<noteq> j \<or> \<not> immediate (a_kind (fl_acts s ! j))"
  shows "tq i (on_begin e j s) = tq i s"
  using assms
  by (cases "a_kind (fl_acts s ! j)")
     (auto simp: on_begin_def dummy_begin_def wait_begin_def loop_begin_def connect_begin_def disconnect_begin_def if_begin_def
        act_succeed_def act_fail_def tq_trigger_other tq_keep)

lemma tq_act_end [simp]: "tq i (act_end e j s) = tq i s"
  by (simp add: act_end_def Let_def tq_keep)

lemma tq_begin_act:
  assumes "i < length (fl_acts s)" "\<not> immediate (a_kind (fl_acts s ! i))"
  shows "tq i (begin_act e ap s) = tq i s"
proof -
  have "tq i (act_begin e j s) = tq i s" for j
  proof -
    let ?s1 = "if a_active (fl_acts s ! j) then act_end e j s else s"
    let ?s2 = "upd_act j (\<lambda>a. a\<lparr>a_active := True, a_failed := False, a_begin := be_now e, a_timer := be_now e\<rparr>) ?s1"
    have "shape ?s2 = shape s" by (simp add: same_shape_def)
    then have "a_kind (fl_acts ?s2 ! i) = a_kind (fl_acts s ! i)" using assms(1) by (rule shape_nth)
    then have "tq i (on_begin e j ?s2) = tq i ?s2" using assms(2) by (intro tq_on_begin) auto
    then show ?thesis by (simp add: act_begin_def Let_def tq_keep)
  qed
  then show ?thesis by (simp add: begin_act_def split: option.split)
qed

lemma trigger_slot_tq:
  assumes "flow_ok s" "i < length (fl_acts s)" "\<not> immediate (a_kind (fl_acts s ! i))" "trigger_slot e i tr s = Inr s'"
  shows "tq i s' = tq i s"
proof -
  obtain s1 where s1: "trigger_slot_end e (a_key (fl_acts s ! i)) s = Inr s1" "shape s1 = shape s" "tq i s1 = tq i s"
    by (simp add: trigger_slot_end_def get_act_ok [OF assms(1)] split: option.split)
  have ok: "flow_ok s1" "i < length (fl_acts s1)" "\<not> immediate (a_kind (fl_acts s1 ! i))"
    using flow_ok_shape [OF s1(2) assms(1)] shape_len [OF s1(2)] shape_nth(2) [OF s1(2) assms(2)] assms(2,3) by simp_all
  show ?thesis
    using assms(4) s1 tq_begin_act [OF ok(2,3)]
    by (auto simp: trigger_slot_def trigger_slot_jump_def trigger_slot_next_def get_act_ok [OF ok(1)] agent_exit_def Let_def
        split: if_splits)
qed

lemma trigger_slots_tq:
  "flow_ok s \<Longrightarrow> i < length (fl_acts s) \<Longrightarrow> \<not> immediate (a_kind (fl_acts s ! i)) \<Longrightarrow> trigger_slots e i trs s = Inr s' \<Longrightarrow>
   tq i s' = tq i s"
proof (induction trs arbitrary: s)
  case (Cons tr trs)
  obtain s1 where s1: "trigger_slot e i tr s = Inr s1" "shape s1 = shape s"
    using trigger_slot_ok [OF Cons.prems(1)] by blast
  have "tq i s1 = tq i s" using trigger_slot_tq [OF Cons.prems(1-3) s1(1)] .
  moreover have "tq i s' = tq i s1"
    using Cons.prems s1 flow_ok_shape [OF s1(2)] shape_len [OF s1(2)] shape_nth(2) [OF s1(2)]
    by (intro Cons.IH) auto
  ultimately show ?case by simp
qed simp

lemma trigger_from_queue_enough:
  "flow_ok s \<Longrightarrow> i < length (fl_acts s) \<Longrightarrow> \<not> immediate (a_kind (fl_acts s ! i)) \<Longrightarrow> length (tq i s) < fuel \<Longrightarrow>
   \<exists>s'. trigger_from_queue fuel e i s = Some (Inr s')"
proof (induction fuel arbitrary: s)
  case (Suc fuel)
  show ?case
  proof (cases "a_tq (fl_acts s ! i)")
    case Nil
    then show ?thesis by (simp add: cq_pop_def)
  next
    case (Cons key q)
    let ?s1 = "upd_act i (\<lambda>a. a\<lparr>a_tq := q\<rparr>) s"
    have sh: "shape ?s1 = shape s" by (simp add: same_shape_def)
    have ok: "flow_ok ?s1" "i < length (fl_acts ?s1)" "\<not> immediate (a_kind (fl_acts ?s1 ! i))" "tq i ?s1 = q"
      using flow_ok_shape [OF sh Suc.prems(1)] shape_len [OF sh] shape_nth(2) [OF sh Suc.prems(2)] Suc.prems(2,3)
      by (simp_all add: tq_upd)
    show ?thesis
    proof (cases "um_find key (a_slots (fl_acts ?s1 ! i))")
      case None
      then show ?thesis using Cons by (simp add: cq_pop_def)
    next
      case (Some vec)
      obtain s2 where s2: "trigger_slots e i vec ?s1 = Inr s2" "shape s2 = shape ?s1"
        using trigger_slots_ok [OF ok(1)] by blast
      have "length (tq i s2) < fuel" using trigger_slots_tq [OF ok(1-3) s2(1)] ok(4) Suc.prems(4) Cons by (simp add: tq_def)
      then have "\<exists>s'. trigger_from_queue fuel e i s2 = Some (Inr s')"
        using flow_ok_shape [OF s2(2) ok(1)] shape_len [OF s2(2)] shape_nth(2) [OF s2(2) ok(2)] ok(2,3)
        by (intro Suc.IH) simp_all
      then show ?thesis using Cons Some s2(1) by (simp add: cq_pop_def)
    qed
  qed
qed simp

section \<open>Properties of flows\<close>

text \<open>
  Executing an act returns, and never by an access outside the flow's acts: for an act whose \<open>on_begin\<close> does
  not trigger a slot at once, two rounds more than there are triggers waiting are enough,
  whatever slots are configured; keys, kinds, slots and the index are as before.
\<close>

theorem act_exec_returns:
  assumes "flow_ok s" "i < length (fl_acts s)" "\<not> immediate (a_kind (fl_acts s ! i))"
  shows "\<exists>s'. act_exec (length (a_tq (fl_acts s ! i)) + 2) e i s = Some (Inr s') \<and> shape s' = shape s"
proof -
  let ?fuel = "length (tq i s) + 2"
  have sh: "shape (on_exec i s) = shape s" by simp
  have "length (tq i (on_exec i s)) \<le> Suc (length (tq i s))"
    using assms(2) by (simp add: on_exec_def dummy_exec_def loop_exec_def tq_trigger split: act_kind.split)
  then have "\<exists>s'. trigger_from_queue ?fuel e i (on_exec i s) = Some (Inr s')"
    using flow_ok_shape [OF sh assms(1)] shape_len [OF sh] shape_nth(2) [OF sh assms(2)] assms(2,3)
    by (intro trigger_from_queue_enough) simp_all
  then have "\<exists>r. act_exec ?fuel e i s = Some r" by (auto simp: act_exec_def Let_def split: prod.split)
  then show ?thesis using act_exec_ok [OF assms(1)] unfolding tq_def by blast
qed

definition wait_flow :: flow where
  "wait_flow = (case mk_flow ''bot_1'' internal_acts
     [\<lparr>ac_type = ''act_wait'', ac_key = ''w'', ac_kind = Act_wait 5, ac_slots = [(''success'', ''next'', None, None)]\<rparr>,
      \<lparr>ac_type = ''act_loop'', ac_key = ''l'', ac_kind = Act_loop 3, ac_slots = [(''loop'', ''jump'', Some ''w'', None), (''finish'', ''exit'', None, None)]\<rparr>]
     of Inr s \<Rightarrow> snd (flow_start \<lparr>be_now = 0, be_checkers = Map.empty\<rparr> s))"

lemma wait_flow_ok: "flow_ok wait_flow"
proof -
  let ?e = "\<lparr>be_now = 0, be_checkers = Map.empty\<rparr> :: bot_env"
  let ?cfgs = "[\<lparr>ac_type = ''act_wait'', ac_key = ''w'', ac_kind = Act_wait 5, ac_slots = [(''success'', ''next'', None, None)]\<rparr>,
      \<lparr>ac_type = ''act_loop'', ac_key = ''l'', ac_kind = Act_loop 3, ac_slots = [(''loop'', ''jump'', Some ''w'', None), (''finish'', ''exit'', None, None)]\<rparr>]"
  obtain s where s: "mk_flow ''bot_1'' internal_acts ?cfgs = Inr s" by (simp add: mk_flow_def create_act_def internal_acts_def)
  have "shape (snd (flow_start ?e s)) = shape s" by (simp add: flow_start_def Let_def)
  then show ?thesis using flow_ok_shape mk_flow_ok [OF s] by (simp add: wait_flow_def s)
qed

theorem act_exec_returns_witness:
  "\<exists>s'. act_exec 2 \<lparr>be_now = 9, be_checkers = Map.empty\<rparr> 0 wait_flow = Some (Inr s') \<and> shape s' = shape wait_flow"
proof -
  have "0 < length (fl_acts wait_flow)" "\<not> immediate (a_kind (fl_acts wait_flow ! 0))" "a_tq (fl_acts wait_flow ! 0) = []"
    by code_simp+
  then show ?thesis using act_exec_returns [OF wait_flow_ok, of 0] by (simp add: numeral_2_eq_2)
qed

text \<open>The acts that do trigger at once can keep the loop going.\<close>

lemma self_loop_spins:
  "fl_acts s = [a] \<Longrightarrow> a_kind a = Act_disconnect name \<Longrightarrow> um_find ''success'' (a_slots a) = Some [sl] \<Longrightarrow> sl_cmd sl = ''next'' \<Longrightarrow>
   um_find (a_key a) (ix_map (fl_index s)) = Some 0 \<Longrightarrow> a_tq a \<noteq> [] \<Longrightarrow> set (a_tq a) = {''success''} \<Longrightarrow> a_active a \<Longrightarrow>
   trigger_from_queue fuel e 0 s = None"
proof (induction fuel arbitrary: s a)
  case (Suc fuel)
  obtain q where q: "a_tq a = ''success'' # q" "set q \<subseteq> {''success''}" using Suc.prems(6,7) by (cases "a_tq a") auto
  let ?a1 = "a\<lparr>a_tq := q, a_active := False, a_end := be_now e\<rparr>"
  let ?a2 = "?a1\<lparr>a_active := True, a_failed := False, a_begin := be_now e, a_timer := be_now e, a_tq := q @ [''success'']\<rparr>"
  obtain s' where s': "trigger_slots e 0 [sl] (upd_act 0 (\<lambda>a. a\<lparr>a_tq := q\<rparr>) s) = Inr s'" "fl_acts s' = [?a2]" "fl_index s' = fl_index s"
    using Suc.prems(1-5,8)
    by (simp add: trigger_slot_def trigger_slot_end_def get_act_def ix_has_def ix_get_def um_has_def upd_act_def act_end_def
        trigger_slot_next_def get_act_at_def begin_act_def act_begin_def on_begin_def disconnect_begin_def act_succeed_def trigger_def
        cq_push_def Let_def)
  have "trigger_from_queue fuel e 0 s' = None"
    using Suc.prems q(2) by (intro Suc.IH [OF s'(2)]) (auto simp: s'(3))
  then show ?case using Suc.prems(1,3) q(1) s'(1) by (simp add: cq_pop_def upd_act_def)
qed simp

text \<open>
  A flow of a single \<^verbatim>\<open>act_disconnect\<close> whose \<open>success\<close> slot says \<open>next\<close> hangs its agent: once the act has begun,
  executing it never returns, because going on to the next act begins the same act again,
  which triggers \<open>success\<close> into the queue being emptied.
\<close>

theorem disconnect_next_never_returns:
  assumes "fl_acts s = [a]" "a_kind a = Act_disconnect name" "um_find ''success'' (a_slots a) = Some [sl]" "sl_cmd sl = ''next''"
    and "um_find (a_key a) (ix_map (fl_index s)) = Some 0" "a_tq a = []" "\<not> a_active a" "a_timeout a = 0"
  shows "act_exec fuel e 0 (snd (flow_start e s)) = None"
proof -
  let ?b = "a\<lparr>a_active := True, a_failed := False, a_begin := be_now e, a_timer := be_now e, a_tq := [''success'']\<rparr>"
  have s1: "fl_acts (snd (flow_start e s)) = [?b]" "fl_index (snd (flow_start e s)) = fl_index s"
    using assms
    by (simp_all add: flow_start_def act_begin_def on_begin_def disconnect_begin_def act_succeed_def trigger_def upd_act_def
        cq_push_def Let_def)
  have "trigger_from_queue fuel e 0 (snd (flow_start e s)) = None"
    using assms by (intro self_loop_spins [OF s1(1)]) (simp_all add: s1(2))
  then show ?thesis using s1(1) assms(2,8) by (simp add: act_exec_def on_exec_def Let_def)
qed

definition hang_flow :: flow where
  "hang_flow = (case mk_flow ''bot_1'' internal_acts
     [\<lparr>ac_type = ''act_disconnect'', ac_key = ''d'', ac_kind = Act_disconnect ''s'', ac_slots = [(''success'', ''next'', None, None)]\<rparr>]
     of Inr s \<Rightarrow> s)"

theorem disconnect_next_never_returns_witness:
  "act_exec 1000 \<lparr>be_now = 0, be_checkers = Map.empty\<rparr> 0 (snd (flow_start \<lparr>be_now = 0, be_checkers = Map.empty\<rparr> hang_flow)) = None"
proof -
  have h: "fl_acts hang_flow = [mk_act \<lparr>ac_type = ''act_disconnect'', ac_key = ''d'', ac_kind = Act_disconnect ''s'',
      ac_slots = [(''success'', ''next'', None, None)]\<rparr>]" "um_find ''d'' (ix_map (fl_index hang_flow)) = Some 0"
    by (simp_all add: hang_flow_def mk_flow_def create_act_def internal_acts_def load_act_push_def ix_set_def mk_act_def)
  show ?thesis
    by (rule disconnect_next_never_returns [OF h(1), where sl = "\<lparr>sl_key = ''success'', sl_cmd = ''next'', sl_target = ''d'', sl_value = []\<rparr>"])
       (simp_all add: h(2) mk_act_def load_slots_def add_slot_def)
qed

section \<open>Loops\<close>

text \<open>
  A flow of two acts: a body that succeeds at once and goes on, and an \<^verbatim>\<open>act_loop\<close> that jumps back
  to it or exits. After \<open>k\<close> passes the body is active again and the loop has counted \<open>k\<close>.
\<close>

definition loop_at :: "u32 \<Rightarrow> nat \<Rightarrow> flow \<Rightarrow> bool" where
  "loop_at n k s \<longleftrightarrow>
     (\<exists>b l vb vf vl. fl_acts s = [b, l] \<and> a_key b = ''body'' \<and> a_kind b = Act_if ''c'' \<and> a_active b \<and> a_tq b = [''success''] \<and>
        a_timeout b = 0 \<and> um_find ''success'' (a_slots b) = Some [vb] \<and> sl_cmd vb = ''next'' \<and>
        a_key l = ''loop'' \<and> a_kind l = Act_loop n \<and> \<not> a_active l \<and> a_tq l = [] \<and> a_timeout l = 0 \<and> a_count l = of_nat k \<and>
        um_find ''loop'' (a_slots l) = Some [vl] \<and> sl_cmd vl = ''jump'' \<and> sl_target vl = ''body'' \<and>
        um_find ''finish'' (a_slots l) = Some [vf] \<and> sl_cmd vf = ''exit'') \<and>
     um_find ''body'' (ix_map (fl_index s)) = Some 0 \<and> um_find ''loop'' (ix_map (fl_index s)) = Some 1 \<and>
     \<not> fl_cancelled s \<and> length (filter (\<lambda>r. rr_act r = ''body'') (fl_reports s)) = k"

lemmas run_defs = act_exec_def on_exec_def loop_exec_def trigger_def upd_act_def cq_push_def cq_pop_def trigger_slot_def
  trigger_slot_end_def trigger_slot_next_def trigger_slot_jump_def get_act_def get_act_at_def ix_has_def ix_get_def um_has_def
  begin_act_def act_begin_def act_end_def on_begin_def loop_begin_def if_begin_def act_succeed_def agent_exit_def
  eval_nat_numeral Let_def

lemma loop_pass:
  assumes at: "loop_at n k s" and c: "be_checkers e ''c'' = Some True"
  shows "if n \<le> of_nat (Suc k)
    then \<exists>s'. flow_exec 3 e s = Some (Inr s') \<and> fl_cancelled s' \<and> length (filter (\<lambda>r. rr_act r = ''body'') (fl_reports s')) = Suc k
    else \<exists>s'. flow_exec 3 e s = Some (Inr s') \<and> loop_at n (Suc k) s'"
proof -
  obtain b l vb vf vl where acts: "fl_acts s = [b, l]"
    and b: "a_key b = ''body''" "a_kind b = Act_if ''c''" "a_active b" "a_tq b = [''success'']" "a_timeout b = 0"
      "um_find ''success'' (a_slots b) = Some [vb]" "sl_cmd vb = ''next''"
    and l: "a_key l = ''loop''" "a_kind l = Act_loop n" "\<not> a_active l" "a_tq l = []" "a_timeout l = 0" "a_count l = of_nat k"
      "um_find ''loop'' (a_slots l) = Some [vl]" "sl_cmd vl = ''jump''" "sl_target vl = ''body''"
      "um_find ''finish'' (a_slots l) = Some [vf]" "sl_cmd vf = ''exit''"
    using at unfolding loop_at_def by metis
  have ix: "um_find ''body'' (ix_map (fl_index s)) = Some 0" "um_find ''loop'' (ix_map (fl_index s)) = Some 1"
    "\<not> fl_cancelled s" "length (filter (\<lambda>r. rr_act r = ''body'') (fl_reports s)) = k"
    using at unfolding loop_at_def by metis+
  obtain s1 b' l' where s1: "act_exec 3 e 0 s = Some (Inr s1)" "fl_acts s1 = [b', l']" "fl_index s1 = fl_index s"
      "\<not> fl_cancelled s1" "length (filter (\<lambda>r. rr_act r = ''body'') (fl_reports s1)) = Suc k"
    and b': "b' = b\<lparr>a_tq := [], a_active := False, a_end := be_now e\<rparr>"
    and l': "l' = l\<lparr>a_active := True, a_failed := False, a_begin := be_now e, a_timer := be_now e, a_count := a_count l + 1\<rparr>"
    using acts b l ix by (simp add: run_defs)
  show ?thesis
  proof (cases "n \<le> of_nat (Suc k)")
    case True
    obtain s2 where "act_exec 3 e 1 s1 = Some (Inr s2)" "fl_cancelled s2" "fl_reports s2 = fl_reports s1"
      using s1(2,3) b' l' l ix True by (simp add: run_defs add.commute)
    then show ?thesis using True s1 acts b(3) l' by (simp add: flow_exec_def eval_nat_numeral upt_rec)
  next
    case False
    obtain s2 b'' l'' where s2: "act_exec 3 e 1 s1 = Some (Inr s2)" "fl_acts s2 = [b'', l'']" "fl_index s2 = fl_index s"
        "\<not> fl_cancelled s2" "length (filter (\<lambda>r. rr_act r = ''body'') (fl_reports s2)) = Suc k"
      and b'': "b'' = b'\<lparr>a_active := True, a_failed := False, a_begin := be_now e, a_timer := be_now e, a_tq := [''success'']\<rparr>"
      and l'': "l'' = l'\<lparr>a_tq := [], a_active := False, a_end := be_now e\<rparr>"
      using s1 b' l' b l ix c False by (simp add: run_defs add.commute)
    have "flow_exec 3 e s = Some (Inr s2)" using s1 s2 acts b(3) l' by (simp add: flow_exec_def eval_nat_numeral upt_rec)
    moreover have "loop_at n (Suc k) s2"
      using s2 b l ix unfolding loop_at_def b'' l'' b' l' by (simp add: add.commute)
    ultimately show ?thesis using False by auto
  qed
qed

text \<open>Passes of the agent's \<open>on_execute\<close> over the flow, one per environment.\<close>

fun passes :: "nat \<Rightarrow> bot_env list \<Rightarrow> flow \<Rightarrow> flow res option" where
  "passes fuel [] s = Some (Inr s)"
| "passes fuel (e # es) s =
     (case flow_exec fuel e s of
        Some (Inr s1) \<Rightarrow> passes fuel es s1
      | r \<Rightarrow> r)"

lemma u32_reached: "Suc j < 2 ^ 32 \<Longrightarrow> (n :: u32) \<le> of_nat (Suc j) \<longleftrightarrow> unat n \<le> Suc j"
  unfolding word_le_nat_alt unat_of_nat by simp

lemma loop_passes:
  assumes "loop_at n j s" "\<forall>e \<in> set es. be_checkers e ''c'' = Some True" "j + length es < unat n"
  shows "\<exists>s'. passes 3 es s = Some (Inr s') \<and> loop_at n (j + length es) s'"
  using assms
proof (induction es arbitrary: j s)
  case (Cons e es)
  have "Suc j < 2 ^ 32" using Cons.prems(3) unsigned_less [of n, where ?'a = nat] by simp
  then have "\<not> n \<le> of_nat (Suc j)" using u32_reached [of j n] Cons.prems(3) by simp
  then obtain s1 where "flow_exec 3 e s = Some (Inr s1)" "loop_at n (Suc j) s1"
    using loop_pass [OF Cons.prems(1), of e] Cons.prems(2) by auto
  then show ?case using Cons.IH [of "Suc j" s1] Cons.prems(2,3) by auto
qed simp

definition loop_cfgs :: "u32 \<Rightarrow> act_cfg list" where
  "loop_cfgs n =
     [\<lparr>ac_type = ''if'', ac_key = ''body'', ac_kind = Act_if ''c'', ac_slots = [(''success'', ''next'', None, None)]\<rparr>,
      \<lparr>ac_type = ''act_loop'', ac_key = ''loop'', ac_kind = Act_loop n,
       ac_slots = [(''loop'', ''jump'', Some ''body'', None), (''finish'', ''exit'', None, None)]\<rparr>]"

lemma loop_started:
  assumes "mk_flow agent (''if'' # internal_acts) (loop_cfgs n) = Inr s" "be_checkers e ''c'' = Some True"
  shows "loop_at n 0 (snd (flow_start e s))"
proof -
  have "fl_acts s = [mk_act (loop_cfgs n ! 0), mk_act (loop_cfgs n ! 1)]" "fl_cancelled s = False" "fl_reports s = []"
      "um_find ''body'' (ix_map (fl_index s)) = Some 0" "um_find ''loop'' (ix_map (fl_index s)) = Some 1"
    using assms(1)
    by (auto simp: mk_flow_def loop_cfgs_def create_act_def internal_acts_def load_act_push_def ix_set_def mk_act_def)
  then show ?thesis
    using assms(2)
    by (simp add: loop_at_def flow_start_def run_defs loop_cfgs_def mk_act_def load_slots_def add_slot_def)
qed

lemma loop_count_parts:
  assumes "mk_flow agent (''if'' # internal_acts) (loop_cfgs n) = Inr s" "0 < n"
    and "\<forall>e \<in> set (e0 # es). be_checkers e ''c'' = Some True"
  shows "length es < unat n \<Longrightarrow>
      \<exists>s'. passes 3 es (snd (flow_start e0 s)) = Some (Inr s') \<and> \<not> fl_cancelled s' \<and>
        length (filter (\<lambda>r. rr_act r = ''body'') (fl_reports s')) = length es"
    and "length es = unat n \<Longrightarrow>
      \<exists>s'. passes 3 es (snd (flow_start e0 s)) = Some (Inr s') \<and> fl_cancelled s' \<and>
        length (filter (\<lambda>r. rr_act r = ''body'') (fl_reports s')) = unat n"
proof -
  have at0: "loop_at n 0 (snd (flow_start e0 s))" using loop_started [OF assms(1)] assms(3) by simp
  show "\<exists>s'. passes 3 es (snd (flow_start e0 s)) = Some (Inr s') \<and> \<not> fl_cancelled s' \<and>
      length (filter (\<lambda>r. rr_act r = ''body'') (fl_reports s')) = length es" if "length es < unat n"
    using loop_passes [OF at0, of es] assms(3) that by (auto simp: loop_at_def)
  show "\<exists>s'. passes 3 es (snd (flow_start e0 s)) = Some (Inr s') \<and> fl_cancelled s' \<and>
      length (filter (\<lambda>r. rr_act r = ''body'') (fl_reports s')) = unat n" if len: "length es = unat n"
  proof -
    have "unat n \<noteq> 0" using assms(2) by (simp add: unat_eq_0 word_neq_0_conv)
    then obtain es' e where es: "es = es' @ [e]" "Suc (length es') = unat n" using len by (cases es rule: rev_cases) auto
    obtain s1 where s1: "passes 3 es' (snd (flow_start e0 s)) = Some (Inr s1)" "loop_at n (length es') s1"
      using loop_passes [OF at0, of es'] assms(3) es by auto
    have "n \<le> of_nat (Suc (length es'))" using es(2) by (metis of_nat_unat order_refl ucast_id)
    then obtain s2 where s2: "flow_exec 3 e s1 = Some (Inr s2)" "fl_cancelled s2"
        "length (filter (\<lambda>r. rr_act r = ''body'') (fl_reports s2)) = unat n"
      using loop_pass [OF s1(2), of e] assms(3) es by auto
    have "passes 3 (es' @ [e]) s0 = (case passes 3 es' s0 of Some (Inr s1) \<Rightarrow> passes 3 [e] s1 | r \<Rightarrow> r)" for s0
      by (induction es' arbitrary: s0) (auto split: option.split sum.split)
    then show ?thesis using s1(1) s2 es(1) by simp
  qed
qed

text \<open>
  An \<^verbatim>\<open>act_loop\<close> of \<open>n\<close> runs the acts before it exactly \<open>n\<close> times: in the flow of a body that succeeds at once
  and a loop act jumping back to it, after every \<open>k < n\<close> passes the agent goes on, with the body ended
  \<open>k\<close> times, and the pass number \<open>n\<close> ends the body for the \<open>n\<close>-th time and cancels the agent.
\<close>

theorem loop_runs_body_n_times:
  assumes "mk_flow agent (''if'' # internal_acts) (loop_cfgs n) = Inr s" "0 < n"
    and "\<forall>e \<in> set (e0 # es). be_checkers e ''c'' = Some True"
    and "length es \<le> unat n"
  shows "\<exists>s'. passes 3 es (snd (flow_start e0 s)) = Some (Inr s') \<and> (fl_cancelled s' \<longleftrightarrow> length es = unat n) \<and>
    length (filter (\<lambda>r. rr_act r = ''body'') (fl_reports s')) = length es"
  using loop_count_parts [OF assms(1-3)] assms(4) by (cases "length es = unat n") force+

theorem loop_runs_body_n_times_witness:
  "\<exists>s s'. mk_flow ''bot'' (''if'' # internal_acts) (loop_cfgs 3) = Inr s \<and>
     passes 3 (replicate 3 \<lparr>be_now = 7, be_checkers = [''c'' \<mapsto> True]\<rparr>)
       (snd (flow_start \<lparr>be_now = 7, be_checkers = [''c'' \<mapsto> True]\<rparr> s)) = Some (Inr s') \<and> fl_cancelled s'"
proof -
  let ?e = "\<lparr>be_now = 7, be_checkers = [''c'' \<mapsto> True]\<rparr> :: bot_env"
  obtain s where s: "mk_flow ''bot'' (''if'' # internal_acts) (loop_cfgs 3) = Inr s"
    by (simp add: mk_flow_def loop_cfgs_def create_act_def internal_acts_def)
  show ?thesis using loop_runs_body_n_times [OF s, of ?e "replicate 3 ?e"] s by auto
qed

end
