(* ===== verification/Bot_Service.thy ===== *)
theory Bot_Service
  imports Bot_Flow
begin

text \<open>
  The bot service around the flows: the report file, the agents as tasks, and the routing of messages to agents.
  Files and the base classes \<^verbatim>\<open>service\<close> and \<^verbatim>\<open>subscription_handler\<close> (which are not in the repository) are arguments: whether
  opening the file succeeds, what their \<open>on_start\<close> and \<open>on_execute\<close> return.
\<close>

section \<open>The report\<close>

datatype report_line = Head | Row report_row

(* [include/wise.kernel/server/service/bot/report.hpp:56-59 report] *)
record report =
  rp_queue :: "report_row list"
  rp_open :: bool
  rp_enabled :: bool
  rp_file :: "report_line list"

definition mk_report :: report where
  "mk_report = \<lparr>rp_queue = [], rp_open = False, rp_enabled = True, rp_file = []\<rparr>"

(* [src/server/service/bot/report.cpp:71-86 report::write_head] *)
definition write_head :: "report \<Rightarrow> report" where
  "write_head r = (if \<not> rp_open r then r else if \<not> rp_enabled r then r else r\<lparr>rp_file := rp_file r @ [Head]\<rparr>)"

(* [src/server/service/bot/report.cpp:88-103 report::write] *)
definition report_write :: "report_row \<Rightarrow> report \<Rightarrow> report" where
  "report_write x r = (if \<not> rp_open r then r else if \<not> rp_enabled r then r else r\<lparr>rp_file := rp_file r @ [Row x]\<rparr>)"

(* [src/server/service/bot/report.cpp:16-34 report::start] *)
definition report_start :: "bool \<Rightarrow> report \<Rightarrow> bool \<times> report" where
  "report_start opened r = (if opened then (True, write_head (r\<lparr>rp_open := True\<rparr>)) else (False, r))"

(* [include/wise.kernel/server/service/bot/report.hpp:31-34 report::disable] *)
definition report_disable :: "report \<Rightarrow> report" where
  "report_disable r = r\<lparr>rp_enabled := False\<rparr>"

(* [src/server/service/bot/report.cpp:36-46 report::add] *)
definition report_add :: "report_row \<Rightarrow> report \<Rightarrow> report" where
  "report_add x r = r\<lparr>rp_queue := cq_push x (rp_queue r)\<rparr>"

fun write_all :: "report_row list \<Rightarrow> report \<Rightarrow> report" where
  "write_all [] r = r"
| "write_all (x # xs) r = write_all xs (report_write x r)"

(* [src/server/service/bot/report.cpp:48-56 report::exec] *)
definition report_exec :: "report \<Rightarrow> report" where
  "report_exec r = write_all (rp_queue r) (r\<lparr>rp_queue := []\<rparr>)"

(* [src/server/service/bot/report.cpp:58-69 report::stop] *)
definition report_stop :: "report \<Rightarrow> report" where
  "report_stop r = (if rp_open r then (report_exec r)\<lparr>rp_open := False\<rparr> else r)"

section \<open>Agents\<close>

(* [include/wise.kernel/server/service/bot/agent.hpp:87-103 agent] *)
record agent =
  ag_index :: u32
  ag_flow :: flow
  ag_active :: bool
  ag_begin :: nat
  ag_end :: nat

(* [src/server/service/bot/agent.cpp:69-99 agent::on_start] *)
definition agent_on_start :: "bool \<Rightarrow> bot_env \<Rightarrow> agent \<Rightarrow> bool \<times> agent" where
  "agent_on_start base e a =
     (if \<not> base then (False, a)
      else let (rc, f) = flow_start e (ag_flow a)
           in (rc, a\<lparr>ag_flow := f, ag_active := rc, ag_begin := (if rc then be_now e else ag_begin a)\<rparr>))"

text \<open>\<open>base\<close> says whether the base class returned success.\<close>

(* [src/server/service/bot/agent.cpp:101-111 agent::on_execute] *)
definition agent_on_execute :: "nat \<Rightarrow> bool \<Rightarrow> bot_env \<Rightarrow> agent \<Rightarrow> agent res option" where
  "agent_on_execute fuel base e a =
     (if base then map_option (\<lambda>r. bind_res r (\<lambda>f. Inr (a\<lparr>ag_flow := f\<rparr>))) (flow_exec fuel e (ag_flow a)) else Some (Inr a))"

(* [src/server/service/bot/agent.cpp:113-139 agent::on_finish] *)
definition agent_on_finish :: "bot_env \<Rightarrow> agent \<Rightarrow> agent" where
  "agent_on_finish e a =
     (let f = flow_stop e (ag_flow a)
      in a\<lparr>ag_active := False, ag_end := be_now e,
           ag_flow := f\<lparr>fl_reports := fl_reports f @
             [\<lparr>rr_agent = fl_agent f, rr_category = ''agent'', rr_act = ''agent'', rr_begin = ag_begin a, rr_end = be_now e,
               rr_elapsed = usub (be_now e) (ag_begin a), rr_success = True\<rparr>]\<rparr>\<rparr>)"

section \<open>The service\<close>

(* [include/wise.kernel/server/service/bot/bot_service.hpp:72-79 bot_service] *)
record bot_svc =
  begin_index :: u32
  agent_count :: u32
  bs_agents :: "u32 list"
  bs_published :: "(u32 \<times> nat) list"
  bs_cancelled :: "u32 list"
  bs_exit :: bool

(* [src/server/service/bot/bot_service.cpp:231-254 bot_service::load_test_config] *)
definition load_test_config :: "u32 option \<Rightarrow> u32 option \<Rightarrow> bot_svc" where
  "load_test_config nbegin nac =
     \<lparr>begin_index = max 1 (case nbegin of None \<Rightarrow> 1 | Some b \<Rightarrow> b), agent_count = max 1 (case nac of None \<Rightarrow> 1 | Some c \<Rightarrow> c),
      bs_agents = [], bs_published = [], bs_cancelled = [], bs_exit = False\<rparr>"

text \<open>An agent is known by the index it is created with.\<close>

(* [src/server/service/bot/bot_service.cpp:339-351 bot_service::start_agents] *)
definition start_agents :: "bot_svc \<Rightarrow> bool \<times> bot_svc" where
  "start_agents s =
     (True, s\<lparr>bs_agents := bs_agents s @ map (\<lambda>i. begin_index s + of_nat i) [0..<unat (agent_count s)]\<rparr>)"

(* [src/server/service/bot/bot_service.cpp:92-98 bot_service::get_index_from_agent_id] *)
definition get_index_from_agent_id :: "u64 \<Rightarrow> bot_svc \<Rightarrow> u32" where
  "get_index_from_agent_id i s =
     (if i < ucast (begin_index s) then 0
      else if i > ucast (begin_index s + agent_count s) then 0
      else ucast (i - ucast (begin_index s)))"

(* [src/server/service/bot/bot_service.cpp:100-103 bot_service::is_valid_agent_index] *)
definition is_valid_agent_index :: "u32 \<Rightarrow> bot_svc \<Rightarrow> bool" where
  "is_valid_agent_index k s \<longleftrightarrow> unat k < length (bs_agents s)"

(* [src/server/service/bot/bot_service.cpp:62-70 bot_service::post_by_agent_id] *)
definition post_by_agent_id :: "u64 \<Rightarrow> nat \<Rightarrow> bot_svc \<Rightarrow> bot_svc" where
  "post_by_agent_id i pkt s =
     (if i = 0 then s
      else let k = get_index_from_agent_id i s
           in if \<not> is_valid_agent_index k s then s
              else s\<lparr>bs_published := bs_published s @ [(bs_agents s ! unat k, pkt)]\<rparr>)"

text \<open>\<open>oid\<close> is the id the session is bound to, \<open>None\<close> when it is gone.\<close>

(* [src/server/service/bot/bot_service.cpp:37-50 bot_service::post_by_session] *)
definition post_by_session :: "u64 option \<Rightarrow> nat \<Rightarrow> bot_svc \<Rightarrow> bot_svc" where
  "post_by_session oid pkt s = (case oid of None \<Rightarrow> s | Some i \<Rightarrow> post_by_agent_id i pkt s)"

(* [src/server/service/bot/bot_service.cpp:126-139 bot_service::check_exit] *)
definition check_exit :: "(u32 \<Rightarrow> bool) \<Rightarrow> bot_svc \<Rightarrow> bool \<times> bot_svc" where
  "check_exit finished s = (if list_all finished (bs_agents s) then (True, s\<lparr>bs_exit := True\<rparr>) else (False, s))"

(* [src/server/service/bot/bot_service.cpp:353-361 bot_service::stop_agents] *)
definition stop_agents :: "bot_svc \<Rightarrow> bot_svc" where
  "stop_agents s = s\<lparr>bs_cancelled := bs_cancelled s @ bs_agents s, bs_agents := []\<rparr>"

(* [src/server/service/bot/bot_service.cpp:117-124 bot_service::on_finish] *)
definition bot_on_finish :: "report \<Rightarrow> bot_svc \<Rightarrow> report \<times> bot_svc" where
  "bot_on_finish r s = (report_stop r, stop_agents s)"

section \<open>Properties\<close>

datatype report_op = Add report_row | Exec | Stop

fun report_step :: "report_op \<Rightarrow> report \<Rightarrow> report" where
  "report_step (Add x) r = report_add x r"
| "report_step Exec r = report_exec r"
| "report_step Stop r = report_stop r"

definition added :: "report_op list \<Rightarrow> report_row list" where
  "added ops = concat (map (\<lambda>x. case x of Add r \<Rightarrow> [r] | _ \<Rightarrow> []) ops)"

lemma write_all_open:
  "rp_open r \<Longrightarrow> rp_enabled r \<Longrightarrow> write_all xs r = r\<lparr>rp_file := rp_file r @ map Row xs\<rparr>"
  by (induction xs arbitrary: r) (auto simp: report_write_def)

lemma write_all_closed: "\<not> rp_open r \<Longrightarrow> write_all xs r = r"
  by (induction xs arbitrary: r) (auto simp: report_write_def)

lemma report_run_open:
  assumes "rp_open r" "rp_enabled r" "Stop \<notin> set ops"
  shows "rp_open (fold report_step ops r) \<and> rp_enabled (fold report_step ops r) \<and>
    rp_file (fold report_step ops r) @ map Row (rp_queue (fold report_step ops r)) =
      rp_file r @ map Row (rp_queue r) @ map Row (added ops)"
  using assms
proof (induction ops arbitrary: r)
  case (Cons x ops)
  then show ?case
    using Cons.IH [of "report_step x r"]
    by (cases x) (auto simp: report_add_def cq_push_def report_exec_def write_all_open added_def)
qed (simp add: added_def)

lemma report_run_closed: "\<not> rp_open r \<Longrightarrow> rp_file (fold report_step ops r) = rp_file r"
proof (induction ops arbitrary: r)
  case (Cons x ops)
  then show ?case
    by (cases x) (auto simp: report_add_def report_exec_def report_stop_def write_all_closed)
qed simp

text \<open>
  The report file holds, under its head line, every record added before the report is stopped, once and in the
  order of the calls of \<open>add\<close>, however the calls of \<open>exec\<close> interleave with them; nothing that is added later
  reaches the file. The service stops the report before it cancels its agents, so the records
  of agents that finish then are lost.
\<close>

theorem report_holds_rows_until_stop:
  assumes "report_start True mk_report = (ok, r)" "Stop \<notin> set ops"
  shows "rp_file (fold report_step (ops @ Stop # later) r) = Head # map Row (added ops)"
proof -
  have r: "rp_open r" "rp_enabled r" "rp_file r = [Head]" "rp_queue r = []"
    using assms(1) by (auto simp: report_start_def write_head_def mk_report_def)
  let ?r1 = "fold report_step ops r"
  have o: "rp_open ?r1" "rp_enabled ?r1" "rp_file ?r1 @ map Row (rp_queue ?r1) = Head # map Row (added ops)"
    using report_run_open [OF r(1,2) assms(2)] r(3,4) by auto
  then have "rp_file (report_stop ?r1) = Head # map Row (added ops)" "\<not> rp_open (report_stop ?r1)"
    by (simp_all add: report_stop_def report_exec_def write_all_open)
  then show ?thesis using report_run_closed [of "report_stop ?r1" later] by simp
qed

definition a_row :: "string \<Rightarrow> report_row" where
  "a_row k = \<lparr>rr_agent = ''bot_1'', rr_category = ''act'', rr_act = k, rr_begin = 1, rr_end = 3, rr_elapsed = 2, rr_success = True\<rparr>"

theorem report_holds_rows_until_stop_witness:
  "\<exists>ok r. report_start True mk_report = (ok, r) \<and>
     rp_file (fold report_step ([Add (a_row ''w''), Exec] @ Stop # [Add (a_row ''l''), Exec]) r) = [Head, Row (a_row ''w'')]"
proof -
  obtain ok r where r: "report_start True mk_report = (ok, r)" by fastforce
  show ?thesis
    using report_holds_rows_until_stop [OF r, of "[Add (a_row ''w''), Exec]" "[Add (a_row ''l''), Exec]"] r
    by (auto simp: added_def)
qed
lemma u32_sum: "unat (b :: u32) + unat c < 2 ^ 32 \<Longrightarrow> unat (b + c) = unat b + unat c"
  by (simp add: unat_word_ariths)

lemma unat_widen: "unat (ucast (b :: u32) :: u64) = unat b"
proof -
  have "unat b < 2 ^ 32" using unsigned_less [of b, where ?'a = nat] by simp
  then show ?thesis by (simp add: unsigned_ucast_eq take_bit_eq_mod)
qed

lemma u64_index:
  fixes b :: u32 and i :: u64
  assumes "unat b \<le> unat i" "unat i < 2 ^ 32"
  shows "unat (ucast (i - ucast b) :: u32) = unat i - unat b"
proof -
  have "(ucast b :: u64) \<le> i" using assms(1) by (simp add: word_le_nat_alt unat_widen)
  then have "unat (i - ucast b) = unat i - unat b" by (simp add: unat_sub unat_widen)
  then show ?thesis using assms(2) by (simp add: unsigned_ucast_eq take_bit_eq_mod)
qed

lemma id_compare:
  fixes b :: u32 and i :: u64
  shows "i < ucast b \<longleftrightarrow> unat i < unat b" "ucast b < i \<longleftrightarrow> unat b < unat i"
  by (simp_all add: word_less_nat_alt unat_widen)

lemma routing_parts:
  assumes "unat (begin_index s) + unat (agent_count s) < 2 ^ 32" "bs_agents s = []" "0 < agent_count s"
    and "start_agents s = (ok, s1)"
  shows "0 < i \<Longrightarrow> unat (begin_index s) \<le> unat i \<Longrightarrow> unat i < unat (begin_index s) + unat (agent_count s) \<Longrightarrow>
      bs_published (post_by_agent_id i pkt s1) = bs_published s @ [(ucast i, pkt)]"
    and "i = 0 \<or> unat i = unat (begin_index s) + unat (agent_count s) \<Longrightarrow> post_by_agent_id i pkt s1 = s1"
    and "0 < i \<Longrightarrow> unat i < unat (begin_index s) \<or> unat (begin_index s) + unat (agent_count s) < unat i \<Longrightarrow>
      bs_published (post_by_agent_id i pkt s1) = bs_published s @ [(begin_index s, pkt)]"
proof -
  have s1: "s1 = s\<lparr>bs_agents := map (\<lambda>j. begin_index s + of_nat j) [0..<unat (agent_count s)]\<rparr>"
    using assms(2,4) by (simp add: start_agents_def)
  have c0: "0 < unat (agent_count s)" using assms(3) by (simp add: word_less_nat_alt)
  note sum = u32_sum [OF assms(1)]
  show "bs_published (post_by_agent_id i pkt s1) = bs_published s @ [(ucast i, pkt)]"
    if i: "0 < i" "unat (begin_index s) \<le> unat i" "unat i < unat (begin_index s) + unat (agent_count s)"
  proof -
    have k: "get_index_from_agent_id i s1 = ucast (i - ucast (begin_index s))"
      using i(2,3) by (simp add: get_index_from_agent_id_def s1 id_compare sum)
    have u: "unat (ucast (i - ucast (begin_index s)) :: u32) = unat i - unat (begin_index s)"
      using i(2,3) assms(1) by (intro u64_index) simp_all
    have "begin_index s + of_nat (unat i - unat (begin_index s)) = (ucast i :: u32)"
      using i(2) by (simp add: of_nat_diff)
    then show ?thesis
      using i by (simp add: post_by_agent_id_def k is_valid_agent_index_def u Let_def) (auto simp: s1)
  qed
  show "post_by_agent_id i pkt s1 = s1" if i: "i = 0 \<or> unat i = unat (begin_index s) + unat (agent_count s)"
  proof (cases "i = 0")
    case False
    then have e: "unat i = unat (begin_index s) + unat (agent_count s)" using i by simp
    have k: "get_index_from_agent_id i s1 = ucast (i - ucast (begin_index s))"
      using e by (simp add: get_index_from_agent_id_def s1 id_compare sum)
    have "unat (ucast (i - ucast (begin_index s)) :: u32) = unat (agent_count s)"
      using u64_index [of "begin_index s" i] e assms(1) by simp
    moreover have "length (bs_agents s1) = unat (agent_count s)" by (simp add: s1)
    ultimately show ?thesis using False by (simp add: post_by_agent_id_def k is_valid_agent_index_def Let_def)
  qed (simp add: post_by_agent_id_def)
  show "bs_published (post_by_agent_id i pkt s1) = bs_published s @ [(begin_index s, pkt)]"
    if i: "0 < i" "unat i < unat (begin_index s) \<or> unat (begin_index s) + unat (agent_count s) < unat i"
  proof -
    have "get_index_from_agent_id i s1 = 0" using i(2) by (auto simp: get_index_from_agent_id_def s1 id_compare sum)
    then show ?thesis using i(1) c0 by (auto simp: post_by_agent_id_def is_valid_agent_index_def Let_def) (auto simp: s1)
  qed
qed

text \<open>
  Where the service sends a message for the agent with a given id, as long as the ids of its agents do not
  wrap around: to that agent when it has one with the id; nowhere for the id 0 and for the id just behind the last
  agent; but for every other id, below the first or further behind the last, to the first agent, which
  did not ask for it.
\<close>

theorem bot_message_routing:
  assumes "unat (begin_index s) + unat (agent_count s) < 2 ^ 32" "bs_agents s = []" "0 < agent_count s"
    and "start_agents s = (ok, s1)"
  shows "bs_published (post_by_agent_id i pkt s1) = bs_published s @
    (if i = 0 \<or> unat i = unat (begin_index s) + unat (agent_count s) then []
     else if unat (begin_index s) \<le> unat i \<and> unat i < unat (begin_index s) + unat (agent_count s) then [(ucast i, pkt)]
     else [(begin_index s, pkt)])"
proof (cases "i = 0 \<or> unat i = unat (begin_index s) + unat (agent_count s)")
  case True
  then show ?thesis using routing_parts(2) [OF assms, of i pkt] assms(2,4) by (auto simp: start_agents_def)
next
  case False
  then have "0 < i" by (simp add: word_neq_0_conv)
  then show ?thesis using routing_parts(1,3) [OF assms, of i pkt] False by auto
qed

theorem bot_message_routing_witness:
  "\<exists>ok s1. start_agents (load_test_config (Some 10) (Some 3)) = (ok, s1) \<and>
     bs_published (post_by_agent_id 12 7 s1) = [(12, 7)] \<and> bs_published (post_by_agent_id 13 7 s1) = [] \<and>
     bs_published (post_by_agent_id 99 7 s1) = [(10, 7)]"
proof -
  let ?s = "load_test_config (Some 10) (Some 3)"
  obtain ok s1 where st: "start_agents ?s = (ok, s1)" by fastforce
  have s: "begin_index ?s = 10" "agent_count ?s = 3" "bs_agents ?s = []" "bs_published ?s = []" by code_simp+
  note r = bot_message_routing [of ?s ok s1, unfolded s, OF _ refl _ st]
  show ?thesis
    using r [of 12 7] r [of 13 7] r [of 99 7] st by simp
qed

end
