(* ===== verification/Mem_Tracker.thy ===== *)
theory Mem_Tracker
  imports Hash_Map Concurrent_Queue Crc32
begin

text \<open>
  The memory tracker (\<^verbatim>\<open>core/mem_tracker.hpp\<close>, \<^verbatim>\<open>src/core/mem_tracker.cpp\<close>): allocations and releases are queued, and
  whoever gets the lock applies what is queued to the tables. An address is a number, a class is its name;
  the tables by size and by the checksum of the class name count what was allocated and released.
\<close>

section \<open>State\<close>

(* [include/wise.kernel/core/mem_tracker.hpp:64-75 mem_tracker::alloc] *)
record alloc =
  al_size :: nat
  al_crc :: u32

(* [include/wise.kernel/core/mem_tracker.hpp:77-82 mem_tracker::size_stat] *)
record size_stat =
  ss_alloc :: nat
  ss_dealloc :: nat
  ss_size :: nat

(* [include/wise.kernel/core/mem_tracker.hpp:84-87 mem_tracker::class_stat] *)
record class_stat = size_stat +
  cs_cls :: string

(* [include/wise.kernel/core/mem_tracker.hpp:89-95 mem_tracker::raw_op] *)
datatype raw_op = Alloc_op nat nat string | Dealloc_op nat

(* [include/wise.kernel/core/mem_tracker.hpp:108-121 mem_tracker] *)
record tracker =
  mt_enable :: bool
  mt_locked :: bool
  mt_ops :: "raw_op list"
  mt_allocs :: "(nat, alloc) umap"
  mt_sizes :: "(nat, size_stat) umap"
  mt_classes :: "(u32, class_stat) umap"
  mt_total_alloc :: nat
  mt_total_dealloc :: nat

(* [src/core/mem_tracker.cpp:47-50 mem_tracker::mem_tracker] *)
definition mk_tracker :: tracker where
  "mk_tracker = \<lparr>mt_enable = True, mt_locked = False, mt_ops = [], mt_allocs = [], mt_sizes = [], mt_classes = [],
     mt_total_alloc = 0, mt_total_dealloc = 0\<rparr>"

(* [src/core/mem_tracker.cpp:73-76 mem_tracker::enable] *)
definition mt_enable_it :: "tracker \<Rightarrow> tracker" where
  "mt_enable_it t = t\<lparr>mt_enable := True\<rparr>"

(* [src/core/mem_tracker.cpp:78-81 mem_tracker::disable] *)
definition mt_disable :: "tracker \<Rightarrow> tracker" where
  "mt_disable t = t\<lparr>mt_enable := False\<rparr>"

section \<open>The tables\<close>

text \<open>One more object under a key, with \<open>fresh\<close> for a key that has none; the same for both tables.\<close>

(* [src/core/mem_tracker.cpp:185-204 mem_tracker::on_alloc_locked] *)
definition stat_add :: "'k \<Rightarrow> 'a size_stat_scheme \<Rightarrow> ('k, 'a size_stat_scheme) umap \<Rightarrow> ('k, 'a size_stat_scheme) umap" where
  "stat_add k fresh m =
     (if um_has k m then um_adjust k (\<lambda>ss. ss\<lparr>ss_alloc := ss_alloc ss + 1\<rparr>) m else um_insert k fresh m)"

text \<open>One object less; the entry goes with the last. Going through an iterator to nothing is undefined.\<close>

(* [src/core/mem_tracker.cpp:240-254 mem_tracker::on_dealloc_locked] *)
definition stat_sub :: "'k \<Rightarrow> ('k, 'a size_stat_scheme) umap \<Rightarrow> ('k, 'a size_stat_scheme) umap res" where
  "stat_sub k m =
     (case um_find k m of
        None \<Rightarrow> Inl (Undef ''end iterator'')
      | Some ss \<Rightarrow>
          if ss_alloc ss = ss_dealloc ss + 1 then Inr (um_erase k m)
          else Inr (um_adjust k (\<lambda>ss. ss\<lparr>ss_dealloc := ss_dealloc ss + 1\<rparr>) m))"

definition class_crc :: "string \<Rightarrow> u32" where
  "class_crc cls = ucast (crc32 (map (\<lambda>c. of_nat (of_char c)) cls))"

(* [src/core/mem_tracker.cpp:157-229 mem_tracker::on_alloc_locked] *)
definition on_alloc_locked :: "nat \<Rightarrow> nat \<Rightarrow> string \<Rightarrow> tracker \<Rightarrow> tracker" where
  "on_alloc_locked mem sz cls t =
     (let crc = class_crc cls
      in if um_has mem (mt_allocs t) then t
         else t\<lparr>mt_allocs := um_insert mem \<lparr>al_size = sz, al_crc = crc\<rparr> (mt_allocs t),
                mt_total_alloc := mt_total_alloc t + sz,
                mt_sizes := stat_add sz \<lparr>ss_alloc = 1, ss_dealloc = 0, ss_size = sz\<rparr> (mt_sizes t),
                mt_classes := stat_add crc \<lparr>ss_alloc = 1, ss_dealloc = 0, ss_size = sz, cs_cls = cls\<rparr> (mt_classes t)\<rparr>)"

(* [src/core/mem_tracker.cpp:231-278 mem_tracker::on_dealloc_locked] *)
definition on_dealloc_locked :: "nat \<Rightarrow> tracker \<Rightarrow> tracker res" where
  "on_dealloc_locked mem t =
     (case um_find mem (mt_allocs t) of
        None \<Rightarrow> Inr t
      | Some ae \<Rightarrow>
          bind_res (stat_sub (al_size ae) (mt_sizes t)) (\<lambda>sizes.
          bind_res (stat_sub (al_crc ae) (mt_classes t)) (\<lambda>classes.
          Inr (t\<lparr>mt_sizes := sizes, mt_classes := classes, mt_total_dealloc := mt_total_dealloc t + al_size ae,
                 mt_allocs := um_erase mem (mt_allocs t)\<rparr>))))"

fun apply_op :: "raw_op \<Rightarrow> tracker \<Rightarrow> tracker res" where
  "apply_op (Alloc_op mem sz cls) t = Inr (on_alloc_locked mem sz cls t)"
| "apply_op (Dealloc_op mem) t = on_dealloc_locked mem t"

section \<open>Threads\<close>

text \<open>A call pushes, tries the lock, and the holder applies queued operations one by one until the queue is empty.\<close>

(* [src/core/mem_tracker.cpp:83-97 mem_tracker::on_alloc] *)
definition push_op :: "raw_op \<Rightarrow> tracker \<Rightarrow> tracker" where
  "push_op op t = (if \<not> mt_enable t then t else t\<lparr>mt_ops := cq_push op (mt_ops t)\<rparr>)"

(* [src/core/mem_tracker.cpp:99-102 mem_tracker::on_alloc] *)
definition try_lock :: "tracker \<Rightarrow> bool \<times> tracker" where
  "try_lock t = (if mt_locked t then (False, t) else (True, t\<lparr>mt_locked := True\<rparr>))"

(* [src/core/mem_tracker.cpp:104-118 mem_tracker::on_alloc] *)
definition drain_step :: "tracker \<Rightarrow> tracker res" where
  "drain_step t =
     (case cq_pop (mt_ops t) of
        None \<Rightarrow> Inr (t\<lparr>mt_locked := False\<rparr>)
      | Some (op, q) \<Rightarrow> apply_op op (t\<lparr>mt_ops := q\<rparr>))"

text \<open>The number of bytes the report calls current.\<close>

(* [src/core/mem_tracker.cpp:295-307 mem_tracker::report] *)
definition remain_bytes :: "(nat, size_stat) umap \<Rightarrow> nat" where
  "remain_bytes m = sum_list (map (\<lambda>(_, ss). ss_size ss * (ss_alloc ss - ss_dealloc ss)) m)"

inductive mt_reach :: "tracker \<Rightarrow> bool" where
  Start: "mt_reach mk_tracker"
| Push: "mt_reach t \<Longrightarrow> mt_reach (push_op op t)"
| Lock: "mt_reach t \<Longrightarrow> mt_reach (snd (try_lock t))"
| Drain: "mt_reach t \<Longrightarrow> mt_locked t \<Longrightarrow> drain_step t = Inr t' \<Longrightarrow> mt_reach t'"
| Enable: "mt_reach t \<Longrightarrow> mt_reach (mt_enable_it t)"
| Disable: "mt_reach t \<Longrightarrow> mt_reach (mt_disable t)"

section \<open>What the tables count\<close>

definition stat_ok :: "('k \<Rightarrow> nat) \<Rightarrow> ('k, 'a size_stat_scheme) umap \<Rightarrow> bool" where
  "stat_ok cnt m \<longleftrightarrow> um_ok m \<and> (\<forall>k. um_find k m = None \<longrightarrow> cnt k = 0) \<and>
     (\<forall>k ss. um_find k m = Some ss \<longrightarrow> 0 < cnt k \<and> ss_alloc ss = ss_dealloc ss + cnt k)"

lemma stat_add_ok:
  assumes "stat_ok cnt m" "ss_alloc fresh = 1" "ss_dealloc fresh = 0"
  shows "stat_ok (cnt(k := cnt k + 1)) (stat_add k fresh m)"
  using assms unfolding stat_ok_def stat_add_def um_has_def by (auto split: if_splits)

lemma stat_sub_ok:
  assumes "stat_ok cnt m" "0 < cnt k"
  shows "\<exists>m'. stat_sub k m = Inr m' \<and> stat_ok (cnt(k := cnt k - 1)) m'"
proof -
  obtain ss where ss: "um_find k m = Some ss" using assms by (cases "um_find k m") (auto simp: stat_ok_def)
  have a: "ss_alloc ss = ss_dealloc ss + cnt k" using assms(1) ss by (auto simp: stat_ok_def)
  show ?thesis
  proof (cases "cnt k = 1")
    case True
    then show ?thesis using ss a assms unfolding stat_ok_def stat_sub_def by auto
  next
    case False
    then have "1 < cnt k" using assms(2) by linarith
    then show ?thesis using ss a assms unfolding stat_ok_def stat_sub_def by auto
  qed
qed

text \<open>Sums over a table, and how one change of an entry shows in them.\<close>

lemma sum_adjust:
  "um_ok m \<Longrightarrow> um_find k m = Some v \<Longrightarrow>
   sum_list (map (\<lambda>(_, x). g x) (um_adjust k f m)) + g v = sum_list (map (\<lambda>(_, x). g x) m) + (g (f v) :: nat)"
proof (induction m)
  case (Cons kv m)
  obtain k' v' where kv: "kv = (k', v')" by (cases kv)
  show ?case
  proof (cases "k' = k")
    case True
    then have "um_adjust k f m = m" using Cons.prems(1) kv
      by (induction m) (auto simp: um_adjust_def um_ok_def)
    then show ?thesis using Cons.prems(2) True kv by (simp add: um_adjust_def um_find_Cons)
  next
    case False
    then show ?thesis using Cons kv by (simp add: um_adjust_def um_find_Cons um_ok_def)
  qed
qed simp

lemma sum_erase:
  "um_ok m \<Longrightarrow> um_find k m = Some v \<Longrightarrow>
   sum_list (map (\<lambda>(_, x). g x) (um_erase k m)) + g v = (sum_list (map (\<lambda>(_, x). g x) m) :: nat)"
proof (induction m)
  case (Cons kv m)
  obtain k' v' where kv: "kv = (k', v')" by (cases kv)
  show ?case
  proof (cases "k' = k")
    case True
    then have "um_erase k m = m" using Cons.prems(1) kv
      by (induction m) (auto simp: um_erase_def um_ok_def)
    then show ?thesis using Cons.prems(2) True kv by (simp add: um_erase_def um_find_Cons)
  next
    case False
    then show ?thesis using Cons kv by (simp add: um_erase_def um_find_Cons um_ok_def)
  qed
qed simp

text \<open>The objects with a given size or class among the live ones.\<close>

definition live_count :: "(alloc \<Rightarrow> 'k) \<Rightarrow> (nat, alloc) umap \<Rightarrow> 'k \<Rightarrow> nat" where
  "live_count f m k = sum_list (map (\<lambda>(_, a). if f a = k then 1 else 0) m)"

lemma live_count_insert:
  "\<not> um_has mem m \<Longrightarrow> live_count f (um_insert mem a m) = (live_count f m)(f a := live_count f m (f a) + 1)"
  by (auto simp: live_count_def um_insert_def fun_eq_iff)

lemma live_count_erase:
  assumes "um_ok m" "um_find mem m = Some a"
  shows "live_count f (um_erase mem m) = (live_count f m)(f a := live_count f m (f a) - 1)" "0 < live_count f m (f a)"
proof -
  note e = sum_erase [OF assms, where g = "\<lambda>x. if f x = k then 1 else 0" for k]
  show "0 < live_count f m (f a)" using e [of "f a"] by (simp add: live_count_def)
  show "live_count f (um_erase mem m) = (live_count f m)(f a := live_count f m (f a) - 1)"
  proof
    fix k
    show "live_count f (um_erase mem m) k = ((live_count f m)(f a := live_count f m (f a) - 1)) k"
      using e [of k] by (cases "f a = k") (simp_all add: live_count_def)
  qed
qed

definition sizes_keyed :: "(nat, size_stat) umap \<Rightarrow> bool" where
  "sizes_keyed m \<longleftrightarrow> (\<forall>k ss. um_find k m = Some ss \<longrightarrow> ss_size ss = k)"

definition mt_inv :: "tracker \<Rightarrow> bool" where
  "mt_inv t \<longleftrightarrow> um_ok (mt_allocs t) \<and> stat_ok (live_count al_size (mt_allocs t)) (mt_sizes t) \<and>
     stat_ok (live_count al_crc (mt_allocs t)) (mt_classes t) \<and> sizes_keyed (mt_sizes t) \<and>
     mt_total_alloc t = mt_total_dealloc t + remain_bytes (mt_sizes t)"

lemma remain_add:
  assumes "stat_ok cnt m" "sizes_keyed m"
  shows "remain_bytes (stat_add k \<lparr>ss_alloc = 1, ss_dealloc = 0, ss_size = k\<rparr> m) = remain_bytes m + k"
proof (cases "um_find k m")
  case None
  then show ?thesis by (simp add: stat_add_def um_has_def um_insert_def remain_bytes_def)
next
  case (Some ss)
  let ?g = "\<lambda>ss. ss_size ss * (ss_alloc ss - ss_dealloc ss)" and ?f = "\<lambda>ss. ss\<lparr>ss_alloc := ss_alloc ss + 1\<rparr>"
  have f: "ss_size ss = k" "ss_alloc ss = ss_dealloc ss + cnt k" "um_ok m"
    using assms Some by (auto simp: sizes_keyed_def stat_ok_def)
  have "?g (?f ss) = ?g ss + k" by (simp add: f(1,2))
  with sum_adjust [OF f(3) Some, of ?g ?f] show ?thesis
    using Some by (simp add: stat_add_def um_has_def remain_bytes_def)
qed

lemma remain_sub:
  assumes "stat_ok cnt m" "sizes_keyed m" "stat_sub k m = Inr m'"
  shows "remain_bytes m' + k = remain_bytes m"
proof -
  obtain ss where ss: "um_find k m = Some ss" using assms(3) by (auto simp: stat_sub_def split: option.splits)
  then have f: "ss_size ss = k" "ss_alloc ss = ss_dealloc ss + cnt k" "0 < cnt k" "um_ok m"
    using assms(1,2) by (auto simp: sizes_keyed_def stat_ok_def)
  let ?g = "\<lambda>ss. ss_size ss * (ss_alloc ss - ss_dealloc ss)" and ?f = "\<lambda>ss. ss\<lparr>ss_dealloc := ss_dealloc ss + 1\<rparr>"
  show ?thesis
  proof (cases "cnt k = 1")
    case True
    then show ?thesis using assms(3) ss f sum_erase [OF f(4) ss, of ?g] by (simp add: stat_sub_def remain_bytes_def)
  next
    case False
    obtain c where c: "cnt k = Suc (Suc c)" using f(3) False by (metis One_nat_def not0_implies_Suc not_gr_zero)
    have "?g ss = ?g (?f ss) + k" by (simp add: f(1,2) c)
    with sum_adjust [OF f(4) ss, of ?g ?f] show ?thesis
      using assms(3) ss f(2) c by (simp add: stat_sub_def remain_bytes_def)
  qed
qed

lemma sizes_keyed_add: "sizes_keyed m \<Longrightarrow> sizes_keyed (stat_add k \<lparr>ss_alloc = 1, ss_dealloc = 0, ss_size = k\<rparr> m)"
  by (auto simp: sizes_keyed_def stat_add_def um_has_def split: if_splits)

lemma sizes_keyed_sub: "sizes_keyed m \<Longrightarrow> stat_sub k m = Inr m' \<Longrightarrow> sizes_keyed m'"
  by (auto simp: sizes_keyed_def stat_sub_def split: option.splits if_splits)

lemma alloc_inv:
  assumes "mt_inv t"
  shows "mt_inv (on_alloc_locked mem sz cls t)"
proof (cases "um_has mem (mt_allocs t)")
  case False
  let ?a = "\<lparr>al_size = sz, al_crc = class_crc cls\<rparr>"
  have "stat_ok (live_count al_size (um_insert mem ?a (mt_allocs t))) (stat_add sz \<lparr>ss_alloc = 1, ss_dealloc = 0, ss_size = sz\<rparr> (mt_sizes t))"
    using assms stat_add_ok [of "live_count al_size (mt_allocs t)" "mt_sizes t"] live_count_insert [OF False, of al_size ?a]
    by (simp add: mt_inv_def)
  moreover have "stat_ok (live_count al_crc (um_insert mem ?a (mt_allocs t)))
      (stat_add (class_crc cls) \<lparr>ss_alloc = 1, ss_dealloc = 0, ss_size = sz, cs_cls = cls\<rparr> (mt_classes t))"
    using assms stat_add_ok [of "live_count al_crc (mt_allocs t)" "mt_classes t"] live_count_insert [OF False, of al_crc ?a]
    by (simp add: mt_inv_def)
  ultimately show ?thesis
    using assms False remain_add [of _ "mt_sizes t" sz] sizes_keyed_add [of "mt_sizes t" sz]
    by (auto simp: mt_inv_def on_alloc_locked_def Let_def)
qed (use assms in \<open>simp add: on_alloc_locked_def\<close>)

lemma dealloc_inv:
  assumes "mt_inv t"
  shows "\<exists>t'. on_dealloc_locked mem t = Inr t' \<and> mt_inv t'"
proof (cases "um_find mem (mt_allocs t)")
  case None
  then show ?thesis using assms by (simp add: on_dealloc_locked_def)
next
  case (Some a)
  have ok: "um_ok (mt_allocs t)" using assms by (simp add: mt_inv_def)
  obtain sizes where s: "stat_sub (al_size a) (mt_sizes t) = Inr sizes" "stat_ok (live_count al_size (um_erase mem (mt_allocs t))) sizes"
    using assms stat_sub_ok [of "live_count al_size (mt_allocs t)" "mt_sizes t" "al_size a"] live_count_erase [OF ok Some, of al_size]
    by (auto simp: mt_inv_def)
  obtain classes where c: "stat_sub (al_crc a) (mt_classes t) = Inr classes" "stat_ok (live_count al_crc (um_erase mem (mt_allocs t))) classes"
    using assms stat_sub_ok [of "live_count al_crc (mt_allocs t)" "mt_classes t" "al_crc a"] live_count_erase [OF ok Some, of al_crc]
    by (auto simp: mt_inv_def)
  have "remain_bytes sizes + al_size a = remain_bytes (mt_sizes t)" "sizes_keyed sizes"
    using assms remain_sub [OF _ _ s(1)] sizes_keyed_sub [OF _ s(1)] by (auto simp: mt_inv_def)
  then show ?thesis
    using assms Some s c ok by (simp add: mt_inv_def on_dealloc_locked_def)
qed

lemma mt_inv_frame:
  "mt_inv (t\<lparr>mt_ops := q\<rparr>) = mt_inv t" "mt_inv (t\<lparr>mt_locked := b\<rparr>) = mt_inv t" "mt_inv (t\<lparr>mt_enable := b\<rparr>) = mt_inv t"
  by (simp_all add: mt_inv_def)

lemma drain_inv: "mt_inv t \<Longrightarrow> \<exists>t'. drain_step t = Inr t' \<and> mt_inv t'"
proof (cases "cq_pop (mt_ops t)")
  case (Some oq)
  assume inv: "mt_inv t"
  obtain op q where oq: "oq = (op, q)" by (cases oq)
  show ?thesis
    using Some oq inv dealloc_inv [of "t\<lparr>mt_ops := q\<rparr>"] alloc_inv [of "t\<lparr>mt_ops := q\<rparr>"]
    by (cases op) (auto simp: drain_step_def mt_inv_frame)
qed (auto simp: drain_step_def mt_inv_frame)

lemma mt_reach_inv: "mt_reach t \<Longrightarrow> mt_inv t"
proof (induction rule: mt_reach.induct)
  case Start
  show ?case by (simp add: mt_inv_def mk_tracker_def stat_ok_def live_count_def sizes_keyed_def remain_bytes_def)
next
  case (Drain t t')
  then show ?case using drain_inv [of t] by auto
qed (auto simp: push_op_def try_lock_def mt_enable_it_def mt_disable_def mt_inv_frame)

section \<open>The report\<close>

text \<open>
  C40. However the calls of several threads interleave, the tables agree: the bytes the report calls current plus
  the bytes released are the bytes allocated, the table by size has an entry exactly for the sizes of live
  objects and counts them, and applying a queued operation never goes through an iterator to nothing.\<close>

theorem mem_report_consistent:
  assumes "mt_reach t"
  shows "remain_bytes (mt_sizes t) + mt_total_dealloc t = mt_total_alloc t \<and>
    (\<forall>z. case um_find z (mt_sizes t) of
            None \<Rightarrow> live_count al_size (mt_allocs t) z = 0
          | Some ss \<Rightarrow> ss_alloc ss - ss_dealloc ss = live_count al_size (mt_allocs t) z \<and> ss_dealloc ss < ss_alloc ss) \<and>
    (\<exists>t'. drain_step t = Inr t')"
  using mt_reach_inv [OF assms] drain_inv [OF mt_reach_inv [OF assms]]
  by (auto simp: mt_inv_def stat_ok_def split: option.splits)

definition mem_example :: tracker where
  "mem_example = on_alloc_locked 2 8 [] (on_alloc_locked 1 8 [] mk_tracker)\<lparr>mt_locked := True, mt_ops := [Dealloc_op 1]\<rparr>"

lemma on_alloc_locked_frame [simp]:
  "mt_locked (on_alloc_locked mem sz cls t) = mt_locked t" "mt_ops (on_alloc_locked mem sz cls t) = mt_ops t"
  "on_alloc_locked mem sz cls (t\<lparr>mt_ops := q\<rparr>) = (on_alloc_locked mem sz cls t)\<lparr>mt_ops := q\<rparr>"
  by (simp_all add: on_alloc_locked_def Let_def)

lemma drain_alloc:
  assumes "mt_reach t" "mt_locked t" "mt_ops t = Alloc_op mem sz cls # q"
  shows "mt_reach ((on_alloc_locked mem sz cls t)\<lparr>mt_ops := q\<rparr>)"
  using assms by (auto intro!: mt_reach.Drain [of t] simp: drain_step_def cq_pop_def)

lemma mem_example_reach: "mt_reach mem_example"
proof -
  let ?t = "snd (try_lock (push_op (Dealloc_op 1) (push_op (Alloc_op 2 8 []) (push_op (Alloc_op 1 8 []) mk_tracker))))"
  have t: "?t = mk_tracker\<lparr>mt_locked := True, mt_ops := [Alloc_op 1 8 [], Alloc_op 2 8 [], Dealloc_op 1]\<rparr>"
    by (simp add: try_lock_def push_op_def mk_tracker_def cq_push_def)
  have "mt_reach ?t" by (intro mt_reach.intros)
  from drain_alloc [OF this] have "mt_reach ((on_alloc_locked 1 8 [] ?t)\<lparr>mt_ops := [Alloc_op 2 8 [], Dealloc_op 1]\<rparr>)"
    unfolding t by simp
  from drain_alloc [OF this] show ?thesis
    unfolding t mem_example_def
    by (simp add: mk_tracker_def on_alloc_locked_def Let_def um_has_def um_insert_def stat_add_def um_adjust_def um_find_Cons)
qed

theorem mem_report_consistent_witness:
  "remain_bytes (mt_sizes mem_example) + mt_total_dealloc mem_example = mt_total_alloc mem_example \<and>
   live_count al_size (mt_allocs mem_example) 8 = 2 \<and> (\<exists>t'. drain_step mem_example = Inr t')"
proof -
  have "live_count al_size (mt_allocs mem_example) 8 = 2"
    by (simp add: mem_example_def mk_tracker_def on_alloc_locked_def live_count_def um_insert_def um_has_def Let_def um_find_Cons)
  then show ?thesis using mem_report_consistent [OF mem_example_reach] by simp
qed

end
