(* ===== verification/Idl_Program.thy ===== *)
theory Idl_Program
  imports Hash_Map
begin

text \<open>
  What the parser of the interface compiler builds (\<^verbatim>\<open>tool/bits/idl/parse\<close>): types, expressions, fields, nodes, a
  program per file, and the table of symbols all files share (\<^verbatim>\<open>idl_symbol_table.cpp\<close>). The lexer and the tables
  of the parser are generated; what is modelled is what the actions of the grammar do with a definition.
  A node is known by its address; the grammar gives every field a type.
\<close>

section \<open>Types\<close>

(* [tool/bits/idl/parse/idl_type_simple.h:9-27 idl_type_simple::types] *)
datatype idl_simple = TYPE_STRING | TYPE_USTRING | TYPE_BOOL | TYPE_I8 | TYPE_I16 | TYPE_I32 | TYPE_I64 |
  TYPE_U8 | TYPE_U16 | TYPE_U32 | TYPE_U64 | TYPE_FLOAT | TYPE_DOUBLE | TYPE_TIMESTAMP

(* [tool/bits/idl/parse/idl_type_opt.h:9-15 idl_type_opt::opt] *)
datatype idl_opt = Opt_invalid | Enable_cipher | Enable_checksum | Enable_sequence

text \<open>A scoped name is its namespaces and its identifier; a vector has a count, which only queries look at.\<close>

(* [tool/bits/idl/parse/idl_type.h:9-18 idl_type::type] *)
datatype idl_type =
    T_simple idl_simple
  | T_full "string list" string
  | T_vec idl_type int
  | T_map idl_type idl_type
  | T_topic string
  | T_macro string
  | T_option idl_opt

(* [tool/bits/idl/parse/idl_type_simple.h:53-87 idl_type_simple::type_name] *)
fun type_name :: "idl_simple \<Rightarrow> string" where
  "type_name TYPE_STRING = ''string''"
| "type_name TYPE_USTRING = ''ustring''"
| "type_name TYPE_BOOL = ''bool''"
| "type_name TYPE_I8 = ''i8''"
| "type_name TYPE_I16 = ''i16''"
| "type_name TYPE_I32 = ''i32''"
| "type_name TYPE_I64 = ''i64''"
| "type_name TYPE_U8 = ''u8''"
| "type_name TYPE_U16 = ''u16''"
| "type_name TYPE_U32 = ''u32''"
| "type_name TYPE_U64 = ''u64''"
| "type_name TYPE_FLOAT = ''float''"
| "type_name TYPE_DOUBLE = ''double''"
| "type_name TYPE_TIMESTAMP = ''timestamp''"

(* [tool/bits/idl/parse/idl_type_simple.h:107-142 idl_type_simple::get_typename_in_csharp] *)
fun typename_in_csharp :: "idl_simple \<Rightarrow> string" where
  "typename_in_csharp TYPE_STRING = ''string''"
| "typename_in_csharp TYPE_USTRING = ''string''"
| "typename_in_csharp TYPE_BOOL = ''bool''"
| "typename_in_csharp TYPE_I8 = ''sbyte''"
| "typename_in_csharp TYPE_I16 = ''short''"
| "typename_in_csharp TYPE_I32 = ''int''"
| "typename_in_csharp TYPE_I64 = ''long''"
| "typename_in_csharp TYPE_U8 = ''byte''"
| "typename_in_csharp TYPE_U16 = ''ushort''"
| "typename_in_csharp TYPE_U32 = ''uint''"
| "typename_in_csharp TYPE_U64 = ''ulong''"
| "typename_in_csharp TYPE_FLOAT = ''float''"
| "typename_in_csharp TYPE_DOUBLE = ''double''"
| "typename_in_csharp TYPE_TIMESTAMP = ''wise.timestamp''"

(* [tool/bits/idl/parse/idl_type_simple.h:144-179 idl_type_simple::get_typename_in_cplus] *)
fun typename_in_cplus :: "idl_simple \<Rightarrow> string" where
  "typename_in_cplus TYPE_STRING = ''std::string''"
| "typename_in_cplus TYPE_USTRING = ''std::wstring''"
| "typename_in_cplus TYPE_BOOL = ''bool''"
| "typename_in_cplus TYPE_I8 = ''int8_t''"
| "typename_in_cplus TYPE_I16 = ''int16_t''"
| "typename_in_cplus TYPE_I32 = ''int32_t''"
| "typename_in_cplus TYPE_I64 = ''int64_t''"
| "typename_in_cplus TYPE_U8 = ''uint8_t''"
| "typename_in_cplus TYPE_U16 = ''uint16_t''"
| "typename_in_cplus TYPE_U32 = ''uint32_t''"
| "typename_in_cplus TYPE_U64 = ''uint64_t''"
| "typename_in_cplus TYPE_FLOAT = ''float''"
| "typename_in_cplus TYPE_DOUBLE = ''double''"
| "typename_in_cplus TYPE_TIMESTAMP = ''wise::kernel::timestamp''"

(* [tool/bits/idl/parse/idl_type_simple.h:182-217 idl_type_simple::get_typename_in_sql] *)
fun typename_in_sql :: "idl_simple \<Rightarrow> string" where
  "typename_in_sql TYPE_STRING = ''VARCHAR''"
| "typename_in_sql TYPE_USTRING = ''NVARCHAR''"
| "typename_in_sql TYPE_BOOL = ''BIT''"
| "typename_in_sql TYPE_I8 = ''TINYINT''"
| "typename_in_sql TYPE_I16 = ''SMALLINT''"
| "typename_in_sql TYPE_I32 = ''INT''"
| "typename_in_sql TYPE_I64 = ''BIGINT''"
| "typename_in_sql TYPE_U8 = ''TINYINT''"
| "typename_in_sql TYPE_U16 = ''SMALLINT''"
| "typename_in_sql TYPE_U32 = ''INT''"
| "typename_in_sql TYPE_U64 = ''BIGINT''"
| "typename_in_sql TYPE_FLOAT = ''FLOAT''"
| "typename_in_sql TYPE_DOUBLE = ''DOUBLE''"
| "typename_in_sql TYPE_TIMESTAMP = ''TIMESTAMP''"

(* [tool/bits/idl/parse/idl_type_simple.h:89-105 idl_type_simple::get_typename_in] *)
definition simple_typename_in :: "string \<Rightarrow> idl_simple \<Rightarrow> string" where
  "simple_typename_in lang t =
     (if lang = ''c#'' then typename_in_csharp t
      else if lang = ''c++'' then typename_in_cplus t
      else if lang = ''sql'' then typename_in_sql t
      else type_name t)"

(* [tool/bits/idl/parse/idl_type_full.h:35-52 idl_type_full::get_namespace_string] *)
definition namespace_string :: "string \<Rightarrow> string list \<Rightarrow> string" where
  "namespace_string lang ns = concat (map (\<lambda>n. if lang = ''c#'' then n @ ''.'' else n @ ''::'') ns)"

(* [tool/bits/idl/parse/idl_type_full.h:54-57 idl_type_full::get_typename_in] *)
definition full_typename_in :: "string \<Rightarrow> string list \<Rightarrow> string \<Rightarrow> string" where
  "full_typename_in lang ns ident = namespace_string lang ns @ ident"

text \<open>The name a type has in the compiler, which the setters of the type classes build.\<close>

(* [tool/bits/idl/parse/idl_type_vec.h:26-39 idl_type_vec::set_value_type] *)
fun idl_name :: "idl_type \<Rightarrow> string" where
  "idl_name (T_simple t) = type_name t"
| "idl_name (T_full ns ident) = namespace_string ''c++'' ns @ ident"
| "idl_name (T_vec t n) = ''vec<'' @ idl_name t @ ''>''"
| "idl_name (T_map k v) = ''map<'' @ idl_name k @ '', '' @ idl_name v @ ''>''"
| "idl_name (T_topic t) = ''topic: '' @ t"
| "idl_name (T_macro l) = ''macro: '' @ l"
| "idl_name (T_option p) = ''unknown''"

(* [tool/bits/idl/parse/idl_type_vec.h:46-49 idl_type_vec::set_count] *)
definition vec_of :: "idl_type \<Rightarrow> int option \<Rightarrow> idl_type" where
  "vec_of t n = T_vec t (case n of None \<Rightarrow> 1 | Some c \<Rightarrow> max 1 c)"

section \<open>Expressions and fields\<close>

(* [tool/bits/idl/parse/idl_expression_value.h:13-19 idl_expression_value::Type] *)
datatype idl_value = V_none | V_full "string list" string | V_simple string | V_const int

(* [tool/bits/idl/parse/idl_expression.h:13-18 idl_expression::Op] *)
datatype idl_op = Op_none | Op_plus | Op_minus

(* [tool/bits/idl/parse/idl_expression.h:82-85 idl_expression] *)
datatype idl_expr = Expr (ex_op: idl_op) (ex_value: idl_value) (ex_exprs: "idl_expr list")

(* [tool/bits/idl/parse/idl_expression.h:77-80 idl_expression::set_op_link] *)
definition set_op_link :: "idl_op \<Rightarrow> idl_expr \<Rightarrow> idl_expr" where
  "set_op_link op e = Expr op (ex_value e) (ex_exprs e)"

(* [tool/bits/idl/parse/idl_expression.h:35-42 idl_expression::add_plus] *)
definition add_plus :: "idl_expr \<Rightarrow> idl_expr \<Rightarrow> idl_expr" where
  "add_plus nxt e = Expr (ex_op e) (ex_value e) (ex_exprs e @ [set_op_link Op_plus nxt])"

(* [tool/bits/idl/parse/idl_expression.h:44-51 idl_expression::add_minus] *)
definition add_minus :: "idl_expr \<Rightarrow> idl_expr \<Rightarrow> idl_expr" where
  "add_minus nxt e = Expr (ex_op e) (ex_value e) (ex_exprs e @ [set_op_link Op_minus nxt])"

(* [tool/bits/idl/parse/idl_field_value.h:8-43 idl_field_value] *)
record idl_field_value =
  fv_default :: "idl_expr option"
  fv_output :: bool

(* [tool/bits/idl/parse/idl_field.h:12-82 idl_field] *)
record idl_field =
  fd_type :: idl_type
  fd_name :: string
  fd_value :: "idl_field_value option"

section \<open>Nodes\<close>

(* [tool/bits/idl/parse/tx/tx_bind.h:6-47 tx_bind] *)
record tx_bind =
  tb_fields :: "idl_field list"
  tb_return :: string

(* [tool/bits/idl/parse/tx/tx_result_set.h:6-52 tx_result_set] *)
record tx_result_set =
  rs_single :: bool
  rs_fields :: "idl_field list"

(* [tool/bits/idl/parse/idl_node_tx.h:87-90 idl_node_tx] *)
record idl_tx =
  tx_topic_id :: "string option"
  tx_bind_of :: "tx_bind option"
  tx_result :: "tx_result_set list option"
  tx_query :: "string option"

(* [tool/bits/idl/parse/idl_node.h:11-20 idl_node::Type] *)
datatype idl_node =
    N_enum string "(string \<times> idl_expr option) list"
  | N_struct string "idl_field list"
  | N_message string "(string list \<times> string) option" "idl_field list"
  | N_include "string list"
  | N_namespace "string list"
  | N_tx string idl_tx

(* [tool/bits/idl/parse/idl_node_include.h:35-47 idl_node_include::get_path_string] *)
fun path_string :: "string list \<Rightarrow> string" where
  "path_string [] = []"
| "path_string [p] = p"
| "path_string (p # ps) = p @ ''/'' @ path_string ps"

(* [tool/bits/idl/parse/idl_node_namespace.h:21-33 idl_node_namespace::add_namespace] *)
fun node_name :: "idl_node \<Rightarrow> string" where
  "node_name (N_enum n vs) = n"
| "node_name (N_struct n fs) = n"
| "node_name (N_message n sc fs) = n"
| "node_name (N_include ps) = path_string ps"
| "node_name (N_namespace ns) = concat (map (\<lambda>n. n @ ''::'') ns)"
| "node_name (N_tx n t) = n"

(* [tool/bits/idl/parse/idl_node_message.cpp:20-40 idl_node_message::is_set] *)
definition is_set :: "idl_opt \<Rightarrow> idl_field list \<Rightarrow> bool" where
  "is_set p flds = (\<exists>f \<in> set flds. fd_type f = T_option p)"

(* [tool/bits/idl/parse/idl_node_message.h:29-40 idl_node_message::has_hx] *)
definition node_has_hx :: "(string list \<times> string) option \<Rightarrow> bool" where
  "node_has_hx sc = (case sc of None \<Rightarrow> False | Some (ns, ident) \<Rightarrow> idl_name (T_full ns ident) = ''hx'')"

section \<open>Programs\<close>

type_synonym node_addr = nat

(* [tool/bits/idl/parse/idl_program.h:117-123 idl_program] *)
record idl_program =
  pr_path :: string
  pr_nodes :: "(node_addr \<times> idl_node) list"
  pr_has_message :: bool
  pr_has_struct :: bool
  pr_has_tx :: bool
  pr_has_hx :: bool

(* [tool/bits/idl/parse/idl_program.h:15-17 idl_program::idl_program] *)
definition mk_program :: "string \<Rightarrow> idl_program" where
  "mk_program path = \<lparr>pr_path = path, pr_nodes = [], pr_has_message = False, pr_has_struct = False, pr_has_tx = False, pr_has_hx = False\<rparr>"

(* [tool/bits/idl/parse/idl_program.h:94-115 idl_program::check_node_type] *)
fun check_node_type :: "idl_node \<Rightarrow> idl_program \<Rightarrow> idl_program" where
  "check_node_type (N_message n sc fs) p = p\<lparr>pr_has_message := True, pr_has_hx := pr_has_hx p \<or> node_has_hx sc\<rparr>"
| "check_node_type (N_struct n fs) p = p\<lparr>pr_has_struct := True\<rparr>"
| "check_node_type (N_tx n t) p = p\<lparr>pr_has_tx := True\<rparr>"
| "check_node_type _ p = p"

(* [tool/bits/idl/parse/idl_program.h:29-36 idl_program::add_node] *)
definition add_node :: "node_addr \<times> idl_node \<Rightarrow> idl_program \<Rightarrow> idl_program" where
  "add_node an p = check_node_type (snd an) (p\<lparr>pr_nodes := pr_nodes p @ [an]\<rparr>)"

fun first_namespace :: "idl_node list \<Rightarrow> string list option" where
  "first_namespace [] = None"
| "first_namespace (N_namespace ns # nodes) = Some ns"
| "first_namespace (_ # nodes) = first_namespace nodes"

(* [tool/bits/idl/parse/idl_program.h:48-59 idl_program::get_namespace] *)
definition program_namespace :: "idl_program \<Rightarrow> string list option" where
  "program_namespace p = first_namespace (map snd (pr_nodes p))"

(* [tool/bits/idl/parse/idl_program.h:61-71 idl_program::get_fullname] *)
definition get_fullname :: "string \<Rightarrow> idl_program \<Rightarrow> string" where
  "get_fullname name p = (case program_namespace p of Some ns \<Rightarrow> node_name (N_namespace ns) @ name | None \<Rightarrow> name)"

section \<open>The symbol table\<close>

(* [tool/bits/idl/idl_symbol_table.hpp:10-17 idl_symbol::type] *)
datatype sym_type = Sym_none | Sym_enum | Sym_struct | Sym_message | Sym_tx

(* [tool/bits/idl/idl_symbol_table.hpp:19-22 idl_symbol] *)
record idl_symbol =
  sym_type :: sym_type
  sym_full_name :: string
  sym_simple_name :: string
  sym_node :: node_addr

type_synonym symbol_table = "(string, idl_symbol) umap"

(* [tool/bits/idl/idl_symbol_table.cpp:6-20 idl_symbol_table::add] *)
definition symbol_add :: "idl_symbol \<Rightarrow> symbol_table \<Rightarrow> bool \<times> symbol_table" where
  "symbol_add sy tab =
     (if um_has (sym_full_name sy) tab then (False, tab) else (True, um_insert (sym_full_name sy) sy tab))"

(* [tool/bits/idl/idl_symbol_table.cpp:22-33 idl_symbol_table::lookup] *)
definition symbol_lookup :: "string \<Rightarrow> symbol_table \<Rightarrow> idl_symbol option" where
  "symbol_lookup full tab = um_find full tab"

(* [tool/bits/idl/idl_symbol_table.cpp:35-48 idl_symbol_table::lookup] *)
definition symbol_lookup_in :: "string \<Rightarrow> string \<Rightarrow> symbol_table \<Rightarrow> idl_symbol option" where
  "symbol_lookup_in ns simple tab = um_find (ns @ ''::'' @ simple) tab"

text \<open>The actions of the grammar for a definition: it is entered in the table first and added to the program then.\<close>

definition node_symbol :: "idl_node \<Rightarrow> sym_type option" where
  "node_symbol n = (case n of N_enum _ _ \<Rightarrow> Some Sym_enum | N_struct _ _ \<Rightarrow> Some Sym_struct | N_message _ _ _ \<Rightarrow> Some Sym_message | _ \<Rightarrow> None)"

(* [tool/bits/idl/idl_parser.yy:266-282 Enum] *)
definition declare_node :: "node_addr \<times> idl_node \<Rightarrow> idl_program \<Rightarrow> symbol_table \<Rightarrow> symbol_table" where
  "declare_node an p tab =
     (case node_symbol (snd an) of
        None \<Rightarrow> tab
      | Some st \<Rightarrow> snd (symbol_add \<lparr>sym_type = st, sym_full_name = get_fullname (node_name (snd an)) p,
                                     sym_simple_name = node_name (snd an), sym_node = fst an\<rparr> tab))"

(* [tool/bits/idl/idl_parser.yy:240-264 TypeDefinition] *)
fun parse_nodes :: "(node_addr \<times> idl_node) list \<Rightarrow> idl_program \<times> symbol_table \<Rightarrow> idl_program \<times> symbol_table" where
  "parse_nodes [] pt = pt"
| "parse_nodes (an # ans) (p, tab) = parse_nodes ans (add_node an p, declare_node an p tab)"

section \<open>Facts\<close>

lemma check_node_type_nodes [simp]: "pr_nodes (check_node_type n p) = pr_nodes p" "pr_path (check_node_type n p) = pr_path p"
  by (cases n; simp)+

lemma add_node_simps [simp]: "pr_nodes (add_node an p) = pr_nodes p @ [an]" "pr_path (add_node an p) = pr_path p"
  by (simp_all add: add_node_def)

definition is_message :: "idl_node \<Rightarrow> bool" where
  "is_message n = (case n of N_message _ _ _ \<Rightarrow> True | _ \<Rightarrow> False)"

definition is_struct :: "idl_node \<Rightarrow> bool" where
  "is_struct n = (case n of N_struct _ _ \<Rightarrow> True | _ \<Rightarrow> False)"

definition is_tx :: "idl_node \<Rightarrow> bool" where
  "is_tx n = (case n of N_tx _ _ \<Rightarrow> True | _ \<Rightarrow> False)"

text \<open>The flags of a program say which kinds of nodes it has.\<close>

definition flags_ok :: "idl_program \<Rightarrow> bool" where
  "flags_ok p \<longleftrightarrow> pr_has_message p = list_ex is_message (map snd (pr_nodes p)) \<and>
     pr_has_struct p = list_ex is_struct (map snd (pr_nodes p)) \<and> pr_has_tx p = list_ex is_tx (map snd (pr_nodes p))"

lemma mk_program_flags: "flags_ok (mk_program path)"
  by (simp add: flags_ok_def mk_program_def)

lemma add_node_flags: "flags_ok p \<Longrightarrow> flags_ok (add_node an p)"
  by (cases "snd an") (auto simp: flags_ok_def add_node_def is_message_def is_struct_def is_tx_def)

lemma parse_nodes_program:
  "pr_nodes (fst (parse_nodes ans (p, tab))) = pr_nodes p @ ans \<and> pr_path (fst (parse_nodes ans (p, tab))) = pr_path p \<and>
   (flags_ok p \<longrightarrow> flags_ok (fst (parse_nodes ans (p, tab))))"
  by (induction ans arbitrary: p tab) (auto simp: add_node_flags)

text \<open>The first definition of a name stays.\<close>

lemma symbol_add_lookup:
  "symbol_lookup x (snd (symbol_add sy tab)) =
     (case symbol_lookup x tab of Some old \<Rightarrow> Some old | None \<Rightarrow> if x = sym_full_name sy then Some sy else None)"
  by (auto simp: symbol_lookup_def symbol_add_def um_has_def split: option.splits)

lemma declare_node_keeps: "symbol_lookup x tab = Some old \<Longrightarrow> symbol_lookup x (declare_node an p tab) = Some old"
  by (auto simp: declare_node_def symbol_add_lookup split: option.splits)

lemma parse_nodes_keeps: "symbol_lookup x tab = Some old \<Longrightarrow> symbol_lookup x (snd (parse_nodes ans (p, tab))) = Some old"
  by (induction ans arbitrary: p tab) (auto simp: declare_node_keeps)

end
