(* ===== verification/Idl_Context.thy ===== *)
theory Idl_Context
  imports Idl_Program
begin

text \<open>
  The parsing phase of the interface compiler (\<^verbatim>\<open>tool/bits/idl/idl_context.cpp\<close>, \<^verbatim>\<open>idl_main.cpp\<close>): a stack of files to
  parse, a table of the files met, and a stack of the programs parsed. The generated parser is an argument \<open>yy\<close>:
  nothing for a file that does not open, otherwise whether it accepts and the definitions whose actions ran.
\<close>

section \<open>State\<close>

type_synonym yy = "string \<Rightarrow> (bool \<times> (node_addr \<times> idl_node) list) option"

(* [tool/bits/idl/idl_context.h:43-55 idl_context::file_state] *)
record file_state =
  fs_path :: string
  fs_processed :: bool

(* [tool/bits/idl/idl_context.h:14-22 idl_context::config] *)
record idl_config =
  cf_continue :: bool
  cf_cplus :: bool
  cf_csharp :: bool
  cf_main_file :: string

(* [tool/bits/idl/idl_context.h:70-76 idl_context] *)
record idl_context =
  cx_started :: bool
  cx_config :: idl_config
  cx_pstack :: "idl_program list"
  cx_fstack :: "file_state list"
  cx_states :: "(string, file_state) umap"
  cx_symbols :: symbol_table

section \<open>Operations\<close>

(* [tool/bits/idl/idl_context.cpp:46-51 idl_context::push_program] *)
definition push_program :: "idl_program \<Rightarrow> idl_context \<Rightarrow> idl_context" where
  "push_program p cx = cx\<lparr>cx_pstack := p # cx_pstack cx\<rparr>"

(* [tool/bits/idl/idl_context.cpp:53-68 idl_context::push_file] *)
definition push_file :: "string \<Rightarrow> idl_context \<Rightarrow> idl_context" where
  "push_file path cx =
     (if um_has path (cx_states cx) then cx
      else let f = \<lparr>fs_path = path, fs_processed = False\<rparr>
           in cx\<lparr>cx_states := um_insert path f (cx_states cx), cx_fstack := f # cx_fstack cx\<rparr>)"

fun push_includes :: "idl_node list \<Rightarrow> idl_context \<Rightarrow> idl_context" where
  "push_includes [] cx = cx"
| "push_includes (N_include ps # nodes) cx = push_includes nodes (push_file (path_string ps) cx)"
| "push_includes (_ # nodes) cx = push_includes nodes cx"

(* [tool/bits/idl/idl_main.cpp:53-93 parse_file] *)
definition parse_file :: "yy \<Rightarrow> string \<Rightarrow> idl_context \<Rightarrow> bool \<times> idl_context" where
  "parse_file yy path cx =
     (case yy path of
        None \<Rightarrow> (False, cx)
      | Some (ok, defs) \<Rightarrow>
          let (prog, tab) = parse_nodes defs (mk_program path, cx_symbols cx);
              cx1 = push_program prog (cx\<lparr>cx_symbols := tab\<rparr>)
          in if ok then (True, push_includes (map snd (pr_nodes prog)) cx1) else (False, cx1))"

text \<open>The loop over the stack of files; \<open>None\<close> when it never ends.\<close>

(* [tool/bits/idl/idl_context.cpp:70-102 idl_context::parse] *)
partial_function (option) parse_loop :: "yy \<Rightarrow> idl_context \<Rightarrow> (bool \<times> idl_context) option" where
  "parse_loop yy cx =
     (case cx_fstack cx of
        [] \<Rightarrow> Some (True, cx)
      | f # fs \<Rightarrow>
          let cx1 = cx\<lparr>cx_fstack := fs\<rparr>;
              found = um_find (fs_path f) (cx_states cx1)
          in if found = None \<or> \<not> fs_processed (the found) then
               let (ok, cx2) = parse_file yy (fs_path f) cx1
               in if \<not> ok then Some (False, cx2)
                  else parse_loop yy (cx2\<lparr>cx_states := um_set (fs_path f) (f\<lparr>fs_processed := True\<rparr>) (cx_states cx2)\<rparr>)
             else parse_loop yy cx1)"

section \<open>Which files are parsed\<close>

definition include_paths :: "idl_node list \<Rightarrow> string list" where
  "include_paths nodes = concat (map (\<lambda>n. case n of N_include ps \<Rightarrow> [path_string ps] | _ \<Rightarrow> []) nodes)"

definition includes_of :: "yy \<Rightarrow> string \<Rightarrow> string set" where
  "includes_of yy path = (case yy path of Some (_, defs) \<Rightarrow> set (include_paths (map snd defs)) | None \<Rightarrow> {})"

inductive_set reached :: "yy \<Rightarrow> string \<Rightarrow> string set" for yy :: yy and main :: string where
  Main: "main \<in> reached yy main"
| Include: "a \<in> reached yy main \<Longrightarrow> b \<in> includes_of yy a \<Longrightarrow> b \<in> reached yy main"

definition parsed :: "idl_context \<Rightarrow> string list" where
  "parsed cx = map pr_path (cx_pstack cx)"

definition waiting :: "idl_context \<Rightarrow> string set" where
  "waiting cx = fs_path ` set (cx_fstack cx)"

text \<open>The files met are parsed or wait, and nothing a parsed file includes is forgotten.\<close>

definition cx_inv :: "yy \<Rightarrow> string \<Rightarrow> idl_context \<Rightarrow> bool" where
  "cx_inv yy main cx \<longleftrightarrow> distinct (parsed cx) \<and>
     (\<forall>a. a \<in> set (parsed cx) \<longleftrightarrow> (\<exists>f. um_find a (cx_states cx) = Some f \<and> fs_processed f)) \<and>
     (\<forall>a. um_find a (cx_states cx) \<noteq> None \<longrightarrow> a \<in> set (parsed cx) \<union> waiting cx) \<and>
     set (parsed cx) \<union> waiting cx \<subseteq> reached yy main \<and> main \<in> set (parsed cx) \<union> waiting cx \<and>
     (\<forall>a \<in> set (parsed cx). includes_of yy a \<subseteq> set (parsed cx) \<union> waiting cx)"

lemma cx_invD:
  assumes "cx_inv yy main cx"
  shows "distinct (parsed cx)" "\<And>a. a \<in> set (parsed cx) \<longleftrightarrow> (\<exists>f. um_find a (cx_states cx) = Some f \<and> fs_processed f)"
    "\<And>a. um_find a (cx_states cx) \<noteq> None \<Longrightarrow> a \<in> set (parsed cx) \<union> waiting cx"
    "set (parsed cx) \<union> waiting cx \<subseteq> reached yy main" "main \<in> set (parsed cx) \<union> waiting cx"
    "\<And>a. a \<in> set (parsed cx) \<Longrightarrow> includes_of yy a \<subseteq> set (parsed cx) \<union> waiting cx"
  using assms unfolding cx_inv_def by blast+

lemma push_file_simps [simp]:
  "cx_pstack (push_file p cx) = cx_pstack cx" "cx_symbols (push_file p cx) = cx_symbols cx"
  "waiting (push_file p cx) = (if um_has p (cx_states cx) then waiting cx else insert p (waiting cx))"
  "um_find a (cx_states (push_file p cx)) =
     (if a = p \<and> um_find p (cx_states cx) = None then Some \<lparr>fs_path = p, fs_processed = False\<rparr> else um_find a (cx_states cx))"
  by (auto simp: push_file_def Let_def waiting_def um_has_def)

lemma include_paths_Cons: "include_paths (n # ns) = (case n of N_include ps \<Rightarrow> [path_string ps] | _ \<Rightarrow> []) @ include_paths ns"
  by (simp add: include_paths_def)

lemma push_includes_facts:
  "cx_pstack (push_includes ns cx) = cx_pstack cx \<and> waiting cx \<subseteq> waiting (push_includes ns cx) \<and>
   waiting (push_includes ns cx) \<subseteq> waiting cx \<union> set (include_paths ns) \<and>
   (\<forall>a \<in> set (include_paths ns). um_find a (cx_states cx) = None \<longrightarrow> a \<in> waiting (push_includes ns cx)) \<and>
   (\<forall>a. um_find a (cx_states cx) \<noteq> None \<longrightarrow> um_find a (cx_states (push_includes ns cx)) = um_find a (cx_states cx)) \<and>
   (\<forall>a f. um_find a (cx_states cx) = None \<longrightarrow> um_find a (cx_states (push_includes ns cx)) = Some f \<longrightarrow>
      \<not> fs_processed f \<and> a \<in> waiting (push_includes ns cx))"
proof (induction ns cx rule: push_includes.induct)
  case (1 cx)
  then show ?case by (simp add: include_paths_def)
next
  case (2 ps nodes cx)
  let ?p = "path_string ps" and ?cx = "push_includes nodes (push_file (path_string ps) cx)"
  have fresh: "\<not> fs_processed f \<and> a \<in> waiting ?cx"
    if "um_find a (cx_states cx) = None" "um_find a (cx_states ?cx) = Some f" for a f
  proof (cases "a = ?p")
    case True
    have "um_find ?p (cx_states ?cx) = Some \<lparr>fs_path = ?p, fs_processed = False\<rparr>" "?p \<in> waiting ?cx"
      using 2 True that(1) by (auto simp: um_has_def)
    then show ?thesis using True that(2) by auto
  next
    case False
    have "um_find a (cx_states (push_file ?p cx)) = None" using that(1) False by simp
    then show ?thesis using 2 that(2) by blast
  qed
  show ?case
    using 2 fresh by (cases "um_find ?p (cx_states cx)") (auto simp: include_paths_Cons um_has_def split: if_splits)
qed (auto simp: include_paths_Cons)

text \<open>Parsing one file that opens and is accepted.\<close>

lemma parse_file_ok:
  assumes "yy path = Some (True, defs)"
  obtains cx1 where "parse_file yy path cx = (True, push_includes (map snd defs) cx1)" "parsed cx1 = path # parsed cx"
    "cx_fstack cx1 = cx_fstack cx" "cx_states cx1 = cx_states cx"
proof -
  obtain prog tab where p: "parse_nodes defs (mk_program path, cx_symbols cx) = (prog, tab)" by (meson surj_pair)
  then have "pr_nodes prog = defs" "pr_path prog = path"
    using parse_nodes_program [of defs "mk_program path" "cx_symbols cx"] by (simp_all add: mk_program_def)
  then show thesis
    using that [of "push_program prog (cx\<lparr>cx_symbols := tab\<rparr>)"] p assms
    by (simp add: parse_file_def push_program_def parsed_def)
qed

lemma parse_file_step:
  assumes "cx_fstack cx = f # fs" "yy (fs_path f) = Some (True, defs)"
  obtains cx2 where "parse_file yy (fs_path f) (cx\<lparr>cx_fstack := fs\<rparr>) = (True, cx2)" "parsed cx2 = fs_path f # parsed cx"
    "waiting cx \<subseteq> insert (fs_path f) (waiting cx2)" "waiting cx2 \<subseteq> waiting cx \<union> includes_of yy (fs_path f)"
    "\<And>a. a \<in> includes_of yy (fs_path f) \<Longrightarrow> um_find a (cx_states cx) = None \<Longrightarrow> a \<in> waiting cx2"
    "\<And>a. um_find a (cx_states cx) \<noteq> None \<Longrightarrow> um_find a (cx_states cx2) = um_find a (cx_states cx)"
    "\<And>a g. um_find a (cx_states cx) = None \<Longrightarrow> um_find a (cx_states cx2) = Some g \<Longrightarrow> \<not> fs_processed g \<and> a \<in> waiting cx2"
proof -
  let ?p = "fs_path f"
  obtain cx1 where 1: "parse_file yy ?p (cx\<lparr>cx_fstack := fs\<rparr>) = (True, push_includes (map snd defs) cx1)"
    "parsed cx1 = ?p # parsed (cx\<lparr>cx_fstack := fs\<rparr>)" "cx_fstack cx1 = fs" "cx_states cx1 = cx_states cx"
    by (rule parse_file_ok [of yy ?p defs "cx\<lparr>cx_fstack := fs\<rparr>"]) (use assms(2) in auto)
  note pi = push_includes_facts [of "map snd defs" cx1, unfolded 1(4)]
  have inc: "includes_of yy ?p = set (include_paths (map snd defs))" using assms(2) by (simp add: includes_of_def)
  have w: "waiting cx = insert ?p (waiting cx1)" using assms(1) 1(3) by (simp add: waiting_def)
  have w1: "waiting cx1 \<subseteq> waiting (push_includes (map snd defs) cx1)"
    "waiting (push_includes (map snd defs) cx1) \<subseteq> waiting cx1 \<union> includes_of yy ?p" using pi inc by blast+
  show thesis
  proof (rule that [OF 1(1)])
    show "parsed (push_includes (map snd defs) cx1) = ?p # parsed cx" using pi 1(2) by (simp add: parsed_def)
    show "waiting cx \<subseteq> insert ?p (waiting (push_includes (map snd defs) cx1))" using w w1 by blast
    show "waiting (push_includes (map snd defs) cx1) \<subseteq> waiting cx \<union> includes_of yy ?p" using w w1 by blast
  qed (use pi inc in blast)+
qed

lemma cx_inv_parse:
  assumes inv: "cx_inv yy main cx" and fs: "cx_fstack cx = f # fs" and yy: "yy (fs_path f) = Some (True, defs)"
    and new: "fs_path f \<notin> set (parsed cx)"
  shows "\<exists>cx2. parse_file yy (fs_path f) (cx\<lparr>cx_fstack := fs\<rparr>) = (True, cx2) \<and> parsed cx2 = fs_path f # parsed cx \<and>
    cx_inv yy main (cx2\<lparr>cx_states := um_set (fs_path f) (f\<lparr>fs_processed := True\<rparr>) (cx_states cx2)\<rparr>)"
proof -
  let ?p = "fs_path f"
  obtain cx2 where 2: "parse_file yy ?p (cx\<lparr>cx_fstack := fs\<rparr>) = (True, cx2)" "parsed cx2 = ?p # parsed cx"
    "waiting cx \<subseteq> insert ?p (waiting cx2)" "waiting cx2 \<subseteq> waiting cx \<union> includes_of yy ?p"
    "\<And>a. a \<in> includes_of yy ?p \<Longrightarrow> um_find a (cx_states cx) = None \<Longrightarrow> a \<in> waiting cx2"
    "\<And>a. um_find a (cx_states cx) \<noteq> None \<Longrightarrow> um_find a (cx_states cx2) = um_find a (cx_states cx)"
    "\<And>a g. um_find a (cx_states cx) = None \<Longrightarrow> um_find a (cx_states cx2) = Some g \<Longrightarrow> \<not> fs_processed g \<and> a \<in> waiting cx2"
    by (rule parse_file_step [OF fs, of yy defs, OF yy]) blast
  let ?c3 = "cx2\<lparr>cx_states := um_set ?p (f\<lparr>fs_processed := True\<rparr>) (cx_states cx2)\<rparr>"
  let ?all = "\<lambda>c. set (parsed c) \<union> waiting c"
  have c3: "parsed ?c3 = parsed cx2" "waiting ?c3 = waiting cx2" by (simp_all add: parsed_def waiting_def)
  have all: "?all cx \<subseteq> ?all cx2" using 2(2,3) by auto
  note pr = cx_invD(2) [OF inv]
  note known = cx_invD(3) [OF inv]
  have r: "?all cx \<subseteq> reached yy main" "?p \<in> waiting cx" using cx_invD(4) [OF inv] fs by (auto simp: waiting_def)
  then have "includes_of yy ?p \<subseteq> reached yy main" using reached.Include by blast
  then have "?all cx2 \<subseteq> reached yy main" using r 2(2,4) by auto
  moreover have "a \<in> set (parsed cx2) \<longleftrightarrow> (\<exists>g. um_find a (cx_states ?c3) = Some g \<and> fs_processed g)" for a
    using pr [of a] 2(2) 2(6) [of a] 2(7) [of a] by (cases "um_find a (cx_states cx)") auto
  moreover have "a \<in> ?all cx2" if "um_find a (cx_states ?c3) \<noteq> None" for a
    using known [of a] that all 2(2) 2(7) [of a] by (cases "um_find a (cx_states cx)") (auto split: if_splits)
  moreover have "includes_of yy ?p \<subseteq> ?all cx2" using 2(5) known all by blast
  then have "includes_of yy a \<subseteq> ?all cx2" if "a \<in> set (parsed cx2)" for a
    using that 2(2) cx_invD(6) [OF inv, of a] all by (cases "a = ?p") auto
  moreover have "main \<in> ?all cx2" "distinct (parsed cx2)" using cx_invD(1,5) [OF inv] all new 2(2) by auto
  ultimately have "cx_inv yy main ?c3" unfolding cx_inv_def c3 by blast
  then show ?thesis using 2(1,2) by auto
qed

lemma cx_inv_skip:
  assumes "cx_inv yy main cx" "cx_fstack cx = f # fs" "fs_path f \<in> set (parsed cx)"
  shows "cx_inv yy main (cx\<lparr>cx_fstack := fs\<rparr>)"
proof -
  let ?c = "cx\<lparr>cx_fstack := fs\<rparr>"
  have p: "parsed ?c = parsed cx" by (simp add: parsed_def)
  have "waiting cx = insert (fs_path f) (waiting ?c)" using assms(2) by (simp add: waiting_def)
  then have all: "set (parsed cx) \<union> waiting ?c = set (parsed cx) \<union> waiting cx" using assms(3) by auto
  have st: "cx_states ?c = cx_states cx" by simp
  show ?thesis using assms(1) unfolding cx_inv_def p st all .
qed

lemma cx_inv_done:
  assumes "cx_inv yy main cx" "cx_fstack cx = []"
  shows "set (parsed cx) = reached yy main"
proof -
  have w: "waiting cx = {}" using assms(2) by (simp add: waiting_def)
  note cl = cx_invD(4-6) [OF assms(1), unfolded w Un_empty_right]
  have "x \<in> set (parsed cx)" if "x \<in> reached yy main" for x
    using that by (induction rule: reached.induct) (use cl in blast)+
  then show ?thesis using cl(1) by auto
qed

lemma parse_loop_reaches:
  assumes fin: "finite (reached yy main)" and ok: "\<And>a. a \<in> reached yy main \<Longrightarrow> \<exists>defs. yy a = Some (True, defs)"
  shows "cx_inv yy main cx \<Longrightarrow> \<exists>cx'. parse_loop yy cx = Some (True, cx') \<and> cx_inv yy main cx' \<and> cx_fstack cx' = []"
proof (induction cx rule: wf_induct_rule [OF wf_measures [of "[\<lambda>cx. card (reached yy main - set (parsed cx)), \<lambda>cx. length (cx_fstack cx)]"]])
  case (1 cx)
  show ?case
  proof (cases "cx_fstack cx")
    case Nil
    then show ?thesis using 1(2) by (subst parse_loop.simps) simp
  next
    case (Cons f fs)
    have pr: "fs_path f \<in> set (parsed cx) \<longleftrightarrow> (\<exists>g. um_find (fs_path f) (cx_states cx) = Some g \<and> fs_processed g)"
      by (rule cx_invD(2) [OF 1(2)])
    show ?thesis
    proof (cases "fs_path f \<in> set (parsed cx)")
      case True
      have "\<exists>cx'. parse_loop yy (cx\<lparr>cx_fstack := fs\<rparr>) = Some (True, cx') \<and> cx_inv yy main cx' \<and> cx_fstack cx' = []"
        using Cons by (intro 1(1) cx_inv_skip [OF 1(2) Cons True]) (simp add: parsed_def)
      then show ?thesis using pr True Cons by (subst parse_loop.simps) (auto simp: Let_def)
    next
      case False
      have p: "fs_path f \<in> reached yy main" using cx_invD(4) [OF 1(2)] Cons by (auto simp: waiting_def)
      obtain defs where "yy (fs_path f) = Some (True, defs)" using ok [OF p] by blast
      from cx_inv_parse [OF 1(2) Cons this False] obtain cx2 where 2: "parse_file yy (fs_path f) (cx\<lparr>cx_fstack := fs\<rparr>) = (True, cx2)"
        "parsed cx2 = fs_path f # parsed cx"
        "cx_inv yy main (cx2\<lparr>cx_states := um_set (fs_path f) (f\<lparr>fs_processed := True\<rparr>) (cx_states cx2)\<rparr>)" (is "cx_inv yy main ?c3")
        by blast
      have "parsed ?c3 = fs_path f # parsed cx" using 2(2) by (simp add: parsed_def)
      then have "card (reached yy main - set (parsed ?c3)) < card (reached yy main - set (parsed cx))"
        using fin p False by (intro psubset_card_mono) auto
      then have "\<exists>cx'. parse_loop yy ?c3 = Some (True, cx') \<and> cx_inv yy main cx' \<and> cx_fstack cx' = []"
        by (intro 1(1) 2(3)) simp
      then show ?thesis using pr False Cons 2(1) by (subst parse_loop.simps) (auto simp: Let_def)
    qed
  qed
qed

section \<open>The phase\<close>

(* [tool/bits/idl/idl_context.h:70-76 idl_context::idl_context] *)
definition mk_context :: "idl_config \<Rightarrow> idl_context" where
  "mk_context cf = \<lparr>cx_started = False, cx_config = cf, cx_pstack = [], cx_fstack = [], cx_states = [], cx_symbols = []\<rparr>"

(* [tool/bits/idl/idl_context.cpp:29-36 idl_context::start] *)
definition parse_phase :: "yy \<Rightarrow> idl_context \<Rightarrow> (bool \<times> idl_context) option" where
  "parse_phase yy cx =
     parse_loop yy (cx\<lparr>cx_started := True,
       cx_fstack := \<lparr>fs_path = cf_main_file (cx_config cx), fs_processed = False\<rparr> # cx_fstack cx\<rparr>)"

lemma cx_inv_start:
  "cx_inv yy (cf_main_file cf) ((mk_context cf)\<lparr>cx_started := True,
     cx_fstack := \<lparr>fs_path = cf_main_file cf, fs_processed = False\<rparr> # cx_fstack (mk_context cf)\<rparr>)"
  by (simp add: cx_inv_def mk_context_def parsed_def waiting_def reached.Main)

lemma parse_phase_covers:
  assumes "finite (reached yy (cf_main_file cf))"
    and "\<And>a. a \<in> reached yy (cf_main_file cf) \<Longrightarrow> \<exists>defs. yy a = Some (True, defs)"
  shows "\<exists>cx'. parse_phase yy (mk_context cf) = Some (True, cx') \<and> set (parsed cx') = reached yy (cf_main_file cf) \<and> distinct (parsed cx')"
proof -
  obtain cx' where c: "parse_phase yy (mk_context cf) = Some (True, cx')" "cx_inv yy (cf_main_file cf) cx'" "cx_fstack cx' = []"
    using parse_loop_reaches [OF assms cx_inv_start] unfolding parse_phase_def by (auto simp: mk_context_def)
  then show ?thesis using cx_inv_done [OF c(2,3)] cx_invD(1) [OF c(2)] by blast
qed

text \<open>
  C20. When the main file and all that includes lead to are finitely many files that open and are accepted, the
  parsing phase ends and has parsed exactly these files, each once, whatever cycles the includes have.\<close>

theorem parse_covers_includes:
  assumes "finite (reached yy (cf_main_file cf))"
    and "\<And>a. a \<in> reached yy (cf_main_file cf) \<Longrightarrow> \<exists>defs. yy a = Some (True, defs)"
  shows "\<exists>cx'. parse_phase yy (mk_context cf) = Some (True, cx') \<and> set (parsed cx') = reached yy (cf_main_file cf) \<and> distinct (parsed cx')"
  using parse_phase_covers [OF assms] .

text \<open>Two files that include each other.\<close>

definition two_files :: yy where
  "two_files path = (if path = ''a'' then Some (True, [(1, N_include [''b''])])
     else if path = ''b'' then Some (True, [(2, N_include [''a''])]) else None)"

definition a_config :: idl_config where
  "a_config = \<lparr>cf_continue = True, cf_cplus = True, cf_csharp = False, cf_main_file = ''a''\<rparr>"

lemma reached_two: "reached two_files ''a'' = {''a'', ''b''}"
proof -
  have inc: "includes_of two_files ''a'' = {''b''}" "includes_of two_files ''b'' = {''a''}"
    by (simp_all add: includes_of_def two_files_def include_paths_def)
  have "x \<in> {''a'', ''b''}" if "x \<in> reached two_files ''a''" for x
    using that by (induction rule: reached.induct) (use inc in auto)
  moreover have "''b'' \<in> reached two_files ''a''" using reached.Include [OF reached.Main] inc by blast
  ultimately show ?thesis using reached.Main [of "''a''" two_files] by blast
qed

theorem parse_covers_includes_witness:
  "\<exists>cx'. parse_phase two_files (mk_context a_config) = Some (True, cx') \<and> set (parsed cx') = {''a'', ''b''} \<and> distinct (parsed cx')"
proof -
  have m: "cf_main_file a_config = ''a''" by (simp add: a_config_def)
  show ?thesis
    using parse_covers_includes [of two_files a_config] unfolding m reached_two by (force simp: two_files_def)
qed

end
