(* ===== verification/Idl_Generator.thy ===== *)
theory Idl_Generator
  imports Idl_Program
begin

text \<open>
  The base of the code generators (\<^verbatim>\<open>tool/bits/idl/generate/generator.cpp\<close>) and the way the generating functions are
  written down: an action appends text to the output streams and ends well, with a failure, or with undefined
  behaviour; \<open>run\<close> does actions in order and returns at the first that does not end well, which is what
  \<^verbatim>\<open>WISE_RETURN_IF(!rc, rc)\<close> after each call does.
\<close>

section \<open>State\<close>

datatype ostream = Os | Os_cpp | Os_sql | Fac_hpp | Fac_cpp | Fac_cs

(* [tool/bits/idl/generate/generator.hpp:60-64 generator] *)
record gen =
  g_out :: "ostream \<Rightarrow> string"
  g_level :: nat
  g_tx_name :: string
  g_bind_seq :: nat
  g_query :: string

definition mk_gen :: gen where
  "mk_gen = \<lparr>g_out = (\<lambda>_. []), g_level = 0, g_tx_name = [], g_bind_seq = 0, g_query = []\<rparr>"

text \<open>What the generating functions read: the program, the symbols, the nodes that are alive, and how the
  path library replaces the extension of a path.\<close>

record gen_env =
  ge_program :: idl_program
  ge_symbols :: symbol_table
  ge_heap :: "node_addr \<Rightarrow> idl_node option"
  ge_replace_extension :: "string \<Rightarrow> string \<Rightarrow> string"

datatype outcome = Done | Failed string | Crash string

type_synonym action = "gen \<Rightarrow> outcome \<times> gen"

section \<open>Actions\<close>

definition put :: "ostream \<Rightarrow> string \<Rightarrow> gen \<Rightarrow> gen" where
  "put st s g = g\<lparr>g_out := (g_out g)(st := g_out g st @ s)\<rparr>"

definition endl :: string where
  "endl = [CHR 0x0A]"

definition out :: "ostream \<Rightarrow> string list \<Rightarrow> action" where
  "out st ss g = (Done, put st (concat ss) g)"

(* [tool/bits/idl/generate/generator.cpp:153-163 generator::indent] *)
definition ind :: "ostream \<Rightarrow> string list \<Rightarrow> action" where
  "ind st ss g = out st (replicate (g_level g) [CHR 0x09] @ ss) g"

(* [tool/bits/idl/generate/generator.cpp:139-143 generator::inc_indent] *)
definition inc_indent :: action where
  "inc_indent g = (Done, g\<lparr>g_level := g_level g + 1\<rparr>)"

(* [tool/bits/idl/generate/generator.cpp:145-150 generator::dec_indent] *)
definition dec_indent :: action where
  "dec_indent g = (Done, g\<lparr>g_level := g_level g - 1\<rparr>)"

(* [tool/bits/idl/generate/generator.cpp:165-168 generator::reset_indent] *)
definition reset_indent :: action where
  "reset_indent g = (Done, g\<lparr>g_level := 0\<rparr>)"

definition nothing :: action where
  "nothing g = (Done, g)"

definition fail :: "string \<Rightarrow> action" where
  "fail m g = (Failed m, g)"

definition crash :: "string \<Rightarrow> action" where
  "crash m g = (Crash m, g)"

primrec run :: "action list \<Rightarrow> action" where
  "run [] = nothing"
| "run (a # as) = (\<lambda>g. case a g of (Done, g1) \<Rightarrow> run as g1 | r \<Rightarrow> r)"

declare run.simps(2) [simp del]

lemma run_Cons: "run (a # as) g = (case a g of (Done, g1) \<Rightarrow> run as g1 | r \<Rightarrow> r)"
  by (simp add: run.simps(2))

text \<open>A call whose failure the caller does not look at, and one whose failure it replaces.\<close>

definition ignore :: "action \<Rightarrow> action" where
  "ignore a g = (case a g of (Failed _, g1) \<Rightarrow> (Done, g1) | r \<Rightarrow> r)"

definition fail_as :: "string \<Rightarrow> action \<Rightarrow> action" where
  "fail_as m a g = (case a g of (Failed _, g1) \<Rightarrow> (Failed m, g1) | r \<Rightarrow> r)"

definition show_int :: "int \<Rightarrow> string" where
  "show_int i = (if i < 0 then ''-'' @ digits (nat (- i)) else digits (nat i))"

section \<open>Questions about fields\<close>

definition symbol_is_enum :: "string \<Rightarrow> symbol_table \<Rightarrow> bool" where
  "symbol_is_enum x tab = (case symbol_lookup x tab of Some s \<Rightarrow> sym_type s = Sym_enum | None \<Rightarrow> False)"

(* [tool/bits/idl/generate/generator.cpp:23-51 generator::is_enum] *)
definition is_enum :: "gen_env \<Rightarrow> idl_field \<Rightarrow> bool" where
  "is_enum e f =
     (let fn = idl_name (fd_type f)
      in symbol_is_enum fn (ge_symbols e) \<or> symbol_is_enum (get_fullname fn (ge_program e)) (ge_symbols e))"

(* [tool/bits/idl/generate/generator.cpp:53-58 generator::is_macro] *)
definition is_macro :: "idl_field \<Rightarrow> bool" where
  "is_macro f = (case fd_type f of T_macro _ \<Rightarrow> True | _ \<Rightarrow> False)"

(* [tool/bits/idl/generate/generator.cpp:60-70 generator::is_serializable_field] *)
definition is_serializable_field :: "idl_field \<Rightarrow> bool" where
  "is_serializable_field f = (case fd_type f of T_macro _ \<Rightarrow> False | T_topic _ \<Rightarrow> False | T_option _ \<Rightarrow> False | _ \<Rightarrow> True)"

(* [tool/bits/idl/generate/generator.cpp:72-96 generator::get_namespace] *)
definition gen_namespace :: "gen_env \<Rightarrow> string" where
  "gen_namespace e = ''::'' @
     (case program_namespace (ge_program e) of
        Some lst \<Rightarrow> concat (map (\<lambda>n. n @ ''::'') lst)
      | None \<Rightarrow> ''wise::kernel::'')"

(* [tool/bits/idl/generate/generator.cpp:98-101 generator::get_topic_namespace] *)
definition get_topic_namespace :: string where
  "get_topic_namespace = ''topics''"

(* [tool/bits/idl/generate/generator.cpp:103-122 generator::get_type_name] *)
fun get_type_name :: "idl_node \<Rightarrow> string" where
  "get_type_name (N_enum _ _) = ''enum''"
| "get_type_name (N_message _ _ _) = ''message''"
| "get_type_name (N_include _) = ''include''"
| "get_type_name (N_namespace _) = ''namespace''"
| "get_type_name (N_struct _ _) = ''struct''"
| "get_type_name (N_tx _ _) = ''tx''"

(* [tool/bits/idl/generate/generator.cpp:124-137 generator::is_short_type_field] *)
definition is_short_type_field :: "idl_field \<Rightarrow> bool" where
  "is_short_type_field f = (fd_type f = T_simple TYPE_I16 \<or> fd_type f = T_simple TYPE_U16)"

text \<open>The first topic among fields, and the includes among nodes.\<close>

fun first_topic :: "idl_field list \<Rightarrow> string option" where
  "first_topic [] = None"
| "first_topic (f # fs) = (case fd_type f of T_topic ident \<Rightarrow> Some ident | _ \<Rightarrow> first_topic fs)"

fun includes_in :: "idl_node list \<Rightarrow> string list list" where
  "includes_in [] = []"
| "includes_in (N_include ps # nodes) = ps # includes_in nodes"
| "includes_in (_ # nodes) = includes_in nodes"

end
