(* ===== verification/Util_Split.thy ===== *)
theory Util_Split
  imports Prelude
begin

text \<open>
  String helpers (\<^verbatim>\<open>src/util/util.cpp\<close>). A position is an offset or \<open>None\<close> for \<^verbatim>\<open>npos\<close>, and \<^verbatim>\<open>npos + 1\<close>
  is 0. \<open>find_from\<close> is the search both \<^verbatim>\<open>find_first_of\<close> and \<^verbatim>\<open>find_first_not_of\<close> make.
\<close>

section \<open>Searching\<close>

definition find_from :: "(char \<Rightarrow> bool) \<Rightarrow> string \<Rightarrow> nat option \<Rightarrow> nat option" where
  "find_from P s start =
     (case start of
        None \<Rightarrow> None
      | Some i \<Rightarrow> let p = i + length (takeWhile (\<lambda>c. \<not> P c) (drop i s)) in if p < length s then Some p else None)"

definition find_last :: "char \<Rightarrow> string \<Rightarrow> nat option" where
  "find_last c s = (if c \<in> set s then Some (length s - 1 - length (takeWhile (\<lambda>x. x \<noteq> c) (rev s))) else None)"

section \<open>The helpers\<close>

text \<open>The loop of \<open>split\<close>; \<open>None\<close> when it has not ended after \<open>fuel\<close> rounds.\<close>

(* [src/util/util.cpp:22-46 split] *)
fun split_loop :: "nat \<Rightarrow> string \<Rightarrow> string \<Rightarrow> u32 \<Rightarrow> nat option \<Rightarrow> u32 \<Rightarrow> string list \<Rightarrow> string list option" where
  "split_loop 0 s ds mx start num ret = None"
| "split_loop (Suc fuel) s ds mx start num ret =
     (let pos = find_from (\<lambda>c. c \<in> set ds) s start;
          next_start = (\<lambda>st. find_from (\<lambda>c. c \<notin> set ds) s (Some st));
          continue = (\<lambda>st r. if pos = None then Some r else split_loop fuel s ds mx (next_start st) (num + 1) r)
      in if pos = start then continue (case pos of None \<Rightarrow> 0 | Some p \<Rightarrow> p + 1) ret
         else case start of
                None \<Rightarrow> None
              | Some i \<Rightarrow>
                  (case pos of
                     None \<Rightarrow> Some (ret @ [drop i s])
                   | Some p \<Rightarrow> if mx \<noteq> 0 \<and> num = mx then Some (ret @ [drop i s])
                               else continue (p + 1) (ret @ [take (p - i) (drop i s)])))"

(* [src/util/util.cpp:10-49 split] *)
definition split :: "string \<Rightarrow> string \<Rightarrow> u32 \<Rightarrow> string list option" where
  "split s ds mx = split_loop (length s + 2) s ds mx (Some 0) 0 []"

(* [src/util/util.cpp:51-61 remove_file_extension] *)
definition remove_file_extension :: "string \<Rightarrow> string" where
  "remove_file_extension path = (case find_last CHR ''.'' path of None \<Rightarrow> [] | Some i \<Rightarrow> take i path)"

(* [src/util/util.cpp:63-77 get_filename] *)
definition get_filename :: "string \<Rightarrow> string" where
  "get_filename path = (case find_last CHR ''/'' path of None \<Rightarrow> path | Some i \<Rightarrow> drop (i + 1) path)"

section \<open>The tokens of a string\<close>

text \<open>The reference: the maximal pieces without a delimiter.\<close>

function tokens :: "string \<Rightarrow> string \<Rightarrow> string list" where
  "tokens ds s =
     (let t = dropWhile (\<lambda>c. c \<in> set ds) s
      in if t = [] then [] else takeWhile (\<lambda>c. c \<notin> set ds) t # tokens ds (dropWhile (\<lambda>c. c \<notin> set ds) t))"
  by auto

lemma tokens_shrink:
  assumes "dropWhile (\<lambda>c. c \<in> set ds) s \<noteq> []"
  shows "length (dropWhile (\<lambda>c. c \<notin> set ds) (dropWhile (\<lambda>c. c \<in> set ds) s)) < length s"
proof -
  obtain c t where t: "dropWhile (\<lambda>c. c \<in> set ds) s = c # t" using assms by (cases "dropWhile (\<lambda>c. c \<in> set ds) s") auto
  then have "c \<notin> set ds" using hd_dropWhile [OF assms] by simp
  then have "length (dropWhile (\<lambda>c. c \<notin> set ds) (c # t)) \<le> length t"
    by (simp add: length_dropWhile_le)
  moreover have "length (c # t) \<le> length s" using t length_dropWhile_le [of "\<lambda>c. c \<in> set ds" s] by simp
  ultimately show ?thesis using t by simp
qed

termination tokens
  by (relation "measure (\<lambda>(ds, s). length s)") (simp_all add: tokens_shrink del: dropWhile_eq_Nil_conv)

declare tokens.simps [simp del] split_loop.simps(2) [simp del]

lemma tokens_skip: "tokens ds (dropWhile (\<lambda>c. c \<in> set ds) s) = tokens ds s"
  by (subst (1 2) tokens.simps) simp

lemma tokens_head:
  assumes "s \<noteq> []" "hd s \<notin> set ds"
  shows "tokens ds s = takeWhile (\<lambda>c. c \<notin> set ds) s # tokens ds (dropWhile (\<lambda>c. c \<notin> set ds) s)"
  using assms by (subst tokens.simps) (cases s; simp add: Let_def)

lemma tokens_delims: "set s \<subseteq> set ds \<Longrightarrow> tokens ds s = []"
  by (subst tokens.simps) (auto simp: Let_def dropWhile_eq_Nil_conv)

lemma find_from_Some:
  assumes "find_from P s (Some i) = Some p"
  shows "i \<le> p" "p < length s" "P (s ! p)" "takeWhile (\<lambda>c. \<not> P c) (drop i s) = take (p - i) (drop i s)"
    "dropWhile (\<lambda>c. \<not> P c) (drop i s) = drop p s"
proof -
  let ?k = "length (takeWhile (\<lambda>c. \<not> P c) (drop i s))"
  have p: "p = i + ?k" "p < length s" using assms by (auto simp: find_from_def Let_def split: if_splits)
  then show "i \<le> p" "p < length s" by simp_all
  have "\<not> \<not> P (drop i s ! ?k)" using p by (intro nth_length_takeWhile) simp
  then show "P (s ! p)" using p by simp
  show "takeWhile (\<lambda>c. \<not> P c) (drop i s) = take (p - i) (drop i s)" using p(1) takeWhile_eq_take [of "\<lambda>c. \<not> P c" "drop i s"] by simp
  show "dropWhile (\<lambda>c. \<not> P c) (drop i s) = drop p s" using p(1) dropWhile_eq_drop [of "\<lambda>c. \<not> P c" "drop i s"] by (simp add: add.commute)
qed

lemma find_from_None:
  assumes "find_from P s (Some i) = None" "i \<le> length s"
  shows "\<forall>c \<in> set (drop i s). \<not> P c"
proof -
  have "length s - i \<le> length (takeWhile (\<lambda>c. \<not> P c) (drop i s))"
    using assms by (auto simp: find_from_def Let_def split: if_splits)
  then show ?thesis
    using nth_length_takeWhile [of "\<lambda>c. \<not> P c" "drop i s"] set_takeWhileD [of _ "\<lambda>c. \<not> P c" "drop i s"]
      takeWhile_dropWhile_id [of "\<lambda>c. \<not> P c" "drop i s"] length_append [of "takeWhile (\<lambda>c. \<not> P c) (drop i s)"]
    by (metis add_diff_cancel_left' append_Nil2 diff_is_0_eq' length_0_conv length_drop)
qed

text \<open>A round that has found a delimiter goes on behind the following delimiters.\<close>

lemma split_round:
  assumes IH: "\<And>j num ret. i < j \<Longrightarrow> j < length s \<Longrightarrow> s ! j \<notin> set ds \<Longrightarrow> length s - j + 2 \<le> fuel \<Longrightarrow>
      split_loop fuel s ds 0 (Some j) num ret = Some (ret @ tokens ds (drop j s))"
    and p: "i \<le> p" "p < length s" "s ! p \<in> set ds" and fuel: "length s - i + 1 \<le> fuel"
  shows "split_loop fuel s ds 0 (find_from (\<lambda>c. c \<notin> set ds) s (Some (p + 1))) num ret = Some (ret @ tokens ds (drop p s))"
proof -
  have d: "drop p s = s ! p # drop (p + 1) s" using p(2) by (simp add: Cons_nth_drop_Suc)
  have t: "tokens ds (drop p s) = tokens ds (drop (p + 1) s)"
    using p(3) d tokens_skip [of ds "drop p s"] tokens_skip [of ds "drop (p + 1) s"] by simp
  show ?thesis
  proof (cases "find_from (\<lambda>c. c \<notin> set ds) s (Some (p + 1))")
    case None
    then have "set (drop (p + 1) s) \<subseteq> set ds" using find_from_None [OF None] p(2) by auto
    moreover obtain f where "fuel = Suc f" using fuel by (cases fuel) auto
    ultimately show ?thesis using None t by (simp add: tokens_delims find_from_def split_loop.simps(2))
  next
    case (Some j)
    note f = find_from_Some [OF Some]
    have "tokens ds (drop (p + 1) s) = tokens ds (drop j s)" using tokens_skip [of ds "drop (p + 1) s"] f(5) by simp
    then show ?thesis using IH [of j num ret] Some t f(1-3) p(1) fuel by simp
  qed
qed

lemma split_loop_tokens:
  "i < length s \<Longrightarrow> s ! i \<notin> set ds \<Longrightarrow> length s - i + 2 \<le> fuel \<Longrightarrow>
   split_loop fuel s ds 0 (Some i) num ret = Some (ret @ tokens ds (drop i s))"
proof (induction fuel arbitrary: i num ret)
  case (Suc fuel)
  have ne: "drop i s \<noteq> []" "hd (drop i s) \<notin> set ds" using Suc.prems(1,2) by (simp_all add: hd_drop_conv_nth)
  show ?case
  proof (cases "find_from (\<lambda>c. c \<in> set ds) s (Some i)")
    case None
    then have "\<forall>c \<in> set (drop i s). c \<notin> set ds" using find_from_None [OF None] Suc.prems(1) by simp
    then have whole: "takeWhile (\<lambda>c. c \<notin> set ds) (drop i s) = drop i s" "dropWhile (\<lambda>c. c \<notin> set ds) (drop i s) = []" by simp_all
    have "tokens ds (drop i s) = [drop i s]" unfolding tokens_head [OF ne] whole by (simp add: tokens_delims)
    then show ?thesis using None by (simp add: split_loop.simps(2))
  next
    case (Some p)
    note f = find_from_Some [OF Some]
    have "i \<noteq> p" using f(3) Suc.prems(2) by auto
    moreover have "split_loop fuel s ds 0 (find_from (\<lambda>c. c \<notin> set ds) s (Some (p + 1))) (num + 1) (ret @ [take (p - i) (drop i s)]) =
        Some (ret @ take (p - i) (drop i s) # tokens ds (drop p s))"
      using split_round [of i s ds fuel p "num + 1" "ret @ [take (p - i) (drop i s)]"] Suc.IH f(1-3) Suc.prems(3) by auto
    ultimately show ?thesis using Some tokens_head [OF ne] f(4,5) by (simp add: split_loop.simps(2))
  qed
qed simp

lemma split_tokens: "split s ds 0 = Some (if s = [] then [[]] else tokens ds s)"
proof (cases s)
  case Nil
  then show ?thesis by (simp add: split_def find_from_def numeral_2_eq_2 split_loop.simps(2))
next
  case (Cons c t)
  show ?thesis
  proof (cases "c \<in> set ds")
    case False
    then show ?thesis using Cons split_loop_tokens [of 0 s ds "length s + 2" 0 "[]"] by (simp add: split_def)
  next
    case True
    then have "find_from (\<lambda>c. c \<in> set ds) s (Some 0) = Some 0" using Cons by (simp add: find_from_def)
    moreover have "split_loop (Suc (length s)) s ds 0 (find_from (\<lambda>c. c \<notin> set ds) s (Some (0 + 1))) (0 + 1) [] =
        Some ([] @ tokens ds (drop 0 s))"
      using True Cons by (intro split_round [of 0] split_loop_tokens) auto
    ultimately show ?thesis using Cons by (simp add: split_def numeral_2_eq_2 split_loop.simps(2))
  qed
qed

lemma tokens_pieces: "list_all (\<lambda>t. t \<noteq> [] \<and> set t \<inter> set ds = {} \<and> set t \<subseteq> set s) (tokens ds s)"
proof (induction ds s rule: tokens.induct)
  case (1 ds s)
  let ?t = "dropWhile (\<lambda>c. c \<in> set ds) s"
  show ?case
  proof (cases "?t = []")
    case True
    then show ?thesis by (subst tokens.simps) (simp add: Let_def)
  next
    case False
    have sub: "set ?t \<subseteq> set s" by (auto dest: set_dropWhileD)
    have "takeWhile (\<lambda>c. c \<notin> set ds) ?t \<noteq> []" using hd_dropWhile [OF False] False by (cases ?t) auto
    moreover have "set (takeWhile (\<lambda>c. c \<notin> set ds) ?t) \<inter> set ds = {}" "set (takeWhile (\<lambda>c. c \<notin> set ds) ?t) \<subseteq> set s"
      using sub by (auto dest: set_takeWhileD)
    moreover have "set (dropWhile (\<lambda>c. c \<notin> set ds) ?t) \<subseteq> set s" using sub by (auto dest: set_dropWhileD)
    then have "list_all (\<lambda>t. t \<noteq> [] \<and> set t \<inter> set ds = {} \<and> set t \<subseteq> set s) (tokens ds (dropWhile (\<lambda>c. c \<notin> set ds) ?t))"
      using 1 [OF refl False] by (auto simp: list_all_iff)
    ultimately show ?thesis using False by (subst tokens.simps) (simp add: Let_def)
  qed
qed

text \<open>
  \<open>split\<close> without a limit ends and returns the maximal pieces of the string without a delimiter, in order and
  none of them empty - with one exception: the empty string gives one empty piece.
\<close>

theorem split_is_tokens:
  "split s ds 0 = Some (if s = [] then [[]] else tokens ds s) \<and> list_all (\<lambda>t. t \<noteq> [] \<and> set t \<inter> set ds = {}) (tokens ds s)"
  using split_tokens tokens_pieces [of ds s] by (auto simp: list_all_iff)

end
