(* ===== verification/Csharp_Generator.thy ===== *)
theory Csharp_Generator
  imports Idl_Generator Util_Split
begin

text \<open>
  The C# generator (\<^verbatim>\<open>tool/bits/idl/generate/csharp_generator.cpp\<close>), for the client. It has no transactions; a
  message whose super class is \<^verbatim>\<open>wise.hx\<close> is left out.
\<close>

section \<open>Expressions and fields\<close>

(* [tool/bits/idl/generate/csharp_generator.cpp:889-910 csharp_generator::generate_operator] *)
fun cs_operator :: "idl_op \<Rightarrow> action" where
  "cs_operator Op_plus = out Os ['' + '']"
| "cs_operator Op_minus = out Os ['' - '']"
| "cs_operator Op_none = fail ''Invalid expression operator''"

(* [tool/bits/idl/generate/csharp_generator.cpp:912-942 csharp_generator::generate_expression_value] *)
fun cs_expression_value :: "idl_value \<Rightarrow> action" where
  "cs_expression_value (V_const i) = out Os [show_int i]"
| "cs_expression_value (V_simple x) = out Os [x]"
| "cs_expression_value (V_full ns x) = out Os [full_typename_in ''c++'' ns x]"
| "cs_expression_value V_none = fail ''Invalid value type''"

(* [tool/bits/idl/generate/csharp_generator.cpp:857-887 csharp_generator::generate_expression] *)
fun cs_expression :: "idl_expr \<Rightarrow> action" where
  "cs_expression (Expr op v es) =
     run (ignore (cs_expression_value v) # map (\<lambda>ex. run [cs_operator (ex_op ex), cs_expression ex]) es)"

(* [tool/bits/idl/generate/csharp_generator.cpp:746-780 csharp_generator::generate_field_simple_type] *)
definition cs_field_simple_type :: "idl_field \<Rightarrow> idl_simple \<Rightarrow> action" where
  "cs_field_simple_type f t =
     run [inc_indent,
          ind Os [''public '', simple_typename_in ''c#'' t],
          out Os ['' '', fd_name f],
          case (case fd_value f of None \<Rightarrow> None | Some fv \<Rightarrow> fv_default fv) of
            Some ex \<Rightarrow> run [out Os ['' = ''], cs_expression ex]
          | None \<Rightarrow> if t = TYPE_STRING \<or> t = TYPE_USTRING then out Os ['' = \"\"''] else nothing,
          out Os ['';'', endl],
          dec_indent]"

(* [tool/bits/idl/generate/csharp_generator.cpp:782-803 csharp_generator::generate_field_full_type] *)
definition cs_field_full_type :: "gen_env \<Rightarrow> idl_field \<Rightarrow> string list \<Rightarrow> string \<Rightarrow> action" where
  "cs_field_full_type e f ns x =
     run [inc_indent,
          ind Os [''public '', full_typename_in ''c#'' ns x],
          out Os ['' '', fd_name f],
          if \<not> is_enum e f then out Os ['' = new '', full_typename_in ''c#'' ns x, ''()''] else nothing,
          out Os ['';'', endl],
          dec_indent]"

definition cs_elem_name :: "idl_type \<Rightarrow> string" where
  "cs_elem_name t = (case t of T_simple s \<Rightarrow> simple_typename_in ''c#'' s | _ \<Rightarrow> idl_name t)"

(* [tool/bits/idl/generate/csharp_generator.cpp:805-844 csharp_generator::generate_field_vec] *)
definition cs_field_vec :: "idl_field \<Rightarrow> idl_type \<Rightarrow> action" where
  "cs_field_vec f vt =
     run [inc_indent,
          ind Os [''public List<'', cs_elem_name vt, ''> ''],
          out Os [fd_name f],
          out Os ['' = new List<'', cs_elem_name vt, ''>()''],
          out Os ['';'', endl],
          dec_indent]"

(* [tool/bits/idl/generate/csharp_generator.cpp:846-855 csharp_generator::generate_field_macro] *)
definition cs_field_macro :: "string \<Rightarrow> action" where
  "cs_field_macro l = run [out Os [l], out Os [endl]]"

(* [tool/bits/idl/generate/csharp_generator.cpp:706-744 csharp_generator::generate_field] *)
definition cs_field :: "gen_env \<Rightarrow> idl_field \<Rightarrow> action" where
  "cs_field e f =
     (case fd_type f of
        T_simple t \<Rightarrow> cs_field_simple_type f t
      | T_full ns x \<Rightarrow> cs_field_full_type e f ns x
      | T_vec vt n \<Rightarrow> cs_field_vec f vt
      | T_macro l \<Rightarrow> cs_field_macro l
      | T_topic _ \<Rightarrow> nothing
      | T_option _ \<Rightarrow> nothing
      | T_map _ _ \<Rightarrow> fail ''Field has unknown type'')"

section \<open>Packing and unpacking\<close>

text \<open>The lines of a field in the four serializing functions; \<open>sp\<close> is the space structures have before \<^verbatim>\<open>out\<close>.\<close>

(* [tool/bits/idl/generate/csharp_generator.cpp:306-335 csharp_generator::generate_struct_pack] *)
definition cs_pack_field :: "gen_env \<Rightarrow> idl_field \<Rightarrow> action" where
  "cs_pack_field e f =
     (if is_serializable_field f then
        (if is_enum e f then ind Os [''packer.PackEnum(stream, '', fd_name f, '');'', endl]
         else if is_short_type_field f then ind Os [''packer.PackShort(stream, '', fd_name f, '');'', endl]
         else ind Os [''packer.Pack(stream, '', fd_name f, '');'', endl])
      else (case fd_type f of T_macro l \<Rightarrow> ignore (cs_field_macro l) | _ \<Rightarrow> nothing))"

(* [tool/bits/idl/generate/csharp_generator.cpp:365-402 csharp_generator::generate_struct_unpack] *)
definition cs_unpack_field :: "gen_env \<Rightarrow> string \<Rightarrow> idl_field \<Rightarrow> action" where
  "cs_unpack_field e sp f =
     (if is_serializable_field f then
        (if is_enum e f then ind Os [''packer.UnpackEnum(stream, '', sp, ''out '', fd_name f, '');'', endl]
         else run [if is_short_type_field f then ind Os [''packer.UnpackShort(stream, ''] else ind Os [''packer.Unpack(stream, ''],
                   (case fd_type f of T_vec _ _ \<Rightarrow> nothing | _ \<Rightarrow> out Os [sp, ''out '']),
                   out Os [fd_name f, '');'', endl]])
      else (case fd_type f of T_macro l \<Rightarrow> ignore (cs_field_macro l) | _ \<Rightarrow> nothing))"

definition cs_serializer :: "string \<Rightarrow> action list \<Rightarrow> action" where
  "cs_serializer head body =
     run ([inc_indent,
           ind Os [head, endl],
           ind Os [''{'', endl],
           inc_indent] @
          body @
          [ind Os [''return true;'', endl],
           dec_indent,
           ind Os [''}'', endl],
           dec_indent])"

(* [tool/bits/idl/generate/csharp_generator.cpp:290-347 csharp_generator::generate_struct_pack] *)
definition cs_struct_pack :: "gen_env \<Rightarrow> idl_field list \<Rightarrow> action" where
  "cs_struct_pack e flds = cs_serializer ''public bool Pack(Packer packer, Stream stream) '' (map (cs_pack_field e) flds)"

(* [tool/bits/idl/generate/csharp_generator.cpp:349-414 csharp_generator::generate_struct_unpack] *)
definition cs_struct_unpack :: "gen_env \<Rightarrow> idl_field list \<Rightarrow> action" where
  "cs_struct_unpack e flds = cs_serializer ''public bool Unpack(Packer packer, Stream stream) '' (map (cs_unpack_field e '' '') flds)"

(* [tool/bits/idl/generate/csharp_generator.cpp:544-601 csharp_generator::generate_message_pack] *)
definition cs_message_pack :: "gen_env \<Rightarrow> idl_field list \<Rightarrow> action" where
  "cs_message_pack e flds = cs_serializer ''public override bool Pack(Packer packer, Stream stream) '' (map (cs_pack_field e) flds)"

(* [tool/bits/idl/generate/csharp_generator.cpp:603-668 csharp_generator::generate_message_unpack] *)
definition cs_message_unpack :: "gen_env \<Rightarrow> idl_field list \<Rightarrow> action" where
  "cs_message_unpack e flds = cs_serializer ''public override bool Unpack(Packer packer, Stream stream) '' (map (cs_unpack_field e []) flds)"

section \<open>Definitions\<close>

(* [tool/bits/idl/generate/csharp_generator.cpp:670-704 csharp_generator::generate_topic] *)
definition cs_topic :: "string \<Rightarrow> action" where
  "cs_topic ident =
     (case split ident ''.'' 0 of
        Some [ns, em, ty] \<Rightarrow>
          run [inc_indent,
               ind Os [''public static Topic GetTopic() '', endl],
               ind Os [''{'', endl],
               inc_indent,
               ind Os [''return new Topic( '', ''(byte)'', ns, ''.'', em, ''.category, '', ''(byte)'', ns, ''.'', em, ''.group, '',
                       ''(ushort)'', ns, ''.'', em, ''.'', ty, '' );'', endl],
               dec_indent,
               ind Os [''}'', endl],
               dec_indent]
      | Some _ \<Rightarrow> fail ''topic is invalid''
      | None \<Rightarrow> crash ''split'')"

(* [tool/bits/idl/generate/csharp_generator.cpp:521-542 csharp_generator::generate_message_topic] *)
definition cs_message_topic :: "idl_field list \<Rightarrow> action" where
  "cs_message_topic flds =
     (case first_topic flds of Some ident \<Rightarrow> cs_topic ident | None \<Rightarrow> fail ''Topic field not found'')"

(* [tool/bits/idl/generate/csharp_generator.cpp:209-244 csharp_generator::generate_enum] *)
definition cs_enum :: "string \<Rightarrow> (string \<times> idl_expr option) list \<Rightarrow> action" where
  "cs_enum name vals =
     run ([out Os [endl],
           out Os [''public enum '', name, endl],
           out Os [''{'', endl],
           inc_indent] @
          map (\<lambda>(v, dv). run [ind Os [v],
                              case dv of None \<Rightarrow> nothing | Some ex \<Rightarrow> run [out Os ['' = ''], ignore (cs_expression ex)],
                              out Os ['','', endl]]) vals @
          [dec_indent,
           out Os [''}'', endl],
           out Os [endl]])"

(* [tool/bits/idl/generate/csharp_generator.cpp:246-287 csharp_generator::generate_struct] *)
definition cs_struct :: "gen_env \<Rightarrow> string \<Rightarrow> idl_field list \<Rightarrow> action" where
  "cs_struct e name flds =
     run ([out Os [endl],
           out Os [''public class '', name, '' : IPackable '', endl],
           out Os [''{'', endl]] @
          map (cs_field e) flds @
          [out Os [endl],
           cs_struct_pack e flds,
           out Os [endl],
           cs_struct_unpack e flds,
           out Os [''}'', endl],
           out Os [endl]])"

definition cs_super_name :: "(string list \<times> string) option \<Rightarrow> string" where
  "cs_super_name sc = (case sc of Some (ns, x) \<Rightarrow> full_typename_in ''c#'' ns x | None \<Rightarrow> ''Packet'')"

(* [tool/bits/idl/generate/csharp_generator.cpp:416-519 csharp_generator::generate_message] *)
definition cs_message :: "gen_env \<Rightarrow> string \<Rightarrow> (string list \<times> string) option \<Rightarrow> idl_field list \<Rightarrow> action" where
  "cs_message e name sc flds =
     run [out Os [endl],
          if sc \<noteq> None \<and> cs_super_name sc = ''wise.hx'' then nothing
          else run ([ind Os [''public class '', name, '' : '', cs_super_name sc, endl],
                     ind Os [''{'', endl]] @
                    map (cs_field e) flds @
                    [out Os [endl],
                     out Os [endl],
                     fail_as ''Failed to generate topic'' (cs_message_topic flds),
                     out Os [endl],
                     inc_indent,
                     ind Os [''public '', name, ''()'', endl],
                     ind Os ['': base(GetTopic())'', endl],
                     ind Os [''{'', endl],
                     if is_set Enable_cipher flds then ind Os [CHR 0x09 # ''IsEnableCipher = true;'', endl] else nothing,
                     if is_set Enable_checksum flds then ind Os [CHR 0x09 # ''IsEnableChecksum = true;'', endl] else nothing,
                     if is_set Enable_sequence flds then ind Os [CHR 0x09 # ''IsEnableSequence = true;'', endl] else nothing,
                     ind Os [''}'', endl],
                     dec_indent,
                     out Os [endl],
                     cs_message_pack e flds,
                     out Os [endl],
                     cs_message_unpack e flds,
                     ind Os [''}'', endl],
                     out Os [endl]])]"

section \<open>Files\<close>

(* [tool/bits/idl/generate/csharp_generator.cpp:202-207 csharp_generator::generate_include] *)
definition cs_include :: "string list \<Rightarrow> action" where
  "cs_include ps = nothing"

(* [tool/bits/idl/generate/csharp_generator.cpp:944-953 csharp_generator::generate_prolog] *)
definition cs_prolog :: action where
  "cs_prolog =
     run [out Os [''using System;'', endl],
          out Os [''using System.IO;'', endl],
          out Os [''using System.Collections.Generic;'', endl],
          out Os [''using wise;'', endl],
          out Os [endl]]"

(* [tool/bits/idl/generate/csharp_generator.cpp:955-976 csharp_generator::generate_namespace_begin] *)
definition cs_namespace_begin :: "gen_env \<Rightarrow> action" where
  "cs_namespace_begin e =
     (case program_namespace (ge_program e) of
        Some lst \<Rightarrow> run (map (\<lambda>n. out Os [''namespace '', n, '' {'', endl]) lst)
      | None \<Rightarrow> run [out Os [''namespace wise'', endl], out Os [''{'', endl]])"

(* [tool/bits/idl/generate/csharp_generator.cpp:978-1000 csharp_generator::generate_namespace_end] *)
definition cs_namespace_end :: "gen_env \<Rightarrow> action" where
  "cs_namespace_end e =
     run (out Os [endl] #
          (case program_namespace (ge_program e) of
             Some lst \<Rightarrow> map (\<lambda>n. out Os [''} // '', n, endl]) lst
           | None \<Rightarrow> [out Os [''} // wise'', endl]]))"

(* [tool/bits/idl/generate/csharp_generator.cpp:1002-1007 csharp_generator::generate_epilog] *)
definition cs_epilog :: action where
  "cs_epilog = out Os [endl]"

fun cs_node :: "gen_env \<Rightarrow> idl_node \<Rightarrow> action" where
  "cs_node e (N_enum name vals) = cs_enum name vals"
| "cs_node e (N_struct name flds) = cs_struct e name flds"
| "cs_node e (N_message name sc flds) = cs_message e name sc flds"
| "cs_node e (N_tx name t) = nothing"
| "cs_node e (N_include ps) = nothing"
| "cs_node e (N_namespace ns) = nothing"

(* [tool/bits/idl/generate/csharp_generator.cpp:32-145 csharp_generator::generate_nodes] *)
definition cs_nodes :: "gen_env \<Rightarrow> action" where
  "cs_nodes e =
     (let nodes = map snd (pr_nodes (ge_program e))
      in run ([cs_prolog] @
              map cs_include (includes_in nodes) @
              [if includes_in nodes \<noteq> [] then out Os [endl] else nothing,
               cs_namespace_begin e] @
              map (cs_node e) nodes @
              [cs_namespace_end e,
               out Os [endl],
               reset_indent,
               cs_epilog]))"

text \<open>The factory: the text starts a namespace and goes on with a function.\<close>

(* [tool/bits/idl/generate/csharp_generator.cpp:147-200 csharp_generator::generate_factory] *)
definition cs_factory :: "gen_env \<Rightarrow> action" where
  "cs_factory e =
     run [out Fac_cs [''using System;'', endl],
          out Fac_cs [''using wise;'', endl],
          out Fac_cs [endl],
          out Fac_cs [endl],
          out Fac_cs [''namespace ''],
          out Fac_cs [''void add_'', get_filename (remove_file_extension (pr_path (ge_program e))), ''()'', endl],
          out Fac_cs [''{'', endl],
          inc_indent,
          dec_indent,
          out Fac_cs [''}'', endl]]"

(* [tool/bits/idl/generate/csharp_generator.cpp:20-30 csharp_generator::generate] *)
definition csharp_generate :: "gen_env \<Rightarrow> action" where
  "csharp_generate e =
     run [cs_nodes e,
          if pr_has_message (ge_program e) then cs_factory e else nothing]"

end
