(* ===== verification/Cplus_Fields.thy ===== *)
theory Cplus_Fields
  imports Idl_Generator Util_Split
begin

text \<open>
  The parts of the C++ generator that all kinds of definitions use (\<^verbatim>\<open>tool/bits/idl/generate/cplus_generator.cpp\<close>):
  expressions, fields, topics, the lines that pack and unpack fields, namespaces, and the frame of a file.
\<close>

section \<open>Expressions\<close>

(* [tool/bits/idl/generate/cplus_generator.cpp:2053-2074 cplus_generator::generate_operator] *)
fun generate_operator :: "idl_op \<Rightarrow> action" where
  "generate_operator Op_plus = out Os ['' + '']"
| "generate_operator Op_minus = out Os ['' - '']"
| "generate_operator Op_none = fail ''Invalid expression operator''"

text \<open>The type of the field is taken for a simple one without a check.\<close>

(* [tool/bits/idl/generate/cplus_generator.cpp:2076-2114 cplus_generator::generate_expression_value] *)
fun generate_expression_value :: "idl_field option \<Rightarrow> idl_value \<Rightarrow> action" where
  "generate_expression_value fd (V_const i) =
     run [out Os [show_int i],
          case fd of
            None \<Rightarrow> nothing
          | Some f \<Rightarrow> (case fd_type f of T_simple t \<Rightarrow> if t = TYPE_FLOAT then out Os [''.f''] else nothing | _ \<Rightarrow> crash ''static_cast'')]"
| "generate_expression_value fd (V_simple x) = out Os [x]"
| "generate_expression_value fd (V_full ns x) = out Os [full_typename_in ''c++'' ns x]"
| "generate_expression_value fd V_none = fail ''Invalid value type''"

(* [tool/bits/idl/generate/cplus_generator.cpp:2021-2051 cplus_generator::generate_expression] *)
fun generate_expression :: "idl_field option \<Rightarrow> idl_expr \<Rightarrow> action" where
  "generate_expression fd (Expr op v es) =
     run (ignore (generate_expression_value fd v) #
          map (\<lambda>ex. run [generate_operator (ex_op ex), generate_expression fd ex]) es)"

section \<open>Fields\<close>

(* [tool/bits/idl/generate/cplus_generator.cpp:1884-1910 cplus_generator::generate_field_simple_type] *)
definition generate_field_simple_type :: "idl_field \<Rightarrow> idl_simple \<Rightarrow> action" where
  "generate_field_simple_type f t =
     run [inc_indent,
          ind Os [simple_typename_in ''c++'' t],
          out Os ['' '', fd_name f],
          case fd_value f of
            None \<Rightarrow> nothing
          | Some fv \<Rightarrow>
              (case fv_default fv of None \<Rightarrow> nothing | Some ex \<Rightarrow> run [out Os ['' = ''], generate_expression (Some f) ex]),
          out Os ['';'', endl],
          dec_indent]"

(* [tool/bits/idl/generate/cplus_generator.cpp:1912-1928 cplus_generator::generate_field_full_type] *)
definition generate_field_full_type :: "idl_field \<Rightarrow> string list \<Rightarrow> string \<Rightarrow> action" where
  "generate_field_full_type f ns x =
     run [inc_indent, ind Os [full_typename_in ''c++'' ns x], out Os ['' '', fd_name f], out Os ['';'', endl], dec_indent]"

text \<open>The name of an element type: the C++ name of a simple type, the compiler's own name of any other.\<close>

definition elem_name :: "idl_type \<Rightarrow> string" where
  "elem_name t = (case t of T_simple s \<Rightarrow> simple_typename_in ''c++'' s | _ \<Rightarrow> idl_name t)"

(* [tool/bits/idl/generate/cplus_generator.cpp:1930-1958 cplus_generator::generate_field_vec] *)
definition generate_field_vec :: "idl_field \<Rightarrow> idl_type \<Rightarrow> action" where
  "generate_field_vec f vt =
     run [inc_indent, ind Os [''std::vector<'', elem_name vt, ''> ''], out Os [fd_name f], out Os ['';'', endl], dec_indent]"

(* [tool/bits/idl/generate/cplus_generator.cpp:1960-2008 cplus_generator::generate_field_map] *)
definition generate_field_map :: "idl_field \<Rightarrow> idl_type \<Rightarrow> idl_type \<Rightarrow> action" where
  "generate_field_map f kt vt =
     run [inc_indent, ind Os [''std::map<''], out Os [elem_name kt], out Os ['', ''], out Os [elem_name vt], out Os [''> ''],
          out Os [fd_name f], out Os ['';'', endl], dec_indent]"

(* [tool/bits/idl/generate/cplus_generator.cpp:2010-2019 cplus_generator::generate_field_macro] *)
definition generate_field_macro :: "ostream \<Rightarrow> string \<Rightarrow> action" where
  "generate_field_macro st l = run [out st [l], out st [endl]]"

(* [tool/bits/idl/generate/cplus_generator.cpp:1841-1882 cplus_generator::generate_field] *)
definition generate_field :: "idl_field \<Rightarrow> action" where
  "generate_field f =
     (case fd_type f of
        T_simple t \<Rightarrow> generate_field_simple_type f t
      | T_full ns x \<Rightarrow> generate_field_full_type f ns x
      | T_vec vt n \<Rightarrow> generate_field_vec f vt
      | T_map kt vt \<Rightarrow> generate_field_map f kt vt
      | T_macro l \<Rightarrow> generate_field_macro Os l
      | T_topic _ \<Rightarrow> nothing
      | T_option _ \<Rightarrow> nothing)"

section \<open>Topics\<close>

(* [tool/bits/idl/generate/cplus_generator.cpp:1786-1839 cplus_generator::generate_topic] *)
definition generate_topic :: "string \<Rightarrow> action" where
  "generate_topic ident =
     (case split ident ''.'' 0 of
        Some [cat, grp, typ] \<Rightarrow>
          run [inc_indent,
               ind Os [''static const wise::kernel::topic& get_topic() '', endl],
               ind Os [''{'', endl],
               inc_indent,
               ind Os [''static wise::kernel::topic topic_( '', endl],
               inc_indent,
               ind Os [''static_cast<wise::kernel::topic::category_t>('', cat, ''::'', grp, ''::category), '', endl],
               ind Os [''static_cast<wise::kernel::topic::group_t>('', cat, ''::'', grp, ''::group), '', endl],
               ind Os [''static_cast<wise::kernel::topic::type_t>('', cat, ''::'', grp, ''::'', typ, '')'', endl],
               dec_indent,
               ind Os ['');'', endl],
               out Os [endl],
               ind Os [''return topic_;'', endl],
               dec_indent,
               ind Os [''}'', endl],
               dec_indent]
      | Some _ \<Rightarrow> fail ''topic is invalid''
      | None \<Rightarrow> crash ''split'')"

section \<open>Packing and unpacking\<close>

text \<open>The line for one field; \<open>pk\<close> is the word \<^verbatim>\<open>pack\<close> or \<^verbatim>\<open>unpack\<close>, \<open>pre\<close> what is before the name. The loop is
  written out in the pack and the unpack function of structures, messages and queries.\<close>

(* [tool/bits/idl/generate/cplus_generator.cpp:636-659 cplus_generator::generate_message_pack] *)
definition serialize_field :: "gen_env \<Rightarrow> ostream \<Rightarrow> string \<Rightarrow> string \<Rightarrow> idl_field \<Rightarrow> action" where
  "serialize_field e st pk pre f =
     (if is_serializable_field f then
        (if is_enum e f then ind st [''packer.'', pk, ''_enum('', pre, fd_name f, '');'', endl]
         else ind st [''packer.'', pk, ''('', pre, fd_name f, '');'', endl])
      else (case fd_type f of T_macro l \<Rightarrow> ignore (generate_field_macro st l) | _ \<Rightarrow> nothing))"

section \<open>The frame of a file\<close>

(* [tool/bits/idl/generate/cplus_generator.cpp:2116-2136 cplus_generator::generate_prolog] *)
definition generate_prolog :: "gen_env \<Rightarrow> action" where
  "generate_prolog e =
     run ([out Os [''#pragma once'', endl],
           out Os [''#include <wise.kernel/net/protocol/bits/bits_packet.hpp>'', endl],
           out Os [''#include <wise.kernel/net/protocol/bits/bits_packer.hpp>'', endl],
           out Os [endl]] @
          (if pr_has_tx (ge_program e) then [out Os [''#include <wise.kernel/service/db/tx.hpp>'', endl], out Os [endl]] else []) @
          [out Os [''#include <stdint.h>'', endl],
           out Os [''#include <map>'', endl],
           out Os [''#include <string>'', endl],
           out Os [''#include <vector>'', endl],
           out Os [endl]])"

(* [tool/bits/idl/generate/cplus_generator.cpp:2138-2144 cplus_generator::generate_hx_prolog] *)
definition generate_hx_prolog :: action where
  "generate_hx_prolog = run [out Os [''#include <wise.kernel/server/service/hx.hpp>'', endl], out Os [endl]]"

(* [tool/bits/idl/generate/cplus_generator.cpp:2146-2167 cplus_generator::generate_namespace_begin] *)
definition generate_namespace_begin :: "gen_env \<Rightarrow> ostream \<Rightarrow> action" where
  "generate_namespace_begin e st =
     (case program_namespace (ge_program e) of
        Some lst \<Rightarrow> run (map (\<lambda>n. out st [''namespace '', n, '' {'', endl]) lst)
      | None \<Rightarrow> run [out st [''namespace wise'', endl], out st [''{'', endl]])"

(* [tool/bits/idl/generate/cplus_generator.cpp:2169-2191 cplus_generator::generate_namespace_end] *)
definition generate_namespace_end :: "gen_env \<Rightarrow> ostream \<Rightarrow> action" where
  "generate_namespace_end e st =
     run (out st [endl] #
          (case program_namespace (ge_program e) of
             Some lst \<Rightarrow> map (\<lambda>n. out st [''} // '', n, endl]) lst
           | None \<Rightarrow> [out st [''} // wise'', endl]]))"

(* [tool/bits/idl/generate/cplus_generator.cpp:2193-2198 cplus_generator::generate_epilog] *)
definition generate_epilog :: action where
  "generate_epilog = out Os [endl]"

(* [tool/bits/idl/generate/cplus_generator.cpp:2200-2214 cplus_generator::generate_cpp_prolog] *)
definition generate_cpp_prolog :: "gen_env \<Rightarrow> action" where
  "generate_cpp_prolog e =
     run [out Os_cpp [''#include \"pch.hpp\"'', endl],
          out Os_cpp [''#include \"'', ge_replace_extension e (pr_path (ge_program e)) ''.hpp'', ''\"'', endl],
          out Os_cpp [''#include <wise.kernel/core/logger.hpp>'', endl],
          out Os_cpp [endl],
          generate_namespace_begin e Os_cpp]"

(* [tool/bits/idl/generate/cplus_generator.cpp:2216-2219 cplus_generator::generate_cpp_epilog] *)
definition generate_cpp_epilog :: "gen_env \<Rightarrow> action" where
  "generate_cpp_epilog e = generate_namespace_end e Os_cpp"

end
