(* ===== verification/Cplus_Tx.thy ===== *)
theory Cplus_Tx
  imports Cplus_Fields
begin

text \<open>
  The generator for database transactions (\<^verbatim>\<open>tool/bits/idl/generate/cplus_generator.cpp\<close>, \<^verbatim>\<open>generate_tx*\<close>): a class
  declaration in the header, the code that binds, executes, fetches and serializes in the source file, and the
  head of the stored procedure in the SQL file. Positions of bound parameters are counted in the generator's context.
\<close>

section \<open>Declarations\<close>

(* [tool/bits/idl/generate/cplus_generator.cpp:898-910 cplus_generator::generate_tx_topic] *)
definition generate_tx_topic :: "idl_tx \<Rightarrow> action" where
  "generate_tx_topic t = (case tx_topic_id t of None \<Rightarrow> fail ''Topic is null'' | Some ident \<Rightarrow> generate_topic ident)"

(* [tool/bits/idl/generate/cplus_generator.cpp:912-957 cplus_generator::generate_tx_bind_decl] *)
definition generate_tx_bind_decl :: "tx_bind \<Rightarrow> action" where
  "generate_tx_bind_decl b =
     run ([out Os [endl],
           ind Os [''public: // bind structure'', endl],
           inc_indent,
           ind Os [''struct bind_t'', endl],
           ind Os [''{'', endl],
           if tb_return b \<noteq> [] then ind Os [CHR 0x09 # ''int32_t '', tb_return b, '';'', endl] else nothing] @
          map generate_field (tb_fields b) @
          [out Os [endl],
           inc_indent,
           ind Os [''bool pack(wise::kernel::bits_packer& packer); '', endl],
           ind Os [''bool unpack(wise::kernel::bits_packer& packer); '', endl],
           dec_indent,
           ind Os [''} bind;'', endl],
           dec_indent])"

(* [tool/bits/idl/generate/cplus_generator.cpp:959-1006 cplus_generator::generate_tx_result_set_decl] *)
definition generate_tx_result_set_decl :: "nat \<Rightarrow> tx_result_set \<Rightarrow> action" where
  "generate_tx_result_set_decl i rs =
     run ([out Os [endl],
           inc_indent,
           ind Os [''struct rs_'', digits (i + 1), ''_t'', endl],
           ind Os [''{'', endl]] @
          map generate_field (rs_fields rs) @
          [out Os [endl],
           inc_indent,
           ind Os [''bool pack(wise::kernel::bits_packer& packer); '', endl],
           ind Os [''bool unpack(wise::kernel::bits_packer& packer); '', endl],
           dec_indent,
           ind Os [''};'', endl],
           if rs_single rs then ind Os [''rs_'', digits (i + 1), ''_t rs_'', digits (i + 1), '';'', endl]
           else ind Os [''std::vector<rs_'', digits (i + 1), ''_t> rs_'', digits (i + 1), '';'', endl],
           dec_indent])"

(* [tool/bits/idl/generate/cplus_generator.cpp:1008-1027 cplus_generator::generate_tx_serialize_decl] *)
definition generate_tx_serialize_decl :: action where
  "generate_tx_serialize_decl =
     run [out Os [endl],
          ind Os [''public: // tx serialization'', endl],
          inc_indent,
          ind Os [''bool pack(wise::kernel::bits_packer& packer) override;'', endl],
          ind Os [''bool unpack(wise::kernel::bits_packer& packer) override;'', endl],
          dec_indent]"

definition query_marks :: "nat \<Rightarrow> string" where
  "query_marks n = concat (map (\<lambda>i. if i = 0 then ''?'' else '', ?'') [0..<n])"

definition query_line :: "string \<Rightarrow> tx_bind \<Rightarrow> action" where
  "query_line nqs b =
     run [inc_indent,
          ind Os [''static constexpr wchar_t* query = L\"{ '', if tb_return b \<noteq> [] then ''? = '' else [],
                  ''CALL '', nqs, ''('', query_marks (length (tb_fields b)), '')'', '' }\";'', endl],
          dec_indent]"

text \<open>The query, without the brackets it has in the source, with one mark for each field of the bind block.\<close>

(* [tool/bits/idl/generate/cplus_generator.cpp:1029-1078 cplus_generator::generate_tx_query_string] *)
definition generate_tx_query_string :: "idl_tx \<Rightarrow> action" where
  "generate_tx_query_string t =
     (case tx_query t of
        None \<Rightarrow> fail ''Tx query string is null''
      | Some qs \<Rightarrow>
          if length qs < 3 then fail ''query string is too short''
          else let nqs = take (length qs - 2) (drop 1 qs)
               in run [\<lambda>g. (Done, g\<lparr>g_query := nqs\<rparr>),
                       case tx_bind_of t of
                         None \<Rightarrow> fail ''Bind is not defined''
                       | Some b \<Rightarrow> query_line nqs b])"

(* [tool/bits/idl/generate/cplus_generator.cpp:805-896 cplus_generator::generate_tx_decl] *)
definition generate_tx_decl :: "string \<Rightarrow> idl_tx \<Rightarrow> action" where
  "generate_tx_decl name t =
     run ([out Os [endl],
           ind Os [''class '', name, '' : public wise::kernel::tx'', endl],
           ind Os [''{'', endl],
           out Os [''public: // query, topic, constructor'', endl],
           generate_tx_query_string t,
           out Os [endl],
           fail_as ''Failed to generate topic'' (generate_tx_topic t),
           out Os [endl],
           inc_indent,
           ind Os [name, ''()'', endl],
           ind Os ['': wise::kernel::tx(get_topic())'', endl],
           ind Os [''{'', endl],
           ind Os [CHR 0x09 # ''query_ = query;'', endl],
           ind Os [''}'', endl],
           out Os [endl],
           ind Os [''result execute_query(dbc::statement::ptr stmt) override;'', endl],
           dec_indent,
           case tx_bind_of t of None \<Rightarrow> fail ''bind is missing in tx defintion'' | Some b \<Rightarrow> generate_tx_bind_decl b,
           case tx_result t of
             None \<Rightarrow> nothing
           | Some sets \<Rightarrow>
               run ([out Os [endl], ind Os [''public: // result set structure '', endl]] @
                    map (\<lambda>(i, rs). generate_tx_result_set_decl i rs) (enumerate 0 sets)),
           generate_tx_serialize_decl,
           out Os [endl],
           out Os [''public: WISE_MESSAGE_DESC( '', name, '' )'', endl],
           ind Os [''};'', endl]])"

section \<open>Binding\<close>

definition with_seq :: "(nat \<Rightarrow> action) \<Rightarrow> action" where
  "with_seq f g = f (g_bind_seq g) g"

definition next_seq :: action where
  "next_seq g = (Done, g\<lparr>g_bind_seq := g_bind_seq g + 1\<rparr>)"

definition sql_comma :: action where
  "sql_comma = with_seq (\<lambda>n. if n > 0 then out Os_sql ['', ''] else nothing)"

definition is_string_type :: "idl_simple \<Rightarrow> bool" where
  "is_string_type t = (t = TYPE_STRING \<or> t = TYPE_USTRING)"

definition bind_postfix :: "idl_simple \<Rightarrow> string" where
  "bind_postfix t = (if t = TYPE_BOOL then ''_bool'' else if t = TYPE_I8 then ''_int8'' else if t = TYPE_U8 then ''_uint8'' else [])"

definition bind_prefix :: "idl_simple \<Rightarrow> string" where
  "bind_prefix t = (if t = TYPE_BOOL \<or> t = TYPE_I8 \<or> t = TYPE_U8 then [] else ''&'')"

text \<open>The call that binds one value by its position.\<close>

definition bind_call :: "string \<Rightarrow> string \<Rightarrow> string \<Rightarrow> string \<Rightarrow> action" where
  "bind_call postfix prefix var mode =
     with_seq (\<lambda>n. ind Os_cpp [''stmt->bind'', postfix, ''( '', digits n, '', '', prefix, ''bind.'', var, mode, '' );'', endl])"

definition bind_strings_call :: "string \<Rightarrow> action" where
  "bind_strings_call var =
     with_seq (\<lambda>n. ind Os_cpp [''stmt->bind_strings( '', digits n, '', '', ''bind.'', var, ''.c_str(), '',
                              ''bind.'', var, ''.length(), 1 );'', endl])"

(* [tool/bits/idl/generate/cplus_generator.cpp:1193-1271 cplus_generator::generate_tx_execute_bind_simple] *)
definition generate_tx_execute_bind_simple :: "idl_field \<Rightarrow> idl_simple \<Rightarrow> action" where
  "generate_tx_execute_bind_simple f t =
     run [if (case fd_value f of Some fv \<Rightarrow> fv_output fv | None \<Rightarrow> False) then
            (if is_string_type t then fail ''Tx string does not support PARAM_OUT binding''
             else run [sql_comma,
                       out Os_sql [''@'', fd_name f, '' '', simple_typename_in ''sql'' t, '' OUT'', endl],
                       bind_call (bind_postfix t) (bind_prefix t) (fd_name f) '', dbc::statement::PARAM_OUT''])
          else run [sql_comma,
                    out Os_sql [''@'', fd_name f, '' '', simple_typename_in ''sql'' t, endl],
                    if is_string_type t then bind_strings_call (fd_name f)
                    else bind_call (bind_postfix t) (bind_prefix t) (fd_name f) []],
          next_seq]"

definition bind_struct_field :: "string \<Rightarrow> idl_field \<Rightarrow> action" where
  "bind_struct_field var f2 =
     (case fd_type f2 of
        T_simple t \<Rightarrow>
          run [sql_comma,
               out Os_sql [''@'', var, ''.'', fd_name f2, '' '', simple_typename_in ''sql'' t, endl],
               if is_string_type t then bind_strings_call (var @ ''.'' @ fd_name f2)
               else bind_call [] ''&'' (var @ ''.'' @ fd_name f2) [],
               next_seq]
      | _ \<Rightarrow> fail ''Tx bind struct supports only simple types'')"

text \<open>A structure is found by its name, or by the name of the namespace node, two colons and its name; a program
  without a namespace has no such node. The node of the symbol is followed without asking whether it still lives.\<close>

(* [tool/bits/idl/generate/cplus_generator.cpp:1349-1437 cplus_generator::generate_tx_execute_bind_full] *)
definition generate_tx_execute_bind_full :: "gen_env \<Rightarrow> idl_field \<Rightarrow> action" where
  "generate_tx_execute_bind_full e f =
     (if (case fd_value f of Some fv \<Rightarrow> fv_output fv | None \<Rightarrow> False) then fail ''Tx bind for struct used for INPUT only!''
      else let name = idl_name (fd_type f);
               bind = (\<lambda>rc. case rc of
                    None \<Rightarrow> fail ''Tx failed to find a struct name''
                  | Some s \<Rightarrow>
                      if sym_type s \<noteq> Sym_struct then fail ''Tx bind only supports struct type''
                      else (case ge_heap e (sym_node s) of
                              Some (N_struct _ flds) \<Rightarrow> run (map (bind_struct_field (fd_name f)) flds)
                            | _ \<Rightarrow> crash ''freed node''))
           in case symbol_lookup name (ge_symbols e) of
                Some s \<Rightarrow> bind (Some s)
              | None \<Rightarrow>
                  (case program_namespace (ge_program e) of
                     None \<Rightarrow> crash ''null namespace''
                   | Some ns \<Rightarrow> bind (symbol_lookup_in (node_name (N_namespace ns)) name (ge_symbols e))))"

definition indexed :: "idl_field \<Rightarrow> idl_type \<Rightarrow> nat \<Rightarrow> idl_field" where
  "indexed f t i = \<lparr>fd_type = t, fd_name = fd_name f @ ''['' @ digits i @ '']'', fd_value = None\<rparr>"

(* [tool/bits/idl/generate/cplus_generator.cpp:1273-1347 cplus_generator::generate_tx_execute_bind_vec] *)
definition generate_tx_execute_bind_vec :: "gen_env \<Rightarrow> idl_field \<Rightarrow> idl_type \<Rightarrow> int \<Rightarrow> action" where
  "generate_tx_execute_bind_vec e f vft n =
     run [out Os_cpp [endl],
          ind Os_cpp [''if ( '', ''bind.'', fd_name f, ''.size() < '', show_int n, '')'', endl],
          ind Os_cpp [''{'', endl],
          (\<lambda>g. ind Os_cpp [CHR 0x09 # ''WISE_ERROR( \"tx invalid vector size. tx : '', g_tx_name g,
                '', name: '', fd_name f, '', count: '', show_int n, ''\" );'', endl] g),
          ind Os_cpp [CHR 0x09 # ''return result::fail_invalid_vector_size;'', endl],
          ind Os_cpp [''}'', endl],
          case vft of
            T_simple t \<Rightarrow> run (map (\<lambda>i. ignore (generate_tx_execute_bind_simple (indexed f vft i) t)) [0..<nat n])
          | T_full _ _ \<Rightarrow> run (map (\<lambda>i. generate_tx_execute_bind_full e (indexed f vft i)) [0..<nat n])
          | T_option _ \<Rightarrow> nothing
          | _ \<Rightarrow> fail ''Tx unsupported bind type in vector'']"

definition bind_field :: "gen_env \<Rightarrow> idl_field \<Rightarrow> action" where
  "bind_field e f =
     (case fd_type f of
        T_simple t \<Rightarrow> generate_tx_execute_bind_simple f t
      | T_vec vt n \<Rightarrow> generate_tx_execute_bind_vec e f vt n
      | T_full _ _ \<Rightarrow> generate_tx_execute_bind_full e f
      | T_macro l \<Rightarrow> ignore (generate_field_macro Os_cpp l)
      | T_map _ _ \<Rightarrow> fail ''Tx unsupported bind type''
      | T_topic _ \<Rightarrow> fail ''Tx unsupported bind type''
      | T_option _ \<Rightarrow> nothing)"

(* [tool/bits/idl/generate/cplus_generator.cpp:1112-1191 cplus_generator::generate_tx_execute_bind] *)
definition generate_tx_execute_bind :: "gen_env \<Rightarrow> string \<Rightarrow> idl_tx \<Rightarrow> action" where
  "generate_tx_execute_bind e name t =
     (case tx_bind_of t of
        None \<Rightarrow> fail ''bind is null in tx''
      | Some b \<Rightarrow>
          run ([\<lambda>g. (Done, g\<lparr>g_bind_seq := 0, g_tx_name := name\<rparr>),
                \<lambda>g. out Os_sql [''CREATE PROCEDURE '', g_query g, endl] g,
                if tb_return b \<noteq> [] then run [bind_call [] ''&'' (tb_return b) '', dbc::statement::PARAM_OUT'', next_seq]
                else nothing] @
               map (bind_field e) (tb_fields b) @
               [out Os_sql [''AS '', endl],
                out Os_sql [''BEGIN'', endl]]))"

section \<open>Fetching\<close>

definition result_field_ok :: "idl_field \<Rightarrow> bool" where
  "result_field_ok f = (case fd_type f of T_simple _ \<Rightarrow> True | T_macro _ \<Rightarrow> True | _ \<Rightarrow> False)"

text \<open>The lines for the columns of a result set; the position counts the columns, not the macro lines.\<close>

fun fetch_fields :: "(nat \<Rightarrow> idl_field \<Rightarrow> idl_simple \<Rightarrow> string list) \<Rightarrow> string \<Rightarrow> nat \<Rightarrow> idl_field list \<Rightarrow> action list" where
  "fetch_fields get rs_name n [] = []"
| "fetch_fields get rs_name n (f # fs) =
     (case fd_type f of
        T_macro l \<Rightarrow> ignore (generate_field_macro Os_cpp l) # fetch_fields get rs_name n fs
      | T_simple t \<Rightarrow>
          run [out Os_sql [rs_name, ''.'', fd_name f, '' '', simple_typename_in ''sql'' t, endl], ind Os_cpp (get n f t)] #
          fetch_fields get rs_name (n + 1) fs
      | _ \<Rightarrow> crash ''static_cast'' # fetch_fields get rs_name (n + 1) fs)"

definition generate_result_set :: "nat \<Rightarrow> tx_result_set \<Rightarrow> action" where
  "generate_result_set i rs =
     (let rs_name = ''rs_'' @ digits (i + 1)
      in run ([ind Os_cpp [''// rs '', digits (i + 1), endl],
               ind Os_cpp [''{'', endl],
               inc_indent,
               ind Os_cpp [''auto& rs = stmt->next_result();'', endl],
               out Os_cpp [endl],
               if rs_single rs then ind Os_cpp [''if ( rs.next() )'', endl] else ind Os_cpp [''while ( rs.next() )'', endl],
               ind Os_cpp [''{'', endl],
               inc_indent,
               if list_all result_field_ok (rs_fields rs) then nothing
               else fail ''Tx result set should have simple types or macro only''] @
              (if rs_single rs then
                 out Os_sql [''-- '', rs_name, '' single row result set'', endl] #
                 fetch_fields (\<lambda>n f t. [''rs.get_ref( '', digits n, '', '', rs_name, ''.'', fd_name f, '' );'', endl]) rs_name 0 (rs_fields rs)
               else
                 [ind Os_cpp [rs_name, ''_t rset;'', endl],
                  out Os_sql [''-- '', rs_name, '' multiple row result set'', endl]] @
                 fetch_fields (\<lambda>n f t. [''rset.'', fd_name f, '' = rs.get<'', simple_typename_in ''c++'' t, ''>'', ''( '', digits n, '' );'', endl])
                   rs_name 0 (rs_fields rs) @
                 [ind Os_cpp [rs_name, ''.push_back(rset);'', endl]]) @
              [dec_indent,
               ind Os_cpp [''}'', endl],
               dec_indent,
               ind Os_cpp [''}'', endl]]))"

(* [tool/bits/idl/generate/cplus_generator.cpp:1439-1569 cplus_generator::generate_tx_execute_result] *)
definition generate_tx_execute_result :: "string \<Rightarrow> idl_tx \<Rightarrow> action" where
  "generate_tx_execute_result name t =
     (case tx_result t of
        None \<Rightarrow> nothing
      | Some rss \<Rightarrow>
          run (map (\<lambda>(i, rs). generate_result_set i rs) (enumerate 0 rss) @
               [out Os_sql [''END -- tx '', name, endl],
                out Os_sql [endl, endl]]))"

(* [tool/bits/idl/generate/cplus_generator.cpp:1080-1110 cplus_generator::generate_tx_execute] *)
definition generate_tx_execute :: "gen_env \<Rightarrow> string \<Rightarrow> idl_tx \<Rightarrow> action" where
  "generate_tx_execute e name t =
     run [out Os_cpp [endl],
          ind Os_cpp [''wise::kernel::tx::result '', name, ''::execute_query(dbc::statement::ptr stmt)'', endl],
          ind Os_cpp [''{'', endl],
          inc_indent,
          generate_tx_execute_bind e name t,
          out Os_cpp [endl],
          ind Os_cpp [''stmt->execute();'', endl],
          out Os_cpp [endl],
          generate_tx_execute_result name t,
          out Os_cpp [endl],
          ind Os_cpp [''return result::success;'', endl],
          dec_indent,
          ind Os_cpp [''}'', endl]]"

section \<open>Serializing\<close>

definition pack_result_set :: "nat \<Rightarrow> tx_result_set \<Rightarrow> action" where
  "pack_result_set i rs =
     (let r = ''rs_'' @ digits (i + 1)
      in if rs_single rs then ind Os_cpp [r, ''.pack(packer);'', endl]
         else run [ind Os_cpp [''uint16_t len = '', r, ''.size();'', endl],
                   ind Os_cpp [''packer.pack(len);'', endl],
                   ind Os_cpp [''for ( auto& rs : '', r, '') '', endl],
                   ind Os_cpp [''{'', endl],
                   inc_indent,
                   ind Os_cpp [r, ''.pack(packer); '', endl],
                   dec_indent,
                   ind Os_cpp [''}'', endl]])"

definition unpack_result_set :: "nat \<Rightarrow> tx_result_set \<Rightarrow> action" where
  "unpack_result_set i rs =
     (let r = ''rs_'' @ digits (i + 1)
      in if rs_single rs then ind Os_cpp [r, ''.unpack(packer);'', endl]
         else run [ind Os_cpp [''uint16_t len = 0'', endl],
                   ind Os_cpp [''packer.unpack(len);'', endl],
                   ind Os_cpp [''for ( uint16_t i=0; i < len; ++i) '', endl],
                   ind Os_cpp [''{'', endl],
                   inc_indent,
                   ind Os_cpp [r, ''_t rs; '', endl],
                   ind Os_cpp [''rs.unpack(packer);'', endl],
                   ind Os_cpp [r, ''.push_back(rs);'', endl],
                   dec_indent,
                   ind Os_cpp [''}'', endl]])"

definition tx_serializer :: "string \<Rightarrow> string \<Rightarrow> (nat \<Rightarrow> tx_result_set \<Rightarrow> action) \<Rightarrow> idl_tx \<Rightarrow> action list" where
  "tx_serializer name pk one t =
     [ind Os_cpp [''bool '', name, ''::'', pk, ''(wise::kernel::bits_packer& packer)'', endl],
      ind Os_cpp [''{'', endl],
      inc_indent,
      ind Os_cpp [''wise::kernel::tx::'', pk, ''(packer);'', endl],
      ind Os_cpp [''bind.'', pk, ''(packer);'', endl],
      case tx_result t of
        None \<Rightarrow> nothing
      | Some sets \<Rightarrow> run (ind Os_cpp [''// result sets: '', endl] # map (\<lambda>(i, rs). one i rs) (enumerate 0 sets)),
      ind Os_cpp [''return packer.is_valid();'', endl],
      dec_indent]"

(* [tool/bits/idl/generate/cplus_generator.cpp:1571-1688 cplus_generator::generate_tx_serialize_impl] *)
definition generate_tx_serialize_impl :: "string \<Rightarrow> idl_tx \<Rightarrow> action" where
  "generate_tx_serialize_impl name t =
     run ([out Os_cpp [endl]] @
          tx_serializer name ''pack'' pack_result_set t @
          [ind Os_cpp [''}''],
           out Os_cpp [endl],
           out Os_cpp [endl]] @
          tx_serializer name ''unpack'' unpack_result_set t @
          [ind Os_cpp [''}'', endl]])"

definition field_serializer :: "gen_env \<Rightarrow> string \<Rightarrow> string \<Rightarrow> idl_field list \<Rightarrow> string \<Rightarrow> action list" where
  "field_serializer e pk cls flds ret =
     [ind Os_cpp [''bool '', cls, ''::'', pk, ''(wise::kernel::bits_packer& packer)'', endl],
      ind Os_cpp [''{'', endl],
      inc_indent,
      if ret \<noteq> [] then ind Os_cpp [''packer.'', pk, ''('', ret, '');'', endl] else nothing] @
     map (serialize_field e Os_cpp pk []) flds @
     [ind Os_cpp [''return packer.is_valid();'', endl],
      dec_indent,
      ind Os_cpp [''}'', endl]]"

(* [tool/bits/idl/generate/cplus_generator.cpp:1690-1783 cplus_generator::generate_tx_field_serialize] *)
definition generate_tx_field_serialize :: "gen_env \<Rightarrow> string \<Rightarrow> idl_field list \<Rightarrow> string \<Rightarrow> action" where
  "generate_tx_field_serialize e cls flds ret =
     run (field_serializer e ''pack'' cls flds ret @ [out Os_cpp [endl]] @ field_serializer e ''unpack'' cls flds ret)"

(* [tool/bits/idl/generate/cplus_generator.cpp:741-803 cplus_generator::generate_tx_impl] *)
definition generate_tx_impl :: "gen_env \<Rightarrow> string \<Rightarrow> idl_tx \<Rightarrow> action" where
  "generate_tx_impl e name t =
     run [reset_indent,
          out Os_sql [''-- tx '', name, endl],
          generate_tx_execute e name t,
          generate_tx_serialize_impl name t,
          out Os_cpp [endl],
          case tx_bind_of t of
            None \<Rightarrow> fail ''bind is missing in tx defintion''
          | Some b \<Rightarrow> generate_tx_field_serialize e (name @ ''::bind_t'') (tb_fields b) (tb_return b),
          out Os_cpp [endl],
          case tx_result t of
            None \<Rightarrow> nothing
          | Some sets \<Rightarrow>
              run (out Os [endl] #
                   map (\<lambda>(i, rs). ignore (generate_tx_field_serialize e (name @ ''::'' @ ''rs_'' @ digits (i + 1) @ ''_t'') (rs_fields rs) []))
                     (enumerate 0 sets))]"

(* [tool/bits/idl/generate/cplus_generator.cpp:730-739 cplus_generator::generate_tx] *)
definition generate_tx :: "gen_env \<Rightarrow> string \<Rightarrow> idl_tx \<Rightarrow> action" where
  "generate_tx e name t = run [generate_tx_decl name t, generate_tx_impl e name t]"

end
