(* ===== verification/Cplus_Generator.thy ===== *)
theory Cplus_Generator
  imports Cplus_Tx
begin

text \<open>
  The C++ generator (\<^verbatim>\<open>tool/bits/idl/generate/cplus_generator.cpp\<close>): enumerations, structures and messages, the
  header file of a program, and the factory file that registers its messages.
\<close>

section \<open>Enumerations and structures\<close>

(* [tool/bits/idl/generate/cplus_generator.cpp:273-290 cplus_generator::generate_include] *)
definition generate_include :: "string list \<Rightarrow> action" where
  "generate_include ps =
     (let path = path_string ps
      in out Os [''#include \"'', take (usub (length path) 5) path @ ''.hpp'', ''\"'', endl])"

(* [tool/bits/idl/generate/cplus_generator.cpp:292-327 cplus_generator::generate_enum] *)
definition generate_enum :: "string \<Rightarrow> (string \<times> idl_expr option) list \<Rightarrow> action" where
  "generate_enum name vals =
     run ([out Os [endl],
           out Os [''enum class '', name, endl],
           out Os [''{'', endl],
           inc_indent] @
          map (\<lambda>(v, dv). run [ind Os [v],
                              case dv of None \<Rightarrow> nothing | Some ex \<Rightarrow> run [out Os ['' = ''], ignore (generate_expression None ex)],
                              out Os ['','', endl]]) vals @
          [dec_indent,
           out Os [''};'', endl],
           out Os [endl]])"

(* [tool/bits/idl/generate/cplus_generator.cpp:329-351 cplus_generator::generate_struct] *)
definition generate_struct :: "string \<Rightarrow> idl_field list \<Rightarrow> action" where
  "generate_struct name flds =
     run ([out Os [endl],
           out Os [''struct '', name, endl],
           out Os [''{'', endl]] @
          map generate_field flds @
          [out Os [''};'', endl],
           out Os [endl]])"

(* [tool/bits/idl/generate/cplus_generator.cpp:385-431 cplus_generator::generate_struct_pack] *)
definition generate_struct_pack :: "gen_env \<Rightarrow> string \<Rightarrow> idl_field list \<Rightarrow> action" where
  "generate_struct_pack e name flds =
     run ([ind Os [''template<> inline bool pack(bits_packer& packer, ''],
           out Os [''const '', gen_namespace e, name, ''& tv) '', endl],
           ind Os [''{'', endl],
           inc_indent] @
          map (serialize_field e Os ''pack'' ''tv.'') flds @
          [ind Os [''return packer.is_valid();'', endl],
           dec_indent,
           ind Os [''}'', endl]])"

(* [tool/bits/idl/generate/cplus_generator.cpp:433-479 cplus_generator::generate_struct_unpack] *)
definition generate_struct_unpack :: "gen_env \<Rightarrow> string \<Rightarrow> idl_field list \<Rightarrow> action" where
  "generate_struct_unpack e name flds =
     run ([ind Os [''template<> inline bool unpack(bits_packer& packer, ''],
           out Os [gen_namespace e, name, ''& tv) '', endl],
           ind Os [''{'', endl],
           inc_indent] @
          map (serialize_field e Os ''unpack'' ''tv.'') flds @
          [ind Os [''return packer.is_valid();'', endl],
           dec_indent,
           ind Os [''}'', endl]])"

(* [tool/bits/idl/generate/cplus_generator.cpp:353-383 cplus_generator::generate_struct_serialize] *)
definition generate_struct_serialize :: "gen_env \<Rightarrow> string \<Rightarrow> idl_field list \<Rightarrow> action" where
  "generate_struct_serialize e name flds =
     run [out Os [endl],
          out Os [''// '', gen_namespace e, name, '' serialization begin { '', endl],
          generate_struct_pack e name flds,
          out Os [endl],
          generate_struct_unpack e name flds,
          out Os [''// } '', gen_namespace e, name, '' serialization end'', endl]]"

section \<open>Messages\<close>

(* [tool/bits/idl/generate/cplus_generator.cpp:594-615 cplus_generator::generate_message_topic] *)
definition generate_message_topic :: "idl_field list \<Rightarrow> action" where
  "generate_message_topic flds =
     (case first_topic flds of Some ident \<Rightarrow> generate_topic ident | None \<Rightarrow> fail ''Topic field not found'')"

(* [tool/bits/idl/generate/cplus_generator.cpp:617-672 cplus_generator::generate_message_pack] *)
definition generate_message_pack :: "gen_env \<Rightarrow> idl_field list \<Rightarrow> action" where
  "generate_message_pack e flds =
     run ([inc_indent,
           ind Os [''bool pack(::wise::kernel::bits_packer& packer) override'', endl],
           ind Os [''{'', endl],
           inc_indent,
           ind Os [''super::pack(packer);'', endl]] @
          map (serialize_field e Os ''pack'' []) flds @
          [ind Os [''return packer.is_valid();'', endl],
           dec_indent,
           ind Os [''}'', endl],
           dec_indent])"

(* [tool/bits/idl/generate/cplus_generator.cpp:674-728 cplus_generator::generate_message_unpack] *)
definition generate_message_unpack :: "gen_env \<Rightarrow> idl_field list \<Rightarrow> action" where
  "generate_message_unpack e flds =
     run ([inc_indent,
           ind Os [''bool unpack(::wise::kernel::bits_packer& packer) override'', endl],
           ind Os [''{'', endl],
           inc_indent,
           ind Os [''super::unpack(packer);'', endl]] @
          map (serialize_field e Os ''unpack'' []) flds @
          [ind Os [''return packer.is_valid();'', endl],
           dec_indent,
           ind Os [''}'', endl],
           dec_indent])"

definition super_name :: "(string list \<times> string) option \<Rightarrow> string" where
  "super_name sc = (case sc of Some (ns, x) \<Rightarrow> full_typename_in ''c++'' ns x | None \<Rightarrow> ''wise::kernel::bits_packet'')"

(* [tool/bits/idl/generate/cplus_generator.cpp:481-592 cplus_generator::generate_message] *)
definition generate_message :: "gen_env \<Rightarrow> string \<Rightarrow> (string list \<times> string) option \<Rightarrow> idl_field list \<Rightarrow> action" where
  "generate_message e name sc flds =
     run ([out Os [endl],
           ind Os [''class '', name, '' : public '', super_name sc, endl],
           ind Os [''{'', endl],
           ind Os [CHR 0x09 # ''using super = '', super_name sc, '';'', endl],
           ind Os [''public: // field variables '', endl]] @
          map generate_field flds @
          [out Os [endl],
           out Os [endl],
           ind Os [''public: // topic and constructor'', endl],
           fail_as ''Failed to generate topic'' (generate_message_topic flds),
           out Os [endl],
           inc_indent,
           ind Os [name, ''()'', endl],
           ind Os ['': '', super_name sc, ''(get_topic())'', endl],
           ind Os [''{'', endl],
           if is_set Enable_cipher flds then ind Os [CHR 0x09 # ''enable_cipher = true;'', endl] else nothing,
           if is_set Enable_checksum flds then ind Os [CHR 0x09 # ''enable_checksum = true;'', endl] else nothing,
           if is_set Enable_sequence flds then ind Os [CHR 0x09 # ''enable_sequence = true;'', endl] else nothing,
           ind Os [''}'', endl],
           dec_indent,
           out Os [endl],
           ind Os [''public: // serialize'', endl],
           generate_message_pack e flds,
           out Os [endl],
           generate_message_unpack e flds,
           out Os [endl],
           out Os [''public: WISE_MESSAGE_DESC( '', name, '' )'', endl],
           ind Os [''};'', endl],
           out Os [endl]])"

section \<open>Programs\<close>

fun generate_node :: "gen_env \<Rightarrow> idl_node \<Rightarrow> action" where
  "generate_node e (N_enum name vals) = generate_enum name vals"
| "generate_node e (N_struct name flds) = generate_struct name flds"
| "generate_node e (N_message name sc flds) = generate_message e name sc flds"
| "generate_node e (N_tx name t) = generate_tx e name t"
| "generate_node e (N_include ps) = nothing"
| "generate_node e (N_namespace ns) = nothing"

fun structs_in :: "idl_node list \<Rightarrow> (string \<times> idl_field list) list" where
  "structs_in [] = []"
| "structs_in (N_struct name flds # nodes) = (name, flds) # structs_in nodes"
| "structs_in (_ # nodes) = structs_in nodes"

(* [tool/bits/idl/generate/cplus_generator.cpp:33-185 cplus_generator::generate_nodes] *)
definition generate_nodes :: "gen_env \<Rightarrow> action" where
  "generate_nodes e =
     (let p = ge_program e; nodes = map snd (pr_nodes p)
      in run ([generate_prolog e,
               if pr_has_tx p then generate_cpp_prolog e else nothing,
               if pr_has_hx p then ignore generate_hx_prolog else nothing] @
              map generate_include (includes_in nodes) @
              [if includes_in nodes \<noteq> [] then out Os [endl] else nothing,
               generate_namespace_begin e Os] @
              map (generate_node e) nodes @
              [generate_namespace_end e Os,
               out Os [endl],
               reset_indent,
               if pr_has_struct p then
                 run ([out Os [''// struct serialization section'', endl],
                       out Os [''namespace wise { '', endl],
                       out Os [''namespace kernel { '', endl]] @
                      map (\<lambda>(name, flds). generate_struct_serialize e name flds) (structs_in nodes) @
                      [out Os [endl],
                       out Os [''} // kernel'', endl],
                       out Os [''} // wise'', endl]])
               else nothing,
               generate_epilog,
               if pr_has_tx p then generate_cpp_epilog e else nothing]))"

fun registered_in :: "idl_node list \<Rightarrow> string list" where
  "registered_in [] = []"
| "registered_in (N_message name _ _ # nodes) = name # registered_in nodes"
| "registered_in (N_tx name _ # nodes) = name # registered_in nodes"
| "registered_in (_ # nodes) = registered_in nodes"

(* [tool/bits/idl/generate/cplus_generator.cpp:187-271 cplus_generator::generate_factory] *)
definition generate_factory :: "gen_env \<Rightarrow> action" where
  "generate_factory e =
     (let path = pr_path (ge_program e); filename = get_filename (remove_file_extension path)
      in run ([out Fac_hpp [''#pragma once'', endl],
               out Fac_hpp [endl],
               out Fac_hpp [''void add_'', filename, ''();''],
               out Fac_cpp [''#include \"pch.hpp\"'', endl],
               out Fac_cpp [''#include <wise.kernel/net/protocol/bits/bits_factory.hpp>'', endl],
               out Fac_cpp [''#include <wise.kernel/core/mem_tracker.hpp>'', endl],
               out Fac_cpp [''#include \"'', ge_replace_extension e path ''.hpp'', ''\"''],
               out Fac_cpp [endl],
               out Fac_cpp [endl],
               out Fac_cpp [''#define WISE_ADD_BITS(cls) wise::kernel::bits_factory::inst().add( '',
                            ''cls::get_topic(), []() { return wise_shared<cls>(); '', ''} );''],
               out Fac_cpp [endl],
               out Fac_cpp [endl],
               out Fac_cpp [''void add_'', filename, ''()'', endl],
               out Fac_cpp [''{'', endl],
               inc_indent] @
              map (\<lambda>name. ind Fac_cpp [''WISE_ADD_BITS('', gen_namespace e, name, '');'', endl])
                (registered_in (map snd (pr_nodes (ge_program e)))) @
              [dec_indent,
               out Fac_cpp [''}'', endl]]))"

(* [tool/bits/idl/generate/cplus_generator.cpp:21-31 cplus_generator::generate] *)
definition cplus_generate :: "gen_env \<Rightarrow> action" where
  "cplus_generate e =
     run [generate_nodes e,
          if pr_has_message (ge_program e) \<or> pr_has_tx (ge_program e) then generate_factory e else nothing]"

end
