(* ===== verification/Idl_Braces.thy ===== *)
theory Idl_Braces
  imports Idl_Generator
begin

text \<open>
  Rules for what actions do to the indentation and to the braces of the generated text: an action \<open>moves\<close> the level
  from one value to another and adds a number of open braces to each stream, whenever it ends well.
\<close>

section \<open>Braces\<close>

definition brace :: "char \<Rightarrow> int" where
  "brace c = (if c = CHR ''{'' then 1 else if c = CHR ''}'' then - 1 else 0)"

definition balance :: "string \<Rightarrow> int" where
  "balance s = sum_list (map brace s)"

definition plain :: "string \<Rightarrow> bool" where
  "plain s = list_all (\<lambda>c. c \<noteq> CHR ''{'' \<and> c \<noteq> CHR ''}'') s"

lemma balance_simps [simp]:
  "balance [] = 0" "balance (c # s) = brace c + balance s" "balance (s @ t) = balance s + balance t"
  "balance (concat ss) = sum_list (map balance ss)"
  by (simp_all add: balance_def) (induction ss; simp add: balance_def)

lemma balance_plain [simp]: "plain s \<Longrightarrow> balance s = 0"
  by (induction s) (simp_all add: plain_def brace_def)

lemma plain_text_simps [simp]: "plain []" "plain (s @ t) \<longleftrightarrow> plain s \<and> plain t" "plain (concat ss) \<longleftrightarrow> list_all plain ss"
  by (simp_all add: plain_def) (induction ss; simp add: plain_def)

lemma plain_Cons: "plain (c # s) \<longleftrightarrow> brace c = 0 \<and> plain s"
  by (simp add: plain_def brace_def)

lemma brace_char_of: "n < 123 \<Longrightarrow> brace (char_of (n :: nat)) = 0"
proof -
  assume "n < 123"
  then have n: "of_char (char_of n :: char) = n" by simp
  have "n = 123" if "char_of n = CHR ''{''" using n [unfolded that] by simp
  moreover have "n = 125" if "char_of n = CHR ''}''" using n [unfolded that] by simp
  ultimately have "char_of n \<noteq> CHR ''{''" "char_of n \<noteq> CHR ''}''" using \<open>n < 123\<close> by auto
  then show ?thesis by (simp add: brace_def)
qed

lemma plain_digits [simp]: "plain (digits n)"
proof (induction n rule: digits.induct)
  case (1 n)
  then show ?case by (subst digits.simps) (simp add: plain_Cons brace_char_of)
qed

lemma plain_show_int [simp]: "plain (show_int i)"
  by (simp add: show_int_def plain_Cons brace_def)

lemma balance_endl [simp]: "balance endl = 0"
  by (simp add: endl_def brace_def)

section \<open>Moving\<close>

text \<open>The names the generator keeps for the transaction it is at are without braces too.\<close>

definition tidy :: "gen \<Rightarrow> bool" where
  "tidy g \<longleftrightarrow> plain (g_tx_name g) \<and> plain (g_query g)"

definition moves :: "nat \<Rightarrow> nat \<Rightarrow> (ostream \<Rightarrow> int) \<Rightarrow> action \<Rightarrow> bool" where
  "moves l l' d a \<longleftrightarrow> (\<forall>g g'. g_level g = l \<longrightarrow> tidy g \<longrightarrow> a g = (Done, g') \<longrightarrow>
     tidy g' \<and> g_level g' = l' \<and> (\<forall>st. balance (g_out g' st) = balance (g_out g st) + d st))"

definition opens :: "ostream \<Rightarrow> int \<Rightarrow> ostream \<Rightarrow> int" where
  "opens st n = (\<lambda>_. 0)(st := n)"

lemma opens_simps [simp]: "opens st n st' = (if st' = st then n else 0)"
  by (simp add: opens_def)

lemma movesI:
  "(\<And>g g'. g_level g = l \<Longrightarrow> tidy g \<Longrightarrow> a g = (Done, g') \<Longrightarrow>
     tidy g' \<and> g_level g' = l' \<and> (\<forall>st. balance (g_out g' st) = balance (g_out g st) + d st)) \<Longrightarrow> moves l l' d a"
  unfolding moves_def by blast

lemma movesD:
  assumes "moves l l' d a" "g_level g = l" "tidy g" "a g = (Done, g')"
  shows "tidy g'" "g_level g' = l'" "balance (g_out g' st) = balance (g_out g st) + d st"
  using assms unfolding moves_def by blast+

lemma moves_eq: "moves l l' d a \<Longrightarrow> (\<And>st. d st = d' st) \<Longrightarrow> moves l l' d' a"
  by (subgoal_tac "d = d'") auto

lemma put_simps [simp]: "g_level (put st s g) = g_level g" "tidy (put st s g) = tidy g"
  "balance (g_out (put st s g) st') = balance (g_out g st') + opens st (balance s) st'"
  by (simp_all add: put_def tidy_def)

lemma moves_out: "moves l l (opens st (sum_list (map balance ss))) (out st ss)"
  by (rule movesI) (auto simp: out_def)

lemma balance_tabs [simp]: "balance (replicate n CHR 0x09) = 0"
  by (induction n) (simp_all add: brace_def)

lemma moves_ind: "moves l l (opens st (sum_list (map balance ss))) (ind st ss)"
proof (rule movesI)
  fix g g'
  assume g: "g_level g = l" "ind st ss g = (Done, g')" "tidy g"
  have t: "sum_list (map balance (replicate n [CHR 0x09])) = 0" for n by (induction n) (simp_all add: brace_def)
  have "g' = put st (concat (replicate (g_level g) [CHR 0x09] @ ss)) g" using g(2) by (simp add: ind_def out_def)
  then show "tidy g' \<and> g_level g' = l \<and> (\<forall>st'. balance (g_out g' st') = balance (g_out g st') + opens st (sum_list (map balance ss)) st')"
    using g t by (simp del: map_replicate)
qed

lemma moves_level:
  "moves l (Suc l) (\<lambda>_. 0) inc_indent" "moves (Suc l) l (\<lambda>_. 0) dec_indent" "moves l 0 (\<lambda>_. 0) reset_indent"
  by (rule movesI; auto simp: inc_indent_def dec_indent_def reset_indent_def tidy_def)+

lemma moves_run_Nil: "moves l l (\<lambda>_. 0) (run [])"
  by (rule movesI) (simp add: nothing_def)

lemma run_append: "run (as @ bs) g = (case run as g of (Done, g1) \<Rightarrow> run bs g1 | r \<Rightarrow> r)"
  by (induction as arbitrary: g) (auto simp: nothing_def run_Cons split: prod.splits outcome.splits)

lemma moves_seq:
  assumes "moves l l1 d1 a" "moves l1 l2 d2 b" "\<And>g. c g = (case a g of (Done, g1) \<Rightarrow> b g1 | r \<Rightarrow> r)"
  shows "moves l l2 (\<lambda>st. d1 st + d2 st) c"
proof (rule movesI)
  fix g g'
  assume g: "g_level g = l" "tidy g" "c g = (Done, g')"
  obtain g1 where "a g = (Done, g1)" "b g1 = (Done, g')"
    using g(3) assms(3) [of g] by (cases "a g") (auto split: outcome.splits)
  then show "tidy g' \<and> g_level g' = l2 \<and> (\<forall>st. balance (g_out g' st) = balance (g_out g st) + (d1 st + d2 st))"
    using movesD [OF assms(1) g(1,2), of g1] movesD [OF assms(2), of g1 g'] by simp
qed

lemma moves_run_Cons: "moves l l1 d1 a \<Longrightarrow> moves l1 l2 d2 (run as) \<Longrightarrow> moves l l2 (\<lambda>st. d1 st + d2 st) (run (a # as))"
  by (erule (1) moves_seq) (rule run_Cons)

lemma moves_run_append: "moves l l1 d1 (run as) \<Longrightarrow> moves l1 l2 d2 (run bs) \<Longrightarrow> moves l l2 (\<lambda>st. d1 st + d2 st) (run (as @ bs))"
  by (erule (1) moves_seq) (rule run_append)

lemmas moves_intros = moves_run_Cons moves_run_append moves_run_Nil moves_out moves_ind moves_level

section \<open>Actions that leave all as it was\<close>

definition steady :: "action \<Rightarrow> bool" where
  "steady a \<longleftrightarrow> (\<forall>l. moves l l (\<lambda>_. 0) a)"

lemma steadyI: "(\<And>l. moves l l d a) \<Longrightarrow> (\<And>st. d st = 0) \<Longrightarrow> steady a"
  unfolding steady_def by (blast intro: moves_eq)

lemma moves_steady: "steady a \<Longrightarrow> moves l l (\<lambda>_. 0) a"
  by (simp add: steady_def)

lemma steady_run: "list_all steady as \<Longrightarrow> steady (run as)"
proof (induction as)
  case Nil
  show ?case by (rule steadyI [OF moves_run_Nil]) simp
next
  case (Cons a as)
  then have "steady a" "steady (run as)" by auto
  then show ?case by (intro steadyI [OF moves_run_Cons [OF moves_steady moves_steady]]) simp_all
qed

lemma moves_run_all: "list_all steady as \<Longrightarrow> moves l l (\<lambda>_. 0) (run as)"
  by (intro moves_steady steady_run)

lemma steady_out: "sum_list (map balance ss) = 0 \<Longrightarrow> steady (out st ss)" "sum_list (map balance ss) = 0 \<Longrightarrow> steady (ind st ss)"
  by (auto intro: steadyI [OF moves_out] steadyI [OF moves_ind])

lemma steady_ends: "steady nothing" "steady (fail m)" "steady (crash m)"
  by (auto simp: steady_def nothing_def fail_def crash_def intro!: movesI)

lemma steady_fail_as:
  assumes "steady a"
  shows "steady (fail_as m a)"
proof -
  have "a g = (Done, g')" if "fail_as m a g = (Done, g')" for g g'
    using that by (cases "a g") (auto simp: fail_as_def split: outcome.splits)
  then show ?thesis using moves_steady [OF assms] unfolding steady_def moves_def by blast
qed

section \<open>Actions that cannot fail, and actions that are even when they fail\<close>

definition sure :: "action \<Rightarrow> bool" where
  "sure a \<longleftrightarrow> (\<forall>g. fst (a g) = Done)"

lemma sure_simps [simp]: "sure (out st ss)" "sure (ind st ss)" "sure inc_indent" "sure dec_indent" "sure reset_indent" "sure nothing"
  by (simp_all add: sure_def out_def ind_def inc_indent_def dec_indent_def reset_indent_def nothing_def)

lemma sureD: "sure a \<Longrightarrow> \<exists>g'. a g = (Done, g')"
  unfolding sure_def by (metis prod.collapse)

lemma sure_run [simp]: "list_all sure as \<Longrightarrow> sure (run as)"
proof (induction as)
  case (Cons a as)
  have "fst (run (a # as) g) = Done" for g
    using Cons sureD [of a g] by (auto simp: sure_def run_Cons)
  then show ?case by (simp add: sure_def)
qed simp

lemma ignore_sure: "sure a \<Longrightarrow> ignore a = a"
proof
  fix g
  assume "sure a"
  then obtain g' where "a g = (Done, g')" using sureD by blast
  then show "ignore a g = a g" by (simp add: ignore_def)
qed

definition calm :: "action \<Rightarrow> bool" where
  "calm a \<longleftrightarrow> (\<forall>g. tidy (snd (a g)) = tidy g \<and> g_level (snd (a g)) = g_level g \<and> (\<forall>st. balance (g_out (snd (a g)) st) = balance (g_out g st)))"

lemma calm_steady: "calm a \<Longrightarrow> steady a"
  by (auto simp: calm_def steady_def intro!: movesI) (metis snd_conv)+

lemma calm_simps: "sum_list (map balance ss) = 0 \<Longrightarrow> calm (out st ss)" "calm nothing" "calm (fail m)" "calm (crash m)"
  by (auto simp: calm_def out_def nothing_def fail_def crash_def)

lemma calm_ind: "sum_list (map balance ss) = 0 \<Longrightarrow> calm (ind st ss)"
  by (simp add: calm_def ind_def out_def brace_def sum_list_replicate)

lemma calm_run: "list_all calm as \<Longrightarrow> calm (run as)"
proof (induction as)
  case (Cons a as)
  have "tidy (snd (run (a # as) g)) = tidy g \<and> g_level (snd (run (a # as) g)) = g_level g \<and> (\<forall>st. balance (g_out (snd (run (a # as) g)) st) = balance (g_out g st))" for g
    using Cons by (cases "a g") (auto simp: calm_def run_Cons split: outcome.splits; metis snd_conv)
  then show ?case by (simp add: calm_def)
qed (simp add: calm_simps)

lemma calm_ignore: "calm a \<Longrightarrow> calm (ignore a)"
  by (auto simp: calm_def ignore_def split: prod.splits outcome.splits; metis snd_conv)

end
