(* ===== verification/Cplus_Braces.thy ===== *)
theory Cplus_Braces
  imports Cplus_Generator Idl_Braces
begin

text \<open>
  The files the C++ generator writes: their braces balance and the indentation is back where it was, for every
  program whose names have no braces in them.
\<close>

section \<open>Names without braces\<close>

fun plain_value :: "idl_value \<Rightarrow> bool" where
  "plain_value (V_full ns x) = (list_all plain ns \<and> plain x)"
| "plain_value (V_simple x) = plain x"
| "plain_value _ = True"

fun plain_expr :: "idl_expr \<Rightarrow> bool" where
  "plain_expr (Expr op v es) = (plain_value v \<and> list_all plain_expr es)"

fun plain_type :: "idl_type \<Rightarrow> bool" where
  "plain_type (T_simple t) = True"
| "plain_type (T_full ns x) = (list_all plain ns \<and> plain x)"
| "plain_type (T_vec t n) = plain_type t"
| "plain_type (T_map k v) = (plain_type k \<and> plain_type v)"
| "plain_type (T_topic x) = plain x"
| "plain_type (T_macro x) = plain x"
| "plain_type (T_option p) = True"

definition plain_field :: "idl_field \<Rightarrow> bool" where
  "plain_field f \<longleftrightarrow> plain_type (fd_type f) \<and> plain (fd_name f) \<and>
     (case fd_value f of Some fv \<Rightarrow> (case fv_default fv of Some ex \<Rightarrow> plain_expr ex | None \<Rightarrow> True) | None \<Rightarrow> True)"

definition plain_tx :: "idl_tx \<Rightarrow> bool" where
  "plain_tx t \<longleftrightarrow> (case tx_topic_id t of Some x \<Rightarrow> plain x | None \<Rightarrow> True) \<and>
     (case tx_bind_of t of Some b \<Rightarrow> list_all plain_field (tb_fields b) \<and> plain (tb_return b) | None \<Rightarrow> True) \<and>
     (case tx_result t of Some sets \<Rightarrow> list_all (\<lambda>rs. list_all plain_field (rs_fields rs)) sets | None \<Rightarrow> True) \<and>
     (case tx_query t of Some q \<Rightarrow> plain q | None \<Rightarrow> True)"

fun plain_node :: "idl_node \<Rightarrow> bool" where
  "plain_node (N_enum x vs) = (plain x \<and> list_all (\<lambda>(v, e). plain v \<and> (case e of Some ex \<Rightarrow> plain_expr ex | None \<Rightarrow> True)) vs)"
| "plain_node (N_struct x fs) = (plain x \<and> list_all plain_field fs)"
| "plain_node (N_message x sc fs) = (plain x \<and> list_all plain_field fs \<and> (case sc of Some (ns, y) \<Rightarrow> list_all plain ns \<and> plain y | None \<Rightarrow> True))"
| "plain_node (N_include ps) = list_all plain ps"
| "plain_node (N_namespace ns) = list_all plain ns"
| "plain_node (N_tx x t) = (plain x \<and> plain_tx t)"

lemma plain_txD:
  assumes "plain_tx t"
  shows "tx_bind_of t = Some b \<Longrightarrow> list_all plain_field (tb_fields b)" "tx_bind_of t = Some b \<Longrightarrow> plain (tb_return b)"
    "tx_result t = Some sets \<Longrightarrow> rs \<in> set sets \<Longrightarrow> list_all plain_field (rs_fields rs)"
    "tx_topic_id t = Some x \<Longrightarrow> plain x" "tx_query t = Some q \<Longrightarrow> plain q"
  using assms by (auto simp: plain_tx_def list_all_iff)

lemma plain_typenames [simp]: "plain (simple_typename_in ''c++'' t)" "plain (simple_typename_in ''sql'' t)" "plain (type_name t)"
  by (cases t; simp add: simple_typename_in_def plain_Cons brace_def)+

lemma plain_namespace_string: "list_all plain ns \<Longrightarrow> plain (namespace_string ''c++'' ns)"
  by (induction ns) (simp_all add: namespace_string_def plain_Cons brace_def)

lemma plain_full_typename: "list_all plain ns \<Longrightarrow> plain x \<Longrightarrow> plain (full_typename_in ''c++'' ns x)"
  by (simp add: full_typename_in_def plain_namespace_string)

lemma plain_idl_name: "plain_type t \<Longrightarrow> plain (idl_name t)"
  by (induction t) (simp_all add: plain_namespace_string plain_Cons brace_def)

lemma plain_elem_name: "plain_type t \<Longrightarrow> plain (elem_name t)"
  using plain_idl_name [of t] by (cases t) (simp_all add: elem_name_def)

lemma plain_sub: "plain s \<Longrightarrow> set t \<subseteq> set s \<Longrightarrow> plain t"
  by (auto simp: plain_def list_all_iff)

lemma plain_pieces:
  assumes "plain s" "split s ds 0 = Some ts"
  shows "list_all plain ts"
proof (cases "s = []")
  case False
  then have "ts = tokens ds s" using assms(2) by (simp add: split_tokens)
  then show ?thesis using tokens_pieces [of ds s] plain_sub [OF assms(1)] by (simp add: list_all_iff)
qed (use assms in \<open>auto simp: split_tokens\<close>)

lemma plain_namespace_of:
  "list_all plain_node nodes \<Longrightarrow> first_namespace nodes = Some ns \<Longrightarrow> list_all plain ns"
  by (induction nodes rule: first_namespace.induct) auto

section \<open>Fields\<close>

lemma calm_value: "plain_value v \<Longrightarrow> calm (generate_expression_value fd v)"
  by (cases v) (auto intro!: calm_run calm_simps simp: plain_full_typename brace_def split: option.splits idl_type.splits)

lemma calm_operator: "calm (generate_operator op)"
  by (cases op) (auto intro!: calm_simps simp: brace_def)

lemma calm_expression: "plain_expr ex \<Longrightarrow> calm (generate_expression fd ex)"
proof (induction fd ex rule: generate_expression.induct)
  case (1 fd op v es)
  then show ?case
    by (auto simp: list_all_iff intro!: calm_run calm_ignore calm_value calm_operator)
qed

text \<open>The braces in a list of pieces are computed by the simplifier.\<close>

lemmas brace_simps = brace_def plain_full_typename plain_elem_name plain_Cons

lemma steady_macro: "plain l \<Longrightarrow> steady (generate_field_macro st l)"
  unfolding generate_field_macro_def by (intro steady_run) (simp add: steady_out)

lemma sure_macro [simp]: "sure (generate_field_macro st l)"
  unfolding generate_field_macro_def by simp

lemma steady_default:
  assumes "plain_field f"
  shows "steady (case fd_value f of None \<Rightarrow> nothing
    | Some fv \<Rightarrow> (case fv_default fv of None \<Rightarrow> nothing | Some ex \<Rightarrow> run [out Os ['' = ''], generate_expression (Some f) ex]))"
  using assms
  by (auto simp: plain_field_def brace_def intro!: calm_steady calm_run calm_simps calm_expression split: option.splits)

lemma steady_field: "plain_field f \<Longrightarrow> steady (generate_field f)"
proof -
  assume f: "plain_field f"
  then have n: "plain (fd_name f)" "plain_type (fd_type f)" by (simp_all add: plain_field_def)
  have 1: "steady (generate_field_simple_type f t)" for t
    unfolding generate_field_simple_type_def
    by (rule steadyI, (rule moves_intros moves_steady [OF steady_default [OF f]])+) (simp add: n brace_simps)
  have 2: "list_all plain ns \<Longrightarrow> plain x \<Longrightarrow> steady (generate_field_full_type f ns x)" for ns x
    unfolding generate_field_full_type_def by (rule steadyI, (rule moves_intros)+) (simp add: n brace_simps)
  have 3: "plain_type t \<Longrightarrow> steady (generate_field_vec f t)" for t
    unfolding generate_field_vec_def by (rule steadyI, (rule moves_intros)+) (simp add: n brace_simps)
  have 4: "plain_type k \<Longrightarrow> plain_type t \<Longrightarrow> steady (generate_field_map f k t)" for k t
    unfolding generate_field_map_def by (rule steadyI, (rule moves_intros)+) (simp add: n brace_simps)
  show ?thesis
    using n(2) 1 2 3 4 by (cases "fd_type f") (simp_all add: generate_field_def steady_macro steady_ends)
qed

lemma steady_topic: "plain x \<Longrightarrow> steady (generate_topic x)"
proof -
  assume x: "plain x"
  have "steady (generate_topic x)" if s: "split x ''.'' 0 = Some [cat, grp, ty]" for cat grp ty
  proof -
    have p: "plain cat" "plain grp" "plain ty" using plain_pieces [OF x s] by simp_all
    show ?thesis
      unfolding generate_topic_def s option.case list.case
      by (rule steadyI, (rule moves_intros)+) (simp add: p brace_simps)
  qed
  then show ?thesis
    by (auto simp: generate_topic_def steady_ends split: option.split list.split)
qed

lemma steady_serialize:
  assumes "plain_field f" "plain pk" "plain pre"
  shows "steady (serialize_field e st pk pre f)"
  using assms
  by (auto simp: serialize_field_def plain_field_def ignore_sure brace_def
      intro!: steady_out steady_macro steady_ends split: idl_type.split)

section \<open>Definitions\<close>

lemma moves_opt: "sum_list (map balance ss) = 0 \<Longrightarrow> moves l l (\<lambda>_. 0) (if c then ind st ss else nothing)"
  "sum_list (map balance ss) = 0 \<Longrightarrow> moves l l (\<lambda>_. 0) (if c then out st ss else nothing)"
  by (simp_all add: moves_steady steady_out steady_ends)

definition plain_env :: "gen_env \<Rightarrow> bool" where
  "plain_env e \<longleftrightarrow> list_all plain_node (map snd (pr_nodes (ge_program e))) \<and> plain (pr_path (ge_program e)) \<and>
     plain (ge_replace_extension e (pr_path (ge_program e)) ''.hpp'') \<and>
     (\<forall>a x fs. ge_heap e a = Some (N_struct x fs) \<longrightarrow> list_all plain_field fs)"

lemma plain_scopes: "list_all plain ns \<Longrightarrow> plain (concat (map (\<lambda>n. n @ ''::'') ns))"
  by (induction ns) (simp_all add: plain_Cons brace_def)

lemma plain_gen_namespace: "plain_env e \<Longrightarrow> plain (gen_namespace e)"
  using plain_namespace_of [of "map snd (pr_nodes (ge_program e))"] plain_scopes
  by (auto simp: plain_env_def gen_namespace_def program_namespace_def plain_Cons brace_def split: option.splits)

lemma steady_fields: "list_all plain_field fs \<Longrightarrow> list_all steady (map generate_field fs)"
  by (auto simp: list_all_iff intro: steady_field)

lemma steady_serializes:
  "list_all plain_field fs \<Longrightarrow> plain pk \<Longrightarrow> plain pre \<Longrightarrow> list_all steady (map (serialize_field e st pk pre) fs)"
  by (auto simp: list_all_iff intro: steady_serialize)

lemma plain_words [simp]: "plain ''pack''" "plain ''unpack''" "plain ''tv.''"
  by (simp_all add: plain_Cons brace_def)

lemma steady_enum: "plain_node (N_enum x vs) \<Longrightarrow> steady (generate_enum x vs)"
proof -
  assume p: "plain_node (N_enum x vs)"
  have "steady (run [ind Os [v], case dv of None \<Rightarrow> nothing | Some ex \<Rightarrow> run [out Os ['' = ''], ignore (generate_expression None ex)],
      out Os ['','', endl]])" if "(v, dv) \<in> set vs" for v dv
  proof -
    have v: "plain v" "case dv of Some ex \<Rightarrow> plain_expr ex | None \<Rightarrow> True" using p that by (auto simp: list_all_iff)
    have "calm (case dv of None \<Rightarrow> nothing | Some ex \<Rightarrow> run [out Os ['' = ''], ignore (generate_expression None ex)])"
      using v(2) by (auto intro!: calm_run calm_simps calm_ignore calm_expression simp: brace_def split: option.splits)
    then show ?thesis using v(1) by (intro calm_steady calm_run) (simp add: calm_ind calm_simps brace_def)
  qed
  then have vs: "list_all steady (map (\<lambda>(v, dv). run [ind Os [v],
      case dv of None \<Rightarrow> nothing | Some ex \<Rightarrow> run [out Os ['' = ''], ignore (generate_expression None ex)],
      out Os ['','', endl]]) vs)"
    by (auto simp: list_all_iff)
  show ?thesis
    unfolding generate_enum_def using p
    by - (rule steadyI, (rule moves_intros moves_run_all [OF vs])+, simp add: brace_simps)
qed

lemma steady_struct: "plain x \<Longrightarrow> list_all plain_field fs \<Longrightarrow> steady (generate_struct x fs)"
  unfolding generate_struct_def
  by (rule steadyI, (rule moves_intros moves_run_all [OF steady_fields] | assumption)+) (simp add: brace_simps)

lemma steady_struct_pack:
  assumes "plain_env e" "plain x" "list_all plain_field fs"
  shows "steady (generate_struct_pack e x fs)" "steady (generate_struct_unpack e x fs)"
  unfolding generate_struct_pack_def generate_struct_unpack_def
  by (rule steadyI, (rule moves_intros moves_run_all [OF steady_serializes] | simp add: brace_simps assms plain_gen_namespace)+)+

lemma steady_struct_serialize:
  assumes "plain_env e" "plain x" "list_all plain_field fs"
  shows "steady (generate_struct_serialize e x fs)"
  unfolding generate_struct_serialize_def
  by (rule steadyI, (rule moves_intros moves_steady [OF steady_struct_pack(1) [OF assms]] moves_steady [OF steady_struct_pack(2) [OF assms]])+)
    (simp add: brace_simps assms plain_gen_namespace)

lemma steady_message_pack:
  assumes "list_all plain_field fs"
  shows "steady (generate_message_pack e fs)" "steady (generate_message_unpack e fs)"
  unfolding generate_message_pack_def generate_message_unpack_def
  by (rule steadyI, (rule moves_intros moves_run_all [OF steady_serializes] | simp add: brace_simps assms)+)+

lemma first_topic_plain: "list_all plain_field fs \<Longrightarrow> first_topic fs = Some x \<Longrightarrow> plain x"
  by (induction fs rule: first_topic.induct) (auto simp: plain_field_def split: idl_type.splits)

lemma steady_message_topic: "list_all plain_field fs \<Longrightarrow> steady (generate_message_topic fs)"
  by (auto simp: generate_message_topic_def steady_ends intro: steady_topic first_topic_plain split: option.splits)

lemma plain_super: "(case sc of Some (ns, y) \<Rightarrow> list_all plain ns \<and> plain y | None \<Rightarrow> True) \<Longrightarrow> plain (super_name sc)"
  by (auto simp: super_name_def plain_full_typename plain_Cons brace_def split: option.splits)

lemma steady_message:
  assumes "plain_node (N_message x sc fs)"
  shows "steady (generate_message e x sc fs)"
proof -
  have p: "plain x" "list_all plain_field fs" "plain (super_name sc)" using assms plain_super by auto
  show ?thesis
    unfolding generate_message_def
    by (rule steadyI, (rule moves_intros moves_opt moves_run_all [OF steady_fields [OF p(2)]]
          moves_steady [OF steady_message_pack(1) [OF p(2)]] moves_steady [OF steady_message_pack(2) [OF p(2)]]
          moves_steady [OF steady_fail_as [OF steady_message_topic [OF p(2)]]] | simp add: brace_simps p)+)
qed

section \<open>Transactions\<close>

lemma steady_with_seq: "(\<And>n. steady (f n)) \<Longrightarrow> steady (with_seq f)"
  unfolding steady_def moves_def with_seq_def by blast

lemma steady_next_seq: "steady next_seq"
  by (auto simp: steady_def next_seq_def tidy_def intro!: movesI)

lemma steady_sql_comma: "steady sql_comma"
  unfolding sql_comma_def by (auto intro!: steady_with_seq steady_out steady_ends simp: brace_def)

lemma plain_bind_words [simp]: "plain (bind_postfix t)" "plain (bind_prefix t)" "plain '', dbc::statement::PARAM_OUT''" "plain ''&''"
  by (simp_all add: bind_postfix_def bind_prefix_def plain_Cons brace_def)

lemma steady_bind_call:
  assumes "plain x"
  shows "plain a \<Longrightarrow> plain b \<Longrightarrow> plain c \<Longrightarrow> steady (bind_call a b x c)" "steady (bind_strings_call x)"
  using assms unfolding bind_call_def bind_strings_call_def by (auto intro!: steady_with_seq steady_out simp: brace_def)

lemma steady_bind_simple: "plain_field f \<Longrightarrow> steady (generate_tx_execute_bind_simple f t)"
  unfolding generate_tx_execute_bind_simple_def
  by (auto intro!: steady_run steady_sql_comma steady_out steady_ends steady_next_seq steady_bind_call
      simp: plain_field_def brace_def)

lemma steady_bind_struct_field: "plain x \<Longrightarrow> plain_field f \<Longrightarrow> steady (bind_struct_field x f)"
  unfolding bind_struct_field_def
  by (auto intro!: steady_run steady_sql_comma steady_out steady_ends steady_next_seq steady_bind_call
      simp: plain_field_def brace_def plain_Cons split: idl_type.split)

lemma steady_bind_struct:
  assumes "plain_env e" "plain x"
  shows "steady (case ge_heap e a of Some (N_struct _ flds) \<Rightarrow> run (map (bind_struct_field x) flds) | _ \<Rightarrow> crash ''freed node'')"
proof -
  have "list_all plain_field flds" if "ge_heap e a = Some (N_struct n flds)" for n flds
    using assms(1) that unfolding plain_env_def by blast
  then show ?thesis
    using assms(2)
    by (auto intro!: steady_run steady_ends steady_bind_struct_field simp: list_all_iff split: option.split idl_node.split)
qed

lemma steady_bind_full: "plain_env e \<Longrightarrow> plain_field f \<Longrightarrow> steady (generate_tx_execute_bind_full e f)"
  unfolding generate_tx_execute_bind_full_def Let_def
  using steady_bind_struct [of e "fd_name f"]
  by (auto simp: plain_field_def intro!: steady_ends split: option.split)

lemma plain_indexed: "plain_field f \<Longrightarrow> plain_type t \<Longrightarrow> plain_field (indexed f t i)"
  by (simp add: plain_field_def indexed_def plain_Cons brace_def)

lemma sure_bind_indexed: "sure (generate_tx_execute_bind_simple (indexed f ty i) t)"
  unfolding generate_tx_execute_bind_simple_def
  by (simp add: indexed_def sql_comma_def bind_call_def bind_strings_call_def next_seq_def with_seq_def sure_def out_def ind_def
      nothing_def run_Cons)

text \<open>Text that depends on the state.\<close>

lemma steady_state:
  assumes "\<And>g. tidy g \<Longrightarrow> sum_list (map balance (ss g)) = 0"
  shows "steady (\<lambda>g. ind st (ss g) g)" "steady (\<lambda>g. out st (ss g) g)"
proof -
  have "tidy g' \<and> g_level g' = l \<and> (\<forall>st'. balance (g_out g' st') = balance (g_out g st') + 0)"
    if "g_level g = l" "tidy g" "out st (ss g) g = (Done, g') \<or> ind st (ss g) g = (Done, g')" for g g' l
    using movesD [OF moves_out [of l st "ss g"] that(1,2)] movesD [OF moves_ind [of l st "ss g"] that(1,2)] that(3) assms [OF that(2)]
    by auto
  then show "steady (\<lambda>g. ind st (ss g) g)" "steady (\<lambda>g. out st (ss g) g)"
    unfolding steady_def by (blast intro: movesI)+
qed

lemma steady_bind_vec:
  assumes e: "plain_env e" and f: "plain_field f" and t: "plain_type t"
  shows "steady (generate_tx_execute_bind_vec e f t n)"
proof -
  have 1: "steady (\<lambda>g. ind Os_cpp [CHR 0x09 # ''WISE_ERROR( \"tx invalid vector size. tx : '', g_tx_name g,
      '', name: '', fd_name f, '', count: '', show_int n, ''\" );'', endl] g)"
    using f by (intro steady_state) (simp add: tidy_def plain_field_def brace_def)
  have 2: "steady (case t of T_simple s \<Rightarrow> run (map (\<lambda>i. ignore (generate_tx_execute_bind_simple (indexed f t i) s)) [0..<nat n])
          | T_full _ _ \<Rightarrow> run (map (\<lambda>i. generate_tx_execute_bind_full e (indexed f t i)) [0..<nat n])
          | T_option _ \<Rightarrow> nothing
          | _ \<Rightarrow> fail ''Tx unsupported bind type in vector'')"
    using plain_indexed [OF f t] e
    by (auto simp: list_all_iff ignore_sure [OF sure_bind_indexed]
        intro!: steady_run steady_ends steady_bind_simple steady_bind_full split: idl_type.split)
  show ?thesis
    unfolding generate_tx_execute_bind_vec_def using f
    by - (rule steadyI, (rule moves_intros moves_steady [OF 1] moves_steady [OF 2])+, simp add: plain_field_def brace_def)
qed

lemma steady_bind_field: "plain_env e \<Longrightarrow> plain_field f \<Longrightarrow> steady (bind_field e f)"
  unfolding bind_field_def
  by (auto simp: ignore_sure plain_field_def intro!: steady_ends steady_bind_simple steady_bind_vec steady_bind_full steady_macro
      split: idl_type.split)

lemma plain_query_marks [simp]: "plain (query_marks n)"
  by (auto simp: query_marks_def plain_Cons brace_def list_all_iff)

lemma steady_set_query: "plain q \<Longrightarrow> steady (\<lambda>g. (Done, g\<lparr>g_query := q\<rparr>))" "plain x \<Longrightarrow> steady (\<lambda>g. (Done, g\<lparr>g_bind_seq := 0, g_tx_name := x\<rparr>))"
  by (auto simp: steady_def tidy_def intro!: movesI)

lemma plain_take_drop: "plain s \<Longrightarrow> plain (take n (drop m s))"
  by (erule plain_sub) (auto dest: in_set_takeD in_set_dropD)

lemma steady_query_line: "plain q \<Longrightarrow> steady (query_line q b)"
  unfolding query_line_def by (rule steadyI, (rule moves_intros)+) (simp add: brace_def)

lemma steady_query_string: "plain_tx t \<Longrightarrow> steady (generate_tx_query_string t)"
  using plain_take_drop [of _ _ 1]
  by (auto simp: generate_tx_query_string_def plain_tx_def Let_def steady_ends steady_set_query steady_query_line
      intro!: steady_run split: option.split option.splits)

lemma steady_bind_decl: "list_all plain_field (tb_fields b) \<Longrightarrow> plain (tb_return b) \<Longrightarrow> steady (generate_tx_bind_decl b)"
  unfolding generate_tx_bind_decl_def
  by (rule steadyI, (rule moves_intros moves_opt moves_run_all [OF steady_fields] | assumption | simp add: brace_def)+)

lemma steady_result_set_decl: "list_all plain_field (rs_fields rs) \<Longrightarrow> steady (generate_tx_result_set_decl i rs)"
proof -
  assume f: "list_all plain_field (rs_fields rs)"
  have v: "steady (if rs_single rs then ind Os [''rs_'', digits (i + 1), ''_t rs_'', digits (i + 1), '';'', endl]
      else ind Os [''std::vector<rs_'', digits (i + 1), ''_t> rs_'', digits (i + 1), '';'', endl])"
    by (simp add: steady_out brace_def)
  show ?thesis
    unfolding generate_tx_result_set_decl_def
    by (rule steadyI, (rule moves_intros moves_run_all [OF steady_fields [OF f]] moves_steady [OF v])+) (simp add: brace_def)
qed

lemma steady_enumerated:
  assumes "\<And>i rs. rs \<in> set sets \<Longrightarrow> steady (f i rs)"
  shows "list_all steady (map (\<lambda>(i, rs). f i rs) (enumerate 0 sets))"
  using assms by (auto simp: list_all_iff in_set_enumerate_eq)

lemma steady_serialize_decl: "steady generate_tx_serialize_decl"
  unfolding generate_tx_serialize_decl_def by (rule steadyI, (rule moves_intros)+) (simp add: brace_def)

lemma steady_tx_topic: "plain_tx t \<Longrightarrow> steady (generate_tx_topic t)"
  by (auto simp: generate_tx_topic_def plain_tx_def steady_ends intro: steady_topic split: option.splits)

lemma steady_run_append: "steady (run as) \<Longrightarrow> steady (run bs) \<Longrightarrow> steady (run (as @ bs))"
  by (rule steadyI [OF moves_run_append [OF moves_steady moves_steady]]) auto

lemma steady_run_Cons: "steady a \<Longrightarrow> steady (run bs) \<Longrightarrow> steady (run (a # bs))"
  by (rule steadyI [OF moves_run_Cons [OF moves_steady moves_steady]]) auto

lemma steady_tx_decl:
  assumes x: "plain x" and t: "plain_tx t"
  shows "steady (generate_tx_decl x t)"
proof -
  have b: "steady (case tx_bind_of t of None \<Rightarrow> fail ''bind is missing in tx defintion'' | Some b \<Rightarrow> generate_tx_bind_decl b)"
    using t by (auto simp: plain_tx_def steady_ends intro: steady_bind_decl split: option.splits)
  have r: "steady (case tx_result t of None \<Rightarrow> nothing | Some sets \<Rightarrow>
      run ([out Os [endl], ind Os [''public: // result set structure '', endl]] @
        map (\<lambda>(i, rs). generate_tx_result_set_decl i rs) (enumerate 0 sets)))"
    by (auto simp: steady_ends steady_out brace_def intro!: steady_run steady_enumerated steady_result_set_decl plain_txD(3) [OF t]
        split: option.splits)
  show ?thesis
    unfolding generate_tx_decl_def
    by (rule steadyI, (rule moves_intros moves_steady [OF b] moves_steady [OF r] moves_steady [OF steady_query_string [OF t]]
        moves_steady [OF steady_fail_as [OF steady_tx_topic [OF t]]] moves_steady [OF steady_serialize_decl])+) (simp add: x brace_def)
qed

lemma steady_execute_bind:
  assumes "plain_env e" "plain x" "plain_tx t"
  shows "steady (generate_tx_execute_bind e x t)"
proof -
  have q: "steady (\<lambda>g. out Os_sql [''CREATE PROCEDURE '', g_query g, endl] g)"
    by (rule steady_state) (simp add: tidy_def brace_def)
  show ?thesis
  proof (cases "tx_bind_of t")
    case (Some b)
    have "list_all steady (map (bind_field e) (tb_fields b))"
      using plain_txD(1) [OF assms(3) Some] assms(1) by (auto simp: list_all_iff intro: steady_bind_field)
    moreover have "steady (if tb_return b \<noteq> [] then run [bind_call [] ''&'' (tb_return b) '', dbc::statement::PARAM_OUT'', next_seq] else nothing)"
      using plain_txD(2) [OF assms(3) Some] by (auto intro!: steady_run steady_bind_call steady_next_seq steady_ends)
    ultimately show ?thesis
      using Some q assms(2) unfolding generate_tx_execute_bind_def by (auto intro!: steady_run simp: steady_set_query steady_out brace_def)
  qed (simp add: generate_tx_execute_bind_def steady_ends)
qed

lemma steady_fetch:
  assumes "list_all plain_field fs" "plain r" "\<And>n f t. plain_field f \<Longrightarrow> sum_list (map balance (get n f t)) = 0"
  shows "list_all steady (fetch_fields get r n fs)"
  using assms(1)
proof (induction fs arbitrary: n)
  case (Cons f fs)
  then have f: "plain_field f" "plain (fd_name f)" "plain_type (fd_type f)" by (simp_all add: plain_field_def)
  have "steady (run [out Os_sql [r, ''.'', fd_name f, '' '', simple_typename_in ''sql'' t, endl], ind Os_cpp (get n f t)])" for t
    using f(2) assms(2) assms(3) [OF f(1)] by (intro steady_run) (simp add: steady_out brace_def)
  moreover have "list_all steady (fetch_fields get r m fs)" for m using Cons by simp
  ultimately show ?case
    using f(3) by (cases "fd_type f") (simp_all add: ignore_sure steady_macro steady_ends)
qed simp

lemma steady_result_set: "list_all plain_field (rs_fields rs) \<Longrightarrow> steady (generate_result_set i rs)"
proof -
  let ?r = "''rs_'' @ digits (i + 1)"
  assume f: "list_all plain_field (rs_fields rs)"
  have r: "plain ?r" by (simp add: plain_Cons brace_def)
  have 1: "steady (if rs_single rs then ind Os_cpp [''if ( rs.next() )'', endl] else ind Os_cpp [''while ( rs.next() )'', endl])"
    by (simp add: steady_out brace_def)
  have 2: "steady (if list_all result_field_ok (rs_fields rs) then nothing else fail ''Tx result set should have simple types or macro only'')"
    by (simp add: steady_ends)
  have 3: "steady (run (if rs_single rs then
       out Os_sql [''-- '', ?r, '' single row result set'', endl] #
       fetch_fields (\<lambda>n f t. [''rs.get_ref( '', digits n, '', '', ?r, ''.'', fd_name f, '' );'', endl]) ?r 0 (rs_fields rs)
     else
       [ind Os_cpp [?r, ''_t rset;'', endl], out Os_sql [''-- '', ?r, '' multiple row result set'', endl]] @
       fetch_fields (\<lambda>n f t. [''rset.'', fd_name f, '' = rs.get<'', simple_typename_in ''c++'' t, ''>'', ''( '', digits n, '' );'', endl])
         ?r 0 (rs_fields rs) @
       [ind Os_cpp [?r, ''.push_back(rset);'', endl]]))"
    using f r
    by (intro steady_run) (auto simp: plain_field_def brace_def plain_Cons intro!: steady_fetch steady_out)
  show ?thesis
    unfolding generate_result_set_def Let_def
    by (rule steadyI, (rule moves_intros moves_steady [OF 1] moves_steady [OF 2] moves_steady [OF 3])+) (simp add: brace_def)
qed

lemma steady_execute_result: "plain x \<Longrightarrow> plain_tx t \<Longrightarrow> steady (generate_tx_execute_result x t)"
  by (auto simp: generate_tx_execute_result_def steady_ends steady_out brace_def
      intro!: steady_run steady_enumerated steady_result_set plain_txD(3) split: option.splits)

lemma steady_execute:
  assumes "plain_env e" "plain x" "plain_tx t"
  shows "steady (generate_tx_execute e x t)"
  unfolding generate_tx_execute_def
  by (rule steadyI, (rule moves_intros moves_steady [OF steady_execute_bind [OF assms]] moves_steady [OF steady_execute_result [OF assms(2,3)]])+)
    (simp add: brace_def assms)

lemma steady_pack_result_set: "steady (pack_result_set i rs)" "steady (unpack_result_set i rs)"
proof -
  let ?r = "''rs_'' @ digits (i + 1)"
  have "steady (run [ind Os_cpp [''uint16_t len = '', ?r, ''.size();'', endl], ind Os_cpp [''packer.pack(len);'', endl],
      ind Os_cpp [''for ( auto& rs : '', ?r, '') '', endl], ind Os_cpp [''{'', endl], inc_indent,
      ind Os_cpp [?r, ''.pack(packer); '', endl], dec_indent, ind Os_cpp [''}'', endl]])"
    by (rule steadyI, (rule moves_intros)+) (simp add: brace_def)
  then show "steady (pack_result_set i rs)" by (simp add: pack_result_set_def Let_def steady_out brace_def)
  have "steady (run [ind Os_cpp [''uint16_t len = 0'', endl], ind Os_cpp [''packer.unpack(len);'', endl],
      ind Os_cpp [''for ( uint16_t i=0; i < len; ++i) '', endl], ind Os_cpp [''{'', endl], inc_indent,
      ind Os_cpp [?r, ''_t rs; '', endl], ind Os_cpp [''rs.unpack(packer);'', endl], ind Os_cpp [?r, ''.push_back(rs);'', endl],
      dec_indent, ind Os_cpp [''}'', endl]])"
    by (rule steadyI, (rule moves_intros)+) (simp add: brace_def)
  then show "steady (unpack_result_set i rs)" by (simp add: unpack_result_set_def Let_def steady_out brace_def)
qed

lemma moves_tx_serializer:
  assumes "plain x" "plain pk" "\<And>i rs. steady (one i rs)"
  shows "moves l l (opens Os_cpp 1) (run (tx_serializer x pk one t))"
proof -
  have "steady (case tx_result t of None \<Rightarrow> nothing
      | Some sets \<Rightarrow> run (ind Os_cpp [''// result sets: '', endl] # map (\<lambda>(i, rs). one i rs) (enumerate 0 sets)))"
    using assms(3) by (auto simp: steady_ends steady_out brace_def intro!: steady_run steady_enumerated split: option.splits)
  note r = moves_steady [OF this]
  show ?thesis
    unfolding tx_serializer_def by (rule moves_eq, (rule moves_intros r)+) (simp add: assms brace_def)
qed

lemma steady_serialize_impl:
  assumes "plain x"
  shows "steady (generate_tx_serialize_impl x t)"
  unfolding generate_tx_serialize_impl_def
  by (rule steadyI, (rule moves_run_append moves_run_Cons moves_run_Nil moves_out moves_ind
        moves_tx_serializer [OF assms plain_words(1) steady_pack_result_set(1)]
        moves_tx_serializer [OF assms plain_words(2) steady_pack_result_set(2)])+)
    (simp add: brace_def)

lemma steady_field_serializer:
  assumes "list_all plain_field fs" "plain x" "plain r" "plain pk"
  shows "steady (run (field_serializer e pk x fs r))"
  unfolding field_serializer_def
  by (rule steadyI, (rule moves_intros moves_opt moves_run_all [OF steady_serializes [OF assms(1,4)]] | simp add: assms brace_def)+)

lemma steady_field_serialize:
  assumes "list_all plain_field fs" "plain x" "plain r"
  shows "steady (generate_tx_field_serialize e x fs r)"
  unfolding generate_tx_field_serialize_def
  by (intro steady_run_append steady_field_serializer assms plain_words steady_run) (simp add: steady_out)

lemma sure_serialize_field [simp]: "sure (serialize_field e st pk pre f)"
  by (auto simp: serialize_field_def ignore_sure split: idl_type.split)

lemma sure_field_serialize: "sure (generate_tx_field_serialize e x fs r)"
  unfolding generate_tx_field_serialize_def field_serializer_def
  by (intro sure_run) (auto simp: list_all_iff)

lemma steady_tx_impl:
  assumes "plain_env e" "plain x" "plain_tx t"
  shows "moves l 0 (\<lambda>_. 0) (generate_tx_impl e x t)"
proof -
  have b: "steady (case tx_bind_of t of None \<Rightarrow> fail ''bind is missing in tx defintion''
      | Some b \<Rightarrow> generate_tx_field_serialize e (x @ ''::bind_t'') (tb_fields b) (tb_return b))"
    using assms(2) plain_txD [OF assms(3)]
    by (auto simp: steady_ends plain_Cons brace_def intro!: steady_field_serialize split: option.splits)
  have r: "steady (case tx_result t of None \<Rightarrow> nothing | Some sets \<Rightarrow> run (out Os [endl] #
      map (\<lambda>(i, rs). ignore (generate_tx_field_serialize e (x @ ''::'' @ ''rs_'' @ digits (i + 1) @ ''_t'') (rs_fields rs) []))
        (enumerate 0 sets)))"
    using assms(2)
    by (auto simp: steady_ends steady_out plain_Cons brace_def ignore_sure [OF sure_field_serialize]
        intro!: steady_run steady_enumerated steady_field_serialize plain_txD(3) [OF assms(3)] split: option.splits)
  show ?thesis
    unfolding generate_tx_impl_def
    by (rule moves_eq, (rule moves_intros moves_steady [OF b] moves_steady [OF r] moves_steady [OF steady_execute [OF assms]]
        moves_steady [OF steady_serialize_impl [OF assms(2)]])+) (simp add: assms(2) brace_def)
qed

lemma moves_tx: "plain_env e \<Longrightarrow> plain x \<Longrightarrow> plain_tx t \<Longrightarrow> moves 0 0 (\<lambda>_. 0) (generate_tx e x t)"
  unfolding generate_tx_def
  by (rule moves_eq, (rule moves_intros moves_steady [OF steady_tx_decl] steady_tx_impl | assumption)+) simp

section \<open>Files\<close>

lemma moves_node: "plain_env e \<Longrightarrow> plain_node n \<Longrightarrow> moves 0 0 (\<lambda>_. 0) (generate_node e n)"
  by (cases n) (simp_all add: moves_tx moves_steady steady_enum steady_struct steady_message steady_ends)

lemma moves_nodes: "list_all (\<lambda>n. moves 0 0 (\<lambda>_. 0) (f n)) ns \<Longrightarrow> moves 0 0 (\<lambda>_. 0) (run (map f ns))"
proof (induction ns)
  case Nil
  show ?case by (simp only: list.map moves_run_Nil)
next
  case (Cons n ns)
  then have "moves 0 0 (\<lambda>st. 0 + 0) (run (f n # map f ns))" by (intro moves_run_Cons) auto
  then show ?case by simp
qed

definition depth :: "gen_env \<Rightarrow> int" where
  "depth e = (case program_namespace (ge_program e) of Some ns \<Rightarrow> int (length ns) | None \<Rightarrow> 1)"

lemma moves_each:
  assumes "\<And>x l. x \<in> set xs \<Longrightarrow> moves l l (opens st k) (f x)"
  shows "moves l l (opens st (int (length xs) * k)) (run (map f xs))"
  using assms
proof (induction xs)
  case Nil
  show ?case by (rule moves_eq [where d = "\<lambda>_. 0"]) (simp_all only: list.map moves_run_Nil, simp)
next
  case (Cons x xs)
  then have "moves l l (\<lambda>s. opens st k s + opens st (int (length xs) * k) s) (run (f x # map f xs))"
    by (intro moves_run_Cons) auto
  then show ?case by (auto simp: algebra_simps elim!: moves_eq)
qed

lemma moves_namespace:
  assumes "plain_env e"
  shows "moves l l (opens st (depth e)) (generate_namespace_begin e st)" "moves l l (opens st (- depth e)) (generate_namespace_end e st)"
proof -
  have ns: "list_all plain ns" if "program_namespace (ge_program e) = Some ns" for ns
    using assms plain_namespace_of that by (auto simp: plain_env_def program_namespace_def)
  have 1: "moves l l (opens st 1) (out st [''namespace '', n, '' {'', endl])" "moves l l (opens st (- 1)) (out st [''} // '', n, endl])"
    if "plain n" for n l
    by (rule moves_eq [OF moves_out], simp add: brace_def that)+
  have 2: "moves l l (\<lambda>s. opens st 0 s + opens st (int (length xs) * - 1) s) (run (out st [endl] # map (\<lambda>n. out st [''} // '', n, endl]) xs))"
    if "list_all plain xs" for xs
  proof (rule moves_run_Cons)
    show "moves l l (opens st 0) (out st [endl])" using moves_out [of l st "[endl]"] by simp
    show "moves l l (opens st (int (length xs) * - 1)) (run (map (\<lambda>n. out st [''} // '', n, endl]) xs))"
      using that 1(2) by (intro moves_each) (simp add: list_all_iff)
  qed
  show "moves l l (opens st (depth e)) (generate_namespace_begin e st)"
  proof (cases "program_namespace (ge_program e)")
    case None
    have "moves l l (opens st 1) (run [out st [''namespace wise'', endl], out st [''{'', endl]])"
      by (rule moves_eq, (rule moves_intros)+) (simp add: brace_def)
    then show ?thesis using None by (simp add: generate_namespace_begin_def depth_def)
  next
    case (Some xs)
    then show ?thesis
      using moves_each [of xs st 1 "\<lambda>n. out st [''namespace '', n, '' {'', endl]" l] 1(1) ns [OF Some]
      by (simp add: generate_namespace_begin_def depth_def list_all_iff)
  qed
  show "moves l l (opens st (- depth e)) (generate_namespace_end e st)"
  proof (cases "program_namespace (ge_program e)")
    case None
    have "moves l l (opens st (- 1)) (run [out st [endl], out st [''} // wise'', endl]])"
      by (rule moves_eq, (rule moves_intros)+) (simp add: brace_def)
    then show ?thesis using None by (simp add: generate_namespace_end_def depth_def)
  next
    case (Some xs)
    then show ?thesis
      using moves_eq [OF 2 [OF ns [OF Some]], of "opens st (- int (length xs))"] by (simp add: generate_namespace_end_def depth_def)
  qed
qed

lemma steady_prologs: "steady (generate_prolog e)" "steady generate_hx_prolog" "steady generate_epilog"
proof -
  show "steady (generate_prolog e)"
    unfolding generate_prolog_def by (intro steady_run) (simp add: steady_out brace_def)
  show "steady generate_hx_prolog"
    unfolding generate_hx_prolog_def by (intro steady_run) (simp add: steady_out brace_def)
  show "steady generate_epilog" unfolding generate_epilog_def by (simp add: steady_out)
qed

lemma plain_path_string: "list_all plain ps \<Longrightarrow> plain (path_string ps)"
  by (induction ps rule: path_string.induct) (simp_all add: plain_Cons brace_def)

lemma steady_include:
  assumes "list_all plain ps"
  shows "steady (generate_include ps)"
proof -
  have "plain (take k (path_string ps))" for k
    using plain_path_string [OF assms] by (rule plain_sub) (auto dest: in_set_takeD)
  then show ?thesis by (simp add: generate_include_def Let_def steady_out brace_def)
qed

lemma plain_includes: "list_all plain_node nodes \<Longrightarrow> ps \<in> set (includes_in nodes) \<Longrightarrow> list_all plain ps"
  by (induction nodes rule: includes_in.induct) auto

lemma plain_structs: "list_all plain_node nodes \<Longrightarrow> (x, fs) \<in> set (structs_in nodes) \<Longrightarrow> plain x \<and> list_all plain_field fs"
  by (induction nodes rule: structs_in.induct) auto

lemma plain_registered: "list_all plain_node nodes \<Longrightarrow> x \<in> set (registered_in nodes) \<Longrightarrow> plain x"
  by (induction nodes rule: registered_in.induct) auto

lemma moves_cpp_prolog: "plain_env e \<Longrightarrow> moves l l (opens Os_cpp (depth e)) (generate_cpp_prolog e)"
  unfolding generate_cpp_prolog_def
  by (rule moves_eq, (rule moves_intros moves_namespace | assumption)+) (simp add: brace_def plain_env_def)

lemma moves_choice: "moves l l (opens st k) a \<Longrightarrow> moves l l (opens st (if c then k else 0)) (if c then a else nothing)"
  using moves_eq [OF moves_steady [OF steady_ends(1)], of "opens st 0"] by simp

lemma steady_struct_section:
  assumes "plain_env e"
  shows "steady (if c then
     run ([out Os [''// struct serialization section'', endl], out Os [''namespace wise { '', endl], out Os [''namespace kernel { '', endl]] @
          map (\<lambda>(x, fs). generate_struct_serialize e x fs) (structs_in (map snd (pr_nodes (ge_program e)))) @
          [out Os [endl], out Os [''} // kernel'', endl], out Os [''} // wise'', endl]])
     else nothing)"
proof -
  let ?ss = "structs_in (map snd (pr_nodes (ge_program e)))"
  have ns: "list_all plain_node (map snd (pr_nodes (ge_program e)))" using assms by (simp add: plain_env_def)
  have ss: "list_all steady (map (\<lambda>(x, fs). generate_struct_serialize e x fs) ?ss)"
    using plain_structs [OF ns] steady_struct_serialize [OF assms] by (auto simp: list_all_iff)
  have "steady (run ([out Os [''// struct serialization section'', endl], out Os [''namespace wise { '', endl],
      out Os [''namespace kernel { '', endl]] @ map (\<lambda>(x, fs). generate_struct_serialize e x fs) ?ss @
      [out Os [endl], out Os [''} // kernel'', endl], out Os [''} // wise'', endl]]))"
    by (rule steadyI, (rule moves_intros moves_run_all [OF ss])+) (simp add: brace_def)
  then show ?thesis by (simp add: steady_ends)
qed

lemma moves_generate_nodes:
  assumes e: "plain_env e"
  shows "moves 0 0 (\<lambda>_. 0) (generate_nodes e)"
proof -
  let ?p = "ge_program e" and ?nodes = "map snd (pr_nodes (ge_program e))"
  have ns: "list_all plain_node ?nodes" using e by (simp add: plain_env_def)
  have inc: "list_all steady (map generate_include (includes_in ?nodes))"
    using plain_includes [OF ns] steady_include by (auto simp: list_all_iff)
  have nodes: "moves 0 0 (\<lambda>_. 0) (run (map (generate_node e) ?nodes))"
    using ns moves_node [OF e] by (intro moves_nodes) (auto simp: list_all_iff)
  have hx: "steady (if pr_has_hx ?p then ignore generate_hx_prolog else nothing)"
    using steady_prologs(2) ignore_sure [of generate_hx_prolog] by (simp add: steady_ends generate_hx_prolog_def)
  show ?thesis
    unfolding generate_nodes_def Let_def
    by (rule moves_eq, (rule moves_run_append moves_run_Cons moves_run_Nil moves_choice [OF moves_cpp_prolog [OF e]]
          moves_choice [OF moves_namespace(2) [OF e, of _ Os_cpp, folded generate_cpp_epilog_def]]
          moves_steady [OF steady_prologs(1)] moves_steady [OF steady_prologs(3)] moves_steady [OF hx] moves_run_all [OF inc] nodes
          moves_namespace [OF e] moves_opt moves_out moves_level moves_steady [OF steady_struct_section [OF e]] | simp; fail)+)
qed

lemma plain_filename: "plain path \<Longrightarrow> plain (get_filename (remove_file_extension path))"
  by (erule plain_sub) (auto simp: get_filename_def remove_file_extension_def split: option.split dest: in_set_takeD in_set_dropD)

lemma steady_factory:
  assumes "plain_env e"
  shows "steady (generate_factory e)"
proof -
  have p: "list_all plain_node (map snd (pr_nodes (ge_program e)))" "plain (pr_path (ge_program e))"
    "plain (ge_replace_extension e (pr_path (ge_program e)) ''.hpp'')" using assms by (simp_all add: plain_env_def)
  have r: "list_all steady (map (\<lambda>x. ind Fac_cpp [''WISE_ADD_BITS('', gen_namespace e, x, '');'', endl])
      (registered_in (map snd (pr_nodes (ge_program e)))))"
    using plain_registered [OF p(1)] plain_gen_namespace [OF assms] by (auto simp: list_all_iff brace_def intro!: steady_out)
  show ?thesis
    unfolding generate_factory_def Let_def
    by (rule steadyI, (rule moves_intros moves_run_all [OF r])+) (simp add: brace_def p plain_filename)
qed

lemma moves_cplus_generate:
  assumes "plain_env e"
  shows "moves 0 0 (\<lambda>_. 0) (cplus_generate e)"
proof -
  have "steady (if c then generate_factory e else nothing)" for c using steady_factory [OF assms] by (simp add: steady_ends)
  then show ?thesis
    unfolding cplus_generate_def
    by (intro moves_eq [OF moves_run_Cons [OF moves_generate_nodes [OF assms] moves_run_all]]) simp_all
qed


definition an_env :: gen_env where
  "an_env = \<lparr>ge_program = fst (parse_nodes [(1, N_namespace [''a'']), (2, N_enum ''color'' [(''red'', None)])] (mk_program ''a.bits'', [])),
     ge_symbols = [], ge_heap = (\<lambda>_. None), ge_replace_extension = (\<lambda>p x. ''a.hpp'')\<rparr>"


end
