(* ===== verification/Cplus_Laws.thy ===== *)
theory Cplus_Laws
  imports Cplus_Braces
begin

text \<open>
  When the C++ generator fails, and that the unpacking code it writes reads the fields in the order the packing code
  wrote them.
\<close>

section \<open>Outcomes\<close>

definition gives :: "string \<Rightarrow> bool \<Rightarrow> action \<Rightarrow> bool" where
  "gives m b a \<longleftrightarrow> (\<forall>g. fst (a g) = (if b then Done else Failed m))"

lemma gives_sure: "sure a \<Longrightarrow> gives m True a"
  by (simp add: gives_def sure_def)

lemma gives_run_Nil: "gives m True (run [])"
  by (rule gives_sure) simp

lemma gives_run_Cons:
  assumes "gives m b a" "gives m c (run as)"
  shows "gives m (b \<and> c) (run (a # as))"
proof -
  have "fst (run (a # as) g) = (if b \<and> c then Done else Failed m)" for g
  proof -
    have "fst (a g) = (if b then Done else Failed m)" using assms(1) unfolding gives_def by blast
    moreover have "fst (run as (snd (a g))) = (if c then Done else Failed m)" using assms(2) unfolding gives_def by blast
    ultimately show ?thesis by (cases "a g") (auto simp: run_Cons split: if_splits)
  qed
  then show ?thesis by (simp add: gives_def)
qed

lemma gives_run_append: "gives m b (run as) \<Longrightarrow> gives m c (run bs) \<Longrightarrow> gives m (b \<and> c) (run (as @ bs))"
  using gives_run_Cons [of m b "run as" c bs] by (simp add: gives_def run_Cons run_append)

lemma gives_map: "(\<And>x. x \<in> set xs \<Longrightarrow> gives m (P x) (f x)) \<Longrightarrow> gives m (list_all P xs) (run (map f xs))"
  by (induction xs) (use gives_run_Nil in \<open>auto intro: gives_run_Cons\<close>)

lemma gives_eq: "gives m b a \<Longrightarrow> b = c \<Longrightarrow> gives m c a"
  by simp

section \<open>Fields never fail\<close>

text \<open>The grammar sets an operator on every expression it adds to another.\<close>

fun expr_ok :: "idl_expr \<Rightarrow> bool" where
  "expr_ok (Expr op v es) = list_all (\<lambda>ex. ex_op ex \<noteq> Op_none \<and> expr_ok ex) es"

lemma expr_ok_link: "expr_ok (set_op_link op ex) = expr_ok ex"
  by (cases ex) (simp add: set_op_link_def)

lemma expr_ok_add: "expr_ok ex \<Longrightarrow> expr_ok nxt \<Longrightarrow> expr_ok (add_plus nxt ex) \<and> expr_ok (add_minus nxt ex)"
  using expr_ok_link [of _ nxt] by (cases ex; simp add: add_plus_def add_minus_def) (simp add: set_op_link_def)

definition field_ok :: "idl_field \<Rightarrow> bool" where
  "field_ok f \<longleftrightarrow> (case fd_value f of Some fv \<Rightarrow> (case fv_default fv of Some ex \<Rightarrow> expr_ok ex | None \<Rightarrow> True) | None \<Rightarrow> True)"

lemma sure_ignore_value: "fd = None \<or> (\<exists>t. fd_type (the fd) = T_simple t) \<Longrightarrow> sure (ignore (generate_expression_value fd v))"
  by (cases v; cases fd; force simp: ignore_sure sure_def [of "ignore (fail _)"] ignore_def [of "fail _"] fail_def)

lemma sure_operator: "op \<noteq> Op_none \<Longrightarrow> sure (generate_operator op)"
  by (cases op) simp_all

lemma sure_expression: "expr_ok ex \<Longrightarrow> fd = None \<or> (\<exists>t. fd_type (the fd) = T_simple t) \<Longrightarrow> sure (generate_expression fd ex)"
proof (induction fd ex rule: generate_expression.induct)
  case (1 fd op v es)
  have "list_all sure (map (\<lambda>ex. run [generate_operator (ex_op ex), generate_expression fd ex]) es)"
    using 1 sure_operator by (auto simp: list_all_iff)
  then show ?case unfolding generate_expression.simps using sure_ignore_value [OF 1(3), of v] by (intro sure_run) simp
qed

lemma sure_field: "field_ok f \<Longrightarrow> sure (generate_field f)"
  by (cases "fd_type f")
    (auto simp: generate_field_def generate_field_simple_type_def generate_field_full_type_def generate_field_vec_def
      generate_field_map_def field_ok_def sure_expression split: option.split)

section \<open>When generation fails\<close>

text \<open>A message needs a topic of three parts.\<close>

definition topic_ok :: "idl_field list \<Rightarrow> bool" where
  "topic_ok fs = (case first_topic fs of
     None \<Rightarrow> False
   | Some x \<Rightarrow> x \<noteq> [] \<and> length (tokens ''.'' x) = 3)"

lemma gives_topic: "gives m (topic_ok fs) (fail_as m (generate_message_topic fs))"
proof (cases "first_topic fs")
  case None
  then show ?thesis by (simp add: gives_def topic_ok_def generate_message_topic_def fail_as_def fail_def)
next
  case (Some x)
  let ?ts = "if x = [] then [[]] else tokens ''.'' x"
  have s: "split x ''.'' 0 = Some ?ts" by (rule split_tokens)
  show ?thesis
  proof (cases "\<exists>a b c. ?ts = [a, b, c]")
    case True
    then obtain a b c where ts: "?ts = [a, b, c]" by blast
    have "sure (generate_topic x)" unfolding generate_topic_def s ts by simp
    moreover have "topic_ok fs" using ts Some by (auto simp: topic_ok_def split: if_splits)
    moreover have "fst (fail_as m (generate_topic x) g) = Done" for g
      using sureD [OF calculation(1), of g] by (auto simp: fail_as_def)
    ultimately show ?thesis using Some by (simp add: gives_def generate_message_topic_def)
  next
    case False
    have "\<not> topic_ok fs" using False Some by (auto simp: topic_ok_def length_Suc_conv numeral_3_eq_3)
    moreover have "generate_topic x = fail ''topic is invalid''"
      unfolding generate_topic_def s option.case using False by (auto split: list.split)
    ultimately show ?thesis using Some by (simp add: gives_def generate_message_topic_def fail_as_def fail_def)
  qed
qed

definition node_ok :: "idl_node \<Rightarrow> bool" where
  "node_ok n = (case n of N_message _ _ fs \<Rightarrow> topic_ok fs | _ \<Rightarrow> True)"

definition node_fields_ok :: "idl_node \<Rightarrow> bool" where
  "node_fields_ok n = (case n of N_message _ _ fs \<Rightarrow> list_all field_ok fs | N_struct _ fs \<Rightarrow> list_all field_ok fs | N_tx _ _ \<Rightarrow> False | _ \<Rightarrow> True)"

abbreviation no_topic :: string where
  "no_topic \<equiv> ''Failed to generate topic''"

lemma sure_pack: "sure (generate_message_pack e fs)" "sure (generate_message_unpack e fs)"
  unfolding generate_message_pack_def generate_message_unpack_def by (intro sure_run; auto simp: list_all_iff)+

text \<open>Expressions without a field to look at are never undefined.\<close>

definition safe :: "action \<Rightarrow> bool" where
  "safe a \<longleftrightarrow> (\<forall>g m. fst (a g) \<noteq> Crash m)"

lemma safe_simps: "sure a \<Longrightarrow> safe a" "safe (fail m)"
  by (simp_all add: safe_def sure_def fail_def)

lemma safe_run: "list_all safe as \<Longrightarrow> safe (run as)"
proof (induction as)
  case (Cons a as)
  have "fst (run (a # as) g) \<noteq> Crash m" for g m
    using Cons by (cases "a g"; cases "fst (a g)") (auto simp: safe_def run_Cons, metis fst_conv)
  then show ?case by (simp add: safe_def)
qed (simp add: safe_simps)

lemma sure_ignore: "safe a \<Longrightarrow> sure (ignore a)"
proof -
  assume s: "safe a"
  have "fst (ignore a g) = Done" for g
  proof (cases "a g")
    case (Pair r g')
    then have "r \<noteq> Crash m" for m using s unfolding safe_def by (metis fst_conv)
    then show ?thesis using Pair by (cases r) (auto simp: ignore_def)
  qed
  then show ?thesis by (simp add: sure_def)
qed

lemma safe_expression: "safe (generate_expression None ex)"
proof (induction "None :: idl_field option" ex rule: generate_expression.induct)
  case (1 op v es)
  have "safe (generate_operator p)" for p by (cases p) (simp_all add: safe_simps)
  moreover have "safe (ignore (generate_expression_value None v))" by (intro safe_simps sure_ignore_value) simp
  ultimately show ?case using 1 by (auto simp: list_all_iff intro!: safe_run)
qed

lemma sure_enum: "sure (generate_enum x vs)"
  unfolding generate_enum_def
  by (intro sure_run) (auto simp: list_all_iff sure_ignore [OF safe_expression] split: option.split)

lemma gives_message:
  assumes "list_all field_ok fs"
  shows "gives no_topic (topic_ok fs) (generate_message e x sc fs)"
proof -
  have f: "gives no_topic True (run (map generate_field fs))"
    using assms by (intro gives_sure sure_run) (auto simp: list_all_iff sure_field)
  have o: "gives no_topic True (if c then ind st ss else nothing)" for c st ss by (intro gives_sure) simp
  show ?thesis
    unfolding generate_message_def
    by (rule gives_eq, (rule gives_run_append gives_run_Cons gives_run_Nil f gives_topic o gives_sure [OF sure_pack(1)]
        gives_sure [OF sure_pack(2)] gives_sure [OF sure_simps(1)] gives_sure [OF sure_simps(2)] gives_sure [OF sure_simps(3)]
        gives_sure [OF sure_simps(4)])+) simp
qed

lemma gives_node: "node_fields_ok n \<Longrightarrow> gives no_topic (node_ok n) (generate_node e n)"
  using gives_message
  by (cases n) (auto simp: node_fields_ok_def node_ok_def generate_struct_def list_all_iff sure_field
      intro!: gives_sure sure_enum sure_run)

lemma sure_struct_serialize: "sure (generate_struct_serialize e x fs)"
  unfolding generate_struct_serialize_def generate_struct_pack_def generate_struct_unpack_def
  by (auto simp: list_all_iff intro!: sure_run)

lemma sure_frame: "sure (generate_prolog e)" "sure generate_hx_prolog" "sure (generate_namespace_begin e st)" "sure (generate_namespace_end e st)"
  "sure (generate_cpp_prolog e)" "sure (generate_include ps)" "sure (generate_factory e)" "sure generate_epilog" "sure (generate_cpp_epilog e)"
  by (auto simp: generate_prolog_def generate_hx_prolog_def generate_namespace_begin_def generate_namespace_end_def generate_cpp_prolog_def
      generate_include_def generate_factory_def generate_epilog_def generate_cpp_epilog_def Let_def list_all_iff
      intro!: sure_run split: option.split)

lemma gives_generate_nodes:
  assumes "list_all node_fields_ok (map snd (pr_nodes (ge_program e)))"
  shows "gives no_topic (list_all node_ok (map snd (pr_nodes (ge_program e)))) (generate_nodes e)"
proof -
  let ?nodes = "map snd (pr_nodes (ge_program e))"
  have n: "gives no_topic (list_all node_ok ?nodes) (run (map (generate_node e) ?nodes))"
    using assms gives_node by (intro gives_map) (auto simp: list_all_iff)
  have i: "gives no_topic True (run (map generate_include (includes_in ?nodes)))"
    by (intro gives_sure sure_run) (auto simp: list_all_iff sure_frame)
  have pre: "gives no_topic True (run [generate_prolog e, if c then generate_cpp_prolog e else nothing, if d then ignore generate_hx_prolog else nothing])"
    for c d by (intro gives_sure sure_run) (simp add: sure_frame ignore_sure)
  have mid: "gives no_topic True (run [if c then out Os [endl] else nothing, generate_namespace_begin e Os])" for c
    by (intro gives_sure sure_run) (simp add: sure_frame)
  have post: "gives no_topic True (run [generate_namespace_end e Os, out Os [endl], reset_indent,
      if c then run ([out Os [''// struct serialization section'', endl], out Os [''namespace wise { '', endl], out Os [''namespace kernel { '', endl]] @
          map (\<lambda>(x, fs). generate_struct_serialize e x fs) (structs_in ?nodes) @
          [out Os [endl], out Os [''} // kernel'', endl], out Os [''} // wise'', endl]]) else nothing,
      generate_epilog, if d then generate_cpp_epilog e else nothing])" for c d
    by (intro gives_sure sure_run) (auto simp: sure_frame list_all_iff sure_struct_serialize intro!: sure_run)
  show ?thesis
    unfolding generate_nodes_def Let_def
    by (rule gives_eq, (rule pre mid post n i gives_run_append)+) simp
qed

lemma gives_cplus:
  assumes "list_all node_fields_ok (map snd (pr_nodes (ge_program e)))"
  shows "gives no_topic (list_all node_ok (map snd (pr_nodes (ge_program e)))) (cplus_generate e)"
proof -
  have "gives no_topic (list_all node_ok (map snd (pr_nodes (ge_program e))) \<and> True) (cplus_generate e)"
    unfolding cplus_generate_def
    by (rule gives_run_Cons [OF gives_generate_nodes [OF assms]]) (intro gives_sure sure_run, simp add: sure_frame)
  then show ?thesis by simp
qed

text \<open>
  C22. For a program without transactions, with expressions the grammar can build, generation ends well exactly
  when every message has a topic of three parts; otherwise it fails with the message about the topic. It is
  never undefined.\<close>

theorem generation_outcome:
  assumes "list_all node_fields_ok (map snd (pr_nodes (ge_program e)))"
  shows "fst (cplus_generate e g) =
    (if list_all node_ok (map snd (pr_nodes (ge_program e))) then Done else Failed ''Failed to generate topic'')"
  using gives_cplus [OF assms] by (simp add: gives_def)

definition two_part_env :: gen_env where
  "two_part_env = \<lparr>ge_program = fst (parse_nodes [(1, N_message ''m'' None [\<lparr>fd_type = T_topic ''a.b'', fd_name = [], fd_value = None\<rparr>])]
       (mk_program ''m.bits'', [])), ge_symbols = [], ge_heap = (\<lambda>_. None), ge_replace_extension = (\<lambda>p x. ''m.hpp'')\<rparr>"

theorem generation_outcome_witness: "fst (cplus_generate two_part_env mk_gen) = Failed ''Failed to generate topic''"
proof -
  let ?f = "\<lparr>fd_type = T_topic ''a.b'', fd_name = [], fd_value = None\<rparr>"
  have n: "map snd (pr_nodes (ge_program two_part_env)) = [N_message ''m'' None [?f]]"
    by (simp add: two_part_env_def mk_program_def)
  have t: "tokens ''.'' ''a.b'' = [''a'', ''b'']" by (simp add: tokens.simps Let_def)
  have "list_all node_fields_ok [N_message ''m'' None [?f]]" by (simp add: node_fields_ok_def field_ok_def)
  moreover have "\<not> list_all node_ok [N_message ''m'' None [?f]]" by (simp add: node_ok_def topic_ok_def t)
  ultimately show ?thesis using generation_outcome [of two_part_env mk_gen] unfolding n by simp
qed

end
