(* ===== verification/Cplus_Mirror.thy ===== *)
theory Cplus_Mirror
  imports Cplus_Laws "HOL-Library.Sublist"
begin

text \<open>
  The packing and the unpacking code the generator writes, read back as lists of calls on the packer.
\<close>

section \<open>Reading generated text\<close>

fun lines_of :: "string \<Rightarrow> string list" where
  "lines_of [] = []"
| "lines_of (c # cs) =
     (if c = CHR 0x0A then [] # lines_of cs else case lines_of cs of [] \<Rightarrow> [[c]] | l # ls \<Rightarrow> (c # l) # ls)"

text \<open>The call on the packer a line has: whether it is the one for enumerations, and its argument.\<close>

definition call_of :: "string \<Rightarrow> string \<Rightarrow> (bool \<times> string) option" where
  "call_of pk line =
     (let l = dropWhile (\<lambda>c. c = CHR 0x09) line; en = ''packer.'' @ pk @ ''_enum(''; pl = ''packer.'' @ pk @ ''(''
      in if prefix en l then Some (True, takeWhile (\<lambda>c. c \<noteq> CHR '')'') (drop (length en) l))
         else if prefix pl l then Some (False, takeWhile (\<lambda>c. c \<noteq> CHR '')'') (drop (length pl) l))
         else None)"

definition calls :: "string \<Rightarrow> string \<Rightarrow> (bool \<times> string) list" where
  "calls pk text = List.map_filter (call_of pk) (lines_of text)"

lemma lines_of_line: "CHR 0x0A \<notin> set a \<Longrightarrow> lines_of (a @ CHR 0x0A # b) = a # lines_of b"
  by (induction a) auto

lemma calls_line: "CHR 0x0A \<notin> set a \<Longrightarrow> calls pk (a @ CHR 0x0A # b) = (case call_of pk a of Some c \<Rightarrow> [c] | None \<Rightarrow> []) @ calls pk b"
  by (simp add: calls_def lines_of_line List.map_filter_def split: option.split)

lemma calls_Nil [simp]: "calls pk [] = []"
  by (simp add: calls_def List.map_filter_def)

definition tabs :: "nat \<Rightarrow> string" where
  "tabs l = replicate l (CHR 0x09)"

lemma tabs_line [simp]: "CHR 0x0A \<notin> set (tabs l)" "dropWhile (\<lambda>c. c = CHR 0x09) (tabs l @ s) = dropWhile (\<lambda>c. c = CHR 0x09) s"
  by (auto simp: tabs_def) (induction l; simp)

lemma call_of_tabs [simp]: "call_of pk (tabs l @ s) = call_of pk s"
  by (simp add: call_of_def Let_def)

section \<open>The text an action writes\<close>

definition adds :: "nat \<Rightarrow> nat \<Rightarrow> string \<Rightarrow> action \<Rightarrow> bool" where
  "adds l l' s a \<longleftrightarrow> (\<forall>g. g_level g = l \<longrightarrow> a g = (Done, (put Os s g)\<lparr>g_level := l'\<rparr>))"

lemma adds_out: "adds l l (concat ss) (out Os ss)"
  by (auto simp: adds_def out_def put_def)

lemma concat_tabs: "concat (replicate l [c]) = replicate l c"
  by (induction l) simp_all

lemma adds_ind: "adds l l (tabs l @ concat ss) (ind Os ss)"
  by (auto simp: adds_def ind_def out_def put_def tabs_def concat_tabs)

lemma adds_level: "adds l (Suc l) [] inc_indent" "adds (Suc l) l [] dec_indent"
  by (auto simp: adds_def inc_indent_def dec_indent_def put_def)

lemma adds_nothing: "adds l l [] nothing"
  by (auto simp: adds_def nothing_def put_def)

lemma adds_run_Nil: "adds l l [] (run [])"
  using adds_nothing by simp

lemma adds_run_Cons: "adds l l1 s a \<Longrightarrow> adds l1 l2 t (run as) \<Longrightarrow> adds l l2 (s @ t) (run (a # as))"
  by (simp add: adds_def run_Cons put_def)

lemma adds_run_append: "adds l l1 s (run as) \<Longrightarrow> adds l1 l2 t (run bs) \<Longrightarrow> adds l l2 (s @ t) (run (as @ bs))"
  by (simp add: adds_def run_append put_def)

lemma adds_map: "(\<And>x. x \<in> set xs \<Longrightarrow> adds l l (f x) (a x)) \<Longrightarrow> adds l l (concat (map f xs)) (run (map a xs))"
  by (induction xs) (use adds_run_Nil in \<open>auto intro: adds_run_Cons\<close>)

lemma adds_eq: "adds l l' s a \<Longrightarrow> s = t \<Longrightarrow> adds l l' t a"
  by simp

lemmas adds_intros = adds_run_Cons adds_run_append adds_run_Nil adds_out adds_ind adds_level

text \<open>The line of a field.\<close>

definition field_text :: "gen_env \<Rightarrow> nat \<Rightarrow> string \<Rightarrow> string \<Rightarrow> idl_field \<Rightarrow> string" where
  "field_text e l pk pre f =
     (if is_serializable_field f then tabs l @ ''packer.'' @ pk @ (if is_enum e f then ''_enum('' else ''('') @ pre @ fd_name f @ '');'' @ endl
      else case fd_type f of T_macro m \<Rightarrow> m @ endl | _ \<Rightarrow> [])"

lemma adds_serialize: "adds l l (field_text e l pk pre f) (serialize_field e Os pk pre f)"
proof -
  have "adds l l (m @ endl) (generate_field_macro Os m)" for m
    unfolding generate_field_macro_def by (rule adds_eq, (rule adds_intros)+) simp
  then show ?thesis
    using adds_ind [of l "[''packer.'', pk, ''_enum('', pre, fd_name f, '');'', endl]"]
      adds_ind [of l "[''packer.'', pk, ''('', pre, fd_name f, '');'', endl]"] adds_nothing [of l]
    by (auto simp: serialize_field_def field_text_def ignore_sure split: idl_type.split)
qed

section \<open>The calls of a serializer\<close>

text \<open>What the lexer gives: names without parentheses and line breaks, macro lines that start with a hash.\<close>

definition named :: "idl_field \<Rightarrow> bool" where
  "named f \<longleftrightarrow> CHR 0x0A \<notin> set (fd_name f) \<and> CHR '')'' \<notin> set (fd_name f) \<and>
     (case fd_type f of T_macro m \<Rightarrow> m \<noteq> [] \<and> hd m = CHR ''#'' \<and> CHR 0x0A \<notin> set m | _ \<Rightarrow> True)"

lemma call_of_call:
  assumes "CHR '')'' \<notin> set arg"
  shows "call_of pk (''packer.'' @ pk @ ''_enum('' @ arg @ '');'') = Some (True, arg)" "call_of pk (''packer.'' @ pk @ ''('' @ arg @ '');'') = Some (False, arg)"
proof -
  have "takeWhile (\<lambda>c. c \<noteq> CHR '')'') (arg @ '');'') = arg"
    using assms by (subst takeWhile_append2) auto
  then show "call_of pk (''packer.'' @ pk @ ''_enum('' @ arg @ '');'') = Some (True, arg)"
    "call_of pk (''packer.'' @ pk @ ''('' @ arg @ '');'') = Some (False, arg)"
    by (simp_all add: call_of_def Let_def)
qed

lemma call_of_macro: "m \<noteq> [] \<Longrightarrow> hd m = CHR ''#'' \<Longrightarrow> call_of pk m = None"
  by (cases m) (simp_all add: call_of_def Let_def)

definition wire :: "gen_env \<Rightarrow> string \<Rightarrow> idl_field list \<Rightarrow> (bool \<times> string) list" where
  "wire e pre fs = map (\<lambda>f. (is_enum e f, pre @ fd_name f)) (filter is_serializable_field fs)"

definition serial_word :: "string \<Rightarrow> bool" where
  "serial_word w \<longleftrightarrow> CHR 0x0A \<notin> set w \<and> CHR '')'' \<notin> set w"

lemma calls_field:
  assumes "named f" "serial_word pk" "serial_word pre"
  shows "calls pk (field_text e l pk pre f @ b) = (if is_serializable_field f then [(is_enum e f, pre @ fd_name f)] else []) @ calls pk b"
proof (cases "is_serializable_field f")
  case True
  let ?call = "''packer.'' @ pk @ (if is_enum e f then ''_enum('' else ''('') @ (pre @ fd_name f) @ '');''"
  have "field_text e l pk pre f @ b = (tabs l @ ?call) @ CHR 0x0A # b" using True by (simp add: field_text_def endl_def)
  moreover have nl: "CHR 0x0A \<notin> set (tabs l @ ?call)" using assms by (auto simp: named_def serial_word_def)
  moreover have "call_of pk ?call = Some (is_enum e f, pre @ fd_name f)"
    using assms call_of_call [of "pre @ fd_name f" pk] by (auto simp: named_def serial_word_def)
  ultimately show ?thesis using True calls_line [OF nl, of pk b] by (simp only: call_of_tabs option.case if_True)
next
  case False
  then show ?thesis
    using assms(1) by (cases "fd_type f") (auto simp: field_text_def named_def endl_def calls_line call_of_macro)
qed

lemma calls_fields:
  assumes "list_all named fs" "serial_word pk" "serial_word pre"
  shows "calls pk (concat (map (field_text e l pk pre) fs) @ b) = wire e pre fs @ calls pk b"
  using assms by (induction fs) (auto simp: wire_def calls_field)

text \<open>Lines that are no calls.\<close>

definition quiet :: "string \<Rightarrow> string \<Rightarrow> bool" where
  "quiet pk s \<longleftrightarrow> CHR 0x0A \<notin> set s \<and> call_of pk s = None"

lemma calls_quiet: "quiet pk s \<Longrightarrow> calls pk (tabs l @ s @ CHR 0x0A # b) = calls pk b"
  using calls_line [of "tabs l @ s" pk b] by (simp add: quiet_def)

lemma quiet_lines:
  "quiet ''pack'' ''{''" "quiet ''pack'' ''}''" "quiet ''pack'' ''return packer.is_valid();''" "quiet ''pack'' ''super::pack(packer);''"
  "quiet ''pack'' ''bool pack(::wise::kernel::bits_packer& packer) override''"
  "quiet ''unpack'' ''{''" "quiet ''unpack'' ''}''" "quiet ''unpack'' ''return packer.is_valid();''" "quiet ''unpack'' ''super::unpack(packer);''"
  "quiet ''unpack'' ''bool unpack(::wise::kernel::bits_packer& packer) override''"
  by (simp_all add: quiet_def call_of_def Let_def)

lemma adds_serializes: "adds l l (concat (map (field_text e l pk pre) fs)) (run (map (serialize_field e Os pk pre) fs))"
  by (rule adds_map) (rule adds_serialize)

definition text_of :: "action \<Rightarrow> nat \<Rightarrow> string" where
  "text_of a l = g_out (snd (a (mk_gen\<lparr>g_level := l\<rparr>))) Os"

lemma text_of_adds: "adds l l' s a \<Longrightarrow> text_of a l = s"
  by (simp add: adds_def text_of_def put_def mk_gen_def)

lemma word_pack [simp]: "serial_word ''pack''" "serial_word ''unpack''" "serial_word ''tv.''" "serial_word []"
  by (simp_all add: serial_word_def)

lemma text_message_pack:
  "text_of (generate_message_pack e fs) l =
     tabs (Suc l) @ ''bool pack(::wise::kernel::bits_packer& packer) override'' @ CHR 0x0A # tabs (Suc l) @ ''{'' @ CHR 0x0A #
     tabs (Suc (Suc l)) @ ''super::pack(packer);'' @ CHR 0x0A # concat (map (field_text e (Suc (Suc l)) ''pack'' []) fs) @
     tabs (Suc (Suc l)) @ ''return packer.is_valid();'' @ CHR 0x0A # tabs (Suc l) @ ''}'' @ CHR 0x0A # []"
  unfolding generate_message_pack_def
  by (rule text_of_adds, rule adds_eq, (rule adds_intros adds_serializes)+) (simp add: endl_def)

lemma text_message_unpack:
  "text_of (generate_message_unpack e fs) l =
     tabs (Suc l) @ ''bool unpack(::wise::kernel::bits_packer& packer) override'' @ CHR 0x0A # tabs (Suc l) @ ''{'' @ CHR 0x0A #
     tabs (Suc (Suc l)) @ ''super::unpack(packer);'' @ CHR 0x0A # concat (map (field_text e (Suc (Suc l)) ''unpack'' []) fs) @
     tabs (Suc (Suc l)) @ ''return packer.is_valid();'' @ CHR 0x0A # tabs (Suc l) @ ''}'' @ CHR 0x0A # []"
  unfolding generate_message_unpack_def
  by (rule text_of_adds, rule adds_eq, (rule adds_intros adds_serializes)+) (simp add: endl_def)

lemma text_struct_pack:
  "text_of (generate_struct_pack e x fs) l =
     tabs l @ (''template<> inline bool pack(bits_packer& packer, const '' @ gen_namespace e @ x @ ''& tv) '') @ CHR 0x0A # tabs l @ ''{'' @ CHR 0x0A #
     concat (map (field_text e (Suc l) ''pack'' ''tv.'') fs) @
     tabs (Suc l) @ ''return packer.is_valid();'' @ CHR 0x0A # tabs l @ ''}'' @ CHR 0x0A # []"
  unfolding generate_struct_pack_def
  by (rule text_of_adds, rule adds_eq, (rule adds_intros adds_serializes)+) (simp add: endl_def)

lemma text_struct_unpack:
  "text_of (generate_struct_unpack e x fs) l =
     tabs l @ (''template<> inline bool unpack(bits_packer& packer, '' @ gen_namespace e @ x @ ''& tv) '') @ CHR 0x0A # tabs l @ ''{'' @ CHR 0x0A #
     concat (map (field_text e (Suc l) ''unpack'' ''tv.'') fs) @
     tabs (Suc l) @ ''return packer.is_valid();'' @ CHR 0x0A # tabs l @ ''}'' @ CHR 0x0A # []"
  unfolding generate_struct_unpack_def
  by (rule text_of_adds, rule adds_eq, (rule adds_intros adds_serializes)+) (simp add: endl_def)

lemma message_calls:
  assumes "list_all named fs"
  shows "calls ''pack'' (text_of (generate_message_pack e fs) l) = wire e [] fs"
    "calls ''unpack'' (text_of (generate_message_unpack e fs) l) = wire e [] fs"
  unfolding text_message_pack text_message_unpack
  by (simp_all only: quiet_lines [THEN calls_quiet] calls_Nil append_Nil2
      calls_fields [OF assms word_pack(1) word_pack(4)] calls_fields [OF assms word_pack(2) word_pack(4)])

text \<open>
  The contract of a back end that writes the serialization of messages: the calls of its packing and of its
  unpacking function, as they are read back from the text it writes, are those of \<open>wire\<close>. It depends neither on the language nor
  on the indentation.
\<close>

locale message_writer =
  fixes packed unpacked :: "gen_env \<Rightarrow> idl_field list \<Rightarrow> nat \<Rightarrow> (bool \<times> string) list"
    and accepts :: "idl_field \<Rightarrow> bool"
  assumes packed_wire: "list_all accepts fs \<Longrightarrow> packed e fs l = wire e [] fs"
    and unpacked_wire: "list_all accepts fs \<Longrightarrow> unpacked e fs l = wire e [] fs"
begin

lemma unpacked_mirrors: "list_all accepts fs \<Longrightarrow> unpacked e fs l = packed e fs l'"
  by (simp add: packed_wire unpacked_wire)

lemma calls_per_field: "list_all accepts fs \<Longrightarrow> length (packed e fs l) = length (filter is_serializable_field fs)"
  by (simp add: packed_wire wire_def)

lemma packed_names: "list_all accepts fs \<Longrightarrow> map snd (packed e fs l) = map fd_name (filter is_serializable_field fs)"
  by (simp add: packed_wire wire_def)

end

interpretation cplus: message_writer "\<lambda>e fs l. calls ''pack'' (text_of (generate_message_pack e fs) l)"
  "\<lambda>e fs l. calls ''unpack'' (text_of (generate_message_unpack e fs) l)" named
  by unfold_locales (rule message_calls; assumption)+

text \<open>
  C18. The unpacking function the generator writes for a message or a structure calls the packer for the same
  fields, in the same order and with the same kind of call as the packing function, and these are exactly the
  fields that are no topic, option or macro, in the order of the definition.\<close>

theorem unpack_mirrors_pack:
  assumes "list_all named fs" "serial_word (gen_namespace e @ x)"
  shows "calls ''pack'' (text_of (generate_message_pack e fs) l) = wire e [] fs \<and>
    calls ''unpack'' (text_of (generate_message_unpack e fs) l) = wire e [] fs \<and>
    calls ''pack'' (text_of (generate_struct_pack e x fs) l) = wire e ''tv.'' fs \<and>
    calls ''unpack'' (text_of (generate_struct_unpack e x fs) l) = wire e ''tv.'' fs"
proof (intro conjI)
  have h: "quiet ''pack'' (''template<> inline bool pack(bits_packer& packer, const '' @ gen_namespace e @ x @ ''& tv) '')"
    "quiet ''unpack'' (''template<> inline bool unpack(bits_packer& packer, '' @ gen_namespace e @ x @ ''& tv) '')"
    using assms(2) by (auto simp: serial_word_def quiet_def call_of_def Let_def)
  note c = calls_quiet [OF h(1)] calls_quiet [OF h(2)] quiet_lines [THEN calls_quiet] calls_Nil append_Nil2
    calls_fields [OF assms(1) word_pack(1) word_pack(3)] calls_fields [OF assms(1) word_pack(2) word_pack(3)]
  show "calls ''pack'' (text_of (generate_message_pack e fs) l) = wire e [] fs" by (rule cplus.packed_wire [OF assms(1)])
  show "calls ''unpack'' (text_of (generate_message_unpack e fs) l) = wire e [] fs" by (rule cplus.unpacked_wire [OF assms(1)])
  show "calls ''pack'' (text_of (generate_struct_pack e x fs) l) = wire e ''tv.'' fs" unfolding text_struct_pack by (simp only: c)
  show "calls ''unpack'' (text_of (generate_struct_unpack e x fs) l) = wire e ''tv.'' fs" unfolding text_struct_unpack by (simp only: c)
qed

definition some_fields :: "idl_field list" where
  "some_fields = [\<lparr>fd_type = T_topic ''a.b.c'', fd_name = [], fd_value = None\<rparr>, \<lparr>fd_type = T_simple TYPE_I32, fd_name = ''x'', fd_value = None\<rparr>,
     \<lparr>fd_type = T_macro ''#endif'', fd_name = [], fd_value = None\<rparr>, \<lparr>fd_type = T_full [] ''color'', fd_name = ''y'', fd_value = None\<rparr>]"

definition color_env :: gen_env where
  "color_env = \<lparr>ge_program = mk_program ''m.bits'', ge_symbols = [(''color'', \<lparr>sym_type = Sym_enum, sym_full_name = ''color'',
     sym_simple_name = ''color'', sym_node = 1\<rparr>)], ge_heap = (\<lambda>_. None), ge_replace_extension = (\<lambda>p x. ''m.hpp'')\<rparr>"

theorem unpack_mirrors_pack_witness:
  "calls ''pack'' (text_of (generate_message_pack color_env some_fields) 0) = [(False, ''x''), (True, ''y'')] \<and>
   calls ''unpack'' (text_of (generate_message_unpack color_env some_fields) 0) = [(False, ''x''), (True, ''y'')]"
proof -
  have "list_all named some_fields" by (simp add: some_fields_def named_def)
  moreover have "serial_word (gen_namespace color_env @ ''m'')"
    by (simp add: color_env_def gen_namespace_def program_namespace_def mk_program_def serial_word_def)
  moreover have "wire color_env [] some_fields = [(False, ''x''), (True, ''y'')]"
    by (simp add: wire_def some_fields_def is_serializable_field_def is_enum_def Let_def color_env_def symbol_is_enum_def
        symbol_lookup_def um_find_Cons get_fullname_def program_namespace_def mk_program_def namespace_string_def)
  ultimately show ?thesis using unpack_mirrors_pack [of some_fields color_env "''m''" 0] by simp
qed

end
