(* ===== verification/Csharp_Laws.thy ===== *)
theory Csharp_Laws
  imports Csharp_Generator Cplus_Mirror
begin

text \<open>
  The C# client and the C++ server: the code both generators write for a message puts the same fields on the wire, in
  the same order.
\<close>

section \<open>Reading C# text\<close>

definition cs_arg :: "string \<Rightarrow> string" where
  "cs_arg s = (let t = dropWhile (\<lambda>c. c = CHR '' '') s; u = (if prefix ''out '' t then drop 4 t else t)
     in takeWhile (\<lambda>c. c \<noteq> CHR '')'') u)"

text \<open>The call on the packer a line has; \<open>w\<close> is \<^verbatim>\<open>Pack\<close> or \<^verbatim>\<open>Unpack\<close>.\<close>

definition cs_call_of :: "string \<Rightarrow> string \<Rightarrow> (bool \<times> string) option" where
  "cs_call_of w line =
     (let l = dropWhile (\<lambda>c. c = CHR 0x09) line; en = ''packer.'' @ w @ ''Enum(stream, ''; sh = ''packer.'' @ w @ ''Short(stream, '';
          pl = ''packer.'' @ w @ ''(stream, ''
      in if prefix en l then Some (True, cs_arg (drop (length en) l))
         else if prefix sh l then Some (False, cs_arg (drop (length sh) l))
         else if prefix pl l then Some (False, cs_arg (drop (length pl) l))
         else None)"

definition cs_calls :: "string \<Rightarrow> string \<Rightarrow> (bool \<times> string) list" where
  "cs_calls w text = List.map_filter (cs_call_of w) (lines_of text)"

lemma cs_call_of_tabs: "cs_call_of w (tabs l @ s) = cs_call_of w s"
  unfolding cs_call_of_def tabs_line(2) ..

lemma cs_calls_line:
  "CHR 0x0A \<notin> set a \<Longrightarrow> cs_calls w (tabs l @ a @ CHR 0x0A # b) = (case cs_call_of w a of Some c \<Rightarrow> [c] | None \<Rightarrow> []) @ cs_calls w b"
  using lines_of_line [of "tabs l @ a" b]
  by (simp add: cs_calls_def cs_call_of_tabs List.map_filter_def split: option.split)

lemma cs_calls_Nil [simp]: "cs_calls w [] = []"
  by (simp add: cs_calls_def List.map_filter_def)

section \<open>The lines of a field\<close>

text \<open>Names as the lexer gives them: without blanks too.\<close>

definition cs_named :: "idl_field \<Rightarrow> bool" where
  "cs_named f \<longleftrightarrow> named f \<and> CHR '' '' \<notin> set (fd_name f)"

definition cs_suffix :: "gen_env \<Rightarrow> idl_field \<Rightarrow> string" where
  "cs_suffix e f = (if is_enum e f then ''Enum'' else if is_short_type_field f then ''Short'' else [])"

text \<open>\<open>mark\<close> is what is before the name: nothing, or \<^verbatim>\<open>out\<close> with or without a space.\<close>

definition cs_line :: "gen_env \<Rightarrow> nat \<Rightarrow> string \<Rightarrow> string \<Rightarrow> idl_field \<Rightarrow> string" where
  "cs_line e l w mark f =
     (if is_serializable_field f then tabs l @ (''packer.'' @ w @ cs_suffix e f @ ''(stream, '' @ mark @ fd_name f @ '');'') @ CHR 0x0A # []
      else case fd_type f of T_macro m \<Rightarrow> m @ CHR 0x0A # [] | _ \<Rightarrow> [])"

definition out_mark :: "gen_env \<Rightarrow> string \<Rightarrow> idl_field \<Rightarrow> string" where
  "out_mark e sp f = (case fd_type f of T_vec _ _ \<Rightarrow> if is_enum e f then sp @ ''out '' else [] | _ \<Rightarrow> sp @ ''out '')"

lemma adds_cs_macro: "adds l l (m @ CHR 0x0A # []) (cs_field_macro m)"
  unfolding cs_field_macro_def by (rule adds_eq, (rule adds_intros)+) (simp add: endl_def)

lemma sure_cs_macro: "sure (cs_field_macro m)"
  by (simp add: cs_field_macro_def)

lemma adds_cs_pack: "adds l l (cs_line e l ''Pack'' [] f) (cs_pack_field e f)"
  using adds_ind [of l "[''packer.PackEnum(stream, '', fd_name f, '');'', endl]"]
    adds_ind [of l "[''packer.PackShort(stream, '', fd_name f, '');'', endl]"]
    adds_ind [of l "[''packer.Pack(stream, '', fd_name f, '');'', endl]"] adds_nothing [of l]
  by (auto simp: cs_pack_field_def cs_line_def cs_suffix_def endl_def ignore_sure [OF sure_cs_macro] adds_cs_macro split: idl_type.split)

lemma adds_cs_unpack: "adds l l (cs_line e l ''Unpack'' (out_mark e sp f) f) (cs_unpack_field e sp f)"
proof (cases "is_serializable_field f")
  case True
  show ?thesis
  proof (cases "is_enum e f")
    case True
    then show ?thesis
      using \<open>is_serializable_field f\<close> adds_ind [of l "[''packer.UnpackEnum(stream, '', sp, ''out '', fd_name f, '');'', endl]"]
      by (simp add: cs_unpack_field_def cs_line_def cs_suffix_def endl_def out_mark_def split: idl_type.split)
  next
    case False
    have h: "adds l l (tabs l @ ''packer.Unpack'' @ cs_suffix e f @ ''(stream, '')
        (if is_short_type_field f then ind Os [''packer.UnpackShort(stream, ''] else ind Os [''packer.Unpack(stream, ''])"
      using adds_ind [of l "[''packer.UnpackShort(stream, '']"] adds_ind [of l "[''packer.Unpack(stream, '']"] False
      by (simp add: cs_suffix_def)
    have m: "adds l l (out_mark e sp f) (case fd_type f of T_vec _ _ \<Rightarrow> nothing | _ \<Rightarrow> out Os [sp, ''out ''])"
      using adds_out [of l "[sp, ''out '']"] adds_nothing [of l] False by (simp add: out_mark_def split: idl_type.split)
    show ?thesis
      using True False adds_run_Cons [OF h adds_run_Cons [OF m adds_run_Cons [OF adds_out [of l "[fd_name f, '');'', endl]"] adds_run_Nil]]]
      by (simp add: cs_unpack_field_def cs_line_def endl_def)
  qed
next
  case False
  then show ?thesis
    using adds_nothing [of l]
    by (auto simp: cs_unpack_field_def cs_line_def ignore_sure [OF sure_cs_macro] adds_cs_macro split: idl_type.split)
qed

section \<open>The calls of a C# serializer\<close>

lemma cs_arg_name:
  assumes "CHR '')'' \<notin> set x" "CHR '' '' \<notin> set x" "mark = [] \<or> mark = ''out '' \<or> mark = '' out ''"
  shows "cs_arg (mark @ x @ '');'') = x"
proof -
  have t: "takeWhile (\<lambda>c. c \<noteq> CHR '')'') (x @ '');'') = x" using assms(1) by (subst takeWhile_append2) auto
  have d: "dropWhile (\<lambda>c. c = CHR '' '') (x @ '');'') = x @ '');''" using assms(2) by (cases x) auto
  have n: "\<not> prefix ''out '' (x @ '');'')"
  proof
    assume "prefix ''out '' (x @ '');'')"
    then obtain zs where z: "x @ '');'' = ''out '' @ zs" by (auto simp: prefix_def)
    have "CHR '' '' \<in> set (x @ '');'')" unfolding z by simp
    then show False using assms(2) by simp
  qed
  show ?thesis using assms(3) t d n by (auto simp: cs_arg_def Let_def)
qed

lemma cs_call_of_call:
  assumes "sf = ''Enum'' \<or> sf = ''Short'' \<or> sf = []"
  shows "cs_call_of w (''packer.'' @ w @ sf @ ''(stream, '' @ r) = Some (sf = ''Enum'', cs_arg r)"
  using assms by (auto simp: cs_call_of_def Let_def)

lemma cs_calls_field:
  assumes f: "cs_named f" and w: "serial_word w" and m: "mark = [] \<or> mark = ''out '' \<or> mark = '' out ''"
  shows "cs_calls w (cs_line e l w mark f @ b) = (if is_serializable_field f then [(is_enum e f, fd_name f)] else []) @ cs_calls w b"
proof (cases "is_serializable_field f")
  case True
  let ?c = "''packer.'' @ w @ cs_suffix e f @ ''(stream, '' @ mark @ fd_name f @ '');''"
  have x: "CHR '')'' \<notin> set (fd_name f)" "CHR '' '' \<notin> set (fd_name f)" "CHR 0x0A \<notin> set (fd_name f)" using f by (auto simp: cs_named_def named_def)
  have "CHR 0x0A \<notin> set ?c" using x w m by (auto simp: serial_word_def cs_suffix_def)
  moreover have "cs_call_of w ?c = Some (is_enum e f, fd_name f)"
    using cs_call_of_call [of "cs_suffix e f" w] cs_arg_name [OF x(1,2) m] by (auto simp: cs_suffix_def)
  ultimately show ?thesis using True cs_calls_line [of ?c w l b] by (simp add: cs_line_def)
next
  case False
  have "cs_calls w (m' @ CHR 0x0A # b) = cs_calls w b" if "fd_type f = T_macro m'" for m'
  proof -
    have m': "m' \<noteq> []" "hd m' = CHR ''#''" "CHR 0x0A \<notin> set m'" using f that by (auto simp: cs_named_def named_def)
    then have "cs_call_of w m' = None" by (cases m') (auto simp: cs_call_of_def Let_def)
    then show ?thesis using cs_calls_line [of m' w 0 b] m'(3) by (simp add: tabs_def)
  qed
  then show ?thesis using False by (simp add: cs_line_def split: idl_type.split)
qed

lemma cs_calls_fields:
  assumes "list_all cs_named fs" "serial_word w" "\<And>f. mark f = [] \<or> mark f = ''out '' \<or> mark f = '' out ''"
  shows "cs_calls w (concat (map (\<lambda>f. cs_line e l w (mark f) f) fs) @ b) = wire e [] fs @ cs_calls w b"
  using assms by (induction fs) (auto simp: wire_def cs_calls_field)

lemma text_cs_serializer:
  assumes "adds (Suc (Suc l)) (Suc (Suc l)) s (run body)"
  shows "text_of (cs_serializer head body) l =
    tabs (Suc l) @ head @ CHR 0x0A # tabs (Suc l) @ ''{'' @ CHR 0x0A # s @
    tabs (Suc (Suc l)) @ ''return true;'' @ CHR 0x0A # tabs (Suc l) @ ''}'' @ CHR 0x0A # []"
  unfolding cs_serializer_def
  by (rule text_of_adds, rule adds_eq, (rule adds_intros assms)+) (simp add: endl_def)

lemma cs_calls_serializer:
  assumes "list_all cs_named fs" "serial_word w" "\<And>f. mark f = [] \<or> mark f = ''out '' \<or> mark f = '' out ''"
    and "\<And>f. adds (Suc (Suc l)) (Suc (Suc l)) (cs_line e (Suc (Suc l)) w (mark f) f) (a f)"
    and "CHR 0x0A \<notin> set head" "cs_call_of w head = None"
  shows "cs_calls w (text_of (cs_serializer head (map a fs)) l) = wire e [] fs"
proof -
  have q: "CHR 0x0A \<notin> set x \<Longrightarrow> cs_call_of w x = None \<Longrightarrow> cs_calls w (tabs k @ x @ CHR 0x0A # b) = cs_calls w b" for x k b
    by (simp add: cs_calls_line)
  have lit: "cs_call_of w ''{'' = None" "cs_call_of w ''return true;'' = None" "cs_call_of w ''}'' = None"
    by (simp_all add: cs_call_of_def Let_def)
  have nl: "CHR 0x0A \<notin> set ''{''" "CHR 0x0A \<notin> set ''return true;''" "CHR 0x0A \<notin> set ''}''" by simp_all
  note t = text_cs_serializer [OF adds_map [of fs, OF assms(4)]]
  show ?thesis
    unfolding t q [OF assms(5,6)] q [OF nl(1) lit(1)] cs_calls_fields [OF assms(1,2,3)] q [OF nl(2) lit(2)] q [OF nl(3) lit(3)]
    by simp
qed

lemma out_mark_cases: "sp = [] \<or> sp = '' '' \<Longrightarrow> out_mark e sp f = [] \<or> out_mark e sp f = ''out '' \<or> out_mark e sp f = '' out ''"
  by (auto simp: out_mark_def split: idl_type.split)

lemma cs_message_calls:
  assumes "list_all cs_named fs"
  shows "cs_calls ''Pack'' (text_of (cs_message_pack e fs) l) = wire e [] fs"
    "cs_calls ''Unpack'' (text_of (cs_message_unpack e fs) l) = wire e [] fs"
proof -
  have w: "serial_word ''Pack''" "serial_word ''Unpack''" by (simp_all add: serial_word_def)
  have h: "cs_call_of ''Pack'' ''public override bool Pack(Packer packer, Stream stream) '' = None"
    "cs_call_of ''Unpack'' ''public override bool Unpack(Packer packer, Stream stream) '' = None"
    by (simp_all add: cs_call_of_def Let_def)
  show "cs_calls ''Pack'' (text_of (cs_message_pack e fs) l) = wire e [] fs"
    unfolding cs_message_pack_def
    by (rule cs_calls_serializer [OF assms w(1) _ adds_cs_pack _ h(1)]) simp_all
  show "cs_calls ''Unpack'' (text_of (cs_message_unpack e fs) l) = wire e [] fs"
    unfolding cs_message_unpack_def
    by (rule cs_calls_serializer [OF assms w(2) out_mark_cases adds_cs_unpack _ h(2)]) simp_all
qed

interpretation csharp: message_writer "\<lambda>e fs l. cs_calls ''Pack'' (text_of (cs_message_pack e fs) l)"
  "\<lambda>e fs l. cs_calls ''Unpack'' (text_of (cs_message_unpack e fs) l)" cs_named
  by unfold_locales (rule cs_message_calls; assumption)+



end
