(* ===== verification/Idl_Compiler.thy ===== *)
theory Idl_Compiler
  imports Idl_Context Csharp_Laws
begin

text \<open>
  The whole interface compiler (\<^verbatim>\<open>tool/bits/idl/idl_context.cpp\<close>, \<^verbatim>\<open>idl_main.cpp\<close>): parsing, then generating for one
  program after the other from the top of the stack. A program dies when it has been generated, and its nodes
  with it; the symbol table keeps their addresses.
\<close>

section \<open>Generating\<close>

text \<open>The nodes that are alive while the programs \<open>ps\<close> are.\<close>

definition live_nodes :: "idl_program list \<Rightarrow> node_addr \<Rightarrow> idl_node option" where
  "live_nodes ps = map_of (concat (map pr_nodes ps))"

type_synonym written = "(string \<times> gen) list"

(* [tool/bits/idl/idl_main.cpp:154-189 generate_program_cplus] *)
definition generate_program_cplus :: "gen_env \<Rightarrow> outcome \<times> written" where
  "generate_program_cplus e =
     (let (rc, g) = cplus_generate e mk_gen in (rc, [(ge_replace_extension e (pr_path (ge_program e)) ''.hpp'', g)]))"

(* [tool/bits/idl/idl_main.cpp:130-152 generate_program_csharp] *)
definition generate_program_csharp :: "gen_env \<Rightarrow> outcome \<times> written" where
  "generate_program_csharp e =
     (let (rc, g) = csharp_generate e mk_gen in (rc, [(ge_replace_extension e (pr_path (ge_program e)) ''.cs'', g)]))"

(* [tool/bits/idl/idl_main.cpp:111-128 generate_program] *)
definition generate_program :: "idl_config \<Rightarrow> gen_env \<Rightarrow> outcome \<times> written" where
  "generate_program cf e =
     (let (rc1, w1) = (if cf_cplus cf then generate_program_cplus e else (Done, []))
      in if rc1 \<noteq> Done then (rc1, w1)
         else let (rc2, w2) = (if cf_csharp cf then generate_program_csharp e else (Done, []))
              in (rc2, w1 @ w2))"

(* [tool/bits/idl/idl_context.cpp:104-136 idl_context::generate] *)
fun generate_all :: "(string \<Rightarrow> string \<Rightarrow> string) \<Rightarrow> idl_config \<Rightarrow> symbol_table \<Rightarrow> idl_program list \<Rightarrow> outcome \<times> written" where
  "generate_all rx cf tab [] = (Done, [])"
| "generate_all rx cf tab (p # ps) =
     (let (rc, w) = generate_program cf \<lparr>ge_program = p, ge_symbols = tab, ge_heap = live_nodes (p # ps), ge_replace_extension = rx\<rparr>;
          (rc', w') = generate_all rx cf tab ps
      in case rc of
           Crash m \<Rightarrow> (Crash m, w)
         | Failed m \<Rightarrow> if \<not> cf_continue cf then (Failed m, w) else (rc', w @ w')
         | Done \<Rightarrow> (rc', w @ w'))"

text \<open>\<open>None\<close> when the parsing phase never ends; otherwise how the compiler ends and what it wrote.\<close>

(* [tool/bits/idl/idl_context.cpp:14-44 idl_context::start] *)
definition idl_start :: "(string \<Rightarrow> string \<Rightarrow> string) \<Rightarrow> yy \<Rightarrow> idl_config \<Rightarrow> idl_context \<Rightarrow> (outcome \<times> written) option" where
  "idl_start rx yy cf cx =
     (if cx_started cx then Some (Failed ''started already'', [])
      else if cf_main_file cf = [] then Some (Failed ''no main file'', [])
      else case parse_phase yy (cx\<lparr>cx_config := cf\<rparr>) of
             None \<Rightarrow> None
           | Some (False, _) \<Rightarrow> Some (Failed ''parse'', [])
           | Some (True, cx1) \<Rightarrow> Some (generate_all rx cf (cx_symbols cx1) (cx_pstack cx1)))"

section \<open>The programs on the stack\<close>

definition parsed_from :: "yy \<Rightarrow> idl_program \<Rightarrow> bool" where
  "parsed_from yy p \<longleftrightarrow> (\<exists>ok. yy (pr_path p) = Some (ok, pr_nodes p)) \<and> flags_ok p"

lemma push_includes_pstack: "cx_pstack (push_includes ns cx) = cx_pstack cx"
  using push_includes_facts by blast

lemma parse_file_programs:
  assumes "\<forall>p \<in> set (cx_pstack cx). parsed_from yy p" "parse_file yy path cx = (ok, cx')"
  shows "\<forall>p \<in> set (cx_pstack cx'). parsed_from yy p"
proof (cases "yy path")
  case None
  then show ?thesis using assms by (simp add: parse_file_def)
next
  case (Some od)
  obtain b defs where od: "od = (b, defs)" by (cases od)
  obtain prog tab where p: "parse_nodes defs (mk_program path, cx_symbols cx) = (prog, tab)" by (meson surj_pair)
  have "pr_nodes prog = defs" "pr_path prog = path" "flags_ok prog"
    using parse_nodes_program [of defs "mk_program path" "cx_symbols cx"] p mk_program_flags [of path] by (simp_all add: mk_program_def)
  then have g: "parsed_from yy prog" using Some od by (simp add: parsed_from_def)
  have "cx_pstack cx' = prog # cx_pstack cx"
    using assms(2) Some od p push_includes_pstack by (auto simp: parse_file_def push_program_def Let_def split: if_splits)
  then show ?thesis using assms(1) g by simp
qed

lemma parse_loop_programs:
  assumes "parse_loop yy cx = Some r"
  shows "(\<forall>p \<in> set (cx_pstack cx). parsed_from yy p) \<longrightarrow> (\<forall>p \<in> set (cx_pstack (snd r)). parsed_from yy p)" (is "?P yy cx r")
proof (rule parse_loop.raw_induct [of ?P, OF _ assms], intro impI)
  fix loop and yy :: yy and cx r
  assume IH: "\<And>yy cx r. loop yy cx = Some r \<Longrightarrow> ?P yy cx r" and pre: "\<forall>p \<in> set (cx_pstack cx). parsed_from yy p"
    and body: "(case cx_fstack cx of [] \<Rightarrow> Some (True, cx) | f # fs \<Rightarrow>
      let cx1 = cx\<lparr>cx_fstack := fs\<rparr>; found = um_find (fs_path f) (cx_states cx1)
      in if found = None \<or> \<not> fs_processed (the found) then
           let (ok, cx2) = parse_file yy (fs_path f) cx1
           in if \<not> ok then Some (False, cx2)
              else loop yy (cx2\<lparr>cx_states := um_set (fs_path f) (f\<lparr>fs_processed := True\<rparr>) (cx_states cx2)\<rparr>)
         else loop yy cx1) = Some r"
  show "\<forall>p \<in> set (cx_pstack (snd r)). parsed_from yy p"
  proof (cases "cx_fstack cx")
    case Nil
    then show ?thesis using body pre by auto
  next
    case (Cons f fs)
    obtain ok cx2 where p: "parse_file yy (fs_path f) (cx\<lparr>cx_fstack := fs\<rparr>) = (ok, cx2)" by (meson surj_pair)
    have 2: "\<forall>p \<in> set (cx_pstack cx2). parsed_from yy p" by (rule parse_file_programs [OF _ p]) (use pre in simp)
    let ?c3 = "cx2\<lparr>cx_states := um_set (fs_path f) (f\<lparr>fs_processed := True\<rparr>) (cx_states cx2)\<rparr>"
    have "r = (False, cx2) \<or> loop yy ?c3 = Some r \<or> loop yy (cx\<lparr>cx_fstack := fs\<rparr>) = Some r"
      using body unfolding Cons list.case Let_def p prod.case by (simp only: option.inject split: if_splits) blast+
    then consider "r = (False, cx2)" | "loop yy ?c3 = Some r" | "loop yy (cx\<lparr>cx_fstack := fs\<rparr>) = Some r" by blast
    then show ?thesis
    proof cases
      case 1
      then show ?thesis using 2 by simp
    next
      case b: 2
      show ?thesis using IH [OF b] 2 by simp
    next
      case 3
      show ?thesis using IH [OF 3] pre by simp
    qed
  qed
qed

section \<open>The C# generator is never undefined\<close>

lemma safe_ignore: "safe a \<Longrightarrow> safe (ignore a)"
  by (rule safe_simps(1) [OF sure_ignore])

lemma safe_fail_as: "safe a \<Longrightarrow> safe (fail_as m a)"
proof -
  assume s: "safe a"
  have "fst (fail_as m a g) \<noteq> Crash x" for g x
  proof (cases "a g")
    case (Pair r g')
    then have "r \<noteq> Crash y" for y using s unfolding safe_def by (metis fst_conv)
    then show ?thesis using Pair by (cases r) (auto simp: fail_as_def)
  qed
  then show ?thesis by (simp add: safe_def)
qed

lemma safe_run_Nil: "safe (run [])"
  by (simp add: safe_simps)

lemma safe_run_Cons: "safe a \<Longrightarrow> safe (run as) \<Longrightarrow> safe (run (a # as))"
proof -
  assume s: "safe a" "safe (run as)"
  have "fst (run (a # as) g) \<noteq> Crash m" for g m
    using s by (cases "a g"; cases "fst (a g)") (auto simp: safe_def run_Cons, metis fst_conv)
  then show ?thesis by (simp add: safe_def)
qed

lemma safe_run_append: "safe (run as) \<Longrightarrow> safe (run bs) \<Longrightarrow> safe (run (as @ bs))"
  using safe_run_Cons [of "run as" bs] by (simp add: safe_def run_Cons run_append)

lemma safe_cs_expression: "safe (cs_expression ex)"
proof (induction ex rule: cs_expression.induct)
  case (1 op v es)
  have "safe (cs_operator p)" for p by (cases p) (simp_all add: safe_simps)
  moreover have "safe (ignore (cs_expression_value v))" by (cases v) (simp_all add: safe_ignore safe_simps)
  ultimately show ?case using 1 by (auto simp: list_all_iff intro!: safe_run)
qed

lemma safe_cs_field: "safe (cs_field e f)"
proof -
  have "safe (cs_field_simple_type f t)" for t
    unfolding cs_field_simple_type_def
    by (intro safe_run) (simp add: safe_simps safe_cs_expression safe_run split: option.split)
  moreover have "sure (cs_field_full_type e f ns x)" "sure (cs_field_vec f v)" for ns x v
    by (simp_all add: cs_field_full_type_def cs_field_vec_def)
  ultimately show ?thesis by (simp add: cs_field_def sure_cs_macro safe_simps split: idl_type.split)
qed

lemma sure_cs_serializers: "sure (cs_struct_pack e fs)" "sure (cs_struct_unpack e fs)" "sure (cs_message_pack e fs)" "sure (cs_message_unpack e fs)"
proof -
  have "sure (cs_pack_field e f)" "sure (cs_unpack_field e sp f)" for f sp
    by (auto simp: cs_pack_field_def cs_unpack_field_def ignore_sure [OF sure_cs_macro] sure_cs_macro split: idl_type.split)
  then show "sure (cs_struct_pack e fs)" "sure (cs_struct_unpack e fs)" "sure (cs_message_pack e fs)" "sure (cs_message_unpack e fs)"
    by (auto simp: cs_struct_pack_def cs_struct_unpack_def cs_message_pack_def cs_message_unpack_def cs_serializer_def list_all_iff)
qed

lemma safe_cs_topic: "safe (cs_topic x)"
  unfolding cs_topic_def split_tokens option.case by (simp add: safe_simps split: list.split)

lemma sure_cs_enum: "sure (cs_enum x vs)"
  unfolding cs_enum_def
  by (intro sure_run) (auto simp: list_all_iff sure_ignore [OF safe_cs_expression] split: option.split)

lemma safe_cs_message: "safe (cs_message e x sc fs)"
proof -
  have t: "safe (fail_as m (cs_message_topic fs))" for m
    by (intro safe_fail_as) (simp add: cs_message_topic_def safe_cs_topic safe_simps split: option.split)
  have f: "safe (run (map (cs_field e) fs))" by (intro safe_run) (simp add: list_all_iff safe_cs_field)
  have o: "safe (if c then ind st ss else nothing)" for c st ss by (simp add: safe_simps)
  have i: "safe a \<Longrightarrow> safe (if c then nothing else a)" for c a by (simp add: safe_simps)
  note sure = sure_simps sure_cs_serializers
  show ?thesis
    unfolding cs_message_def
    by (rule safe_run_append safe_run_Cons safe_run_Nil i o f t sure [THEN safe_simps(1)])+
qed

lemma safe_cs_node: "safe (cs_node e n)"
  by (cases n) (simp_all add: safe_simps sure_cs_enum safe_cs_message cs_struct_def list_all_iff safe_run sure_cs_serializers safe_cs_field)

lemma safe_csharp: "safe (csharp_generate e)"
proof -
  have n: "sure cs_prolog" "sure (cs_include ps)" "sure (cs_namespace_begin e)" "sure (cs_namespace_end e)" "sure cs_epilog" "sure (cs_factory e)" for ps
    by (auto simp: cs_prolog_def cs_include_def cs_namespace_begin_def cs_namespace_end_def cs_epilog_def cs_factory_def list_all_iff
        intro!: sure_run split: option.split)
  have "safe (cs_nodes e)"
    unfolding cs_nodes_def Let_def by (intro safe_run) (auto simp: list_all_iff safe_simps n safe_cs_node)
  then show ?thesis unfolding csharp_generate_def by (simp add: safe_run safe_simps n)
qed

section \<open>Compiling\<close>

text \<open>Definitions the parser can hand over, without transactions.\<close>

definition defs_ok :: "yy \<Rightarrow> string \<Rightarrow> bool" where
  "defs_ok yy a \<longleftrightarrow> (\<exists>defs. yy a = Some (True, defs) \<and> list_all node_fields_ok (map snd defs))"

lemma generate_program_outcome:
  assumes "list_all node_fields_ok (map snd (pr_nodes (ge_program e)))" "cf_cplus cf"
  shows "(\<forall>m. fst (generate_program cf e) \<noteq> Crash m) \<and>
    ge_replace_extension e (pr_path (ge_program e)) ''.hpp'' \<in> fst ` set (snd (generate_program cf e))"
proof -
  obtain rc g where c: "cplus_generate e mk_gen = (rc, g)" by (meson surj_pair)
  obtain rc' g' where s: "csharp_generate e mk_gen = (rc', g')" by (meson surj_pair)
  have "gives no_topic (list_all node_ok (map snd (pr_nodes (ge_program e)))) (cplus_generate e)" by (rule gives_cplus [OF assms(1)])
  then have "fst (cplus_generate e mk_gen) = (if list_all node_ok (map snd (pr_nodes (ge_program e))) then Done else Failed no_topic)"
    unfolding gives_def by blast
  then have "rc \<noteq> Crash m" for m using c by (auto split: if_splits)
  moreover have "rc' \<noteq> Crash m" for m using s safe_csharp [of e] unfolding safe_def by (metis fst_conv)
  ultimately show ?thesis
    using assms(2) c s by (auto simp: generate_program_def generate_program_cplus_def generate_program_csharp_def)
qed

lemma generate_all_outcome:
  assumes "cf_cplus cf" "cf_continue cf" "list_all (\<lambda>p. list_all node_fields_ok (map snd (pr_nodes p))) ps"
  shows "fst (generate_all rx cf tab ps) = Done \<and> (\<forall>p \<in> set ps. rx (pr_path p) ''.hpp'' \<in> fst ` set (snd (generate_all rx cf tab ps)))"
  using assms(3)
proof (induction ps)
  case (Cons p ps)
  let ?e = "\<lparr>ge_program = p, ge_symbols = tab, ge_heap = live_nodes (p # ps), ge_replace_extension = rx\<rparr>"
  obtain rc w where g: "generate_program cf ?e = (rc, w)" by (meson surj_pair)
  obtain rc' w' where r: "generate_all rx cf tab ps = (rc', w')" by (meson surj_pair)
  have rc: "\<forall>m. rc \<noteq> Crash m" "rx (pr_path p) ''.hpp'' \<in> fst ` set w"
    using generate_program_outcome [of ?e cf] Cons.prems assms(1) g by auto
  have e: "generate_all rx cf tab (p # ps) = (rc', w @ w')"
    using g r rc(1) assms(2) by (cases rc) (auto simp: Let_def)
  show ?case using Cons r rc(2) unfolding e by (auto simp: image_Un)
qed simp

text \<open>
  C23. With the settings of the command line, a set of files that open and are accepted, without transactions, is
  compiled: the compiler ends, writes a header for each file that includes lead to, and reports success -
  even when the generation of some file failed for want of a topic.\<close>

theorem compile_writes_all:
  assumes "cf_main_file cf \<noteq> []" "cf_cplus cf" "cf_continue cf" "finite (reached yy (cf_main_file cf))"
    and "\<And>a. a \<in> reached yy (cf_main_file cf) \<Longrightarrow> defs_ok yy a"
  shows "\<exists>w. idl_start rx yy cf (mk_context cf) = Some (Done, w) \<and>
    (\<lambda>a. rx a ''.hpp'') ` reached yy (cf_main_file cf) \<subseteq> fst ` set w"
proof -
  have ok: "\<exists>defs. yy a = Some (True, defs)" if "a \<in> reached yy (cf_main_file cf)" for a
    using assms(5) [OF that] by (auto simp: defs_ok_def)
  obtain cx where cx: "parse_phase yy (mk_context cf) = Some (True, cx)" "set (parsed cx) = reached yy (cf_main_file cf)"
    using parse_phase_covers [OF assms(4) ok] by blast
  have "\<forall>p \<in> set (cx_pstack cx). parsed_from yy p"
    using parse_loop_programs [OF cx(1) [unfolded parse_phase_def]] by (simp add: mk_context_def)
  then have "list_all (\<lambda>p. list_all node_fields_ok (map snd (pr_nodes p))) (cx_pstack cx)"
    using assms(5) cx(2) by (fastforce simp: list_all_iff parsed_from_def defs_ok_def parsed_def)
  from generate_all_outcome [OF assms(2,3) this, of rx "cx_symbols cx"]
  obtain w where w: "generate_all rx cf (cx_symbols cx) (cx_pstack cx) = (Done, w)" "\<forall>p \<in> set (cx_pstack cx). rx (pr_path p) ''.hpp'' \<in> fst ` set w"
    by (metis prod.collapse)
  have "(mk_context cf)\<lparr>cx_config := cf\<rparr> = mk_context cf" by (simp add: mk_context_def)
  then have "idl_start rx yy cf (mk_context cf) = Some (Done, w)"
    using assms(1) cx(1) w(1) by (simp add: idl_start_def) (simp add: mk_context_def)
  moreover have "(\<lambda>a. rx a ''.hpp'') ` reached yy (cf_main_file cf) \<subseteq> fst ` set w"
    using w(2) unfolding cx(2) [symmetric] parsed_def by auto
  ultimately show ?thesis by blast
qed

theorem compile_writes_all_witness:
  "\<exists>w. idl_start (\<lambda>p x. p @ x) two_files a_config (mk_context a_config) = Some (Done, w) \<and> {''a.hpp'', ''b.hpp''} \<subseteq> fst ` set w"
proof -
  have c: "cf_main_file a_config = ''a''" "cf_cplus a_config" "cf_continue a_config" by (simp_all add: a_config_def)
  have "defs_ok two_files a" if "a \<in> {''a'', ''b''}" for a
    using that by (auto simp: defs_ok_def two_files_def node_fields_ok_def)
  then show ?thesis
    using compile_writes_all [of a_config two_files "\<lambda>p x. p @ x"] c(2,3) unfolding c(1) reached_two by simp
qed

end
