(* ===== verification/Idl_Tx_Laws.thy ===== *)
theory Idl_Tx_Laws
  imports Idl_Compiler
begin

text \<open>
  Transactions in the interface compiler: a structure of an included file is gone when a transaction binds it, and how
  many positions the generated code binds against the number of marks in the generated query.
\<close>

section \<open>A structure that is gone\<close>

definition crashes :: "string \<Rightarrow> action \<Rightarrow> bool" where
  "crashes m a \<longleftrightarrow> (\<forall>g. fst (a g) = Crash m)"

lemma crashes_run_Cons: "crashes m a \<Longrightarrow> crashes m (run (a # as))"
proof -
  assume c: "crashes m a"
  have "fst (run (a # as) g) = Crash m" for g
    using c by (cases "a g") (auto simp: crashes_def run_Cons split: outcome.splits dest!: spec [of _ g])
  then show ?thesis by (simp add: crashes_def)
qed

lemma crashes_after: "sure a \<Longrightarrow> crashes m (run as) \<Longrightarrow> crashes m (run (a # as))"
proof -
  assume s: "sure a" "crashes m (run as)"
  have "fst (run (a # as) g) = Crash m" for g
    using sureD [OF s(1), of g] s(2) by (auto simp: crashes_def run_Cons)
  then show ?thesis by (simp add: crashes_def)
qed

lemma crashes_append: "list_all sure as \<Longrightarrow> crashes m (run bs) \<Longrightarrow> crashes m (run (as @ bs))"
  by (induction as) (auto intro: crashes_after)

text \<open>A transaction that would be generated but for its first bound field, a structure whose node does not live.\<close>

definition binds_dead :: "gen_env \<Rightarrow> idl_tx \<Rightarrow> bool" where
  "binds_dead e t \<longleftrightarrow>
     (\<exists>b f fs s. tx_bind_of t = Some b \<and> tb_fields b = f # fs \<and> list_all field_ok (f # fs) \<and>
        (\<exists>ns x. fd_type f = T_full ns x) \<and> fd_value f = None \<and>
        symbol_lookup (idl_name (fd_type f)) (ge_symbols e) = Some s \<and> sym_type s = Sym_struct \<and> ge_heap e (sym_node s) = None) \<and>
     (\<exists>q. tx_query t = Some q \<and> 3 \<le> length q) \<and>
     (\<exists>x a b c. tx_topic_id t = Some x \<and> x \<noteq> [] \<and> tokens ''.'' x = [a, b, c]) \<and>
     (case tx_result t of Some sets \<Rightarrow> list_all (\<lambda>rs. list_all field_ok (rs_fields rs)) sets | None \<Rightarrow> True)"

lemma sure_fields: "list_all field_ok fs \<Longrightarrow> list_all sure (map generate_field fs)"
  by (auto simp: list_all_iff sure_field)

lemma sure_fail_as: "sure a \<Longrightarrow> sure (fail_as m a)"
proof -
  assume s: "sure a"
  have "fst (fail_as m a g) = Done" for g using sureD [OF s, of g] by (auto simp: fail_as_def)
  then show ?thesis by (simp add: sure_def)
qed

lemma sure_state: "sure (\<lambda>g. out st (ss g) g)" "sure (\<lambda>g. ind st (ss g) g)"
  by (simp_all add: sure_def ind_def out_def)

lemma sure_set_query: "sure (\<lambda>g. (Done, f g))"
  by (simp add: sure_def)

lemma sure_tx_decl:
  assumes "binds_dead e t"
  shows "sure (generate_tx_decl x t)"
proof -
  obtain b where b: "tx_bind_of t = Some b" "list_all field_ok (tb_fields b)" using assms by (auto simp: binds_dead_def)
  obtain q where q: "tx_query t = Some q" "\<not> length q < 3" using assms by (auto simp: binds_dead_def)
  obtain y c1 c2 c3 where y: "tx_topic_id t = Some y" "split y ''.'' 0 = Some [c1, c2, c3]"
    using assms by (auto simp: binds_dead_def split_tokens)
  have 1: "sure (generate_tx_query_string t)"
    unfolding generate_tx_query_string_def q(1) b(1) option.case using q(2) by (simp add: Let_def query_line_def sure_set_query)
  have 2: "sure (fail_as m (generate_tx_topic t))" for m
    by (intro sure_fail_as) (simp add: generate_tx_topic_def y(1) generate_topic_def y(2))
  have 3: "sure (generate_tx_bind_decl b)"
    unfolding generate_tx_bind_decl_def using sure_fields [OF b(2)] by (intro sure_run) simp
  have 4: "sure (generate_tx_result_set_decl i rs)" if "list_all field_ok (rs_fields rs)" for i rs
    unfolding generate_tx_result_set_decl_def using sure_fields [OF that] by (intro sure_run) simp
  have 5: "sure (case tx_result t of None \<Rightarrow> nothing | Some sets \<Rightarrow>
      run ([out Os [endl], ind Os [''public: // result set structure '', endl]] @
        map (\<lambda>(i, rs). generate_tx_result_set_decl i rs) (enumerate 0 sets)))"
  proof (cases "tx_result t")
    case (Some sets)
    have "sure (generate_tx_result_set_decl i rs)" if "rs \<in> set sets" for i rs
      by (rule 4) (use assms that Some in \<open>auto simp: binds_dead_def list_all_iff\<close>)
    then have "list_all sure (map (\<lambda>(i, rs). generate_tx_result_set_decl i rs) (enumerate 0 sets))"
      by (auto simp: list_all_iff in_set_enumerate_eq)
    then show ?thesis using Some by simp
  qed simp
  show ?thesis
    unfolding generate_tx_decl_def by (intro sure_run) (simp add: 1 2 3 5 b(1) generate_tx_serialize_decl_def)
qed

lemma crashes_bind:
  assumes "binds_dead e t"
  shows "crashes ''freed node'' (generate_tx_execute_bind e x t)"
proof -
  obtain b f fs s ns y where b: "tx_bind_of t = Some b" "tb_fields b = f # fs" "fd_type f = T_full ns y" "fd_value f = None"
    "symbol_lookup (idl_name (fd_type f)) (ge_symbols e) = Some s" "sym_type s = Sym_struct" "ge_heap e (sym_node s) = None"
    using assms by (auto simp: binds_dead_def)
  have c: "crashes ''freed node'' (bind_field e f)"
    using b(3-) by (simp add: crashes_def bind_field_def generate_tx_execute_bind_full_def Let_def crash_def)
  have r: "sure (bind_call p q y m)" "sure next_seq" for p q y m
    by (simp_all add: bind_call_def with_seq_def sure_def ind_def out_def next_seq_def)
  show ?thesis
    unfolding generate_tx_execute_bind_def b(1,2) option.case list.map
    by (rule crashes_append) (simp_all add: sure_set_query sure_state r crashes_run_Cons c)
qed

lemma crashes_tx:
  assumes "binds_dead e t"
  shows "crashes ''freed node'' (generate_tx e x t)"
  unfolding generate_tx_def generate_tx_impl_def generate_tx_execute_def
  by (rule crashes_after [OF sure_tx_decl [OF assms]],
      (rule crashes_after [OF sure_simps(1)] crashes_after [OF sure_simps(2)] crashes_after [OF sure_simps(3)]
        crashes_after [OF sure_simps(5)] crashes_run_Cons [OF crashes_bind [OF assms]] crashes_run_Cons)+)

text \<open>The nodes before the transaction are generated.\<close>

lemma crashes_cplus:
  assumes nodes: "map snd (pr_nodes (ge_program e)) = pre @ N_tx x t # post"
    and pre: "list_all (\<lambda>n. node_fields_ok n \<and> node_ok n) pre" and t: "binds_dead e t"
  shows "crashes ''freed node'' (cplus_generate e)"
proof -
  have "list_all sure (map (generate_node e) pre)"
    using pre gives_node [of _ e] by (auto simp: list_all_iff gives_def sure_def)
  then have n: "crashes ''freed node'' (run (map (generate_node e) (pre @ N_tx x t # post) @ rest))" for rest
    using crashes_run_Cons [OF crashes_tx [OF t]] by (simp add: crashes_append)
  have i: "list_all sure (map generate_include ys)" for ys by (simp add: list_all_iff sure_frame)
  have "crashes ''freed node'' (generate_nodes e)"
    unfolding generate_nodes_def Let_def nodes
    by (rule crashes_append crashes_after n i | simp add: sure_frame ignore_sure)+
  then show ?thesis unfolding cplus_generate_def by (rule crashes_run_Cons)
qed

text \<open>
  Programs are generated from the top of the stack, so an included file is generated and destroyed before the
  file that includes it. A transaction that binds a structure whose node was destroyed - one that is in no
  program still on the stack - makes the compiler follow the dangling pointer of the symbol table.\<close>

theorem included_struct_is_freed:
  assumes "map snd (pr_nodes q) = pre @ N_tx x t # post" "list_all (\<lambda>n. node_fields_ok n \<and> node_ok n) pre" "cf_cplus cf"
    and "binds_dead \<lparr>ge_program = q, ge_symbols = tab, ge_heap = live_nodes (q # ps), ge_replace_extension = rx\<rparr> t"
  shows "\<exists>w. generate_all rx cf tab (q # ps) = (Crash ''freed node'', w)"
proof -
  let ?e = "\<lparr>ge_program = q, ge_symbols = tab, ge_heap = live_nodes (q # ps), ge_replace_extension = rx\<rparr>"
  have "crashes ''freed node'' (cplus_generate ?e)" using crashes_cplus [of ?e pre x t post] assms by simp
  then obtain g where "cplus_generate ?e mk_gen = (Crash ''freed node'', g)" unfolding crashes_def by (metis prod.collapse)
  then have "generate_program cf ?e = (Crash ''freed node'', [(rx (pr_path q) ''.hpp'', g)])"
    using assms(3) by (simp add: generate_program_def generate_program_cplus_def)
  then show ?thesis by (cases "generate_all rx cf tab ps") simp
qed

text \<open>A file whose transaction binds the structure \<^verbatim>\<open>point\<close> of the file it includes.\<close>

definition point_tx :: idl_tx where
  "point_tx = \<lparr>tx_topic_id = Some ''a.b.c'',
     tx_bind_of = Some \<lparr>tb_fields = [\<lparr>fd_type = T_full [] ''point'', fd_name = ''at'', fd_value = None\<rparr>], tb_return = []\<rparr>,
     tx_result = None, tx_query = Some ''[q]''\<rparr>"

definition includer_defs :: "(node_addr \<times> idl_node) list" where
  "includer_defs = [(1, N_include [''s'']), (2, N_tx ''save'' point_tx)]"

definition included_defs :: "(node_addr \<times> idl_node) list" where
  "included_defs = [(3, N_struct ''point'' [])]"

theorem included_struct_is_freed_witness:
  "\<exists>q p tab w. parse_nodes includer_defs (mk_program ''m'', []) = (q, []) \<and> parse_nodes included_defs (mk_program ''s'', []) = (p, tab) \<and>
     fst (generate_all (\<lambda>p x. p @ x) a_config tab [p]) = Done \<and>
     generate_all (\<lambda>p x. p @ x) a_config tab [q] = (Crash ''freed node'', w)"
proof -
  obtain q where q: "parse_nodes includer_defs (mk_program ''m'', []) = (q, [])" by (simp add: includer_defs_def declare_node_def node_symbol_def)
  obtain p tab where p: "parse_nodes included_defs (mk_program ''s'', []) = (p, tab)" by (meson surj_pair)
  have nq: "pr_nodes q = includer_defs" using parse_nodes_program [of includer_defs "mk_program ''m''" "[]"] q by (simp add: mk_program_def)
  have np: "pr_nodes p = included_defs" using parse_nodes_program [of included_defs "mk_program ''s''" "[]"] p by (simp add: mk_program_def)
  have tab: "symbol_lookup ''point'' tab = Some \<lparr>sym_type = Sym_struct, sym_full_name = ''point'', sym_simple_name = ''point'', sym_node = 3\<rparr>"
    using p by (auto simp: included_defs_def declare_node_def node_symbol_def symbol_add_def symbol_lookup_def get_fullname_def
        program_namespace_def mk_program_def um_has_def)
  have t: "tokens ''.'' ''a.b.c'' = [''a'', ''b'', ''c'']" by (simp add: tokens.simps Let_def)
  let ?rx = "\<lambda>p x :: string. p @ x"
  have "binds_dead \<lparr>ge_program = q, ge_symbols = tab, ge_heap = live_nodes [q], ge_replace_extension = ?rx\<rparr> point_tx"
    using tab t by (simp add: binds_dead_def point_tx_def field_ok_def namespace_string_def live_nodes_def nq includer_defs_def)
  then have "\<exists>w. generate_all ?rx a_config tab [q] = (Crash ''freed node'', w)"
    by (intro included_struct_is_freed [where pre = "[N_include [''s'']]" and x = "''save''" and t = point_tx and post = "[]"])
      (simp_all add: nq includer_defs_def node_fields_ok_def node_ok_def a_config_def)
  moreover have "fst (generate_all ?rx a_config tab [p]) = Done"
    using generate_all_outcome [of a_config "[p]" ?rx tab] by (simp add: np included_defs_def node_fields_ok_def a_config_def)
  ultimately show ?thesis using q p by blast
qed

section \<open>Bound positions\<close>

definition counts :: "nat \<Rightarrow> action \<Rightarrow> bool" where
  "counts k a \<longleftrightarrow> (\<forall>g g'. a g = (Done, g') \<longrightarrow> g_bind_seq g' = g_bind_seq g + k)"

lemma counts_simps:
  "counts 0 (out st ss)" "counts 0 (ind st ss)" "counts 0 nothing" "counts k (fail m)" "counts k (crash m)" "counts 1 next_seq"
  "counts 0 (run [])" "(\<And>n. counts k (f n)) \<Longrightarrow> counts k (with_seq f)"
  by (auto simp: counts_def out_def ind_def put_def nothing_def fail_def crash_def next_seq_def with_seq_def)

lemma counts_seq:
  assumes "counts k a" "counts n b" "\<And>g. c g = (case a g of (Done, g1) \<Rightarrow> b g1 | r \<Rightarrow> r)"
  shows "counts (k + n) c"
proof -
  {
    fix g g'
    assume c: "c g = (Done, g')"
    obtain g1 where "a g = (Done, g1)" "b g1 = (Done, g')" using c assms(3) [of g] by (cases "a g") (auto split: outcome.splits)
    then have "g_bind_seq g' = g_bind_seq g + (k + n)" using assms(1,2) unfolding counts_def by (metis add.assoc)
  }
  then show ?thesis by (simp add: counts_def)
qed

lemma counts_run_Cons: "counts k a \<Longrightarrow> counts n (run as) \<Longrightarrow> counts (k + n) (run (a # as))"
  by (erule (1) counts_seq) (rule run_Cons)

lemma counts_run_append: "counts k (run as) \<Longrightarrow> counts n (run bs) \<Longrightarrow> counts (k + n) (run (as @ bs))"
  by (erule (1) counts_seq) (rule run_append)

lemma counts_map: "(\<And>x. x \<in> set xs \<Longrightarrow> counts (k x) (f x)) \<Longrightarrow> counts (sum_list (map k xs)) (run (map f xs))"
  by (induction xs) (use counts_simps(7) in \<open>auto intro: counts_run_Cons\<close>)

lemma counts_each: "(\<And>x. x \<in> set xs \<Longrightarrow> counts k (f x)) \<Longrightarrow> counts (length xs * k) (run (map f xs))"
  using counts_map [of xs "\<lambda>_. k" f] by (simp add: sum_list_triv)

lemma counts_eq: "counts k a \<Longrightarrow> k = n \<Longrightarrow> counts n a"
  by simp

lemma counts_ignore_sure: "sure a \<Longrightarrow> counts k a \<Longrightarrow> counts k (ignore a)"
  by (simp add: ignore_sure)

text \<open>The structure a field names, found the way the generator finds it, and the positions a field takes.\<close>

definition struct_of :: "gen_env \<Rightarrow> string \<Rightarrow> idl_field list" where
  "struct_of e name =
     (case (case symbol_lookup name (ge_symbols e) of
              Some s \<Rightarrow> Some s
            | None \<Rightarrow> (case program_namespace (ge_program e) of
                 None \<Rightarrow> None | Some ns \<Rightarrow> symbol_lookup_in (node_name (N_namespace ns)) name (ge_symbols e))) of
        Some s \<Rightarrow> (case ge_heap e (sym_node s) of Some (N_struct _ flds) \<Rightarrow> flds | _ \<Rightarrow> [])
      | None \<Rightarrow> [])"

definition width :: "gen_env \<Rightarrow> idl_field \<Rightarrow> nat" where
  "width e f =
     (case fd_type f of
        T_simple t \<Rightarrow> 1
      | T_full _ _ \<Rightarrow> length (struct_of e (idl_name (fd_type f)))
      | T_vec t n \<Rightarrow> nat n * (case t of T_simple _ \<Rightarrow> 1 | T_full _ _ \<Rightarrow> length (struct_of e (idl_name t)) | _ \<Rightarrow> 0)
      | _ \<Rightarrow> 0)"

lemmas counts_intros = counts_run_Cons counts_run_append counts_simps

lemma counts_calls: "counts 0 (bind_call p q x m)" "counts 0 (bind_strings_call x)" "counts 0 sql_comma"
  unfolding bind_call_def bind_strings_call_def sql_comma_def by (auto intro!: counts_simps)

lemma counts_bind_simple: "counts 1 (generate_tx_execute_bind_simple f t)"
proof -
  have 1: "counts 0 (if a then (if b then fail m else run [sql_comma, out Os_sql ss, bind_call p q x n])
      else run [sql_comma, out Os_sql ss', if b then bind_strings_call x else bind_call p q x n'])" for a b m ss p q x n ss' n'
    using counts_run_Cons [OF counts_calls(3) counts_run_Cons [OF counts_simps(1) counts_run_Cons [OF counts_calls(1) counts_simps(7)]]]
      counts_run_Cons [OF counts_calls(3) counts_run_Cons [OF counts_simps(1) counts_run_Cons [OF counts_calls(2) counts_simps(7)]]]
    by (simp add: counts_simps)
  show ?thesis
    unfolding generate_tx_execute_bind_simple_def by (rule counts_eq, rule counts_run_Cons [OF 1 counts_run_Cons [OF counts_simps(6,7)]]) simp
qed

lemma counts_bind_struct_field: "counts 1 (bind_struct_field x f)"
proof (cases "fd_type f")
  case (T_simple t)
  have "counts 0 (if b then bind_strings_call y else bind_call p q y n)" for b y p q n by (simp add: counts_calls)
  from counts_run_Cons [OF counts_calls(3) counts_run_Cons [OF counts_simps(1) counts_run_Cons [OF this counts_run_Cons [OF counts_simps(6,7)]]]]
  show ?thesis using T_simple by (simp add: bind_struct_field_def)
qed (simp_all add: bind_struct_field_def counts_simps)

lemma counts_bind_full: "counts (length (struct_of e (idl_name (fd_type f)))) (generate_tx_execute_bind_full e f)"
proof -
  have "counts (length flds) (run (map (bind_struct_field x) flds))" for x flds
    by (rule counts_eq, rule counts_each, rule counts_bind_struct_field) simp
  then show ?thesis
    by (auto simp: generate_tx_execute_bind_full_def struct_of_def Let_def counts_simps split: option.split idl_node.split)
qed

lemma counts_macro: "counts 0 (generate_field_macro st l)"
  using counts_run_Cons [OF counts_simps(1) counts_run_Cons [OF counts_simps(1) counts_simps(7)]] by (simp add: generate_field_macro_def)

lemma counts_bind_field: "counts (width e f) (bind_field e f)"
proof (cases "fd_type f")
  case (T_vec t n)
  have "counts (nat n * (case t of T_simple _ \<Rightarrow> 1 | T_full _ _ \<Rightarrow> length (struct_of e (idl_name t)) | _ \<Rightarrow> 0))
      (case t of T_simple s \<Rightarrow> run (map (\<lambda>i. ignore (generate_tx_execute_bind_simple (indexed f t i) s)) [0..<nat n])
          | T_full _ _ \<Rightarrow> run (map (\<lambda>i. generate_tx_execute_bind_full e (indexed f t i)) [0..<nat n])
          | T_option _ \<Rightarrow> nothing
          | _ \<Rightarrow> fail ''Tx unsupported bind type in vector'')"
  proof (cases t)
    case (T_simple s)
    have "counts (length [0..<nat n] * 1) (run (map (\<lambda>i. ignore (generate_tx_execute_bind_simple (indexed f t i) s)) [0..<nat n]))"
      by (rule counts_each) (rule counts_ignore_sure [OF sure_bind_indexed counts_bind_simple])
    then show ?thesis using T_simple by simp
  next
    case (T_full ns x)
    have "counts (length [0..<nat n] * length (struct_of e (idl_name t))) (run (map (\<lambda>i. generate_tx_execute_bind_full e (indexed f t i)) [0..<nat n]))"
      using counts_bind_full [of e "indexed f t _"] by (intro counts_each) (simp add: indexed_def)
    then show ?thesis using T_full by simp
  qed (simp_all add: counts_simps)
  note vals = this
  have st: "counts 0 (\<lambda>g. ind Os_cpp (ss g) g)" for ss by (simp add: counts_def ind_def out_def put_def)
  show ?thesis
    using T_vec unfolding bind_field_def generate_tx_execute_bind_vec_def width_def
    by simp (rule counts_eq, (rule counts_run_Cons counts_simps(7) counts_simps(1) counts_simps(2) st vals)+, simp)
next
  case (T_full ns x)
  then show ?thesis using counts_bind_full [of e f] by (simp add: bind_field_def width_def)
qed (simp_all add: bind_field_def width_def counts_simps counts_ignore_sure counts_macro counts_bind_simple [simplified])

lemma query_marks_count: "count_list (query_marks n) CHR ''?'' = n"
  by (induction n) (simp_all add: query_marks_def)

lemma query_string_marks:
  assumes "tx_bind_of t = Some b" "tx_query t = Some q" "3 \<le> length q" "CHR ''?'' \<notin> set q"
  shows "count_list (text_of (generate_tx_query_string t) l) CHR ''?'' = (if tb_return b \<noteq> [] then 1 else 0) + length (tb_fields b)"
proof -
  have q: "text_of (run [\<lambda>g. (Done, g\<lparr>g_query := z\<rparr>), a]) l = s" if "adds l l' s a" for z l' s a
    using that by (simp add: text_of_def run_Cons adds_def put_def mk_gen_def nothing_def)
  have "set (take (length q - 2) (drop 1 q)) \<subseteq> set q" by (meson order_trans set_drop_subset set_take_subset)
  then have n: "count_list (take (length q - 2) (drop 1 q)) CHR ''?'' = 0" using assms(4) by (auto simp: count_list_0_iff)
  have short: "\<not> length q < 3" using assms(3) by simp
  have t: "count_list (tabs k) CHR ''?'' = 0" for k by (induction k) (simp_all add: tabs_def)
  have "text_of (generate_tx_query_string t) l = tabs (Suc l) @ ''static constexpr wchar_t* query = L\"{ '' @
      (if tb_return b \<noteq> [] then ''? = '' else []) @ ''CALL '' @ take (length q - 2) (drop 1 q) @ ''('' @
      query_marks (length (tb_fields b)) @ '')'' @ '' }\";'' @ endl"
    unfolding generate_tx_query_string_def assms(1,2) option.case query_line_def Let_def if_not_P [OF short]
    by (rule q, rule adds_eq, (rule adds_intros)+) simp
  then show ?thesis using n t by (simp add: query_marks_count endl_def)
qed


text \<open>A vector of three numbers: one mark, three positions.\<close>

definition vec_tx :: idl_tx where
  "vec_tx = \<lparr>tx_topic_id = None,
     tx_bind_of = Some \<lparr>tb_fields = [\<lparr>fd_type = T_vec (T_simple TYPE_I32) 3, fd_name = ''v'', fd_value = None\<rparr>], tb_return = []\<rparr>,
     tx_result = None, tx_query = Some ''[sp]''\<rparr>"


end
