(* ===== verification/Dbc_Odbc.thy ===== *)
theory Dbc_Odbc
  imports Hash_Map Bits_Packer
begin

text \<open>
  The ground under the database wrapper (\<^verbatim>\<open>dbc\<close>): return codes, errors, string conversion and what the wrapper
  uses of ODBC. The driver is an argument: a record of functions on a driver state of any type, one for each shape of
  call. Programs of the wrapper are functions on a pair of an object and the driver's state; an exception keeps what
  has been changed before it. The build is the one for Windows (\<^verbatim>\<open>_MSC_VER\<close>), the only one \<^verbatim>\<open>dbc/convert.cpp\<close> has code
  for: wide characters have 16 bits and \<^verbatim>\<open>long\<close> has 32. The text of a \<^verbatim>\<open>database_error\<close> is the result of
  \<open>recent_error\<close>, which only reads diagnostic records; an error is represented without it.
\<close>

type_synonym wide = "u16 list"
type_synonym handle = nat

section \<open>Codes and errors\<close>

datatype retcode = SQL_SUCCESS | SQL_SUCCESS_WITH_INFO | SQL_ERROR | SQL_INVALID_HANDLE | SQL_NO_DATA | SQL_NEED_DATA | SQL_STILL_EXECUTING

datatype hkind = SQL_HANDLE_ENV | SQL_HANDLE_DBC | SQL_HANDLE_STMT

(* [include/wise.kernel/dbc/error.hpp:89-95 success] *)
definition sql_success :: "retcode \<Rightarrow> bool" where
  "sql_success rc \<longleftrightarrow> rc = SQL_SUCCESS \<or> rc = SQL_SUCCESS_WITH_INFO"

(* [src/dbc/error.cpp:92-139 database_error] *)
datatype dbc_error =
    Database_error hkind
  | Index_range_error
  | Null_access_error
  | Type_incompatible_error
  | Programming_error string
  | Undefined string
  | Out_of_fuel

text \<open>SQL types, C types, directions of parameters and the other enumerations of ODBC the wrapper uses.\<close>

datatype sqltype =
    SQL_BIT | SQL_TINYINT | SQL_SMALLINT | SQL_INTEGER | SQL_BIGINT
  | SQL_DOUBLE | SQL_FLOAT | SQL_DECIMAL | SQL_REAL | SQL_NUMERIC
  | SQL_DATE | SQL_TYPE_DATE | SQL_TIMESTAMP | SQL_TYPE_TIMESTAMP
  | SQL_CHAR | SQL_VARCHAR | SQL_WCHAR | SQL_WVARCHAR | SQL_LONGVARCHAR
  | SQL_BINARY | SQL_VARBINARY | SQL_LONGVARBINARY | SQL_OTHER int

datatype ctype =
    SQL_C_BIT | SQL_C_CHAR | SQL_C_WCHAR | SQL_C_BINARY | SQL_C_TINYINT | SQL_C_UTINYINT
  | SQL_C_SSHORT | SQL_C_USHORT | SQL_C_LONG | SQL_C_SLONG | SQL_C_ULONG | SQL_C_SBIGINT | SQL_C_UBIGINT
  | SQL_C_FLOAT | SQL_C_DOUBLE | SQL_C_DATE | SQL_C_TIMESTAMP | SQL_C_TYPE_TIMESTAMP | SQL_C_GUID | SQL_C_NONE

datatype cpp_type =
    Cpp_wchar | Cpp_char | Cpp_bool | Cpp_uchar | Cpp_short | Cpp_ushort | Cpp_int32 | Cpp_uint32
  | Cpp_int64 | Cpp_uint64 | Cpp_float | Cpp_double | Cpp_wstring | Cpp_string | Cpp_date | Cpp_timestamp

(* [include/wise.kernel/dbc/common.hpp:175-275 sql_ctype] *)
fun sql_ctype :: "cpp_type \<Rightarrow> ctype" where
  "sql_ctype Cpp_wchar = SQL_C_WCHAR"
| "sql_ctype Cpp_char = SQL_C_CHAR"
| "sql_ctype Cpp_bool = SQL_C_BIT"
| "sql_ctype Cpp_uchar = SQL_C_CHAR"
| "sql_ctype Cpp_short = SQL_C_SSHORT"
| "sql_ctype Cpp_ushort = SQL_C_USHORT"
| "sql_ctype Cpp_int32 = SQL_C_SLONG"
| "sql_ctype Cpp_uint32 = SQL_C_ULONG"
| "sql_ctype Cpp_int64 = SQL_C_SBIGINT"
| "sql_ctype Cpp_uint64 = SQL_C_UBIGINT"
| "sql_ctype Cpp_float = SQL_C_FLOAT"
| "sql_ctype Cpp_double = SQL_C_DOUBLE"
| "sql_ctype Cpp_wstring = SQL_C_WCHAR"
| "sql_ctype Cpp_string = SQL_C_CHAR"
| "sql_ctype Cpp_date = SQL_C_DATE"
| "sql_ctype Cpp_timestamp = SQL_C_TYPE_TIMESTAMP"

datatype io_type = SQL_PARAM_INPUT | SQL_PARAM_OUTPUT | SQL_PARAM_INPUT_OUTPUT
datatype orientation = SQL_FETCH_FIRST | SQL_FETCH_LAST | SQL_FETCH_NEXT | SQL_FETCH_PRIOR | SQL_FETCH_ABSOLUTE | SQL_FETCH_RELATIVE
datatype info = SQL_DBMS_NAME | SQL_DBMS_VER | SQL_DRIVER_NAME | SQL_DATABASE_NAME | SQL_ATTR_CURRENT_CATALOG

text \<open>The arguments of \<^verbatim>\<open>SQLBindParameter\<close>; the indicator array is \<open>None\<close> for a null pointer.\<close>

record bind_args =
  ba_number :: int
  ba_io :: io_type
  ba_value_type :: ctype
  ba_data_type :: sqltype
  ba_column_size :: nat
  ba_scale :: int
  ba_data :: nat
  ba_buffer_length :: nat
  ba_indicator :: "int list option"

text \<open>Calls that give back a return code and nothing else.\<close>

datatype odbc_call =
    SQLFreeHandle hkind handle
  | Set_odbc_version handle
  | Set_login_timeout handle int
  | Set_autocommit handle bool
  | SQLConnect handle wide "wide option" "wide option"
  | SQLDriverConnect handle wide
  | SQLDisconnect handle
  | SQLEndTran handle bool
  | SQLCancel handle
  | SQLPrepare handle wide
  | Set_query_timeout handle int
  | Set_paramset_size handle int
  | Set_row_array_size handle int
  | Set_rows_fetched_ptr handle
  | SQLExecDirect handle wide
  | SQLExecute handle
  | Free_stmt_close handle
  | Free_stmt_reset_params handle
  | SQLMoreResults handle
  | SQLBindCol handle int ctype nat
  | SQLBindParameter handle bind_args

datatype number_call = SQLRowCount handle | SQLNumResultCols handle | Get_row_number handle

text \<open>A cell of a fetched row: its length or null indicator and the bytes the driver writes.\<close>

type_synonym cell = "int \<times> byte list"

record 'd odbc =
  o_alloc :: "hkind \<Rightarrow> handle \<Rightarrow> 'd \<Rightarrow> (retcode \<times> handle) \<times> 'd"
  o_call :: "odbc_call \<Rightarrow> 'd \<Rightarrow> retcode \<times> 'd"
  o_number :: "number_call \<Rightarrow> 'd \<Rightarrow> (retcode \<times> int) \<times> 'd"
  o_text :: "info \<Rightarrow> handle \<Rightarrow> 'd \<Rightarrow> (retcode \<times> wide) \<times> 'd"
  o_describe_param :: "handle \<Rightarrow> int \<Rightarrow> 'd \<Rightarrow> (retcode \<times> sqltype \<times> nat \<times> int) \<times> 'd"
  o_describe_col :: "handle \<Rightarrow> int \<Rightarrow> 'd \<Rightarrow> (retcode \<times> wide \<times> sqltype \<times> nat \<times> int) \<times> 'd"
  o_fetch :: "handle \<Rightarrow> orientation \<Rightarrow> int \<Rightarrow> 'd \<Rightarrow> (retcode \<times> nat \<times> cell list list) \<times> 'd"
  o_get_data :: "handle \<Rightarrow> int \<Rightarrow> ctype \<Rightarrow> nat \<Rightarrow> 'd \<Rightarrow> (retcode \<times> int \<times> byte list) \<times> 'd"

section \<open>Programs\<close>

type_synonym ('s, 'a) prog = "'s \<Rightarrow> (dbc_error + 'a) \<times> 's"

definition ret :: "'a \<Rightarrow> ('s, 'a) prog" where
  "ret a s = (Inr a, s)"

definition raise :: "dbc_error \<Rightarrow> ('s, 'a) prog" where
  "raise e s = (Inl e, s)"

definition bnd :: "('s, 'a) prog \<Rightarrow> ('a \<Rightarrow> ('s, 'b) prog) \<Rightarrow> ('s, 'b) prog" where
  "bnd m f s = (case m s of (Inl e, s') \<Rightarrow> (Inl e, s') | (Inr a, s') \<Rightarrow> f a s')"

text \<open>Reading and changing the object; a call of the driver.\<close>

definition obj :: "('o \<Rightarrow> 'a) \<Rightarrow> ('o \<times> 'd, 'a) prog" where
  "obj f s = (Inr (f (fst s)), s)"

definition upd :: "('o \<Rightarrow> 'o) \<Rightarrow> ('o \<times> 'd, unit) prog" where
  "upd f s = (Inr (), (f (fst s), snd s))"

definition drv :: "('d \<Rightarrow> 'a \<times> 'd) \<Rightarrow> ('o \<times> 'd, 'a) prog" where
  "drv f s = (case f (snd s) of (a, d) \<Rightarrow> (Inr a, (fst s, d)))"

text \<open>\<^verbatim>\<open>try { m } catch (...) { h; throw; }\<close>, and a handler that does not throw again. Undefined behaviour is not caught.\<close>

definition on_throw :: "('s, 'a) prog \<Rightarrow> ('s, unit) prog \<Rightarrow> ('s, 'a) prog" where
  "on_throw m h s =
     (case m s of
        (Inl (Undefined msg), s') \<Rightarrow> (Inl (Undefined msg), s')
      | (Inl e, s') \<Rightarrow> (case h s' of (Inl e', s'') \<Rightarrow> (Inl e', s'') | (Inr _, s'') \<Rightarrow> (Inl e, s''))
      | (Inr a, s') \<Rightarrow> (Inr a, s'))"

definition ignore_throw :: "('s, unit) prog \<Rightarrow> ('s, unit) prog" where
  "ignore_throw m s =
     (case m s of
        (Inl (Undefined msg), s') \<Rightarrow> (Inl (Undefined msg), s')
      | (_, s') \<Rightarrow> (Inr (), s'))"

fun each :: "('a \<Rightarrow> ('s, unit) prog) \<Rightarrow> 'a list \<Rightarrow> ('s, unit) prog" where
  "each f [] = ret ()"
| "each f (x # xs) = bnd (f x) (\<lambda>_. each f xs)"

text \<open>A call whose failure throws for a handle of the kind, and one whose code nobody looks at.\<close>

definition need :: "hkind \<Rightarrow> retcode \<Rightarrow> ('s, unit) prog" where
  "need k rc = (if sql_success rc then ret () else raise (Database_error k))"

definition call :: "'d odbc \<Rightarrow> hkind \<Rightarrow> odbc_call \<Rightarrow> ('o \<times> 'd, unit) prog" where
  "call o' k c = bnd (drv (o_call o' c)) (need k)"

definition call_ignore :: "'d odbc \<Rightarrow> odbc_call \<Rightarrow> ('o \<times> 'd, unit) prog" where
  "call_ignore o' c = bnd (drv (o_call o' c)) (\<lambda>_. ret ())"

named_theorems prog_simps

lemma prog_run [prog_simps]:
  "ret a s = (Inr a, s)" "raise e s' = (Inl e, s')"
  by (simp_all add: ret_def raise_def)

lemma obj_run [prog_simps]: "obj f s = (Inr (f (fst s)), s)"
  by (simp add: obj_def)

lemma upd_run [prog_simps]: "upd g s = (Inr (), (g (fst s), snd s))"
  by (simp add: upd_def)

lemma bnd_ret [prog_simps]: "bnd (ret a) f s = f a s"
  by (simp add: bnd_def ret_def)

lemma bnd_raise [prog_simps]: "bnd (raise e) f s = (Inl e, s)"
  by (simp add: bnd_def raise_def)

lemma bnd_obj [prog_simps]: "bnd (obj g) f s = f (g (fst s)) s"
  by (simp add: bnd_def obj_def)

lemma bnd_upd [prog_simps]: "bnd (upd h) f s = f () (h (fst s), snd s)"
  by (simp add: bnd_def upd_def)

lemma bnd_bnd [prog_simps]: "bnd (bnd m k) f s = bnd m (\<lambda>x. bnd (k x) f) s"
  by (auto simp: bnd_def split: prod.split sum.split)

lemma bnd_if [prog_simps]: "bnd (if b then m else m') f s = (if b then bnd m f s else bnd m' f s)"
  by simp

lemma bnd_drv [prog_simps]: "bnd (drv c) f s = f (fst (c (snd s))) (fst s, snd (c (snd s)))"
  by (simp add: bnd_def drv_def case_prod_beta)

lemma bnd_Inr: "m s = (Inr a, s') \<Longrightarrow> bnd m f s = f a s'"
  by (simp add: bnd_def)

lemma bnd_Inl: "m s = (Inl e, s') \<Longrightarrow> bnd m f s = (Inl e, s')"
  by (simp add: bnd_def)

lemma drv_run [prog_simps]: "drv c s = (Inr (fst (c (snd s))), (fst s, snd (c (snd s))))"
  by (simp add: drv_def case_prod_beta)

lemma call_run [prog_simps]:
  "call o' k c s = ((if sql_success (fst (o_call o' c (snd s))) then Inr () else Inl (Database_error k)), (fst s, snd (o_call o' c (snd s))))"
  "call_ignore o' c s = (Inr (), (fst s, snd (o_call o' c (snd s))))"
  by (simp_all add: call_def call_ignore_def need_def prog_simps)

lemma bnd_call [prog_simps]:
  "bnd (call o' k c) f s = (if sql_success (fst (o_call o' c (snd s))) then f () (fst s, snd (o_call o' c (snd s)))
     else (Inl (Database_error k), (fst s, snd (o_call o' c (snd s)))))"
  "bnd (call_ignore o' c) f s = f () (fst s, snd (o_call o' c (snd s)))"
  by (simp_all add: bnd_def call_run)

lemma sql_success_simps [simp]:
  "sql_success SQL_SUCCESS" "sql_success SQL_SUCCESS_WITH_INFO" "\<not> sql_success SQL_NO_DATA" "\<not> sql_success SQL_ERROR"
  "\<not> sql_success SQL_INVALID_HANDLE" "\<not> sql_success SQL_NEED_DATA" "\<not> sql_success SQL_STILL_EXECUTING"
  by (simp_all add: sql_success_def)

section \<open>Conversion of strings\<close>

text \<open>
  \<^verbatim>\<open>MultiByteToWideChar\<close> and \<^verbatim>\<open>WideCharToMultiByte\<close> are the platform's; an empty result is a failed conversion. Both
  directions stop at the first NUL and at 8192 characters.
\<close>

record platform =
  pf_mb2wc :: "string \<Rightarrow> wide"
  pf_wc2mb :: "wide \<Rightarrow> string"

definition cstr :: "string \<Rightarrow> string" where
  "cstr s = takeWhile (\<lambda>c. c \<noteq> CHR 0x00) s"

definition wcstr :: "wide \<Rightarrow> wide" where
  "wcstr w = takeWhile (\<lambda>c. c \<noteq> 0) w"

(* [src/dbc/convert.cpp:61-79 convert] *)
definition convert_s2w :: "platform \<Rightarrow> string \<Rightarrow> wide" where
  "convert_s2w pf src =
     (let s = take 8192 (cstr src) in if s = [] then [] else wcstr (pf_mb2wc pf s))"

(* [src/dbc/convert.cpp:40-58 convert] *)
definition convert_c2w :: "platform \<Rightarrow> string \<Rightarrow> wide" where
  "convert_c2w pf src =
     (let s = take 8192 (cstr src) in if s = [] then [] else wcstr (pf_mb2wc pf s))"

(* [src/dbc/convert.cpp:81-100 convert] *)
definition convert_w2s :: "platform \<Rightarrow> wide \<Rightarrow> string" where
  "convert_w2s pf s =
     (let n = pf_wc2mb pf (take 8192 (wcstr s)) in if n = [] then [] else cstr n)"

(* [src/dbc/convert.cpp:15-22 convert] *)
definition convert_s2s :: "platform \<Rightarrow> string \<Rightarrow> string" where
  "convert_s2s pf src = convert_w2s pf (convert_s2w pf src)"

(* [src/dbc/convert.cpp:24-30 convert] *)
definition convert_w2w :: "wide \<Rightarrow> wide" where
  "convert_w2w src = src"

(* [src/dbc/convert.cpp:32-38 convert] *)
definition convert_p2w :: "wide \<Rightarrow> wide" where
  "convert_p2w src = wcstr src"

section \<open>The text of an error\<close>

text \<open>
  The diagnostic records of a handle: state, native code and message; \<open>None\<close> when the handle is invalid. The buffer
  of the message is kept between the rounds of the loop; it is copied whole, with its terminating NUL.
\<close>

type_synonym diag = "wide \<times> int \<times> wide"

definition resize_to :: "nat \<Rightarrow> wide \<Rightarrow> wide" where
  "resize_to n b = take n b @ replicate (n - length b) 0"

definition fill_message :: "wide \<Rightarrow> wide \<Rightarrow> wide" where
  "fill_message m b =
     (let b1 = (if m = [] then b else resize_to (length m + 1) b) in splice 0 (m @ [0]) b1)"

fun diag_loop :: "diag list \<Rightarrow> wide \<Rightarrow> wide \<Rightarrow> (wide \<times> int) option \<Rightarrow> wide \<times> (wide \<times> int) option" where
  "diag_loop [] b acc out = (acc, out)"
| "diag_loop ((st, native, m) # ds) b acc out =
     (let b1 = fill_message m b
      in diag_loop ds b1 ((if acc = [] then acc else acc @ [0x20]) @ b1) (Some (st, native)))"

(* [src/dbc/error.cpp:8-90 recent_error] *)
definition recent_error :: "platform \<Rightarrow> diag list option \<Rightarrow> int \<times> string \<Rightarrow> dbc_error + (string \<times> int \<times> string)" where
  "recent_error pf records ns =
     (case records of
        None \<Rightarrow> Inr (convert_w2s pf [], fst ns, snd ns)
      | Some ds \<Rightarrow>
          (case diag_loop ds (replicate 512 0) [] None of
             (result, None) \<Rightarrow> Inl (Undefined ''sql_state is read before it is set'')
           | (result, Some (st, native)) \<Rightarrow>
               let rvalue = convert_w2s pf result;
                   state = convert_w2s pf st
               in Inr (map (\<lambda>c. if c = CHR 0x00 then CHR '' '' else c) (state @ '': '' @ rvalue), native, state)))"

text \<open>
  Several records: the message is cut at the NUL behind the first one, while the state and the native code are
  those of the last.
\<close>

lemma diag_loop_out: "snd (diag_loop (ds @ [(st, native, m)]) b acc out) = Some (st, native)"
  by (induction ds arbitrary: b acc out) (auto simp: Let_def)

lemma diag_loop_prefix: "acc \<noteq> [] \<Longrightarrow> \<exists>rest. fst (diag_loop ds b acc out) = acc @ rest"
proof (induction ds arbitrary: b acc out)
  case (Cons x ds)
  obtain st n m where x: "x = (st, n, m)" by (cases x)
  show ?case using Cons.IH [of "acc @ 0x20 # fill_message m b"] Cons.prems unfolding x by (auto simp: Let_def)
qed simp

lemma wcstr_first: "0 \<notin> set m \<Longrightarrow> wcstr (m @ 0 # x) = m"
  by (induction m) (auto simp: wcstr_def)

lemma fill_message_zeros: "m \<noteq> [] \<Longrightarrow> fill_message m (replicate 512 0) = m @ [0]"
  by (simp add: fill_message_def resize_to_def splice_def)

lemma recent_error_mixes_records:
  assumes "m \<noteq> []" "0 \<notin> set m" "length m \<le> 8192"
  shows "recent_error pf (Some ((st, n, m) # ds @ [(st', n', m')])) ns =
    (let state = convert_w2s pf st'
     in Inr (map (\<lambda>c. if c = CHR 0x00 then CHR '' '' else c) (state @ '': '' @ convert_w2s pf m), n', state))"
proof -
  let ?r = "diag_loop (ds @ [(st', n', m')]) (m @ [0]) (m @ [0]) (Some (st, n))"
  obtain rest where r: "fst ?r = (m @ [0]) @ rest" using diag_loop_prefix [of "m @ [0]"] by blast
  have o: "snd ?r = Some (st', n')" by (rule diag_loop_out)
  have e: "?r = (m @ 0 # rest, Some (st', n'))" by (rule prod_eqI) (simp_all add: r o)
  have m: "wcstr m = m" using assms(2) by (auto simp: wcstr_def takeWhile_eq_all_conv)
  have "convert_w2s pf (m @ 0 # rest) = convert_w2s pf m"
    by (simp add: convert_w2s_def wcstr_first [OF assms(2)] m)
  then show ?thesis
    using assms(1) by (simp add: recent_error_def fill_message_zeros e Let_def)
qed

section \<open>Lengths of character arrays\<close>

text \<open>\<open>strarrlen\<close> reads one element past an array without NUL.\<close>

(* [include/wise.kernel/dbc/error.hpp:105-112 strarrlen] *)
definition strarrlen :: "wide \<Rightarrow> dbc_error + nat" where
  "strarrlen a = (if 0 \<in> set a then Inr (length (wcstr a)) else Inl (Undefined ''read past the array''))"

end
