(* ===== verification/Dbc_Connection.thy ===== *)
theory Dbc_Connection
  imports Dbc_Odbc
begin

text \<open>
  Connections (\<^verbatim>\<open>dbc/common.cpp\<close>, \<^verbatim>\<open>dbc/connection.cpp\<close>) and transactions (\<^verbatim>\<open>dbc/transaction.cpp\<close>). The public classes
  forward to an implementation object, which is what is modelled. What a driver is expected to do with handles is
  stated as \<open>driver_handles\<close>; under it a connection object gives back every handle it takes, on every path.
\<close>

section \<open>Connections\<close>

(* [src/dbc/connection.cpp:362-368 connection::connection_impl] *)
record conn =
  cn_env :: handle
  cn_conn :: handle
  cn_connected :: bool
  cn_transactions :: u64
  cn_rollback :: bool

definition mk_conn :: conn where
  "mk_conn = \<lparr>cn_env = 0, cn_conn = 0, cn_connected = False, cn_transactions = 0, cn_rollback = False\<rparr>"

(* [src/dbc/common.cpp:10-54 allocate_handle] *)
definition allocate_handle :: "'d odbc \<Rightarrow> (conn \<times> 'd, unit) prog" where
  "allocate_handle o' =
     bnd (drv (o_alloc o' SQL_HANDLE_ENV 0)) (\<lambda>(rc, env).
     bnd (upd (\<lambda>c. c\<lparr>cn_env := env\<rparr>)) (\<lambda>_.
     bnd (need SQL_HANDLE_ENV rc) (\<lambda>_.
     on_throw
       (bnd (call o' SQL_HANDLE_ENV (Set_odbc_version env)) (\<lambda>_.
        bnd (drv (o_alloc o' SQL_HANDLE_DBC env)) (\<lambda>(rc, h).
        bnd (upd (\<lambda>c. c\<lparr>cn_conn := h\<rparr>)) (\<lambda>_.
        need SQL_HANDLE_ENV rc))))
       (call_ignore o' (SQLFreeHandle SQL_HANDLE_ENV env)))))"

(* [src/dbc/connection.cpp:14-22 connection_impl::connection_impl] *)
definition conn_new :: "'d odbc \<Rightarrow> 'd \<Rightarrow> (dbc_error + unit) \<times> conn \<times> 'd" where
  "conn_new o' d = allocate_handle o' (mk_conn, d)"

(* [src/dbc/connection.cpp:217-230 connection_impl::disconnect] *)
definition conn_disconnect :: "'d odbc \<Rightarrow> (conn \<times> 'd, unit) prog" where
  "conn_disconnect o' =
     bnd (obj id) (\<lambda>c.
     bnd (if cn_connected c then call o' SQL_HANDLE_DBC (SQLDisconnect (cn_conn c)) else ret ()) (\<lambda>_.
     upd (\<lambda>c. c\<lparr>cn_connected := False\<rparr>)))"

text \<open>The first half of both forms of \<^verbatim>\<open>connect\<close>: a new connection handle with its login timeout.\<close>

(* [src/dbc/connection.cpp:157-187 connection_impl::connect] *)
definition renew_handle :: "'d odbc \<Rightarrow> int \<Rightarrow> (conn \<times> 'd, unit) prog" where
  "renew_handle o' timeout =
     bnd (conn_disconnect o') (\<lambda>_.
     bnd (obj cn_conn) (\<lambda>h.
     bnd (call o' SQL_HANDLE_DBC (SQLFreeHandle SQL_HANDLE_DBC h)) (\<lambda>_.
     bnd (obj cn_env) (\<lambda>env.
     bnd (drv (o_alloc o' SQL_HANDLE_DBC env)) (\<lambda>(rc, h).
     bnd (upd (\<lambda>c. c\<lparr>cn_conn := h\<rparr>)) (\<lambda>_.
     bnd (need SQL_HANDLE_ENV rc) (\<lambda>_.
     call o' SQL_HANDLE_DBC (Set_login_timeout h timeout))))))))"

definition finish_connect :: "'d odbc \<Rightarrow> odbc_call \<Rightarrow> (conn \<times> 'd, unit) prog" where
  "finish_connect o' c =
     bnd (call o' SQL_HANDLE_DBC c) (\<lambda>_. upd (\<lambda>c. c\<lparr>cn_connected := True\<rparr>))"

(* [src/dbc/connection.cpp:102-155 connection_impl::connect] *)
definition conn_connect :: "'d odbc \<Rightarrow> wide \<Rightarrow> wide \<Rightarrow> wide \<Rightarrow> int \<Rightarrow> (conn \<times> 'd, unit) prog" where
  "conn_connect o' dsn user pass timeout =
     bnd (renew_handle o' timeout) (\<lambda>_.
     bnd (obj cn_conn) (\<lambda>h.
     finish_connect o' (SQLConnect h dsn (if user \<noteq> [] then Some user else None) (if pass \<noteq> [] then Some pass else None))))"

(* [src/dbc/connection.cpp:157-210 connection_impl::connect] *)
definition conn_connect_string :: "'d odbc \<Rightarrow> wide \<Rightarrow> int \<Rightarrow> (conn \<times> 'd, unit) prog" where
  "conn_connect_string o' connection_string timeout =
     bnd (renew_handle o' timeout) (\<lambda>_.
     bnd (obj cn_conn) (\<lambda>h. finish_connect o' (SQLDriverConnect h connection_string)))"

text \<open>Freeing both handles: in the destructor and where a constructor fails. The return codes are not looked at.\<close>

(* [src/dbc/connection.cpp:69-77 connection_impl::connection_impl] *)
definition free_handles :: "'d odbc \<Rightarrow> (conn \<times> 'd, unit) prog" where
  "free_handles o' =
     bnd (obj id) (\<lambda>c.
     bnd (call_ignore o' (SQLFreeHandle SQL_HANDLE_DBC (cn_conn c))) (\<lambda>_.
     call_ignore o' (SQLFreeHandle SQL_HANDLE_ENV (cn_env c))))"

(* [src/dbc/connection.cpp:24-52 connection_impl::connection_impl] *)
definition conn_new_dsn :: "'d odbc \<Rightarrow> wide \<Rightarrow> wide \<Rightarrow> wide \<Rightarrow> int \<Rightarrow> 'd \<Rightarrow> (dbc_error + unit) \<times> conn \<times> 'd" where
  "conn_new_dsn o' dsn user pass timeout d =
     bnd (allocate_handle o') (\<lambda>_. on_throw (conn_connect o' dsn user pass timeout) (free_handles o')) (mk_conn, d)"

(* [src/dbc/connection.cpp:54-79 connection_impl::connection_impl] *)
definition conn_new_string :: "'d odbc \<Rightarrow> wide \<Rightarrow> int \<Rightarrow> 'd \<Rightarrow> (dbc_error + unit) \<times> conn \<times> 'd" where
  "conn_new_string o' connection_string timeout d =
     bnd (allocate_handle o') (\<lambda>_. on_throw (conn_connect_string o' connection_string timeout) (free_handles o')) (mk_conn, d)"

(* [src/dbc/connection.cpp:81-100 connection_impl::~connection_impl] *)
definition conn_destroy :: "'d odbc \<Rightarrow> (conn \<times> 'd, unit) prog" where
  "conn_destroy o' = bnd (ignore_throw (conn_disconnect o')) (\<lambda>_. free_handles o')"

(* [src/dbc/connection.cpp:212-215 connection_impl::connected] *)
definition conn_connected :: "conn \<Rightarrow> bool" where
  "conn_connected c = cn_connected c"

(* [src/dbc/connection.cpp:342-345 connection_impl::ref_transaction] *)
definition conn_ref_transaction :: "conn \<Rightarrow> u64 \<times> conn" where
  "conn_ref_transaction c = (let n = cn_transactions c - 1 in (n, c\<lparr>cn_transactions := n\<rparr>))"

(* [src/dbc/connection.cpp:347-350 connection_impl::unref_transaction] *)
definition conn_unref_transaction :: "conn \<Rightarrow> u64 \<times> conn" where
  "conn_unref_transaction c = (let n = cn_transactions c + 1 in (n, c\<lparr>cn_transactions := n\<rparr>))"

(* [src/dbc/connection.cpp:357-360 connection_impl::rollback] *)
definition conn_set_rollback :: "bool \<Rightarrow> conn \<Rightarrow> conn" where
  "conn_set_rollback onoff c = c\<lparr>cn_rollback := onoff\<rparr>"

section \<open>Names\<close>

text \<open>
  The array a name is written into, \<open>None\<close> where it is not initialised; a driver writes at most the array's
  length, and all but one of the functions start from zeros.
\<close>

definition name_of_buffer :: "bool \<Rightarrow> nat \<Rightarrow> wide \<Rightarrow> dbc_error + wide" where
  "name_of_buffer zeroed n t =
     (let written = take n t
      in if \<not> zeroed \<and> 0 \<notin> set written then Inl (Undefined ''the array is not initialised'')
         else case strarrlen (written @ replicate (n - length written) 0) of
                Inl e \<Rightarrow> Inl e
              | Inr k \<Rightarrow> Inr (take k written))"

definition get_name :: "'d odbc \<Rightarrow> info \<Rightarrow> bool \<Rightarrow> nat \<Rightarrow> (conn \<times> 'd, wide) prog" where
  "get_name o' what zeroed n =
     bnd (obj cn_conn) (\<lambda>h.
     bnd (drv (o_text o' what h)) (\<lambda>(rc, t).
     bnd (need SQL_HANDLE_DBC rc) (\<lambda>_.
     case name_of_buffer zeroed n t of Inl e \<Rightarrow> raise e | Inr w \<Rightarrow> ret w)))"

(* [src/dbc/connection.cpp:247-263 connection_impl::dbms_name] *)
definition dbms_name :: "'d odbc \<Rightarrow> (conn \<times> 'd, wide) prog" where
  "dbms_name o' = get_name o' SQL_DBMS_NAME True 255"

(* [src/dbc/connection.cpp:265-281 connection_impl::dbms_version] *)
definition dbms_version :: "'d odbc \<Rightarrow> (conn \<times> 'd, wide) prog" where
  "dbms_version o' = get_name o' SQL_DBMS_VER True 255"

(* [src/dbc/connection.cpp:283-299 connection_impl::driver_name] *)
definition driver_name :: "'d odbc \<Rightarrow> (conn \<times> 'd, wide) prog" where
  "driver_name o' = get_name o' SQL_DRIVER_NAME False 1024"

(* [src/dbc/connection.cpp:301-321 connection_impl::database_name] *)
definition database_name :: "'d odbc \<Rightarrow> (conn \<times> 'd, wide) prog" where
  "database_name o' = get_name o' SQL_DATABASE_NAME True 255"

(* [src/dbc/connection.cpp:323-339 connection_impl::catalog_name] *)
definition catalog_name :: "'d odbc \<Rightarrow> (conn \<times> 'd, wide) prog" where
  "catalog_name o' = get_name o' SQL_ATTR_CURRENT_CATALOG True 256"

section \<open>Transactions\<close>

text \<open>
  A transaction next to its connection. \<open>tn_impl\<close> tells whether \<^verbatim>\<open>impl_\<close> has been set: the implementation object calls back
  into the public object, which forwards through \<^verbatim>\<open>impl_\<close>, and it does so in its own constructor.
\<close>

(* [src/dbc/transaction.cpp:116-120 transaction::transaction_impl] *)
record tran =
  tn_impl :: bool
  tn_committed :: bool

(* [src/dbc/transaction.cpp:141-144 transaction::get_connection] *)
definition tran_connection :: "((tran \<times> conn) \<times> 'd, conn) prog" where
  "tran_connection =
     bnd (obj id) (\<lambda>(t, c). if tn_impl t then ret c else raise (Undefined ''impl_ is used before it is set''))"

(* [src/dbc/transaction.cpp:151-154 transaction::ref_transaction] *)
definition tran_ref :: "((tran \<times> conn) \<times> 'd, u64) prog" where
  "tran_ref =
     bnd tran_connection (\<lambda>c. case conn_ref_transaction c of (n, c') \<Rightarrow> bnd (upd (\<lambda>(t, _). (t, c'))) (\<lambda>_. ret n))"

(* [src/dbc/transaction.cpp:156-159 transaction::unref_transaction] *)
definition tran_unref :: "((tran \<times> conn) \<times> 'd, u64) prog" where
  "tran_unref =
     bnd tran_connection (\<lambda>c. case conn_unref_transaction c of (n, c') \<Rightarrow> bnd (upd (\<lambda>(t, _). (t, c'))) (\<lambda>_. ret n))"

(* [src/dbc/transaction.cpp:166-169 transaction::rollback] *)
definition tran_mark :: "bool \<Rightarrow> ((tran \<times> conn) \<times> 'd, unit) prog" where
  "tran_mark onoff = bnd tran_connection (\<lambda>c. upd (\<lambda>(t, _). (t, conn_set_rollback onoff c)))"

(* [src/dbc/transaction.cpp:14-39 transaction_impl::transaction_impl] *)
definition tran_begin :: "'d odbc \<Rightarrow> ((tran \<times> conn) \<times> 'd, unit) prog" where
  "tran_begin o' =
     bnd (obj snd) (\<lambda>c.
     bnd (if cn_transactions c = 0 \<and> cn_connected c then call o' SQL_HANDLE_DBC (Set_autocommit (cn_conn c) False) else ret ()) (\<lambda>_.
     bnd tran_ref (\<lambda>_. ret ())))"

(* [src/dbc/transaction.cpp:122-125 transaction::transaction] *)
definition tran_new :: "'d odbc \<Rightarrow> conn \<Rightarrow> 'd \<Rightarrow> (dbc_error + unit) \<times> (tran \<times> conn) \<times> 'd" where
  "tran_new o' c d =
     bnd (tran_begin o') (\<lambda>_. upd (\<lambda>(t, c). (t\<lparr>tn_impl := True\<rparr>, c))) ((\<lparr>tn_impl = False, tn_committed = False\<rparr>, c), d)"

(* [src/dbc/transaction.cpp:70-94 transaction_impl::commit] *)
definition tran_commit :: "'d odbc \<Rightarrow> ((tran \<times> conn) \<times> 'd, unit) prog" where
  "tran_commit o' =
     bnd (obj id) (\<lambda>(t, c).
     if tn_committed t then ret ()
     else bnd (upd (\<lambda>(t, c). (t\<lparr>tn_committed := True\<rparr>, c))) (\<lambda>_.
          bnd tran_unref (\<lambda>n.
          if n = 0 \<and> cn_connected c then call o' SQL_HANDLE_DBC (SQLEndTran (cn_conn c) True) else ret ())))"

(* [src/dbc/transaction.cpp:96-104 transaction_impl::rollback] *)
definition tran_rollback :: "((tran \<times> conn) \<times> 'd, unit) prog" where
  "tran_rollback = bnd (obj id) (\<lambda>(t, c). if tn_committed t then ret () else tran_mark True)"

(* [src/dbc/transaction.cpp:41-68 transaction_impl::~transaction_impl] *)
definition tran_destroy :: "'d odbc \<Rightarrow> ((tran \<times> conn) \<times> 'd, unit) prog" where
  "tran_destroy o' =
     bnd (obj (tn_committed \<circ> fst)) (\<lambda>committed.
     bnd (if committed then ret () else bnd (tran_mark True) (\<lambda>_. bnd tran_unref (\<lambda>_. ret ()))) (\<lambda>_.
     bnd (obj snd) (\<lambda>c.
     if cn_transactions c = 0 \<and> cn_connected c then
       bnd (if cn_rollback c then bnd (call_ignore o' (SQLEndTran (cn_conn c) False)) (\<lambda>_. tran_mark False) else ret ()) (\<lambda>_.
       call_ignore o' (Set_autocommit (cn_conn c) True))
     else ret ())))"

end
