(* ===== verification/Dbc_Result.thy ===== *)
theory Dbc_Result
  imports Dbc_Odbc
begin

text \<open>
  Result sets (\<^verbatim>\<open>dbc/result.cpp\<close>): the columns bound to a statement, the rowset the driver fills, moving over the rows
  and reading cells. The driver writes into the buffers bound last, so the result set that is read is the one the
  statement has prepared last. Reads outside a buffer, through a null pointer or of a null statement are
  \<open>Undefined\<close>. \<^verbatim>\<open>delete\<close> of an array counts as \<^verbatim>\<open>delete[]\<close>.
\<close>

section \<open>State\<close>

(* [src/dbc/result.cpp:14-51 bound_column] *)
record bound_column =
  bc_name :: wide
  bc_column :: int
  bc_sqltype :: sqltype
  bc_sqlsize :: nat
  bc_scale :: int
  bc_ctype :: ctype
  bc_clen :: nat
  bc_blob :: bool
  bc_cbdata :: "int list option"
  bc_pdata :: "byte list option"

definition mk_bound_column :: bound_column where
  "mk_bound_column = \<lparr>bc_name = [], bc_column = 0, bc_sqltype = SQL_OTHER 0, bc_sqlsize = 0, bc_scale = 0, bc_ctype = SQL_C_NONE,
     bc_clen = 0, bc_blob = False, bc_cbdata = None, bc_pdata = None\<rparr>"

text \<open>\<open>rs_columns\<close> is \<^verbatim>\<open>bound_columns_\<close> with its size, \<open>None\<close> for the null pointer; names lead to positions in it.\<close>

(* [src/dbc/result.cpp:796-809 result::result_impl] *)
record result_set =
  rs_stmt :: "handle option"
  rs_rowset_size :: int
  rs_row_count :: nat
  rs_columns :: "bound_column list option"
  rs_position :: int
  rs_by_name :: "(wide, nat) umap"
  rs_at_end :: bool
  rs_changed :: bool
  rs_index :: int
  rs_is_bound :: bool
  rs_reuse :: nat

(* [src/dbc/result.cpp:60-71 result_impl::result_impl] *)
definition mk_result :: result_set where
  "mk_result = \<lparr>rs_stmt = None, rs_rowset_size = 0, rs_row_count = 0, rs_columns = None, rs_position = 0, rs_by_name = [],
     rs_at_end = False, rs_changed = False, rs_index = -1, rs_is_bound = False, rs_reuse = 0\<rparr>"

definition rs_size :: "result_set \<Rightarrow> int" where
  "rs_size r = (case rs_columns r of None \<Rightarrow> 0 | Some cs \<Rightarrow> int (length cs))"

text \<open>\<^verbatim>\<open>long\<close> has 32 bits.\<close>

(* [src/dbc/result.cpp:139-144 result_impl::rows] *)
definition rs_rows :: "result_set \<Rightarrow> int" where
  "rs_rows r = signed_take_bit 31 (int (rs_row_count r))"

definition with_stmt :: "(handle \<Rightarrow> (result_set \<times> 'd, 'a) prog) \<Rightarrow> (result_set \<times> 'd, 'a) prog" where
  "with_stmt f = bnd (obj rs_stmt) (\<lambda>s. case s of None \<Rightarrow> raise (Undefined ''stmt_ is null'') | Some h \<Rightarrow> f h)"

section \<open>Binding\<close>

(* [src/dbc/result.cpp:543-561 result_impl::cleanup_bound_columns] *)
definition cleanup_bound_columns :: "result_set \<Rightarrow> result_set" where
  "cleanup_bound_columns r = r\<lparr>rs_columns := None, rs_by_name := []\<rparr>"

text \<open>The C type and the length of a cell that go with an SQL type. A blob keeps its flag until the columns are made anew.\<close>

(* [src/dbc/result.cpp:641-734 result_impl::auto_bind] *)
definition bind_type :: "bound_column \<Rightarrow> bound_column" where
  "bind_type c =
     (let n = bc_sqlsize c;
          is_blob = (n = 0 \<and> (bc_sqltype c = SQL_VARCHAR \<or> bc_sqltype c = SQL_WVARCHAR));
          text = (\<lambda>ct len. if is_blob then c\<lparr>bc_ctype := ct, bc_clen := 0, bc_blob := True\<rparr>
                           else c\<lparr>bc_ctype := ct, bc_clen := len\<rparr>);
          blob = (\<lambda>ct. c\<lparr>bc_ctype := ct, bc_blob := True, bc_clen := 0\<rparr>);
          plain = (\<lambda>ct len. c\<lparr>bc_ctype := ct, bc_clen := len\<rparr>)
      in case bc_sqltype c of
           SQL_BIT \<Rightarrow> plain SQL_C_LONG 4 | SQL_TINYINT \<Rightarrow> plain SQL_C_LONG 4
         | SQL_SMALLINT \<Rightarrow> plain SQL_C_LONG 4 | SQL_INTEGER \<Rightarrow> plain SQL_C_LONG 4
         | SQL_BIGINT \<Rightarrow> plain SQL_C_SBIGINT 8
         | SQL_DOUBLE \<Rightarrow> plain SQL_C_DOUBLE 8 | SQL_FLOAT \<Rightarrow> plain SQL_C_DOUBLE 8 | SQL_DECIMAL \<Rightarrow> plain SQL_C_DOUBLE 8
         | SQL_REAL \<Rightarrow> plain SQL_C_DOUBLE 8 | SQL_NUMERIC \<Rightarrow> plain SQL_C_DOUBLE 8
         | SQL_DATE \<Rightarrow> plain SQL_C_DATE 6 | SQL_TYPE_DATE \<Rightarrow> plain SQL_C_DATE 6
         | SQL_TIMESTAMP \<Rightarrow> plain SQL_C_TIMESTAMP 16 | SQL_TYPE_TIMESTAMP \<Rightarrow> plain SQL_C_TIMESTAMP 16
         | SQL_CHAR \<Rightarrow> text SQL_C_CHAR (n + 1) | SQL_VARCHAR \<Rightarrow> text SQL_C_CHAR (n + 1)
         | SQL_WCHAR \<Rightarrow> text SQL_C_WCHAR ((n + 1) * 2) | SQL_WVARCHAR \<Rightarrow> text SQL_C_WCHAR ((n + 1) * 2)
         | SQL_LONGVARCHAR \<Rightarrow> blob SQL_C_CHAR
         | SQL_BINARY \<Rightarrow> blob SQL_C_BINARY | SQL_VARBINARY \<Rightarrow> blob SQL_C_BINARY | SQL_LONGVARBINARY \<Rightarrow> blob SQL_C_BINARY
         | SQL_OTHER x \<Rightarrow> plain SQL_C_WCHAR 128)"

text \<open>Access to \<^verbatim>\<open>bound_columns_[i]\<close>.\<close>

definition with_column :: "int \<Rightarrow> (bound_column \<Rightarrow> (result_set \<times> 'd, 'a) prog) \<Rightarrow> (result_set \<times> 'd, 'a) prog" where
  "with_column i f =
     bnd (obj rs_columns) (\<lambda>cs. case cs of
         None \<Rightarrow> raise (Undefined ''bound_columns_ is null'')
       | Some l \<Rightarrow> if 0 \<le> i \<and> nat i < length l then f (l ! nat i) else raise (Undefined ''index outside bound_columns_''))"

definition set_column :: "nat \<Rightarrow> bound_column \<Rightarrow> result_set \<Rightarrow> result_set" where
  "set_column i c r = r\<lparr>rs_columns := map_option (\<lambda>l. l[i := c]) (rs_columns r)\<rparr>"

(* [src/dbc/result.cpp:621-665 result_impl::auto_bind] *)
definition describe_column :: "'d odbc \<Rightarrow> handle \<Rightarrow> nat \<Rightarrow> (result_set \<times> 'd, unit) prog" where
  "describe_column o' h i =
     bnd (drv (o_describe_col o' h (int i + 1))) (\<lambda>(rc, name, ty, sz, scale).
     bnd (need SQL_HANDLE_STMT rc) (\<lambda>_.
     with_column (int i) (\<lambda>c.
       let n = wcstr name;
           c' = bind_type (c\<lparr>bc_name := n, bc_column := int i, bc_sqltype := ty, bc_sqlsize := sz, bc_scale := scale\<rparr>)
       in upd (\<lambda>r. (set_column i c' r)\<lparr>rs_by_name := um_set n i (rs_by_name r)\<rparr>))))"

(* [src/dbc/result.cpp:737-785 result_impl::auto_bind] *)
definition bind_column :: "'d odbc \<Rightarrow> handle \<Rightarrow> nat \<Rightarrow> (result_set \<times> 'd, unit) prog" where
  "bind_column o' h i =
     bnd (obj id) (\<lambda>r.
     with_column (int i) (\<lambda>c.
       let c1 = (if rs_changed r then c\<lparr>bc_cbdata := Some (replicate (nat (rs_rowset_size r)) 0)\<rparr> else c);
           c2 = (if rs_changed r \<and> \<not> bc_blob c then c1\<lparr>bc_pdata := Some (replicate (nat (rs_rowset_size r) * bc_clen c) 0)\<rparr> else c1)
       in bnd (upd (set_column i c2)) (\<lambda>_.
          call o' SQL_HANDLE_STMT (SQLBindCol h (int i + 1) (bc_ctype c) (if bc_blob c then 0 else bc_clen c)))))"

(* [src/dbc/result.cpp:589-620 result_impl::auto_bind] *)
definition auto_bind :: "'d odbc \<Rightarrow> (result_set \<times> 'd, unit) prog" where
  "auto_bind o' =
     bnd (upd (\<lambda>r. r\<lparr>rs_is_bound := False\<rparr>)) (\<lambda>_.
     with_stmt (\<lambda>h.
     bnd (drv (o_number o' (SQLNumResultCols h))) (\<lambda>(rc, n_columns).
     bnd (need SQL_HANDLE_STMT rc) (\<lambda>_.
     if n_columns < 1 then ret ()
     else
       bnd (upd (\<lambda>r. if rs_changed r
                     then (cleanup_bound_columns r)\<lparr>rs_reuse := 0, rs_columns := Some (replicate (nat n_columns) mk_bound_column)\<rparr>
                     else r\<lparr>rs_reuse := rs_reuse r + 1\<rparr>)) (\<lambda>_.
       bnd (each (describe_column o' h) [0..<nat n_columns]) (\<lambda>_.
       bnd (each (bind_column o' h) [0..<nat n_columns]) (\<lambda>_.
       upd (\<lambda>r. r\<lparr>rs_is_bound := True\<rparr>))))))))"

(* [src/dbc/result.cpp:73-117 result_impl::prepare_fetch] *)
definition prepare_fetch :: "'d odbc \<Rightarrow> handle \<Rightarrow> int \<Rightarrow> bool \<Rightarrow> int \<Rightarrow> (result_set \<times> 'd, unit) prog" where
  "prepare_fetch o' h rowset_size changed rs_ix =
     bnd (upd (\<lambda>r. r\<lparr>rs_stmt := Some h, rs_rowset_size := rowset_size, rs_changed := changed, rs_index := rs_ix\<rparr>)) (\<lambda>_.
     bnd (call o' SQL_HANDLE_STMT (Set_row_array_size h rowset_size)) (\<lambda>_.
     bnd (call o' SQL_HANDLE_STMT (Set_rows_fetched_ptr h)) (\<lambda>_.
     auto_bind o')))"

section \<open>Moving\<close>

(* [src/dbc/result.cpp:790-794 result_impl::is_ready_to_fetch] *)
definition is_ready_to_fetch :: "result_set \<Rightarrow> bool" where
  "is_ready_to_fetch r \<longleftrightarrow> rs_columns r \<noteq> None \<and> rs_rowset_size r > 0 \<and> rs_index r \<ge> 0 \<and> rs_is_bound r"

definition clear_indicators :: "nat \<Rightarrow> bound_column \<Rightarrow> bound_column" where
  "clear_indicators n c = c\<lparr>bc_cbdata := map_option (\<lambda>l. replicate n 0 @ drop n l) (bc_cbdata c)\<rparr>"

definition indicators_fit :: "nat \<Rightarrow> bound_column \<Rightarrow> bool" where
  "indicators_fit n c \<longleftrightarrow> n = 0 \<or> (case bc_cbdata c of None \<Rightarrow> False | Some l \<Rightarrow> n \<le> length l)"

(* [src/dbc/result.cpp:527-541 result_impl::before_move] *)
definition before_move :: "(result_set \<times> 'd, unit) prog" where
  "before_move =
     bnd (obj id) (\<lambda>r. let n = nat (rs_rowset_size r) in
       case rs_columns r of
         None \<Rightarrow> ret ()
       | Some cs \<Rightarrow>
           if list_all (indicators_fit n) cs then upd (\<lambda>r. r\<lparr>rs_columns := Some (map (clear_indicators n) cs)\<rparr>)
           else raise (Undefined ''cbdata_ is too short''))"

text \<open>The driver fills row \<open>j\<close> of the bound buffers; it writes nothing for a blob but its indicator.\<close>

definition store_cell :: "nat \<Rightarrow> cell \<Rightarrow> bound_column \<Rightarrow> bound_column" where
  "store_cell j x c =
     c\<lparr>bc_cbdata := map_option (\<lambda>l. l[j := fst x]) (bc_cbdata c),
       bc_pdata := map_option (\<lambda>b. splice (j * bc_clen c) (take (bc_clen c) (snd x)) b) (bc_pdata c)\<rparr>"

definition store_row :: "nat \<Rightarrow> cell list \<Rightarrow> bound_column list \<Rightarrow> bound_column list" where
  "store_row j row cs = map2 (store_cell j) (take (length cs) row) cs @ drop (length row) cs"

fun store_rows :: "nat \<Rightarrow> cell list list \<Rightarrow> bound_column list \<Rightarrow> bound_column list" where
  "store_rows j [] cs = cs"
| "store_rows j (row # rows) cs = store_rows (Suc j) rows (store_row j row cs)"

(* [src/dbc/result.cpp:563-587 result_impl::fetch] *)
definition fetch :: "'d odbc \<Rightarrow> int \<Rightarrow> orientation \<Rightarrow> (result_set \<times> 'd, bool) prog" where
  "fetch o' rows orient =
     bnd before_move (\<lambda>_.
     with_stmt (\<lambda>h.
     bnd (drv (o_fetch o' h orient rows)) (\<lambda>(rc, n, cells).
     bnd (upd (\<lambda>r. r\<lparr>rs_row_count := n, rs_columns := map_option (store_rows 0 cells) (rs_columns r)\<rparr>)) (\<lambda>_.
     if rc = SQL_NO_DATA then bnd (upd (\<lambda>r. r\<lparr>rs_at_end := True\<rparr>)) (\<lambda>_. ret False)
     else bnd (need SQL_HANDLE_STMT rc) (\<lambda>_. ret True)))))"

definition fetch_from_start :: "'d odbc \<Rightarrow> int \<Rightarrow> orientation \<Rightarrow> (result_set \<times> 'd, bool) prog" where
  "fetch_from_start o' rows orient = bnd (upd (\<lambda>r. r\<lparr>rs_position := 0\<rparr>)) (\<lambda>_. fetch o' rows orient)"

definition if_ready :: "(result_set \<times> 'd, bool) prog \<Rightarrow> (result_set \<times> 'd, bool) prog" where
  "if_ready m = bnd (obj is_ready_to_fetch) (\<lambda>b. if b then m else ret False)"

(* [src/dbc/result.cpp:151-158 result_impl::first] *)
definition rs_first :: "'d odbc \<Rightarrow> (result_set \<times> 'd, bool) prog" where
  "rs_first o' = if_ready (fetch_from_start o' 0 SQL_FETCH_FIRST)"

(* [src/dbc/result.cpp:160-166 result_impl::last] *)
definition rs_last :: "'d odbc \<Rightarrow> (result_set \<times> 'd, bool) prog" where
  "rs_last o' = if_ready (fetch_from_start o' 0 SQL_FETCH_LAST)"

(* [src/dbc/result.cpp:168-180 result_impl::next] *)
definition rs_next :: "'d odbc \<Rightarrow> (result_set \<times> 'd, bool) prog" where
  "rs_next o' = if_ready (
     bnd (obj id) (\<lambda>r.
     if rs_rows r \<noteq> 0 \<and> rs_position r + 1 < rs_rowset_size r
     then bnd (upd (\<lambda>r. r\<lparr>rs_position := rs_position r + 1\<rparr>)) (\<lambda>_. ret (rs_position r + 1 < rs_rows r))
     else fetch_from_start o' 0 SQL_FETCH_NEXT))"

(* [src/dbc/result.cpp:182-194 result_impl::prior] *)
definition rs_prior :: "'d odbc \<Rightarrow> (result_set \<times> 'd, bool) prog" where
  "rs_prior o' = if_ready (
     bnd (obj id) (\<lambda>r.
     if rs_rows r \<noteq> 0 \<and> rs_position r - 1 \<ge> 0
     then bnd (upd (\<lambda>r. r\<lparr>rs_position := rs_position r - 1\<rparr>)) (\<lambda>_. ret True)
     else fetch_from_start o' 0 SQL_FETCH_PRIOR))"

(* [src/dbc/result.cpp:196-203 result_impl::move] *)
definition rs_move :: "'d odbc \<Rightarrow> int \<Rightarrow> (result_set \<times> 'd, bool) prog" where
  "rs_move o' row = if_ready (fetch_from_start o' row SQL_FETCH_ABSOLUTE)"

(* [src/dbc/result.cpp:205-214 result_impl::skip] *)
definition rs_skip :: "'d odbc \<Rightarrow> int \<Rightarrow> (result_set \<times> 'd, bool) prog" where
  "rs_skip o' rows = if_ready (
     bnd (obj id) (\<lambda>r.
     let p = rs_position r + rows in
     if p < - (2 ^ 31) \<or> 2 ^ 31 \<le> p then raise (Undefined ''signed overflow'')
     else if rs_rows r \<noteq> 0 \<and> p < rs_rowset_size r
     then bnd (upd (\<lambda>r. r\<lparr>rs_position := p\<rparr>)) (\<lambda>_. ret (p < rs_rows r))
     else fetch_from_start o' rows SQL_FETCH_RELATIVE))"

(* [src/dbc/result.cpp:216-248 result_impl::position] *)
definition rs_get_position :: "'d odbc \<Rightarrow> (result_set \<times> 'd, u32) prog" where
  "rs_get_position o' =
     with_stmt (\<lambda>h.
     bnd (drv (o_number o' (Get_row_number h))) (\<lambda>(rc, pos).
     bnd (need SQL_HANDLE_STMT rc) (\<lambda>_.
     if pos = 0 \<or> pos = 2 ^ 64 - 2 then ret 0
     else bnd (obj rs_position) (\<lambda>p. ret (word_of_int (pos + p))))))"

(* [src/dbc/result.cpp:250-269 result_impl::end] *)
definition rs_end :: "'d odbc \<Rightarrow> (result_set \<times> 'd, bool) prog" where
  "rs_end o' =
     bnd (obj id) (\<lambda>r.
     if rs_at_end r then ret True
     else with_stmt (\<lambda>h.
          bnd (drv (o_number o' (Get_row_number h))) (\<lambda>(rc, pos).
          ret (\<not> sql_success rc \<or> rs_rows r < 0 \<or> (pos - 1) mod 2 ^ 64 > rs_rows r))))"

end
