(* ===== verification/Dbc_Rows.thy ===== *)
theory Dbc_Rows
  imports Dbc_Result
begin

text \<open>
  Reading a result set row by row: with a driver that delivers the rows in rowsets as ODBC documents, the loop over
  \<^verbatim>\<open>next\<close> sees each row once and in order, whatever the size of the rowset - unless the object still has the counters
  of an earlier execution.
\<close>

section \<open>Buffers\<close>

definition buffers_ok :: "nat \<Rightarrow> bound_column \<Rightarrow> bool" where
  "buffers_ok n c \<longleftrightarrow> (\<exists>l. bc_cbdata c = Some l \<and> n \<le> length l) \<and>
     (\<not> bc_blob c \<longrightarrow> (\<exists>b. bc_pdata c = Some b \<and> n * bc_clen c \<le> length b))"

definition cell_fits :: "bound_column \<Rightarrow> cell \<Rightarrow> bool" where
  "cell_fits c x \<longleftrightarrow> bc_blob c \<or> length (snd x) \<le> bc_clen c"

text \<open>The cell the program sees at a position of the rowset.\<close>

definition shows_cell :: "nat \<Rightarrow> bound_column \<Rightarrow> cell \<Rightarrow> bool" where
  "shows_cell j c x \<longleftrightarrow> (\<exists>l. bc_cbdata c = Some l \<and> j < length l \<and> l ! j = fst x) \<and>
     (\<not> bc_blob c \<longrightarrow> (\<exists>b. bc_pdata c = Some b \<and> take (length (snd x)) (drop (j * bc_clen c) b) = snd x))"

lemma store_cell_frame [simp]: "bc_blob (store_cell j x c) = bc_blob c" "bc_clen (store_cell j x c) = bc_clen c"
  by (simp_all add: store_cell_def)

lemma slot_room: "j < n \<Longrightarrow> n * k \<le> m \<Longrightarrow> j * k + k \<le> (m :: nat)"
  using mult_le_mono1 [of "Suc j" n k] by simp

lemma buffers_store_cell:
  assumes "buffers_ok n c" "cell_fits c x" "j < n"
  shows "buffers_ok n (store_cell j x c)"
proof -
  have "j * bc_clen c + length (take (bc_clen c) (snd x)) \<le> length b" if "n * bc_clen c \<le> length b" for b :: "byte list"
    using slot_room [OF assms(3) that] by simp
  then show ?thesis using assms(1) by (auto simp: buffers_ok_def store_cell_def)
qed

lemma shows_store_cell:
  assumes "buffers_ok n c" "cell_fits c x" "j < n"
  shows "shows_cell j (store_cell j x c) x"
proof -
  have "take (length (snd x)) (drop (j * bc_clen c) (splice (j * bc_clen c) (take (bc_clen c) (snd x)) b)) = snd x"
    if "n * bc_clen c \<le> length b" "\<not> bc_blob c" for b
    using slot_room [OF assms(3) that(1)] assms(2) that(2) by (auto simp: cell_fits_def splice_def)
  then show ?thesis using assms(1,3) by (auto simp: buffers_ok_def shows_cell_def store_cell_def)
qed

lemma keeps_store_cell:
  assumes "buffers_ok n c" "cell_fits c x" "i < j" "j < n" "cell_fits c y" "shows_cell i c y"
  shows "shows_cell i (store_cell j x c) y"
proof -
  have "take (length (snd y)) (drop (i * bc_clen c) (splice (j * bc_clen c) (take (bc_clen c) (snd x)) b)) = snd y"
    if "n * bc_clen c \<le> length b" "\<not> bc_blob c" "take (length (snd y)) (drop (i * bc_clen c) b) = snd y" for b
  proof -
    have "i * bc_clen c + length (snd y) \<le> j * bc_clen c"
      using slot_room [OF assms(3) order_refl, of "bc_clen c"] assms(5) that(2) by (simp add: cell_fits_def)
    moreover have "j * bc_clen c \<le> length b" using slot_room [OF assms(4) that(1)] by simp
    ultimately have "take (length (snd y)) (drop (i * bc_clen c) (take (j * bc_clen c) b @ z)) = take (length (snd y)) (drop (i * bc_clen c) b)" for z
      by (simp add: take_drop min_absorb1)
    then show ?thesis by (simp only: splice_def that(3))
  qed
  then show ?thesis using assms(1,3,6) by (auto simp: buffers_ok_def shows_cell_def store_cell_def)
qed

definition row_fits :: "bound_column list \<Rightarrow> cell list \<Rightarrow> bool" where
  "row_fits cs row \<longleftrightarrow> list_all2 cell_fits cs row"

definition shows_row :: "nat \<Rightarrow> bound_column list \<Rightarrow> cell list \<Rightarrow> bool" where
  "shows_row j cs row \<longleftrightarrow> list_all2 (shows_cell j) cs row"

lemma store_row_full: "length row = length cs \<Longrightarrow> store_row j row cs = map2 (store_cell j) row cs"
  by (simp add: store_row_def)

lemma store_row_frame:
  assumes "row_fits cs row" "list_all (buffers_ok n) cs" "j < n"
  shows "list_all (buffers_ok n) (store_row j row cs)" "row_fits (store_row j row cs) r = row_fits cs r"
    "length (store_row j row cs) = length cs" "shows_row j (store_row j row cs) row"
proof -
  have len: "length cs = length row" using assms(1) by (simp add: row_fits_def list_all2_lengthD)
  note e = store_row_full [OF len [symmetric], of j]
  have nth: "buffers_ok n (cs ! i)" "cell_fits (cs ! i) (row ! i)" if "i < length cs" for i
    using assms(1,2) that by (simp_all add: list_all_length row_fits_def list_all2_nthD)
  show "list_all (buffers_ok n) (store_row j row cs)"
    using nth len assms(3) by (auto simp: e list_all_length intro: buffers_store_cell)
  show "length (store_row j row cs) = length cs" using len by (simp add: e)
  show "row_fits (store_row j row cs) r = row_fits cs r"
    using len by (auto simp: e row_fits_def list_all2_conv_all_nth cell_fits_def)
  show "shows_row j (store_row j row cs) row"
    using nth len assms(3) by (auto simp: e shows_row_def list_all2_conv_all_nth intro: shows_store_cell)
qed

lemma store_row_keeps:
  assumes "row_fits cs row" "row_fits cs r" "list_all (buffers_ok n) cs" "i < j" "j < n" "shows_row i cs r"
  shows "shows_row i (store_row j row cs) r"
proof -
  have len: "length cs = length row" "length cs = length r" using assms(1,2) unfolding row_fits_def by (blast dest: list_all2_lengthD)+
  note e = store_row_full [OF len(1) [symmetric], of j]
  show ?thesis
    using assms len by (auto simp: e shows_row_def row_fits_def list_all2_conv_all_nth list_all_length intro: keeps_store_cell)
qed

lemma store_rows_shows:
  assumes "\<forall>row \<in> set rows. row_fits cs row" "list_all (buffers_ok n) cs" "j + length rows \<le> n" "length shown = j"
    "\<forall>row \<in> set shown. row_fits cs row" "\<And>i. i < j \<Longrightarrow> shows_row i cs (shown ! i)"
  shows "list_all (buffers_ok n) (store_rows j rows cs) \<and> (\<forall>row. row_fits (store_rows j rows cs) row = row_fits cs row) \<and>
    (\<forall>i < j + length rows. shows_row i (store_rows j rows cs) ((shown @ rows) ! i))"
  using assms
proof (induction rows arbitrary: j cs shown)
  case Nil
  then show ?case by simp
next
  case (Cons row rows)
  let ?cs = "store_row j row cs"
  have f: "row_fits cs row" "j < n" using Cons.prems by simp_all
  note F = store_row_frame [OF f(1) Cons.prems(2) f(2)]
  have "shows_row i ?cs ((shown @ [row]) ! i)" if "i < Suc j" for i
  proof (cases "i = j")
    case True
    moreover have "(shown @ [row]) ! j = row" using Cons.prems(4) by (metis nth_append_length)
    ultimately show ?thesis using F(4) by simp
  next
    case False
    then have "i < j" using that by simp
    then show ?thesis
      using store_row_keeps [OF f(1) _ Cons.prems(2) _ f(2) Cons.prems(6)] Cons.prems(4,5) by (simp add: nth_append)
  qed
  then show ?case
    using Cons.IH [of ?cs "Suc j" "shown @ [row]"] Cons.prems F f(1) by simp
qed

section \<open>A rowset\<close>

text \<open>What ODBC documents of fetching forward: the next rows, at most as many as the rowset has, or no data and a count of zero.\<close>

definition forward_cursor :: "'d odbc \<Rightarrow> handle \<Rightarrow> nat \<Rightarrow> ('d \<Rightarrow> cell list list) \<Rightarrow> bool" where
  "forward_cursor o' h n rem \<longleftrightarrow>
     (\<forall>d. case o_fetch o' h SQL_FETCH_NEXT 0 d of ((rc, k, cells), d') \<Rightarrow>
        if rem d = [] then rc = SQL_NO_DATA \<and> k = 0 \<and> cells = []
        else sql_success rc \<and> cells = take n (rem d) \<and> k = length cells \<and> rem d' = drop n (rem d))"

definition ready_at :: "handle \<Rightarrow> nat \<Rightarrow> (cell list \<Rightarrow> bool) \<Rightarrow> result_set \<Rightarrow> bool" where
  "ready_at h n fit r \<longleftrightarrow> is_ready_to_fetch r \<and> rs_stmt r = Some h \<and> rs_rowset_size r = int n \<and> 0 < n \<and> n < 2 ^ 31 \<and>
     (\<exists>cs. rs_columns r = Some cs \<and> list_all (buffers_ok n) cs \<and> (\<forall>row. row_fits cs row = fit row))"

text \<open>The row the program sees.\<close>

definition current_row :: "result_set \<Rightarrow> cell list \<Rightarrow> bool" where
  "current_row r row \<longleftrightarrow> 0 \<le> rs_position r \<and> (\<exists>cs. rs_columns r = Some cs \<and> shows_row (nat (rs_position r)) cs row)"

text \<open>The rows of the rowset \<open>B\<close> are in the buffers and the position is \<open>p\<close>.\<close>

definition holds :: "handle \<Rightarrow> nat \<Rightarrow> (cell list \<Rightarrow> bool) \<Rightarrow> cell list list \<Rightarrow> nat \<Rightarrow> result_set \<Rightarrow> bool" where
  "holds h n fit B p r \<longleftrightarrow> ready_at h n fit r \<and> rs_row_count r = length B \<and> length B \<le> n \<and> rs_position r = int p \<and>
     (\<forall>cs. rs_columns r = Some cs \<longrightarrow> (\<forall>i < length B. shows_row i cs (B ! i)))"

lemma clear_indicators_ok: "buffers_ok n c \<Longrightarrow> indicators_fit n c \<and> buffers_ok n (clear_indicators n c)"
  by (auto simp: buffers_ok_def indicators_fit_def clear_indicators_def)

lemma clear_indicators_fits: "row_fits (map (clear_indicators n) cs) row = row_fits cs row"
  by (auto simp: row_fits_def list_all2_conv_all_nth cell_fits_def clear_indicators_def)

lemma rows_small: "rs_row_count r < 2 ^ 31 \<Longrightarrow> rs_rows r = int (rs_row_count r)"
  by (simp add: rs_rows_def signed_take_bit_int_eq_self)

lemma next_fetches:
  assumes r: "ready_at h n fit r" and nf: "rs_rows r = 0 \<or> rs_position r + 1 \<ge> int n" and fc: "forward_cursor o' h n rem"
    and fit: "\<forall>row \<in> set (rem d). fit row"
  shows "rem d = [] \<Longrightarrow> \<exists>s'. rs_next o' (r, d) = (Inr False, s')"
    and "rem d \<noteq> [] \<Longrightarrow> \<exists>r' d'. rs_next o' (r, d) = (Inr True, (r', d')) \<and> holds h n fit (take n (rem d)) 0 r' \<and> rem d' = drop n (rem d)"
proof -
  obtain cs where cs: "rs_columns r = Some cs" "list_all (buffers_ok n) cs" "\<And>row. row_fits cs row = fit row"
    and rr: "is_ready_to_fetch r" "rs_stmt r = Some h" "rs_rowset_size r = int n" "0 < n" "n < 2 ^ 31"
    using r by (auto simp: ready_at_def)
  let ?f = "o_fetch o' h SQL_FETCH_NEXT 0 d"
  let ?cs = "map (clear_indicators n) cs"
  let ?r = "r\<lparr>rs_position := 0, rs_columns := Some ?cs, rs_row_count := fst (snd (fst ?f)), rs_columns := Some (store_rows 0 (snd (snd (fst ?f))) ?cs)\<rparr>"
  have fit': "list_all (indicators_fit n) cs" "list_all (buffers_ok n) ?cs"
    using cs(2) clear_indicators_ok by (auto simp: list_all_iff)
  have run: "rs_next o' (r, d) =
      (if fst (fst ?f) = SQL_NO_DATA then (Inr False, (?r\<lparr>rs_at_end := True\<rparr>, snd ?f))
       else if sql_success (fst (fst ?f)) then (Inr True, (?r, snd ?f)) else (Inl (Database_error SQL_HANDLE_STMT), (?r, snd ?f)))"
    using nf rr(1-3) cs(1) fit'(1)
    by (auto simp: rs_next_def if_ready_def fetch_from_start_def fetch_def before_move_def with_stmt_def need_def prog_simps case_prod_beta Let_def)
  note F = fc [unfolded forward_cursor_def, THEN spec [of _ d], unfolded case_prod_beta]
  show "\<exists>s'. rs_next o' (r, d) = (Inr False, s')" if "rem d = []" using F run that by simp
  show "\<exists>r' d'. rs_next o' (r, d) = (Inr True, (r', d')) \<and> holds h n fit (take n (rem d)) 0 r' \<and> rem d' = drop n (rem d)" if "rem d \<noteq> []"
  proof -
    have c: "sql_success (fst (fst ?f))" "snd (snd (fst ?f)) = take n (rem d)" "fst (snd (fst ?f)) = length (take n (rem d))" "rem (snd ?f) = drop n (rem d)"
      using F that by auto
    have "\<forall>row \<in> set (take n (rem d)). row_fits ?cs row" using fit by (auto simp: clear_indicators_fits cs(3) dest: in_set_takeD)
    note S = store_rows_shows [OF this fit'(2), of 0 "[]"]
    have "holds h n fit (take n (rem d)) 0 ?r"
      unfolding holds_def ready_at_def using S rr cs(3) c by (auto simp: is_ready_to_fetch_def clear_indicators_fits)
    moreover have "rs_next o' (r, d) = (Inr True, (?r, snd ?f))" using run c(1) by auto
    ultimately show ?thesis using c(4) by blast
  qed
qed

lemma next_in_rowset:
  assumes "holds h n fit B p r" "B \<noteq> []" "p + 1 < n"
  shows "rs_next o' (r, d) = (Inr (p + 1 < length B), (r\<lparr>rs_position := int (p + 1)\<rparr>, d))"
proof -
  have "rs_rows r = int (length B)" using assms(1) rows_small [of r] by (auto simp: holds_def ready_at_def)
  then show ?thesis
    using assms by (auto simp: holds_def ready_at_def rs_next_def if_ready_def prog_simps)
qed

section \<open>The loop\<close>

text \<open>\<^verbatim>\<open>while (result.next())\<close>: the states in which its body runs.\<close>

fun scan :: "nat \<Rightarrow> 'd odbc \<Rightarrow> result_set \<times> 'd \<Rightarrow> (result_set list \<times> result_set \<times> 'd) option" where
  "scan 0 o' s = None"
| "scan (Suc fuel) o' s =
     (case rs_next o' s of
        (Inl e, s') \<Rightarrow> None
      | (Inr False, s') \<Rightarrow> Some ([], s')
      | (Inr True, s') \<Rightarrow> map_option (\<lambda>(l, t). (fst s' # l, t)) (scan fuel o' s'))"

lemma holds_current: "holds h n fit B p r \<Longrightarrow> p < length B \<Longrightarrow> current_row r (B ! p)"
  by (auto simp: holds_def ready_at_def current_row_def)

lemma holds_move: "holds h n fit B p r \<Longrightarrow> holds h n fit B q (r\<lparr>rs_position := int q\<rparr>)"
  by (auto simp: holds_def ready_at_def is_ready_to_fetch_def)

lemma first_row:
  assumes "xs \<noteq> []" "0 < n" "current_row r (take n xs ! 0)" "list_all2 current_row l (drop (Suc 0) (take n xs) @ drop n xs)"
  shows "list_all2 current_row (r # l) xs"
proof -
  have "xs = take n xs ! 0 # drop (Suc 0) (take n xs) @ drop n xs" using assms(1,2) by (cases xs; cases n) simp_all
  then show ?thesis using assms(3,4) by (metis list.rel_intros(2))
qed

lemma scan_holds:
  assumes "forward_cursor o' h n rem" "holds h n fit B p r" "p < length B" "length B = n \<or> rem d = []" "\<forall>row \<in> set (rem d). fit row"
    and "length B - p + length (rem d) \<le> fuel"
  shows "\<exists>l s'. scan fuel o' (r, d) = Some (l, s') \<and> list_all2 current_row l (drop (Suc p) B @ rem d)"
  using assms(2-)
proof (induction fuel arbitrary: B p r d)
  case 0
  then show ?case by simp
next
  case (Suc fuel)
  note H = Suc.prems(1)
  have n: "length B \<le> n" "B \<noteq> []" using H Suc.prems(2) by (auto simp: holds_def)
  show ?case
  proof (cases "p + 1 < n")
    case True
    note N = next_in_rowset [OF H n(2) True, of o' d]
    show ?thesis
    proof (cases "p + 1 < length B")
      case True
      let ?r = "r\<lparr>rs_position := int (p + 1)\<rparr>"
      have M: "holds h n fit B (p + 1) ?r" by (rule holds_move [OF H])
      have "length B - (p + 1) + length (rem d) \<le> fuel" using Suc.prems(5) True by simp
      from Suc.IH [OF M True Suc.prems(3,4) this] obtain l s' where
        "scan fuel o' (?r, d) = Some (l, s')" "list_all2 current_row l (drop (Suc (p + 1)) B @ rem d)" by blast
      moreover have "drop (Suc p) B = B ! (p + 1) # drop (Suc (p + 1)) B" using True by (simp add: Cons_nth_drop_Suc)
      ultimately show ?thesis using N True holds_current [OF M True] by auto
    next
      case False
      with Suc.prems(2) have "length B = Suc p" by simp
      moreover have "rem d = []" using Suc.prems(3) \<open>p + 1 < n\<close> calculation by auto
      ultimately show ?thesis using N by auto
    qed
  next
    case False
    with n(1) Suc.prems(2) have B: "length B = Suc p" "n = Suc p" by simp_all
    have p: "rs_rows r = 0 \<or> rs_position r + 1 \<ge> int n" using H False by (auto simp: holds_def)
    have R: "ready_at h n fit r" using H by (simp add: holds_def)
    note N = next_fetches [OF R p assms(1) Suc.prems(4)]
    show ?thesis
    proof (cases "rem d = []")
      case True
      then show ?thesis using N(1) B by auto
    next
      case False
      then obtain r' d' where r': "rs_next o' (r, d) = (Inr True, (r', d'))" "holds h n fit (take n (rem d)) 0 r'" "rem d' = drop n (rem d)"
        using N(2) by blast
      have l: "0 < length (take n (rem d))" using False B by simp
      have "\<exists>l s'. scan fuel o' (r', d') = Some (l, s') \<and> list_all2 current_row l (drop (Suc 0) (take n (rem d)) @ rem d')"
        using Suc.prems(4,5) r'(3) B by (intro Suc.IH [OF r'(2) l]) (auto dest: in_set_dropD)
      then obtain k s' where k: "scan fuel o' (r', d') = Some (k, s')" "list_all2 current_row k (drop (Suc 0) (take n (rem d)) @ drop n (rem d))"
        unfolding r'(3) by blast
      have "list_all2 current_row (r' # k) (rem d)" using first_row [OF False _ holds_current [OF r'(2) l] k(2)] B by simp
      then show ?thesis using r'(1) k(1) B by simp
    qed
  qed
qed

text \<open>
  C14. On a result set whose counters are at zero, the loop over \<^verbatim>\<open>next\<close> ends and its body sees the rows of the driver's
  result set, each exactly once and in their order, whatever the size of the rowset is and whether or not it
  divides the number of rows.
\<close>

theorem next_visits_rows:
  assumes "ready_at h n fit r" "rs_row_count r = 0" "forward_cursor o' h n rem" "\<forall>row \<in> set (rem d). fit row"
  shows "\<exists>l s'. scan (Suc (length (rem d))) o' (r, d) = Some (l, s') \<and> list_all2 current_row l (rem d)"
proof -
  have z: "rs_rows r = 0 \<or> rs_position r + 1 \<ge> int n" using assms(2) by (simp add: rs_rows_def)
  note N = next_fetches [OF assms(1) z assms(3,4)]
  show ?thesis
  proof (cases "rem d = []")
    case True
    then show ?thesis using N(1) by auto
  next
    case False
    have n: "0 < n" using assms(1) by (simp add: ready_at_def)
    obtain r' d' where r': "rs_next o' (r, d) = (Inr True, (r', d'))" "holds h n fit (take n (rem d)) 0 r'" "rem d' = drop n (rem d)"
      using N(2) False by blast
    have l: "0 < length (take n (rem d))" using False n by simp
    have "\<exists>l s'. scan (length (rem d)) o' (r', d') = Some (l, s') \<and> list_all2 current_row l (drop (Suc 0) (take n (rem d)) @ rem d')"
      using assms(4) r'(3) by (intro scan_holds [OF assms(3) r'(2) l]) (auto dest: in_set_dropD)
    then obtain k s' where k: "scan (length (rem d)) o' (r', d') = Some (k, s')" "list_all2 current_row k (drop (Suc 0) (take n (rem d)) @ drop n (rem d))"
      unfolding r'(3) by blast
    have "list_all2 current_row (r' # k) (rem d)" by (rule first_row [OF False n holds_current [OF r'(2) l] k(2)])
    then show ?thesis using r'(1) k(1) by simp
  qed
qed

text \<open>A driver whose state is the list of the remaining rows, for a statement with one integer column, and three rows.\<close>

definition list_driver :: "nat \<Rightarrow> cell list list odbc" where
  "list_driver n = \<lparr>o_alloc = (\<lambda>k p d. ((SQL_SUCCESS, 1), d)), o_call = (\<lambda>c d. (SQL_SUCCESS, d)),
     o_number = (\<lambda>c d. ((SQL_SUCCESS, 1), d)), o_text = (\<lambda>i h d. ((SQL_SUCCESS, []), d)),
     o_describe_param = (\<lambda>h i d. ((SQL_SUCCESS, SQL_INTEGER, 10, 0), d)),
     o_describe_col = (\<lambda>h i d. ((SQL_SUCCESS, [65, 0], SQL_INTEGER, 10, 0), d)),
     o_fetch = (\<lambda>h x i d. if d = [] then ((SQL_NO_DATA, 0, []), d) else ((SQL_SUCCESS, length (take n d), take n d), drop n d)),
     o_get_data = (\<lambda>h i c k d. ((SQL_NO_DATA, 0, []), d))\<rparr>"

definition three_rows :: "cell list list" where
  "three_rows = [[(4, [1, 0, 0, 0])], [(-1, [])], [(4, [3, 0, 0, 0])]]"

definition prepared_two :: "result_set \<times> cell list list" where
  "prepared_two = snd (prepare_fetch (list_driver 2) 1 2 True 0 (mk_result, three_rows))"

lemmas prepare_run = prepare_fetch_def auto_bind_def describe_column_def bind_column_def with_stmt_def with_column_def need_def
  cleanup_bound_columns_def set_column_def bind_type_def mk_bound_column_def prog_simps Let_def

lemma prepared_two_columns:
  "snd prepared_two = three_rows" "rs_row_count (fst prepared_two) = 0"
  "ready_at 1 2 (\<lambda>row. \<exists>x. row = [x] \<and> length (snd x) \<le> 4) (fst prepared_two)"
  by (auto simp: prepared_two_def list_driver_def mk_result_def prepare_run ready_at_def is_ready_to_fetch_def buffers_ok_def row_fits_def cell_fits_def
      list_all2_Cons1 upt_rec)

lemma list_driver_forward: "forward_cursor (list_driver n) h n (\<lambda>d. d)"
  by (simp add: forward_cursor_def list_driver_def)

theorem next_visits_rows_witness:
  "\<exists>l s'. scan 4 (list_driver 2) prepared_two = Some (l, s') \<and> list_all2 current_row l three_rows"
proof -
  have fit: "\<forall>row \<in> set three_rows. \<exists>x. row = [x] \<and> length (snd x) \<le> 4" by (simp add: three_rows_def)
  have n: "Suc (length three_rows) = 4" by (simp add: three_rows_def)
  have "prepared_two = (fst prepared_two, three_rows)" using prepared_two_columns(1) by (metis prod.collapse)
  then show ?thesis
    using next_visits_rows [OF prepared_two_columns(3,2) list_driver_forward, of three_rows, OF fit] unfolding n by metis
qed

section \<open>A result set used again\<close>

text \<open>Preparing a result set leaves its row count and its position as they were.\<close>

definition counters :: "result_set \<Rightarrow> nat \<times> int" where
  "counters r = (rs_row_count r, rs_position r)"

definition keeps :: "(result_set \<times> 'd, 'a) prog \<Rightarrow> bool" where
  "keeps m \<longleftrightarrow> (\<forall>s. counters (fst (snd (m s))) = counters (fst s))"

lemma keeps_intros:
  "keeps (ret a)" "keeps (raise e)" "keeps (obj f)" "keeps (drv g)" "keeps (need k rc)" "keeps (call o' k c)"
  by (simp_all add: keeps_def prog_simps need_def)

lemma keeps_upd: "(\<And>r. counters (f r) = counters r) \<Longrightarrow> keeps (upd f)"
  by (simp add: keeps_def prog_simps)

lemma keeps_bnd: "keeps m \<Longrightarrow> (\<And>a. keeps (f a)) \<Longrightarrow> keeps (bnd m f)"
  by (auto simp: keeps_def bnd_def split: prod.splits sum.splits) (metis fst_conv snd_conv)+

lemma keeps_each: "(\<And>x. keeps (f x)) \<Longrightarrow> keeps (each f xs)"
  by (induction xs) (auto intro: keeps_bnd keeps_intros)

lemma keeps_with_column: "(\<And>c. keeps (f c)) \<Longrightarrow> keeps (with_column i f)"
  unfolding with_column_def by (intro keeps_bnd keeps_intros) (auto intro: keeps_intros split: option.split)

lemma keeps_describe: "keeps (describe_column o' h i)"
  unfolding describe_column_def
  by (intro keeps_bnd keeps_intros) (auto simp: Let_def set_column_def counters_def intro!: keeps_bnd keeps_intros keeps_with_column keeps_upd)

lemma keeps_bind: "keeps (bind_column o' h i)"
  unfolding bind_column_def Let_def
  by (intro keeps_bnd keeps_intros keeps_with_column keeps_upd) (simp add: set_column_def counters_def)

lemma keeps_prepare: "keeps (prepare_fetch o' h n changed ix)"
proof -
  have 1: "keeps (with_stmt f)" if "\<And>h. keeps (f h)" for f :: "handle \<Rightarrow> (result_set \<times> 'a, unit) prog"
    unfolding with_stmt_def by (intro keeps_bnd keeps_intros) (auto intro: keeps_intros that split: option.split)
  have 2: "keeps (auto_bind o')"
    unfolding auto_bind_def
    by (intro keeps_bnd keeps_upd 1 keeps_intros)
      (auto simp: counters_def cleanup_bound_columns_def intro!: keeps_bnd keeps_intros keeps_upd keeps_each keeps_describe keeps_bind)
  show ?thesis
    unfolding prepare_fetch_def by (intro keeps_bnd keeps_upd keeps_intros 2) (simp add: counters_def)
qed

text \<open>
  C39. A result set that is prepared again for another execution keeps its counters. When its last rowset was
  left before its end, the first \<^verbatim>\<open>next\<close> does not ask the driver at all: it reports a row of the old rowset, or the end
  if the old rows were used up - so the rows of the new execution are not seen.
\<close>

theorem next_after_reuse_is_stale:
  assumes "prepare_fetch o' h n changed ix (r, d) = (Inr (), (r', d'))" "is_ready_to_fetch r'" "rs_rowset_size r' = n"
    and "rs_rows r \<noteq> 0" "rs_position r + 1 < n"
  shows "rs_next o' (r', d') = (Inr (rs_position r + 1 < rs_rows r), (r'\<lparr>rs_position := rs_position r + 1\<rparr>, d'))"
proof -
  have "counters r' = counters r" using keeps_prepare [of o' h n changed ix] assms(1) unfolding keeps_def by (metis fst_conv snd_conv)
  then have "rs_rows r' = rs_rows r" "rs_position r' = rs_position r" by (simp_all add: counters_def rs_rows_def)
  then show ?thesis using assms(2-) by (simp add: rs_next_def if_ready_def prog_simps)
qed

text \<open>One row in a rowset of three, read to its end; the statement is executed again and has three rows.\<close>

definition read_out :: result_set where
  "read_out = (fst (snd (prepare_fetch (list_driver 3) 1 3 True 0 (mk_result, []))))\<lparr>rs_row_count := 1, rs_position := 1\<rparr>"

theorem next_after_reuse_is_stale_witness:
  "\<exists>r'. prepare_fetch (list_driver 3) 1 3 False 0 (read_out, three_rows) = (Inr (), (r', three_rows)) \<and>
     rs_next (list_driver 3) (r', three_rows) = (Inr False, (r'\<lparr>rs_position := 2\<rparr>, three_rows))"
proof -
  let ?p = "prepare_fetch (list_driver 3) 1 3 False 0 (read_out, three_rows)"
  have p: "fst ?p = Inr ()" "snd (snd ?p) = three_rows" "is_ready_to_fetch (fst (snd ?p))" "rs_rowset_size (fst (snd ?p)) = 3"
    by (simp_all add: read_out_def list_driver_def mk_result_def prepare_run is_ready_to_fetch_def upt_rec)
  have e: "?p = (Inr (), (fst (snd ?p), three_rows))" using p(1,2) by (metis prod.collapse)
  have "rs_rows read_out = 1" "rs_position read_out = 1" by (simp_all add: read_out_def rs_rows_def)
  then show ?thesis using next_after_reuse_is_stale [OF e p(3,4)] e by auto
qed

end
