(* ===== verification/Dbc_Statement.thy ===== *)
theory Dbc_Statement
  imports Dbc_Connection Dbc_Rows Bits_Packer
begin

text \<open>
  Statements (\<^verbatim>\<open>dbc/statement.cpp\<close>): preparing, executing, binding parameters and stepping through result sets. A
  statement refers to a connection it does not change; operations that look at it take its present state as an
  argument. The memory of bound values is the application's: the driver gets its address.
\<close>

section \<open>State\<close>

(* [src/dbc/statement.cpp:781-796 statement::statement_impl] *)
record stmt =
  st_handle :: handle
  st_open :: bool
  st_has_conn :: bool
  st_results :: "result_set list"
  st_current :: int
  st_query :: wide
  st_query_changed :: bool
  st_batch_count :: int
  st_batch_changed :: bool
  st_binds :: "(int, int list) umap"
  st_prepared :: bool

(* [src/dbc/statement.cpp:21-28 statement_impl::statement_impl] *)
definition mk_stmt :: stmt where
  "mk_stmt = \<lparr>st_handle = 0, st_open = False, st_has_conn = False, st_results = [], st_current = -1, st_query = [],
     st_query_changed = True, st_batch_count = 1, st_batch_changed = True, st_binds = [], st_prepared = False\<rparr>"

definition scall :: "'d odbc \<Rightarrow> (handle \<Rightarrow> odbc_call) \<Rightarrow> (stmt \<times> 'd, unit) prog" where
  "scall o' f = bnd (obj st_handle) (\<lambda>h. call o' SQL_HANDLE_STMT (f h))"

definition scall_ignore :: "'d odbc \<Rightarrow> (handle \<Rightarrow> odbc_call) \<Rightarrow> (stmt \<times> 'd, unit) prog" where
  "scall_ignore o' f = bnd (obj st_handle) (\<lambda>h. call_ignore o' (f h))"

section \<open>Opening and closing\<close>

(* [src/dbc/statement.cpp:93-96 statement_impl::connected] *)
definition st_connected :: "conn \<Rightarrow> stmt \<Rightarrow> bool" where
  "st_connected cn s \<longleftrightarrow> st_has_conn s \<and> conn_connected cn"

(* [src/dbc/statement.cpp:449-455 statement_impl::reset_parameters] *)
definition st_reset_parameters :: "'d odbc \<Rightarrow> (stmt \<times> 'd, unit) prog" where
  "st_reset_parameters o' = scall_ignore o' Free_stmt_reset_params"

(* [src/dbc/statement.cpp:113-145 statement_impl::close] *)
definition st_close :: "'d odbc \<Rightarrow> conn \<Rightarrow> (stmt \<times> 'd, unit) prog" where
  "st_close o' cn =
     bnd (obj id) (\<lambda>s.
     bnd (if st_open s \<and> st_connected cn s then
            bnd (scall o' SQLCancel) (\<lambda>_.
            bnd (st_reset_parameters o') (\<lambda>_.
            scall o' (SQLFreeHandle SQL_HANDLE_STMT)))
          else ret ()) (\<lambda>_.
     upd (\<lambda>s. s\<lparr>st_open := False, st_handle := 0\<rparr>)))"

text \<open>\<open>old\<close> is the connection the statement had, \<open>cn\<close> the one it gets.\<close>

(* [src/dbc/statement.cpp:67-86 statement_impl::open] *)
definition st_open_on :: "'d odbc \<Rightarrow> conn \<Rightarrow> conn \<Rightarrow> (stmt \<times> 'd, unit) prog" where
  "st_open_on o' old cn =
     bnd (st_close o' old) (\<lambda>_.
     bnd (drv (o_alloc o' SQL_HANDLE_STMT (cn_conn cn))) (\<lambda>(rc, h).
     bnd (upd (\<lambda>s. s\<lparr>st_handle := h, st_open := sql_success rc\<rparr>)) (\<lambda>_.
     bnd (need SQL_HANDLE_STMT rc) (\<lambda>_.
     upd (\<lambda>s. s\<lparr>st_has_conn := True\<rparr>)))))"

(* [src/dbc/statement.cpp:30-38 statement_impl::statement_impl] *)
definition st_new :: "'d odbc \<Rightarrow> conn \<Rightarrow> 'd \<Rightarrow> (dbc_error + unit) \<times> stmt \<times> 'd" where
  "st_new o' cn d = st_open_on o' cn cn (mk_stmt, d)"

(* [src/dbc/statement.cpp:50-65 statement_impl::~statement_impl] *)
definition st_destroy :: "'d odbc \<Rightarrow> conn \<Rightarrow> (stmt \<times> 'd, unit) prog" where
  "st_destroy o' cn =
     bnd (obj id) (\<lambda>s.
     bnd (if st_open s \<and> st_connected cn s then
            bnd (scall_ignore o' SQLCancel) (\<lambda>_.
            bnd (st_reset_parameters o') (\<lambda>_.
            scall_ignore o' (SQLFreeHandle SQL_HANDLE_STMT)))
          else ret ()) (\<lambda>_.
     upd (\<lambda>s. s\<lparr>st_results := []\<rparr>)))"

(* [src/dbc/statement.cpp:147-160 statement_impl::cancel] *)
definition st_cancel :: "'d odbc \<Rightarrow> (stmt \<times> 'd, unit) prog" where
  "st_cancel o' = scall o' SQLCancel"

section \<open>Preparing and executing\<close>

text \<open>A driver without timeouts is tolerated when none was asked for.\<close>

(* [src/dbc/statement.cpp:197-215 statement_impl::timeout] *)
definition st_timeout :: "'d odbc \<Rightarrow> int \<Rightarrow> (stmt \<times> 'd, unit) prog" where
  "st_timeout o' timeout =
     (if timeout = 0 then scall_ignore o' (\<lambda>h. Set_query_timeout h timeout) else scall o' (\<lambda>h. Set_query_timeout h timeout))"

(* [src/dbc/statement.cpp:168-195 statement_impl::prepare] *)
definition st_prepare :: "'d odbc \<Rightarrow> wide \<Rightarrow> int \<Rightarrow> (stmt \<times> 'd, unit) prog" where
  "st_prepare o' query timeout =
     bnd (obj st_open) (\<lambda>b.
     if \<not> b then raise (Programming_error ''statement has no associated open connection'')
     else
       bnd (upd (\<lambda>s. s\<lparr>st_query_changed := (query \<noteq> st_query s), st_query := query, st_prepared := True\<rparr>)) (\<lambda>_.
       bnd (scall o' (\<lambda>h. SQLPrepare h query)) (\<lambda>_.
       st_timeout o' timeout)))"

(* [src/dbc/statement.cpp:162-166 statement_impl::prepare] *)
definition st_prepare_on :: "'d odbc \<Rightarrow> conn \<Rightarrow> conn \<Rightarrow> wide \<Rightarrow> int \<Rightarrow> (stmt \<times> 'd, unit) prog" where
  "st_prepare_on o' old cn query timeout = bnd (st_open_on o' old cn) (\<lambda>_. st_prepare o' query timeout)"

(* [src/dbc/statement.cpp:40-48 statement_impl::statement_impl] *)
definition st_new_prepared :: "'d odbc \<Rightarrow> conn \<Rightarrow> wide \<Rightarrow> int \<Rightarrow> 'd \<Rightarrow> (dbc_error + unit) \<times> stmt \<times> 'd" where
  "st_new_prepared o' cn query timeout d = st_prepare_on o' cn cn query timeout (mk_stmt, d)"

(* [src/dbc/statement.cpp:765-774 statement_impl::check_query_and_batch] *)
definition check_query_and_batch :: "wide \<Rightarrow> int \<Rightarrow> stmt \<Rightarrow> stmt" where
  "check_query_and_batch query batch s =
     s\<lparr>st_query_changed := (query \<noteq> st_query s), st_query := query, st_batch_changed := (batch \<noteq> st_batch_count s), st_batch_count := batch\<rparr>"

text \<open>No data is not an error of an execution.\<close>

definition need_or :: "retcode set \<Rightarrow> retcode \<Rightarrow> ('s, unit) prog" where
  "need_or ok rc = (if rc \<in> ok then ret () else need SQL_HANDLE_STMT rc)"

definition scall_or :: "'d odbc \<Rightarrow> retcode set \<Rightarrow> (handle \<Rightarrow> odbc_call) \<Rightarrow> (stmt \<times> 'd, retcode) prog" where
  "scall_or o' ok f = bnd (obj st_handle) (\<lambda>h. bnd (drv (o_call o' (f h))) (\<lambda>rc. bnd (need_or ok rc) (\<lambda>_. ret rc)))"

(* [src/dbc/statement.cpp:233-282 statement_impl::just_execute_direct] *)
definition just_execute_direct :: "'d odbc \<Rightarrow> conn \<Rightarrow> conn \<Rightarrow> wide \<Rightarrow> int \<Rightarrow> int \<Rightarrow> (stmt \<times> 'd, retcode) prog" where
  "just_execute_direct o' old cn query batch timeout =
     bnd (st_open_on o' old cn) (\<lambda>_.
     bnd (upd (\<lambda>s. (check_query_and_batch query batch s)\<lparr>st_current := -1\<rparr>)) (\<lambda>_.
     bnd (scall o' (\<lambda>h. Set_paramset_size h batch)) (\<lambda>_.
     bnd (st_timeout o' timeout) (\<lambda>_.
     scall_or o' {SQL_NO_DATA, SQL_STILL_EXECUTING} (\<lambda>h. SQLExecDirect h query)))))"

(* [src/dbc/statement.cpp:217-231 statement_impl::execute_direct] *)
definition execute_direct :: "'d odbc \<Rightarrow> conn \<Rightarrow> conn \<Rightarrow> wide \<Rightarrow> int \<Rightarrow> int \<Rightarrow> (stmt \<times> 'd, unit) prog" where
  "execute_direct o' old cn query batch timeout = bnd (just_execute_direct o' old cn query batch timeout) (\<lambda>_. ret ())"

(* [src/dbc/statement.cpp:298-365 statement_impl::just_execute] *)
definition just_execute :: "'d odbc \<Rightarrow> int \<Rightarrow> int \<Rightarrow> (stmt \<times> 'd, retcode) prog" where
  "just_execute o' batch timeout =
     bnd (obj st_open) (\<lambda>b.
     bnd (if b then scall o' Free_stmt_close else ret ()) (\<lambda>_.
     bnd (upd (\<lambda>s. s\<lparr>st_query_changed := (st_query_changed s \<and> st_prepared s),
                     st_batch_changed := (batch \<noteq> st_batch_count s), st_batch_count := batch\<rparr>)) (\<lambda>_.
     bnd (scall_or o' {SQL_NO_DATA} (\<lambda>h. Set_paramset_size h batch)) (\<lambda>_.
     bnd (st_timeout o' timeout) (\<lambda>_.
     bnd (scall_or o' {SQL_NO_DATA} SQLExecute) (\<lambda>rc.
     bnd (upd (\<lambda>s. s\<lparr>st_prepared := False\<rparr>)) (\<lambda>_. ret rc)))))))"

(* [src/dbc/statement.cpp:284-296 statement_impl::execute] *)
definition st_execute :: "'d odbc \<Rightarrow> int \<Rightarrow> int \<Rightarrow> (stmt \<times> 'd, unit) prog" where
  "st_execute o' batch timeout =
     bnd (just_execute o' batch timeout) (\<lambda>_. upd (\<lambda>s. s\<lparr>st_current := -1\<rparr>))"

definition snumber :: "'d odbc \<Rightarrow> (handle \<Rightarrow> number_call) \<Rightarrow> (stmt \<times> 'd, int) prog" where
  "snumber o' f =
     bnd (obj st_handle) (\<lambda>h. bnd (drv (o_number o' (f h))) (\<lambda>(rc, n). bnd (need SQL_HANDLE_STMT rc) (\<lambda>_. ret n)))"

(* [src/dbc/statement.cpp:416-429 statement_impl::affected_rows] *)
definition st_affected_rows :: "'d odbc \<Rightarrow> (stmt \<times> 'd, int) prog" where
  "st_affected_rows o' = bnd (snumber o' SQLRowCount) (\<lambda>n. ret (signed_take_bit 31 n))"

(* [src/dbc/statement.cpp:431-447 statement_impl::columns] *)
definition st_columns :: "'d odbc \<Rightarrow> (stmt \<times> 'd, int) prog" where
  "st_columns o' = snumber o' SQLNumResultCols"

section \<open>Result sets\<close>

text \<open>A result set of the statement as the object of a program; \<open>None\<close> stands for \<^verbatim>\<open>empty_result_\<close>.\<close>

definition on_result :: "nat \<Rightarrow> (result_set \<times> 'd, 'a) prog \<Rightarrow> (stmt \<times> 'd, 'a) prog" where
  "on_result i m s =
     (case m (st_results (fst s) ! i, snd s) of (x, (r, d)) \<Rightarrow> (x, ((fst s)\<lparr>st_results := (st_results (fst s))[i := r]\<rparr>, d)))"

(* [src/dbc/statement.cpp:399-414 statement_impl::next_result] *)
definition enter_result :: "'d odbc \<Rightarrow> (stmt \<times> 'd, nat option) prog" where
  "enter_result o' =
     bnd (upd (\<lambda>s. let k = st_current s + 1 in
            s\<lparr>st_current := k, st_results := (if int (length (st_results s)) \<le> k then st_results s @ [mk_result] else st_results s)\<rparr>)) (\<lambda>_.
     bnd (obj id) (\<lambda>s.
     bnd (on_result (nat (st_current s))
            (prepare_fetch o' (st_handle s) (st_batch_count s) (st_batch_changed s \<or> st_query_changed s) (st_current s))) (\<lambda>_.
     ret (Some (nat (st_current s))))))"

(* [src/dbc/statement.cpp:367-397 statement_impl::next_result] *)
definition next_result :: "'d odbc \<Rightarrow> (stmt \<times> 'd, nat option) prog" where
  "next_result o' =
     bnd (obj id) (\<lambda>s.
     if st_current s = -1 then
       bnd (st_columns o') (\<lambda>n. if n < 1 then ret None else enter_result o')
     else
       bnd (drv (o_call o' (SQLMoreResults (st_handle s)))) (\<lambda>rc.
       if rc = SQL_NO_DATA then ret None
       else bnd (need SQL_HANDLE_STMT rc) (\<lambda>_. enter_result o')))"

section \<open>Parameters\<close>

datatype param_direction = PARAM_IN | PARAM_OUT | PARAM_INOUT | PARAM_RETURN

(* [src/dbc/statement.cpp:484-504 statement_impl::param_type_from_direction] *)
fun param_type_from_direction :: "param_direction \<Rightarrow> io_type" where
  "param_type_from_direction PARAM_IN = SQL_PARAM_INPUT"
| "param_type_from_direction PARAM_OUT = SQL_PARAM_OUTPUT"
| "param_type_from_direction PARAM_INOUT = SQL_PARAM_INPUT_OUTPUT"
| "param_type_from_direction PARAM_RETURN = SQL_PARAM_OUTPUT"

definition describe_param :: "'d odbc \<Rightarrow> int \<Rightarrow> (stmt \<times> 'd, sqltype \<times> nat \<times> int) prog" where
  "describe_param o' param =
     bnd (obj st_handle) (\<lambda>h.
     bnd (drv (o_describe_param o' h (param + 1))) (\<lambda>(rc, ty, sz, scale).
     bnd (need SQL_HANDLE_STMT rc) (\<lambda>_. ret (ty, sz, scale))))"

(* [src/dbc/statement.cpp:457-482 statement_impl::parameter_size] *)
definition st_parameter_size :: "'d odbc \<Rightarrow> int \<Rightarrow> (stmt \<times> 'd, u32) prog" where
  "st_parameter_size o' param = bnd (describe_param o' param) (\<lambda>(_, sz, _). ret (word_of_nat sz))"

text \<open>The indicators start as null; there are at least eight of them.\<close>

(* [src/dbc/statement.cpp:506-545 statement_impl::prepare_bind] *)
definition prepare_bind :: "'d odbc \<Rightarrow> int \<Rightarrow> nat \<Rightarrow> param_direction \<Rightarrow> (stmt \<times> 'd, sqltype \<times> io_type \<times> nat \<times> int) prog" where
  "prepare_bind o' param elements direction =
     bnd (describe_param o' param) (\<lambda>(ty, sz, scale).
     bnd (upd (\<lambda>s. s\<lparr>st_binds := um_set param (replicate (max elements 8) (-1)) (st_binds s)\<rparr>)) (\<lambda>_.
     ret (ty, param_type_from_direction direction, sz, scale)))"

definition indicators :: "int \<Rightarrow> stmt \<Rightarrow> int list" where
  "indicators param s = (case um_find param (st_binds s) of None \<Rightarrow> [] | Some l \<Rightarrow> l)"

text \<open>The loops that give elements a length: \<open>len i\<close> is the length of element \<open>i\<close>, \<open>None\<close> where it stays null.\<close>

definition set_lengths :: "int \<Rightarrow> nat \<Rightarrow> (nat \<Rightarrow> int option) \<Rightarrow> (stmt \<times> 'd, unit) prog" where
  "set_lengths param elements len =
     upd (\<lambda>s. s\<lparr>st_binds := um_set param
            (map (\<lambda>i. if i < elements then (case len i of None \<Rightarrow> indicators param s ! i | Some n \<Rightarrow> n) else indicators param s ! i)
                 [0..<length (indicators param s)]) (st_binds s)\<rparr>)"

definition bind_raw :: "'d odbc \<Rightarrow> int \<Rightarrow> io_type \<Rightarrow> ctype \<Rightarrow> sqltype \<Rightarrow> nat \<Rightarrow> int \<Rightarrow> nat \<Rightarrow> nat \<Rightarrow> bool \<Rightarrow> (stmt \<times> 'd, unit) prog" where
  "bind_raw o' param io vt ty sz scale data buflen ind =
     bnd (obj id) (\<lambda>s.
     scall o' (\<lambda>h. SQLBindParameter h \<lparr>ba_number = param + 1, ba_io = io, ba_value_type = vt, ba_data_type = ty, ba_column_size = sz,
       ba_scale = scale, ba_data = data, ba_buffer_length = buflen, ba_indicator = (if ind then Some (indicators param s) else None)\<rparr>))"

text \<open>A single character string and a single timestamp are bound without indicator.\<close>

(* [src/dbc/statement.cpp:547-580 statement_impl::bind_parameter] *)
definition bind_parameter_plain :: "'d odbc \<Rightarrow> cpp_type \<Rightarrow> int \<Rightarrow> nat \<Rightarrow> sqltype \<times> io_type \<times> nat \<times> int \<Rightarrow> (stmt \<times> 'd, unit) prog" where
  "bind_parameter_plain o' t param data x = (case x of (ty, io, sz, scale) \<Rightarrow>
     bind_raw o' param io (sql_ctype t) ty sz scale data sz True)"

(* [src/dbc/statement.cpp:800-856 statement_impl::bind_parameter] *)
definition bind_parameter_chars :: "'d odbc \<Rightarrow> cpp_type \<Rightarrow> int \<Rightarrow> nat \<Rightarrow> nat \<Rightarrow> sqltype \<times> io_type \<times> nat \<times> int \<Rightarrow> (stmt \<times> 'd, unit) prog" where
  "bind_parameter_chars o' t param data elements x = (case x of (ty, io, sz, scale) \<Rightarrow>
     bind_raw o' param io (sql_ctype t) ty sz scale data sz (elements > 1))"

(* [src/dbc/statement.cpp:858-885 statement_impl::bind_parameter] *)
definition bind_parameter_timestamp :: "'d odbc \<Rightarrow> int \<Rightarrow> nat \<Rightarrow> nat \<Rightarrow> sqltype \<times> io_type \<times> nat \<times> int \<Rightarrow> (stmt \<times> 'd, unit) prog" where
  "bind_parameter_timestamp o' param data elements x = (case x of (ty, io, sz, scale) \<Rightarrow>
     bind_raw o' param io SQL_C_TYPE_TIMESTAMP SQL_TYPE_TIMESTAMP sz scale data (19 * elements) (elements > 1))"

definition bind_parameter :: "'d odbc \<Rightarrow> cpp_type \<Rightarrow> int \<Rightarrow> nat \<Rightarrow> nat \<Rightarrow> sqltype \<times> io_type \<times> nat \<times> int \<Rightarrow> (stmt \<times> 'd, unit) prog" where
  "bind_parameter o' t param data elements x =
     (case t of
        Cpp_wchar \<Rightarrow> bind_parameter_chars o' t param data elements x
      | Cpp_char \<Rightarrow> bind_parameter_chars o' t param data elements x
      | Cpp_timestamp \<Rightarrow> bind_parameter_timestamp o' param data elements x
      | _ \<Rightarrow> bind_parameter_plain o' t param data x)"

(* [src/dbc/statement.cpp:887-905 statement_impl::bind] *)
definition st_bind :: "'d odbc \<Rightarrow> cpp_type \<Rightarrow> int \<Rightarrow> nat \<Rightarrow> nat \<Rightarrow> param_direction \<Rightarrow> (stmt \<times> 'd, unit) prog" where
  "st_bind o' t param data elements direction =
     bnd (prepare_bind o' param elements direction) (\<lambda>x.
     bnd (set_lengths param elements (\<lambda>i. Some (int (fst (snd (snd x)))))) (\<lambda>_.
     bind_parameter o' t param data elements x))"

text \<open>With a sentry value or with flags for the null elements; the values are read for the comparison.\<close>

(* [src/dbc/statement.cpp:907-927 statement_impl::bind] *)
definition st_bind_nulls :: "'d odbc \<Rightarrow> cpp_type \<Rightarrow> int \<Rightarrow> nat \<Rightarrow> 'v list \<Rightarrow> nat \<Rightarrow> bool list option \<Rightarrow> 'v option \<Rightarrow> param_direction \<Rightarrow> (stmt \<times> 'd, unit) prog" where
  "st_bind_nulls o' t param data values elements nulls null_sentry direction =
     bnd (prepare_bind o' param elements direction) (\<lambda>x.
     bnd (set_lengths param elements (\<lambda>i.
            if (null_sentry \<noteq> None \<and> values ! i \<noteq> the null_sentry) \<or> (nulls \<noteq> None \<and> \<not> the nulls ! i)
            then Some (int (fst (snd (snd x)))) else None)) (\<lambda>_.
     bind_parameter o' t param data elements x))"

definition bind_byte :: "'d odbc \<Rightarrow> ctype \<Rightarrow> int \<Rightarrow> nat \<Rightarrow> param_direction \<Rightarrow> (stmt \<times> 'd, unit) prog" where
  "bind_byte o' vt param data direction =
     bnd (prepare_bind o' param 1 direction) (\<lambda>(ty, io, sz, scale).
     bnd (set_lengths param 1 (\<lambda>i. Some (int sz))) (\<lambda>_.
     bind_raw o' param io vt ty sz scale data sz False))"

(* [src/dbc/statement.cpp:586-615 statement_impl::bind_uint8] *)
definition bind_uint8 :: "'d odbc \<Rightarrow> int \<Rightarrow> nat \<Rightarrow> param_direction \<Rightarrow> (stmt \<times> 'd, unit) prog" where
  "bind_uint8 o' = bind_byte o' SQL_C_UTINYINT"

(* [src/dbc/statement.cpp:617-646 statement_impl::bind_int8] *)
definition bind_int8 :: "'d odbc \<Rightarrow> int \<Rightarrow> nat \<Rightarrow> param_direction \<Rightarrow> (stmt \<times> 'd, unit) prog" where
  "bind_int8 o' = bind_byte o' SQL_C_TINYINT"

(* [src/dbc/statement.cpp:648-677 statement_impl::bind_bool] *)
definition bind_bool :: "'d odbc \<Rightarrow> int \<Rightarrow> nat \<Rightarrow> param_direction \<Rightarrow> (stmt \<times> 'd, unit) prog" where
  "bind_bool o' = bind_byte o' (sql_ctype Cpp_bool)"

(* [src/dbc/statement.cpp:679-699 statement_impl::bind_strings] *)
definition bind_strings :: "'d odbc \<Rightarrow> cpp_type \<Rightarrow> int \<Rightarrow> nat \<Rightarrow> nat \<Rightarrow> param_direction \<Rightarrow> (stmt \<times> 'd, unit) prog" where
  "bind_strings o' t param data elements direction = st_bind o' t param data elements direction"

(* [src/dbc/statement.cpp:701-726 statement_impl::bind_null] *)
definition bind_null :: "'d odbc \<Rightarrow> int \<Rightarrow> nat \<Rightarrow> (stmt \<times> 'd, unit) prog" where
  "bind_null o' param elements =
     bnd (prepare_bind o' param elements PARAM_IN) (\<lambda>(ty, io, sz, scale).
     bind_raw o' param io SQL_C_CHAR ty sz 0 0 0 True)"

section \<open>Strings with nulls\<close>

definition strncmp_differs :: "string \<Rightarrow> string \<Rightarrow> nat \<Rightarrow> bool" where
  "strncmp_differs a b n \<longleftrightarrow> take n (cstr a) \<noteq> take n (cstr b)"

definition element :: "nat \<Rightarrow> 'c list \<Rightarrow> nat \<Rightarrow> 'c list" where
  "element length' values i = take length' (drop (i * length') values)"

text \<open>
  The wide form converts the element and then the sentry into the same variable, and compares it with a string that
  is still empty.
\<close>

(* [src/dbc/statement.cpp:944-964 statement_impl::bind_strings] *)
definition wide_sentry_differs :: "platform \<Rightarrow> nat \<Rightarrow> wide \<Rightarrow> wide \<Rightarrow> bool" where
  "wide_sentry_differs pf length' s_lhs null_sentry =
     (let narrow_lhs = convert_w2s pf s_lhs;
          narrow_rhs = [];
          narrow_lhs' = convert_w2s pf (wcstr null_sentry)
      in strncmp_differs narrow_lhs' narrow_rhs length')"

(* [src/dbc/statement.cpp:992-1002 statement_impl::bind_strings] *)
definition narrow_sentry_differs :: "nat \<Rightarrow> string \<Rightarrow> string \<Rightarrow> bool" where
  "narrow_sentry_differs length' s_lhs null_sentry = strncmp_differs s_lhs (cstr null_sentry) length'"

definition string_length :: "('c list \<Rightarrow> 'c list \<Rightarrow> bool) \<Rightarrow> nat \<Rightarrow> nat \<Rightarrow> 'c list \<Rightarrow> bool list option \<Rightarrow> 'c list option \<Rightarrow> nat \<Rightarrow> int option" where
  "string_length differs sz length' values nulls null_sentry i =
     (case null_sentry of
        Some z \<Rightarrow> if differs (element length' values i) z then Some (int sz) else None
      | None \<Rightarrow> (case nulls of Some b \<Rightarrow> if \<not> b ! i then Some (-3) else None | None \<Rightarrow> None))"

(* [src/dbc/statement.cpp:929-975 statement_impl::bind_strings] *)
definition bind_wide_strings :: "'d odbc \<Rightarrow> platform \<Rightarrow> int \<Rightarrow> nat \<Rightarrow> wide \<Rightarrow> nat \<Rightarrow> nat \<Rightarrow> bool list option \<Rightarrow> wide option \<Rightarrow> param_direction \<Rightarrow> (stmt \<times> 'd, unit) prog" where
  "bind_wide_strings o' pf param data values length' elements nulls null_sentry direction =
     bnd (prepare_bind o' param elements direction) (\<lambda>x.
     bnd (set_lengths param elements (string_length (wide_sentry_differs pf length') (fst (snd (snd x))) length' values nulls null_sentry)) (\<lambda>_.
     bind_parameter o' Cpp_wchar param data elements x))"

(* [src/dbc/statement.cpp:977-1013 statement_impl::bind_strings] *)
definition bind_narrow_strings :: "'d odbc \<Rightarrow> int \<Rightarrow> nat \<Rightarrow> string \<Rightarrow> nat \<Rightarrow> nat \<Rightarrow> bool list option \<Rightarrow> string option \<Rightarrow> param_direction \<Rightarrow> (stmt \<times> 'd, unit) prog" where
  "bind_narrow_strings o' param data values length' elements nulls null_sentry direction =
     bnd (prepare_bind o' param elements direction) (\<lambda>x.
     bnd (set_lengths param elements (string_length (narrow_sentry_differs length') (fst (snd (snd x))) length' values nulls null_sentry)) (\<lambda>_.
     bind_parameter o' Cpp_char param data elements x))"

(* [src/dbc/statement.cpp:1016-1022 statement_impl::equals] *)
definition equals_date :: "date \<Rightarrow> date \<Rightarrow> bool" where
  "equals_date a b \<longleftrightarrow> d_year a = d_year b \<and> d_month a = d_month b \<and> d_day a = d_day b"

(* [src/dbc/statement.cpp:1024-1034 statement_impl::equals] *)
definition equals_timestamp :: "timestamp \<Rightarrow> timestamp \<Rightarrow> bool" where
  "equals_timestamp a b \<longleftrightarrow> t_year a = t_year b \<and> t_month a = t_month b \<and> t_day a = t_day b \<and> t_hour a = t_hour b \<and>
     t_min a = t_min b \<and> t_sec a = t_sec b \<and> t_fract a = t_fract b"

text \<open>Both comparisons are equality, so \<open>st_bind_nulls\<close> compares all types by equality.\<close>

lemma equals_date_eq: "equals_date a b \<longleftrightarrow> a = b" for a b :: date
  by (cases a; cases b) (auto simp: equals_date_def)

lemma equals_timestamp_eq: "equals_timestamp a b \<longleftrightarrow> a = b" for a b :: timestamp
  by (cases a; cases b) (auto simp: equals_timestamp_def)

end
