(* ===== verification/Dbc_Cells.thy ===== *)
theory Dbc_Cells
  imports Dbc_Result Bits_Packer
begin

text \<open>
  Reading cells of a result set (\<^verbatim>\<open>dbc/result.cpp\<close>): the checks of \<^verbatim>\<open>get_ref\<close> and the conversions of the cell's C type
  to the type asked for. Integer targets are given by their least and greatest value; floating point targets are not
  modelled, floating point cells are, as bit patterns.
\<close>

section \<open>Columns\<close>

definition check_column :: "int \<Rightarrow> (result_set \<times> 'd, unit) prog" where
  "check_column column = bnd (obj rs_size) (\<lambda>n. if column \<ge> n then raise Index_range_error else ret ())"

(* [src/dbc/result.cpp:271-295 result_impl::is_null] *)
definition rs_is_null :: "int \<Rightarrow> (result_set \<times> 'd, bool) prog" where
  "rs_is_null column =
     bnd (check_column column) (\<lambda>_.
     bnd (obj id) (\<lambda>r.
     if rs_position r \<ge> rs_rows r then raise Index_range_error
     else with_column column (\<lambda>c.
            case bc_cbdata c of
              None \<Rightarrow> raise (Undefined ''cbdata_ is null'')
            | Some l \<Rightarrow> if 0 \<le> rs_position r \<and> nat (rs_position r) < length l then ret (l ! nat (rs_position r) = -1)
                        else raise (Undefined ''index outside cbdata_''))))"

(* [src/dbc/result.cpp:336-355 result_impl::column] *)
definition rs_column :: "wide \<Rightarrow> (result_set \<times> 'd, int) prog" where
  "rs_column column_name =
     bnd (obj rs_by_name) (\<lambda>m. case um_find column_name m of
         None \<Rightarrow> raise Index_range_error
       | Some i \<Rightarrow> with_column (int i) (\<lambda>c. ret (bc_column c)))"

(* [src/dbc/result.cpp:297-302 result_impl::is_null] *)
definition rs_is_null_name :: "wide \<Rightarrow> (result_set \<times> 'd, bool) prog" where
  "rs_is_null_name column_name = bnd (rs_column column_name) rs_is_null"

(* [src/dbc/result.cpp:304-316 result_impl::column_name] *)
definition rs_column_name :: "int \<Rightarrow> (result_set \<times> 'd, wide) prog" where
  "rs_column_name column = bnd (check_column column) (\<lambda>_. with_column column (\<lambda>c. ret (bc_name c)))"

(* [src/dbc/result.cpp:318-334 result_impl::column_size] *)
definition rs_column_size :: "int \<Rightarrow> (result_set \<times> 'd, int) prog" where
  "rs_column_size column =
     bnd (check_column column) (\<lambda>_. with_column column (\<lambda>c. ret (signed_take_bit 31 (int (bc_sqlsize c)))))"

(* [src/dbc/result.cpp:357-371 result_impl::column_datatype] *)
definition rs_column_datatype :: "int \<Rightarrow> (result_set \<times> 'd, sqltype) prog" where
  "rs_column_datatype column = bnd (check_column column) (\<lambda>_. with_column column (\<lambda>c. ret (bc_sqltype c)))"

(* [src/dbc/result.cpp:373-380 result_impl::column_datatype] *)
definition rs_column_datatype_name :: "wide \<Rightarrow> (result_set \<times> 'd, sqltype) prog" where
  "rs_column_datatype_name column_name = bnd (rs_column column_name) (\<lambda>i. with_column i (\<lambda>c. ret (bc_sqltype c)))"

(* [src/dbc/result.cpp:382-396 result_impl::column_c_datatype] *)
definition rs_column_c_datatype :: "int \<Rightarrow> (result_set \<times> 'd, ctype) prog" where
  "rs_column_c_datatype column = bnd (check_column column) (\<lambda>_. with_column column (\<lambda>c. ret (bc_ctype c)))"

(* [src/dbc/result.cpp:398-405 result_impl::column_c_datatype] *)
definition rs_column_c_datatype_name :: "wide \<Rightarrow> (result_set \<times> 'd, ctype) prog" where
  "rs_column_c_datatype_name column_name = bnd (rs_column column_name) (\<lambda>i. with_column i (\<lambda>c. ret (bc_ctype c)))"

section \<open>The four forms of get_ref\<close>

text \<open>\<open>impl\<close> is \<^verbatim>\<open>get_ref_impl\<close> for the target type; \<^verbatim>\<open>get\<close> is \<^verbatim>\<open>get_ref\<close> into a fresh object.\<close>

(* [src/dbc/result.cpp:407-429 result_impl::get_ref] *)
definition get_ref :: "(int \<Rightarrow> (result_set \<times> 'd, 'a) prog) \<Rightarrow> int \<Rightarrow> (result_set \<times> 'd, 'a) prog" where
  "get_ref impl column =
     bnd (check_column column) (\<lambda>_.
     bnd (rs_is_null column) (\<lambda>b. if b then raise Null_access_error else impl column))"

(* [src/dbc/result.cpp:431-450 result_impl::get_ref] *)
definition get_ref_or :: "(int \<Rightarrow> (result_set \<times> 'd, 'a) prog) \<Rightarrow> int \<Rightarrow> 'a \<Rightarrow> (result_set \<times> 'd, 'a) prog" where
  "get_ref_or impl column fallback =
     bnd (check_column column) (\<lambda>_.
     bnd (rs_is_null column) (\<lambda>b. if b then ret fallback else impl column))"

(* [src/dbc/result.cpp:452-467 result_impl::get_ref] *)
definition get_ref_name :: "(int \<Rightarrow> (result_set \<times> 'd, 'a) prog) \<Rightarrow> wide \<Rightarrow> (result_set \<times> 'd, 'a) prog" where
  "get_ref_name impl column_name =
     bnd (rs_column column_name) (\<lambda>column.
     bnd (rs_is_null column) (\<lambda>b. if b then raise Null_access_error else impl column))"

(* [src/dbc/result.cpp:469-481 result_impl::get_ref] *)
definition get_ref_name_or :: "(int \<Rightarrow> (result_set \<times> 'd, 'a) prog) \<Rightarrow> wide \<Rightarrow> 'a \<Rightarrow> (result_set \<times> 'd, 'a) prog" where
  "get_ref_name_or impl column_name fallback =
     bnd (rs_column column_name) (\<lambda>column.
     bnd (rs_is_null column) (\<lambda>b. if b then ret fallback else impl column))"

section \<open>Bytes of a cell\<close>

definition cell_at :: "int \<Rightarrow> nat \<Rightarrow> bound_column \<Rightarrow> dbc_error + byte list" where
  "cell_at pos n c =
     (case bc_pdata c of
        None \<Rightarrow> Inl (Undefined ''pdata_ is null'')
      | Some b \<Rightarrow> if 0 \<le> pos \<and> nat pos * bc_clen c + n \<le> length b then Inr (take n (drop (nat pos * bc_clen c) b))
                  else Inl (Undefined ''read outside pdata_''))"

definition lift_res :: "dbc_error + 'a \<Rightarrow> ('s, 'a) prog" where
  "lift_res x = (case x of Inl e \<Rightarrow> raise e | Inr a \<Rightarrow> ret a)"

definition read_cell :: "nat \<Rightarrow> bound_column \<Rightarrow> (result_set \<times> 'd, byte list) prog" where
  "read_cell n c = bnd (obj rs_position) (\<lambda>pos. lift_res (cell_at pos n c))"

definition signed_of :: "nat \<Rightarrow> byte list \<Rightarrow> int" where
  "signed_of n b = signed_take_bit (8 * n - 1) (int (le_nat b))"

section \<open>Numbers\<close>

text \<open>A floating point number as sign, significand and exponent of two; \<open>None\<close> for infinities and NaN.\<close>

type_synonym fp = "bool \<times> nat \<times> int"

definition fp_of :: "nat \<Rightarrow> nat \<Rightarrow> nat \<Rightarrow> fp option" where
  "fp_of ebits fbits b =
     (let s = b div 2 ^ (ebits + fbits) mod 2 = 1;
          e = b div 2 ^ fbits mod 2 ^ ebits;
          f = b mod 2 ^ fbits;
          bias = 2 ^ (ebits - 1) - 1 + int fbits
      in if e = 2 ^ ebits - 1 then None
         else if e = 0 then Some (s, f, 1 - bias)
         else Some (s, f + 2 ^ fbits, int e - bias))"

definition fp_trunc :: "fp \<Rightarrow> int" where
  "fp_trunc x = (case x of (s, m, e) \<Rightarrow>
     let v = (if e \<ge> 0 then int m * 2 ^ nat e else int m div 2 ^ nat (- e)) in if s then - v else v)"

text \<open>Conversion to an integer type: integers wrap around, a floating point value out of range is undefined.\<close>

definition wrap :: "int \<Rightarrow> int \<Rightarrow> int \<Rightarrow> int" where
  "wrap lo hi v = (v - lo) mod (hi - lo + 1) + lo"

definition of_fp :: "int \<Rightarrow> int \<Rightarrow> fp option \<Rightarrow> dbc_error + int" where
  "of_fp lo hi x =
     (case x of
        None \<Rightarrow> Inl (Undefined ''conversion out of range'')
      | Some f \<Rightarrow> if lo \<le> fp_trunc f \<and> fp_trunc f \<le> hi then Inr (fp_trunc f) else Inl (Undefined ''conversion out of range''))"

definition int_cell :: "int \<Rightarrow> int \<Rightarrow> nat \<Rightarrow> (byte list \<Rightarrow> int) \<Rightarrow> bound_column \<Rightarrow> (result_set \<times> 'd, int) prog" where
  "int_cell lo hi n f c = bnd (read_cell n c) (\<lambda>b. ret (wrap lo hi (f b)))"

(* [src/dbc/result.cpp:1473-1496 result_impl::get_ref_impl] *)
definition get_int :: "int \<Rightarrow> int \<Rightarrow> int \<Rightarrow> (result_set \<times> 'd, int) prog" where
  "get_int lo hi column =
     with_column column (\<lambda>c.
       case bc_ctype c of
         SQL_C_CHAR \<Rightarrow> int_cell lo hi 1 (signed_of 1) c
       | SQL_C_SSHORT \<Rightarrow> int_cell lo hi 2 (signed_of 2) c
       | SQL_C_USHORT \<Rightarrow> int_cell lo hi 2 (int \<circ> le_nat) c
       | SQL_C_LONG \<Rightarrow> int_cell lo hi 4 (signed_of 4) c
       | SQL_C_SLONG \<Rightarrow> int_cell lo hi 4 (signed_of 4) c
       | SQL_C_ULONG \<Rightarrow> int_cell lo hi 4 (int \<circ> le_nat) c
       | SQL_C_FLOAT \<Rightarrow> bnd (read_cell 4 c) (\<lambda>b. lift_res (of_fp lo hi (fp_of 8 23 (le_nat b))))
       | SQL_C_DOUBLE \<Rightarrow> bnd (read_cell 8 c) (\<lambda>b. lift_res (of_fp lo hi (fp_of 11 52 (le_nat b))))
       | SQL_C_SBIGINT \<Rightarrow> int_cell lo hi 8 (signed_of 8) c
       | SQL_C_UBIGINT \<Rightarrow> int_cell lo hi 8 (int \<circ> le_nat) c
       | _ \<Rightarrow> raise Type_incompatible_error)"

text \<open>A \<^verbatim>\<open>bool\<close> is read from the first byte of the cell; a byte other than 0 and 1 is no value of the type.\<close>

(* [src/dbc/result.cpp:1120-1138 result_impl::get_ref_impl] *)
definition get_bool :: "int \<Rightarrow> (result_set \<times> 'd, bool) prog" where
  "get_bool column =
     with_column column (\<lambda>c.
       if bc_ctype c = SQL_C_BIT \<or> bc_ctype c = SQL_C_LONG then
         bnd (read_cell 1 c) (\<lambda>b. if le_nat b \<le> 1 then ret (le_nat b = 1) else raise (Undefined ''not a bool''))
       else raise Type_incompatible_error)"

section \<open>Dates\<close>

definition word_at :: "nat \<Rightarrow> byte list \<Rightarrow> u16" where
  "word_at i b = word_of_nat (le_nat (take 2 (drop (2 * i) b)))"

definition date_of :: "byte list \<Rightarrow> date" where
  "date_of b = \<lparr>d_year = word_at 0 b, d_month = word_at 1 b, d_day = word_at 2 b\<rparr>"

definition timestamp_of :: "byte list \<Rightarrow> timestamp" where
  "timestamp_of b = \<lparr>t_year = word_at 0 b, t_month = word_at 1 b, t_day = word_at 2 b, t_hour = word_at 3 b,
     t_min = word_at 4 b, t_sec = word_at 5 b, t_fract = word_of_nat (le_nat (take 4 (drop 12 b)))\<rparr>"

(* [src/dbc/result.cpp:1141-1165 result_impl::get_ref_impl] *)
definition get_date :: "int \<Rightarrow> (result_set \<times> 'd, date) prog" where
  "get_date column =
     with_column column (\<lambda>c.
       case bc_ctype c of
         SQL_C_DATE \<Rightarrow> bnd (read_cell 6 c) (\<lambda>b. ret (date_of b))
       | SQL_C_TIMESTAMP \<Rightarrow> bnd (read_cell 16 c) (\<lambda>b.
           let t = timestamp_of b in ret \<lparr>d_year = t_year t, d_month = t_month t, d_day = t_day t\<rparr>)
       | _ \<Rightarrow> raise Type_incompatible_error)"

(* [src/dbc/result.cpp:1167-1193 result_impl::get_ref_impl] *)
definition get_timestamp :: "int \<Rightarrow> (result_set \<times> 'd, timestamp) prog" where
  "get_timestamp column =
     with_column column (\<lambda>c.
       case bc_ctype c of
         SQL_C_DATE \<Rightarrow> bnd (read_cell 6 c) (\<lambda>b.
           let d = date_of b
           in ret \<lparr>t_year = d_year d, t_month = d_month d, t_day = d_day d, t_hour = 0, t_min = 0, t_sec = 0, t_fract = 0\<rparr>)
       | SQL_C_TIMESTAMP \<Rightarrow> bnd (read_cell 16 c) (\<lambda>b. ret (timestamp_of b))
       | _ \<Rightarrow> raise Type_incompatible_error)"

section \<open>Strings\<close>

text \<open>A string type: assignment of a range of characters, and conversion from either kind of string.\<close>

record 'x string_kind =
  sk_chars :: "string \<Rightarrow> 'x"
  sk_narrow :: "string \<Rightarrow> 'x"
  sk_wide :: "wide \<Rightarrow> 'x"

(* [include/wise.kernel/dbc/error.hpp:114-127 convert] *)
definition narrow_kind :: "platform \<Rightarrow> string string_kind" where
  "narrow_kind pf = \<lparr>sk_chars = id, sk_narrow = id, sk_wide = convert_w2s pf\<rparr>"

(* [include/wise.kernel/dbc/error.hpp:129-152 convert] *)
definition wide_kind :: "platform \<Rightarrow> wide string_kind" where
  "wide_kind pf = \<lparr>sk_chars = map (\<lambda>c. word_of_int (signed_take_bit 7 (of_char c))), sk_narrow = convert_s2w pf, sk_wide = id\<rparr>"

definition chars_of :: "byte list \<Rightarrow> string" where
  "chars_of b = map (char_of \<circ> unat) b"

fun wide_of :: "byte list \<Rightarrow> wide" where
  "wide_of (a # b # bs) = word_of_nat (unat a + 256 * unat b) # wide_of bs"
| "wide_of [a] = [word_of_nat (unat a)]"
| "wide_of [] = []"

text \<open>
  A blob comes in pieces of at most 1023 bytes; a piece is appended up to its first NUL, and not at all when the
  driver does not know the remaining length. A null indicator is stored for the first row of the rowset.
\<close>

definition put_null :: "int \<Rightarrow> result_set \<Rightarrow> result_set" where
  "put_null column r =
     r\<lparr>rs_columns := map_option (\<lambda>l. l[nat column := (l ! nat column)\<lparr>bc_cbdata := map_option (\<lambda>x. x[0 := -1]) (bc_cbdata (l ! nat column))\<rparr>]) (rs_columns r)\<rparr>"

(* [src/dbc/result.cpp:1221-1251 result_impl::get_ref_impl_string] *)
fun get_pieces :: "nat \<Rightarrow> 'd odbc \<Rightarrow> handle \<Rightarrow> int \<Rightarrow> ctype \<Rightarrow> (byte list \<Rightarrow> 'c list) \<Rightarrow> 'c list \<Rightarrow> (result_set \<times> 'd, retcode \<times> 'c list) prog" where
  "get_pieces 0 o' h column ct text out = raise Out_of_fuel"
| "get_pieces (Suc fuel) o' h column ct text out =
     bnd (drv (o_get_data o' h (column + 1) ct 1023)) (\<lambda>(rc, len, b).
     bnd (if len = -1 then upd (put_null column) else ret ()) (\<lambda>_.
     let out' = (if len > 0 then out @ text (take 1023 b) else out)
     in if rc = SQL_SUCCESS_WITH_INFO then get_pieces fuel o' h column ct text out' else ret (rc, out')))"

definition narrow_piece :: "byte list \<Rightarrow> string" where
  "narrow_piece b = cstr (chars_of b)"

definition wide_piece :: "byte list \<Rightarrow> wide" where
  "wide_piece b = wcstr (wide_of b)"

text \<open>Numbers as \<^verbatim>\<open>snprintf\<close> prints them into a buffer of the given size, and dates as \<^verbatim>\<open>strftime\<close> does.\<close>

definition snprintf_text :: "nat \<Rightarrow> string \<Rightarrow> string" where
  "snprintf_text n t = take (n - 1) t"

definition decimal :: "int \<Rightarrow> string" where
  "decimal v = (if v < 0 then CHR ''-'' # digits (nat (- v)) else digits (nat v))"

definition padded :: "nat \<Rightarrow> nat \<Rightarrow> string" where
  "padded w n = replicate (w - length (digits n)) CHR ''0'' @ digits n"

definition fixed_text :: "nat \<Rightarrow> fp \<Rightarrow> string" where
  "fixed_text prec x = (case x of (s, m, e) \<Rightarrow>
     let v = m * 10 ^ prec;
         k = nat (- e);
         q = v div 2 ^ k;
         r = v mod 2 ^ k;
         n = (if e \<ge> 0 then v * 2 ^ nat e else if 2 * r > 2 ^ k \<or> (2 * r = 2 ^ k \<and> odd q) then q + 1 else q)
     in (if s then ''-'' else []) @ digits (n div 10 ^ prec) @ (if prec = 0 then [] else CHR ''.'' # padded prec (n mod 10 ^ prec)))"

definition fp_text :: "nat \<Rightarrow> nat \<Rightarrow> nat \<Rightarrow> nat \<Rightarrow> string" where
  "fp_text ebits fbits prec b =
     (case fp_of ebits fbits b of
        Some x \<Rightarrow> fixed_text prec x
      | None \<Rightarrow> (if b div 2 ^ (ebits + fbits) mod 2 = 1 then ''-'' else []) @ (if b mod 2 ^ fbits = 0 then ''inf'' else ''nan''))"

definition valid_date :: "int \<Rightarrow> int \<Rightarrow> int \<Rightarrow> bool" where
  "valid_date y m d \<longleftrightarrow> 0 \<le> y \<and> 1 \<le> m \<and> m \<le> 12 \<and> 1 \<le> d \<and> d \<le> 31"

definition date_text :: "date \<Rightarrow> dbc_error + string" where
  "date_text d =
     (let y = sint (d_year d); m = sint (d_month d); k = sint (d_day d)
      in if valid_date y m k then Inr (padded 4 (nat y) @ ''-'' @ padded 2 (nat m) @ ''-'' @ padded 2 (nat k))
         else Inl (Undefined ''invalid parameter of strftime''))"

definition timestamp_text :: "string \<Rightarrow> timestamp \<Rightarrow> dbc_error + string" where
  "timestamp_text zone t =
     (let y = sint (t_year t); m = sint (t_month t); k = sint (t_day t);
          h = sint (t_hour t); n = sint (t_min t); s = sint (t_sec t)
      in if valid_date y m k \<and> 0 \<le> h \<and> h \<le> 23 \<and> 0 \<le> n \<and> n \<le> 59 \<and> 0 \<le> s \<and> s \<le> 60 then
           Inr (padded 4 (nat y) @ ''-'' @ padded 2 (nat m) @ ''-'' @ padded 2 (nat k) @ '' '' @
                padded 2 (nat h) @ '':'' @ padded 2 (nat n) @ '':'' @ padded 2 (nat s) @ '' '' @ zone)
         else Inl (Undefined ''invalid parameter of strftime''))"

text \<open>The length of a wide string is the one of row 0, whatever row is read, and converted to an unsigned number.\<close>

definition wide_length :: "bound_column \<Rightarrow> dbc_error + nat" where
  "wide_length c =
     (case bc_cbdata c of
        Some (x # _) \<Rightarrow> Inr (nat (x mod 2 ^ 64) div 2)
      | _ \<Rightarrow> Inl (Undefined ''cbdata_ is null''))"

definition blob_result :: "('c list \<Rightarrow> 'x) \<Rightarrow> 'x \<Rightarrow> retcode \<times> 'c list \<Rightarrow> (result_set \<times> 'd, 'x) prog" where
  "blob_result conv old p = ret (if fst p = SQL_SUCCESS \<or> fst p = SQL_NO_DATA then conv (snd p) else old)"

(* [src/dbc/result.cpp:1207-1309 result_impl::get_ref_impl_string] *)
definition get_text :: "nat \<Rightarrow> 'd odbc \<Rightarrow> 'x string_kind \<Rightarrow> 'x \<Rightarrow> int \<Rightarrow> bound_column \<Rightarrow> (result_set \<times> 'd, 'x) prog" where
  "get_text fuel o' sk old column c =
     (if bc_ctype c = SQL_C_WCHAR then
        if bc_blob c then
          with_stmt (\<lambda>h. bnd (get_pieces fuel o' h column (bc_ctype c) wide_piece []) (blob_result (sk_wide sk) old))
        else bnd (lift_res (wide_length c)) (\<lambda>n. bnd (read_cell (2 * n) c) (\<lambda>b. ret (sk_wide sk (wide_of b))))
      else
        if bc_blob c then
          with_stmt (\<lambda>h. bnd (get_pieces fuel o' h column (bc_ctype c) narrow_piece []) (blob_result (sk_narrow sk) old))
        else
          bnd (obj rs_position) (\<lambda>pos.
          bnd (lift_res (cell_at pos 0 c)) (\<lambda>_.
          let rest = drop (nat pos * bc_clen c) (the (bc_pdata c))
          in if 0 \<in> set rest then ret (sk_chars sk (cstr (chars_of rest))) else raise (Undefined ''read outside pdata_''))))"

(* [src/dbc/result.cpp:1311-1471 result_impl::get_ref_impl_string] *)
definition get_string :: "nat \<Rightarrow> 'd odbc \<Rightarrow> string \<Rightarrow> 'x string_kind \<Rightarrow> 'x \<Rightarrow> int \<Rightarrow> (result_set \<times> 'd, 'x) prog" where
  "get_string fuel o' zone sk old column =
     with_column column (\<lambda>c. let n = bc_sqlsize c in
       case bc_ctype c of
         SQL_C_CHAR \<Rightarrow> get_text fuel o' sk old column c
       | SQL_C_BINARY \<Rightarrow> get_text fuel o' sk old column c
       | SQL_C_WCHAR \<Rightarrow> get_text fuel o' sk old column c
       | SQL_C_GUID \<Rightarrow> bnd (read_cell n c) (\<lambda>b. ret (sk_chars sk (chars_of b)))
       | SQL_C_LONG \<Rightarrow> bnd (read_cell 2 c) (\<lambda>b. ret (sk_narrow sk (snprintf_text n (decimal (int (le_nat b))))))
       | SQL_C_SBIGINT \<Rightarrow> bnd (read_cell 8 c) (\<lambda>b. ret (sk_narrow sk (snprintf_text n (decimal (signed_of 8 b)))))
       | SQL_C_FLOAT \<Rightarrow> bnd (read_cell 4 c) (\<lambda>b. ret (sk_narrow sk (snprintf_text n (fp_text 8 23 6 (le_nat b)))))
       | SQL_C_DOUBLE \<Rightarrow> bnd (read_cell 8 c) (\<lambda>b. ret (sk_narrow sk (snprintf_text (n + 2) (fp_text 11 52 (if bc_scale c < 0 then 6 else nat (bc_scale c)) (le_nat b)))))
       | SQL_C_DATE \<Rightarrow> bnd (read_cell 6 c) (\<lambda>b. bnd (lift_res (date_text (date_of b))) (\<lambda>t. ret (sk_narrow sk t)))
       | SQL_C_TIMESTAMP \<Rightarrow> bnd (read_cell 16 c) (\<lambda>b. bnd (lift_res (timestamp_text zone (timestamp_of b))) (\<lambda>t. ret (sk_narrow sk t)))
       | _ \<Rightarrow> raise Type_incompatible_error)"

end
