(* ===== verification/Dbc_Handles.thy ===== *)
theory Dbc_Handles
  imports Dbc_Connection
begin

text \<open>
  What becomes of the handles a connection takes, and why no transaction can be begun. A driver is described by the
  handles it has given out, each with its kind and parent, and by the connection handles that are online.
\<close>

section \<open>What ODBC documents\<close>

type_synonym handle_set = "(hkind \<times> handle \<times> handle) set"

definition alloc_ok :: "'d odbc \<Rightarrow> ('d \<Rightarrow> handle_set) \<Rightarrow> ('d \<Rightarrow> handle set) \<Rightarrow> bool" where
  "alloc_ok o' held online \<longleftrightarrow>
     (\<forall>k p d. case o_alloc o' k p d of ((rc, h), d') \<Rightarrow> online d' = online d \<and>
        (if sql_success rc then h \<noteq> 0 \<and> h \<notin> online d \<and> (\<forall>k' x. (k', h, x) \<notin> held d \<and> (k', x, h) \<notin> held d) \<and> held d' = insert (k, h, p) (held d)
         else h = 0 \<and> held d' = held d))"

definition freeable :: "('d \<Rightarrow> handle_set) \<Rightarrow> ('d \<Rightarrow> handle set) \<Rightarrow> hkind \<Rightarrow> handle \<Rightarrow> 'd \<Rightarrow> bool" where
  "freeable held online k h d \<longleftrightarrow> (\<exists>p. (k, h, p) \<in> held d) \<and> h \<notin> online d \<and> (\<forall>k' h'. (k', h', h) \<notin> held d)"

definition free_ok :: "'d odbc \<Rightarrow> ('d \<Rightarrow> handle_set) \<Rightarrow> ('d \<Rightarrow> handle set) \<Rightarrow> bool" where
  "free_ok o' held online \<longleftrightarrow>
     (\<forall>k h d. case o_call o' (SQLFreeHandle k h) d of (rc, d') \<Rightarrow> online d' = online d \<and>
        (if freeable held online k h d then sql_success rc \<and> held d' = {(k', h', p). (k', h', p) \<in> held d \<and> (k', h') \<noteq> (k, h)}
         else held d' = held d \<and> \<not> sql_success rc))"

text \<open>The other calls leave the handles alone; connecting and disconnecting change what is online.\<close>

fun online_after :: "odbc_call \<Rightarrow> bool \<Rightarrow> handle set \<Rightarrow> handle set" where
  "online_after (SQLConnect h _ _ _) ok hs = (if ok then insert h hs else hs)"
| "online_after (SQLDriverConnect h _) ok hs = (if ok then insert h hs else hs)"
| "online_after (SQLDisconnect h) ok hs = (if ok then hs - {h} else hs)"
| "online_after _ ok hs = hs"

definition driver_handles :: "'d odbc \<Rightarrow> ('d \<Rightarrow> handle_set) \<Rightarrow> ('d \<Rightarrow> handle set) \<Rightarrow> bool" where
  "driver_handles o' held online \<longleftrightarrow> alloc_ok o' held online \<and> free_ok o' held online \<and> (\<forall>k p d. (k, 0, p) \<notin> held d) \<and>
     (\<forall>c d. (\<forall>k h. c \<noteq> SQLFreeHandle k h) \<longrightarrow> held (snd (o_call o' c d)) = held d \<and>
        online (snd (o_call o' c d)) = online_after c (sql_success (fst (o_call o' c d))) (online d))"

lemma driver_handlesD:
  assumes "driver_handles o' held online"
  shows "(k, 0, p) \<notin> held d"
    and "(\<And>k h. c \<noteq> SQLFreeHandle k h) \<Longrightarrow> held (snd (o_call o' c d)) = held d"
    and "(\<And>k h. c \<noteq> SQLFreeHandle k h) \<Longrightarrow> online (snd (o_call o' c d)) = online_after c (sql_success (fst (o_call o' c d))) (online d)"
  using assms by (auto simp: driver_handles_def)

lemma driver_alloc:
  assumes "driver_handles o' held online"
  shows "online (snd (o_alloc o' k p d)) = online d" (is "online (snd ?a) = _")
    and "sql_success (fst (fst (o_alloc o' k p d))) \<Longrightarrow> snd (fst (o_alloc o' k p d)) \<noteq> 0 \<and> snd (fst (o_alloc o' k p d)) \<notin> online d \<and>
       (\<forall>k' x. (k', snd (fst (o_alloc o' k p d)), x) \<notin> held d \<and> (k', x, snd (fst (o_alloc o' k p d))) \<notin> held d) \<and>
       held (snd (o_alloc o' k p d)) = insert (k, snd (fst (o_alloc o' k p d)), p) (held d)"
    and "\<not> sql_success (fst (fst (o_alloc o' k p d))) \<Longrightarrow> snd (fst (o_alloc o' k p d)) = 0 \<and> held (snd (o_alloc o' k p d)) = held d"
proof -
  have "alloc_ok o' held online" using assms by (simp add: driver_handles_def)
  note A = this [unfolded alloc_ok_def, THEN spec [of _ k], THEN spec [of _ p], THEN spec [of _ d], unfolded case_prod_beta]
  show "online (snd ?a) = online d" using A by simp
  show "snd (fst ?a) \<noteq> 0 \<and> snd (fst ?a) \<notin> online d \<and> (\<forall>k' x. (k', snd (fst ?a), x) \<notin> held d \<and> (k', x, snd (fst ?a)) \<notin> held d) \<and>
      held (snd ?a) = insert (k, snd (fst ?a), p) (held d)" if "sql_success (fst (fst ?a))"
    using A that by (simp only: if_P) blast
  show "snd (fst ?a) = 0 \<and> held (snd ?a) = held d" if "\<not> sql_success (fst (fst ?a))" using A that by simp
qed

lemma driver_free:
  assumes "driver_handles o' held online"
  shows "online (snd (o_call o' (SQLFreeHandle k h) d)) = online d" (is "online (snd ?f) = _")
    and "freeable held online k h d \<Longrightarrow> sql_success (fst (o_call o' (SQLFreeHandle k h) d)) \<and>
       held (snd (o_call o' (SQLFreeHandle k h) d)) = {(k', h', p). (k', h', p) \<in> held d \<and> (k', h') \<noteq> (k, h)}"
    and "\<not> freeable held online k h d \<Longrightarrow> held (snd (o_call o' (SQLFreeHandle k h) d)) = held d"
proof -
  have "free_ok o' held online" using assms by (simp add: driver_handles_def)
  note F = this [unfolded free_ok_def, THEN spec [of _ k], THEN spec [of _ h], THEN spec [of _ d], unfolded case_prod_beta]
  show "online (snd ?f) = online d" using F by simp
  show "sql_success (fst ?f) \<and> held (snd ?f) = {(k', h', p). (k', h', p) \<in> held d \<and> (k', h') \<noteq> (k, h)}"
    if "freeable held online k h d" using F that by (auto simp: case_prod_beta)
  show "held (snd ?f) = held d" if "\<not> freeable held online k h d" using F that by simp
qed

section \<open>A connection gives its handles back\<close>

text \<open>The handles a connection object has beyond those of \<open>H\<close>: its environment, and its connection handle unless that is null.\<close>

definition owns :: "('d \<Rightarrow> handle_set) \<Rightarrow> ('d \<Rightarrow> handle set) \<Rightarrow> handle_set \<Rightarrow> conn \<times> 'd \<Rightarrow> bool" where
  "owns held online H s \<longleftrightarrow> (case s of (c, d) \<Rightarrow>
     cn_env c \<noteq> 0 \<and> cn_env c \<notin> online d \<and> cn_conn c \<noteq> cn_env c \<and> (\<forall>k x. (k, cn_env c, x) \<notin> H \<and> (k, x, cn_env c) \<notin> H) \<and>
     (\<forall>k x. (k, cn_conn c, x) \<notin> H \<and> (cn_conn c \<noteq> 0 \<longrightarrow> (k, x, cn_conn c) \<notin> H)) \<and>
     held d = insert (SQL_HANDLE_ENV, cn_env c, 0) (if cn_conn c = 0 then H else insert (SQL_HANDLE_DBC, cn_conn c, cn_env c) H))"

definition offline :: "('d \<Rightarrow> handle set) \<Rightarrow> conn \<times> 'd \<Rightarrow> bool" where
  "offline online s \<longleftrightarrow> cn_conn (fst s) = 0 \<or> cn_conn (fst s) \<notin> online (snd s)"

lemma free_handles_owned:
  assumes "driver_handles o' held online" "owns held online H s" "offline online s"
  shows "held (snd (snd (free_handles o' s))) = H"
proof -
  obtain c d where s: "s = (c, d)" by (cases s)
  let ?d1 = "snd (o_call o' (SQLFreeHandle SQL_HANDLE_DBC (cn_conn c)) d)"
  note D = assms(1) and O = assms(2) [unfolded owns_def s split_conv]
  have h1: "held ?d1 = insert (SQL_HANDLE_ENV, cn_env c, 0) H"
  proof (cases "cn_conn c = 0")
    case True
    then have "\<not> freeable held online SQL_HANDLE_DBC (cn_conn c) d"
      using driver_handlesD(1) [OF D] by (auto simp: freeable_def)
    from driver_free(3) [OF D this] show ?thesis using O True by simp
  next
    case False
    then have "freeable held online SQL_HANDLE_DBC (cn_conn c) d"
      using O assms(3) by (auto simp: freeable_def offline_def s)
    from driver_free(2) [OF D this] show ?thesis using O False by auto
  qed
  have "freeable held online SQL_HANDLE_ENV (cn_env c) ?d1"
    using O h1 driver_free(1) [OF D] by (auto simp: freeable_def)
  from driver_free(2) [OF D this] show ?thesis
    using O h1 by (auto simp: s free_handles_def prog_simps)
qed

lemma allocate_handle_owns:
  assumes D: "driver_handles o' held online"
  shows "allocate_handle o' (c0, d0) = (Inr u, s) \<Longrightarrow>
      owns held online (held d0) s \<and> offline online s \<and> cn_connected (fst s) = cn_connected c0 \<and> cn_conn (fst s) \<noteq> 0"
    and "allocate_handle o' (c0, d0) = (Inl e, s) \<Longrightarrow> held (snd s) = held d0"
proof -
  let ?a = "o_alloc o' SQL_HANDLE_ENV 0 d0" let ?env = "snd (fst ?a)"
  let ?v = "o_call o' (Set_odbc_version ?env) (snd ?a)"
  let ?b = "o_alloc o' SQL_HANDLE_DBC ?env (snd ?v)"
  have v: "held (snd ?v) = held (snd ?a)" "online (snd ?v) = online (snd ?a)"
    using driver_handlesD(2,3) [OF D, of "Set_odbc_version ?env"] by simp_all
  have f: "held (snd (o_call o' (SQLFreeHandle SQL_HANDLE_ENV ?env) d)) = held d0"
    if "sql_success (fst (fst ?a))" "held d = held (snd ?a)" "online d = online d0" for d
  proof -
    have "freeable held online SQL_HANDLE_ENV ?env d" using driver_alloc(2) [OF D that(1)] that by (auto simp: freeable_def)
    from driver_free(2) [OF D this] show ?thesis using driver_alloc(2) [OF D that(1)] that(2) by auto
  qed
  note a = driver_alloc [OF D, of SQL_HANDLE_ENV 0 d0] and b = driver_alloc [OF D, of SQL_HANDLE_DBC ?env "snd ?v"]
  note run = allocate_handle_def need_def on_throw_def prog_simps case_prod_beta
  { assume "allocate_handle o' (c0, d0) = (Inr u, s)"
    then have "sql_success (fst (fst ?a))" "sql_success (fst (fst ?b))" "s = (c0\<lparr>cn_env := ?env, cn_conn := snd (fst ?b)\<rparr>, snd ?b)"
      by (auto simp: run split: if_splits)
    then show "owns held online (held d0) s \<and> offline online s \<and> cn_connected (fst s) = cn_connected c0 \<and> cn_conn (fst s) \<noteq> 0"
      using a b v by (auto simp: owns_def offline_def) }
  { assume "allocate_handle o' (c0, d0) = (Inl e, s)"
    then consider "\<not> sql_success (fst (fst ?a))" "snd s = snd ?a"
      | "sql_success (fst (fst ?a))" "snd s = snd (o_call o' (SQLFreeHandle SQL_HANDLE_ENV ?env) (snd ?v))"
      | "sql_success (fst (fst ?a))" "\<not> sql_success (fst (fst ?b))" "snd s = snd (o_call o' (SQLFreeHandle SQL_HANDLE_ENV ?env) (snd ?b))"
      by (auto simp: run split: if_splits)
    then show "held (snd s) = held d0"
    proof cases
      case 1 then show ?thesis using a(3) by simp
    next
      case 2 then show ?thesis using f v a(1) by simp
    next
      case 3 then show ?thesis using f v a(1) b(1,3) by simp
    qed }
qed

lemma renew_handle_owns:
  assumes D: "driver_handles o' held online" and "owns held online H s" "offline online s" "\<not> cn_connected (fst s)" "cn_conn (fst s) \<noteq> 0"
    and r: "renew_handle o' timeout s = (r, s')"
  shows "owns held online H s' \<and> offline online s' \<and> \<not> cn_connected (fst s') \<and> r \<in> {Inr (), Inl (Database_error SQL_HANDLE_ENV), Inl (Database_error SQL_HANDLE_DBC)} \<and>
    (r = Inr () \<longrightarrow> cn_conn (fst s') \<noteq> 0)"
proof -
  obtain c d where s: "s = (c, d)" by (cases s)
  note O = assms(2) [unfolded owns_def s split_conv]
  have c: "c\<lparr>cn_connected := False\<rparr> = c" using assms(4) by (simp add: s)
  let ?f = "o_call o' (SQLFreeHandle SQL_HANDLE_DBC (cn_conn c)) d"
  let ?b = "o_alloc o' SQL_HANDLE_DBC (cn_env c) (snd ?f)"
  have "freeable held online SQL_HANDLE_DBC (cn_conn c) d"
    using O assms(3,5) by (auto simp: freeable_def offline_def s)
  then have ok: "sql_success (fst ?f)" and "held (snd ?f) = {(k', h', p). (k', h', p) \<in> held d \<and> (k', h') \<noteq> (SQL_HANDLE_DBC, cn_conn c)}"
    using driver_free(2) [OF D] by auto
  then have hf: "held (snd ?f) = insert (SQL_HANDLE_ENV, cn_env c, 0) H" using O assms(5) by (auto simp: s)
  have of: "online (snd ?f) = online d" by (rule driver_free(1) [OF D])
  note b = driver_alloc [OF D, of SQL_HANDLE_DBC "cn_env c" "snd ?f"]
  have t: "held (snd (o_call o' (Set_login_timeout h timeout) x)) = held x" "online (snd (o_call o' (Set_login_timeout h timeout) x)) = online x" for h x
    using driver_handlesD(2,3) [OF D, of "Set_login_timeout h timeout"] by simp_all
  have run: "renew_handle o' timeout (c, d) =
      (if sql_success (fst (fst ?b)) then call o' SQL_HANDLE_DBC (Set_login_timeout (snd (fst ?b)) timeout) (c\<lparr>cn_conn := snd (fst ?b)\<rparr>, snd ?b)
       else (Inl (Database_error SQL_HANDLE_ENV), (c\<lparr>cn_conn := snd (fst ?b)\<rparr>, snd ?b)))"
    using assms(4) ok by (simp add: s renew_handle_def conn_disconnect_def need_def prog_simps case_prod_beta c)
  have z: "\<forall>k x. (k, 0, x) \<notin> H" using O driver_handlesD(1) [OF D, of _ _ d] by (auto split: if_splits)
  show ?thesis
  proof (cases "sql_success (fst (fst ?b))")
    case True
    have "owns held online H (c\<lparr>cn_conn := snd (fst ?b)\<rparr>, snd (o_call o' (Set_login_timeout (snd (fst ?b)) timeout) (snd ?b)))"
      using O b(1) b(2) [OF True] t hf of by (auto simp: owns_def)
    then show ?thesis
      using r run True assms(4) b(1) b(2) [OF True] t of by (auto simp: s prog_simps offline_def split: if_splits)
  next
    case False
    then show ?thesis
      using r run O b(1,3) hf of z assms(4) by (auto simp: s owns_def offline_def)
  qed
qed

definition connects :: "(handle \<Rightarrow> odbc_call) \<Rightarrow> bool" where
  "connects f \<longleftrightarrow> (\<forall>h ok hs. online_after (f h) ok hs = (if ok then insert h hs else hs)) \<and> (\<forall>h k h'. f h \<noteq> SQLFreeHandle k h')"

lemma new_connection_handles:
  assumes D: "driver_handles o' held online" and f: "connects f"
    and n: "bnd (allocate_handle o') (\<lambda>_. on_throw
       (bnd (renew_handle o' timeout) (\<lambda>_. bnd (obj cn_conn) (\<lambda>h. finish_connect o' (f h)))) (free_handles o')) (mk_conn, d) = (r, s)"
  shows "case r of Inl e \<Rightarrow> held (snd s) = held d | Inr _ \<Rightarrow> owns held online (held d) s \<and> cn_connected (fst s) \<and> cn_conn (fst s) \<noteq> 0"
proof -
  obtain ra sa where a: "allocate_handle o' (mk_conn, d) = (ra, sa)" by (meson surj_pair)
  show ?thesis
  proof (cases ra)
    case (Inl e)
    then show ?thesis using allocate_handle_owns(2) [OF D a [unfolded Inl]] a n by (auto simp: bnd_def)
  next
    case (Inr u)
    note A = allocate_handle_owns(1) [OF D a [unfolded Inr]]
    obtain rb sb where b: "renew_handle o' timeout sa = (rb, sb)" by (meson surj_pair)
    have B: "owns held online (held d) sb" "offline online sb" "\<not> cn_connected (fst sb)"
        "rb \<in> {Inr (), Inl (Database_error SQL_HANDLE_ENV), Inl (Database_error SQL_HANDLE_DBC)}" "rb = Inr () \<longrightarrow> cn_conn (fst sb) \<noteq> 0"
      using renew_handle_owns [OF D _ _ _ _ b] A by (auto simp: mk_conn_def)
    let ?c = "o_call o' (f (cn_conn (fst sb))) (snd sb)"
    have c: "held (snd ?c) = held (snd sb)" "online (snd ?c) = (if sql_success (fst ?c) then insert (cn_conn (fst sb)) (online (snd sb)) else online (snd sb))"
      using driver_handlesD(2,3) [OF D, of "f (cn_conn (fst sb))"] f by (auto simp: connects_def)
    have F: "free_handles o' t = (Inr (), snd (free_handles o' t))" for t by (simp add: free_handles_def prog_simps)
    have run: "(r, s) = on_throw (bnd (renew_handle o' timeout) (\<lambda>_. bnd (obj cn_conn) (\<lambda>h. finish_connect o' (f h)))) (free_handles o') sa"
      using n a Inr by (simp add: bnd_def)
    show ?thesis
    proof (cases "rb = Inr () \<and> sql_success (fst ?c)")
      case True
      then have "r = Inr ()" "s = ((fst sb)\<lparr>cn_connected := True\<rparr>, snd ?c)"
        using run b by (auto simp: on_throw_def bnd_def finish_connect_def prog_simps)
      then show ?thesis using B True c by (cases sb) (auto simp: owns_def)
    next
      case False
      obtain t where t: "s = snd (free_handles o' t)" "owns held online (held d) t" "offline online t" "\<exists>e. r = Inl e"
      proof (cases "rb = Inr ()")
        case True
        with False have x: "\<not> sql_success (fst ?c)" by simp
        have "owns held online (held d) (fst sb, snd ?c)" "offline online (fst sb, snd ?c)"
          using B(1,2) x c by (cases sb, auto simp: owns_def offline_def)+
        moreover have "s = snd (free_handles o' (fst sb, snd ?c))" "\<exists>e. r = Inl e"
          using run b True x F [of "(fst sb, snd ?c)"] by (auto simp: on_throw_def bnd_def finish_connect_def prog_simps split: prod.splits sum.splits)
        ultimately show ?thesis using that by blast
      next
        case False
        then have "s = snd (free_handles o' sb)" "\<exists>e. r = Inl e"
          using run b B(4) F [of sb] by (auto simp: on_throw_def bnd_def split: prod.splits sum.splits)
        then show ?thesis using that B(1,2) by blast
      qed
      then show ?thesis using free_handles_owned [OF D t(2,3)] by auto
    qed
  qed
qed

lemma destroy_handles:
  assumes D: "driver_handles o' held online" and "owns held online H s" "cn_connected (fst s)"
    and ok: "sql_success (fst (o_call o' (SQLDisconnect (cn_conn (fst s))) (snd s)))"
  shows "held (snd (snd (conn_destroy o' s))) = H"
proof -
  obtain c d where s: "s = (c, d)" by (cases s)
  let ?d = "snd (o_call o' (SQLDisconnect (cn_conn c)) d)"
  have d: "held ?d = held d" "online ?d = online d - {cn_conn c}"
    using driver_handlesD(2,3) [OF D, of "SQLDisconnect (cn_conn c)"] ok by (simp_all add: s)
  have o: "owns held online H (c\<lparr>cn_connected := False\<rparr>, ?d)" "offline online (c\<lparr>cn_connected := False\<rparr>, ?d)"
    using assms(2) d by (auto simp: s owns_def offline_def)
  have "conn_destroy o' s = free_handles o' (c\<lparr>cn_connected := False\<rparr>, ?d)"
    using assms(3) ok by (simp add: s conn_destroy_def conn_disconnect_def bnd_def ignore_throw_def prog_simps)
  then show ?thesis using free_handles_owned [OF D o] by simp
qed


text \<open>A driver that hands out numbers: its state is the next number, the handles given out and those online.\<close>

type_synonym number_state = "nat \<times> handle_set \<times> handle set"

definition number_held :: "number_state \<Rightarrow> handle_set" where
  "number_held d = {x \<in> fst (snd d). fst (snd x) \<noteq> 0}"

definition number_online :: "number_state \<Rightarrow> handle set" where
  "number_online d = snd (snd d)"

definition number_alloc :: "hkind \<Rightarrow> handle \<Rightarrow> number_state \<Rightarrow> (retcode \<times> handle) \<times> number_state" where
  "number_alloc k p d = (let n = fst d in
     if n \<noteq> 0 \<and> n \<notin> number_online d \<and> (\<forall>(k', h, q) \<in> number_held d. h \<noteq> n \<and> q \<noteq> n)
     then ((SQL_SUCCESS, n), (n + 1, insert (k, n, p) (number_held d), number_online d))
     else ((SQL_ERROR, 0), d))"

fun number_call :: "odbc_call \<Rightarrow> number_state \<Rightarrow> retcode \<times> number_state" where
  "number_call (SQLFreeHandle k h) d =
     (if freeable number_held number_online k h d
      then (SQL_SUCCESS, (fst d, {(k', h', p). (k', h', p) \<in> number_held d \<and> (k', h') \<noteq> (k, h)}, number_online d))
      else (SQL_INVALID_HANDLE, d))"
| "number_call c d = (SQL_SUCCESS, (fst d, number_held d, online_after c True (number_online d)))"

definition number_driver :: "number_state odbc" where
  "number_driver = \<lparr>o_alloc = number_alloc, o_call = number_call, o_number = (\<lambda>c d. ((SQL_SUCCESS, 0), d)),
     o_text = (\<lambda>i h d. ((SQL_SUCCESS, []), d)), o_describe_param = (\<lambda>h i d. ((SQL_SUCCESS, SQL_BIT, 0, 0), d)),
     o_describe_col = (\<lambda>h i d. ((SQL_SUCCESS, [], SQL_BIT, 0, 0), d)), o_fetch = (\<lambda>h x i d. ((SQL_NO_DATA, 0, []), d)),
     o_get_data = (\<lambda>h i c n d. ((SQL_NO_DATA, 0, []), d))\<rparr>"

lemma number_call_plain:
  assumes "\<And>k h. c \<noteq> SQLFreeHandle k h"
  shows "number_call c d = (SQL_SUCCESS, (fst d, number_held d, online_after c True (number_online d)))"
  using assms by (cases c) auto

lemma number_driver_handles: "driver_handles number_driver number_held number_online"
proof -
  have "alloc_ok number_driver number_held number_online"
    by (auto simp: alloc_ok_def number_driver_def number_alloc_def Let_def number_held_def number_online_def) (metis gr0I)
  moreover have "free_ok number_driver number_held number_online"
    by (auto simp: free_ok_def number_driver_def number_held_def number_online_def)
  moreover have "(k, 0, p) \<notin> number_held d" for k p d by (simp add: number_held_def)
  moreover have "number_held (snd (number_call c d)) = number_held d \<and>
      number_online (snd (number_call c d)) = online_after c (sql_success (fst (number_call c d))) (number_online d)"
    if "\<And>k h. c \<noteq> SQLFreeHandle k h" for c d
    unfolding number_call_plain [OF that] by (auto simp: number_held_def number_online_def)
  ultimately show ?thesis by (auto simp: driver_handles_def number_driver_def)
qed


section \<open>Transactions\<close>

text \<open>
  No transaction can be begun: unless switching off autocommit fails, the constructor uses \<^verbatim>\<open>impl_\<close>, which it is
  about to set, and the behaviour is undefined - whatever the driver and the connection.
\<close>

theorem transaction_begin_undefined:
  "fst (tran_new o' c d) =
     Inl (if cn_connected c \<and> cn_transactions c = 0 \<and> \<not> sql_success (fst (o_call o' (Set_autocommit (cn_conn c) False) d))
          then Database_error SQL_HANDLE_DBC else Undefined ''impl_ is used before it is set'')"
  by (simp add: tran_new_def tran_begin_def tran_ref_def tran_connection_def prog_simps bnd_def)

end
