(* ===== verification/Dbc_Laws.thy ===== *)
theory Dbc_Laws
  imports Dbc_Statement Dbc_Cells Dbc_Handles
begin

text \<open>
  What the database wrapper promises of parameters, result sets and cells - and where it does not keep it: null
  sentries of wide strings, a first result without columns, result sets met for the first time in a repeated
  execution, integers read as text.
\<close>

section \<open>Parameters\<close>

lemma bind_raw_object [simp]: "fst (snd (bind_raw o' param io vt ty sz scale data n ind s)) = fst s"
  by (simp add: bind_raw_def scall_def prog_simps)

lemma bind_parameter_object [simp]: "fst (snd (bind_parameter o' t param data elements x s)) = fst s"
  by (cases t; cases x) (simp_all add: bind_parameter_def bind_parameter_plain_def bind_parameter_chars_def bind_parameter_timestamp_def)

text \<open>All forms of binding prepare the indicators, give lengths to elements and call the driver.\<close>

lemma bind_indicators:
  assumes "o_describe_param o' (st_handle s) (param + 1) d = ((rc, ty, sz, scale), d')" "sql_success rc" "i < elements"
    and "b = bnd (prepare_bind o' param elements direction) (\<lambda>x. bnd (set_lengths param elements (len (fst (snd (snd x))))) (\<lambda>_. bind_parameter o' t param data elements x))"
  shows "indicators param (fst (snd (b (s, d)))) ! i = (case len sz i of None \<Rightarrow> -1 | Some n \<Rightarrow> n)"
  using assms(1-3) unfolding assms(4)
  by (simp add: prepare_bind_def describe_param_def set_lengths_def need_def prog_simps case_prod_beta indicators_def split: option.split)

lemma cstr_cstr [simp]: "cstr (cstr s) = cstr s"
  by (simp add: cstr_def takeWhile_idem)

lemma cstr_Nil [simp]: "cstr [] = []"
  by (simp add: cstr_def)

lemma convert_w2s_cstr [simp]: "cstr (convert_w2s pf w) = convert_w2s pf w"
  by (simp add: convert_w2s_def Let_def)


text \<open>
  Binding values with flags for null marks exactly the flagged elements as null and gives every other element the
  size the driver described.
\<close>

theorem null_flags_bound:
  assumes "o_describe_param o' (st_handle s) (param + 1) d = ((rc, ty, sz, scale), d')" "sql_success rc" "i < elements"
  shows "indicators param (fst (snd (st_bind_nulls o' t param data vals elements (Some nulls) None direction (s, d)))) ! i =
    (if nulls ! i then -1 else int sz)"
  using bind_indicators [OF assms st_bind_nulls_def, of t data vals "Some nulls" None direction] by simp

text \<open>Two elements of two characters, the second equal to the sentry.\<close>

definition ascii :: platform where
  "ascii = \<lparr>pf_mb2wc = map (\<lambda>c. word_of_nat (of_char c)), pf_wc2mb = map (\<lambda>w. char_of (unat w))\<rparr>"

definition bound_narrow :: "int list" where
  "bound_narrow = indicators 0 (fst (snd (bind_narrow_strings (list_driver 1) 0 1 ''abno'' 2 2 None (Some ''no'') PARAM_IN (mk_stmt, []))))"

definition bound_wide :: "int list" where
  "bound_wide = indicators 0 (fst (snd (bind_wide_strings (list_driver 1) ascii 0 1 [97, 98, 110, 111] 2 2 None (Some [110, 111]) PARAM_IN (mk_stmt, []))))"

lemma describe_one: "o_describe_param (list_driver 1) (st_handle mk_stmt) (0 + 1) [] = ((SQL_SUCCESS, SQL_INTEGER, 10, 0), [])"
  by (simp add: list_driver_def)


theorem null_flags_bound_witness:
  "indicators 0 (fst (snd (st_bind_nulls (list_driver 1) Cpp_int32 0 1 [1 :: int, 2] 2 (Some [False, True]) None PARAM_IN (mk_stmt, [])))) ! 1 = -1"
  using null_flags_bound [OF describe_one sql_success_simps(1), where i = 1 and elements = 2 and nulls = "[False, True]" and t = Cpp_int32
      and data = 1 and vals = "[1 :: int, 2]" and direction = PARAM_IN]
  by simp

section \<open>Stepping through result sets\<close>

fun next_results :: "nat \<Rightarrow> 'd odbc \<Rightarrow> (stmt \<times> 'd, nat option list) prog" where
  "next_results 0 o' = ret []"
| "next_results (Suc k) o' = bnd (next_result o') (\<lambda>x. bnd (next_results k o') (\<lambda>xs. ret (x # xs)))"

text \<open>
  When the first result of an execution has no columns - an update, or a procedure that counts rows - \<^verbatim>\<open>next_result\<close>
  gives the empty result for ever: it never asks the driver for more results, so the result sets behind the first
  one cannot be reached.
\<close>

theorem no_columns_no_results:
  assumes "st_current s = -1" "o_number o' (SQLNumResultCols (st_handle s)) d = ((SQL_SUCCESS, n), d)" "n < 1"
  shows "next_results k o' (s, d) = (Inr (replicate k None), (s, d))"
proof -
  have "next_result o' (s, d) = (Inr None, (s, d))"
    using assms by (simp add: next_result_def st_columns_def snumber_def need_def prog_simps)
  then show ?thesis by (induction k) (simp_all add: bnd_Inr prog_simps)
qed

definition silent_driver :: "cell list list odbc" where
  "silent_driver = (list_driver 1)\<lparr>o_number := (\<lambda>c d. ((SQL_SUCCESS, 0), d))\<rparr>"

theorem no_columns_no_results_witness:
  "next_results 2 silent_driver (mk_stmt, three_rows) = (Inr [None, None], (mk_stmt, three_rows))"
  using no_columns_no_results [of mk_stmt silent_driver three_rows 0 2] by (simp add: mk_stmt_def silent_driver_def numeral_2_eq_2)

text \<open>Executing again with the same batch size and without preparing: the result sets are taken for unchanged.\<close>

lemma bnd_Inr_iff: "bnd m f s = (Inr b, s') \<longleftrightarrow> (\<exists>a t. m s = (Inr a, t) \<and> f a t = (Inr b, s'))"
  by (auto simp: bnd_def split: prod.splits sum.splits)

lemma scalls_object:
  "scall o' f s = (Inr u, s') \<Longrightarrow> fst s' = fst s" "scall_or o' ok f s = (Inr rc, s') \<Longrightarrow> fst s' = fst s"
  "st_timeout o' t s = (Inr u, s') \<Longrightarrow> fst s' = fst s"
  by (auto simp: scall_def scall_or_def st_timeout_def scall_ignore_def need_or_def need_def prog_simps split: if_splits)

lemma execute_flags:
  assumes "st_execute o' b t (s, d) = (Inr (), (s1, d1))"
  shows "s1 = s\<lparr>st_query_changed := st_query_changed s \<and> st_prepared s, st_batch_changed := b \<noteq> st_batch_count s, st_batch_count := b,
    st_prepared := False, st_current := -1\<rparr>"
  using assms unfolding st_execute_def just_execute_def bnd_Inr_iff
  by (auto simp: prog_simps dest!: scalls_object split: if_splits)

lemma execute_again_unchanged:
  assumes "st_execute o' b t (s, d) = (Inr (), (s1, d1))" "st_execute o' b t (s1, d1) = (Inr (), (s2, d2))"
  shows "\<not> st_batch_changed s2 \<and> \<not> st_query_changed s2 \<and> st_current s2 = -1 \<and> st_results s2 = st_results s"
  using execute_flags [OF assms(1)] execute_flags [OF assms(2)] by simp

text \<open>
  In such a repeated execution a result set that was not visited before is met with its columns not made: the
  statement adds a new result object, takes its columns for bound, and goes through a null pointer.
\<close>

theorem new_result_in_repetition_undefined:
  assumes "\<not> st_batch_changed s" "\<not> st_query_changed s" "0 < length (st_results s)" "st_current s = int (length (st_results s)) - 1"
    and "\<And>c d. sql_success (fst (o_call o' c d))" "\<And>h d. case o_number o' (SQLNumResultCols h) d of ((rc, n), _) \<Rightarrow> sql_success rc \<and> 1 \<le> n"
    and "\<And>h i d. sql_success (fst (fst (o_describe_col o' h i d)))"
  shows "fst (next_result o' (s, d)) = Inl (Undefined ''bound_columns_ is null'')"
proof -
  have n: "sql_success (fst (fst (o_number o' (SQLNumResultCols h) d)))" "1 \<le> snd (fst (o_number o' (SQLNumResultCols h) d))" for h d
    using assms(6) [of h d] by (auto simp: case_prod_beta)
  have 1: "fst (o_call o' c d) \<noteq> SQL_NO_DATA" for c d using assms(5) [of c d] by auto
  have u: "[0..<nat (snd (fst (o_number o' (SQLNumResultCols h) d)))] = 0 # [1..<nat (snd (fst (o_number o' (SQLNumResultCols h) d)))]" for h d
    using n(2) [of h d] by (simp add: upt_rec)
  have p: "fst (prepare_fetch o' h b False ix (mk_result, d)) = Inl (Undefined ''bound_columns_ is null'')" for h b ix d
    using n(1) assms(5,7) n(2) [THEN leD]
    by (simp add: prepare_fetch_def auto_bind_def with_stmt_def need_def prog_simps case_prod_beta mk_result_def u describe_column_def with_column_def)
  then show ?thesis
    using assms(1-5) 1
    by (auto simp: next_result_def enter_result_def on_result_def need_def prog_simps bnd_def case_prod_beta split: sum.splits prod.splits)
qed

theorem new_result_in_repetition_undefined_witness:
  "fst (next_result (list_driver 1) (mk_stmt\<lparr>st_batch_changed := False, st_query_changed := False, st_results := [mk_result], st_current := 0\<rparr>, three_rows)) =
     Inl (Undefined ''bound_columns_ is null'')"
  by (rule new_result_in_repetition_undefined) (simp_all add: list_driver_def)

section \<open>Integers read as numbers and as text\<close>

lemma signed_of_le_bytes:
  assumes "- (2 ^ 31) \<le> v" "v < 2 ^ 31"
  shows "signed_of 4 (le_bytes 4 (nat (v mod 2 ^ 32))) = v"
proof -
  have "nat (v mod 2 ^ 32) < 256 ^ 4" by (simp add: nat_less_iff)
  then have "int (le_nat (le_bytes 4 (nat (v mod 2 ^ 32)))) = take_bit 32 v"
    by (simp only: le_nat_le_bytes mod_less take_bit_eq_mod) simp
  moreover have "signed_take_bit 31 (take_bit 32 v) = signed_take_bit 31 v" by (simp add: signed_take_bit_take_bit)
  moreover have "signed_take_bit 31 v = v" by (rule signed_take_bit_int_eq_self) (use assms in simp_all)
  moreover have "8 * 4 - 1 = (31 :: nat)" by simp
  ultimately show ?thesis by (simp only: signed_of_def)
qed

lemma take_le_bytes: "m \<le> n \<Longrightarrow> take m (le_bytes n x) = le_bytes m x"
proof (induction m arbitrary: n x)
  case (Suc m)
  then show ?case by (cases n) simp_all
qed simp

lemma le_nat_two: "le_nat (take 2 (le_bytes 4 x)) = x mod 65536"
  by (simp add: take_le_bytes le_nat_le_bytes)

lemma cell_at_prefix:
  assumes "cell_at pos 4 c = Inr b"
  shows "cell_at pos 2 c = Inr (take 2 b)"
  using assms by (auto simp: cell_at_def min_absorb1 split: option.splits if_splits)

text \<open>
  C37. A cell of an integer column that is not null: read as a 32-bit integer it is the value the driver stored; read as a
  string it is the decimal number of the value's low 16 bits, cut to one character less than the column's size -
  so negative values, values from 65536 on and values that fill the column come out wrong.
\<close>

theorem integer_cell_read:
  fixes d :: 'd and o' :: "'d odbc"
  assumes "rs_columns r = Some cs" "i < length cs" "bc_ctype (cs ! i) = SQL_C_LONG" "bc_cbdata (cs ! i) = Some l" "p < length l" "l ! p \<noteq> -1"
    and "rs_position r = int p" "int p < rs_rows r" "cell_at (int p) 4 (cs ! i) = Inr (le_bytes 4 (nat (v mod 2 ^ 32)))" "- (2 ^ 31) \<le> v" "v < 2 ^ 31"
  shows "get_ref (get_int (- (2 ^ 31)) (2 ^ 31 - 1)) (int i) (r, d) = (Inr v, (r, d)) \<and>
    get_ref (get_string fuel o' zone sk old) (int i) (r, d) =
      (Inr (sk_narrow sk (take (bc_sqlsize (cs ! i) - 1) (digits (nat (v mod 65536))))), (r, d))"
proof -
  have k: "get_ref f (int i) (r, d) = f (int i) (r, d)" for f :: "int \<Rightarrow> (result_set \<times> 'd, 'y) prog"
    using assms(1-8) by (simp add: get_ref_def check_column_def rs_is_null_def with_column_def rs_size_def prog_simps)
  have n: "nat (v mod 2 ^ 32) mod 65536 = nat (v mod 65536)"
  proof -
    have "int (nat (v mod 2 ^ 32) mod 65536) = v mod 2 ^ 32 mod 65536" by (simp add: zmod_int)
    also have "\<dots> = v mod 65536" by (rule mod_mod_cancel) simp
    finally show ?thesis by simp
  qed
  have w: "wrap (- (2 ^ 31)) (2 ^ 31 - 1) v = v" using assms(10,11) by (simp add: wrap_def)
  show ?thesis
    using assms(1-3,7) w n cell_at_prefix [OF assms(9)] assms(9) signed_of_le_bytes [OF assms(10,11)]
    by (simp add: k get_int_def get_string_def with_column_def int_cell_def read_cell_def lift_res_def prog_simps snprintf_text_def decimal_def le_nat_two)
qed

text \<open>A rowset of one row with 70000 in it.\<close>

definition one_integer :: result_set where
  "one_integer = mk_result\<lparr>rs_columns := Some [mk_bound_column\<lparr>bc_ctype := SQL_C_LONG, bc_sqlsize := 10, bc_clen := 4,
     bc_cbdata := Some [4], bc_pdata := Some (le_bytes 4 70000)\<rparr>], rs_rowset_size := 1, rs_row_count := 1\<rparr>"

theorem integer_cell_read_witness:
  "get_ref (get_int (- (2 ^ 31)) (2 ^ 31 - 1)) 0 (one_integer, three_rows) = (Inr 70000, (one_integer, three_rows)) \<and>
   get_ref (get_string 0 (list_driver 1) [] (narrow_kind ascii) []) 0 (one_integer, three_rows) = (Inr ''4464'', (one_integer, three_rows))"
proof -
  let ?c = "mk_bound_column\<lparr>bc_ctype := SQL_C_LONG, bc_sqlsize := 10, bc_clen := 4, bc_cbdata := Some [4], bc_pdata := Some (le_bytes 4 70000)\<rparr>"
  have c: "cell_at (int 0) 4 ([?c] ! 0) = Inr (le_bytes 4 (nat (70000 mod 2 ^ 32)))" by (simp add: cell_at_def)
  have "digits 4464 = ''4464''" by code_simp
  then show ?thesis
    using integer_cell_read [of one_integer "[?c]" 0 "[4]" 0 70000 three_rows 0 "list_driver 1" "[]" "narrow_kind ascii" "[]", OF _ _ _ _ _ _ _ _ c]
    by (simp add: one_integer_def mk_result_def rs_rows_def narrow_kind_def)
qed

end
