(* ===== verification/Spec2Isabelle.thy ===== *)
theory Spec2Isabelle
  imports Object_Pool Server_Packets Channel Channel_Map Task_Runners Timer_Laws Crc32 Tcp_Streams Tcp_Node Actor_Ids Server
    Db_Service Bot_Service Mem_Tracker Idl_Tx_Laws Dbc_Laws
begin

text \<open>
  A verification development for wise.kernel, a C++ library for game servers (\<^verbatim>\<open>src/src\<close> and
  \<^verbatim>\<open>src/include/wise.kernel\<close>) and its interface compiler (\<^verbatim>\<open>src/tool/bits\<close>). Paths below are
  relative to these directories.

  \<^bold>\<open>The program.\<close> A server is a set of tasks run by a few threads, a network node that turns TCP
  streams into packets, and channels over which packets, timers and services reach the objects that subscribed to
  them. Bytes come from a \<^verbatim>\<open>tcp_session\<close>, the \<^verbatim>\<open>bits_protocol\<close> above it cuts them into messages, undoes the
  cipher, the checksum and the sequence number, and unpacks the payload with a \<^verbatim>\<open>bits_packer\<close> into a packet that is
  published on a channel. On the way back the packet is packed, modified and appended to the session's segment
  buffer. On top stand the actor cluster (servers that find each other and announce their actors), the database
  service (transactions executed by runner threads) and the bot service (scripted clients for load tests). The
  packets themselves are generated: the compiler reads interface files and writes C++, C# and SQL.

  \<^bold>\<open>Conventions.\<close> The model follows the release build: the assertion macros log and go on. A thrown exception and
  undefined behaviour are values (\<open>Throw\<close>, \<open>Undef\<close> of \<open>Prelude\<close>; \<open>Failed\<close>, \<open>Crash\<close> in the compiler). Integers are
  words where their width matters; a \<^verbatim>\<open>size_t\<close> that only counts memory is a natural number with the wrap-around of
  its subtraction written out (\<open>usub\<close>). A critical section is one step; threads are interleavings of such steps,
  given as inductive relations. Code outside the repository is an argument: Botan's cipher, boost::asio's completion
  of operations, the clocks, the callbacks of the application, the database driver, the parser tables. What the proofs
  need of them is stated as a hypothesis of the theorem.

  \<^bold>\<open>Theories of the base.\<close>
  \<^item> \<open>Prelude\<close>: types, faults, byte order, list lemmas. \<open>Hash_Map\<close>: \<^verbatim>\<open>unordered_map\<close> and \<^verbatim>\<open>map\<close> as association
    lists behind the interface \<open>lookup_table\<close>. \<open>Concurrent_Queue\<close> (\<^verbatim>\<open>core/concurrent_queue.inl\<close>, interface \<open>fifo\<close>),
    \<open>Object_Pool\<close> (\<^verbatim>\<open>core/object_pool.hpp\<close>: an object is with one holder at a time), \<open>Sequence\<close>
    (\<^verbatim>\<open>core/sequence.hpp\<close>: free and used ids partition the range, interface \<open>id_source\<close>), \<open>Tick\<close>, \<open>Crc32\<close> (the table
    driven checksum equals the bitwise one), \<open>Util_Split\<close> (\<^verbatim>\<open>util/util.cpp\<close>), \<open>Utf8\<close> (\<^verbatim>\<open>util/utf8\<close>: round trip of the
    checked transcoders), \<open>Mem_Tracker\<close> (\<^verbatim>\<open>core/mem_tracker.cpp\<close>: the tables agree under every interleaving).
  \<^item> Buffers: \<open>Buffer_Pool\<close> (block pools, interface \<open>block_source\<close>), \<open>Resize_Buffer\<close> (refines a byte stream, interface
    \<open>byte_buffer\<close>), \<open>Segment_Buffer\<close> and \<open>Segment_Laws\<close> (segments as addresses into a store, interface \<open>send_queue\<close>),
    \<open>Slot_Vector\<close> (interface \<open>handle_table\<close>).

  \<^bold>\<open>Messages.\<close> \<open>Bits_Packer\<close> has every overload of \<^verbatim>\<open>bits_packer\<close>; \<open>Bits_Codec\<close> states the contract \<open>codec\<close>
  (what is packed is unpacked, on either byte order) and interprets it for each type, with \<open>map_codec\<close> for
  dictionaries, and shows that hostile input ends in a refusal. \<open>Modifier\<close> holds sequencer, checksum and cipher, \<open>Bits_Protocol\<close>
  the protocol (\<^verbatim>\<open>net/protocol.cpp\<close>, \<^verbatim>\<open>net/protocol/bits\<close>), \<open>Bits_Framing\<close> the receive loop: under the contract
  \<open>packet_class\<close> a stream of packets cut anywhere is delivered whole and in order. \<open>Server_Packets\<close> interprets it
  on the packets of the cluster.

  \<^bold>\<open>Sessions and nodes.\<close> \<open>Tcp_Session\<close> has the critical sections of \<^verbatim>\<open>net/tcp/tcp_session.cpp\<close>, \<open>Tcp_Streams\<close> any
  number of sessions and threads over the one segment pool: no byte is lost, moved or doubled, an idle session has
  nothing left to send, an error is reported once. \<open>Tcp_Node\<close> has the tables of a node, listening, connecting and
  shutting down, and the parsing of addresses.

  \<^bold>\<open>Channels, tasks, timers.\<close> \<open>Topic\<close>, \<open>Sub_Map\<close>, \<open>Subscriptions\<close> (interface \<open>registry\<close>: a post reaches each live
  subscription once), \<open>Channel\<close>, \<open>Channel_Map\<close>; \<open>Task\<close> and \<open>Task_Runners\<close> (a task is in one queue or with one runner; the
  runner's loop returns), \<open>Timer\<close> and \<open>Timer_Laws\<close> (interface \<open>min_queue\<close>:
  due requests run, in their time, cancelled ones never).

  \<^bold>\<open>Server.\<close> \<open>Actor_Ids\<close> (ids are unique), \<open>Actor_Directory\<close>, \<open>Actor_Cluster\<close> (one connection attempt for each remote), \<open>Server\<close>
  (\<^verbatim>\<open>start\<close> succeeds in all its parts or undoes them; a second \<^verbatim>\<open>finish\<close> throws), \<open>Db_Service\<close> (transactions with one key run in
  order), \<open>Bot_Flow\<close> and \<open>Bot_Service\<close> (executing an act returns).

  \<^bold>\<open>The database wrapper.\<close> \<open>Dbc_Odbc\<close> has what \<^verbatim>\<open>dbc\<close> uses of ODBC - the driver is a record of functions on a state of any type,
  and programs keep what they did before an exception -, the text of errors and the conversion of strings; \<open>Dbc_Connection\<close>
  connections and transactions, \<open>Dbc_Result\<close> and \<open>Dbc_Cells\<close> result sets, \<open>Dbc_Statement\<close> statements. \<open>Dbc_Handles\<close> shows that a
  connection gives back its handles on every path and that no transaction can be begun, \<open>Dbc_Rows\<close> that a loop over
  \<^verbatim>\<open>next\<close> sees each row once, and not those of a repeated execution, \<open>Dbc_Laws\<close> what becomes of nulls, result sets and integers. What is
  expected of a driver is \<open>driver_handles\<close> and \<open>forward_cursor\<close>; both have a driver that satisfies them. Reading a blob has
  fuel, one unit for each piece the driver delivers.

  \<^bold>\<open>The interface compiler.\<close> \<open>Idl_Program\<close> has what the grammar's actions build, \<open>Idl_Context\<close> the worklist of files: it ends
  when finitely many files are reachable, whatever cycles the includes have, and parses each once. \<open>Idl_Generator\<close> has the
  base class, with a generator as an action on the output streams, \<open>Cplus_Fields\<close>, \<open>Cplus_Tx\<close>, \<open>Cplus_Generator\<close> the C++ generator and
  \<open>Csharp_Generator\<close> the C# one, both writing the text the sources write. \<open>Idl_Braces\<close> and \<open>Cplus_Braces\<close> show that every
  brace written is closed, \<open>Cplus_Laws\<close> when generation fails, \<open>Cplus_Mirror\<close> that the generated \<^verbatim>\<open>unpack\<close> reads what the
  generated \<^verbatim>\<open>pack\<close> writes (the contract \<open>message_writer\<close>, interpreted for both
  back ends), \<open>Csharp_Laws\<close> that both languages agree on the wire, \<open>Idl_Compiler\<close> that a compilation writes a
  header for each file, \<open>Idl_Tx_Laws\<close> what goes wrong with transactions.

  \<^bold>\<open>Loops that may not end.\<close> Some loops of the sources have no bound of their own. Most take fuel and give \<open>None\<close> when it is
  used up, and for each a theorem names enough fuel: one more than the number of messages for the receive loop (each takes at
  least a header from the buffer; a message of length zero is the exception, and \<open>on_recv\<close> is shown to return for no fuel),
  queue length and round limit for a runner, the length of an act's trigger queue and two (an act that triggers itself is
  the exception), the requests of a slot for the timer, the length of the string for \<open>split\<close>. The worklist of the compiler and the
  filling of segments are partial functions with values in \<open>option\<close>; that they return is part of their theorems.

  \<^bold>\<open>Not modelled.\<close> \<^verbatim>\<open>util/json.hpp\<close> (vendored, twice) and the functions that copy JSON values into
  configuration fields; the vendored msgpack headers; flex and bison output and skeletons; the logger and the macros; the
  files of \<^verbatim>\<open>net/protocol/web\<close>, the entity and spatial systems, which are empty; \<^verbatim>\<open>core/dispatcher.hpp\<close>, which includes a file that
  does not exist; \<^verbatim>\<open>zen_packer\<close>, \<^verbatim>\<open>hx\<close> and \<^verbatim>\<open>network\<close> headers that sources include and the repository lacks; the C# client; the tests.
  Floating point statistics, floating point targets of database cells, log texts and the layout of printed reports are left out.
\<close>

end
